(* ===== verification/Prelude.thy ===== *)
theory Prelude
  imports Main "HOL-Library.Word"
begin

text \<open>
  Shared ground of the development: the results of C functions that can abort, the parts of the C
  library the packaging tools call (character classes, searching in NUL terminated strings,
  \<open>strtok_r\<close>, \<open>strncmp\<close>, number formatting and number reading) and the generic lemmas on lists that
  the component theories share.

  A C string is modelled as the list of its characters without the terminating NUL; a \<open>char *\<close> that
  may be \<open>NULL\<close> is a \<open>string option\<close>. A cursor \<open>char *p\<close> into a NUL terminated buffer is the
  string that starts at \<open>p\<close>; moving the cursor forward drops characters. \<open>*p\<close> is then the head of
  that string, and NUL when the string is empty.
\<close>

named_theorems cstr_simps \<open>rewriting of the C string functions\<close>

section \<open>Faults and results\<close>

text \<open>
  What a run of the code can do besides returning: fail an \<open>assert\<close>, dereference \<open>NULL\<close>, access
  memory outside a buffer, use a pointer that was never set or that points into another object,
  compute a value that does not fit its \<open>int\<close>.
\<close>

datatype fault = AssertFail | NullDeref | BufOverrun | WildPtr | IntOverflow

type_synonym 'a res = "fault + 'a"

definition rbind :: "'a res \<Rightarrow> ('a \<Rightarrow> 'b res) \<Rightarrow> 'b res" where
  "rbind r f = (case r of Inl e \<Rightarrow> Inl e | Inr x \<Rightarrow> f x)"

lemma rbind_simps [simp]:
  "rbind (Inl e) f = Inl e" "rbind (Inr x) f = f x"
  by (simp_all add: rbind_def)

lemma rbind_Inr: "rbind r f = Inr y \<longleftrightarrow> (\<exists>x. r = Inr x \<and> f x = Inr y)"
  by (cases r) auto

text \<open>
  Arithmetic on \<open>int\<close>, where a result outside the 32 bits is undefined, and the conversion of a longer
  integer to \<open>int\<close>, which keeps the low 32 bits.
\<close>

definition in_int :: "int \<Rightarrow> bool" where
  "in_int n \<longleftrightarrow> - 2147483648 \<le> n \<and> n \<le> 2147483647"

definition cint :: "int \<Rightarrow> int res" where
  "cint n = (if in_int n then Inr n else Inl IntOverflow)"

definition to_int :: "int \<Rightarrow> int" where
  "to_int n = (n + 2147483648) mod 4294967296 - 2147483648"

lemma cint_ok: "in_int n \<Longrightarrow> cint n = Inr n"
  by (simp add: cint_def)

lemma cint_Inr: "cint n = Inr m \<longleftrightarrow> m = n \<and> in_int n"
  by (auto simp: cint_def)

lemma to_int_id: "in_int n \<Longrightarrow> to_int n = n"
  by (simp add: to_int_def in_int_def)

lemma to_int_in_int: "in_int (to_int n)"
  unfolding to_int_def in_int_def using pos_mod_bound[of 4294967296 "n + 2147483648"] pos_mod_sign[of 4294967296 "n + 2147483648"]
  by linarith

text \<open>Code that may also leave the program with \<open>quit\<close>: it runs into a fault, calls \<open>quit\<close>, or goes on.\<close>

datatype 'a mrg = MFault fault | MQuit int | MOk 'a

definition mbind :: "'a mrg \<Rightarrow> ('a \<Rightarrow> 'b mrg) \<Rightarrow> 'b mrg" where
  "mbind r f = (case r of MFault e \<Rightarrow> MFault e | MQuit n \<Rightarrow> MQuit n | MOk x \<Rightarrow> f x)"

definition mlift :: "'a res \<Rightarrow> 'a mrg" where
  "mlift r = (case r of Inl e \<Rightarrow> MFault e | Inr x \<Rightarrow> MOk x)"

lemma mbind_simps [simp]: "mbind (MFault e) f = MFault e" "mbind (MQuit n) f = MQuit n" "mbind (MOk x) f = f x"
  "mlift (Inl e) = MFault e" "mlift (Inr x) = MOk x"
  by (simp_all add: mbind_def mlift_def)

lemma mbind_MOk: "mbind r f = MOk y \<longleftrightarrow> (\<exists>x. r = MOk x \<and> f x = MOk y)"
  by (cases r) auto

lemma mlift_MOk: "mlift r = MOk x \<longleftrightarrow> r = Inr x"
  by (cases r) simp_all

section \<open>Characters\<close>

abbreviation NUL :: char where "NUL \<equiv> CHR 0x00"
abbreviation TAB :: char where "TAB \<equiv> CHR 0x09"
abbreviation NL :: char where "NL \<equiv> CHR 0x0A"
abbreviation SP :: char where "SP \<equiv> CHR 0x20"

text \<open>The \<open>ctype\<close> classes in the C locale.\<close>

definition isspace :: "char \<Rightarrow> bool" where
  "isspace c \<longleftrightarrow> c \<in> set [SP, TAB, NL, CHR 0x0B, CHR 0x0C, CHR 0x0D]"

definition isdigit :: "char \<Rightarrow> bool" where
  "isdigit c \<longleftrightarrow> c \<in> set ''0123456789''"

definition isupper :: "char \<Rightarrow> bool" where
  "isupper c \<longleftrightarrow> c \<in> set ''ABCDEFGHIJKLMNOPQRSTUVWXYZ''"

definition islower :: "char \<Rightarrow> bool" where
  "islower c \<longleftrightarrow> c \<in> set ''abcdefghijklmnopqrstuvwxyz''"

definition isalpha :: "char \<Rightarrow> bool" where
  "isalpha c \<longleftrightarrow> isupper c \<or> islower c"

definition isalnum :: "char \<Rightarrow> bool" where
  "isalnum c \<longleftrightarrow> isalpha c \<or> isdigit c"

definition isascii :: "char \<Rightarrow> bool" where
  "isascii c \<longleftrightarrow> (of_char c :: nat) < 128"

lemma not_space_NUL [simp]: "\<not> isspace NUL"
  by (simp add: isspace_def)

lemma not_digit_NUL [simp]: "\<not> isdigit NUL"
  by (simp add: isdigit_def)

lemma digit_not_space: "isdigit c \<Longrightarrow> \<not> isspace c"
  by (auto simp: isdigit_def isspace_def)

section \<open>Cursors into NUL terminated strings\<close>

text \<open>\<open>*p\<close> and \<open>p[i]\<close> for a cursor \<open>p\<close> (the index never passes the terminator in the code).\<close>

definition deref :: "string \<Rightarrow> char" where
  "deref p = (case p of [] \<Rightarrow> NUL | c # _ \<Rightarrow> c)"

definition deref_at :: "string \<Rightarrow> nat \<Rightarrow> char" where
  "deref_at p i = deref (drop i p)"

lemma deref_simps [simp]: "deref [] = NUL" "deref (c # s) = c"
  by (simp_all add: deref_def)

lemma deref_at_simps [simp]:
  "deref_at p 0 = deref p" "deref_at (c # p) (Suc i) = deref_at p i" "deref_at [] i = NUL"
  by (simp_all add: deref_at_def)

text \<open>\<open>strchr(s, c) != NULL\<close>: the terminator is part of the string, so NUL is always found.\<close>

definition in_str :: "string \<Rightarrow> char \<Rightarrow> bool" where
  "in_str s c \<longleftrightarrow> c = NUL \<or> c \<in> set s"

text \<open>\<open>strpbrk(s, set)\<close> and \<open>strrchr(s, c)\<close> as the string that starts at the character found.\<close>

definition strpbrk :: "string \<Rightarrow> string \<Rightarrow> string option" where
  "strpbrk s accept =
     (case dropWhile (\<lambda>c. c \<notin> set accept) s of [] \<Rightarrow> None | r \<Rightarrow> Some r)"

definition strchr :: "string \<Rightarrow> char \<Rightarrow> string option" where
  "strchr s c = (case dropWhile (\<lambda>x. x \<noteq> c) s of [] \<Rightarrow> None | r \<Rightarrow> Some r)"

text \<open>The offset of the last occurrence of a character.\<close>

definition strrchr :: "string \<Rightarrow> char \<Rightarrow> nat option" where
  "strrchr s c =
     (if c \<in> set s then Some (length s - Suc (length (takeWhile (\<lambda>x. x \<noteq> c) (rev s)))) else None)"

text \<open>\<open>strncpy\<close> into a zeroed buffer of \<open>n + 1\<close> bytes and \<open>strlcpy\<close> into one of \<open>n\<close> bytes.\<close>

definition strlcpy :: "string \<Rightarrow> nat \<Rightarrow> string" where
  "strlcpy s n = take (n - 1) s"

lemma strpbrk_None: "strpbrk s a = None \<longleftrightarrow> set s \<inter> set a = {}"
proof -
  have "strpbrk s a = None \<longleftrightarrow> dropWhile (\<lambda>c. c \<notin> set a) s = []"
    unfolding strpbrk_def by (simp del: dropWhile_eq_Nil_conv split: list.split)
  then show ?thesis by auto
qed

lemma strpbrk_Some_hd: "strpbrk s a = Some r \<Longrightarrow> r \<noteq> [] \<and> hd r \<in> set a"
  by (auto simp: strpbrk_def dropWhile_eq_Cons_conv split: list.splits)

section \<open>Tokens\<close>

text \<open>
  \<open>strtok_r(NULL, seps, &lasts)\<close> on the string at \<open>lasts\<close>: skip separators; at the end of the
  string there is no token; otherwise the token runs up to the next separator, which is
  overwritten and skipped.
\<close>

definition strtok_r :: "string \<Rightarrow> string \<Rightarrow> (string \<times> string) option" where
  "strtok_r seps s =
     (let s' = dropWhile (\<lambda>c. c \<in> set seps) s in
      if s' = [] then None
      else Some (takeWhile (\<lambda>c. c \<notin> set seps) s', drop 1 (dropWhile (\<lambda>c. c \<notin> set seps) s')))"

lemma strtok_r_length:
  assumes "strtok_r seps s = Some (t, r)" shows "length r < length s"
proof -
  let ?s = "dropWhile (\<lambda>c. c \<in> set seps) s"
  from assms have ne: "?s \<noteq> []" and r: "r = drop 1 (dropWhile (\<lambda>c. c \<notin> set seps) ?s)"
    by (auto simp: strtok_r_def Let_def split: if_splits)
  have "length (dropWhile (\<lambda>c. c \<notin> set seps) ?s) \<le> length ?s" by (rule length_dropWhile_le)
  moreover have "length ?s \<le> length s" by (rule length_dropWhile_le)
  ultimately show ?thesis using ne r by (cases ?s) auto
qed

text \<open>
  The specification of tokenising, independent of the scanning: cut the string at every separator
  and keep the non-empty pieces.
\<close>

fun split_on :: "string \<Rightarrow> string \<Rightarrow> string list" where
  "split_on seps [] = [[]]"
| "split_on seps (c # s) =
     (if c \<in> set seps then [] # split_on seps s
      else (case split_on seps s of [] \<Rightarrow> [[c]] | p # ps \<Rightarrow> (c # p) # ps))"

definition tokens :: "string \<Rightarrow> string \<Rightarrow> string list" where
  "tokens seps s = filter (\<lambda>t. t \<noteq> []) (split_on seps s)"

lemma split_on_ne [simp]: "split_on seps s \<noteq> []"
  by (induction s) (auto split: list.splits)

lemma split_on_no_sep: "set s \<inter> set seps = {} \<Longrightarrow> split_on seps s = [s]"
  by (induction s) auto

lemma split_on_append_sep:
  assumes "set t \<inter> set seps = {}" "c \<in> set seps"
  shows "split_on seps (t @ c # s) = t # split_on seps s"
  using assms by (induction t) auto

lemma tokens_Nil [simp]: "tokens seps [] = []"
  by (simp add: tokens_def)

lemma tokens_skip [simp]: "c \<in> set seps \<Longrightarrow> tokens seps (c # s) = tokens seps s"
  by (simp add: tokens_def)

lemma tokens_dropWhile: "tokens seps (dropWhile (\<lambda>c. c \<in> set seps) s) = tokens seps s"
  by (induction s) auto

lemma tokens_single: "t \<noteq> [] \<Longrightarrow> set t \<inter> set seps = {} \<Longrightarrow> tokens seps t = [t]"
  by (simp add: tokens_def split_on_no_sep)

lemma tokens_append_sep:
  "t \<noteq> [] \<Longrightarrow> set t \<inter> set seps = {} \<Longrightarrow> c \<in> set seps \<Longrightarrow>
   tokens seps (t @ c # s) = t # tokens seps s"
  by (simp add: tokens_def split_on_append_sep)

lemma takeWhile_disjoint: "set (takeWhile (\<lambda>c. c \<notin> A) s) \<inter> A = {}"
  by (auto dest: set_takeWhileD)

lemma strtok_r_tokens:
  "tokens seps s = (case strtok_r seps s of None \<Rightarrow> [] | Some (t, r) \<Rightarrow> t # tokens seps r)"
proof (cases "dropWhile (\<lambda>c. c \<in> set seps) s")
  case Nil
  then have "tokens seps s = []" by (metis tokens_dropWhile tokens_Nil)
  with Nil show ?thesis by (simp add: strtok_r_def)
next
  case (Cons c u)
  let ?P = "\<lambda>c. c \<notin> set seps"
  have c: "?P c" using Cons by (auto simp: dropWhile_eq_Cons_conv)
  let ?t = "takeWhile ?P (c # u)" and ?d = "dropWhile ?P (c # u)"
  have t: "?t \<noteq> []" "set ?t \<inter> set seps = {}" using c by (auto dest: set_takeWhileD)
  have st: "strtok_r seps s = Some (?t, drop 1 ?d)" using Cons by (simp add: strtok_r_def Let_def)
  have "tokens seps (c # u) = ?t # tokens seps (drop 1 ?d)"
  proof (cases ?d)
    case Nil
    have "?t @ ?d = c # u" by (rule takeWhile_dropWhile_id)
    then have "c # u = ?t" by (metis Nil append_Nil2)
    then have "tokens seps (c # u) = [?t]" using t by (metis tokens_single)
    then show ?thesis using Nil by simp
  next
    case (Cons x v)
    have "?t @ ?d = c # u" by (rule takeWhile_dropWhile_id)
    then have e: "c # u = ?t @ x # v" using Cons by metis
    have x: "x \<in> set seps" using Cons hd_dropWhile [of ?P "c # u"] by (metis list.sel(1) list.simps(3))
    have "tokens seps (?t @ x # v) = ?t # tokens seps v"
      using t x by (rule tokens_append_sep)
    then show ?thesis using e Cons by (metis drop0 drop_Suc_Cons One_nat_def)
  qed
  then have "tokens seps s = ?t # tokens seps (drop 1 ?d)" by (metis Cons tokens_dropWhile)
  then show ?thesis using st by simp
qed

lemma tokens_ne: "t \<in> set (tokens seps s) \<Longrightarrow> t \<noteq> []"
  by (simp add: tokens_def)

lemma split_on_set: "p \<in> set (split_on seps s) \<Longrightarrow> set p \<inter> set seps = {}"
proof (induction s arbitrary: p)
  case (Cons c s)
  then show ?case
  proof (cases "c \<in> set seps")
    case False
    obtain q qs where q: "split_on seps s = q # qs" by (meson neq_Nil_conv split_on_ne)
    then show ?thesis using Cons False by fastforce
  qed auto
qed simp

lemma tokens_set: "t \<in> set (tokens seps s) \<Longrightarrow> set t \<inter> set seps = {}"
  by (auto simp: tokens_def dest: split_on_set)

lemma split_on_subset: "p \<in> set (split_on seps s) \<Longrightarrow> set p \<subseteq> set s"
proof (induction s arbitrary: p)
  case (Cons c s)
  obtain q qs where q: "split_on seps s = q # qs" by (meson neq_Nil_conv split_on_ne)
  show ?case
  proof (cases "c \<in> set seps")
    case True
    then show ?thesis using Cons by fastforce
  next
    case False
    then show ?thesis using Cons q by fastforce
  qed
qed simp

lemma tokens_subset: "t \<in> set (tokens seps s) \<Longrightarrow> set t \<subseteq> set s"
  by (auto simp: tokens_def dest: split_on_subset)

lemma split_on_append: "c \<in> set seps \<Longrightarrow> split_on seps (s @ c # t) = split_on seps s @ split_on seps t"
  by (induction s) (auto split: list.splits)

lemma tokens_append: "c \<in> set seps \<Longrightarrow> tokens seps (s @ c # t) = tokens seps s @ tokens seps t"
  by (simp add: tokens_def split_on_append)

lemma tokens_append_one:
  assumes "t \<noteq> []" "set t \<inter> set seps = {}" "c \<in> set seps"
  shows "tokens seps (s @ c # t) = tokens seps s @ [t]"
proof -
  have "split_on seps (s @ c # t) = split_on seps s @ [t]"
    using assms by (induction s) (auto simp: split_on_no_sep split: list.splits)
  then show ?thesis using assms by (simp add: tokens_def)
qed

section \<open>Joining\<close>

definition join_sep :: "char \<Rightarrow> string list \<Rightarrow> string" where
  "join_sep c ts = (case ts of [] \<Rightarrow> [] | t # us \<Rightarrow> t @ concat (map (\<lambda>u. c # u) us))"

lemma join_sep_simps [simp]: "join_sep c [] = []" "join_sep c [t] = t"
  by (simp_all add: join_sep_def)

lemma join_sep_snoc: "ts \<noteq> [] \<Longrightarrow> join_sep c (ts @ [t]) = join_sep c ts @ c # t"
  by (auto simp: join_sep_def neq_Nil_conv)

lemma length_join_sep: "ts \<noteq> [] \<Longrightarrow>
   Suc (length (join_sep c ts)) = sum_list (map length ts) + length ts"
proof (induction ts rule: rev_induct)
  case (snoc x xs)
  then show ?case by (cases "xs = []") (simp_all add: join_sep_snoc)
qed simp

lemma join_sep_Nil_iff: "\<forall>t \<in> set ts. t \<noteq> [] \<Longrightarrow> join_sep c ts = [] \<longleftrightarrow> ts = []"
  by (cases ts) (auto simp: join_sep_def)

lemma tokens_join_sep:
  assumes "c \<in> set seps" "\<forall>t \<in> set ts. t \<noteq> [] \<and> set t \<inter> set seps = {}"
  shows "tokens seps (join_sep c ts) = ts"
  using assms(2)
proof (induction ts rule: rev_induct)
  case (snoc t ts)
  then show ?case using assms(1)
    by (cases "ts = []") (simp_all add: join_sep_snoc tokens_append_one tokens_single)
qed simp

section \<open>Runs of operations\<close>

text \<open>
  A sequence of operations on a state, any of which may end in a fault, and what it means that a
  specification \<open>spec\<close> on abstract values describes it as long as each operation is allowed, \<open>ok\<close>.
\<close>

fun run_ops :: "('c \<Rightarrow> 's \<Rightarrow> 's res) \<Rightarrow> 'c list \<Rightarrow> 's \<Rightarrow> 's res" where
  "run_ops exec [] s = Inr s"
| "run_ops exec (c # cs) s = rbind (exec c s) (run_ops exec cs)"

fun ops_ok :: "('c \<Rightarrow> 'v \<Rightarrow> bool) \<Rightarrow> ('c \<Rightarrow> 'v \<Rightarrow> 'v) \<Rightarrow> 'c list \<Rightarrow> 'v \<Rightarrow> bool" where
  "ops_ok ok spec [] v = True"
| "ops_ok ok spec (c # cs) v = (ok c v \<and> ops_ok ok spec cs (spec c v))"

locale simulation =
  fixes rel :: "'s \<Rightarrow> 'v \<Rightarrow> bool"
    and exec :: "'c \<Rightarrow> 's \<Rightarrow> 's res"
    and spec :: "'c \<Rightarrow> 'v \<Rightarrow> 'v"
    and ok :: "'c \<Rightarrow> 'v \<Rightarrow> bool"
  assumes step: "rel s v \<Longrightarrow> ok c v \<Longrightarrow> \<exists>s'. exec c s = Inr s' \<and> rel s' (spec c v)"
begin

lemma run: "rel s v \<Longrightarrow> ops_ok ok spec cs v \<Longrightarrow> \<exists>s'. run_ops exec cs s = Inr s' \<and> rel s' (fold spec cs v)"
proof (induction cs arbitrary: s v)
  case (Cons c cs)
  then obtain s1 where s1: "exec c s = Inr s1" "rel s1 (spec c v)" using step by fastforce
  then show ?case using Cons by simp
qed simp

end

end
