(* ===== verification/Cnum.thy ===== *)
theory Cnum
  imports Prelude
begin

text \<open>
  Numbers in C text: \<open>printf\<close> conversions (\<open>%d\<close>, \<open>%ld\<close>, \<open>%llu\<close>, \<open>%04o\<close>, field widths), the digit
  loops that read numbers back, \<open>strtoull\<close> and \<open>strtol\<close>, and the rounding of single precision
  division and of \<open>%.1f\<close>. The machine integers are those of an LP64 system.
\<close>

type_synonym u64 = "64 word"
type_synonym u32 = "32 word"
type_synonym u16 = "16 word"

section \<open>Printing\<close>

definition digit_char :: "nat \<Rightarrow> char" where
  "digit_char d = ''0123456789'' ! d"

fun show_base :: "nat \<Rightarrow> nat \<Rightarrow> string" where
  "show_base b n =
     (if b < 2 \<or> n < b then [digit_char n] else show_base b (n div b) @ [digit_char (n mod b)])"

declare show_base.simps [simp del]

abbreviation show_nat :: "nat \<Rightarrow> string" where
  "show_nat \<equiv> show_base 10"

abbreviation show_oct :: "nat \<Rightarrow> string" where
  "show_oct \<equiv> show_base 8"

definition show_int :: "int \<Rightarrow> string" where
  "show_int i = (if i < 0 then CHR ''-'' # show_nat (nat (- i)) else show_nat (nat i))"

text \<open>\<open>%4x\<close> pads with blanks, \<open>%04x\<close> with zeros.\<close>

definition pad_left :: "char \<Rightarrow> nat \<Rightarrow> string \<Rightarrow> string" where
  "pad_left c w s = replicate (w - length s) c @ s"

definition pad_right :: "char \<Rightarrow> nat \<Rightarrow> string \<Rightarrow> string" where
  "pad_right c w s = s @ replicate (w - length s) c"

section \<open>Reading\<close>

text \<open>The value of a digit as the code takes it, \<open>c & 017\<close>.\<close>

definition digit_val :: "char \<Rightarrow> nat" where
  "digit_val c = of_char c mod 16"

definition read_base :: "nat \<Rightarrow> nat \<Rightarrow> string \<Rightarrow> nat" where
  "read_base b acc s = foldl (\<lambda>a c. a * b + digit_val c) acc s"

abbreviation read_nat :: "string \<Rightarrow> nat" where
  "read_nat \<equiv> read_base 10 0"

text \<open>
  \<open>strtoull(s, NULL, 10)\<close>: blanks, an optional sign, digits; \<open>ULLONG_MAX\<close> when the digits exceed
  64 bits, the two's complement negation after a minus sign.
\<close>

definition strtoull10 :: "string \<Rightarrow> u64" where
  "strtoull10 s =
     (let t = dropWhile isspace s;
          neg = (deref t = CHR ''-'');
          u = (if deref t = CHR ''-'' \<or> deref t = CHR ''+'' then drop 1 t else t);
          v = read_nat (takeWhile isdigit u)
      in if v \<ge> 2 ^ 64 then - 1 else if neg then - of_nat v else of_nat v)"

text \<open>
  \<open>strtol(s, NULL, 8)\<close>: blanks, an optional sign, octal digits; saturates at \<open>LONG_MAX\<close> and
  \<open>LONG_MIN\<close>.
\<close>

definition strtol8 :: "string \<Rightarrow> u64" where
  "strtol8 s =
     (let t = dropWhile isspace s;
          neg = (deref t = CHR ''-'');
          u = (if deref t = CHR ''-'' \<or> deref t = CHR ''+'' then drop 1 t else t);
          v = read_base 8 0 (takeWhile (\<lambda>c. c \<in> set ''01234567'') u)
      in if neg then (if v \<ge> 2 ^ 63 then - (2 ^ 63) else - of_nat v)
         else if v \<ge> 2 ^ 63 then 2 ^ 63 - 1 else of_nat v)"

section \<open>Rounding\<close>

text \<open>Round the quotient \<open>a / b\<close> to the nearest integer, ties to even.\<close>

definition rne :: "nat \<Rightarrow> nat \<Rightarrow> nat" where
  "rne a b =
     (let q = a div b; r = a mod b in
      if 2 * r < b then q else if 2 * r > b then q + 1 else if even q then q else q + 1)"

lemma rne_bounds:
  assumes "b > 0"
  shows "2 * (rne a b * b) \<le> 2 * a + b" "2 * a \<le> 2 * (rne a b * b) + b"
proof -
  have "a = a div b * b + a mod b" by (metis div_mult_mod_eq)
  moreover have "a mod b < b" using assms by simp
  moreover define q where "q = a div b"
  moreover define r where "r = a mod b"
  ultimately have ab: "a = q * b + r" "r < b" by auto
  have e: "rne a b = (if 2 * r < b then q else if 2 * r > b then q + 1 else if even q then q else q + 1)"
    by (simp add: rne_def q_def r_def Let_def)
  show "2 * (rne a b * b) \<le> 2 * a + b" unfolding e using ab by (auto simp: algebra_simps)
  show "2 * a \<le> 2 * (rne a b * b) + b" unfolding e using ab by (auto simp: algebra_simps)
qed

section \<open>Printing and reading are inverse\<close>

lemma digit_cases:
  assumes "d < (10::nat)"
  obtains "d = 0" | "d = 1" | "d = 2" | "d = 3" | "d = 4" | "d = 5" | "d = 6" | "d = 7" | "d = 8"
    | "d = 9"
proof -
  from assms have "d = 0 \<or> d = 1 \<or> d = 2 \<or> d = 3 \<or> d = 4 \<or> d = 5 \<or> d = 6 \<or> d = 7 \<or> d = 8 \<or> d = 9"
    by arith
  then show thesis by (elim disjE) (rule that; assumption)+
qed

lemma digit_val_simps [simp]:
  "digit_val (CHR ''0'') = 0" "digit_val (CHR ''1'') = 1" "digit_val (CHR ''2'') = 2"
  "digit_val (CHR ''3'') = 3" "digit_val (CHR ''4'') = 4" "digit_val (CHR ''5'') = 5"
  "digit_val (CHR ''6'') = 6" "digit_val (CHR ''7'') = 7" "digit_val (CHR ''8'') = 8"
  "digit_val (CHR ''9'') = 9"
  by (simp_all add: digit_val_def)

lemma digit_val_char: "d < 10 \<Longrightarrow> digit_val (digit_char d) = d"
  by (erule digit_cases) (simp_all add: digit_char_def)

lemma digit_char_isdigit: "d < 10 \<Longrightarrow> isdigit (digit_char d)"
  by (erule digit_cases) (simp_all add: digit_char_def isdigit_def)

lemma mod_small: "2 \<le> b \<Longrightarrow> b \<le> 10 \<Longrightarrow> n mod b < (10::nat)"
  using mod_less_divisor [of b n] by linarith

lemma show_base_ne [simp]: "show_base b n \<noteq> []"
  by (subst show_base.simps) simp

lemma show_base_digits:
  "2 \<le> b \<Longrightarrow> b \<le> 10 \<Longrightarrow> \<forall>c \<in> set (show_base b n). isdigit c"
proof (induction b n rule: show_base.induct)
  case (1 b n)
  show ?case
  proof (cases "n < b")
    case True
    then show ?thesis using "1.prems" by (subst show_base.simps) (auto intro: digit_char_isdigit)
  next
    case False
    then have "\<forall>c \<in> set (show_base b (n div b)). isdigit c" using 1 by auto
    moreover have "n mod b < 10" using "1.prems" by (rule mod_small)
    ultimately show ?thesis using False "1.prems"
      by (subst show_base.simps) (auto intro: digit_char_isdigit)
  qed
qed

lemma read_base_append: "read_base b acc (s @ t) = read_base b (read_base b acc s) t"
  by (simp add: read_base_def)

lemma read_base_Nil [simp]: "read_base b acc [] = acc"
  by (simp add: read_base_def)

lemma read_base_Cons: "read_base b acc (c # s) = read_base b (acc * b + digit_val c) s"
  by (simp add: read_base_def)

lemma read_show_base: "2 \<le> b \<Longrightarrow> b \<le> 10 \<Longrightarrow> read_base b 0 (show_base b n) = n"
proof (induction b n rule: show_base.induct)
  case (1 b n)
  show ?case
  proof (cases "n < b")
    case True
    then show ?thesis using "1.prems"
      by (subst show_base.simps) (simp add: read_base_Cons digit_val_char)
  next
    case False
    then have ih: "read_base b 0 (show_base b (n div b)) = n div b" using 1 by auto
    have "n mod b < 10" using "1.prems" by (rule mod_small)
    then have "read_base b 0 (show_base b (n div b) @ [digit_char (n mod b)]) = n div b * b + n mod b"
      by (simp add: read_base_append ih read_base_Cons digit_val_char)
    then show ?thesis using False "1.prems" by (subst show_base.simps) simp
  qed
qed

lemma read_base_zeros: "read_base b 0 (replicate k (CHR ''0'') @ s) = read_base b 0 s"
  by (induction k) (simp_all add: read_base_Cons)

lemma read_pad_zero: "read_base b 0 (pad_left (CHR ''0'') w s) = read_base b 0 s"
  by (simp add: pad_left_def read_base_zeros)

lemma pad_left_digits:
  "\<forall>c \<in> set s. isdigit c \<Longrightarrow> \<forall>c \<in> set (pad_left (CHR ''0'') w s). isdigit c"
  using digit_char_isdigit [of 0] by (auto simp: pad_left_def digit_char_def)

lemma pad_left_ne [simp]: "pad_left c w s = [] \<longleftrightarrow> w = 0 \<and> s = []"
  by (auto simp: pad_left_def)

lemma show_base_length: "2 \<le> b \<Longrightarrow> n < b ^ k \<Longrightarrow> 0 < k \<Longrightarrow> length (show_base b n) \<le> k"
proof (induction k arbitrary: n)
  case (Suc k)
  show ?case
  proof (cases "n < b")
    case True
    then show ?thesis by (subst show_base.simps) simp
  next
    case False
    then have "0 < k" using Suc.prems by (cases k) auto
    moreover have "n div b < b ^ k" using Suc.prems by (simp add: less_mult_imp_div_less mult.commute)
    ultimately have "length (show_base b (n div b)) \<le> k" using Suc by simp
    then show ?thesis using False Suc.prems by (subst show_base.simps) simp
  qed
qed simp

end
