(* ===== verification/Pkgstr.thy ===== *)
theory Pkgstr
  imports Cnum
begin

text \<open>
  The general string services of \<open>libpkg/pkgstr.c\<close>: tokens, leading white space, base and directory
  names of paths, scaled numbers and time strings.

  Allocation is taken to succeed (\<open>strdup\<close>, \<open>calloc\<close> return storage) and the handles \<open>char **\<close> are
  the addresses of the callers' variables; every other entry assertion is a branch that ends in
  \<open>AssertFail\<close>, and every write into a fixed buffer is checked against its size.
\<close>

section \<open>Data\<close>

text \<open>\<open>LINE_MAX\<close> of the target system (Darwin and Linux: 2048).\<close>

definition LINE_MAX :: nat where "LINE_MAX = 2048"

section \<open>Operations\<close>

definition pkgstrRemoveLeadingWhitespace :: "string option \<Rightarrow> string option" where
  "pkgstrRemoveLeadingWhitespace a_str =
     (case a_str of
        None \<Rightarrow> None
      | Some s \<Rightarrow>
          if s = [] then None
          else if \<not> isspace (deref s) then Some s
          else (let o_str = dropWhile isspace s in if o_str = [] then None else Some o_str))"

text \<open>
  The scan of \<open>pkgstrGetToken\<close>: \<open>r_sep\<close> is the pointee of the pointer of that name (\<open>None\<close> for a
  \<open>NULL\<close> pointer), \<open>lasts\<close> what is left of the duplicated string.
\<close>

definition sep_update :: "char option \<Rightarrow> string \<Rightarrow> string \<Rightarrow> char option" where
  "sep_update r_sep a_string seps =
     (case r_sep of
        None \<Rightarrow> None
      | Some x \<Rightarrow> (case strpbrk a_string seps of None \<Rightarrow> Some x | Some y \<Rightarrow> Some (deref y)))"

function get_token_loop ::
  "string \<Rightarrow> string \<Rightarrow> char option \<Rightarrow> int \<Rightarrow> string \<Rightarrow> char option \<times> string option" where
  "get_token_loop a_string seps r_sep a_index lasts =
     (case strtok_r seps lasts of
        None \<Rightarrow> (r_sep, None)
      | Some (q, lasts') \<Rightarrow>
          (let r_sep' = sep_update r_sep a_string seps in
           if a_index = 0 then (r_sep', Some q)
           else get_token_loop a_string seps r_sep' (a_index - 1) lasts'))"
  by pat_completeness auto
termination
  by (relation "measure (\<lambda>(_, _, _, _, lasts). length lasts)") (auto dest: strtok_r_length)

declare get_token_loop.simps [simp del]

definition pkgstrGetToken ::
  "char option \<Rightarrow> string option \<Rightarrow> int \<Rightarrow> string option \<Rightarrow> (char option \<times> string option) res" where
  "pkgstrGetToken r_sep a_string a_index a_separators =
     (case (a_string, a_separators) of
        (Some s, Some seps) \<Rightarrow>
          if a_index < 0 \<or> seps = [] then Inl AssertFail
          else Inr (get_token_loop s seps (map_option (\<lambda>_. NUL) r_sep) a_index s)
      | _ \<Rightarrow> Inl AssertFail)"

text \<open>
  The variant that copies the token into a buffer of \<open>a_bufLen\<close> bytes; the result is the text left
  in the buffer, empty when there is no such token.
\<close>

definition pkgstrGetToken_r ::
  "char option \<Rightarrow> string option \<Rightarrow> int \<Rightarrow> string option \<Rightarrow> int \<Rightarrow> (char option \<times> string) res" where
  "pkgstrGetToken_r r_sep a_string a_index a_separators a_bufLen =
     (case (a_string, a_separators) of
        (Some s, Some seps) \<Rightarrow>
          if a_index < 0 \<or> seps = [] \<or> a_bufLen \<le> 0 then Inl AssertFail
          else
            (case get_token_loop s seps (map_option (\<lambda>_. NUL) r_sep) a_index s of
               (sep, None) \<Rightarrow> Inr (sep, [])
             | (sep, Some q) \<Rightarrow> Inr (sep, take (nat (a_bufLen - 1)) q))
      | _ \<Rightarrow> Inl AssertFail)"

text \<open>
  \<open>pkgstrPrintf\<close> and \<open>pkgstrPrintf_r\<close> for a format whose conversion yields \<open>out\<close>. The second hands
  \<open>vsnprintf\<close> one byte less than the buffer has, so at most \<open>a_bufLen - 2\<close> characters arrive.
\<close>

definition pkgstrPrintf :: "string \<Rightarrow> string res" where
  "pkgstrPrintf out = (if out = [] \<or> \<not> length out < LINE_MAX then Inl AssertFail else Inr out)"

definition pkgstrPrintf_r :: "int \<Rightarrow> string \<Rightarrow> string res" where
  "pkgstrPrintf_r a_bufLen out =
     (if a_bufLen \<le> 1 then Inl AssertFail
      else if out = [] \<or> \<not> int (length out) < a_bufLen then Inl AssertFail
      else Inr (take (nat (a_bufLen - 2)) out))"

definition pkgstrAddToken :: "string option \<Rightarrow> string option \<Rightarrow> char \<Rightarrow> string option res" where
  "pkgstrAddToken a_old a_new a_separator =
     (if a_separator = NUL then Inl AssertFail
      else case a_new of
        None \<Rightarrow> Inr a_old
      | Some new \<Rightarrow>
          if new = [] then Inr a_old
          else if a_separator \<in> set new then Inl AssertFail
          else (let old = (if a_old = Some [] then None else a_old) in
            case old of
              Some p \<Rightarrow> rbind (pkgstrPrintf (p @ [a_separator] @ new)) (\<lambda>r. Inr (Some r))
            | None \<Rightarrow> Inr (Some new)))"

function contains_loop :: "string \<Rightarrow> string \<Rightarrow> string \<Rightarrow> bool" where
  "contains_loop seps a_token lasts =
     (case strtok_r seps lasts of
        None \<Rightarrow> False
      | Some (current, lasts') \<Rightarrow>
          if current = a_token then True else contains_loop seps a_token lasts')"
  by pat_completeness auto
termination
  by (relation "measure (\<lambda>(_, _, lasts). length lasts)") (auto dest: strtok_r_length)

declare contains_loop.simps [simp del]

definition pkgstrContainsToken :: "string option \<Rightarrow> string option \<Rightarrow> string option \<Rightarrow> bool res" where
  "pkgstrContainsToken a_string a_token a_separators =
     (case a_separators of
        None \<Rightarrow> Inl AssertFail
      | Some seps \<Rightarrow>
          if seps = [] then Inl AssertFail
          else (case (a_token, a_string) of
              (Some tok, Some s) \<Rightarrow> if s = [] then Inr False else Inr (contains_loop seps tok s)
            | _ \<Rightarrow> Inr False))"

section \<open>Tokens by index\<close>

lemma get_token_loop_snd:
  "0 \<le> i \<Longrightarrow> snd (get_token_loop a seps r i lasts) =
     (if nat i < length (tokens seps lasts) then Some (tokens seps lasts ! nat i) else None)"
proof (induction a seps r i lasts rule: get_token_loop.induct)
  case (1 a seps r i lasts)
  show ?case
  proof (cases "strtok_r seps lasts")
    case None
    then show ?thesis by (simp add: get_token_loop.simps strtok_r_tokens [of seps lasts])
  next
    case (Some p)
    obtain q rest where p: "p = (q, rest)" by (cases p)
    then have tk: "tokens seps lasts = q # tokens seps rest"
      using Some by (simp add: strtok_r_tokens [of seps lasts])
    show ?thesis
    proof (cases "i = 0")
      case True
      then show ?thesis using Some p tk by (simp add: get_token_loop.simps Let_def)
    next
      case False
      then have "nat i = Suc (nat (i - 1))" using "1.prems" by simp
      moreover have "snd (get_token_loop a seps (sep_update r a seps) (i - 1) rest) =
          (if nat (i - 1) < length (tokens seps rest) then Some (tokens seps rest ! nat (i - 1)) else None)"
        using 1 Some p False by auto
      ultimately show ?thesis
        using Some p tk False by (simp add: get_token_loop.simps [of a seps r i lasts] Let_def)
    qed
  qed
qed

lemma sep_update_twice [simp]: "sep_update (sep_update r a seps) a seps = sep_update r a seps"
  by (auto simp: sep_update_def split: option.splits)

lemma get_token_loop_fst:
  "fst (get_token_loop a seps r i lasts) =
     (if tokens seps lasts = [] then r else sep_update r a seps)"
proof (induction a seps r i lasts rule: get_token_loop.induct)
  case (1 a seps r i lasts)
  show ?case
  proof (cases "strtok_r seps lasts")
    case None
    then show ?thesis by (simp add: get_token_loop.simps strtok_r_tokens [of seps lasts])
  next
    case (Some p)
    obtain q rest where p: "p = (q, rest)" by (cases p)
    then have tk: "tokens seps lasts = q # tokens seps rest"
      using Some by (simp add: strtok_r_tokens [of seps lasts])
    have ih: "i \<noteq> 0 \<Longrightarrow> fst (get_token_loop a seps (sep_update r a seps) (i - 1) rest) = sep_update r a seps"
      using 1 Some p by auto
    show ?thesis using ih Some p tk
      by (simp add: get_token_loop.simps [of a seps r i lasts] Let_def)
  qed
qed

lemma contains_loop_tokens: "contains_loop seps t s \<longleftrightarrow> t \<in> set (tokens seps s)"
proof (induction seps t s rule: contains_loop.induct)
  case (1 seps t s)
  then show ?case
    by (subst contains_loop.simps)
      (auto simp: strtok_r_tokens [of seps s] split: option.splits prod.splits)
qed

lemma pkgstrGetToken_eq:
  assumes "seps \<noteq> []" "0 \<le> i"
  shows "pkgstrGetToken None (Some s) i (Some seps) =
     Inr (None, if nat i < length (tokens seps s) then Some (tokens seps s ! nat i) else None)"
proof -
  have "fst (get_token_loop s seps None i s) = None"
    by (simp add: get_token_loop_fst sep_update_def)
  then have "get_token_loop s seps None i s =
      (None, if nat i < length (tokens seps s) then Some (tokens seps s ! nat i) else None)"
    using get_token_loop_snd [OF assms(2), of s seps None s] by (cases "get_token_loop s seps None i s") auto
  then show ?thesis using assms by (simp add: pkgstrGetToken_def)
qed

section \<open>Loops over the token index\<close>

text \<open>
  \<open>pkgstrNumTokens\<close> asks for the tokens 0, 1, \<open>\<dots>\<close> until there is none; the loop ends because the
  string has finitely many tokens.
\<close>

function num_tokens_loop :: "string \<Rightarrow> string option \<Rightarrow> nat \<Rightarrow> nat res" where
  "num_tokens_loop s a_separators index =
     (case pkgstrGetToken None (Some s) (int index) a_separators of
        Inl f \<Rightarrow> Inl f
      | Inr (_, None) \<Rightarrow> Inr index
      | Inr (_, Some p) \<Rightarrow> num_tokens_loop s a_separators (Suc index))"
  by pat_completeness auto
termination
proof (relation "measure (\<lambda>(s, a, i). length (tokens (case a of None \<Rightarrow> [] | Some x \<Rightarrow> x) s) - i)")
  fix s a i x y z w
  assume "pkgstrGetToken None (Some s) (int i) a = Inr x" "(y, z) = x" "z = Some w"
  then have "pkgstrGetToken None (Some s) (int i) a = Inr (y, Some w)" by simp
  moreover from this obtain seps where a: "a = Some seps" "seps \<noteq> []"
    by (auto simp: pkgstrGetToken_def split: option.splits if_splits)
  ultimately have "i < length (tokens seps s)"
    by (auto simp: pkgstrGetToken_eq split: if_splits)
  then show "((s, a, Suc i), (s, a, i)) \<in> measure (\<lambda>(s, a, i).
      length (tokens (case a of None \<Rightarrow> [] | Some x \<Rightarrow> x) s) - i)"
    using a by simp
qed auto

declare num_tokens_loop.simps [simp del]

definition pkgstrNumTokens :: "string option \<Rightarrow> string option \<Rightarrow> nat res" where
  "pkgstrNumTokens a_string a_separators =
     (case a_string of
        None \<Rightarrow> Inr 0
      | Some s \<Rightarrow> if s = [] then Inr 0 else num_tokens_loop s a_separators 0)"

text \<open>
  \<open>pkgstrExpandTokens\<close>: every token of the string that the target does not contain yet is added
  to it. A NUL separator makes the one-character separator string empty.
\<close>

function expand_loop :: "string option \<Rightarrow> char \<Rightarrow> string option \<Rightarrow> nat \<Rightarrow> string option \<Rightarrow> string option res" where
  "expand_loop a_string a_separator a_separators i a_old =
     (case pkgstrGetToken None a_string (int i) a_separators of
        Inl f \<Rightarrow> Inl f
      | Inr (_, None) \<Rightarrow> Inr a_old
      | Inr (_, Some p) \<Rightarrow>
          (case pkgstrContainsToken a_old (Some p)
                  (Some (if a_separator = NUL then [] else [a_separator])) of
             Inl f \<Rightarrow> Inl f
           | Inr found \<Rightarrow>
               (case (if found then Inr a_old else pkgstrAddToken a_old (Some p) a_separator) of
                  Inl f \<Rightarrow> Inl f
                | Inr a_old' \<Rightarrow> expand_loop a_string a_separator a_separators (Suc i) a_old')))"
  by pat_completeness auto
termination
proof (relation "measure (\<lambda>(s, c, a, i, r). length (tokens (case a of None \<Rightarrow> [] | Some x \<Rightarrow> x)
    (case s of None \<Rightarrow> [] | Some x \<Rightarrow> x)) - i)", goal_cases)
  case (2 s c a i r x y z w)
  then have g: "pkgstrGetToken None s (int i) a = Inr (y, Some w)" by simp
  then obtain str seps where a: "s = Some str" "a = Some seps" "seps \<noteq> []"
    by (auto simp: pkgstrGetToken_def split: option.splits if_splits)
  with g have "i < length (tokens seps str)" by (auto simp: pkgstrGetToken_eq split: if_splits)
  then show ?case using a by simp
qed auto

declare expand_loop.simps [simp del]

definition pkgstrExpandTokens ::
  "string option \<Rightarrow> string option \<Rightarrow> char \<Rightarrow> string option \<Rightarrow> string option res" where
  "pkgstrExpandTokens a_old a_string a_separator a_separators =
     expand_loop a_string a_separator a_separators 0 a_old"

lemma pkgstrGetToken_sep:
  assumes "seps \<noteq> []" "0 \<le> i"
  shows "pkgstrGetToken (Some x) (Some s) i (Some seps) =
     Inr (if tokens seps s = [] then Some NUL else sep_update (Some NUL) s seps,
          if nat i < length (tokens seps s) then Some (tokens seps s ! nat i) else None)"
proof -
  let ?g = "get_token_loop s seps (Some NUL) i s"
  have "?g = (fst ?g, snd ?g)" by simp
  also have "fst ?g = (if tokens seps s = [] then Some NUL else sep_update (Some NUL) s seps)"
    by (rule get_token_loop_fst)
  also have "snd ?g = (if nat i < length (tokens seps s) then Some (tokens seps s ! nat i) else None)"
    using assms by (simp add: get_token_loop_snd)
  finally show ?thesis using assms by (simp add: pkgstrGetToken_def)
qed

lemma pkgstrGetToken_Some_index:
  assumes "pkgstrGetToken (Some x) (Some s) (int i) (Some seps) = Inr (y, Some p)"
  shows "i < length (tokens seps s)"
proof -
  have "seps \<noteq> []" using assms by (auto simp: pkgstrGetToken_def split: if_splits)
  with assms show ?thesis by (auto simp: pkgstrGetToken_sep split: if_splits)
qed

text \<open>
  \<open>pkgstrRemoveToken\<close> rebuilds the string token by token in a buffer of \<open>copyLength\<close> bytes, leaving
  out the \<open>a_index\<close>th token equal to \<open>a_token\<close>. \<open>strncat\<close> and \<open>strcat\<close> write behind the text of the
  buffer; a text that does not fit with its terminator is a write out of bounds.
\<close>

definition str_cat :: "int \<Rightarrow> string \<Rightarrow> string \<Rightarrow> string res" where
  "str_cat bufsize dst src =
     (if int (length dst + length src) + 1 \<le> bufsize then Inr (dst @ src) else Inl BufOverrun)"

function remove_loop ::
  "string \<Rightarrow> string \<Rightarrow> string \<Rightarrow> int \<Rightarrow> nat \<Rightarrow> int \<Rightarrow> char \<Rightarrow> string \<Rightarrow> string res" where
  "remove_loop a_string a_token seps copyLength i a_index sep copyString =
     (case pkgstrGetToken (Some sep) (Some a_string) (int i) (Some seps) of
        Inl f \<Rightarrow> Inl f
      | Inr (_, None) \<Rightarrow> Inr copyString
      | Inr (sep', Some p) \<Rightarrow>
          if p = a_token \<and> a_index = 0 then
            remove_loop a_string a_token seps copyLength (Suc i) (a_index - 1) (the sep') copyString
          else
            (case (if copyString = [] then Inr copyString
                   else if the sep' = NUL then Inl AssertFail
                   else str_cat copyLength copyString [the sep']) of
               Inl f \<Rightarrow> Inl f
             | Inr copy' \<Rightarrow>
                 (case str_cat copyLength copy' p of
                    Inl f \<Rightarrow> Inl f
                  | Inr copy'' \<Rightarrow>
                      remove_loop a_string a_token seps copyLength (Suc i)
                        (if p = a_token then a_index - 1 else a_index) (the sep') copy'')))"
  by pat_completeness auto
termination
proof (relation "measure (\<lambda>(s, t, seps, n, i, _). length (tokens seps s) - i)", goal_cases)
  case 1
  show ?case by simp
next
  case (2 s t seps n i ix sep cp x y z w)
  then have "pkgstrGetToken (Some sep) (Some s) (int i) (Some seps) = Inr (y, Some w)" by simp
  then have "i < length (tokens seps s)" by (rule pkgstrGetToken_Some_index)
  then show ?case by simp
next
  case (3 s t seps n i ix sep cp x y z w u v)
  then have "pkgstrGetToken (Some sep) (Some s) (int i) (Some seps) = Inr (y, Some w)" by simp
  then have "i < length (tokens seps s)" by (rule pkgstrGetToken_Some_index)
  then show ?case by simp
qed

declare remove_loop.simps [simp del]

definition pkgstrRemoveToken ::
  "string option \<Rightarrow> string option \<Rightarrow> string option \<Rightarrow> int \<Rightarrow> string option res" where
  "pkgstrRemoveToken r_string a_token a_separators a_index =
     (case (a_token, a_separators) of
        (Some token, Some seps) \<Rightarrow>
          if token = [] \<or> seps = [] then Inl AssertFail
          else (case r_string of
              None \<Rightarrow> Inl NullDeref
            | Some a_string \<Rightarrow>
                if a_string = [] then Inr r_string
                else if a_string = token then Inr None
                else (case pkgstrContainsToken (Some a_string) a_token a_separators of
                    Inl f \<Rightarrow> Inl f
                  | Inr False \<Rightarrow> Inr r_string
                  | Inr True \<Rightarrow>
                      (let copyLength = int (length a_string) - int (length token) + 2 in
                       case remove_loop a_string token seps copyLength 0 a_index NUL [] of
                         Inl f \<Rightarrow> Inl f
                       | Inr copyString \<Rightarrow>
                           if copyString = [] then Inl AssertFail else Inr (Some copyString))))
      | _ \<Rightarrow> Inl AssertFail)"

section \<open>Numbers\<close>

text \<open>
  \<open>pkgstrScaleNumericString\<close>: the number is divided by the scale, rounding, until it is below the
  scale or the unit is \<open>E\<close>. The arithmetic is that of \<open>unsigned long long\<close>.
\<close>

definition uom_chars :: string where
  "uom_chars = '' KMGTPE''"

function scale_loop :: "u64 \<Rightarrow> u64 \<Rightarrow> u64 \<Rightarrow> nat \<Rightarrow> u64 \<times> u64 \<times> nat" where
  "scale_loop scale number save uom =
     (if number \<ge> scale \<and> uom < 6 then
        scale_loop scale ((number + scale div 2) div scale) number (Suc uom)
      else (number, save, uom))"
  by pat_completeness auto
termination
  by (relation "measure (\<lambda>(_, _, _, uom). 6 - uom)") auto

declare scale_loop.simps [simp del]

text \<open>
  \<open>float fnum = (float)save / scale\<close> and \<open>%4.1f\<close>. In the branch that prints it
  \<open>scale \<le> save < 10 * scale\<close> with a scale of at most \<open>2^20\<close>, so both operands are exact in single
  precision and the quotient is in \<open>[1, 10)\<close>: its 24-bit significand is the quotient rounded to
  nearest, ties to even, at \<open>23 - e\<close> binary places, where \<open>2^e\<close> is the leading power.
\<close>

definition fnum_exp :: "nat \<Rightarrow> nat \<Rightarrow> nat" where
  "fnum_exp save scale = (if save \<ge> 8 * scale then 3 else if save \<ge> 4 * scale then 2
     else if save \<ge> 2 * scale then 1 else 0)"

definition fnum_tenths :: "nat \<Rightarrow> nat \<Rightarrow> nat" where
  "fnum_tenths save scale =
     (let k = 23 - fnum_exp save scale; m = rne (save * 2 ^ k) scale in rne (m * 10) (2 ^ k))"

definition show_tenths :: "nat \<Rightarrow> string" where
  "show_tenths t = pad_left SP 4 (show_nat (t div 10) @ ''.'' @ show_nat (t mod 10))"

definition pkgstrScaleNumericString :: "string option \<Rightarrow> u64 \<Rightarrow> string option res" where
  "pkgstrScaleNumericString a_buf scale =
     (if \<not> (0 < scale \<and> scale \<le> 1048576) then Inl AssertFail
      else case a_buf of
        None \<Rightarrow> Inr None
      | Some s \<Rightarrow>
          if s = [] then Inr (Some ''0'')
          else (let number = strtoull10 s in
            if number = - 1 then Inr (Some ''-1'')
            else (case scale_loop scale number 0 0 of
              (n, save, uom) \<Rightarrow>
                if save \<noteq> 0 \<and> save div scale < 10
                then Inr (Some (show_tenths (fnum_tenths (unat save) (unat scale)) @ [uom_chars ! uom]))
                else Inr (Some (pad_left SP 4 (show_nat (unat n)) @ [uom_chars ! uom])))))"

definition time_string :: "u64 \<Rightarrow> string" where
  "time_string a_time =
     (let ns = unat a_time mod 1000000000; seconds = unat a_time div 1000000000;
          minutes = seconds div 60; secs = seconds mod 60;
          hours = minutes div 60; mins = minutes mod 60
      in show_nat hours @ '':'' @ pad_left (CHR ''0'') 2 (show_nat mins) @ '':'' @
         pad_left (CHR ''0'') 2 (show_nat secs) @ ''.'' @ pad_left (CHR ''0'') 9 (show_nat ns))"

definition pkgstrConvertUllToTimeString_r :: "u64 \<Rightarrow> int \<Rightarrow> string res" where
  "pkgstrConvertUllToTimeString_r a_time a_bufLen =
     (if a_bufLen \<le> 0 then Inl AssertFail
      else if a_time = 0 then pkgstrPrintf_r a_bufLen ''0:00:00.000000000''
      else pkgstrPrintf_r a_bufLen (time_string a_time))"

section \<open>Paths\<close>

definition pkgstrLocatePathBasename :: "string option \<Rightarrow> string option" where
  "pkgstrLocatePathBasename a_path =
     (case a_path of
        None \<Rightarrow> None
      | Some s \<Rightarrow> (case strrchr s (CHR ''/'') of Some p \<Rightarrow> Some (drop (p + 1) s) | None \<Rightarrow> Some s))"

definition pkgstrConvertPathToBasename :: "string option \<Rightarrow> string option" where
  "pkgstrConvertPathToBasename a_path =
     (case a_path of
        None \<Rightarrow> None
      | Some s \<Rightarrow>
          if s = [] then None
          else (case strrchr s (CHR ''/'') of None \<Rightarrow> Some s | Some p \<Rightarrow> Some (drop (p + 1) s)))"

text \<open>The loop that cuts the copy at \<open>p\<close> while \<open>p\<close> is behind the start and on a slash.\<close>

fun trim_slashes :: "nat \<Rightarrow> string \<Rightarrow> string" where
  "trim_slashes 0 s = s"
| "trim_slashes (Suc p) s =
     (if deref_at s (Suc p) = CHR ''/'' then trim_slashes p (take (Suc p) s) else s)"

definition pkgstrConvertPathToDirname :: "string option \<Rightarrow> string option" where
  "pkgstrConvertPathToDirname a_path =
     (case a_path of
        None \<Rightarrow> None
      | Some s \<Rightarrow>
          if s = [] then None
          else (case strrchr s (CHR ''/'') of
              None \<Rightarrow> None
            | Some p \<Rightarrow> (let r = trim_slashes p s in if r = [] then None else Some r)))"

lemma num_tokens_loop_eq:
  assumes "seps \<noteq> []" "i \<le> length (tokens seps s)"
  shows "num_tokens_loop s (Some seps) i = Inr (length (tokens seps s))"
  using assms
proof (induction s "Some seps" i rule: num_tokens_loop.induct)
  case (1 s i)
  then show ?case by (subst num_tokens_loop.simps) (auto simp: pkgstrGetToken_eq)
qed

section \<open>Counting tokens\<close>

text \<open>
  \<open>pkgstrNumTokens\<close> returns, for every string and every non-empty set of separators, and the number
  is that of the maximal runs of characters that are no separators.
\<close>

theorem pkgstrNumTokens_count:
  assumes "seps \<noteq> []"
  shows "pkgstrNumTokens (Some s) (Some seps) = Inr (length (tokens seps s))"
  using num_tokens_loop_eq [OF assms, of 0 s] by (simp add: pkgstrNumTokens_def)

theorem pkgstrNumTokens_count_witness: "pkgstrNumTokens (Some ''a,b  c'') (Some '', '') = Inr 3"
  using pkgstrNumTokens_count [of "'', ''" "''a,b  c''"] by (simp add: tokens_def)

lemma tokens_in_order: "sum_list (map length (tokens seps s)) + length (tokens seps s) \<le> Suc (length s)"
proof -
  have a: "sum_list (map length (split_on seps s)) + length (split_on seps s) = Suc (length s)"
    by (induction s) (auto split: list.splits)
  have "sum_list (map length (filter (\<lambda>t. t \<noteq> []) xs)) + length (filter (\<lambda>t. t \<noteq> []) xs)
      \<le> sum_list (map length xs) + length xs" for xs :: "string list"
    by (induction xs) auto
  from this [of "split_on seps s"] show ?thesis unfolding tokens_def using a by linarith
qed

lemma one_token_no_sep: "set s \<inter> set seps = {} \<Longrightarrow> length (tokens seps s) \<le> 1"
  by (simp add: tokens_def split_on_no_sep)

text \<open>
  The specification of removing the \<open>k\<close>th element equal to \<open>t\<close>.
\<close>

fun remove_nth :: "'a \<Rightarrow> int \<Rightarrow> 'a list \<Rightarrow> 'a list" where
  "remove_nth t k [] = []"
| "remove_nth t k (x # xs) =
     (if x = t \<and> k = 0 then remove_nth t (- 1) xs
      else x # remove_nth t (if x = t then k - 1 else k) xs)"

text \<open>The rebuilding loop over the list of tokens instead of the token index.\<close>

fun rebuild :: "int \<Rightarrow> char \<Rightarrow> string \<Rightarrow> int \<Rightarrow> string \<Rightarrow> string list \<Rightarrow> string res" where
  "rebuild n c t k copy [] = Inr copy"
| "rebuild n c t k copy (p # ps) =
     (if p = t \<and> k = 0 then rebuild n c t (k - 1) copy ps
      else rbind (if copy = [] then Inr copy else if c = NUL then Inl AssertFail else str_cat n copy [c])
        (\<lambda>copy'. rbind (str_cat n copy' p)
          (\<lambda>copy''. rebuild n c t (if p = t then k - 1 else k) copy'' ps)))"

lemma remove_loop_rebuild:
  assumes "seps \<noteq> []" "sep_update (Some NUL) s seps = Some c"
  shows "remove_loop s t seps n i k sep copy = rebuild n c t k copy (drop i (tokens seps s))"
  using assms
proof (induction s t seps n i k sep copy rule: remove_loop.induct)
  case (1 s t seps n i k sep copy)
  show ?case
  proof (cases "i < length (tokens seps s)")
    case False
    then show ?thesis using "1.prems"
      by (subst remove_loop.simps) (simp add: pkgstrGetToken_sep)
  next
    case True
    let ?p = "tokens seps s ! i"
    have d: "drop i (tokens seps s) = ?p # drop (Suc i) (tokens seps s)"
      using True by (simp add: Cons_nth_drop_Suc)
    have g: "pkgstrGetToken (Some sep) (Some s) (int i) (Some seps) = Inr (Some c, Some ?p)"
      using True "1.prems" by (auto simp: pkgstrGetToken_sep)
    note IH = "1.IH" [OF g refl refl]
    show ?thesis
    proof (cases "?p = t \<and> k = 0")
      case True
      then have "remove_loop s t seps n i k sep copy = remove_loop s t seps n (Suc i) (k - 1) c copy"
        by (subst remove_loop.simps) (simp add: g)
      also have "\<dots> = rebuild n c t (k - 1) copy (drop (Suc i) (tokens seps s))"
        using IH(1) [OF True "1.prems"] by simp
      finally show ?thesis using d True by simp
    next
      case False
      have "remove_loop s t seps n i k sep copy =
          rbind (if copy = [] then Inr copy else if c = NUL then Inl AssertFail else str_cat n copy [c])
            (\<lambda>copy'. rbind (str_cat n copy' ?p) (\<lambda>copy''. remove_loop s t seps n (Suc i)
              (if ?p = t then k - 1 else k) c copy''))"
        using False by (subst remove_loop.simps) (simp add: g rbind_def split: sum.splits)
      moreover have "remove_loop s t seps n (Suc i) (if ?p = t then k - 1 else k) c copy'' =
          rebuild n c t (if ?p = t then k - 1 else k) copy'' (drop (Suc i) (tokens seps s))"
        if "(if copy = [] then Inr copy else if c = NUL then Inl AssertFail else str_cat n copy [c]) = Inr copy'"
          "str_cat n copy' ?p = Inr copy''" for copy' copy''
        using IH(2) [OF False _ that(2) "1.prems"] that(1) unfolding option.sel by blast
      ultimately show ?thesis using d False
        by (auto simp: rbind_def split: sum.splits if_splits)
    qed
  qed
qed

lemma rebuild_ok:
  assumes "\<forall>p \<in> set ds. p \<noteq> []" "\<forall>p \<in> set ps. p \<noteq> []" "c \<noteq> NUL"
    "int (length (join_sep c (ds @ remove_nth t k ps))) + 1 \<le> n"
  shows "rebuild n c t k (join_sep c ds) ps = Inr (join_sep c (ds @ remove_nth t k ps))"
  using assms
proof (induction ps arbitrary: ds k)
  case (Cons p ps)
  show ?case
  proof (cases "p = t \<and> k = 0")
    case True
    then show ?thesis using Cons by simp
  next
    case False
    let ?k = "if p = t then k - 1 else k"
    let ?all = "join_sep c ((ds @ [p]) @ remove_nth t ?k ps)"
    have all: "int (length ?all) + 1 \<le> n" using Cons.prems False by auto
    have len: "length (join_sep c (ds @ [p])) \<le> length ?all"
    proof -
      have "Suc (length (join_sep c (ds @ [p]))) \<le> Suc (length ?all)"
        by (subst (1 2) length_join_sep) auto
      then show ?thesis by simp
    qed
    have "rebuild n c t ?k (join_sep c (ds @ [p])) ps = Inr ?all"
      using Cons.prems all by (intro Cons.IH) auto
    moreover have "join_sep c ds = [] \<longleftrightarrow> ds = []" using Cons.prems by (simp add: join_sep_Nil_iff)
    ultimately show ?thesis using False len all Cons.prems(3)
      by (cases "ds = []") (auto simp: str_cat_def join_sep_snoc)
  qed
qed simp

lemma rebuild_overrun:
  assumes "\<forall>p \<in> set ds. p \<noteq> []" "\<forall>p \<in> set ps. p \<noteq> []" "c \<noteq> NUL"
    "int (length (join_sep c (ds @ remove_nth t k ps))) + 1 > n"
    "int (length (join_sep c ds)) + 1 \<le> n"
  shows "rebuild n c t k (join_sep c ds) ps = Inl BufOverrun"
  using assms
proof (induction ps arbitrary: ds k)
  case (Cons p ps)
  show ?case
  proof (cases "p = t \<and> k = 0")
    case True
    then show ?thesis using Cons by simp
  next
    case False
    let ?k = "if p = t then k - 1 else k"
    have e: "join_sep c ds = [] \<longleftrightarrow> ds = []" using Cons.prems by (simp add: join_sep_Nil_iff)
    show ?thesis
    proof (cases "int (length (join_sep c (ds @ [p]))) + 1 \<le> n")
      case True
      have "rebuild n c t ?k (join_sep c (ds @ [p])) ps = Inl BufOverrun"
        using Cons.prems False True by (intro Cons.IH) auto
      then show ?thesis using False True e Cons.prems(3)
        by (cases "ds = []") (auto simp: str_cat_def join_sep_snoc)
    next
      case lng: False
      then show ?thesis using False e Cons.prems(3)
        by (cases "ds = []") (auto simp: str_cat_def join_sep_snoc)
    qed
  qed
qed simp



lemma set_remove_nth: "set (remove_nth t k xs) \<subseteq> set xs"
proof (induction t k xs rule: remove_nth.induct)
  case (2 t k x xs)
  then show ?case by (cases "x = t"; cases "k = 0") auto
qed simp

lemma remove_nth_id: "k < 0 \<or> count_list xs t \<le> nat k \<Longrightarrow> remove_nth t k xs = xs"
proof (induction t k xs rule: remove_nth.induct)
  case (2 t k x xs)
  have "x = t \<Longrightarrow> k \<noteq> 0 \<Longrightarrow> k - 1 < 0 \<or> count_list xs t \<le> nat (k - 1)" using "2.prems" by auto
  then show ?case using 2 by (auto split: if_splits)
qed simp

lemma remove_nth_weight:
  assumes "0 \<le> k" "nat k < count_list xs t"
  shows "sum_list (map length (remove_nth t k xs)) + length t = sum_list (map length xs)"
    "Suc (length (remove_nth t k xs)) = length xs"
  using assms
proof (induction t k xs rule: remove_nth.induct)
  case (2 t k x xs)
  have id: "remove_nth t (-1) xs = xs" by (simp add: remove_nth_id)
  { case 1 then show ?case using 2 id by (auto simp: nat_diff_distrib' split: if_splits) }
  { case 2 then show ?case using "2.IH" id by (auto split: if_splits) }
qed auto

lemma sep_update_two:
  assumes "2 \<le> length (tokens seps s)"
  shows "\<exists>c \<in> set seps. sep_update (Some NUL) s seps = Some c"
proof -
  have "strpbrk s seps \<noteq> None" using assms one_token_no_sep [of s seps] strpbrk_None [of s seps] by auto
  then obtain r where r: "strpbrk s seps = Some r" by auto
  from strpbrk_Some_hd [OF r] show ?thesis using r by (cases r) (auto simp: sep_update_def)
qed

lemma remove_loop_from:
  assumes "seps \<noteq> []" "NUL \<notin> set seps" "2 \<le> length (tokens seps s)"
  obtains c where "c \<in> set seps" "c \<noteq> NUL"
    "remove_loop s t seps n 0 k NUL [] = rebuild n c t k (join_sep c []) (tokens seps s)"
proof -
  from sep_update_two [OF assms(3)] obtain c where c: "c \<in> set seps" "sep_update (Some NUL) s seps = Some c"
    by blast
  with remove_loop_rebuild [OF assms(1) c(2), of t n 0 k NUL "[]"] assms(2) that show thesis by auto
qed

lemma contains_eq:
  "s \<noteq> [] \<Longrightarrow> seps \<noteq> [] \<Longrightarrow>
   pkgstrContainsToken (Some s) (Some t) (Some seps) = Inr (t \<in> set (tokens seps s))"
  by (simp add: pkgstrContainsToken_def contains_loop_tokens)

text \<open>
  \<open>pkgstrRemoveToken\<close> on a string of at least two tokens, with the index of an occurrence that
  exists: it stays inside its buffer and passes its assertions, and the tokens of the result are
  those of the string without that occurrence of the token.
\<close>

theorem pkgstrRemoveToken_removes:
  assumes "seps \<noteq> []" "NUL \<notin> set seps" "2 \<le> length (tokens seps s)"
    and "0 \<le> k" "nat k < count_list (tokens seps s) t" "s \<noteq> t"
  shows "\<exists>r. pkgstrRemoveToken (Some s) (Some t) (Some seps) k = Inr (Some r) \<and>
     tokens seps r = remove_nth t k (tokens seps s)"
proof -
  let ?ts = "tokens seps s" and ?n = "int (length s) - int (length t) + 2"
  let ?us = "remove_nth t k ?ts"
  have t: "t \<in> set ?ts" using assms(5) by (metis count_list_0_iff not_less_zero)
  have ne: "\<forall>p \<in> set ?ts. p \<noteq> [] \<and> set p \<inter> set seps = {}" using tokens_ne tokens_set by blast
  then have ne': "\<forall>p \<in> set ?us. p \<noteq> [] \<and> set p \<inter> set seps = {}" using set_remove_nth by fastforce
  have us: "?us \<noteq> []" using remove_nth_weight(2) [OF assms(4,5)] assms(3) by auto
  obtain c where c: "c \<in> set seps" "c \<noteq> NUL"
    and rl: "remove_loop s t seps ?n 0 k NUL [] = rebuild ?n c t k (join_sep c []) ?ts"
    by (rule remove_loop_from [OF assms(1-3)])
  have "int (length (join_sep c ?us)) + 1 \<le> ?n"
    using remove_nth_weight [OF assms(4,5)] tokens_in_order [of seps s] length_join_sep [OF us, of c]
    by linarith
  then have "rebuild ?n c t k (join_sep c []) ?ts = Inr (join_sep c ?us)"
    using rebuild_ok [where ds = "[]" and ps = ?ts and c = c and t = t and k = k and n = ?n] ne c by simp
  moreover have "join_sep c ?us \<noteq> []" using ne' us by (simp add: join_sep_Nil_iff)
  moreover have "tokens seps (join_sep c ?us) = ?us" using c ne' by (simp add: tokens_join_sep)
  moreover have "s \<noteq> []" using assms(3) by auto
  ultimately show ?thesis using t assms rl ne
    by (auto simp: pkgstrRemoveToken_def contains_eq)
qed

theorem pkgstrRemoveToken_removes_witness:
  "\<exists>r. pkgstrRemoveToken (Some ''a bb a'') (Some ''a'') (Some '' '') 1 = Inr (Some r) \<and>
     tokens '' '' r = [''a'', ''bb'']"
  using pkgstrRemoveToken_removes [of "'' ''" "''a bb a''" 1 "''a''"] by (simp add: tokens_def)

text \<open>
  \<open>pkgstrRemoveToken\<close> asked for an occurrence that does not exist (an index past the last one, or a
  negative one) in a string without superfluous separators, for a token of two or more characters:
  the whole string is copied into a buffer sized for the string without the token, a write outside
  the allocated storage.
\<close>

theorem pkgstrRemoveToken_overrun:
  assumes "seps \<noteq> []" "NUL \<notin> set seps" "2 \<le> length (tokens seps s)"
    and "Suc (length s) = sum_list (map length (tokens seps s)) + length (tokens seps s)"
    and "t \<in> set (tokens seps s)" "2 \<le> length t"
    and "k < 0 \<or> count_list (tokens seps s) t \<le> nat k"
  shows "pkgstrRemoveToken (Some s) (Some t) (Some seps) k = Inl BufOverrun"
proof -
  let ?ts = "tokens seps s" and ?n = "int (length s) - int (length t) + 2"
  have ne: "\<forall>p \<in> set ?ts. p \<noteq> []" using tokens_ne by blast
  obtain c where c: "c \<in> set seps" "c \<noteq> NUL"
    and rl: "remove_loop s t seps ?n 0 k NUL [] = rebuild ?n c t k (join_sep c []) ?ts"
    by (rule remove_loop_from [OF assms(1-3)])
  have nn: "?ts \<noteq> []" using assms(3) by auto
  have lt: "length t \<le> sum_list (map length ?ts)" using assms(5) by (simp add: member_le_sum_list)
  have "int (length (join_sep c (remove_nth t k ?ts))) + 1 > ?n"
    using remove_nth_id [OF assms(7)] length_join_sep [OF nn, of c] assms(4,6) by simp
  moreover have "int (length (join_sep c [])) + 1 \<le> ?n" using lt assms(3,4) by simp
  ultimately have "rebuild ?n c t k (join_sep c []) ?ts = Inl BufOverrun"
    using rebuild_overrun [where ds = "[]" and ps = ?ts and c = c and t = t and k = k and n = ?n] ne c by simp
  moreover have "s \<noteq> []" using nn by auto
  moreover have "s \<noteq> t"
  proof
    assume "s = t"
    moreover have "set t \<inter> set seps = {}" using assms(5) tokens_set by blast
    ultimately show False using one_token_no_sep [of s seps] assms(3) by simp
  qed
  ultimately show ?thesis using rl assms ne by (auto simp: pkgstrRemoveToken_def contains_eq)
qed
theorem pkgstrRemoveToken_overrun_witness:
  "pkgstrRemoveToken (Some ''aa bb'') (Some ''bb'') (Some '' '') 1 = Inl BufOverrun"
  using pkgstrRemoveToken_overrun [of "'' ''" "''aa bb''" "''bb''" 1] by (simp add: tokens_def)


section \<open>Expanding tokens\<close>

fun add_new :: "'a list \<Rightarrow> 'a list \<Rightarrow> 'a list" where
  "add_new old [] = old"
| "add_new old (x # xs) = add_new (if x \<in> set old then old else old @ [x]) xs"

lemma add_new_set: "set (add_new old xs) = set old \<union> set xs"
  by (induction old xs rule: add_new.induct) auto

lemma add_new_distinct: "distinct old \<Longrightarrow> distinct (add_new old xs)"
  by (induction old xs rule: add_new.induct) auto

lemma add_new_prefix: "\<exists>ys. add_new old xs = old @ ys"
  by (induction old xs rule: add_new.induct) auto

definition text_of :: "string option \<Rightarrow> string" where
  "text_of a = (case a of None \<Rightarrow> [] | Some s \<Rightarrow> s)"

lemma pkgstrContainsToken_text:
  "seps \<noteq> [] \<Longrightarrow> pkgstrContainsToken a (Some t) (Some seps) = Inr (t \<in> set (tokens seps (text_of a)))"
  by (cases a) (auto simp: pkgstrContainsToken_def contains_loop_tokens text_of_def)

lemma pkgstrAddToken_ok:
  assumes "c \<noteq> NUL" "t \<noteq> []" "c \<notin> set t" "length (text_of a) + length t + 1 < LINE_MAX"
  shows "\<exists>a'. pkgstrAddToken a (Some t) c = Inr a' \<and>
     tokens [c] (text_of a') = tokens [c] (text_of a) @ [t] \<and>
     length (text_of a') \<le> length (text_of a) + length t + 1"
  using assms
  by (cases a) (auto simp: pkgstrAddToken_def pkgstrPrintf_def text_of_def tokens_append_one tokens_single)

lemma expand_loop_ok:
  assumes "c \<noteq> NUL" "seps \<noteq> []" "\<forall>t \<in> set (tokens seps s). c \<notin> set t"
    and "length (text_of a) + sum_list (map (\<lambda>t. length t + 1) (drop i (tokens seps s))) < LINE_MAX"
  shows "\<exists>r. expand_loop (Some s) c (Some seps) i a = Inr r \<and>
     tokens [c] (text_of r) = add_new (tokens [c] (text_of a)) (drop i (tokens seps s))"
  using assms
proof (induction "Some s" c "Some seps" i a rule: expand_loop.induct)
  case (1 c i a)
  show ?case
  proof (cases "i < length (tokens seps s)")
    case False
    then show ?thesis using "1.prems" by (subst expand_loop.simps) (simp add: pkgstrGetToken_eq)
  next
    case True
    let ?t = "tokens seps s ! i"
    have d: "drop i (tokens seps s) = ?t # drop (Suc i) (tokens seps s)"
      using True by (simp add: Cons_nth_drop_Suc)
    have g: "pkgstrGetToken None (Some s) (int i) (Some seps) = Inr (None, Some ?t)"
      using True "1.prems" by (simp add: pkgstrGetToken_eq)
    have t: "?t \<in> set (tokens seps s)" using True by simp
    let ?sep = "if c = NUL then [] else [c]"
    have cont: "pkgstrContainsToken a (Some ?t) (Some ?sep) = Inr (?t \<in> set (tokens [c] (text_of a)))"
      using "1.prems"(1) by (simp add: pkgstrContainsToken_text)
    have len: "length (text_of a) + length ?t + 1 < LINE_MAX" using "1.prems"(4) d by simp
    obtain a' where a': "(if ?t \<in> set (tokens [c] (text_of a)) then Inr a else pkgstrAddToken a (Some ?t) c) = Inr a'"
      "tokens [c] (text_of a') = (if ?t \<in> set (tokens [c] (text_of a)) then tokens [c] (text_of a)
         else tokens [c] (text_of a) @ [?t])"
      "length (text_of a') \<le> length (text_of a) + length ?t + 1"
      using pkgstrAddToken_ok [OF "1.prems"(1) tokens_ne [OF t] _ len] "1.prems"(3) t
      by (cases "?t \<in> set (tokens [c] (text_of a))") auto
    have "\<exists>r. expand_loop (Some s) c (Some seps) (Suc i) a' = Inr r \<and>
       tokens [c] (text_of r) = add_new (tokens [c] (text_of a')) (drop (Suc i) (tokens seps s))"
      using "1.prems" a'(3) d by (intro "1.hyps" [OF g refl refl cont a'(1)]) auto
    moreover have "expand_loop (Some s) c (Some seps) i a = expand_loop (Some s) c (Some seps) (Suc i) a'"
      by (subst expand_loop.simps) (simp add: g cont a'(1) del: if_split)
    ultimately show ?thesis using a'(2) d by (auto split: if_splits)
  qed
qed

text \<open>
  \<open>pkgstrExpandTokens\<close>, when no token holds the target's separator and the text stays below
  \<open>LINE_MAX\<close>: it succeeds, keeps the tokens of the target in front, adds exactly the missing tokens
  of the source, and introduces no duplicate.
\<close>

theorem pkgstrExpandTokens_union:
  assumes "c \<noteq> NUL" "seps \<noteq> []" "\<forall>t \<in> set (tokens seps s). c \<notin> set t"
    and "length (text_of a) + sum_list (map (\<lambda>t. length t + 1) (tokens seps s)) < LINE_MAX"
  shows "\<exists>r ys. pkgstrExpandTokens a (Some s) c (Some seps) = Inr r \<and>
     tokens [c] (text_of r) = tokens [c] (text_of a) @ ys \<and>
     set (tokens [c] (text_of r)) = set (tokens [c] (text_of a)) \<union> set (tokens seps s) \<and>
     (distinct (tokens [c] (text_of a)) \<longrightarrow> distinct (tokens [c] (text_of r)))"
proof -
  from expand_loop_ok [OF assms(1-3), of a 0] assms(4) obtain r where
    r: "expand_loop (Some s) c (Some seps) 0 a = Inr r"
       "tokens [c] (text_of r) = add_new (tokens [c] (text_of a)) (tokens seps s)" by auto
  moreover obtain ys where "add_new (tokens [c] (text_of a)) (tokens seps s) = tokens [c] (text_of a) @ ys"
    using add_new_prefix by blast
  moreover have "set (tokens [c] (text_of r)) = set (tokens [c] (text_of a)) \<union> set (tokens seps s)"
    using r(2) by (simp only: add_new_set)
  moreover have "distinct (tokens [c] (text_of a)) \<longrightarrow> distinct (tokens [c] (text_of r))"
    using r(2) add_new_distinct by metis
  ultimately show ?thesis unfolding pkgstrExpandTokens_def by metis
qed

theorem pkgstrExpandTokens_union_witness:
  "\<exists>r ys. pkgstrExpandTokens (Some ''a b'') (Some ''b;c;a;d'') (CHR '' '') (Some '';'') = Inr r \<and>
     tokens '' '' (text_of r) = [''a'', ''b''] @ ys \<and>
     set (tokens '' '' (text_of r)) = {''a'', ''b'', ''c'', ''d''} \<and> distinct (tokens '' '' (text_of r))"
proof -
  have t: "tokens '';'' ''b;c;a;d'' = [''b'', ''c'', ''a'', ''d'']" "tokens '' '' ''a b'' = [''a'', ''b'']"
    by (simp_all add: tokens_def)
  from pkgstrExpandTokens_union [of "CHR '' ''" "'';''" "''b;c;a;d''" "Some ''a b''"] obtain r ys where
    "pkgstrExpandTokens (Some ''a b'') (Some ''b;c;a;d'') (CHR '' '') (Some '';'') = Inr r"
    "tokens '' '' (text_of r) = [''a'', ''b''] @ ys" "distinct (tokens '' '' (text_of r))"
    "set (tokens '' '' (text_of r)) = {''a'', ''b''} \<union> {''b'', ''c'', ''a'', ''d''}"
    by (auto simp: t LINE_MAX_def text_of_def)
  then show ?thesis by (intro exI [of _ r] exI [of _ ys] conjI) auto
qed

section \<open>Time strings\<close>

lemma digit_not_time_sep: "isdigit c \<Longrightarrow> c \<notin> set '':.''"
  by (auto simp: isdigit_def)

lemma digits_no_sep: "\<forall>c \<in> set s. isdigit c \<Longrightarrow> set s \<inter> set '':.'' = {}"
  using digit_not_time_sep by blast

lemma tokens_time:
  assumes "\<forall>s \<in> {h, m, x, n}. s \<noteq> [] \<and> (\<forall>c \<in> set s. isdigit c)"
  shows "tokens '':.'' (h @ '':'' @ m @ '':'' @ x @ ''.'' @ n) = [h, m, x, n]"
  using assms digits_no_sep
  by (simp add: tokens_append_sep tokens_single)

lemma time_parts:
  fixes t :: nat
  shows "t = ((t div 1000000000 div 60 div 60 * 60 + t div 1000000000 div 60 mod 60) * 60 +
     t div 1000000000 mod 60) * 1000000000 + t mod 1000000000"
proof -
  have a: "(x::nat) = x div n * n + x mod n" for x n by simp
  show ?thesis by (simp add: a [symmetric])
qed

lemma time_string_digits: "\<forall>c \<in> set (pad_left (CHR ''0'') w (show_nat n)). isdigit c"
  using show_base_digits [of 10 n] by (intro pad_left_digits) simp

text \<open>
  The text of \<open>pkgstrConvertUllToTimeString_r\<close> loses nothing: cut at its colons and its dot it has four
  numbers, the minutes and seconds below 60 and the nanoseconds below a second, which add up to the
  time converted.
\<close>

theorem time_string_roundtrip:
  "\<exists>h m x n. map read_nat (tokens '':.'' (time_string t)) = [h, m, x, n] \<and>
     m < 60 \<and> x < 60 \<and> n < 1000000000 \<and> ((h * 60 + m) * 60 + x) * 1000000000 + n = unat t"
proof -
  let ?t = "unat t"
  have "tokens '':.'' (time_string t) =
     [show_nat (?t div 1000000000 div 60 div 60),
      pad_left (CHR ''0'') 2 (show_nat (?t div 1000000000 div 60 mod 60)),
      pad_left (CHR ''0'') 2 (show_nat (?t div 1000000000 mod 60)),
      pad_left (CHR ''0'') 9 (show_nat (?t mod 1000000000))]"
    unfolding time_string_def Let_def
    using show_base_digits [of 10 "?t div 1000000000 div 60 div 60"]
    by (intro tokens_time) (simp add: time_string_digits)
  then have "map read_nat (tokens '':.'' (time_string t)) =
     [?t div 1000000000 div 60 div 60, ?t div 1000000000 div 60 mod 60, ?t div 1000000000 mod 60,
      ?t mod 1000000000]"
    by (simp add: read_pad_zero read_show_base)
  then show ?thesis using time_parts [of ?t, symmetric] by (intro exI conjI) (assumption, simp_all only: mod_less_divisor zero_less_numeral)
qed


section \<open>Base and directory names\<close>

lemma strrchr_split:
  assumes "strrchr s c = Some p"
  shows "s = take p s @ c # drop (Suc p) s" "c \<notin> set (drop (Suc p) s)" "p < length s"
proof -
  let ?w = "takeWhile (\<lambda>x. x \<noteq> c) (rev s)"
  have c: "c \<in> set s" and p: "p = length s - Suc (length ?w)"
    using assms by (auto simp: strrchr_def split: if_splits)
  then obtain u v where s: "s = u @ c # v" "c \<notin> set v" by (meson split_list_last)
  then have "?w = rev v" by (subst s(1)) (auto simp: takeWhile_append2 takeWhile_tail)
  then have "p = length u" using p s by simp
  then show "s = take p s @ c # drop (Suc p) s" "c \<notin> set (drop (Suc p) s)" "p < length s"
    using s by simp_all
qed

lemma trim_slashes_ne: "s \<noteq> [] \<Longrightarrow> trim_slashes p s \<noteq> []"
  by (induction p s rule: trim_slashes.induct) auto

lemma trim_slashes_prefix:
  assumes "p < length s" "drop (Suc p) s = []"
  shows "\<exists>k. s = trim_slashes p s @ replicate k (CHR ''/'') \<and>
    (0 < p \<and> deref_at s p = CHR ''/'' \<longrightarrow> 0 < k) \<and>
    (last (trim_slashes p s) = CHR ''/'' \<longrightarrow> trim_slashes p s = ''/'')"
  using assms
proof (induction p s rule: trim_slashes.induct)
  case (1 s)
  then have "length s = 1" by (cases s) auto
  then obtain x where "s = [x]" by (auto simp: length_Suc_conv)
  then show ?case by (intro exI [of _ 0]) auto
next
  case (2 p s)
  show ?case
  proof (cases "deref_at s (Suc p) = CHR ''/''")
    case True
    have s: "s = take (Suc p) s @ [CHR ''/'']"
      using True "2.prems" by (metis Cons_nth_drop_Suc append_take_drop_id deref_at_def deref_simps(2))
    obtain k where k: "take (Suc p) s = trim_slashes p (take (Suc p) s) @ replicate k (CHR ''/'')"
      "last (trim_slashes p (take (Suc p) s)) = CHR ''/'' \<longrightarrow> trim_slashes p (take (Suc p) s) = ''/''"
      using 2 True by auto
    then have "s = trim_slashes (Suc p) s @ replicate (Suc k) (CHR ''/'')"
      using s True by (metis append.assoc replicate_Suc replicate_append_same trim_slashes.simps(2))
    then show ?thesis using k True by (metis trim_slashes.simps(2) zero_less_Suc)
  next
    case False
    have "s = take (Suc p) s @ [deref_at s (Suc p)]"
      using "2.prems" by (metis Cons_nth_drop_Suc append_take_drop_id deref_at_def deref_simps(2))
    then have "last s = deref_at s (Suc p)" by (metis last_snoc)
    then show ?thesis using False by (intro exI [of _ 0]) auto
  qed
qed

text \<open>
  \<open>pkgstrConvertPathToDirname\<close> and \<open>pkgstrConvertPathToBasename\<close> of a path whose last slash is not
  its first character: the path is the directory name, one or more slashes and the base name; the
  base name has no slash and the directory name ends in none unless it is the root.
\<close>

theorem pkgstrConvertPath_split:
  assumes "strrchr s (CHR ''/'') = Some p" "0 < p"
  shows "\<exists>d k b. pkgstrConvertPathToDirname (Some s) = Some d \<and> pkgstrConvertPathToBasename (Some s) = Some b \<and>
     s = d @ replicate k (CHR ''/'') @ b \<and> 0 < k \<and> CHR ''/'' \<notin> set b \<and>
     (last d = CHR ''/'' \<longrightarrow> d = ''/'')"
proof -
  obtain q where q: "p = Suc q" using assms(2) by (cases p) auto
  let ?b = "drop (Suc p) s"
  note sp = strrchr_split [OF assms(1)]
  have tr: "trim_slashes p s = trim_slashes q (take p s)"
    using q sp(3) sp(1) by (metis append_take_drop_id deref_at_def deref_simps(2) same_append_eq trim_slashes.simps(2))
  obtain k where k: "take p s = trim_slashes q (take p s) @ replicate k (CHR ''/'')"
    "last (trim_slashes q (take p s)) = CHR ''/'' \<longrightarrow> trim_slashes q (take p s) = ''/''"
    using trim_slashes_prefix [of q "take p s"] q sp(3) by auto
  have "s \<noteq> []" using sp(3) by auto
  then have ne: "trim_slashes p s \<noteq> []" by (rule trim_slashes_ne)
  from \<open>s \<noteq> []\<close> have d: "pkgstrConvertPathToDirname (Some s) = Some (trim_slashes p s)"
    and b: "pkgstrConvertPathToBasename (Some s) = Some ?b"
    using assms(1) ne by (simp_all add: pkgstrConvertPathToDirname_def pkgstrConvertPathToBasename_def)
  have "s = take p s @ CHR ''/'' # ?b" by (rule sp(1))
  also have "\<dots> = trim_slashes p s @ replicate (Suc k) (CHR ''/'') @ ?b"
    using k(1) tr by (metis append.assoc append_Cons replicate_Suc replicate_app_Cons_same)
  finally show ?thesis using d b k(2) tr sp(2) by (metis zero_less_Suc)
qed

theorem pkgstrConvertPath_split_witness:
  "\<exists>d k b. pkgstrConvertPathToDirname (Some ''/a/b'') = Some d \<and> pkgstrConvertPathToBasename (Some ''/a/b'') = Some b \<and>
     ''/a/b'' = d @ replicate k (CHR ''/'') @ b \<and> 0 < k \<and> CHR ''/'' \<notin> set b \<and>
     (last d = CHR ''/'' \<longrightarrow> d = ''/'')"
proof (rule pkgstrConvertPath_split)
  show "strrchr ''/a/b'' (CHR ''/'') = Some 2" by (simp add: strrchr_def)
qed simp

text \<open>
  \<open>pkgstrConvertPathToDirname\<close> of a file directly below the root returns the whole path instead of
  the root directory: the loop that cuts the path never cuts at its first character.
\<close>

theorem pkgstrConvertPathToDirname_top:
  assumes "CHR ''/'' \<notin> set b"
  shows "pkgstrConvertPathToDirname (Some (CHR ''/'' # b)) = Some (CHR ''/'' # b)"
proof -
  have "strrchr (CHR ''/'' # b) (CHR ''/'') = Some 0"
  proof -
    have "takeWhile (\<lambda>x. x \<noteq> CHR ''/'') (rev b @ ''/'') = rev b"
      using assms by (subst takeWhile_append2) auto
    then show ?thesis by (simp add: strrchr_def)
  qed
  then show ?thesis by (simp add: pkgstrConvertPathToDirname_def)
qed

theorem pkgstrConvertPathToDirname_top_witness:
  "pkgstrConvertPathToDirname (Some ''/etc'') = Some ''/etc''"
  using pkgstrConvertPathToDirname_top [of "''etc''"] by simp

section \<open>The separator reported\<close>

text \<open>
  \<open>pkgstrGetToken\<close> with a separator pointer, for any token of a string that has a separator: the token
  is the one asked for, and the separator stored is the first separator of the whole string, not the
  one that ended the token.
\<close>

theorem pkgstrGetToken_first_sep:
  assumes "seps \<noteq> []" "0 \<le> i" "nat i < length (tokens seps s)" "strpbrk s seps = Some r"
  shows "pkgstrGetToken (Some x) (Some s) i (Some seps) =
     Inr (Some (hd r), Some (tokens seps s ! nat i))"
  using assms strpbrk_Some_hd [OF assms(4)]
  by (cases r) (auto simp: pkgstrGetToken_sep sep_update_def)


theorem pkgstrGetToken_first_sep_witness:
  "pkgstrGetToken (Some NUL) (Some ''a b;c'') 1 (Some ''; '') = Inr (Some (CHR '' ''), Some ''b'')"
  using pkgstrGetToken_first_sep [of "''; ''" 1 "''a b;c''" "'' b;c''" NUL]
  by (simp add: tokens_def strpbrk_def)

section \<open>Scaling\<close>

lemma scale_loop_bound: "fst (scale_loop sc n sv u) < sc \<or> snd (snd (scale_loop sc n sv u)) \<ge> 6"
proof (induction sc n sv u rule: scale_loop.induct)
  case (1 sc n sv u)
  show ?case
  proof (cases "n \<ge> sc \<and> u < 6")
    case True
    then show ?thesis using 1 by (simp add: scale_loop.simps [of sc n sv u])
  next
    case False
    then show ?thesis by (auto simp: scale_loop.simps [of sc n sv u])
  qed
qed

text \<open>
  \<open>pkgstrScaleNumericString\<close> with scale 1024 prints the numbers within 512 of \<open>2^64\<close> (the largest
  excepted) as 0K: the rounding addition wraps around.
\<close>

theorem pkgstrScale_wraps:
  assumes "s \<noteq> []" "2 ^ 64 - 512 \<le> unat (strtoull10 s)" "strtoull10 s \<noteq> - 1"
  shows "pkgstrScaleNumericString (Some s) 1024 = Inr (Some ''   0K'')"
proof -
  let ?n = "strtoull10 s"
  have lo: "18446744073709551104 \<le> unat ?n" using assms(2) by simp
  have hi: "unat ?n < 18446744073709551616" using unsigned_less [of ?n] by simp
  have ge: "?n \<ge> 1024" using lo by (simp add: word_le_nat_alt)
  have "unat (?n + 512) = (unat ?n + 512) mod 18446744073709551616"
    by (simp add: unat_word_ariths)
  also have "\<dots> = unat ?n + 512 - 18446744073709551616"
    using lo hi by (simp add: le_mod_geq)
  finally have "unat (?n + 512) < 1024" using hi by linarith
  then have "unat (?n + 512) div 1024 = 0" by simp
  then have z: "(?n + 512) div 1024 = 0" by (simp add: word_arith_nat_div)
  have "scale_loop 1024 ?n 0 0 = (0, ?n, 1)"
    using ge z by (simp add: scale_loop.simps)
  moreover have "\<not> ?n div 1024 < 10"
  proof -
    have "unat (?n div 1024) = unat ?n div 1024" by (simp add: unat_div)
    then show ?thesis using lo by (simp add: word_less_nat_alt)
  qed
  moreover have "pad_left SP 4 (show_nat 0) @ [uom_chars ! 1] = ''   0K''"
    by (simp add: pad_left_def show_base.simps digit_char_def uom_chars_def numeral_eq_Suc)
  ultimately show ?thesis using assms(1,3) by (simp add: pkgstrScaleNumericString_def Let_def)
qed
theorem pkgstrScale_wraps_witness:
  "pkgstrScaleNumericString (Some ''18446744073709551614'') 1024 = Inr (Some ''   0K'')"
proof (rule pkgstrScale_wraps)
  have n: "strtoull10 ''18446744073709551614'' = 18446744073709551614"
    by (simp add: strtoull10_def isspace_def isdigit_def read_base_def)
  show "2 ^ 64 - 512 \<le> unat (strtoull10 ''18446744073709551614'')"
    unfolding n by simp
  show "strtoull10 ''18446744073709551614'' \<noteq> - 1"
    unfolding n by simp
qed simp


end
