(* ===== verification/Vfp.thy ===== *)
theory Vfp
  imports Cnum
begin

unbundle bit_operations_syntax

text \<open>
  The virtual file protocol of \<open>libpkg/vfpops.c\<close> and the access macros of \<open>libpkg/pkglib.h\<close>: a file
  (or an anonymous string) held in memory, with a current position, a high water mark and an end.

  Pointers into the buffer are offsets from \<open>_vfpStart\<close>; \<open>vMem\<close> is the whole allocation. A store
  outside the allocation is the fault \<open>BufOverrun\<close>.
\<close>

section \<open>The object\<close>

record vstat =
  st_dev :: int
  st_ino :: int
  st_size :: int
  st_blocks :: int
  st_mtime :: int

record vfp =
  vFile :: bool            \<comment> \<open>\<open>_vfpFile != NULL\<close>\<close>
  vStart :: bool           \<comment> \<open>\<open>_vfpStart != NULL\<close>\<close>
  vMem :: string           \<comment> \<open>the bytes at \<open>_vfpStart\<close>\<close>
  vCurr :: int             \<comment> \<open>\<open>_vfpCurr - _vfpStart\<close>\<close>
  vHighWater :: int
  vEnd :: int
  vPath :: "string option"
  vSize :: int
  vFlags :: u64
  vOverflow :: bool
  vCk :: vstat

definition VFP_NOMALLOC :: u64 where "VFP_NOMALLOC = 0x10"
definition F_VFP_MMAP :: u64 where "F_VFP_MMAP = 0x10000"
definition F_VFP_MALLOC :: u64 where "F_VFP_MALLOC = 0x20000"
definition F_VFP_WRITE :: u64 where "F_VFP_WRITE = 0x40000"
definition F_VFP_READ :: u64 where "F_VFP_READ = 0x80000"
definition F_VFP_MODIFIED :: u64 where "F_VFP_MODIFIED = 0x100000"

definition VFP_ANONYMOUS_PATH :: string where
  "VFP_ANONYMOUS_PATH = ''<<string>>''"

text \<open>The object \<open>calloc\<close> returns.\<close>

definition vstat0 :: vstat where
  "vstat0 = \<lparr>st_dev = 0, st_ino = 0, st_size = 0, st_blocks = 0, st_mtime = 0\<rparr>"

definition vfp0 :: vfp where
  "vfp0 = \<lparr>vFile = False, vStart = False, vMem = [], vCurr = 0, vHighWater = 0, vEnd = 0,
     vPath = None, vSize = 0, vFlags = 0, vOverflow = False, vCk = vstat0\<rparr>"

section \<open>The access macros\<close>

definition vfpGetModifiedLen :: "vfp \<Rightarrow> int" where
  "vfpGetModifiedLen v = (if vHighWater v > vCurr v then vHighWater v else vCurr v)"

definition vfpIncCurrPtrBy :: "vfp \<Rightarrow> int \<Rightarrow> vfp" where
  "vfpIncCurrPtrBy v inc =
     (let c = vCurr v + inc;
          v1 = (if c > vEnd v then v\<lparr>vCurr := vEnd v, vOverflow := True\<rparr> else v\<lparr>vCurr := c\<rparr>)
      in if vHighWater v1 < vCurr v1 then v1\<lparr>vHighWater := vCurr v1\<rparr> else v1)"

definition vfpGetBytesRemaining :: "vfp \<Rightarrow> int" where
  "vfpGetBytesRemaining v = (if vHighWater v \<le> vCurr v then 0 else vHighWater v - vCurr v)"

definition vfpGetBytesAvailable :: "vfp \<Rightarrow> int" where
  "vfpGetBytesAvailable v = (if vEnd v \<le> vCurr v then 0 else vEnd v - vCurr v)"

text \<open>\<open>memcpy\<close> to the current position.\<close>

definition vfpStore :: "vfp \<Rightarrow> string \<Rightarrow> vfp res" where
  "vfpStore v s =
     (if 0 \<le> vCurr v \<and> vCurr v + int (length s) \<le> int (length (vMem v))
      then Inr (v\<lparr>vMem := take (nat (vCurr v)) (vMem v) @ s @ drop (nat (vCurr v) + length s) (vMem v)\<rparr>)
      else Inl BufOverrun)"

definition vfpPutc :: "vfp \<Rightarrow> char \<Rightarrow> vfp res" where
  "vfpPutc v c = rbind (vfpStore v [c]) (\<lambda>v'. Inr (vfpIncCurrPtrBy v' 1))"

definition vfpPuts :: "vfp \<Rightarrow> string \<Rightarrow> vfp res" where
  "vfpPuts v s =
     (let xxLen = vfpGetBytesAvailable v in
      rbind (if xxLen > 0 then vfpStore v (take (nat xxLen - 1) s @ [NUL]) else Inr v)
        (\<lambda>v'. Inr (vfpIncCurrPtrBy v' (int (length s)))))"

definition vfpPutBytes :: "vfp \<Rightarrow> string \<Rightarrow> vfp res" where
  "vfpPutBytes v s =
     (let avail = vfpGetBytesAvailable v;
          xxLen = (if avail > int (length s) then int (length s) else avail);
          v1 = (if avail > int (length s) then v else v\<lparr>vOverflow := True\<rparr>)
      in rbind (vfpStore v1 (take (nat xxLen) s)) (\<lambda>v'. Inr (vfpIncCurrPtrBy v' xxLen)))"

text \<open>\<open>vfpPutFormat\<close> of a conversion that yields \<open>out\<close>: at most 255 characters pass the local buffer.\<close>

definition vfpPutFormat :: "vfp \<Rightarrow> string \<Rightarrow> vfp res" where
  "vfpPutFormat v out = vfpPuts v (take 255 out)"

definition vfpPutInteger :: "vfp \<Rightarrow> int \<Rightarrow> vfp res" where
  "vfpPutInteger v n = vfpPutFormat v (show_int n)"

definition vfpSetCurrCharPtr :: "vfp \<Rightarrow> int \<Rightarrow> vfp" where
  "vfpSetCurrCharPtr v p =
     (if vCurr v > vHighWater v then v\<lparr>vHighWater := vCurr v, vCurr := p\<rparr> else v\<lparr>vCurr := p\<rparr>)"

definition vfpSetLastCharPtr :: "vfp \<Rightarrow> int \<Rightarrow> vfp" where
  "vfpSetLastCharPtr v p =
     (if p \<ge> 0 then
        (let v1 = v\<lparr>vHighWater := p\<rparr> in
         if vCurr v1 > vHighWater v1 then v1\<lparr>vCurr := vHighWater v1\<rparr> else v1)
      else v)"

definition vfpSeekToEnd :: "vfp \<Rightarrow> vfp" where
  "vfpSeekToEnd v = v\<lparr>vCurr := vHighWater v + 1\<rparr>"

section \<open>Opening, closing, sizing\<close>

text \<open>
  The system is a parameter: \<open>os_fopen path mode\<close> is the outcome of \<open>fopen\<close> and \<open>fstat\<close>, an \<open>errno\<close>
  or the bytes of the file once opened, \<open>os_read_err path\<close> the \<open>errno\<close> of a \<open>read\<close> that fails or is
  short, \<open>os_stat\<close>, \<open>os_fclose_err\<close> and \<open>os_pagesize\<close> the outcomes of the calls of these names,
  \<open>os_creat path\<close> that of \<open>open(path, O_WRONLY|O_CREAT|O_TRUNC, 0644)\<close>, \<open>os_write\<close> the outcomes of the
  successive \<open>write\<close> calls, and \<open>os_fresh n\<close> what the allocator left in \<open>n\<close> new bytes. The mapped
  branch of \<open>vfpOpen\<close> is compiled out (\<open>#if 0\<close>).
\<close>

datatype wres = WErr int | WOk nat

record os =
  os_fopen :: "string \<Rightarrow> string \<Rightarrow> int + string"
  os_read_err :: "string \<Rightarrow> int option"
  os_stat :: "string \<Rightarrow> int + vstat"
  os_fclose_err :: int
  os_creat :: "string \<Rightarrow> int option"
  os_write :: "wres list"
  os_fresh :: "nat \<Rightarrow> string"
  os_pagesize :: nat

definition EFAULT :: int where "EFAULT = 14"
definition EINVAL :: int where "EINVAL = 22"
definition ENOMEM :: int where "ENOMEM = 12"
definition EFBIG :: int where "EFBIG = 27"
definition EIO :: int where "EIO = 5"

definition EAGAIN :: int where "EAGAIN = 35"
definition EINTR :: int where "EINTR = 4"

text \<open>The object once the bytes of the file are read: cursor, end, high water mark, path and flags.\<close>

definition vfp_load :: "os \<Rightarrow> string \<Rightarrow> string \<Rightarrow> string \<Rightarrow> vfp" where
  "vfp_load os path mode dat =
     (let m = os_fresh os (length dat + os_pagesize os) in
      vfp0\<lparr>
        vFile := True,
        vStart := True,
        vMem := (if dat = [] then m else dat @ NUL # drop (length dat + 1) m),
        vSize := int (length dat + os_pagesize os),
        vCurr := 0,
        vEnd := int (length dat) - 1,
        vHighWater := int (length dat) - 1,
        vPath := Some path,
        vFlags := (F_VFP_MALLOC OR (if deref mode = CHR ''w'' then F_VFP_WRITE else 0))
          OR (if deref mode = CHR ''r'' then F_VFP_READ else 0)\<rparr>)"

definition vfpOpen :: "os \<Rightarrow> string option \<Rightarrow> string option \<Rightarrow> u64 \<Rightarrow> int + vfp" where
  "vfpOpen os a_path a_mode a_flags =
     (case a_path of
        None \<Rightarrow> Inr (vfp0\<lparr>vFlags := F_VFP_MALLOC, vPath := Some VFP_ANONYMOUS_PATH\<rparr>)
      | Some path \<Rightarrow>
         (case a_mode of
            None \<Rightarrow> Inl EFAULT
          | Some mode \<Rightarrow>
              if path = [] \<or> mode = [] then Inl EINVAL
              else
               (case os_fopen os path mode of
                  Inl e \<Rightarrow> Inl e
                | Inr dat \<Rightarrow>
                    if a_flags AND VFP_NOMALLOC \<noteq> 0 then Inl ENOMEM
                    else if dat \<noteq> [] \<and> os_read_err os path \<noteq> None
                    then Inl (let e = the (os_read_err os path) in if e = 0 then EIO else e)
                    else Inr (vfp_load os path mode dat))))"

text \<open>
  \<open>vfpClose\<close>: its return value and the bytes committed to the open file, if any; storage and handle
  are released.
\<close>

definition vfpClose :: "os \<Rightarrow> vfp option \<Rightarrow> int \<times> string option" where
  "vfpClose os v =
     (case v of
        None \<Rightarrow> (0, None)
      | Some v \<Rightarrow>
         (if vFile v \<and> os_fclose_err os \<noteq> 0 then - 1 else 0,
          if vFlags v AND F_VFP_WRITE \<noteq> 0 \<and> vFlags v AND F_VFP_MALLOC \<noteq> 0 \<and> vFile v
             \<and> vfpGetModifiedLen v > 0
          then Some (take (nat (vfpGetModifiedLen v)) (vMem v))
          else None))"

definition vfpRewind :: "vfp \<Rightarrow> vfp" where
  "vfpRewind v =
     (let v1 = (if vCurr v > vHighWater v then v\<lparr>vHighWater := vCurr v\<rparr> else v) in v1\<lparr>vCurr := 0\<rparr>)"

text \<open>
  \<open>vfpSetSize\<close>: grow the allocation to the size asked for and a page.
\<close>

definition vfpSetSize :: "os \<Rightarrow> vfp \<Rightarrow> int \<Rightarrow> int \<times> vfp" where
  "vfpSetSize os v a_size =
     (if vFlags v AND F_VFP_MALLOC = 0 then (-1, v)
      else
       (let size' = a_size + int (os_pagesize os); curSize = vSize v in
        if size' \<le> curSize then (0, v)
        else
         (let n = nat (size' + 1);
              np = (if vStart v
                    then (take n (vMem v @ os_fresh os n))[nat (curSize - 1) := NUL]
                    else (take n (os_fresh os n))[0 := NUL]);
              np' = np[nat size' := NUL]
          in (0, v\<lparr>vSize := size', vMem := np', vEnd := size' - 1, vStart := True\<rparr>))))"

definition vfpTruncate :: "vfp \<Rightarrow> vfp" where
  "vfpTruncate v = v\<lparr>vCurr := 0, vHighWater := 0, vMem := (vMem v)[0 := NUL]\<rparr>"

definition vfpClearModified :: "vfp \<Rightarrow> bool \<times> vfp" where
  "vfpClearModified v =
     (vFlags v AND F_VFP_MODIFIED \<noteq> 0, v\<lparr>vFlags := vFlags v AND NOT F_VFP_MODIFIED\<rparr>)"

definition vfpSetModified :: "vfp \<Rightarrow> bool \<times> vfp" where
  "vfpSetModified v =
     (vFlags v AND F_VFP_MODIFIED \<noteq> 0, v\<lparr>vFlags := vFlags v OR F_VFP_MODIFIED\<rparr>)"

definition vfpGetModified :: "vfp \<Rightarrow> bool" where
  "vfpGetModified v \<longleftrightarrow> vFlags v AND F_VFP_MODIFIED \<noteq> 0"

section \<open>Writing out\<close>

text \<open>
  \<open>vfpSafeWrite\<close> against a sequence of outcomes of \<open>write\<close>: its return value, or \<open>None\<close> when the
  outcomes end while the loop goes on, and the bytes that reached the file. \<open>vfpSafePwrite\<close> moves
  an offset along; the pieces it writes carry theirs.
\<close>

fun safe_write_loop :: "wres list \<Rightarrow> string \<Rightarrow> nat \<Rightarrow> string \<Rightarrow> int option \<times> string" where
  "safe_write_loop [] a_buf bytes out = (None, out)"
| "safe_write_loop (WErr e # rs) a_buf bytes out =
     (if e = EAGAIN \<or> e = EINTR then safe_write_loop rs a_buf bytes out else (Some (- 1), out))"
| "safe_write_loop (WOk r # rs) a_buf bytes out =
     (if r \<ge> length a_buf then (Some (int bytes), out @ take r a_buf)
      else safe_write_loop rs (drop r a_buf) bytes (out @ take r a_buf))"

definition vfpSafeWrite :: "wres list \<Rightarrow> string \<Rightarrow> int option \<times> string" where
  "vfpSafeWrite rs a_buf = safe_write_loop rs a_buf (length a_buf) []"

fun safe_pwrite_loop ::
  "wres list \<Rightarrow> string \<Rightarrow> nat \<Rightarrow> nat \<Rightarrow> (nat \<times> string) list \<Rightarrow> int option \<times> (nat \<times> string) list" where
  "safe_pwrite_loop [] a_buf bytes off out = (None, out)"
| "safe_pwrite_loop (WErr e # rs) a_buf bytes off out =
     (if e = EAGAIN \<or> e = EINTR then safe_pwrite_loop rs a_buf bytes off out else (Some (- 1), out))"
| "safe_pwrite_loop (WOk r # rs) a_buf bytes off out =
     (if r \<ge> length a_buf then (Some (int bytes), out @ [(off, take r a_buf)])
      else safe_pwrite_loop rs (drop r a_buf) bytes (off + r) (out @ [(off, take r a_buf)]))"

definition vfpSafePwrite :: "wres list \<Rightarrow> string \<Rightarrow> nat \<Rightarrow> int option \<times> (nat \<times> string) list" where
  "vfpSafePwrite rs a_buf a_offset = safe_pwrite_loop rs a_buf (length a_buf) a_offset []"

text \<open>
  \<open>vfpWriteToFile\<close>: the new object and either an \<open>errno\<close> or the bytes of the file written; \<open>None\<close>
  while the writing goes on.
\<close>

definition vfpWriteToFile :: "os \<Rightarrow> vfp option \<Rightarrow> string \<Rightarrow> ((int + string) \<times> vfp option) option" where
  "vfpWriteToFile os a_vfp a_path =
     (case a_vfp of
        None \<Rightarrow> Some (Inl EFAULT, None)
      | Some v \<Rightarrow>
          if vOverflow v \<or> vfpGetBytesAvailable v < 1 then Some (Inl EFBIG, Some v)
          else
           (case os_creat os a_path of
              Some e \<Rightarrow> Some (Inl e, Some v)
            | None \<Rightarrow>
               (let len = nat (vfpGetModifiedLen v) in
                if len > 0 then
                 (case vfpSafeWrite (os_write os) (take len (vMem v)) of
                    (None, _) \<Rightarrow> None
                  | (Some r, out) \<Rightarrow>
                      if r \<noteq> int len then Some (Inl r, Some v)
                      else Some (Inr out, Some (snd (vfpClearModified v))))
                else Some (Inr [], Some (snd (vfpClearModified v))))))"

section \<open>Checkpoints\<close>

definition vfpCheckpointFile :: "os \<Rightarrow> vfp option \<Rightarrow> string option \<Rightarrow> int + vfp" where
  "vfpCheckpointFile os a_vfp a_path =
     (case a_vfp of
        None \<Rightarrow> Inl EFAULT
      | Some av \<Rightarrow>
          if vOverflow av \<or> vfpGetBytesAvailable av < 1 then Inl EFBIG
          else if vFlags av AND F_VFP_MMAP \<noteq> 0 then Inl EIO
          else
           (case (if a_path = None \<or> a_path = Some [] then vPath av else a_path) of
              None \<Rightarrow> Inl EINVAL
            | Some path \<Rightarrow>
                if path = VFP_ANONYMOUS_PATH then Inl EINVAL
                else
                 (case os_stat os path of
                    Inl e \<Rightarrow> Inl e
                  | Inr st \<Rightarrow> Inr (av\<lparr>vFile := False, vPath := Some path, vCk := st\<rparr>))))"

text \<open>
  \<open>vfpCheckpointOpen\<close>. The test for a missing path dereferences it when it is \<open>NULL\<close>.
\<close>

definition vfpCheckpointOpen ::
  "os \<Rightarrow> vfp option \<Rightarrow> string option \<Rightarrow> string option \<Rightarrow> u64 \<Rightarrow> (int + vfp) res" where
  "vfpCheckpointOpen os a_cpVfp a_path a_mode a_flags =
     (case a_cpVfp of
        None \<Rightarrow> Inr (vfpOpen os a_path a_mode a_flags)
      | Some cp \<Rightarrow>
          if \<not> vStart cp then Inr (vfpOpen os a_path a_mode a_flags)
          else
           (case (if a_path = None \<or> a_path = Some [] then vPath cp else a_path) of
              None \<Rightarrow> Inl NullDeref
            | Some path \<Rightarrow>
               (case os_stat os path of
                  Inl e \<Rightarrow> Inr (vfpOpen os (Some path) a_mode a_flags)
                | Inr st \<Rightarrow>
                    if st_size st \<noteq> st_size (vCk cp) \<or> st_mtime st \<noteq> st_mtime (vCk cp) \<or>
                       st_blocks st \<noteq> st_blocks (vCk cp) \<or> st_ino st \<noteq> st_ino (vCk cp) \<or>
                       st_dev st \<noteq> st_dev (vCk cp)
                    then Inr (vfpOpen os (Some path) a_mode a_flags)
                    else
                     (case (if vFile cp then Inr [] else
                              case a_mode of None \<Rightarrow> Inl EFAULT | Some md \<Rightarrow> os_fopen os path md) of
                        Inl e \<Rightarrow> Inr (Inl e)
                      | Inr _ \<Rightarrow> Inr (Inr (cp\<lparr>vFile := True, vPath := Some path, vCurr := 0\<rparr>))))))"

section \<open>Output buffers\<close>

text \<open>
  What the writers of package information rely on: an output accepts pieces of text; as long as it is
  in good order afterwards, everything put into it is there, in order, behind what was there before.
\<close>

locale text_output =
  fixes put :: "'p \<Rightarrow> 'w \<Rightarrow> 'w"
    and piece :: "'p \<Rightarrow> string"
    and written :: "'w \<Rightarrow> string"
    and good :: "'w \<Rightarrow> bool"
  assumes good_back: "good (put p w) \<Longrightarrow> good w"
    and written_put: "good (put p w) \<Longrightarrow> written (put p w) = written w @ piece p"
begin

lemma good_fold_back: "good (fold put ps w) \<Longrightarrow> good w"
  by (induction ps arbitrary: w) (auto dest: good_back)

lemma written_fold: "good (fold put ps w) \<Longrightarrow> written (fold put ps w) = written w @ concat (map piece ps)"
proof (induction ps arbitrary: w)
  case (Cons p ps)
  then have "good (put p w)" by (auto dest: good_fold_back)
  with Cons show ?case by (simp add: written_put)
qed simp

end

text \<open>The put operations on an object as a step on results, and what each contributes.\<close>

datatype vput = PutC char | PutS string | PutB string | PutF string

fun vput_do :: "vput \<Rightarrow> vfp \<Rightarrow> vfp res" where
  "vput_do (PutC c) v = vfpPutc v c"
| "vput_do (PutS s) v = vfpPuts v s"
| "vput_do (PutB s) v = vfpPutBytes v s"
| "vput_do (PutF s) v = vfpPutFormat v s"

definition vput_step :: "vput \<Rightarrow> vfp res \<Rightarrow> vfp res" where
  "vput_step p r = rbind r (vput_do p)"

fun vput_txt :: "vput \<Rightarrow> string" where
  "vput_txt (PutC c) = [c]"
| "vput_txt (PutS s) = s"
| "vput_txt (PutB s) = s"
| "vput_txt (PutF s) = take 255 s"

text \<open>Well-formed objects for writing: the position is inside, the end is the last but one byte.\<close>

definition vfp_ok :: "vfp \<Rightarrow> bool" where
  "vfp_ok v \<longleftrightarrow> 0 \<le> vCurr v \<and> vCurr v \<le> vEnd v \<and> vEnd v < int (length (vMem v))"

definition vfp_text :: "vfp \<Rightarrow> string" where
  "vfp_text v = take (nat (vCurr v)) (vMem v)"

text \<open>The test \<open>vfpWriteToFile\<close> and \<open>vfpCheckpointFile\<close> make before they use the data.\<close>

definition vfp_room :: "vfp \<Rightarrow> bool" where
  "vfp_room v \<longleftrightarrow> \<not> vOverflow v \<and> \<not> vfpGetBytesAvailable v < 1"

section \<open>Writing is safe and complete\<close>

lemma vfpStore_facts:
  assumes "vfpStore v s = Inr v'"
  shows "0 \<le> vCurr v" "vCurr v' = vCurr v" "vEnd v' = vEnd v" "vOverflow v' = vOverflow v"
    "length (vMem v') = length (vMem v)" "vCurr v + int (length s) \<le> int (length (vMem v))"
    "k \<le> length s \<Longrightarrow> take (nat (vCurr v) + k) (vMem v') = take (nat (vCurr v)) (vMem v) @ take k s"
  using assms by (auto simp: vfpStore_def min_def split: if_splits)

lemma vfpStore_ok:
  "0 \<le> vCurr v \<Longrightarrow> vCurr v + int (length s) \<le> int (length (vMem v)) \<Longrightarrow> \<exists>v'. vfpStore v s = Inr v'"
  by (auto simp: vfpStore_def)

lemma vfpInc_facts:
  "vEnd (vfpIncCurrPtrBy v n) = vEnd v" "vMem (vfpIncCurrPtrBy v n) = vMem v"
  "vCurr (vfpIncCurrPtrBy v n) = min (vCurr v + n) (vEnd v)"
  "vOverflow (vfpIncCurrPtrBy v n) = (vOverflow v \<or> vCurr v + n > vEnd v)"
  by (auto simp: vfpIncCurrPtrBy_def Let_def)

lemma vfp_room_alt: "vfp_room v \<longleftrightarrow> \<not> vOverflow v \<and> vCurr v < vEnd v"
  by (auto simp: vfp_room_def vfpGetBytesAvailable_def)

lemmas vfp_facts = vfpInc_facts vfp_room_alt vfp_ok_def vfp_text_def

lemma vfpPutc_safe: "vfp_ok v \<Longrightarrow> \<exists>v'. vfpPutc v c = Inr v' \<and> vfp_ok v'"
  using vfpStore_ok [of v "[c]"] vfpStore_facts [of v "[c]"]
  by (fastforce simp: vfpPutc_def vfp_facts)

lemma vfpPuts_safe:
  assumes "vfp_ok v" shows "\<exists>v'. vfpPuts v s = Inr v' \<and> vfp_ok v'"
proof (cases "vfpGetBytesAvailable v > 0")
  case True
  let ?t = "take (nat (vfpGetBytesAvailable v) - 1) s @ [NUL]"
  have "int (length ?t) \<le> vEnd v - vCurr v"
    using True by (auto simp: vfpGetBytesAvailable_def split: if_splits)
  then obtain v' where v': "vfpStore v ?t = Inr v'"
    using assms vfpStore_ok [of v ?t] by (auto simp: vfp_ok_def)
  with True assms vfpStore_facts [OF v'] show ?thesis
    by (auto simp: vfpPuts_def vfp_facts Let_def)
next
  case False
  then show ?thesis using assms by (auto simp: vfpPuts_def vfp_facts Let_def)
qed

lemma vfpPutBytes_safe:
  assumes "vfp_ok v" shows "\<exists>v'. vfpPutBytes v s = Inr v' \<and> vfp_ok v'"
proof -
  let ?a = "vfpGetBytesAvailable v"
  let ?n = "if ?a > int (length s) then int (length s) else ?a"
  let ?v = "if ?a > int (length s) then v else v\<lparr>vOverflow := True\<rparr>"
  have a: "?a = vEnd v - vCurr v" using assms by (auto simp: vfpGetBytesAvailable_def vfp_ok_def)
  have "vCurr ?v = vCurr v" "vMem ?v = vMem v" "vEnd ?v = vEnd v" by auto
  moreover have n: "0 \<le> ?n" "int (length (take (nat ?n) s)) = ?n" "vCurr v + ?n \<le> vEnd v"
    using a assms by (auto simp: vfp_ok_def)
  ultimately obtain v' where v': "vfpStore ?v (take (nat ?n) s) = Inr v'"
    using assms vfpStore_ok [of ?v "take (nat ?n) s"] by (fastforce simp: vfp_ok_def)
  have "vfp_ok (vfpIncCurrPtrBy v' ?n)"
    using vfpStore_facts(1-5) [OF v'] n assms by (auto simp: vfp_facts)
  then show ?thesis using v' by (auto simp: vfpPutBytes_def Let_def)
qed

lemma vput_safe: "vfp_ok v \<Longrightarrow> \<exists>v'. vput_do p v = Inr v' \<and> vfp_ok v'"
  by (cases p) (auto simp: vfpPutFormat_def vfpPutc_safe vfpPuts_safe vfpPutBytes_safe)

lemma vfpPutc_text:
  assumes "vfpPutc v c = Inr v'" "vfp_ok v'" "vfp_room v'"
  shows "vfp_ok v \<and> vfp_room v \<and> vfp_text v' = vfp_text v @ [c]"
proof -
  obtain w where w: "vfpStore v [c] = Inr w" and v': "v' = vfpIncCurrPtrBy w 1"
    using assms(1) by (auto simp: vfpPutc_def rbind_Inr)
  note f = vfpStore_facts [OF w]
  show ?thesis using assms(2,3) v' f(1-6) f(7) [of 1]
    by (auto simp: vfp_facts nat_add_distrib)
qed

lemma vfpPuts_text:
  assumes "vfpPuts v s = Inr v'" "vfp_ok v'" "vfp_room v'"
  shows "vfp_ok v \<and> vfp_room v \<and> vfp_text v' = vfp_text v @ s"
proof (cases "vfpGetBytesAvailable v > 0")
  case True
  let ?t = "take (nat (vfpGetBytesAvailable v) - 1) s @ [NUL]"
  obtain w where w: "vfpStore v ?t = Inr w" and v': "v' = vfpIncCurrPtrBy w (int (length s))"
    using assms(1) True by (auto simp: vfpPuts_def rbind_Inr Let_def)
  note f = vfpStore_facts [OF w]
  have room: "vCurr v + int (length s) < vEnd v"
    using assms(3) v' f(1-5) by (auto simp: vfp_facts)
  then have t: "?t = s @ [NUL]" by (auto simp: vfpGetBytesAvailable_def)
  show ?thesis using assms(2,3) v' f(1-6) room f(7) [of "length s"] t
    by (auto simp: vfp_facts nat_add_distrib)
next
  case False
  then have "vEnd v \<le> vCurr v" by (auto simp: vfpGetBytesAvailable_def split: if_splits)
  then show ?thesis using assms False by (auto simp: vfpPuts_def Let_def vfp_facts)
qed

lemma vfpPutBytes_text:
  assumes "vfpPutBytes v s = Inr v'" "vfp_ok v'" "vfp_room v'"
  shows "vfp_ok v \<and> vfp_room v \<and> vfp_text v' = vfp_text v @ s"
proof -
  have big: "vfpGetBytesAvailable v > int (length s)"
  proof (rule ccontr)
    assume "\<not> ?thesis"
    then obtain w where "vfpStore (v\<lparr>vOverflow := True\<rparr>) (take (nat (vfpGetBytesAvailable v)) s) = Inr w"
      "v' = vfpIncCurrPtrBy w (vfpGetBytesAvailable v)"
      using assms(1) by (auto simp: vfpPutBytes_def rbind_Inr Let_def)
    then have "vOverflow v'" using vfpStore_facts(4) by (fastforce simp: vfpInc_facts)
    then show False using assms(3) by (simp add: vfp_room_def)
  qed
  then obtain w where w: "vfpStore v s = Inr w" and v': "v' = vfpIncCurrPtrBy w (int (length s))"
    using assms(1) by (auto simp: vfpPutBytes_def rbind_Inr Let_def)
  note f = vfpStore_facts [OF w]
  show ?thesis using assms(2,3) v' f(1-6) f(7) [of "length s"]
    by (auto simp: vfp_facts nat_add_distrib)
qed

lemma vput_text:
  assumes "vput_do p v = Inr v'" "vfp_ok v'" "vfp_room v'"
  shows "vfp_ok v \<and> vfp_room v \<and> vfp_text v' = vfp_text v @ vput_txt p"
  using assms vfpPutc_text vfpPuts_text vfpPutBytes_text
  by (cases p) (simp_all add: vfpPutFormat_def)

definition vres_text :: "vfp res \<Rightarrow> string" where
  "vres_text r = (case r of Inr v \<Rightarrow> vfp_text v | Inl _ \<Rightarrow> [])"

definition vres_good :: "vfp res \<Rightarrow> bool" where
  "vres_good r \<longleftrightarrow> (case r of Inr v \<Rightarrow> vfp_ok v \<and> vfp_room v | Inl _ \<Rightarrow> False)"

interpretation vout: text_output vput_step vput_txt vres_text vres_good
proof
  fix p and w :: "vfp res"
  assume g: "vres_good (vput_step p w)"
  then obtain v v' where v: "w = Inr v" "vput_do p v = Inr v'" "vfp_ok v'" "vfp_room v'"
    by (auto simp: vres_good_def vput_step_def rbind_def split: sum.splits)
  from vput_text [OF v(2-4)] v show "vres_good w" "vres_text (vput_step p w) = vres_text w @ vput_txt p"
    by (auto simp: vres_good_def vres_text_def vput_step_def)
qed

lemma vput_fold_safe: "vfp_ok v \<Longrightarrow> \<exists>v'. fold vput_step ps (Inr v) = Inr v' \<and> vfp_ok v'"
proof (induction ps arbitrary: v)
  case (Cons p ps)
  then obtain v1 where "vput_do p v = Inr v1" "vfp_ok v1" using vput_safe by blast
  with Cons.IH [of v1] show ?case by (simp add: vput_step_def)
qed simp

text \<open>
  What a caller sees of output to a virtual file: it stays well-formed, and if there is room at the end there
  was room before and the text was added.
\<close>

definition appended :: "string \<Rightarrow> vfp \<Rightarrow> vfp \<Rightarrow> bool" where
  "appended w t t' \<longleftrightarrow> vfp_ok t' \<and> (vHighWater t \<le> vEnd t \<longrightarrow> vHighWater t' \<le> vEnd t') \<and>
     (vfp_room t' \<longrightarrow> vfp_room t \<and> vfp_text t' = vfp_text t @ w)"

lemma appended_Nil [simp]: "appended [] t t \<longleftrightarrow> vfp_ok t"
  by (auto simp: appended_def)

lemma appended_trans: "appended w t t' \<Longrightarrow> appended w' t' t'' \<Longrightarrow> appended (w @ w') t t''"
  by (auto simp: appended_def)

lemma vfpInc_HW: "vHighWater v \<le> vEnd v \<Longrightarrow> vHighWater (vfpIncCurrPtrBy v n) \<le> vEnd (vfpIncCurrPtrBy v n)"
  by (simp add: vfpIncCurrPtrBy_def Let_def)

lemma vfpStore_HW: "vfpStore v s = Inr v' \<Longrightarrow> vHighWater v' = vHighWater v \<and> vEnd v' = vEnd v"
  by (auto simp: vfpStore_def split: if_splits)

lemma vput_HW:
  assumes "vput_do p v = Inr v'" "vHighWater v \<le> vEnd v"
  shows "vHighWater v' \<le> vEnd v'"
proof -
  have puts: "vHighWater u \<le> vEnd u" if "vfpPuts v s = Inr u" for s u
    using that assms(2) vfpStore_HW vfpInc_HW by (fastforce simp: vfpPuts_def Let_def rbind_Inr split: if_splits)
  show ?thesis
  proof (cases p)
    case (PutB s)
    then obtain w n b t where w: "vfpStore (if b then v else v\<lparr>vOverflow := True\<rparr>) t = Inr w" "v' = vfpIncCurrPtrBy w n"
      using assms(1) by (auto simp: vfpPutBytes_def Let_def rbind_Inr simp del: if_split)
    then have "vHighWater w \<le> vEnd w" using vfpStore_HW [OF w(1)] assms(2) by (cases b) auto
    then show ?thesis using w(2) vfpInc_HW by simp
  next
    case (PutC c)
    then obtain w where w: "vfpStore v [c] = Inr w" "v' = vfpIncCurrPtrBy w 1"
      using assms(1) by (auto simp: vfpPutc_def rbind_Inr)
    then show ?thesis using vfpStore_HW [OF w(1)] assms(2) vfpInc_HW by simp
  qed (use assms(1) puts in \<open>auto simp: vfpPutFormat_def\<close>)
qed

lemma vput_appended: "vfp_ok v \<Longrightarrow> \<exists>v'. vput_do p v = Inr v' \<and> appended (vput_txt p) v v'"
  using vput_safe vput_HW vput_text unfolding appended_def by blast

lemma vputs_appended:
  "vfp_ok v \<Longrightarrow> \<exists>v'. fold vput_step ps (Inr v) = Inr v' \<and> appended (concat (map vput_txt ps)) v v'"
proof (induction ps arbitrary: v)
  case (Cons p ps)
  obtain v1 where v1: "vput_do p v = Inr v1" "appended (vput_txt p) v v1" using vput_appended Cons(2) by blast
  then have "vfp_ok v1" by (simp add: appended_def)
  then obtain v2 where "fold vput_step ps (Inr v1) = Inr v2" "appended (concat (map vput_txt ps)) v1 v2"
    using Cons.IH by blast
  moreover have "vput_step p (Inr v) = Inr v1" using v1(1) by (simp add: vput_step_def)
  ultimately show ?case using v1(2) appended_trans by fastforce
qed simp

text \<open>
  Any sequence of put operations on a well-formed object stays inside the allocation; and if
  \<open>vfpWriteToFile\<close> then takes the data (it does not answer \<open>EFBIG\<close>), nothing was truncated: the
  text of the object is the old text followed by everything put.
\<close>

theorem vfp_put_complete:
  assumes "vfp_ok v"
  shows "\<exists>v'. fold vput_step ps (Inr v) = Inr v' \<and> vfp_ok v' \<and>
     (vfpWriteToFile os (Some v') path \<noteq> Some (Inl EFBIG, Some v') \<longrightarrow>
       vfp_text v' = vfp_text v @ concat (map vput_txt ps))"
proof -
  obtain v' where v': "fold vput_step ps (Inr v) = Inr v'" "vfp_ok v'"
    using vput_fold_safe [OF assms] by blast
  have "vfp_text v' = vfp_text v @ concat (map vput_txt ps)"
    if "vfpWriteToFile os (Some v') path \<noteq> Some (Inl EFBIG, Some v')"
  proof -
    have "vfp_room v'" using that by (auto simp: vfpWriteToFile_def vfp_room_def split: if_splits)
    then have "vres_good (fold vput_step ps (Inr v))" using v' by (simp add: vres_good_def)
    from vout.written_fold [OF this] show ?thesis by (simp add: v' vres_text_def)
  qed
  with v' show ?thesis by blast
qed

theorem vfp_put_complete_witness:
  "\<exists>v'. fold vput_step [PutC (CHR ''/''), PutS ''ab'', PutB ''c'', PutF ''12'']
       (Inr (vfp0\<lparr>vMem := replicate 20 NUL, vEnd := 18, vStart := True\<rparr>)) = Inr v' \<and> vfp_ok v' \<and>
     (vfpWriteToFile \<lparr>os_fopen = \<lambda>_ _. Inr [], os_read_err = \<lambda>_. None, os_stat = \<lambda>_. Inr vstat0,
        os_fclose_err = 0, os_creat = \<lambda>_. None, os_write = [WOk 6], os_fresh = \<lambda>n. replicate n NUL,
        os_pagesize = 4096\<rparr> (Some v') ''out'' \<noteq> Some (Inl EFBIG, Some v') \<longrightarrow>
      vfp_text v' = ''/abc12'')"
  using vfp_put_complete [of "vfp0\<lparr>vMem := replicate 20 NUL, vEnd := 18, vStart := True\<rparr>"
      "[PutC (CHR ''/''), PutS ''ab'', PutB ''c'', PutF ''12'']"
      "\<lparr>os_fopen = \<lambda>_ _. Inr [], os_read_err = \<lambda>_. None, os_stat = \<lambda>_. Inr vstat0,
        os_fclose_err = 0, os_creat = \<lambda>_. None, os_write = [WOk 6], os_fresh = \<lambda>n. replicate n NUL,
        os_pagesize = 4096\<rparr>" "''out''"]
  by (simp add: vfp_ok_def vfp0_def vfp_text_def)

lemma safe_write_loop_all:
  "safe_write_loop rs buf n out = (Some r, out') \<Longrightarrow> 0 \<le> r \<Longrightarrow> out' = out @ buf"
  by (induction rs buf n out rule: safe_write_loop.induct) (auto split: if_splits)

lemma safe_write_loop_ret:
  "safe_write_loop rs buf n out = (Some r, out') \<Longrightarrow> r = - 1 \<or> r = int n"
  by (induction rs buf n out rule: safe_write_loop.induct) (auto split: if_splits)

definition wprogress :: "wres list \<Rightarrow> nat" where
  "wprogress rs = sum_list (map (\<lambda>r. case r of WOk n \<Rightarrow> n | WErr _ \<Rightarrow> 0) rs)"

definition wtransient :: "wres list \<Rightarrow> bool" where
  "wtransient rs \<longleftrightarrow> (\<forall>e. WErr e \<in> set rs \<longrightarrow> e = EAGAIN \<or> e = EINTR)"

lemma safe_write_loop_live:
  "wtransient rs \<Longrightarrow> length buf \<le> wprogress rs \<Longrightarrow> buf \<noteq> [] \<Longrightarrow>
   safe_write_loop rs buf n out = (Some (int n), out @ buf)"
proof (induction rs buf n out rule: safe_write_loop.induct)
  case (3 r rs buf n out)
  then show ?case by (cases "r \<ge> length buf") (auto simp: wtransient_def wprogress_def)
qed (auto simp: wtransient_def wprogress_def)

text \<open>
  \<open>vfpSafeWrite\<close> survives partial writes and interruptions: if the only errors are \<open>EAGAIN\<close> and
  \<open>EINTR\<close> and the calls accept at least as many bytes as there are, it returns the number of bytes
  and the file holds exactly the buffer; and whenever it reports success the whole buffer is written.
\<close>

theorem vfpSafeWrite_complete:
  "(buf \<noteq> [] \<and> wtransient rs \<and> length buf \<le> wprogress rs \<longrightarrow>
      vfpSafeWrite rs buf = (Some (int (length buf)), buf)) \<and>
   (\<forall>r out. vfpSafeWrite rs buf = (Some r, out) \<and> r \<noteq> - 1 \<longrightarrow> r = int (length buf) \<and> out = buf)"
proof (intro conjI impI allI)
  assume "buf \<noteq> [] \<and> wtransient rs \<and> length buf \<le> wprogress rs"
  then show "vfpSafeWrite rs buf = (Some (int (length buf)), buf)"
    using safe_write_loop_live [of rs buf "length buf" "[]"] by (simp add: vfpSafeWrite_def)
next
  fix r out assume a: "vfpSafeWrite rs buf = (Some r, out) \<and> r \<noteq> - 1"
  then show "r = int (length buf)" "out = buf"
    using safe_write_loop_ret [of rs buf "length buf" "[]" r out]
      safe_write_loop_all [of rs buf "length buf" "[]" r out]
    by (auto simp: vfpSafeWrite_def)
qed

theorem vfpSafeWrite_complete_witness:
  "vfpSafeWrite [WErr EINTR, WOk 2, WErr EAGAIN, WOk 1] ''abc'' = (Some 3, ''abc'')"
proof -
  let ?rs = "[WErr EINTR, WOk 2, WErr EAGAIN, WOk 1]"
  have "wtransient ?rs" "length ''abc'' \<le> wprogress ?rs"
    by (simp_all add: wtransient_def wprogress_def)
  with vfpSafeWrite_complete [THEN conjunct1, of "''abc''" ?rs] show ?thesis by simp
qed

section \<open>Checkpoints keep the data\<close>

text \<open>
  A checkpoint and its reopening: the checkpointed object keeps the bytes in memory, and opening it
  again without a path hands them back, rewound and on an open file, exactly when \<open>stat\<close> still
  reports the same device, inode, size, blocks and modification time for the backing file; a
  backing file that differs in any of them is read anew.
\<close>

theorem vfpCheckpoint_roundtrip:
  assumes "vfpCheckpointFile os (Some v) a_path = Inr cp" "vStart v"
  shows "\<exists>q st. vPath cp = Some q \<and> os_stat os q = Inr st \<and> vMem cp = vMem v \<and> vHighWater cp = vHighWater v \<and>
     (\<forall>os' md fl dat. os_stat os' q = Inr st \<and> os_fopen os' q md = Inr dat \<longrightarrow>
        vfpCheckpointOpen os' (Some cp) None (Some md) fl = Inr (Inr (cp\<lparr>vFile := True, vCurr := 0\<rparr>))) \<and>
     (\<forall>os' md fl st'. os_stat os' q = Inr st' \<and> st' \<noteq> st \<longrightarrow>
        vfpCheckpointOpen os' (Some cp) None md fl = Inr (vfpOpen os' (Some q) md fl))"
proof -
  from assms(1) obtain q st where q: "os_stat os q = Inr st"
      "cp = v\<lparr>vFile := False, vPath := Some q, vCk := st\<rparr>"
    by (auto simp: vfpCheckpointFile_def split: if_splits option.splits sum.splits)
  have ne: "st' \<noteq> st \<Longrightarrow> st_size st' \<noteq> st_size st \<or> st_mtime st' \<noteq> st_mtime st \<or>
      st_blocks st' \<noteq> st_blocks st \<or> st_ino st' \<noteq> st_ino st \<or> st_dev st' \<noteq> st_dev st" for st' :: vstat
    by (cases st; cases st') auto
  have same: "vfpCheckpointOpen os' (Some cp) None (Some md) fl = Inr (Inr (cp\<lparr>vFile := True, vCurr := 0\<rparr>))"
    if "os_stat os' q = Inr st" "os_fopen os' q md = Inr dat" for os' md fl dat
    using that q assms(2) by (simp add: vfpCheckpointOpen_def)
  have changed: "vfpCheckpointOpen os' (Some cp) None md fl = Inr (vfpOpen os' (Some q) md fl)"
    if "os_stat os' q = Inr st'" "st' \<noteq> st" for os' md fl st'
    using that(1) ne [OF that(2)] q assms(2) by (simp add: vfpCheckpointOpen_def)
  have "vPath cp = Some q" "vMem cp = vMem v" "vHighWater cp = vHighWater v" using q(2) by simp_all
  with q(1) same changed show ?thesis by blast
qed

theorem vfpCheckpoint_roundtrip_witness:
  "\<exists>q st. Some q = Some ''c'' \<and> st = vstat0 \<and>
     (\<forall>os' md fl dat. os_stat os' q = Inr st \<and> os_fopen os' q md = Inr dat \<longrightarrow>
        vfpCheckpointOpen os' (Some (vfp0\<lparr>vStart := True, vMem := ''/a'', vEnd := 2, vPath := Some ''c''\<rparr>))
          None (Some md) fl =
        Inr (Inr (vfp0\<lparr>vStart := True, vMem := ''/a'', vEnd := 2, vPath := Some ''c'', vFile := True\<rparr>)))"
proof -
  let ?v = "vfp0\<lparr>vStart := True, vMem := ''/a'', vEnd := 2, vPath := Some ''c''\<rparr>"
  let ?os = "\<lparr>os_fopen = \<lambda>_ _. Inr [], os_read_err = \<lambda>_. None, os_stat = \<lambda>_. Inr vstat0,
        os_fclose_err = 0, os_creat = \<lambda>_. None, os_write = [], os_fresh = \<lambda>n. replicate n NUL,
        os_pagesize = 4096\<rparr>"
  have "vfpCheckpointFile ?os (Some ?v) None = Inr ?v" "vStart ?v"
    by (simp_all add: vfpCheckpointFile_def vfp0_def vfpGetBytesAvailable_def VFP_ANONYMOUS_PATH_def vstat0_def)
  from vfpCheckpoint_roundtrip [OF this] obtain q st where
    q: "Some ''c'' = Some q" "Inr vstat0 = (Inr st :: int + vstat)"
    and op: "\<forall>os' md fl dat. os_stat os' q = Inr st \<and> os_fopen os' q md = Inr dat \<longrightarrow>
        vfpCheckpointOpen os' (Some ?v) None (Some md) fl = Inr (Inr (?v\<lparr>vFile := True, vCurr := 0\<rparr>))"
    by (simp add: vfp0_def)
  have "?v\<lparr>vFile := True, vCurr := 0\<rparr> = ?v\<lparr>vFile := True\<rparr>" by (simp add: vfp0_def)
  with q op show ?thesis by auto
qed

end
