(* ===== verification/Paths.thy ===== *)
theory Paths
  imports Prelude
begin

text \<open>
  Path names: \<open>canonize\<close> and \<open>canonize_slashes\<close> of \<open>libpkg/canonize.c\<close>, and the resolution of build and
  install variables in paths and attributes of \<open>libpkg/mappath.c\<close>.

  A path that is edited in place is a pair: the characters in front of the cursor \<open>pt\<close> and the
  characters from \<open>pt\<close> on. \<open>strcpy(pt, q)\<close> with \<open>q\<close> behind \<open>pt\<close> in the same string moves the tail down.
\<close>

section \<open>Definitions: canonize.c\<close>

abbreviation SLASH :: char where "SLASH \<equiv> CHR ''/''"
abbreviation DOT :: char where "DOT \<equiv> CHR ''.''"

definition isdot :: "string \<Rightarrow> bool" where
  "isdot x \<longleftrightarrow> deref x = DOT \<and> (deref_at x 1 = NUL \<or> deref_at x 1 = SLASH)"

definition isdotdot :: "string \<Rightarrow> bool" where
  "isdotdot x \<longleftrightarrow> deref x = DOT \<and> deref_at x 1 = DOT \<and> (deref_at x 2 = NUL \<or> deref_at x 2 = SLASH)"

lemma isdotdot_length: "isdotdot x \<Longrightarrow> 2 \<le> length x"
  by (cases x; cases "tl x") (auto simp: isdotdot_def)

text \<open>The inner loop that counts a run of \<open>../\<close> and moves \<open>last\<close> behind it.\<close>

function dotdots :: "nat \<Rightarrow> string \<Rightarrow> nat \<times> string" where
  "dotdots level lst =
     (let lst' = (if drop 2 lst = [] then [] else drop 3 lst) in
      if isdotdot lst' then dotdots (level + 1) lst' else (level + 1, lst'))"
  by pat_completeness auto
termination
proof (relation "measure (\<lambda>(_, l). length l)", goal_cases)
  case (2 level l x)
  then show ?case by (cases "drop 2 l = []") (auto dest: isdotdot_length)
qed simp

declare dotdots.simps [simp del]

text \<open>
  \<open>while ((*--pt != '/') && (pt > file))\<close>, and the \<open>level\<close> rounds of it; \<open>None\<close> is the early return
  when the cursor is already at the start.
\<close>

fun up_one :: "string \<Rightarrow> nat \<Rightarrow> nat" where
  "up_one f 0 = 0"
| "up_one f (Suc p) = (if deref_at f p \<noteq> SLASH \<and> p > 0 then up_one f p else p)"

fun up_levels :: "string \<Rightarrow> nat \<Rightarrow> nat \<Rightarrow> nat option" where
  "up_levels f 0 pt = Some pt"
| "up_levels f (Suc level) pt = (if pt = 0 then None else up_levels f level (up_one f pt))"

definition trim_last :: "string \<Rightarrow> string" where
  "trim_last f = (if length f > 1 \<and> last f = SLASH then butlast f else f)"

lemma dotdots_length: "2 \<le> length l \<Longrightarrow> length (snd (dotdots n l)) < length l"
proof (induction n l rule: dotdots.induct)
  case (1 n l)
  define l' where "l' = (if drop 2 l = [] then [] else drop 3 l)"
  have short: "length l' < length l" using "1.prems" by (auto simp: l'_def)
  have step: "dotdots n l = (if isdotdot l' then dotdots (n + 1) l' else (n + 1, l'))"
    by (subst dotdots.simps) (simp only: Let_def l'_def)
  show ?case
  proof (cases "isdotdot l'")
    case True
    have "length (snd (dotdots (n + 1) l')) < length l'"
      using True by (intro "1.IH" [OF l'_def] isdotdot_length)
    then show ?thesis using step True short by simp
  qed (use step short in simp)
qed

lemma skip_slashes_shorter:
  assumes "dropWhile (\<lambda>c. c \<noteq> SLASH) rest \<noteq> []"
  shows "length (dropWhile (\<lambda>c. c = SLASH) (dropWhile (\<lambda>c. c \<noteq> SLASH) rest)) < length rest"
proof -
  obtain a l where d: "dropWhile (\<lambda>c. c \<noteq> SLASH) rest = a # l"
    using assms by (meson neq_Nil_conv)
  then have "a = SLASH" using hd_dropWhile [of "\<lambda>c. c \<noteq> SLASH" rest] by auto
  then have "length (dropWhile (\<lambda>c. c = SLASH) (a # l)) \<le> length l" by (simp add: length_dropWhile_le)
  moreover have "length (a # l) \<le> length rest" by (metis d length_dropWhile_le)
  ultimately show ?thesis using d by simp
qed

function canon_loop :: "string \<Rightarrow> string \<Rightarrow> string" where
  "canon_loop left rest =
     (if rest = [] then trim_last left
      else if isdot rest then
        canon_loop left (if deref_at rest 1 \<noteq> NUL then drop 2 rest else drop 1 rest)
      else if isdotdot rest then
        (let (level, lst) = dotdots 0 rest in
         if left = [] then left @ rest
         else case up_levels left level (length left - 1) of
           None \<Rightarrow> left @ rest
         | Some pt \<Rightarrow>
             canon_loop (take (if deref_at left pt = SLASH then pt + 1 else pt) left) lst)
      else
        (let comp = takeWhile (\<lambda>c. c \<noteq> SLASH) rest; r = dropWhile (\<lambda>c. c \<noteq> SLASH) rest in
         if r = [] then canon_loop (left @ comp) []
         else canon_loop (left @ comp @ [SLASH]) (dropWhile (\<lambda>c. c = SLASH) r)))"
  by pat_completeness auto
termination
proof (relation "measure (\<lambda>(_, r). length r)", goal_cases)
  case (3 left rest x level l pt)
  then show ?case using isdotdot_length dotdots_length by (metis case_prod_conv in_measure snd_conv)
next
  case (5 left rest comp r)
  then show ?case using skip_slashes_shorter [of rest] by auto
qed auto

declare canon_loop.simps [simp del]

definition canonize :: "string \<Rightarrow> string" where
  "canonize file = canon_loop [] file"

function slash_loop :: "string \<Rightarrow> string \<Rightarrow> string" where
  "slash_loop left rest =
     (if rest = [] then trim_last left
      else
        (let comp = takeWhile (\<lambda>c. c \<noteq> SLASH) rest; r = dropWhile (\<lambda>c. c \<noteq> SLASH) rest in
         if r = [] then slash_loop (left @ comp) []
         else slash_loop (left @ comp @ [SLASH]) (dropWhile (\<lambda>c. c = SLASH) r)))"
  by pat_completeness auto
termination
proof (relation "measure (\<lambda>(_, r). length r)", goal_cases)
  case (3 left rest comp r)
  then show ?case using skip_slashes_shorter [of rest] by auto
qed auto

declare slash_loop.simps [simp del]

definition canonize_slashes :: "string \<Rightarrow> string" where
  "canonize_slashes file = slash_loop [] file"

section \<open>Definitions: mappath.c\<close>

text \<open>
  The environment is a parameter: \<open>getenv\<close> is the function \<open>env\<close>. \<open>buffer\<close> and \<open>varname\<close> have the sizes
  of the source; the size of the caller's buffer is an argument. A write outside one of them is
  \<^const>\<open>BufOverrun\<close>.
\<close>

type_synonym environ = "string \<Rightarrow> string option"

definition PATH_MAX :: nat where "PATH_MAX = 1024"

definition map_mode :: "int \<Rightarrow> string \<Rightarrow> bool" where
  "map_mode flag pt \<longleftrightarrow> flag = 0 \<or> flag = 1 \<and> islower (deref_at pt 1) \<or> flag = 2 \<and> isupper (deref_at pt 1)"

text \<open>
  The state of the loop of \<open>mappath\<close>: the character before \<open>pt\<close> (\<open>None\<close> when \<open>pt == path\<close>), the text at
  \<open>pt\<close>, the text written to \<open>buffer\<close> and \<open>retvalue\<close>. \<open>break\<close> leaves no text at \<open>pt\<close>.
\<close>

record map_state =
  mp_prev :: "char option"
  mp_pt :: string
  mp_copy :: string
  mp_ret :: int

definition map_put :: "map_state \<Rightarrow> string \<Rightarrow> string \<Rightarrow> char \<Rightarrow> int \<Rightarrow> map_state res" where
  "map_put s chars npt prev ret =
     (if length (mp_copy s) + length chars \<le> PATH_MAX
      then Inr \<lparr>mp_prev = Some prev, mp_pt = npt, mp_copy = mp_copy s @ chars, mp_ret = ret\<rparr>
      else Inl BufOverrun)"

text \<open>\<open>*copy++ = *pt++\<close>\<close>

definition map_char :: "map_state \<Rightarrow> int \<Rightarrow> map_state res" where
  "map_char s ret = map_put s [deref (mp_pt s)] (tl (mp_pt s)) (deref (mp_pt s)) ret"

definition is_var :: "string \<Rightarrow> bool" where
  "is_var pt \<longleftrightarrow> deref pt = CHR ''$'' \<and> isalpha (deref_at pt 1)"

definition map_step :: "environ \<Rightarrow> int \<Rightarrow> map_state \<Rightarrow> map_state res" where
  "map_step env flag s =
     (let pt = mp_pt s in
      if is_var pt \<and> (mp_prev s = None \<or> mp_prev s = Some SLASH) then
        if map_mode flag pt then
          (let varname = takeWhile (\<lambda>c. c \<noteq> SLASH) (tl pt); npt = dropWhile (\<lambda>c. c \<noteq> SLASH) (tl pt) in
           if length varname < 64 then
             (case env varname of
                Some token \<Rightarrow> (if token \<noteq> [] then map_put s token npt (last varname) (mp_ret s) else map_char s 1)
              | None \<Rightarrow> map_char s 1)
           else Inl BufOverrun)
        else if flag = 2 then map_char s 1
        else if flag = 1 \<and> islower (deref_at pt 1) then map_char s 1
        else map_char s (mp_ret s)
      else if deref pt = SLASH then
        (let pt' = SLASH # dropWhile (\<lambda>c. c = SLASH) (tl pt) in
         if tl pt' = [] \<and> (mp_prev s \<noteq> None \<or> length pt' < length pt) then Inr (s\<lparr>mp_pt := []\<rparr>)
         else map_char (s\<lparr>mp_pt := pt'\<rparr>) (mp_ret s))
      else map_char s (mp_ret s))"

definition shrinks :: "nat \<Rightarrow> map_state res \<Rightarrow> bool" where
  "shrinks n r = (case r of Inl _ \<Rightarrow> True | Inr s \<Rightarrow> length (mp_pt s) < n)"

lemma shrinks_put: "length npt < n \<Longrightarrow> shrinks n (map_put s chars npt prev ret)"
  by (simp add: map_put_def shrinks_def)

lemma shrinks_char: "length (tl (mp_pt s)) < n \<Longrightarrow> shrinks n (map_char s ret)"
  by (simp add: map_char_def shrinks_put)

lemma shrinks_if: "shrinks n x \<Longrightarrow> shrinks n y \<Longrightarrow> shrinks n (if b then x else y)"
  by simp

lemma shrinks_option:
  "shrinks n x \<Longrightarrow> (\<And>v. shrinks n (y v)) \<Longrightarrow> shrinks n (case o' of None \<Rightarrow> x | Some v \<Rightarrow> y v)"
  by (cases o') simp_all

lemma dropWhile_less: "p \<noteq> [] \<Longrightarrow> length (dropWhile P (tl p)) < length p"
  using length_dropWhile_le [of P "tl p"] by (cases p) auto

lemma map_step_shrinks:
  assumes "mp_pt s \<noteq> []" shows "shrinks (length (mp_pt s)) (map_step env flag s)"
proof -
  note d = dropWhile_less [OF assms]
  have c: "shrinks (length (mp_pt s)) (map_char s r)" for r using assms by (simp add: shrinks_char)
  have v: "shrinks (length (mp_pt s)) (map_put s t (dropWhile (\<lambda>c. c \<noteq> SLASH) (tl (mp_pt s))) p r)" for t p r
    by (rule shrinks_put) (rule d)
  have w: "shrinks (length (mp_pt s)) (map_char (s\<lparr>mp_pt := SLASH # dropWhile (\<lambda>c. c = SLASH) (tl (mp_pt s))\<rparr>) r)" for r
    using d by (intro shrinks_char) simp
  have "shrinks (length (mp_pt s)) (Inl e)" "shrinks (length (mp_pt s)) (Inr (s\<lparr>mp_pt := []\<rparr>))" for e
    using assms by (simp_all add: shrinks_def)
  then show ?thesis unfolding map_step_def Let_def
    by (intro shrinks_if shrinks_option c v w)
qed

lemma map_step_shorter:
  "map_step env flag s = Inr s' \<Longrightarrow> mp_pt s \<noteq> [] \<Longrightarrow> length (mp_pt s') < length (mp_pt s)"
  using map_step_shrinks [of s env flag] by (simp add: shrinks_def)

function map_loop :: "environ \<Rightarrow> int \<Rightarrow> map_state \<Rightarrow> map_state res" where
  "map_loop env flag s =
     (if mp_pt s = [] then Inr s
      else (case map_step env flag s of Inl e \<Rightarrow> Inl e | Inr s' \<Rightarrow> map_loop env flag s'))"
  by pat_completeness auto
termination
proof (relation "measure (\<lambda>(_, _, s). length (mp_pt s))", goal_cases)
  case (2 env flag s s')
  then have "length (mp_pt s') < length (mp_pt s)" by (intro map_step_shorter)
  then show ?case by (simp only: in_measure prod.case)
qed (rule wf_measure)

declare map_loop.simps [simp del]

definition mappath :: "environ \<Rightarrow> int \<Rightarrow> nat \<Rightarrow> string \<Rightarrow> (int \<times> string) res" where
  "mappath env flag psize path =
     rbind (map_loop env flag \<lparr>mp_prev = None, mp_pt = path, mp_copy = [], mp_ret = 0\<rparr>) (\<lambda>s.
       if length (mp_copy s) < PATH_MAX \<and> length (mp_copy s) < psize then Inr (mp_ret s, mp_copy s)
       else Inl BufOverrun)"

text \<open>
  \<open>basepath\<close>: the text written in front of the path so far; a slash that ends it is taken back. The
  test \<open>ir && *ir\<close> before \<open>basedir\<close> reads the cursor \<open>ir\<close> after the loop that consumed it.
\<close>

definition base_put :: "string \<Rightarrow> string \<Rightarrow> string" where
  "base_put done_so_far s =
     (let t = done_so_far @ s in if last t = SLASH then butlast t else t)"

definition basepath :: "nat \<Rightarrow> string \<Rightarrow> string option \<Rightarrow> string option \<Rightarrow> string res" where
  "basepath psize path basedir ir =
     (let root = (case ir of Some r \<Rightarrow> if r \<noteq> [] then base_put [] r else [] | None \<Rightarrow> []);
          ir_left = (case ir of Some r \<Rightarrow> Some (drop (length r) r) | None \<Rightarrow> None);
          result =
            (if deref path \<noteq> SLASH then
               (let dir = (case basedir of
                    Some b \<Rightarrow>
                      (if b \<noteq> [] then
                         base_put (root @ (if ir_left \<noteq> None \<and> the ir_left \<noteq> [] \<and> deref b \<noteq> SLASH
                                           then [SLASH] else [])) b
                       else root)
                  | None \<Rightarrow> root)
                in dir @ SLASH # path)
             else root @ path)
      in if deref path = SLASH \<and> (ir = None \<or> ir = Some []) then Inr path
         else if length path < PATH_MAX \<and> length result < psize then Inr result else Inl BufOverrun)"

definition mapvar :: "environ \<Rightarrow> int \<Rightarrow> nat \<Rightarrow> string \<Rightarrow> (int \<times> string) res" where
  "mapvar env flag psize varname =
     (if is_var varname then
        if map_mode flag varname then
          (case env (tl varname) of
             Some token \<Rightarrow>
               (if token \<noteq> [] then
                  if length token < psize then Inr (0, token) else Inl BufOverrun
                else Inr (1, varname))
           | None \<Rightarrow> Inr (1, varname))
        else if flag = 2 then Inr (1, varname)
        else if flag = 1 \<and> islower (deref_at varname 1) then Inr (1, varname)
        else Inr (0, varname)
      else Inr (0, varname))"

section \<open>Path components\<close>

text \<open>
  The meaning of a path: its components between slashes, resolved from the left, where \<open>.\<close> is
  dropped and \<open>..\<close> takes back the component before it; \<open>None\<close> when there is none to take back.
\<close>

fun resolve :: "string list \<Rightarrow> string list \<Rightarrow> string list option" where
  "resolve st [] = Some st"
| "resolve st (c # cs) =
     (if c = ''.'' then resolve st cs
      else if c = ''..'' then (if st = [] then None else resolve (butlast st) cs)
      else resolve (st @ [c]) cs)"

definition comp_ok :: "string \<Rightarrow> bool" where
  "comp_ok c \<longleftrightarrow> c \<noteq> [] \<and> SLASH \<notin> set c \<and> NUL \<notin> set c"

definition enc :: "string list \<Rightarrow> string" where
  "enc st = concat (map (\<lambda>c. c @ [SLASH]) st)"

lemma enc_simps [simp]: "enc [] = []" "enc (xs @ [c]) = enc xs @ c @ [SLASH]"
  by (simp_all add: enc_def)

lemma enc_Nil_iff [simp]: "enc st = [] \<longleftrightarrow> st = []"
  by (cases st) (auto simp: enc_def)

lemma enc_last: "st \<noteq> [] \<Longrightarrow> last (enc st) = SLASH"
  by (cases st rule: rev_cases) simp_all

lemma enc_snoc_join: "enc st @ c = join_sep SLASH (st @ [c])"
proof (induction st arbitrary: c rule: rev_induct)
  case (snoc d st)
  have "enc (st @ [d]) @ c = (enc st @ d) @ SLASH # c" by simp
  also have "\<dots> = join_sep SLASH (st @ [d]) @ SLASH # c" by (simp only: snoc.IH)
  finally show ?case using join_sep_snoc [of "st @ [d]" SLASH c] by simp
qed simp

lemma enc_butlast: "st \<noteq> [] \<Longrightarrow> enc st = join_sep SLASH st @ [SLASH]"
  by (cases st rule: rev_cases) (simp_all add: enc_snoc_join [symmetric])

lemma join_sep_Cons: "ts \<noteq> [] \<Longrightarrow> join_sep c (t # ts) = t @ c # join_sep c ts"
  by (cases ts) (simp_all add: join_sep_def)

lemma trim_last_enc:
  assumes "pre = [] \<or> pre = [SLASH]" "\<forall>c \<in> set st. comp_ok c"
  shows "trim_last (pre @ enc st) = pre @ join_sep SLASH st"
proof (cases "st = []")
  case True
  then show ?thesis using assms by (auto simp: trim_last_def)
next
  case False
  then have "join_sep SLASH st \<noteq> []" using assms by (simp add: join_sep_Nil_iff comp_ok_def)
  then show ?thesis using False by (simp add: trim_last_def enc_butlast butlast_append)
qed

lemma comp_first:
  assumes "comp_ok c"
  shows "deref (c @ z) \<noteq> SLASH" "c @ z \<noteq> []"
  using assms by (cases c; auto simp: comp_ok_def)+

lemma rest_first:
  assumes "\<forall>c \<in> set ts. comp_ok c" "ts \<noteq> []"
  shows "\<exists>x u. join_sep SLASH ts = x # u \<and> x \<noteq> SLASH"
proof -
  obtain c cs where ts: "ts = c # cs" using assms(2) by (cases ts) auto
  then obtain x u where c: "c = x # u" "x \<noteq> SLASH"
    using assms(1) by (cases c) (auto simp: comp_ok_def)
  then show ?thesis using ts by (simp add: join_sep_def)
qed

lemma tokens_comp_ok:
  "NUL \<notin> set p \<Longrightarrow> t \<in> set (tokens [SLASH] p) \<Longrightarrow> comp_ok t"
  using tokens_ne [of t "[SLASH]" p] tokens_set [of t "[SLASH]" p] tokens_subset [of t "[SLASH]" p]
  by (auto simp: comp_ok_def)

section \<open>canonize_slashes\<close>

lemma slash_loop_Nil: "slash_loop left [] = trim_last left"
  by (simp add: slash_loop.simps)

lemma slash_loop_sep: "slash_loop left (SLASH # r) = slash_loop (left @ [SLASH]) (dropWhile (\<lambda>c. c = SLASH) r)"
  by (subst slash_loop.simps) simp

lemma slash_loop_comp:
  assumes "comp_ok c"
  shows "slash_loop left c = slash_loop (left @ c) []"
    "slash_loop left (c @ SLASH # r) = slash_loop (left @ c @ [SLASH]) (dropWhile (\<lambda>c. c = SLASH) r)"
proof -
  have n: "\<forall>x \<in> set c. x \<noteq> SLASH" and ne: "c \<noteq> []" using assms by (auto simp: comp_ok_def)
  then have tw: "takeWhile (\<lambda>c. c \<noteq> SLASH) c = c" "dropWhile (\<lambda>c. c \<noteq> SLASH) c = []"
    "takeWhile (\<lambda>c. c \<noteq> SLASH) (c @ SLASH # r) = c" "dropWhile (\<lambda>c. c \<noteq> SLASH) (c @ SLASH # r) = SLASH # r"
    by (auto simp: takeWhile_append2 dropWhile_append2)
  show "slash_loop left c = slash_loop (left @ c) []"
    by (subst slash_loop.simps) (simp add: tw ne)
  show "slash_loop left (c @ SLASH # r) = slash_loop (left @ c @ [SLASH]) (dropWhile (\<lambda>c. c = SLASH) r)"
    by (subst slash_loop.simps) (simp add: tw ne)
qed

lemma head_comp:
  assumes "NUL \<notin> set p" "p \<noteq> []" "hd p \<noteq> SLASH"
  obtains c where "comp_ok c" "p = c"
  | c r where "comp_ok c" "p = c @ SLASH # r"
proof -
  let ?c = "takeWhile (\<lambda>c. c \<noteq> SLASH) p" and ?d = "dropWhile (\<lambda>c. c \<noteq> SLASH) p"
  have p: "p = ?c @ ?d" by simp
  have ok: "comp_ok ?c"
    using assms by (cases p) (auto simp: comp_ok_def dest: set_takeWhileD)
  show thesis
  proof (cases ?d)
    case Nil then show thesis using that(1) ok p by (metis append_Nil2)
  next
    case (Cons x r)
    then have "x = SLASH" using hd_dropWhile [of "\<lambda>c. c \<noteq> SLASH" p] by auto
    then show thesis using that(2) ok p Cons by metis
  qed
qed

lemma head_tokens_ne: "p \<noteq> [] \<Longrightarrow> hd p \<noteq> SLASH \<Longrightarrow> tokens [SLASH] p \<noteq> []"
  by (cases p) (auto simp: tokens_def split: list.splits)

lemma slash_loop_eq:
  assumes "pre = [] \<or> pre = [SLASH]" "\<forall>c \<in> set st. comp_ok c" "NUL \<notin> set p"
    and "p = [] \<or> hd p \<noteq> SLASH"
  shows "slash_loop (pre @ enc st) p = pre @ join_sep SLASH (st @ tokens [SLASH] p)"
  using assms(2-4)
proof (induction "length p" arbitrary: st p rule: less_induct)
  case less
  show ?case
  proof (cases "p = []")
    case True
    then show ?thesis using less assms(1) by (simp add: slash_loop_Nil trim_last_enc)
  next
    case False
    then have h: "hd p \<noteq> SLASH" using less.prems by simp
    from less.prems(2) False h show ?thesis
    proof (cases rule: head_comp)
      case (1 c)
      then have "last (pre @ enc st @ c) \<noteq> SLASH" by (auto simp: comp_ok_def dest: last_in_set)
      then have "trim_last (pre @ enc st @ c) = pre @ enc st @ c" by (simp add: trim_last_def)
      moreover have "tokens [SLASH] c = [c]" using 1 by (auto simp: comp_ok_def intro: tokens_single)
      ultimately show ?thesis using 1 by (simp add: slash_loop_comp slash_loop_Nil enc_snoc_join)
    next
      case (2 c r)
      let ?r = "dropWhile (\<lambda>c. c = SLASH) r"
      have nul: "NUL \<notin> set ?r" using less.prems(2) 2 by (auto dest: set_dropWhileD)
      have hd: "?r = [] \<or> hd ?r \<noteq> SLASH" using hd_dropWhile [of "\<lambda>c. c = SLASH" r] by blast
      have len: "length ?r < length p" using 2 length_dropWhile_le [of "\<lambda>c. c = SLASH" r] by simp
      have "slash_loop (pre @ enc st) p = slash_loop (pre @ enc (st @ [c])) ?r"
        using 2 by (simp add: slash_loop_comp)
      also have "\<dots> = pre @ join_sep SLASH ((st @ [c]) @ tokens [SLASH] ?r)"
        using less.prems 2 by (intro less.hyps [OF len _ nul hd]) auto
      also have "tokens [SLASH] ?r = tokens [SLASH] r"
        using tokens_dropWhile [of "[SLASH]" r] by simp
      finally show ?thesis using 2 tokens_append_sep [of c "[SLASH]" SLASH r]
        by (auto simp: comp_ok_def)
    qed
  qed
qed

lemma canonize_slashes_eq:
  assumes "NUL \<notin> set p"
  shows "canonize_slashes p =
    (if deref p = SLASH then [SLASH] else []) @ join_sep SLASH (tokens [SLASH] p)"
proof (cases "deref p = SLASH")
  case True
  then obtain r where p: "p = SLASH # r" by (cases p) auto
  let ?r = "dropWhile (\<lambda>c. c = SLASH) r"
  have "?r = [] \<or> hd ?r \<noteq> SLASH" using hd_dropWhile [of "\<lambda>c. c = SLASH" r] by blast
  then have "slash_loop ([SLASH] @ enc []) ?r = [SLASH] @ join_sep SLASH ([] @ tokens [SLASH] ?r)"
    using assms p by (intro slash_loop_eq) (auto dest: set_dropWhileD)
  then show ?thesis using True p tokens_dropWhile [of "[SLASH]" r]
    by (simp add: canonize_slashes_def slash_loop_sep)
next
  case False
  then have "p = [] \<or> hd p \<noteq> SLASH" by (cases p) auto
  then have "slash_loop ([] @ enc []) p = [] @ join_sep SLASH ([] @ tokens [SLASH] p)"
    using assms by (intro slash_loop_eq) auto
  then show ?thesis using False by (simp add: canonize_slashes_def)
qed


section \<open>canonize\<close>

lemma isdot_comp:
  assumes "comp_ok c"
  shows "isdot c \<longleftrightarrow> c = ''.''" "isdot (c @ SLASH # r) \<longleftrightarrow> c = ''.''"
    "isdotdot c \<longleftrightarrow> c = ''..''" "isdotdot (c @ SLASH # r) \<longleftrightarrow> c = ''..''"
proof -
  obtain x u where c: "c = x # u" using assms by (cases c) (auto simp: comp_ok_def)
  have d: "u = [] \<or> (\<exists>y v. u = y # v \<and> y \<noteq> SLASH \<and> y \<noteq> NUL \<and>
      (v = [] \<or> (\<exists>z w. v = z # w \<and> z \<noteq> SLASH \<and> z \<noteq> NUL)))"
    using assms c by (cases u; cases "tl u") (auto simp: comp_ok_def)
  show "isdot c \<longleftrightarrow> c = ''.''" "isdot (c @ SLASH # r) \<longleftrightarrow> c = ''.''"
    using d c by (auto simp: isdot_def)
  show "isdotdot c \<longleftrightarrow> c = ''..''" "isdotdot (c @ SLASH # r) \<longleftrightarrow> c = ''..''"
    using d c by (auto simp: isdotdot_def numeral_2_eq_2)
qed

lemma isdot_join:
  assumes "\<forall>c \<in> set ts. comp_ok c"
  shows "isdot (join_sep SLASH ts) \<longleftrightarrow> (\<exists>us. ts = ''.'' # us)"
    "isdotdot (join_sep SLASH ts) \<longleftrightarrow> (\<exists>us. ts = ''..'' # us)"
proof -
  consider "ts = []" | c where "ts = [c]" | c us where "ts = c # us" "us \<noteq> []"
    by (cases ts; cases "tl ts") auto
  then have "isdot (join_sep SLASH ts) = (\<exists>us. ts = ''.'' # us) \<and>
      isdotdot (join_sep SLASH ts) = (\<exists>us. ts = ''..'' # us)"
  proof cases
    case 1 then show ?thesis by (simp add: isdot_def isdotdot_def)
  qed (use assms in \<open>auto simp: join_sep_Cons isdot_comp\<close>)
  then show "isdot (join_sep SLASH ts) \<longleftrightarrow> (\<exists>us. ts = ''.'' # us)"
    "isdotdot (join_sep SLASH ts) \<longleftrightarrow> (\<exists>us. ts = ''..'' # us)" by auto
qed

lemma dotdots_join:
  assumes "\<forall>c \<in> set ts. comp_ok c" "\<nexists>us. ts = ''..'' # us"
  shows "dotdots n (join_sep SLASH (''..'' # replicate k ''..'' @ ts)) = (n + Suc k, join_sep SLASH ts)"
proof (induction k arbitrary: n)
  case 0
  show ?case using isdot_join(2) [OF assms(1)] assms(2)
    by (cases "ts = []") (simp_all add: dotdots.simps Let_def join_sep_Cons)
next
  case (Suc k)
  have ok: "\<forall>c \<in> set (''..'' # replicate k ''..'' @ ts). comp_ok c" using assms(1) by (auto simp: comp_ok_def)
  have j: "join_sep SLASH (''..'' # replicate (Suc k) ''..'' @ ts) =
      ''../'' @ join_sep SLASH (''..'' # replicate k ''..'' @ ts)"
    by (simp add: join_sep_Cons)
  have "\<exists>x u. join_sep SLASH (''..'' # replicate k ''..'' @ ts) = x # u" using rest_first [OF ok] by auto
  then show ?case unfolding j using isdot_join(2) [OF ok] Suc.IH [of "n + 1"]
    by (subst dotdots.simps) auto
qed

lemma up_one_skip:
  "q \<le> p \<Longrightarrow> \<forall>i. q \<le> i \<and> i < p \<longrightarrow> deref_at f i \<noteq> SLASH \<Longrightarrow> up_one f p = up_one f q"
proof (induction p)
  case (Suc p)
  show ?case
  proof (cases "q = Suc p")
    case False
    then have "q \<le> p" using Suc.prems by simp
    then have "up_one f p = up_one f q" "deref_at f p \<noteq> SLASH" using Suc by auto
    then show ?thesis by (cases p) auto
  qed simp
qed simp

lemma deref_at_append: "i < length u \<Longrightarrow> deref_at (u @ z) i = u ! i"
  by (simp add: deref_at_def deref_def Cons_nth_drop_Suc [symmetric])

text \<open>The cursor of the backward walk, for the text in front of it.\<close>

lemma up_one_comp:
  assumes "comp_ok c" "u = [] \<or> last u = SLASH"
  shows "up_one (u @ c @ z) (length u + length c) = length u - 1"
proof -
  have n: "\<forall>i. length u \<le> i \<and> i < length u + length c \<longrightarrow> deref_at (u @ c @ z) i \<noteq> SLASH"
  proof (intro allI impI)
    fix i assume i: "length u \<le> i \<and> i < length u + length c"
    then have "deref_at (u @ c @ z) i = c ! (i - length u)"
      using deref_at_append [of i "u @ c" z] by (simp add: nth_append)
    moreover have "c ! (i - length u) \<in> set c" using i by (intro nth_mem) auto
    ultimately show "deref_at (u @ c @ z) i \<noteq> SLASH" using assms(1) by (auto simp: comp_ok_def)
  qed
  then have "up_one (u @ c @ z) (length u + length c) = up_one (u @ c @ z) (length u)"
    by (intro up_one_skip) auto
  also have "\<dots> = length u - 1"
  proof (cases u rule: rev_cases)
    case (snoc v x)
    then show ?thesis using assms(2) deref_at_append [of "length v" u "c @ z"] by simp
  qed simp
  finally show ?thesis .
qed

lemma enc_pre_last: "pre = [] \<or> pre = [SLASH] \<Longrightarrow> pre @ enc st = [] \<or> last (pre @ enc st) = SLASH"
  using enc_last [of st] by (auto simp: last_append)

lemma up_levels_enc:
  assumes "pre = [] \<or> pre = [SLASH]" "\<forall>c \<in> set ds. comp_ok c"
  shows "up_levels (pre @ enc (st @ ds) @ z) (length ds) (length (pre @ enc (st @ ds)) - 1) =
    Some (length (pre @ enc st) - 1)"
  using assms(2)
proof (induction ds arbitrary: z rule: rev_induct)
  case (snoc d ds)
  let ?u = "pre @ enc (st @ ds)"
  have d: "comp_ok d" using snoc.prems by simp
  have e: "pre @ enc (st @ ds @ [d]) @ z = ?u @ d @ SLASH # z"
    using enc_simps(2) [of "st @ ds" d] by simp
  have l: "length (pre @ enc (st @ ds @ [d])) - 1 = length ?u + length d"
    using enc_simps(2) [of "st @ ds" d] by simp
  have up: "up_one (?u @ d @ SLASH # z) (length ?u + length d) = length ?u - 1"
    using enc_pre_last [OF assms(1)] by (intro up_one_comp d)
  have "length d > 0" using d by (simp add: comp_ok_def)
  then have "up_levels (?u @ d @ SLASH # z) (Suc (length ds)) (length ?u + length d) =
      up_levels (?u @ d @ SLASH # z) (length ds) (length ?u - 1)"
    using up by (simp only: up_levels.simps) simp
  also have "\<dots> = Some (length (pre @ enc st) - 1)"
    using snoc.IH [of "d @ SLASH # z"] snoc.prems by simp
  finally show ?case unfolding l e by simp
qed simp

lemma up_cut:
  fixes st ds :: "string list" and pre :: string
  assumes "pre = [] \<or> pre = [SLASH]" "\<forall>c \<in> set ds. comp_ok c" "ds \<noteq> []"
  defines "f \<equiv> pre @ enc (st @ ds)"
  defines "pt \<equiv> length (pre @ enc st) - 1"
  shows "take (if deref_at f pt = SLASH then pt + 1 else pt) f = pre @ enc st"
proof -
  let ?u = "pre @ enc st"
  have f: "f = ?u @ enc ds" by (simp add: f_def enc_def)
  show ?thesis
  proof (cases ?u rule: rev_cases)
    case Nil
    have "\<exists>d es. ds = d # es \<and> comp_ok d" using assms by (cases ds) auto
    then have "deref f \<noteq> SLASH" using f Nil by (auto simp: enc_def comp_first)
    then show ?thesis using Nil by (simp add: pt_def)
  next
    case (snoc v x)
    then have "x = SLASH" using enc_pre_last [OF assms(1), of st] by simp
    moreover have "pt = length v" using arg_cong [OF snoc, of length] by (simp add: pt_def)
    moreover have "deref_at f (length v) = x"
      using deref_at_append [of "length v" ?u "enc ds"] snoc f by simp
    ultimately show ?thesis using snoc f by simp
  qed
qed

lemma resolve_replicate:
  "resolve st (replicate k ''..'' @ ts) = (if k \<le> length st then resolve (take (length st - k) st) ts else None)"
proof (induction k arbitrary: st)
  case (Suc k)
  then show ?case by (cases st rule: rev_cases) (auto simp: Suc_diff_le)
qed simp

lemma dotdot_run:
  obtains k us where "ts = replicate k ''..'' @ us" "\<nexists>vs. us = ''..'' # vs"
proof (induction ts arbitrary: thesis)
  case (Cons t ts)
  show ?case
  proof (cases "t = ''..''")
    case True
    from Cons.IH obtain k us where "ts = replicate k ''..'' @ us" "\<nexists>vs. us = ''..'' # vs" by blast
    then show ?thesis using True Cons.prems [of "Suc k" us] by simp
  next
    case False
    then show ?thesis using Cons.prems [of 0 "t # ts"] by simp
  qed
qed simp

lemma canon_dot:
  assumes "\<forall>c \<in> set ts. comp_ok c"
  shows "canon_loop left (join_sep SLASH (''.'' # ts)) = canon_loop left (join_sep SLASH ts)"
  using isdot_join(1) [of "''.'' # ts"] assms
  by (subst canon_loop.simps) (cases "ts = []", auto simp: join_sep_Cons comp_ok_def isdot_def)

lemma canon_comp:
  assumes "\<forall>c \<in> set (t # ts). comp_ok c" "t \<noteq> ''.''" "t \<noteq> ''..''"
  shows "canon_loop left (join_sep SLASH (t # ts)) =
    canon_loop (if ts = [] then left @ t else left @ t @ [SLASH]) (join_sep SLASH ts)"
proof -
  have n: "\<not> isdot (join_sep SLASH (t # ts))" "\<not> isdotdot (join_sep SLASH (t # ts))"
    using isdot_join [OF assms(1)] assms(2,3) by auto
  have t: "\<forall>x \<in> set t. x \<noteq> SLASH" "t \<noteq> []" using assms(1) by (auto simp: comp_ok_def)
  show ?thesis
  proof (cases "ts = []")
    case True
    then show ?thesis using n t
      by (subst canon_loop.simps) (simp add: takeWhile_eq_all_conv [THEN iffD2])
  next
    case False
    obtain x u where "join_sep SLASH ts = x # u" "x \<noteq> SLASH" using rest_first [of ts] assms(1) False by auto
    then show ?thesis using False n t
      by (subst canon_loop.simps) (simp add: join_sep_Cons takeWhile_append2 dropWhile_append2)
  qed
qed

lemma canon_up:
  assumes "pre = [] \<or> pre = [SLASH]" "\<forall>c \<in> set st. comp_ok c" "\<forall>c \<in> set ts. comp_ok c"
    and "\<nexists>us. ts = ''..'' # us" "Suc k \<le> length st"
  shows "canon_loop (pre @ enc st) (join_sep SLASH (replicate (Suc k) ''..'' @ ts)) =
    canon_loop (pre @ enc (take (length st - Suc k) st)) (join_sep SLASH ts)"
proof -
  let ?r = "replicate (Suc k) ''..'' @ ts"
  let ?s = "take (length st - Suc k) st" and ?d = "drop (length st - Suc k) st"
  have ok: "\<forall>c \<in> set ?r. comp_ok c" using assms(3) by (auto simp: comp_ok_def)
  have ne: "join_sep SLASH ?r \<noteq> []" using rest_first [OF ok] by auto
  have dd: "\<not> isdot (join_sep SLASH ?r)" "isdotdot (join_sep SLASH ?r)" using isdot_join [OF ok] by auto
  have run: "dotdots 0 (join_sep SLASH ?r) = (Suc k, join_sep SLASH ts)"
    using dotdots_join [OF assms(3,4), of 0 k] by simp
  have d: "\<forall>c \<in> set ?d. comp_ok c" "?d \<noteq> []" "length ?d = Suc k"
    using assms(2,5) by (auto dest: in_set_dropD)
  have st: "?s @ ?d = st" by simp
  have up: "up_levels (pre @ enc st) (Suc k) (length (pre @ enc st) - 1) = Some (length (pre @ enc ?s) - 1)"
    using up_levels_enc [OF assms(1) d(1), of ?s "[]"] unfolding st d(3) by simp
  have cut: "take (if deref_at (pre @ enc st) (length (pre @ enc ?s) - 1) = SLASH
        then length (pre @ enc ?s) - 1 + 1 else length (pre @ enc ?s) - 1) (pre @ enc st) = pre @ enc ?s"
    using up_cut [OF assms(1) d(1,2), of ?s] unfolding st .
  have "st \<noteq> []" using assms(5) by auto
  then have "pre @ enc st \<noteq> []" by simp
  then show ?thesis
    by (subst canon_loop.simps) (simp only: ne dd run up cut if_True if_False Let_def prod.case option.case)
qed

lemma canon_loop_resolve:
  assumes "pre = [] \<or> pre = [SLASH]" "\<forall>c \<in> set st. comp_ok c" "\<forall>c \<in> set ts. comp_ok c"
    and "resolve st ts = Some st'"
  shows "canon_loop (pre @ enc st) (join_sep SLASH ts) = pre @ join_sep SLASH st'"
  using assms(2-4)
proof (induction "length ts" arbitrary: st ts rule: less_induct)
  case less
  obtain k us where ts: "ts = replicate k ''..'' @ us" "\<nexists>vs. us = ''..'' # vs" by (rule dotdot_run)
  show ?case
  proof (cases k)
    case (Suc j)
    let ?s = "take (length st - Suc j) st"
    have r: "Suc j \<le> length st" "resolve ?s us = Some st'"
      using less.prems(3) ts(1) Suc resolve_replicate [of st k us] by (auto split: if_splits)
    have us: "\<forall>c \<in> set us. comp_ok c" "length us < length ts" using less.prems(2) ts(1) Suc by auto
    have s: "\<forall>c \<in> set ?s. comp_ok c" using less.prems(1) by (auto dest: in_set_takeD)
    show ?thesis
      using canon_up [OF assms(1) less.prems(1) us(1) ts(2) r(1)] less.hyps [OF us(2) s us(1) r(2)] ts(1) Suc
      by simp
  next
    case 0
    then have nd: "\<nexists>vs. ts = ''..'' # vs" using ts by simp
    show ?thesis
    proof (cases ts)
      case Nil
      then show ?thesis using less.prems(1,3) by (simp add: canon_loop.simps trim_last_enc [OF assms(1)])
    next
      case (Cons t vs)
      have vs: "\<forall>c \<in> set vs. comp_ok c" "comp_ok t" "length vs < length ts" "t \<noteq> ''..''"
        using less.prems(2) Cons nd by auto
      show ?thesis
      proof (cases "t = ''.''")
        case True
        then have "resolve st vs = Some st'" using less.prems(3) Cons by simp
        then show ?thesis using less.hyps [OF vs(3) less.prems(1) vs(1)] canon_dot [OF vs(1)] True Cons by simp
      next
        case False
        have r: "resolve (st @ [t]) vs = Some st'" using less.prems(3) Cons vs(4) False by simp
        have st: "\<forall>c \<in> set (st @ [t]). comp_ok c" using less.prems(1) vs(2) by auto
        have c: "canon_loop (pre @ enc st) (join_sep SLASH ts) =
            canon_loop (if vs = [] then pre @ enc st @ t else pre @ enc (st @ [t])) (join_sep SLASH vs)"
          using canon_comp [of t vs "pre @ enc st"] vs False Cons by simp
        show ?thesis
        proof (cases "vs = []")
          case True
          have "last (pre @ enc st @ t) \<noteq> SLASH" using vs(2) by (auto simp: comp_ok_def dest: last_in_set)
          then show ?thesis using True c r
            by (simp add: canon_loop.simps trim_last_def enc_snoc_join)
        next
          case vne: False
          then show ?thesis using c less.hyps [OF vs(3) st vs(1) r] by simp
        qed
      qed
    qed
  qed
qed

lemma canonize_join:
  assumes "pre = [] \<or> pre = [SLASH]" "\<forall>c \<in> set ts. comp_ok c" "resolve [] ts = Some st"
  shows "canonize (pre @ join_sep SLASH ts) = pre @ join_sep SLASH st"
proof (cases "pre = []")
  case True
  then show ?thesis using canon_loop_resolve [OF assms(1) _ assms(2,3)] by (simp add: canonize_def)
next
  case False
  then have pre: "pre = [SLASH]" using assms(1) by simp
  have dw: "dropWhile (\<lambda>c. c = SLASH) (join_sep SLASH ts) = join_sep SLASH ts"
    using rest_first [OF assms(2)] by (cases "ts = []") auto
  have "canonize (SLASH # join_sep SLASH ts) = canon_loop [SLASH] (join_sep SLASH ts)"
    unfolding canonize_def by (subst canon_loop.simps) (simp add: isdot_def isdotdot_def dw)
  then show ?thesis using pre canon_loop_resolve [OF assms(1) _ assms(2,3)] by simp
qed

text \<open>
  \<open>canonize_slashes\<close> collapses every run of slashes to one and removes a trailing slash: the
  result is the leading slash of an absolute path followed by the non-empty components of the
  argument, joined by single slashes.
\<close>

theorem canonize_slashes_correct:
  assumes "NUL \<notin> set file"
  shows "canonize_slashes file =
    (if deref file = SLASH then ''/'' else '''') @ join_sep SLASH (tokens ''/'' file)"
  using canonize_slashes_eq [OF assms] by simp

theorem canonize_slashes_correct_witness:
  "canonize_slashes ''//usr///bin/'' = ''/usr/bin''"
proof -
  have "tokens ''/'' ''//usr///bin/'' = [''usr'', ''bin'']" by (simp add: tokens_def)
  then show ?thesis using canonize_slashes_correct [of "''//usr///bin/''"] by (simp add: join_sep_def)
qed

text \<open>
  After \<open>canonize_slashes\<close>, \<open>canonize\<close> computes the path's meaning: whenever every \<open>..\<close> has a
  component before it, the result is the resolved component list joined by single slashes, with the
  leading slash of an absolute path kept. In particular no \<open>.\<close>, \<open>..\<close> or empty component is left.
\<close>

theorem canonize_resolves:
  assumes "NUL \<notin> set file" "resolve [] (tokens ''/'' file) = Some st"
  shows "canonize (canonize_slashes file) =
    (if deref file = SLASH then ''/'' else '''') @ join_sep SLASH st"
  using assms tokens_comp_ok [OF assms(1)] canonize_join [of "if deref file = SLASH then [SLASH] else []"]
  by (simp add: canonize_slashes_eq)

theorem canonize_resolves_witness:
  "canonize (canonize_slashes ''/a//./b/../../c/'') = ''/c''"
proof -
  have "resolve [] (tokens ''/'' ''/a//./b/../../c/'') = Some [''c'']" by (simp add: tokens_def)
  then show ?thesis using canonize_resolves [of "''/a//./b/../../c/''"] by simp
qed

text \<open>
  On its own, \<open>canonize\<close> does not remove every doubled slash, although its comment says that it
  removes references such as \<open>//\<close>: after a \<open>./\<close> or \<open>../\<close> the slash that follows is kept, and a \<open>..\<close>
  with nothing to take back stops the whole rewriting, so that later components stay as they were.
\<close>

theorem canonize_incomplete:
  "canonize ''/.//c'' = ''//c'' \<and> canonize ''/a/b/..//c'' = ''/a//c'' \<and>
   canonize ''/../a/./b//c'' = ''/../a/./b//c''"
  by code_simp

section \<open>mappath\<close>

text \<open>
  What a component of a path becomes, and when it counts as unresolved: a variable whose time it is
  and that has a value is replaced; a variable at its time without a value, or one of build time at
  install time, is left and reported.
\<close>

definition var_value :: "environ \<Rightarrow> int \<Rightarrow> string \<Rightarrow> string option" where
  "var_value env flag c =
     (if is_var c \<and> map_mode flag c then
        (case env (tl c) of Some v \<Rightarrow> if v \<noteq> [] then Some v else None | None \<Rightarrow> None)
      else None)"

definition subst_comp :: "environ \<Rightarrow> int \<Rightarrow> string \<Rightarrow> string" where
  "subst_comp env flag c = (case var_value env flag c of Some v \<Rightarrow> v | None \<Rightarrow> c)"

definition unresolved :: "environ \<Rightarrow> int \<Rightarrow> string \<Rightarrow> bool" where
  "unresolved env flag c \<longleftrightarrow>
     is_var c \<and> (map_mode flag c \<or> flag = 2) \<and> var_value env flag c = None"

definition comp_ret :: "environ \<Rightarrow> int \<Rightarrow> string \<Rightarrow> int \<Rightarrow> int" where
  "comp_ret env flag c r = (if unresolved env flag c then 1 else r)"

lemma map_chars:
  assumes "SLASH \<notin> set c" "x \<noteq> SLASH" "length copy + length c \<le> PATH_MAX"
  shows "map_loop env flag \<lparr>mp_prev = Some x, mp_pt = c @ rest, mp_copy = copy, mp_ret = r\<rparr> =
    map_loop env flag \<lparr>mp_prev = Some (last (x # c)), mp_pt = rest, mp_copy = copy @ c, mp_ret = r\<rparr>"
  using assms
proof (induction c arbitrary: x copy)
  case (Cons a c)
  then have "a \<noteq> SLASH" by auto
  then show ?case using Cons
    by (subst map_loop.simps) (simp add: map_step_def map_char_def map_put_def Let_def)
qed simp

lemma is_var_append: "SLASH \<notin> set c \<Longrightarrow> c \<noteq> [] \<Longrightarrow> rest = [] \<or> hd rest = SLASH \<Longrightarrow> is_var (c @ rest) = is_var c"
  by (cases c; cases "tl c"; cases rest) (auto simp: is_var_def isalpha_def isupper_def islower_def)

lemma scan_comp:
  assumes "SLASH \<notin> set u" "rest = [] \<or> hd rest = SLASH"
  shows "takeWhile (\<lambda>c. c \<noteq> SLASH) (u @ rest) = u" "dropWhile (\<lambda>c. c \<noteq> SLASH) (u @ rest) = rest"
proof -
  have n: "x \<in> set u \<Longrightarrow> x \<noteq> SLASH" for x using assms(1) by blast
  have r: "takeWhile (\<lambda>c. c \<noteq> SLASH) rest = []" "dropWhile (\<lambda>c. c \<noteq> SLASH) rest = rest"
    using assms(2) by (cases rest; simp)+
  show "takeWhile (\<lambda>c. c \<noteq> SLASH) (u @ rest) = u" using n r(1) by (simp add: takeWhile_append2)
  show "dropWhile (\<lambda>c. c \<noteq> SLASH) (u @ rest) = rest" using n r(2) by (simp add: dropWhile_append2)
qed

lemma map_comp:
  assumes "comp_ok c" "rest = [] \<or> hd rest = SLASH" "prev = None \<or> prev = Some SLASH"
    and "is_var c \<Longrightarrow> length c \<le> 64" "length copy + length (subst_comp env flag c) \<le> PATH_MAX"
  shows "\<exists>x. map_loop env flag \<lparr>mp_prev = prev, mp_pt = c @ rest, mp_copy = copy, mp_ret = r\<rparr> =
    map_loop env flag \<lparr>mp_prev = Some x, mp_pt = rest, mp_copy = copy @ subst_comp env flag c,
                     mp_ret = comp_ret env flag c r\<rparr>"
proof -
  obtain a u where c: "c = a # u" "a \<noteq> SLASH" "SLASH \<notin> set u"
    using assms(1) by (cases c) (auto simp: comp_ok_def)
  have tw: "takeWhile (\<lambda>c. c \<noteq> SLASH) (u @ rest) = u" "dropWhile (\<lambda>c. c \<noteq> SLASH) (u @ rest) = rest"
    using scan_comp [OF c(3) assms(2)] by auto
  have iv: "is_var (a # u @ rest) = is_var c"
    using is_var_append [of c rest] assms(1,2) c by (auto simp: comp_ok_def)
  have md: "map_mode flag (a # u @ rest) = map_mode flag c" if "is_var c"
    using that c by (cases u) (auto simp: map_mode_def is_var_def isalpha_def isupper_def islower_def)
  have low: "flag = 1 \<Longrightarrow> is_var c \<Longrightarrow> \<not> map_mode flag c \<Longrightarrow> \<not> islower (deref_at (a # u @ rest) 1)"
    using md by (auto simp: map_mode_def)
  show ?thesis
  proof (cases "var_value env flag c")
    case (Some v)
    then have v: "is_var c" "map_mode flag c" "env u = Some v" "v \<noteq> []" "subst_comp env flag c = v"
      using c(1) by (auto simp: var_value_def subst_comp_def split: if_splits option.splits)
    then show ?thesis using assms c iv md tw Some
      by (subst map_loop.simps) (auto simp: map_step_def map_put_def comp_ret_def unresolved_def)
  next
    case None
    let ?s = "\<lparr>mp_prev = prev, mp_pt = a # u @ rest, mp_copy = copy, mp_ret = r\<rparr>"
    have sc: "subst_comp env flag c = c" using None by (simp add: subst_comp_def)
    have "map_step env flag ?s = map_char ?s (comp_ret env flag c r)"
      using None assms c iv md low tw
      by (auto simp: map_step_def comp_ret_def unresolved_def var_value_def Let_def split: option.splits if_splits)
    then have "map_loop env flag ?s = map_loop env flag
        \<lparr>mp_prev = Some a, mp_pt = u @ rest, mp_copy = copy @ [a], mp_ret = comp_ret env flag c r\<rparr>"
      using assms(5) sc c by (subst map_loop.simps) (simp add: map_char_def map_put_def)
    also have "\<dots> = map_loop env flag \<lparr>mp_prev = Some (last (a # u)), mp_pt = rest,
        mp_copy = (copy @ [a]) @ u, mp_ret = comp_ret env flag c r\<rparr>"
      using assms(5) sc c by (intro map_chars) auto
    finally show ?thesis using sc c by auto
  qed
qed

lemma map_slash:
  fixes r copy :: string
  assumes "length copy < PATH_MAX"
  defines "r' \<equiv> dropWhile (\<lambda>c. c = SLASH) r"
  shows "map_loop env flag \<lparr>mp_prev = prev, mp_pt = SLASH # r, mp_copy = copy, mp_ret = ret\<rparr> =
    (if r' = [] \<and> (prev \<noteq> None \<or> r \<noteq> [])
     then Inr \<lparr>mp_prev = prev, mp_pt = [], mp_copy = copy, mp_ret = ret\<rparr>
     else map_loop env flag \<lparr>mp_prev = Some SLASH, mp_pt = r', mp_copy = copy @ [SLASH], mp_ret = ret\<rparr>)"
proof -
  let ?s = "\<lparr>mp_prev = prev, mp_pt = SLASH # r, mp_copy = copy, mp_ret = ret\<rparr>"
  let ?e = "\<lparr>mp_prev = prev, mp_pt = [], mp_copy = copy, mp_ret = ret\<rparr>"
  have step: "map_step env flag ?s = (if r' = [] \<and> (prev \<noteq> None \<or> length r' < length r) then Inr ?e
      else Inr \<lparr>mp_prev = Some SLASH, mp_pt = r', mp_copy = copy @ [SLASH], mp_ret = ret\<rparr>)"
    using assms(1) unfolding map_step_def map_char_def map_put_def is_var_def Let_def r'_def
    by (auto simp del: dropWhile_eq_Nil_conv)
  have e: "map_loop env flag ?e = Inr ?e" by (simp add: map_loop.simps)
  have "map_loop env flag ?s = (case map_step env flag ?s of Inl e \<Rightarrow> Inl e | Inr s' \<Rightarrow> map_loop env flag s')"
    by (subst map_loop.simps) simp
  then show ?thesis unfolding step using e by auto
qed

definition path_ret :: "environ \<Rightarrow> int \<Rightarrow> string list \<Rightarrow> int" where
  "path_ret env flag cs = (if \<exists>c \<in> set cs. unresolved env flag c then 1 else 0)"

lemma map_loop_tokens:
  assumes "NUL \<notin> set p" "p = [] \<or> hd p \<noteq> SLASH" "prev = None \<or> prev = Some SLASH"
    and "\<forall>c \<in> set (tokens [SLASH] p). is_var c \<longrightarrow> length c \<le> 64"
    and "length copy + length (join_sep SLASH (map (subst_comp env flag) (tokens [SLASH] p))) < PATH_MAX"
  shows "\<exists>s. map_loop env flag \<lparr>mp_prev = prev, mp_pt = p, mp_copy = copy, mp_ret = r\<rparr> = Inr s \<and>
    mp_copy s = copy @ join_sep SLASH (map (subst_comp env flag) (tokens [SLASH] p)) \<and>
    mp_ret s = fold (comp_ret env flag) (tokens [SLASH] p) r"
  using assms
proof (induction "length p" arbitrary: p prev copy r rule: less_induct)
  case less
  show ?case
  proof (cases "p = []")
    case True
    then show ?thesis by (simp add: map_loop.simps)
  next
    case False
    then have h: "hd p \<noteq> SLASH" using less.prems by simp
    from less.prems(1) False h show ?thesis
    proof (cases rule: head_comp)
      case (1 c)
      then have t: "tokens [SLASH] p = [c]" by (auto simp: comp_ok_def intro: tokens_single)
      then have "\<exists>x. map_loop env flag \<lparr>mp_prev = prev, mp_pt = c @ [], mp_copy = copy, mp_ret = r\<rparr> =
          map_loop env flag \<lparr>mp_prev = Some x, mp_pt = [], mp_copy = copy @ subst_comp env flag c,
                     mp_ret = comp_ret env flag c r\<rparr>"
        using less.prems 1 by (intro map_comp) auto
      then show ?thesis using 1 t by (auto simp: map_loop.simps)
    next
      case (2 c q)
      let ?q = "dropWhile (\<lambda>c. c = SLASH) q"
      let ?copy = "copy @ subst_comp env flag c" and ?r = "comp_ret env flag c r"
      have tq: "tokens [SLASH] ?q = tokens [SLASH] q" using tokens_dropWhile [of "[SLASH]" q] by simp
      have t: "tokens [SLASH] p = c # tokens [SLASH] q"
        using 2 tokens_append_sep [of c "[SLASH]" SLASH q] by (auto simp: comp_ok_def)
      have len: "length ?q < length p" using 2 length_dropWhile_le [of "\<lambda>c. c = SLASH" q] by simp
      have bound: "length ?copy < PATH_MAX"
        using less.prems(5) t by (cases "tokens [SLASH] q = []") (simp_all add: join_sep_Cons)
      obtain x where x: "map_loop env flag \<lparr>mp_prev = prev, mp_pt = p, mp_copy = copy, mp_ret = r\<rparr> =
          map_loop env flag \<lparr>mp_prev = Some x, mp_pt = SLASH # q, mp_copy = ?copy, mp_ret = ?r\<rparr>"
        using map_comp [of c "SLASH # q" prev copy env flag r] less.prems 2 t bound by auto
      show ?thesis
      proof (cases "?q = []")
        case True
        then have "tokens [SLASH] q = []" by (metis tq tokens_Nil)
        then show ?thesis using x True t map_slash [OF bound, of env flag "Some x" q ?r] by simp
      next
        case False
        then have hd: "?q = [] \<or> hd ?q \<noteq> SLASH" using hd_dropWhile [of "\<lambda>c. c = SLASH" q] by blast
        then have ne: "tokens [SLASH] q \<noteq> []" using head_tokens_ne [OF False] False unfolding tq by blast
        have nul: "NUL \<notin> set ?q" using less.prems(1) 2 by (auto dest: set_dropWhileD)
        have var: "\<forall>c \<in> set (tokens [SLASH] ?q). is_var c \<longrightarrow> length c \<le> 64"
          using less.prems(4) t unfolding tq by simp
        have small: "length (?copy @ [SLASH]) +
            length (join_sep SLASH (map (subst_comp env flag) (tokens [SLASH] ?q))) < PATH_MAX"
          using less.prems(5) ne unfolding tq t by (simp add: join_sep_Cons)
        have "\<exists>s. map_loop env flag \<lparr>mp_prev = Some SLASH, mp_pt = ?q, mp_copy = ?copy @ [SLASH], mp_ret = ?r\<rparr> = Inr s \<and>
          mp_copy s = (?copy @ [SLASH]) @ join_sep SLASH (map (subst_comp env flag) (tokens [SLASH] ?q)) \<and>
          mp_ret s = fold (comp_ret env flag) (tokens [SLASH] ?q) ?r"
          by (rule less.hyps [OF len nul hd _ var small]) simp
        then show ?thesis using False ne map_slash [OF bound, of env flag "Some x" q ?r]
          unfolding x t tq by (simp add: join_sep_Cons del: dropWhile_eq_Nil_conv)
      qed
    qed
  qed
qed

lemma fold_comp_ret: "fold (comp_ret env flag) cs 0 = path_ret env flag cs"
proof -
  have "fold (comp_ret env flag) cs r = (if \<exists>c \<in> set cs. unresolved env flag c then 1 else r)" for r
    by (induction cs arbitrary: r) (auto simp: comp_ret_def)
  then show ?thesis by (simp add: path_ret_def)
qed

text \<open>
  \<open>mappath\<close> resolves a path component by component: each component \<open>$name\<close> whose time it is and that
  has a value is replaced by the value, every other one is kept, runs of slashes become one and a
  trailing slash goes. The return value is 1 exactly if some variable that has to be resolved now
  could not be. It needs names that fit \<open>varname\<close>, a result that fits both buffers, and a path that
  is not a run of two or more slashes only.
\<close>

theorem mappath_resolves:
  fixes path :: string and env :: environ and flag :: int
  assumes "NUL \<notin> set path" "tokens ''/'' path \<noteq> [] \<or> path = '''' \<or> path = ''/''"
    and "\<forall>c \<in> set (tokens ''/'' path). is_var c \<longrightarrow> length c \<le> 64"
  defines "result \<equiv> (if deref path = SLASH then ''/'' else '''') @
             join_sep SLASH (map (subst_comp env flag) (tokens ''/'' path))"
  assumes "length result < PATH_MAX" "length result < psize"
  shows "mappath env flag psize path =
    Inr (if \<exists>c \<in> set (tokens ''/'' path). unresolved env flag c then 1 else 0, result)"
proof -
  let ?init = "\<lparr>mp_prev = None, mp_pt = path, mp_copy = [], mp_ret = 0\<rparr>"
  have "\<exists>s. map_loop env flag ?init = Inr s \<and> mp_copy s = result \<and> mp_ret s = path_ret env flag (tokens [SLASH] path)"
  proof (cases "deref path = SLASH")
    case False
    then show ?thesis
      using map_loop_tokens [of path None "[]" env flag 0] assms by (cases path) (auto simp: fold_comp_ret path_ret_def)
  next
    case True
    then obtain r where p: "path = SLASH # r" by (cases path) auto
    let ?r = "dropWhile (\<lambda>c. c = SLASH) r"
    have t: "tokens [SLASH] ?r = tokens [SLASH] path" using p tokens_dropWhile [of "[SLASH]" r] by simp
    have "r = []" if "?r = []"
    proof -
      have "tokens [SLASH] path = []" using t that tokens_Nil by metis
      then show ?thesis using assms(2) p by simp
    qed
    then have "map_loop env flag ?init =
        map_loop env flag \<lparr>mp_prev = Some SLASH, mp_pt = ?r, mp_copy = [SLASH], mp_ret = 0\<rparr>"
      using map_slash [of "[]" env flag None r 0] p by (auto simp: PATH_MAX_def)
    then show ?thesis
      using map_loop_tokens [of ?r "Some SLASH" "[SLASH]" env flag 0] assms p hd_dropWhile [of "\<lambda>c. c = SLASH" r]
      by (auto simp: fold_comp_ret t dest: set_dropWhileD)
  qed
  then show ?thesis using assms(5,6) by (auto simp: mappath_def path_ret_def)
qed

theorem mappath_resolves_witness:
  "mappath (\<lambda>v. if v = ''BASE'' then Some ''opt/x'' else None) 2 1024 ''/$BASE//lib/$src/'' =
     Inr (1, ''/opt/x/lib/$src'')"
proof -
  let ?p = "''/$BASE//lib/$src/''" and ?e = "\<lambda>v. if v = ''BASE'' then Some ''opt/x'' else None"
  have t: "tokens ''/'' ?p = [''$BASE'', ''lib'', ''$src'']" by (simp add: tokens_def)
  have m: "map (subst_comp ?e 2) (tokens ''/'' ?p) = [''opt/x'', ''lib'', ''$src'']"
    by (simp add: t subst_comp_def var_value_def is_var_def map_mode_def isalpha_def isupper_def islower_def)
  have u: "unresolved ?e 2 ''$src''"
    by (simp add: unresolved_def var_value_def is_var_def map_mode_def isalpha_def isupper_def islower_def)
  have j: "join_sep SLASH [''opt/x'', ''lib'', ''$src''] = ''opt/x/lib/$src''" by (simp add: join_sep_def)
  show ?thesis using mappath_resolves [of ?p ?e 2 1024] u unfolding m j
    by (simp add: t PATH_MAX_def)
qed

text \<open>
  A path of slashes only, two or more of them, is resolved to the empty string instead of to the
  root directory, and with return value 0.
\<close>

theorem mappath_slashes_only:
  assumes "1 < psize"
  shows "mappath env flag psize (replicate (Suc (Suc n)) SLASH) = Inr (0, '''')"
proof -
  have "dropWhile (\<lambda>c. c = SLASH) (replicate (Suc n) SLASH) = []" by simp
  then show ?thesis using assms map_slash [of "[]" env flag None "replicate (Suc n) SLASH" 0]
    by (simp add: mappath_def PATH_MAX_def)
qed

theorem mappath_slashes_only_witness:
  "mappath (\<lambda>v. None) 0 1024 ''//'' = Inr (0, '''')"
  using mappath_slashes_only [of 1024 "\<lambda>v. None" 0 0] by (simp add: numeral_2_eq_2)

text \<open>
  \<open>varname\<close> is written without a bound: a path that starts with a variable whose name has 64 or
  more characters, at its time, writes outside the array.
\<close>

theorem mappath_varname_overrun:
  assumes "is_var c" "map_mode flag c" "SLASH \<notin> set c" "64 < length c" "rest = [] \<or> hd rest = SLASH"
  shows "mappath env flag psize (c @ rest) = Inl BufOverrun"
proof -
  obtain a b u where c: "c = a # b # u" using assms(4) by (cases c; cases "tl c") auto
  have iv: "is_var (c @ rest)" "map_mode flag (c @ rest)"
    using assms(1,2) c by (auto simp: is_var_def map_mode_def)
  have "takeWhile (\<lambda>c. c \<noteq> SLASH) ((b # u) @ rest) = b # u"
    using assms(3,5) c by (intro scan_comp) auto
  then have "map_step env flag \<lparr>mp_prev = None, mp_pt = c @ rest, mp_copy = [], mp_ret = 0\<rparr> = Inl BufOverrun"
    using iv assms(4) c unfolding map_step_def Let_def by simp
  then show ?thesis using c by (simp add: mappath_def map_loop.simps)
qed

theorem mappath_varname_overrun_witness:
  "mappath (\<lambda>v. None) 0 1024 (''$'' @ replicate 64 CHR ''A'' @ ''/lib'') = Inl BufOverrun"
proof -
  have "is_var (''$'' @ replicate 64 CHR ''A'')" "map_mode 0 (''$'' @ replicate 64 CHR ''A'')"
    by (simp_all add: is_var_def map_mode_def isalpha_def isupper_def deref_at_def deref_def numeral_eq_Suc)
  then show ?thesis
    using mappath_varname_overrun [of "''$'' @ replicate 64 CHR ''A''" 0 "''/lib''" "\<lambda>v. None" 1024] by simp
qed

section \<open>basepath and mapvar\<close>

lemma base_put_tokens:
  assumes "b \<noteq> []"
  shows "tokens [SLASH] (base_put a b @ SLASH # p) = tokens [SLASH] (a @ b) @ tokens [SLASH] p"
    "length (base_put a b) \<le> length a + length b"
proof -
  obtain u x where b: "b = u @ [x]" using assms by (cases b rule: rev_cases) auto
  show "tokens [SLASH] (base_put a b @ SLASH # p) = tokens [SLASH] (a @ b) @ tokens [SLASH] p"
  proof (cases "x = SLASH")
    case True
    have "base_put a b = a @ u" using True b by (simp add: base_put_def butlast_append)
    then show ?thesis using True b
      tokens_append [of SLASH "[SLASH]" "a @ u" "[]"] tokens_append [of SLASH "[SLASH]" "a @ u" p] by simp
  next
    case False
    then have "base_put a b = a @ b" using b by (simp add: base_put_def)
    then show ?thesis using tokens_append [of SLASH "[SLASH]" "a @ b" p] by simp
  qed
  show "length (base_put a b) \<le> length a + length b" by (simp add: base_put_def Let_def)
qed

lemma base_put_app: "b \<noteq> [] \<Longrightarrow> deref b = SLASH \<Longrightarrow> tokens [SLASH] (a @ b) = tokens [SLASH] a @ tokens [SLASH] b"
  by (cases b) (simp_all add: tokens_append)

text \<open>
  \<open>basepath\<close> puts the components of the install root, of the base directory and of the path in
  this order; a path that starts with a slash is taken below the install root only. This needs a base
  directory that starts with a slash when there is an install root, and room in the buffers.
\<close>

theorem basepath_components:
  assumes "length path < PATH_MAX" "length root + length base + length path + 1 < psize"
    and "base = [] \<or> root = [] \<or> deref base = SLASH"
  shows "\<exists>r. basepath psize path (Some base) (Some root) = Inr r \<and>
    tokens ''/'' r = tokens ''/'' root @ (if deref path = SLASH then [] else tokens ''/'' base) @ tokens ''/'' path"
proof -
  let ?root = "if root \<noteq> [] then base_put [] root else []"
  have len: "length ?root \<le> length root" using base_put_tokens(2) [of root "[]"] by simp
  have rt: "tokens [SLASH] (?root @ SLASH # p) = tokens [SLASH] root @ tokens [SLASH] p" for p
    using base_put_tokens(1) [of root "[]" p] by auto
  show ?thesis
  proof (cases "deref path = SLASH")
    case True
    then obtain p where p: "path = SLASH # p" by (cases path) auto
    then show ?thesis using rt [of p] len assms(1,2) by (cases "root = []") (auto simp: basepath_def Let_def)
  next
    case False
    have "basepath psize path (Some base) (Some root) =
        Inr ((if base \<noteq> [] then base_put ?root base else ?root) @ SLASH # path)"
      using False assms(1,2) len base_put_tokens(2) [of base ?root] by (auto simp: basepath_def Let_def)
    moreover have "tokens [SLASH] (?root @ base) = tokens [SLASH] root @ tokens [SLASH] base"
      using assms(3) rt [of "tl base"] rt [of "[]"] tokens_append [of SLASH "[SLASH]" ?root "[]"]
      by (cases base) auto
    ultimately show ?thesis using False rt [of path] base_put_tokens(1) [of base ?root path] by auto
  qed
qed

theorem basepath_components_witness:
  "basepath 1024 ''bin/ls'' (Some ''/opt/'') (Some ''/export/root/'') = Inr ''/export/root/opt/bin/ls'' \<and>
   tokens ''/'' ''/export/root/opt/bin/ls'' = [''export'', ''root'', ''opt'', ''bin'', ''ls'']"
proof -
  have "basepath 1024 ''bin/ls'' (Some ''/opt/'') (Some ''/export/root/'') = Inr ''/export/root/opt/bin/ls''"
    by (simp add: basepath_def base_put_def PATH_MAX_def)
  then show ?thesis using basepath_components [of "''bin/ls''" "''/export/root/''" "''/opt/''" 1024]
    by (simp add: PATH_MAX_def tokens_def)
qed

text \<open>
  Between an install root and a base directory that does not start with a slash, \<open>basepath\<close>
  inserts no separator, although the code has a branch that does: the branch tests \<open>*ir\<close> after the
  loop that moved \<open>ir\<close> to its end, so it is never taken and the last component of the root runs
  together with the first one of the base directory.
\<close>

theorem basepath_no_separator:
  assumes "root \<noteq> []" "last root \<noteq> SLASH" "base \<noteq> []" "last base \<noteq> SLASH" "deref path \<noteq> SLASH"
    and "length path < PATH_MAX" "length root + length base + length path + 1 < psize"
  shows "basepath psize path (Some base) (Some root) = Inr (root @ base @ ''/'' @ path)"
  using assms by (simp add: basepath_def base_put_def Let_def)

theorem basepath_no_separator_witness:
  "basepath 1024 ''ls'' (Some ''opt'') (Some ''/export'') = Inr ''/exportopt/ls''"
  using basepath_no_separator [of "''/export''" "''opt''" "''ls''" 1024] by (simp add: PATH_MAX_def)


end
