(* ===== verification/Cfent.thy ===== *)
theory Cfent
  imports Cnum Paths
begin

text \<open>
  The entry of a package map or of the installed software database, \<open>struct cfent\<close> of
  \<open>hdrs/pkgstrct.h\<close>, with the constants of \<open>hdrs/pkgstrct.h\<close> and \<open>libpkg/pkglib.h\<close>.

  The integer types are those of the Darwin port: \<open>mode_t\<close> has 16 bits, \<open>dev_t\<close> (and so \<open>major_t\<close> and
  \<open>minor_t\<close>) 32, \<open>long\<close> and \<open>time_t\<close> 64, \<open>short\<close> 16. \<open>char *\<close> fields that may be \<open>NULL\<close> are options; a
  \<open>char\<close> flag that is zero when it is absent keeps NUL. The chain of \<open>struct pinfo\<close> is a list.
\<close>

record ainfo =
  local :: "string option"
  mode :: u16
  owner :: string
  group :: string
  major :: u32
  minor :: u32

record cinfo =
  cksum :: u64
  fsize :: u64
  modtime :: u64

record pinfo =
  status :: char
  pkg :: string
  editflag :: bool
  aclass :: string

record cfent =
  volno :: u16
  ftype :: char
  pkg_class :: string
  pkg_class_idx :: int
  path :: "string option"
  ainfo :: ainfo
  cinfo :: cinfo
  npkgs :: u16
  pinfo :: "pinfo list"

definition CLSSIZ :: nat where "CLSSIZ = 64"
definition PKGSIZ :: nat where "PKGSIZ = 64"
definition ATRSIZ :: nat where "ATRSIZ = 64"

definition BADFTYPE :: char where "BADFTYPE = CHR ''?''"
definition BADMODE :: u16 where "BADMODE = - 1"
definition BADOWNER :: string where "BADOWNER = ''?''"
definition BADGROUP :: string where "BADGROUP = ''?''"
definition BADMAJOR :: u32 where "BADMAJOR = - 1"
definition BADMINOR :: u32 where "BADMINOR = - 1"
definition BADCLASS :: string where "BADCLASS = ''none''"
definition BADCONT :: u64 where "BADCONT = - 1"

definition CURMODE :: u16 where "CURMODE = BADMODE"
definition WILDCARD :: u16 where "WILDCARD = drop_bit 1 BADMODE"
definition NOMODE :: u16 where "NOMODE = BADMODE - 1"
definition NOOWNER :: string where "NOOWNER = ''@''"
definition NOGROUP :: string where "NOGROUP = ''@''"

definition MAPALL :: int where "MAPALL = 0"
definition MAPBUILD :: int where "MAPBUILD = 1"
definition MAPINSTALL :: int where "MAPINSTALL = 2"
definition MAPNONE :: int where "MAPNONE = 3"

text \<open>\<open>S_IAMB | S_ISUID | S_ISGID | S_ISVTX\<close>\<close>

definition MODE_BITS :: u16 where "MODE_BITS = 0xFFF"

text \<open>The messages \<open>setErrstr\<close> is given; \<open>ERR_NOVAR\<close> carries the two strings of its format.\<close>

datatype maperr =
    ERR_CANT_READ_LCLPATH | ERR_BAD_VOLUME_NUMBER | ERR_CANNOT_READ_PATHNAME_FIELD
  | ERR_CANNOT_READ_CONTENT_INFO | ERR_EXTRA_TOKENS_PRESENT | ERR_CANNOT_READ_CLASS_TOKEN
  | ERR_BAD_LINK_SPEC | ERR_UNKNOWN_FTYPE | ERR_NO_LINKSOURCE | ERR_CANNOT_READ_MM_DEVNUMS
  | ERR_READLINK | ERR_NOVAR string string | ERR_OWNTOOLONG | ERR_GRPTOOLONG | ERR_IMODE
  | ERR_BASEINVAL | ERR_MODELONG | ERR_MODEALPHA | ERR_MODEBITS

section \<open>Updates of nested fields\<close>

definition set_local :: "string \<Rightarrow> cfent \<Rightarrow> cfent" where
  "set_local s e = e\<lparr>ainfo := (ainfo e)\<lparr>local := Some s\<rparr>\<rparr>"

definition set_mode :: "u16 \<Rightarrow> cfent \<Rightarrow> cfent" where
  "set_mode v e = e\<lparr>ainfo := (ainfo e)\<lparr>mode := v\<rparr>\<rparr>"

definition set_owner :: "string \<Rightarrow> cfent \<Rightarrow> cfent" where
  "set_owner s e = e\<lparr>ainfo := (ainfo e)\<lparr>owner := s\<rparr>\<rparr>"

definition set_group :: "string \<Rightarrow> cfent \<Rightarrow> cfent" where
  "set_group s e = e\<lparr>ainfo := (ainfo e)\<lparr>group := s\<rparr>\<rparr>"

text \<open>
  \<open>*(long *)&ainfo.major = v\<close> stores eight bytes into a field of four: on a little-endian machine the
  low half is \<open>major\<close> and the high half goes to \<open>minor\<close>, the field behind it. The same store to \<open>minor\<close>
  leaves its high half in the padding at the end of \<open>struct ainfo\<close>.
\<close>

definition set_major :: "u64 \<Rightarrow> cfent \<Rightarrow> cfent" where
  "set_major v e = e\<lparr>ainfo := (ainfo e)\<lparr>major := ucast v, minor := ucast (drop_bit 32 v)\<rparr>\<rparr>"

definition set_minor :: "u64 \<Rightarrow> cfent \<Rightarrow> cfent" where
  "set_minor v e = e\<lparr>ainfo := (ainfo e)\<lparr>minor := ucast v\<rparr>\<rparr>"

definition set_size :: "u64 \<Rightarrow> cfent \<Rightarrow> cfent" where
  "set_size v e = e\<lparr>cinfo := (cinfo e)\<lparr>fsize := v\<rparr>\<rparr>"

definition set_cksum :: "u64 \<Rightarrow> cfent \<Rightarrow> cfent" where
  "set_cksum v e = e\<lparr>cinfo := (cinfo e)\<lparr>cksum := v\<rparr>\<rparr>"

definition set_modtime :: "u64 \<Rightarrow> cfent \<Rightarrow> cfent" where
  "set_modtime v e = e\<lparr>cinfo := (cinfo e)\<lparr>modtime := v\<rparr>\<rparr>"

lemmas set_defs = set_local_def set_mode_def set_owner_def set_group_def set_major_def set_minor_def
  set_size_def set_cksum_def set_modtime_def

section \<open>Readers of fields\<close>

text \<open>
  The two parsers of a map line and the search of the database read their fields through the same
  four operations, on a \<open>FILE\<close> or on a buffer in memory. The input is the text that is still to be
  read. \<open>rd_str sep n cap\<close> reads a string that ends at a blank or at a character of \<open>sep\<close>, \<open>n\<close>
  characters at most, into a buffer of \<open>cap\<close> bytes; \<open>None\<close> for the buffer means that it was not
  written. \<open>rd_num\<close> reads a decimal number, \<open>rd_end\<close> the rest of the line (did it hold anything but
  blanks?), \<open>rd_skip\<close> is the skipping of the line after an error.
\<close>

type_synonym str_reader = "string option \<Rightarrow> nat \<Rightarrow> nat \<Rightarrow> string \<Rightarrow> (int \<times> string option \<times> string) res"
type_synonym num_reader = "string \<Rightarrow> int \<times> u64 option \<times> string"
type_synonym end_reader = "string \<Rightarrow> bool \<times> string"

record reader =
  rd_str :: str_reader
  rd_num :: num_reader
  rd_end :: end_reader
  rd_skip :: "string \<Rightarrow> string"

definition set_opt :: "('v \<Rightarrow> 'e \<Rightarrow> 'e) \<Rightarrow> 'v option \<Rightarrow> 'e \<Rightarrow> 'e" where
  "set_opt f v e = (case v of Some x \<Rightarrow> f x e | None \<Rightarrow> e)"

lemma set_opt_simps [simp]: "set_opt f None e = e" "set_opt f (Some v) e = f v e"
  by (simp_all add: set_opt_def)

end
