(* ===== verification/Gpkgmap.thy ===== *)
theory Gpkgmap
  imports Cfent
begin

unbundle bit_operations_syntax

text \<open>
  Reading a package map, \<open>libpkg/gpkgmap.c\<close>: the module's settings, the field readers on a \<open>FILE\<close> and
  on a buffer, and the two parsers \<open>gpkgmap\<close> and \<open>gpkgmapvfp\<close>.

  A \<open>FILE\<close> is the text still to be read: \<open>getc\<close> takes its first character, \<open>EOF\<close> is \<open>None\<close>, \<open>ungetc\<close> of
  the character just read puts it back (and does nothing for \<open>EOF\<close>). A cursor into the buffer of a
  virtual file is the text from the cursor up to the terminating NUL. The two parsers have the same
  structure; it is modelled once, over a \<^typ>\<open>reader\<close>, and used with the readers of each.
\<close>

section \<open>Settings\<close>

text \<open>The static variables of the file. \<open>mypath\<close> and \<open>mylocal\<close> are what \<open>path\<close> and \<open>local\<close> point to.\<close>

record mapset =
  mapmode :: int
  maptype :: string
  d_mode :: u16
  d_owner :: string
  d_group :: string

definition mapset0 :: mapset where
  "mapset0 = \<lparr>mapmode = MAPNONE, maptype = [], d_mode = BADMODE, d_owner = BADOWNER, d_group = BADGROUP\<rparr>"

definition attrpreset :: "int \<Rightarrow> string \<Rightarrow> string \<Rightarrow> mapset \<Rightarrow> mapset" where
  "attrpreset m own grp g = g\<lparr>d_mode := word_of_int m, d_owner := own, d_group := grp\<rparr>"

definition attrdefault :: "mapset \<Rightarrow> mapset" where
  "attrdefault g = g\<lparr>d_mode := NOMODE, d_owner := NOOWNER, d_group := NOGROUP\<rparr>"

definition setmapmode :: "int \<Rightarrow> mapset \<Rightarrow> mapset" where
  "setmapmode m g =
     (if m \<ge> 0 \<or> m \<le> 3 then
        g\<lparr>mapmode := m,
          maptype := (if m = MAPBUILD then '' build'' else if m = MAPINSTALL then '' install'' else [])\<rparr>
      else g)"

definition getmapmode :: "mapset \<Rightarrow> int" where
  "getmapmode g = mapmode g"

section \<open>Fields of a FILE\<close>

fun eatwhite :: "string \<Rightarrow> char option \<times> string" where
  "eatwhite [] = (None, [])"
| "eatwhite (c # s) = (if c = SP \<or> c = TAB then eatwhite s else (Some c, s))"

definition stop_char :: "string option \<Rightarrow> char \<Rightarrow> bool" where
  "stop_char sep c \<longleftrightarrow> in_str [SP, TAB] c \<or> (case sep of Some p \<Rightarrow> in_str p c | None \<Rightarrow> False)"

text \<open>The loop of \<open>getstr\<close>: \<open>c\<close> is the character read, \<open>str\<close> what is stored.\<close>

fun getstr_loop :: "string option \<Rightarrow> nat \<Rightarrow> string \<Rightarrow> char \<Rightarrow> string \<Rightarrow> int \<times> string \<times> string" where
  "getstr_loop sep n str c s =
     (if stop_char sep c then (0, str, c # s)
      else if n < 1 then (- 1, str, s)
      else (case s of
              [] \<Rightarrow> (0, str @ [c], [])
            | d # s' \<Rightarrow> if d = NL then (0, str @ [c], d # s')
                       else getstr_loop sep (n - 1) (str @ [c]) d s'))"

declare getstr_loop.simps [simp del]

definition getstr :: str_reader where
  "getstr sep n cap s =
     (case eatwhite s of
        (None, r) \<Rightarrow> Inr (1, None, r)
      | (Some c, r) \<Rightarrow>
          if c = NL then Inr (1, None, c # r)
          else (let (ret, str, r') = getstr_loop sep n [] c r in
                if length str < cap then Inr (ret, Some str, r') else Inl BufOverrun))"

fun getnum_loop :: "nat \<Rightarrow> u64 \<Rightarrow> char \<Rightarrow> string \<Rightarrow> int \<times> u64 option \<times> string" where
  "getnum_loop bas d c s =
     (let b = digit_val c; d' = d * of_nat bas + of_nat b in
      if b \<ge> bas then (2, Some d, s)
      else (case s of
              [] \<Rightarrow> (0, Some d', [])
            | x # s' \<Rightarrow> if isdigit x then getnum_loop bas d' x s' else (0, Some d', x # s')))"

declare getnum_loop.simps [simp del]

definition getnum :: "nat \<Rightarrow> u64 \<Rightarrow> num_reader" where
  "getnum bas bad s =
     (case eatwhite s of
        (None, r) \<Rightarrow> (1, None, r)
      | (Some c, r) \<Rightarrow>
          if c = CHR ''?'' then (0, Some bad, r)
          else if c = NL \<or> \<not> isdigit c then (1, None, c # r)
          else getnum_loop bas 0 c r)"

fun getend :: "string \<Rightarrow> nat \<times> string" where
  "getend [] = (0, [])"
| "getend (c # s) =
     (if c = NL then (0, s)
      else (let (n, r) = getend s in (if isspace c then n else n + 1, r)))"

section \<open>The mode\<close>

fun mode_scan :: "string \<Rightarrow> maperr option" where
  "mode_scan [] = None"
| "mode_scan (c # t) =
     (if isspace c then None
      else if \<not> isdigit c then Some ERR_MODEALPHA
      else if in_str ''89abcdefABCDEF'' c then Some ERR_BASEINVAL
      else mode_scan t)"

text \<open>
  What follows the reading of the string in \<open>getvalmode\<close>: the return value, what is stored at \<open>d\<close> and
  the error message. \<open>cap\<close> is the size of \<open>tempmode\<close>, which \<open>mapvar\<close> fills.
\<close>

definition mode_value ::
  "environ \<Rightarrow> mapset \<Rightarrow> u16 \<Rightarrow> bool \<Rightarrow> nat \<Rightarrow> string \<Rightarrow> (int \<times> u16 option \<times> maperr option) res" where
  "mode_value env g bad domap cap tempmode =
     (if deref tempmode = CHR ''?'' then Inr (0, Some WILDCARD, None)
      else if deref tempmode = CHR ''$'' \<and> (isupper (deref_at tempmode 1) \<or> \<not> islower (deref_at tempmode 1))
      then Inr (2, None, Some ERR_IMODE)
      else
        rbind (if domap then mapvar env (mapmode g) cap tempmode else Inr (0, tempmode)) (\<lambda>(ret, t).
          if ret \<noteq> 0 then Inr (2, None, Some (ERR_NOVAR (maptype g) t))
          else if deref t = CHR ''$'' then Inr (0, Some BADMODE, None)
          else
           (case mode_scan t of
              Some e \<Rightarrow> Inr (2, None, Some e)
            | None \<Rightarrow>
               (let tempmode_t = (ucast (strtol8 t) :: u16) in
                if tempmode_t AND NOT MODE_BITS \<noteq> 0 then
                  if mapmode g \<noteq> MAPBUILD then Inr (0, Some bad, None)
                  else Inr (2, None, Some ERR_MODEBITS)
                else Inr (0, Some tempmode_t, None)))))"

definition read_mode ::
  "str_reader \<Rightarrow> nat \<Rightarrow> nat \<Rightarrow> environ \<Rightarrow> mapset \<Rightarrow> u16 \<Rightarrow> bool \<Rightarrow> string
     \<Rightarrow> (int \<times> u16 option \<times> maperr option \<times> string) res" where
  "read_mode rstr n cap env g bad domap s =
     rbind (rstr None n cap s) (\<lambda>(retval, str, r).
       if retval = 1 then Inr (1, None, None, r)
       else if retval = - 1 then Inr (2, None, Some ERR_MODELONG, r)
       else rbind (mode_value env g bad domap cap (the str)) (\<lambda>(ret, v, e). Inr (ret, v, e, r)))"

text \<open>\<open>char tempmode[20]\<close>, read with the limit \<open>ATRSIZ\<close>.\<close>

definition getvalmode where
  "getvalmode env g bad domap s = read_mode getstr ATRSIZ 20 env g bad domap s"

section \<open>Fields of a buffer\<close>

text \<open>
  Blanks are skipped by \<open>while (((c = *p) != '\0') && (isspace(*p++)))\<close>, newlines included. At the
  terminator the code steps one character back, to the last blank.
\<close>

definition step_back :: "string \<Rightarrow> string" where
  "step_back p = [last p]"

definition getnumvfp :: "nat \<Rightarrow> u64 \<Rightarrow> num_reader" where
  "getnumvfp bas bad p =
     (if p = [] then (0, None, [])
      else
       (case dropWhile isspace p of
          [] \<Rightarrow> (1, None, step_back p)
        | c # r \<Rightarrow>
            if c = CHR ''?'' then (0, Some bad, r)
            else if \<not> isdigit c then (1, None, c # r)
            else (0, Some (foldl (\<lambda>d c. d * of_nat bas + of_nat (digit_val c)) 0 (takeWhile isdigit (c # r))),
                  dropWhile isdigit (c # r))))"

definition getstrvfp :: str_reader where
  "getstrvfp sep n cap p =
     (if p = [] then Inr (1, None, [])
      else
       (case dropWhile isspace p of
          [] \<Rightarrow> Inr (1, None, step_back p)
        | c # r \<Rightarrow>
           (let delims = strlcpy ([SP, TAB, NL] @ (case sep of Some d \<Rightarrow> d | None \<Rightarrow> [])) 256;
                tok = takeWhile (\<lambda>x. x \<notin> set delims) (c # r) in
            if length tok < n then
              if length tok < cap then Inr (0, Some tok, drop (length tok) (c # r)) else Inl BufOverrun
            else
              if n \<le> cap then Inr (- 1, Some (take (n - 1) tok), drop n (c # r)) else Inl BufOverrun)))"

definition getendvfp :: "string \<Rightarrow> nat \<times> string" where
  "getendvfp p =
     (if p = [] then (0, [])
      else
       (let line = takeWhile (\<lambda>c. c \<noteq> NL) p; r = dropWhile (\<lambda>c. c \<noteq> NL) p in
        (if \<exists>c \<in> set line. \<not> isspace c then 1 else 0, drop 1 r)))"

definition findendvfp :: "string \<Rightarrow> string" where
  "findendvfp p =
     (if p = [] then p
      else case strchr p NL of Some p1 \<Rightarrow> drop 1 p1 | None \<Rightarrow> [])"

text \<open>\<open>char tempmode[ATRSIZ+1]\<close>, read with the limit \<open>sizeof (tempmode)\<close>.\<close>

definition getvalmodevfp where
  "getvalmodevfp env g bad domap s = read_mode getstrvfp (ATRSIZ + 1) (ATRSIZ + 1) env g bad domap s"

section \<open>The parser\<close>

record preader = reader +
  rd_mode :: "environ \<Rightarrow> mapset \<Rightarrow> u16 \<Rightarrow> bool \<Rightarrow> string \<Rightarrow> (int \<times> u16 option \<times> maperr option \<times> string) res"

definition file_reader :: preader where
  "file_reader = \<lparr>rd_str = getstr, rd_num = getnum 10 BADCONT,
     rd_end = (\<lambda>s. let (n, r) = getend s in (n \<noteq> 0, r)), rd_skip = (\<lambda>s. snd (getend s)),
     rd_mode = getvalmode\<rparr>"

definition vfp_reader :: preader where
  "vfp_reader = \<lparr>rd_str = getstrvfp, rd_num = getnumvfp 10 BADCONT,
     rd_end = (\<lambda>s. let (n, r) = getendvfp s in (n \<noteq> 0, r)), rd_skip = findendvfp,
     rd_mode = getvalmodevfp\<rparr>"

text \<open>Where the control goes after a part of the parser: on, to one of the labels, or back to the caller.\<close>

datatype flow =
    Go cfent string
  | ToEnd cfent string
  | ToError maperr cfent string
  | Ret int "maperr option" cfent string

definition fbind :: "flow res \<Rightarrow> (cfent \<Rightarrow> string \<Rightarrow> flow res) \<Rightarrow> flow res" where
  "fbind r f = rbind r (\<lambda>x. case x of Go e s \<Rightarrow> f e s | _ \<Rightarrow> Inr x)"

definition gp_clear :: "mapset \<Rightarrow> string \<Rightarrow> string \<Rightarrow> cfent \<Rightarrow> cfent" where
  "gp_clear g own grp e = e\<lparr>
     volno := 0, ftype := BADFTYPE, pkg_class := BADCLASS, pkg_class_idx := - 1, path := None,
     ainfo := \<lparr>local = None, mode = d_mode g, owner = own, group = grp, major = BADMAJOR, minor = BADMINOR\<rparr>,
     cinfo := \<lparr>cksum = - 1, fsize = - 1, modtime = - 1\<rparr>, npkgs := 0\<rparr>"

text \<open>
  The loop at \<open>readline\<close>: the volume number, comments and empty lines, up to the first character of
  an entry. Digits are read with the character behind them.
\<close>

datatype start = AtEof u16 string | AtErr maperr u16 string | AtEntry char u16 string

definition vol_number :: "u16 \<Rightarrow> string \<Rightarrow> u16" where
  "vol_number vol ds =
     (let v = foldl (\<lambda>v c. v * 10 + of_nat (digit_val c)) vol ds in if v = 0 then 1 else v)"

lemma eatwhite_shorter: "eatwhite s = (Some c, r) \<Longrightarrow> length r < length s"
  by (induction s rule: eatwhite.induct) (auto split: if_splits)

lemma getend_shorter: "length (snd (getend s)) \<le> length s"
  by (induction s rule: getend.induct) (auto split: prod.splits)

lemma after_digits_shorter: "length (drop 1 (dropWhile isdigit r)) \<le> length r"
  using length_dropWhile_le [of isdigit r] by simp

function gp_readline :: "u16 \<Rightarrow> string \<Rightarrow> start" where
  "gp_readline vol s =
     (case eatwhite s of
        (None, r) \<Rightarrow> AtEof vol r
      | (Some c, r) \<Rightarrow>
          if isdigit c then
            if vol \<noteq> 0 then AtErr ERR_BAD_VOLUME_NUMBER vol r
            else gp_readline (vol_number vol (c # takeWhile isdigit r)) (drop 1 (dropWhile isdigit r))
          else if c = CHR '':'' \<or> c = CHR ''#'' then gp_readline vol (snd (getend r))
          else if c = NL then gp_readline vol r
          else AtEntry c vol r)"
  by pat_completeness auto
termination
proof (relation "measure (\<lambda>(_, s). length s)", goal_cases)
  case (2 vol s x r x2)
  then show ?case using eatwhite_shorter [of s x2 r] after_digits_shorter [of r] by simp
next
  case (3 vol s x r x2)
  then show ?case using eatwhite_shorter [of s x2 r] getend_shorter [of r] by simp
next
  case (4 vol s x r x2)
  then show ?case using eatwhite_shorter [of s x2 r] by simp
qed simp

declare gp_readline.simps [simp del]

text \<open>
  The same loop on a buffer whose last data byte is \<open>_vfpEnd\<close>: when the cursor has passed it, there
  are no more entries, even if the last character was read just now.
\<close>

lemma findend_shorter: "length (findendvfp p) \<le> length p"
proof -
  have "length (dropWhile (\<lambda>x. x \<noteq> NL) p) \<le> length p" by (rule length_dropWhile_le)
  then show ?thesis by (auto simp: findendvfp_def strchr_def split: list.splits)
qed

lemma dropWhile_Cons_shorter: "dropWhile P s = c # r \<Longrightarrow> length r < length s"
  by (metis Suc_le_lessD length_Cons length_dropWhile_le)

function gp_readlinevfp :: "u16 \<Rightarrow> string \<Rightarrow> start" where
  "gp_readlinevfp vol p =
     (case dropWhile isspace p of
        [] \<Rightarrow> AtEof vol []
      | c # r \<Rightarrow>
          if r = [] then AtEof vol r
          else if isdigit c then
            if vol \<noteq> 0 then AtErr ERR_BAD_VOLUME_NUMBER vol r
            else gp_readlinevfp (vol_number vol (c # takeWhile isdigit r)) (drop 1 (dropWhile isdigit r))
          else if c = CHR '':'' \<or> c = CHR ''#'' then gp_readlinevfp vol (findendvfp r)
          else AtEntry c vol r)"
  by pat_completeness auto
termination
proof (relation "measure (\<lambda>(_, s). length s)", goal_cases)
  case (2 vol p c r)
  then show ?case using dropWhile_Cons_shorter [of isspace p c r] after_digits_shorter [of r] by simp
next
  case (3 vol p c r)
  then show ?case using dropWhile_Cons_shorter [of isspace p c r] findend_shorter [of r] by simp
qed simp

declare gp_readlinevfp.simps [simp del]

text \<open>The blanks after the type \<open>i\<close>, or the first character of a path pushed back.\<close>

definition gp_first :: "char \<Rightarrow> string \<Rightarrow> string" where
  "gp_first c r = (if c = CHR ''i'' then dropWhile (\<lambda>x. x = SP \<or> x = TAB) r else c # r)"

definition gp_firstvfp :: "char \<Rightarrow> string \<Rightarrow> string" where
  "gp_firstvfp c r =
     (if c = CHR ''i'' then
        (case dropWhile isspace r of [] \<Rightarrow> step_back (c # r) | r' \<Rightarrow> r')
      else c # r)"

definition gp_content :: "('a reader_scheme) \<Rightarrow> cfent \<Rightarrow> string \<Rightarrow> flow" where
  "gp_content rd e s =
     (let (ret, v, r) = rd_num rd s; e1 = set_opt set_size v e in
      if ret \<noteq> 0 then Go e1 r
      else
       (let (ret2, v2, r2) = rd_num rd r; e2 = set_opt set_cksum v2 e1 in
        if ret2 \<noteq> 0 then ToError ERR_CANNOT_READ_CONTENT_INFO e2 r2
        else
         (let (ret3, v3, r3) = rd_num rd r2; e3 = set_opt set_modtime v3 e2 in
          if ret3 \<noteq> 0 then ToError ERR_CANNOT_READ_CONTENT_INFO e3 r3 else Go e3 r3)))"

text \<open>An entry without class: the lines of type \<open>i\<close> and the lines that are a path only.\<close>

definition gp_short :: "('a reader_scheme) \<Rightarrow> cfent \<Rightarrow> string \<Rightarrow> flow res" where
  "gp_short rd e s =
     rbind (rd_str rd (Some ''='') PATH_MAX PATH_MAX s) (\<lambda>(ret, str, r).
       if ret \<noteq> 0 then Inr (ToError ERR_CANNOT_READ_PATHNAME_FIELD e r)
       else
         (let e1 = e\<lparr>path := str\<rparr> in
          fbind
            (if deref r = CHR ''='' then
               rbind (rd_str rd None PATH_MAX PATH_MAX (tl r)) (\<lambda>(ret2, str2, r2).
                 if ret2 \<noteq> 0 then Inr (ToError ERR_CANT_READ_LCLPATH e1 r2)
                 else Inr (Go (set_local (the str2) e1) r2))
             else Inr (Go e1 r))
            (\<lambda>e2 r2. fbind (if ftype e2 = CHR ''i'' then Inr (gp_content rd e2 r2) else Inr (Go e2 r2))
              (\<lambda>e3 r3. let (n, r4) = rd_end rd r3 in
                 Inr (if n then Ret (- 1) (Some ERR_EXTRA_TOKENS_PRESENT) e3 r4 else Ret 1 None e3 r4)))))"

text \<open>The type, the class, the path and what it is linked to or built from.\<close>

definition gp_long :: "('a reader_scheme) \<Rightarrow> char \<Rightarrow> cfent \<Rightarrow> string \<Rightarrow> flow res" where
  "gp_long rd c e s =
     (let e0 = e\<lparr>ftype := c\<rparr> in
      rbind (rd_str rd None CLSSIZ (CLSSIZ + 1) s) (\<lambda>(ret, str, r).
        let e1 = set_opt (\<lambda>x e. e\<lparr>pkg_class := x\<rparr>) str e0 in
        if ret \<noteq> 0 then Inr (ToError ERR_CANNOT_READ_CLASS_TOKEN e1 r)
        else
          rbind (rd_str rd (Some ''='') PATH_MAX PATH_MAX r) (\<lambda>(ret2, str2, r2).
            if ret2 \<noteq> 0 then Inr (ToError ERR_CANNOT_READ_PATHNAME_FIELD e1 r2)
            else
              (let e2 = e1\<lparr>path := str2\<rparr> in
               if deref r2 = CHR ''='' then
                 rbind (rd_str rd None PATH_MAX PATH_MAX (tl r2)) (\<lambda>(ret3, str3, r3).
                   if ret3 \<noteq> 0 then
                     Inr (ToError (if c = CHR ''s'' \<or> c = CHR ''l'' then ERR_READLINK else ERR_CANT_READ_LCLPATH) e2 r3)
                   else Inr (Go (set_local (the str3) e2) r3))
               else if c = CHR ''s'' \<or> c = CHR ''l'' then
                 Inr (Ret (- 1) (Some ERR_BAD_LINK_SPEC) e2
                   (if r2 \<noteq> [] \<and> hd r2 \<noteq> NL then rd_skip rd (tl r2) else drop 1 r2))
               else Inr (Go e2 r2)))))"

definition gp_devs :: "('a reader_scheme) \<Rightarrow> cfent \<Rightarrow> string \<Rightarrow> flow" where
  "gp_devs rd e s =
     (if ftype e \<in> set ''cb'' then
        (let e0 = set_minor (- 1) (set_major (- 1) e);
             (ret, v, r) = rd_num rd s; e1 = set_opt set_major v e0 in
         if ret \<noteq> 0 then ToError ERR_CANNOT_READ_MM_DEVNUMS e1 r
         else
          (let (ret2, v2, r2) = rd_num rd r; e2 = set_opt set_minor v2 e1 in
           if ret2 \<noteq> 0 then ToError ERR_CANNOT_READ_MM_DEVNUMS e2 r2 else Go e2 r2))
      else Go e s)"

definition gp_mapvars :: "environ \<Rightarrow> mapset \<Rightarrow> cfent \<Rightarrow> string \<Rightarrow> flow res" where
  "gp_mapvars env g e r =
     (if mapmode g \<noteq> MAPNONE then
        rbind (mapvar env (mapmode g) (ATRSIZ + 1) (owner (ainfo e))) (\<lambda>(ret, own).
          let e1 = set_owner own e in
          if ret \<noteq> 0 then Inr (ToError (ERR_NOVAR (maptype g) own) e1 r)
          else
            rbind (mapvar env (mapmode g) (ATRSIZ + 1) (group (ainfo e1))) (\<lambda>(ret2, grp).
              let e2 = set_group grp e1 in
              if ret2 \<noteq> 0 then Inr (ToError (ERR_NOVAR (maptype g) grp) e2 r) else Inr (Go e2 r)))
      else Inr (Go e r))"

definition gp_attrs :: "preader \<Rightarrow> environ \<Rightarrow> mapset \<Rightarrow> cfent \<Rightarrow> string \<Rightarrow> flow res" where
  "gp_attrs rd env g e s =
     (if ftype e \<in> set ''cbdxpfve'' then
        rbind (rd_mode rd env g CURMODE (mapmode g \<noteq> MAPNONE) s) (\<lambda>(ret, v, err, r).
          let e1 = set_opt set_mode v e in
          if ret = 1 then Inr (ToEnd e1 r)
          else if ret = 2 then Inr (ToError (the err) e1 r)
          else
            rbind (rd_str rd None ATRSIZ (ATRSIZ + 1) r) (\<lambda>(ret2, str2, r2).
              let e2 = set_opt set_owner str2 e1 in
              if ret2 = 1 then Inr (ToEnd e2 r2)
              else if ret2 = - 1 then Inr (ToError ERR_OWNTOOLONG e2 r2)
              else
                rbind (rd_str rd None ATRSIZ (ATRSIZ + 1) r2) (\<lambda>(ret3, str3, r3).
                  let e3 = set_opt set_group str3 e2 in
                  if ret3 = 1 then Inr (ToEnd e3 r3)
                  else if ret3 = - 1 then Inr (ToError ERR_GRPTOOLONG e3 r3)
                  else gp_mapvars env g e3 r3)))
      else Inr (Go e s))"

text \<open>From the first character of an entry to its last field.\<close>

definition gp_entry ::
  "preader \<Rightarrow> (char \<Rightarrow> string \<Rightarrow> string) \<Rightarrow> environ \<Rightarrow> mapset \<Rightarrow> char \<Rightarrow> cfent \<Rightarrow> string \<Rightarrow> flow res" where
  "gp_entry rd fst_rest env g c e r =
     (if c \<in> set ''i./'' then
        gp_short rd (if c = CHR ''i'' then e\<lparr>ftype := c\<rparr> else e) (fst_rest c r)
      else if c \<in> set ''?fvelspcbdx'' then
        fbind (gp_long rd c e r) (\<lambda>e1 r1.
        fbind (if ftype e1 \<in> set ''sl'' \<and> local (ainfo e1) = None then Inr (ToError ERR_NO_LINKSOURCE e1 r1)
               else Inr (Go e1 r1)) (\<lambda>e2 r2.
        fbind (Inr (gp_devs rd e2 r2)) (\<lambda>e3 r3.
        fbind (gp_attrs rd env g e3 r3) (\<lambda>e4 r4.
          if ftype e4 \<in> set ''ifve'' then Inr (gp_content rd e4 r4) else Inr (Go e4 r4)))))
      else Inr (ToError ERR_UNKNOWN_FTYPE e r))"

text \<open>The labels \<open>end\<close> and \<open>error\<close>: the return value, the message, the entry and the rest of the input.\<close>

type_synonym map_result = "int \<times> maperr option \<times> cfent \<times> string"

definition gp_finish :: "('a reader_scheme) \<Rightarrow> flow \<Rightarrow> map_result" where
  "gp_finish rd x =
     (let end_label = (\<lambda>e s. let (n, r) = rd_end rd s in
            if n \<and> pinfo e \<noteq> [] then (- 1, Some ERR_EXTRA_TOKENS_PRESENT, e, r) else (1, None, e, r)) in
      case x of
        Go e s \<Rightarrow> end_label e s
      | ToEnd e s \<Rightarrow> end_label e s
      | ToError err e s \<Rightarrow> (- 1, Some err, e, rd_skip rd s)
      | Ret n err e s \<Rightarrow> (n, err, e, s))"

definition gp_run ::
  "preader \<Rightarrow> (char \<Rightarrow> string \<Rightarrow> string) \<Rightarrow> environ \<Rightarrow> mapset \<Rightarrow> cfent \<Rightarrow> start \<Rightarrow> map_result res" where
  "gp_run rd fst_rest env g e st =
     (case st of
        AtEof vol r \<Rightarrow> Inr (0, None, e\<lparr>volno := vol\<rparr>, r)
      | AtErr err vol r \<Rightarrow> Inr (gp_finish rd (ToError err (e\<lparr>volno := vol\<rparr>) r))
      | AtEntry c vol r \<Rightarrow>
          rbind (gp_entry rd fst_rest env g c (e\<lparr>volno := vol\<rparr>) r) (\<lambda>x. Inr (gp_finish rd x)))"

text \<open>\<open>gpkgmap\<close> copies the default owner and group with \<open>strcpy\<close>, \<open>gpkgmapvfp\<close> with \<open>strlcpy\<close>.\<close>

definition gpkgmap :: "environ \<Rightarrow> mapset \<Rightarrow> cfent \<Rightarrow> string option \<Rightarrow> map_result res" where
  "gpkgmap env g ept fp =
     (if length (d_owner g) \<le> ATRSIZ \<and> length (d_group g) \<le> ATRSIZ then
        (let e = gp_clear g (d_owner g) (d_group g) ept in
         case fp of
           None \<Rightarrow> Inr (- 1, None, e, [])
         | Some s \<Rightarrow> gp_run file_reader gp_first env g e (gp_readline 0 s))
      else Inl BufOverrun)"

definition gpkgmapvfp :: "environ \<Rightarrow> mapset \<Rightarrow> cfent \<Rightarrow> string option \<Rightarrow> map_result res" where
  "gpkgmapvfp env g ept vfp =
     (let e = gp_clear g (strlcpy (d_owner g) (ATRSIZ + 1)) (strlcpy (d_group g) (ATRSIZ + 1)) ept in
      case vfp of
        None \<Rightarrow> Inr (- 1, None, e, [])
      | Some p \<Rightarrow> gp_run vfp_reader gp_firstvfp env g e (gp_readlinevfp 0 p))"

end
