(* ===== verification/Putcfile.thy ===== *)
theory Putcfile
  imports Gpkgmap Vfp
begin

unbundle bit_operations_syntax

text \<open>
  Writing entries: \<open>ppkgmap\<close> of \<open>libpkg/ppkgmap.c\<close> (a line of a package map), \<open>putcfile\<close> and
  \<open>putcvfpfile\<close> of \<open>libpkg/putcfile.c\<close> (a line of the contents database, to a \<open>FILE\<close> or to a virtual
  file) and \<open>tputcfent\<close> of \<open>libpkg/tputcfent.c\<close> (an entry for the reader of a terminal).

  A writer is the sequence of its output calls. On a \<open>FILE\<close>, the writers that check their calls stop at
  the first one that fails; how much the file still takes is a parameter of the run.
\<close>

section \<open>Output files\<close>

record fout =
  fo_text :: string
  fo_room :: nat
  fo_err :: bool

text \<open>A checked output call, not made any more once one has failed; and one whose result is ignored.\<close>

definition fo_put :: "string \<Rightarrow> fout \<Rightarrow> fout" where
  "fo_put s f =
     (if fo_err f then f
      else if length s \<le> fo_room f then f\<lparr>fo_text := fo_text f @ s, fo_room := fo_room f - length s\<rparr>
      else f\<lparr>fo_text := fo_text f @ take (fo_room f) s, fo_room := 0, fo_err := True\<rparr>)"

definition fo_put_void :: "string \<Rightarrow> fout \<Rightarrow> fout" where
  "fo_put_void s f =
     f\<lparr>fo_text := fo_text f @ take (fo_room f) s, fo_room := fo_room f - length s\<rparr>"

interpretation fout: text_output fo_put "\<lambda>s. s" fo_text "\<lambda>f. \<not> fo_err f"
  by unfold_locales (auto simp: fo_put_def split: if_splits)

definition checked :: "string list \<Rightarrow> fout \<Rightarrow> int \<times> fout" where
  "checked calls f = (let f' = fold fo_put calls f in (if fo_err f' then - 1 else 0, f'))"

section \<open>Conversions\<close>

text \<open>\<open>" %04o"\<close>, \<open>" %ld"\<close> and \<open>" %d"\<close>, with a question mark for an absent value.\<close>

definition mode_text :: "u16 \<Rightarrow> string" where
  "mode_text m = (if m = BADMODE then ''?'' else pad_left (CHR ''0'') 4 (show_oct (unat m)))"

definition cont_text :: "u64 \<Rightarrow> string" where
  "cont_text v = (if v = BADCONT then ''?'' else show_int (sint v))"

definition dev_text :: "u32 \<Rightarrow> string" where
  "dev_text v = (if v = BADMAJOR then ''?'' else show_int (sint v))"

definition vol_text :: "u16 \<Rightarrow> string" where
  "vol_text v = show_int (sint v)"

section \<open>ppkgmap\<close>

text \<open>\<open>holdcinfo\<close> is the global that suppresses the contents information.\<close>

definition ppkgmap_calls :: "bool \<Rightarrow> cfent \<Rightarrow> string \<Rightarrow> string list" where
  "ppkgmap_calls holdcinfo e pth =
     (if volno e \<noteq> 0 then [vol_text (volno e) @ '' ''] else []) @
     [if ftype e = CHR ''i'' then [ftype e] @ '' '' @ pth
      else [ftype e] @ '' '' @ pkg_class e @ '' '' @ pth] @
     (case local (ainfo e) of
        Some l \<Rightarrow> [''='' @ l]
      | None \<Rightarrow> if strchr pth (CHR ''='') = Some ''='' then [pth] else []) @
     (if in_str ''cb'' (ftype e) then
        ['' '' @ dev_text (major (ainfo e)), '' '' @ dev_text (minor (ainfo e))] else []) @
     (if in_str ''dxcbpfve'' (ftype e) then
        ['' '' @ mode_text (mode (ainfo e)), '' '' @ owner (ainfo e) @ '' '' @ group (ainfo e)] else []) @
     (if holdcinfo then [[NL]]
      else
        (if in_str ''ifve'' (ftype e) then
           ['' '' @ cont_text (fsize (cinfo e)), '' '' @ cont_text (cksum (cinfo e)),
            '' '' @ cont_text (modtime (cinfo e))] else []) @
        [[NL]])"

definition ppkgmap :: "bool \<Rightarrow> cfent \<Rightarrow> fout \<Rightarrow> int \<times> fout" where
  "ppkgmap holdcinfo e fp =
     (case path e of
        None \<Rightarrow> (- 1, fp)
      | Some pth \<Rightarrow> checked (ppkgmap_calls holdcinfo e pth) fp)"

section \<open>putcfile and putcvfpfile\<close>

definition pinfo_calls :: "pinfo \<Rightarrow> string list" where
  "pinfo_calls p =
     ['' ''] @ (if status p \<noteq> NUL then [[status p]] else []) @ [pkg p] @
     (if editflag p then [[CHR 0x5C]] else []) @
     (if aclass p \<noteq> [] then ['':'', aclass p] else [])"

definition putcfile_calls :: "cfent \<Rightarrow> string \<Rightarrow> string list" where
  "putcfile_calls e pth =
     [pth] @
     (case local (ainfo e) of Some l \<Rightarrow> [''='', l] | None \<Rightarrow> []) @
     (if volno e \<noteq> 0 then ['' '' @ vol_text (volno e)] else []) @
     ['' '', [ftype e], '' '', pkg_class e] @
     (if ftype e = CHR ''c'' \<or> ftype e = CHR ''b'' then
        (if major (ainfo e) = BADMAJOR then ['' '', ''?''] else ['' '' @ show_int (sint (major (ainfo e)))]) @
        (if minor (ainfo e) = BADMINOR then ['' '', ''?''] else ['' '' @ show_int (sint (minor (ainfo e)))])
      else []) @
     (if ftype e \<in> set ''dxcbpfve'' then
        ['' '' @ mode_text (mode (ainfo e)), '' '', owner (ainfo e), '' '', group (ainfo e)] else []) @
     (if ftype e \<in> set ''fve'' then
        ['' '' @ cont_text (fsize (cinfo e)), '' '' @ cont_text (cksum (cinfo e)),
         '' '' @ cont_text (modtime (cinfo e))] else []) @
     concat (map pinfo_calls (pinfo e)) @
     [[NL]]"

definition putcfile :: "cfent \<Rightarrow> fout \<Rightarrow> int \<times> fout" where
  "putcfile e fp =
     (if ftype e = CHR ''i'' then (0, fp)
      else
       (case path e of
          None \<Rightarrow> (- 1, fp)
        | Some pth \<Rightarrow> checked (putcfile_calls e pth) fp))"

definition pinfo_puts :: "pinfo \<Rightarrow> vput list" where
  "pinfo_puts p =
     [PutC SP] @ (if status p \<noteq> NUL then [PutC (status p)] else []) @ [PutS (pkg p)] @
     (if editflag p then [PutC (CHR 0x5C)] else []) @
     (if aclass p \<noteq> [] then [PutC (CHR '':''), PutS (aclass p)] else [])"

text \<open>\<open>vfpPutInteger\<close> is \<open>vfpPutFormat\<close> with \<open>"%d"\<close>.\<close>

definition putcvfp_puts :: "cfent \<Rightarrow> string \<Rightarrow> vput list" where
  "putcvfp_puts e pth =
     [PutS pth] @
     (case local (ainfo e) of Some l \<Rightarrow> [PutC (CHR ''=''), PutS l] | None \<Rightarrow> []) @
     (if volno e \<noteq> 0 then [PutC SP, PutF (vol_text (volno e))] else []) @
     [PutC SP, PutC (ftype e), PutC SP, PutS (pkg_class e)] @
     (if ftype e = CHR ''c'' \<or> ftype e = CHR ''b'' then
        (if major (ainfo e) = BADMAJOR then [PutC SP, PutC (CHR ''?'')]
         else [PutC SP, PutF (show_int (sint (major (ainfo e))))]) @
        (if minor (ainfo e) = BADMINOR then [PutC SP, PutC (CHR ''?'')]
         else [PutC SP, PutF (show_int (sint (minor (ainfo e))))])
      else []) @
     (if ftype e \<in> set ''dxcbpfve'' then
        [PutF ('' '' @ mode_text (mode (ainfo e))), PutC SP, PutS (owner (ainfo e)), PutC SP,
         PutS (group (ainfo e))] else []) @
     (if ftype e \<in> set ''fve'' then
        [PutF ('' '' @ cont_text (fsize (cinfo e))), PutF ('' '' @ cont_text (cksum (cinfo e))),
         PutF ('' '' @ cont_text (modtime (cinfo e)))] else []) @
     concat (map pinfo_puts (pinfo e)) @
     [PutC NL]"

definition putcvfpfile :: "cfent \<Rightarrow> vfp \<Rightarrow> (int \<times> vfp) res" where
  "putcvfpfile e v =
     (if ftype e = CHR ''i'' then Inr (0, v)
      else
       (case path e of
          None \<Rightarrow> Inr (- 1, v)
        | Some pth \<Rightarrow>
            rbind (fold vput_step (putcvfp_puts e pth) (Inr (snd (vfpSetModified v)))) (\<lambda>v'. Inr (0, v'))))"

section \<open>tputcfent\<close>

text \<open>
  Message translation is the identity; \<open>strftime\<close> of the local time is a parameter \<open>date_text\<close>, the text
  of the modification date with its newline. Results of the output calls are ignored.
\<close>

definition type_calls :: "cfent \<Rightarrow> string list" where
  "type_calls e =
     (let c = ftype e; link = (case local (ainfo e) of Some l \<Rightarrow> l | None \<Rightarrow> ''(unknown)'') in
      if c = CHR ''f'' then [''regular file'' @ [NL]]
      else if c = CHR ''d'' then [''directory'' @ [NL]]
      else if c = CHR ''x'' then [''exclusive directory'' @ [NL]]
      else if c = CHR ''v'' then [''volatile file'' @ [NL]]
      else if c = CHR ''e'' then [''editted file'' @ [NL]]
      else if c = CHR ''p'' then [''named pipe'' @ [NL]]
      else if c = CHR ''i'' then [''installation file'' @ [NL]]
      else if c = CHR ''c'' \<or> c = CHR ''b'' then
        [(if c = CHR ''b'' then ''block'' else ''character'') @ '' special device'' @ [NL],
         ''Major device number: '' @ (if major (ainfo e) = BADMAJOR then ''invalid entry''
                                    else show_int (sint (major (ainfo e)))) @ [NL],
         ''Minor device number: '' @ (if minor (ainfo e) = BADMINOR then ''invalid entry''
                                    else show_int (sint (minor (ainfo e)))) @ [NL]]
      else if c = CHR ''l'' then [''linked file'' @ [NL], ''Source of link: '' @ link @ [NL]]
      else if c = CHR ''s'' then [''symbolic link'' @ [NL], ''Source of link: '' @ link @ [NL]]
      else [''unknown'' @ [NL]])"

text \<open>The loop over the packages: five to a line; the number of partially installed ones is counted.\<close>

fun pkgs_calls :: "int \<Rightarrow> pinfo list \<Rightarrow> string list" where
  "pkgs_calls count [] = []"
| "pkgs_calls count (p # ps) =
     [pad_right SP 15 (pkg p)] @
     (if (count + 1) mod 5 = 0 then [[NL], [TAB]] @ pkgs_calls 0 ps else pkgs_calls (count + 1) ps)"

definition tputcfent_calls :: "(u64 \<Rightarrow> string) \<Rightarrow> cfent \<Rightarrow> string \<Rightarrow> string list" where
  "tputcfent_calls date_text e pth =
     [''Pathname: '' @ pth @ [NL], ''Type: ''] @ type_calls e @
     (if \<not> in_str ''lsin'' (ftype e) then
        [''Expected mode: '' @ mode_text (mode (ainfo e)) @ [NL],
         ''Expected owner: '' @ owner (ainfo e) @ [NL],
         ''Expected group: '' @ group (ainfo e) @ [NL]] else []) @
     (if in_str ''?infv'' (ftype e) then
        [''Expected file size (bytes): '' @ show_int (sint (fsize (cinfo e))) @ [NL],
         ''Expected sum(1) of contents: '' @ show_int (sint (cksum (cinfo e))) @ [NL],
         (if sint (modtime (cinfo e)) > 0 then date_text (modtime (cinfo e))
          else ''Expected last modification: ?'' @ [NL])] else []) @
     (if ftype e = CHR ''i'' then [[NL]]
      else
        (if pinfo e \<noteq> [] then
           [''Referenced by the following packages:'' @ [NL, TAB]] @ pkgs_calls 0 (pinfo e) @ [[NL]] else []) @
        [''Current status: '' @
           (if \<exists>p \<in> set (pinfo e). status p = CHR ''!'' then ''partially installed'' else ''installed'') @ [NL],
         [NL]])"

definition tputcfent :: "(u64 \<Rightarrow> string) \<Rightarrow> cfent \<Rightarrow> fout \<Rightarrow> fout" where
  "tputcfent date_text e fp =
     (case path e of
        None \<Rightarrow> fp
      | Some pth \<Rightarrow> fold fo_put_void (tputcfent_calls date_text e pth) fp)"

section \<open>The lines\<close>

text \<open>
  The format of the two kinds of line, as the comment in \<open>putcvfpfile\<close> documents it: fields with one
  blank between them and a newline at the end.
\<close>

definition name_field :: "cfent \<Rightarrow> string \<Rightarrow> string" where
  "name_field e pth = pth @ (case local (ainfo e) of Some l \<Rightarrow> ''='' @ l | None \<Rightarrow> [])"

definition vol_fields :: "cfent \<Rightarrow> string list" where
  "vol_fields e = (if volno e \<noteq> 0 then [vol_text (volno e)] else [])"

definition dev_fields :: "cfent \<Rightarrow> string list" where
  "dev_fields e =
     (if ftype e \<in> set ''cb'' then [dev_text (major (ainfo e)), dev_text (minor (ainfo e))] else [])"

definition attr_fields :: "cfent \<Rightarrow> string list" where
  "attr_fields e =
     (if ftype e \<in> set ''dxcbpfve''
      then [mode_text (mode (ainfo e)), owner (ainfo e), group (ainfo e)] else [])"

definition cont_fields :: "cfent \<Rightarrow> string list" where
  "cont_fields e = [cont_text (fsize (cinfo e)), cont_text (cksum (cinfo e)), cont_text (modtime (cinfo e))]"

definition pkg_field :: "pinfo \<Rightarrow> string" where
  "pkg_field p =
     (if status p \<noteq> NUL then [status p] else []) @ pkg p @ (if editflag p then [CHR 0x5C] else []) @
     (if aclass p \<noteq> [] then '':'' @ aclass p else [])"

definition contents_line :: "cfent \<Rightarrow> string" where
  "contents_line e =
     join_sep SP ([name_field e (the (path e))] @ vol_fields e @ [[ftype e], pkg_class e] @ dev_fields e @
       attr_fields e @ (if ftype e \<in> set ''fve'' then cont_fields e else []) @ map pkg_field (pinfo e)) @ [NL]"

definition map_line :: "cfent \<Rightarrow> string" where
  "map_line e =
     join_sep SP (vol_fields e @ [[ftype e]] @ (if ftype e = CHR ''i'' then [] else [pkg_class e]) @
       [name_field e (the (path e))] @ dev_fields e @ attr_fields e @
       (if ftype e \<in> set ''ifve'' then cont_fields e else [])) @ [NL]"

section \<open>The writers write these lines\<close>

lemma join_sep_append:
  "join_sep c (t # us @ vs) = join_sep c (t # us) @ concat (map (\<lambda>u. c # u) vs)"
  by (simp add: join_sep_def)

lemma fold_fo_put:
  assumes "\<not> fo_err f"
  shows "fold fo_put ps f =
    (if length (concat ps) \<le> fo_room f
     then f\<lparr>fo_text := fo_text f @ concat ps, fo_room := fo_room f - length (concat ps)\<rparr>
     else f\<lparr>fo_text := fo_text f @ take (fo_room f) (concat ps), fo_room := 0, fo_err := True\<rparr>)"
  using assms
proof (induction ps arbitrary: f)
  case (Cons p ps)
  have e: "fo_err g \<Longrightarrow> fold fo_put ps g = g" for g by (induction ps) (simp_all add: fo_put_def)
  show ?case
  proof (cases "length p \<le> fo_room f")
    case True
    then show ?thesis using Cons.prems
      Cons.IH [of "f\<lparr>fo_text := fo_text f @ p, fo_room := fo_room f - length p\<rparr>"]
      by (auto simp: fo_put_def)
  next
    case False
    then have "fo_put p f = f\<lparr>fo_text := fo_text f @ take (fo_room f) p, fo_room := 0, fo_err := True\<rparr>"
      using Cons.prems by (simp add: fo_put_def)
    then show ?thesis using False e by simp
  qed
qed simp

lemma concat_pinfo_calls: "concat (pinfo_calls p) = SP # pkg_field p"
  by (simp add: pinfo_calls_def pkg_field_def)

lemma concat_putcfile_calls: "path e = Some pth \<Longrightarrow> concat (putcfile_calls e pth) = contents_line e"
proof -
  assume p: "path e = Some pth"
  have pk: "concat (concat (map pinfo_calls ps)) = concat (map (\<lambda>p. SP # pkg_field p) ps)" for ps
    by (induction ps) (simp_all add: concat_pinfo_calls)
  have dv: "concat (if ftype e = CHR ''c'' \<or> ftype e = CHR ''b'' then
        (if major (ainfo e) = BADMAJOR then ['' '', ''?''] else ['' '' @ show_int (sint (major (ainfo e)))]) @
        (if minor (ainfo e) = BADMINOR then ['' '', ''?''] else ['' '' @ show_int (sint (minor (ainfo e)))])
      else []) = concat (map (\<lambda>u. SP # u) (dev_fields e))"
    by (auto simp: dev_fields_def dev_text_def BADMAJOR_def BADMINOR_def)
  show ?thesis
    unfolding putcfile_calls_def contents_line_def join_sep_def concat_append dv pk
    by (simp add: p name_field_def vol_fields_def attr_fields_def cont_fields_def comp_def
        split: option.split)
qed

lemma concat_ppkgmap_calls:
  assumes "path e = Some pth" "CHR ''='' \<notin> set pth" "ftype e \<noteq> NUL"
  shows "concat (ppkgmap_calls False e pth) = map_line e"
proof -
  have "strchr pth (CHR ''='') = None" using assms(2) by (induction pth) (auto simp: strchr_def)
  then show ?thesis using assms(1,3)
    by (auto simp: ppkgmap_calls_def map_line_def in_str_def name_field_def vol_fields_def dev_fields_def
        attr_fields_def cont_fields_def join_sep_def split: option.split)
qed

text \<open>
  \<open>putcfile\<close> writes an entry as one line of the documented format and returns 0, or, when the file
  does not take the whole line, returns -1; entries of type \<open>i\<close> are not stored.
\<close>

theorem putcfile_writes_line:
  assumes "path e = Some pth" "ftype e \<noteq> CHR ''i''" "\<not> fo_err f"
  shows "putcfile e f =
    (if length (contents_line e) \<le> fo_room f
     then (0, f\<lparr>fo_text := fo_text f @ contents_line e, fo_room := fo_room f - length (contents_line e)\<rparr>)
     else (- 1, f\<lparr>fo_text := fo_text f @ take (fo_room f) (contents_line e), fo_room := 0, fo_err := True\<rparr>))"
  using assms by (auto simp: putcfile_def checked_def fold_fo_put concat_putcfile_calls)

definition sample_ent :: cfent where
  "sample_ent = \<lparr>volno = 0, ftype = CHR ''f'', pkg_class = ''none'', pkg_class_idx = - 1, path = Some ''/bin/ls'',
     ainfo = \<lparr>local = None, mode = 493, owner = ''root'', group = ''bin'', major = - 1, minor = - 1\<rparr>,
     cinfo = \<lparr>cksum = 812, fsize = 18, modtime = 94\<rparr>, npkgs = 1,
     pinfo = [\<lparr>status = NUL, pkg = ''SUNWcsu'', editflag = False, aclass = []\<rparr>]\<rparr>"


lemma sample_line: "contents_line sample_ent = ''/bin/ls f none 0755 root bin 18 812 94 SUNWcsu'' @ [NL]"
  by (simp add: contents_line_def sample_ent_def name_field_def vol_fields_def dev_fields_def attr_fields_def
      cont_fields_def join_sep_def mode_text_def cont_text_def pkg_field_def BADMODE_def BADCONT_def
      show_int_def show_base.simps digit_char_def pad_left_def)

theorem putcfile_writes_line_witness:
  "putcfile sample_ent \<lparr>fo_text = [], fo_room = 100, fo_err = False\<rparr> =
     (0, \<lparr>fo_text = ''/bin/ls f none 0755 root bin 18 812 94 SUNWcsu'' @ [NL], fo_room = 53, fo_err = False\<rparr>)"
  using putcfile_writes_line [of sample_ent "''/bin/ls''" "\<lparr>fo_text = [], fo_room = 100, fo_err = False\<rparr>"]
  unfolding sample_line by (simp add: sample_ent_def)

text \<open>
  \<open>ppkgmap\<close> writes an entry as one line of a package map and returns 0, or, when the file does not
  take the whole line, returns -1 (for a path without an equals sign; for one that ends with its
  first equals sign the code repeats the path).
\<close>

theorem ppkgmap_writes_line:
  assumes "path e = Some pth" "CHR ''='' \<notin> set pth" "ftype e \<noteq> NUL" "\<not> fo_err f"
  shows "ppkgmap False e f =
    (if length (map_line e) \<le> fo_room f
     then (0, f\<lparr>fo_text := fo_text f @ map_line e, fo_room := fo_room f - length (map_line e)\<rparr>)
     else (- 1, f\<lparr>fo_text := fo_text f @ take (fo_room f) (map_line e), fo_room := 0, fo_err := True\<rparr>))"
  using assms by (auto simp: ppkgmap_def checked_def fold_fo_put concat_ppkgmap_calls)

lemma sample_map_line: "map_line sample_ent = ''f none /bin/ls 0755 root bin 18 812 94'' @ [NL]"
  by (simp add: map_line_def sample_ent_def name_field_def vol_fields_def dev_fields_def attr_fields_def
      cont_fields_def join_sep_def mode_text_def cont_text_def BADMODE_def BADCONT_def
      show_int_def show_base.simps digit_char_def pad_left_def)

theorem ppkgmap_writes_line_witness:
  "ppkgmap False sample_ent \<lparr>fo_text = [], fo_room = 10, fo_err = False\<rparr> =
     (- 1, \<lparr>fo_text = ''f none /bi'', fo_room = 0, fo_err = True\<rparr>)"
  using ppkgmap_writes_line [of sample_ent "''/bin/ls''" "\<lparr>fo_text = [], fo_room = 10, fo_err = False\<rparr>"]
  unfolding sample_map_line by (simp add: sample_ent_def)

section \<open>The virtual file\<close>

lemma show_int_length: "- (10 ^ k) < i \<Longrightarrow> i < 10 ^ k \<Longrightarrow> 0 < k \<Longrightarrow> length (show_int i) \<le> Suc k"
  using show_base_length [of 10 "nat (- i)" k] show_base_length [of 10 "nat i" k]
  by (auto simp: show_int_def nat_less_iff)

lemma show_sint_length:
  fixes v :: "'a::len word"
  assumes "LENGTH('a) \<le> 64"
  shows "length (show_int (sint v)) \<le> 21"
proof -
  have "- (2 ^ (LENGTH('a) - 1)) \<le> sint v" "sint v < 2 ^ (LENGTH('a) - 1)"
    by (simp_all add: sint_greater_eq sint_less)
  moreover have "(2::int) ^ (LENGTH('a) - 1) \<le> 2 ^ 63" using assms by (intro power_increasing) auto
  ultimately have "- (10 ^ 20) < sint v" "sint v < 10 ^ 20" by auto
  then show ?thesis using show_int_length [of 20 "sint v"] by simp
qed

lemma mode_text_length: "length (mode_text m) \<le> 20"
proof -
  have "unat m < 2 ^ LENGTH(16)" by (rule unsigned_less)
  then have "unat m < 8 ^ 6" by simp
  then have "length (show_oct (unat m)) \<le> 6" using show_base_length [of 8 "unat m" 6] by simp
  then show ?thesis unfolding mode_text_def pad_left_def by simp linarith
qed

lemma text_lengths:
  "length (vol_text v) \<le> 21" "length (cont_text c) \<le> 21" "length (show_int (sint (d :: u32))) \<le> 21"
  using show_sint_length [of v] show_sint_length [of c] show_sint_length [of d]
  by (auto simp: vol_text_def cont_text_def)

lemma concat_putcvfp_puts:
  "path e = Some pth \<Longrightarrow> concat (map vput_txt (putcvfp_puts e pth)) = contents_line e"
proof -
  assume p: "path e = Some pth"
  have pk: "concat (map vput_txt (concat (map pinfo_puts ps))) = concat (map (\<lambda>p. SP # pkg_field p) ps)" for ps
    by (induction ps) (simp_all add: pinfo_puts_def pkg_field_def)
  have t: "length s \<le> 21 \<Longrightarrow> take 255 s = s" for s :: string by simp
  have dv: "concat (map vput_txt (if ftype e = CHR ''c'' \<or> ftype e = CHR ''b'' then
        (if major (ainfo e) = BADMAJOR then [PutC SP, PutC (CHR ''?'')]
         else [PutC SP, PutF (show_int (sint (major (ainfo e))))]) @
        (if minor (ainfo e) = BADMINOR then [PutC SP, PutC (CHR ''?'')]
         else [PutC SP, PutF (show_int (sint (minor (ainfo e))))])
      else [])) = concat (map (\<lambda>u. SP # u) (dev_fields e))"
    by (auto simp: dev_fields_def dev_text_def BADMAJOR_def BADMINOR_def t text_lengths)
  have "take 255 (SP # mode_text m) = SP # mode_text m" for m using mode_text_length [of m] by simp
  moreover have "take 255 (SP # cont_text c) = SP # cont_text c" for c using text_lengths(2) [of c] by simp
  ultimately show ?thesis
    unfolding putcvfp_puts_def contents_line_def join_sep_def concat_append map_append dv pk
    by (simp add: p name_field_def vol_fields_def attr_fields_def cont_fields_def comp_def
        t text_lengths split: option.split)
qed

lemma putcvfpfile_appends:
  assumes "path e = Some pth" "ftype e \<noteq> CHR ''i''" "vfp_ok v"
  shows "\<exists>v'. putcvfpfile e v = Inr (0, v') \<and> appended (contents_line e) v v'"
proof -
  let ?v = "snd (vfpSetModified v)"
  have ok: "vfp_ok ?v" using assms(3) by (simp add: vfp_ok_def vfpSetModified_def)
  obtain v' where "fold vput_step (putcvfp_puts e pth) (Inr ?v) = Inr v'" "appended (contents_line e) ?v v'"
    using vputs_appended [OF ok, of "putcvfp_puts e pth"] concat_putcvfp_puts [OF assms(1)] by auto
  moreover have "appended w ?v v' = appended w v v'" for w
    by (simp add: appended_def vfpSetModified_def vfp_room_def vfp_text_def vfpGetBytesAvailable_def)
  ultimately show ?thesis using assms(1,2) by (simp add: putcvfpfile_def)
qed

lemma vfpStore_flags: "vfpStore v s = Inr v' \<Longrightarrow> vFlags v' = vFlags v"
  by (auto simp: vfpStore_def split: if_splits)

lemma vfpInc_flags: "vFlags (vfpIncCurrPtrBy v i) = vFlags v"
  by (simp add: vfpIncCurrPtrBy_def Let_def)

lemma vfpPuts_flags: "vfpPuts v s = Inr v' \<Longrightarrow> vFlags v' = vFlags v"
  by (auto simp: vfpPuts_def Let_def rbind_Inr vfpInc_flags dest: vfpStore_flags split: if_splits)

lemma vput_do_flags: "vput_do p v = Inr v' \<Longrightarrow> vFlags v' = vFlags v"
proof (cases p)
  case (PutB s)
  moreover assume "vput_do p v = Inr v'"
  ultimately obtain w n b t where "vfpStore (if b then v else v\<lparr>vOverflow := True\<rparr>) t = Inr w" "v' = vfpIncCurrPtrBy w n"
    by (auto simp: vfpPutBytes_def Let_def rbind_Inr simp del: if_split)
  then show ?thesis using vfpStore_flags vfpInc_flags by (cases b) fastforce+
qed (auto simp: vfpPutc_def vfpPutFormat_def rbind_Inr vfpInc_flags dest: vfpStore_flags vfpPuts_flags)

lemma fold_vput_flags: "fold vput_step ps (Inr v) = Inr v' \<Longrightarrow> vFlags v' = vFlags v"
proof (induction ps arbitrary: v)
  case (Cons p ps)
  have l: "fold vput_step ps (Inl x) \<noteq> Inr v'" for x by (induction ps) (simp_all add: vput_step_def)
  have s: "vput_step p (Inr v) = vput_do p v" by (simp add: vput_step_def)
  obtain w where "vput_do p v = Inr w" "fold vput_step ps (Inr w) = Inr v'"
    using Cons.prems l s by (cases "vput_do p v") auto
  then show ?case using Cons.IH vput_do_flags by metis
qed simp

lemma putcvfpfile_modified: "putcvfpfile e v = Inr (0, v') \<Longrightarrow> ftype e \<noteq> CHR ''i'' \<Longrightarrow> vfpGetModified v'"
  using fold_vput_flags
  by (fastforce simp: putcvfpfile_def rbind_Inr vfpGetModified_def vfpSetModified_def word_bw_assocs F_VFP_MODIFIED_def bit_simps
      word_ao_absorbs word_bw_comms split: option.splits)

text \<open>
  C34. \<open>putcvfpfile\<close> is \<open>putcfile\<close> for a virtual file: on a well-formed object it stays inside the buffer,
  marks the object as modified and, unless the object then reports an overflow, has appended exactly
  the line that \<open>putcfile\<close> writes to a file with room for it.
\<close>

theorem putcvfpfile_same_line:
  assumes "path e = Some pth" "ftype e \<noteq> CHR ''i''" "vfp_ok v"
    and "\<not> fo_err f" "length (contents_line e) \<le> fo_room f"
  shows "\<exists>v'. putcvfpfile e v = Inr (0, v') \<and> vfp_ok v' \<and> vfpGetModified v' \<and>
    (vfp_room v' \<longrightarrow>
       (\<exists>l. vfp_text v' = vfp_text v @ l \<and> fo_text (snd (putcfile e f)) = fo_text f @ l))"
proof -
  obtain v' where v': "putcvfpfile e v = Inr (0, v')" "appended (contents_line e) v v'"
    using putcvfpfile_appends [OF assms(1-3)] by blast
  have "fo_text (snd (putcfile e f)) = fo_text f @ contents_line e"
    using assms by (simp add: putcfile_def checked_def fold_fo_put concat_putcfile_calls)
  then show ?thesis using v' putcvfpfile_modified [OF v'(1) assms(2)] by (auto simp: appended_def)
qed

theorem putcvfpfile_same_line_witness:
  "\<exists>v'. putcvfpfile sample_ent (vfp0\<lparr>vMem := replicate 100 NUL, vEnd := 98, vStart := True\<rparr>) = Inr (0, v') \<and>
     vfp_ok v' \<and> vfpGetModified v'"
proof -
  let ?v = "vfp0\<lparr>vMem := replicate 100 NUL, vEnd := 98, vStart := True\<rparr>"
  have "vfp_ok ?v" by (simp add: vfp_ok_def vfp0_def)
  moreover have "path sample_ent = Some ''/bin/ls''" "ftype sample_ent \<noteq> CHR ''i''" by (simp_all add: sample_ent_def)
  moreover have "length (contents_line sample_ent) \<le> 100" by (simp add: sample_line)
  ultimately show ?thesis
    using putcvfpfile_same_line [of sample_ent "''/bin/ls''" ?v "\<lparr>fo_text = [], fo_room = 100, fo_err = False\<rparr>"]
    by auto
qed

end
