(* ===== verification/Maplines.thy ===== *)
theory Maplines
  imports Putcfile
begin

unbundle bit_operations_syntax

text \<open>
  Reading back what was written: the interface between the lines \<open>ppkgmap\<close> writes and the field readers,
  as a locale that both readers of \<open>gpkgmap.c\<close> interpret, and the round trip of a map line through
  \<open>gpkgmap\<close> and \<open>gpkgmapvfp\<close> that rests on it.
\<close>

section \<open>Fields and the rest of a line\<close>

definition word_ok :: "string \<Rightarrow> bool" where
  "word_ok t \<longleftrightarrow> t \<noteq> [] \<and> (\<forall>c \<in> set t. \<not> isspace c \<and> c \<noteq> NUL)"

text \<open>The rest of a line with these fields, and what follows the line.\<close>

definition tail :: "string list \<Rightarrow> string \<Rightarrow> string" where
  "tail fs rest = concat (map (\<lambda>f. SP # f) fs) @ NL # rest"

lemma tail_simps [simp]: "tail [] rest = NL # rest" "tail (f # fs) rest = SP # f @ tail fs rest"
  by (simp_all add: tail_def)

lemma tail_append: "tail (fs @ gs) rest = concat (map (\<lambda>f. SP # f) fs) @ tail gs rest"
  by (simp add: tail_def)

lemma tail_cases: obtains x s where "tail fs rest = x # s" "x = SP \<or> x = NL"
  by (cases fs) auto

lemma isspace_SP [simp]: "isspace SP" "isspace NL" by (simp_all add: isspace_def)

lemma isdigit_SP [simp]: "\<not> isdigit SP" "\<not> isdigit NL" by (simp_all add: isdigit_def)

lemma ucast_m1: "ucast (- 1 :: u64) = (- 1 :: u32)" "ucast (drop_bit 32 (- 1 :: u64)) = (- 1 :: u32)"
  by code_simp+

section \<open>The interface\<close>

locale field_reader =
  fixes rd :: "'a reader_scheme"
  assumes str_field: "word_ok t \<Longrightarrow> length t < n \<Longrightarrow> length t < cap \<Longrightarrow> pre = [] \<or> pre = [SP] \<Longrightarrow>
      rd_str rd None n cap (pre @ t @ tail fs rest) = Inr (0, Some t, tail fs rest)"
    and str_sep: "word_ok t \<Longrightarrow> CHR ''='' \<notin> set t \<Longrightarrow> length t < n \<Longrightarrow> length t < cap \<Longrightarrow>
      pre = [] \<or> pre = [SP] \<Longrightarrow> s = tail fs rest \<or> s = CHR ''='' # s' \<Longrightarrow>
      rd_str rd (Some ''='') n cap (pre @ t @ s) = Inr (0, Some t, s)"
    and num_field: "ds \<noteq> [] \<Longrightarrow> \<forall>c \<in> set ds. isdigit c \<Longrightarrow>
      rd_num rd (SP # ds @ tail fs rest) = (0, Some (of_nat (read_nat ds)), tail fs rest)"
    and num_wild: "rd_num rd (SP # CHR ''?'' # s) = (0, Some (- 1), s)"
    and end_line: "rd_end rd (NL # s) = (False, s)"
begin

lemma cont_read:
  assumes "v = BADCONT \<or> 0 \<le> sint v"
  shows "rd_num rd (SP # cont_text v @ tail fs rest) = (0, Some v, tail fs rest)"
proof (cases "v = BADCONT")
  case True
  then show ?thesis by (simp add: cont_text_def num_wild BADCONT_def)
next
  case False
  then have pos: "0 \<le> sint v" using assms by simp
  then have "v = word_of_int (sint v)" by simp
  also have "sint v = int (nat (sint v))" using pos by simp
  finally have v: "v = of_nat (nat (sint v))" by (metis of_int_of_nat_eq)
  have t: "cont_text v = show_nat (nat (sint v))" using False pos by (simp add: cont_text_def show_int_def)
  show ?thesis using num_field [of "show_nat (nat (sint v))"] show_base_digits [of 10] v
    by (simp add: t read_show_base)
qed

lemma dev_read:
  assumes "v = BADMAJOR \<or> 0 \<le> sint v"
  shows "\<exists>w. rd_num rd (SP # dev_text v @ tail fs rest) = (0, Some w, tail fs rest) \<and> ucast w = v"
proof (cases "v = BADMAJOR")
  case True
  then show ?thesis by (simp add: dev_text_def num_wild BADMAJOR_def ucast_m1)
next
  case False
  then have pos: "0 \<le> sint v" using assms by simp
  then have "v = word_of_int (sint v)" by simp
  also have "sint v = int (nat (sint v))" using pos by simp
  finally have v: "v = of_nat (nat (sint v))" by (metis of_int_of_nat_eq)
  have "sint v < 2 ^ 31" using sint_less [of v] by simp
  then have "nat (sint v) < 2 ^ 64" using pos by simp
  then have "take_bit 64 (nat (sint v)) = nat (sint v)" by (rule take_bit_nat_eq_self)
  then have "ucast (of_nat (nat (sint v)) :: u64) = v" by (subst (2) v) (simp add: unsigned_of_nat)
  moreover have "dev_text v = show_nat (nat (sint v))" using False pos by (simp add: dev_text_def show_int_def)
  ultimately show ?thesis using num_field [of "show_nat (nat (sint v))"] show_base_digits [of 10]
    by (simp add: read_show_base)
qed

lemma content_read:
  assumes "\<forall>v \<in> {fsize c, cksum c, modtime c}. v = BADCONT \<or> 0 \<le> sint v" "cinfo e' = c"
  shows "gp_content rd e (tail (cont_fields e') rest) = Go (e\<lparr>cinfo := c\<rparr>) (tail [] rest)"
proof -
  let ?t3 = "[cont_text (modtime c)]"
  let ?t2 = "cont_text (cksum c) # ?t3"
  have t: "tail (cont_fields e') rest = SP # cont_text (fsize c) @ tail ?t2 rest"
    using assms(2) by (simp add: cont_fields_def)
  have n: "rd_num rd (SP # cont_text (fsize c) @ tail ?t2 rest) = (0, Some (fsize c), tail ?t2 rest)"
    "rd_num rd (tail ?t2 rest) = (0, Some (cksum c), tail ?t3 rest)"
    "rd_num rd (tail ?t3 rest) = (0, Some (modtime c), tail [] rest)"
    using assms(1) cont_read [of "fsize c" ?t2 rest] cont_read [of "cksum c" ?t3 rest]
      cont_read [of "modtime c" "[]" rest] by simp_all
  show ?thesis unfolding t gp_content_def
    by (simp add: n set_defs del: tail_simps)
qed

lemma devs_read:
  assumes "ftype e \<in> set ''cb''" "ainfo e' = a" "ftype e' = ftype e"
    and "\<forall>v \<in> {major a, minor a}. v = BADMAJOR \<or> 0 \<le> sint v"
  shows "gp_devs rd e (tail (dev_fields e' @ fs) rest) =
    Go (e\<lparr>ainfo := (ainfo e)\<lparr>major := major a, minor := minor a\<rparr>\<rparr>) (tail fs rest)"
proof -
  let ?t2 = "dev_text (minor a) # fs"
  have t: "tail (dev_fields e' @ fs) rest = SP # dev_text (major a) @ tail ?t2 rest"
    using assms by (simp add: dev_fields_def)
  obtain w w2 where n: "rd_num rd (SP # dev_text (major a) @ tail ?t2 rest) = (0, Some w, tail ?t2 rest)"
    "ucast w = major a" "rd_num rd (tail ?t2 rest) = (0, Some w2, tail fs rest)" "ucast w2 = minor a"
    using assms(4) dev_read [of "major a" ?t2 rest] dev_read [of "minor a" fs rest] by auto
  show ?thesis unfolding t gp_devs_def using assms(1)
    by (simp add: n set_defs del: tail_simps)
qed

end

section \<open>The parser on written lines\<close>

text \<open>Modes that fit the permission bits are read back as they were; others are replaced.\<close>

definition mode_ok :: "u16 \<Rightarrow> bool" where
  "mode_ok m \<longleftrightarrow> m AND NOT MODE_BITS = 0"

definition isoctal :: "char \<Rightarrow> bool" where
  "isoctal c \<longleftrightarrow> c \<in> set ''01234567''"

lemma mode_scan_octal: "\<forall>c \<in> set t. isoctal c \<Longrightarrow> mode_scan t = None"
proof (induction t)
  case (Cons c t)
  have "isoctal c" using Cons.prems by simp
  then have "\<not> isspace c" "isdigit c" "\<not> in_str ''89abcdefABCDEF'' c"
    by (auto simp: isspace_def isdigit_def in_str_def isoctal_def)
  then show ?case using Cons by simp
qed simp

lemma isoctal_digit_char: "d < 8 \<Longrightarrow> isoctal (digit_char d)"
  by (rule digit_cases [of d]) (auto simp: digit_char_def isoctal_def)

lemma show_oct_chars: "\<forall>c \<in> set (show_oct n). isoctal c"
proof (induction n rule: less_induct)
  case (less n)
  show ?case
  proof (cases "n < 8")
    case True
    then show ?thesis using isoctal_digit_char by (subst show_base.simps) simp
  next
    case False
    then have "\<forall>c \<in> set (show_oct (n div 8)). isoctal c" using less [of "n div 8"] by simp
    then show ?thesis using False isoctal_digit_char [of "n mod 8"] by (subst show_base.simps) auto
  qed
qed

lemma strtol8_octal:
  assumes "\<forall>c \<in> set t. isoctal c" "t \<noteq> []" "read_base 8 0 t < 2 ^ 63"
  shows "strtol8 t = of_nat (read_base 8 0 t)"
proof -
  obtain c u where t: "t = c # u" using assms(2) by (cases t) auto
  then have "isoctal c" using assms(1) by simp
  then have "\<not> isspace c" "c \<noteq> CHR ''-''" "c \<noteq> CHR ''+''" by (auto simp: isspace_def isoctal_def)
  moreover have "takeWhile (\<lambda>c. c \<in> set ''01234567'') t = t"
    using assms(1) by (simp only: takeWhile_eq_all_conv isoctal_def)
  ultimately show ?thesis using assms(3) unfolding strtol8_def Let_def t by simp
qed

lemma mode_value_text:
  assumes "mode_ok m"
  shows "mode_value env g bad domap cap (mode_text m) = Inr (0, Some m, None)"
proof -
  let ?t = "pad_left (CHR ''0'') 4 (show_oct (unat m))"
  have m: "m \<noteq> BADMODE"
  proof
    assume "m = BADMODE"
    moreover have "(- 1 :: u16) AND NOT MODE_BITS \<noteq> 0" by code_simp
    ultimately show False using assms by (simp add: mode_ok_def BADMODE_def)
  qed
  then have mt: "mode_text m = ?t" by (simp add: mode_text_def)
  have oct: "\<forall>c \<in> set ?t. isoctal c" using show_oct_chars isoctal_digit_char [of 0]
    by (auto simp: pad_left_def digit_char_def)
  obtain c u where t: "?t = c # u" by (meson neq_Nil_conv pad_left_ne show_base_ne)
  then have "isoctal c" using oct by simp
  then have c: "c \<noteq> CHR ''?''" "c \<noteq> CHR ''$''" by (auto simp: isoctal_def)
  have rd: "read_base 8 0 ?t = unat m" by (simp add: read_pad_zero read_show_base)
  have "unat m < 2 ^ LENGTH(16)" by (rule unsigned_less)
  then have "strtol8 ?t = of_nat (unat m)" using strtol8_octal [OF oct] rd t by simp
  then have "ucast (strtol8 ?t) = m" by (simp add: ucast_up_ucast_id is_up)
  then show ?thesis using c t mode_scan_octal [OF oct] assms
    by (simp add: mt mode_value_def mapvar_def is_var_def mode_ok_def)
qed

text \<open>A reader of map lines: also reads the mode field, and leaves the rest of the line.\<close>

locale map_reader = field_reader rd for rd :: preader +
  assumes mode_field: "word_ok t \<Longrightarrow> length t < 20 \<Longrightarrow>
      \<exists>cap. rd_mode rd env g bad domap (SP # t @ tail fs rest) =
        rbind (mode_value env g bad domap cap t) (\<lambda>(ret, v, err). Inr (ret, v, err, tail fs rest))"

text \<open>
  Entries that can be written as a line and read back: the names are words that fit their fields, a
  link has its target, numbers are absent or not negative, modes fit the permission bits.
\<close>

definition name_ok :: "cfent \<Rightarrow> bool" where
  "name_ok e \<longleftrightarrow>
     (\<exists>p. path e = Some p \<and> word_ok p \<and> CHR ''='' \<notin> set p \<and> length p < PATH_MAX) \<and>
     (\<forall>l. local (ainfo e) = Some l \<longrightarrow> word_ok l \<and> length l < PATH_MAX) \<and>
     (ftype e \<in> set ''sl'' \<longrightarrow> local (ainfo e) \<noteq> None)"

definition attr_ok :: "bool \<Rightarrow> cfent \<Rightarrow> bool" where
  "attr_ok vars e \<longleftrightarrow>
     mode_ok (mode (ainfo e)) \<and> word_ok (owner (ainfo e)) \<and> word_ok (group (ainfo e)) \<and>
     length (owner (ainfo e)) < ATRSIZ \<and> length (group (ainfo e)) < ATRSIZ \<and>
     (vars \<longrightarrow> \<not> is_var (owner (ainfo e)) \<and> \<not> is_var (group (ainfo e)))"

definition num_ok :: "cfent \<Rightarrow> bool" where
  "num_ok e \<longleftrightarrow>
     (\<forall>v \<in> {major (ainfo e), minor (ainfo e)}. v = BADMAJOR \<or> 0 \<le> sint v) \<and>
     (\<forall>v \<in> {fsize (cinfo e), cksum (cinfo e), modtime (cinfo e)}. v = BADCONT \<or> 0 \<le> sint v) \<and>
     0 \<le> sint (volno e)"

definition map_ok :: "bool \<Rightarrow> cfent \<Rightarrow> bool" where
  "map_ok vars e \<longleftrightarrow>
     ftype e \<in> set ''i?fvelspcbdx'' \<and> name_ok e \<and> num_ok e \<and>
     word_ok (pkg_class e) \<and> length (pkg_class e) < CLSSIZ \<and> (ftype e \<in> set ''cbdxpfve'' \<longrightarrow> attr_ok vars e)"

lemma name_field_cases:
  assumes "name_ok e" "path e = Some p"
  shows "name_field e p @ s = p @ (case local (ainfo e) of Some l \<Rightarrow> CHR ''='' # l @ s | None \<Rightarrow> s)"
  by (simp add: name_field_def split: option.split)

lemma digits_word: "ds \<noteq> [] \<Longrightarrow> \<forall>c \<in> set ds. isdigit c \<Longrightarrow> word_ok ds"
  by (auto simp: word_ok_def dest: digit_not_space)

lemma mode_text_word:
  assumes "mode_ok m" shows "word_ok (mode_text m)" "length (mode_text m) < 20"
proof -
  have "\<forall>c \<in> set (pad_left (CHR ''0'') 4 (show_oct (unat m))). isdigit c"
    by (intro pad_left_digits show_base_digits) auto
  then have "word_ok (pad_left (CHR ''0'') 4 (show_oct (unat m)))" by (intro digits_word) auto
  then show "word_ok (mode_text m)" by (simp add: mode_text_def word_ok_def isspace_def)
  have "unat m < 2 ^ LENGTH(16)" by (rule unsigned_less)
  then have "length (show_oct (unat m)) \<le> 6" using show_base_length [of 8 "unat m" 6] by simp
  then show "length (mode_text m) < 20" unfolding mode_text_def pad_left_def by simp linarith
qed

lemma gp_mapvars_plain:
  assumes "mapmode g \<noteq> MAPNONE \<longrightarrow> \<not> is_var (owner (ainfo e)) \<and> \<not> is_var (group (ainfo e))"
  shows "gp_mapvars env g e r = Inr (Go e r)"
  using assms by (simp add: gp_mapvars_def mapvar_def set_defs)

context map_reader
begin

lemma attrs_read:
  assumes "ftype e \<in> set ''cbdxpfve''" "ftype e' = ftype e" "attr_ok (mapmode g \<noteq> MAPNONE) e'"
  shows "gp_attrs rd env g e (tail (attr_fields e' @ fs) rest) =
    Inr (Go (e\<lparr>ainfo := (ainfo e)\<lparr>mode := mode (ainfo e'), owner := owner (ainfo e'), group := group (ainfo e')\<rparr>\<rparr>)
      (tail fs rest))"
proof -
  let ?a = "ainfo e'"
  let ?t3 = "group ?a # fs"
  let ?t2 = "owner ?a # ?t3"
  note ok = assms(3) [unfolded attr_ok_def]
  have t: "tail (attr_fields e' @ fs) rest = SP # mode_text (mode ?a) @ tail ?t2 rest"
    using assms(1,2) by (auto simp: attr_fields_def)
  have m: "rd_mode rd env g CURMODE (mapmode g \<noteq> MAPNONE) (SP # mode_text (mode ?a) @ tail ?t2 rest) =
      Inr (0, Some (mode ?a), None, tail ?t2 rest)"
    using mode_field [OF mode_text_word, of "mode ?a" env g CURMODE "mapmode g \<noteq> MAPNONE" ?t2 rest] ok mode_value_text
    by auto
  have o: "rd_str rd None ATRSIZ (ATRSIZ + 1) (tail ?t2 rest) = Inr (0, Some (owner ?a), tail ?t3 rest)"
    using str_field [of "owner ?a" ATRSIZ "ATRSIZ + 1" "[SP]" ?t3 rest] ok by simp
  have g: "rd_str rd None ATRSIZ (ATRSIZ + 1) (tail ?t3 rest) = Inr (0, Some (group ?a), tail fs rest)"
    using str_field [of "group ?a" ATRSIZ "ATRSIZ + 1" "[SP]" fs rest] ok by simp
  have v: "gp_mapvars env g (set_group (group ?a) (set_owner (owner ?a) x)) r =
      Inr (Go (set_group (group ?a) (set_owner (owner ?a) x)) r)" for x r
    using ok by (intro gp_mapvars_plain) (auto simp: set_defs)
  show ?thesis unfolding t gp_attrs_def if_P [OF assms(1)] m rbind_simps prod.case Let_def set_opt_simps
    using o g v by (simp del: tail_simps) (simp add: set_defs)
qed

lemma long_read:
  assumes "name_ok e'" "path e' = Some p" "word_ok (pkg_class e')" "length (pkg_class e') < CLSSIZ"
    and "local (ainfo e) = None" "ftype e' = c"
  shows "gp_long rd c e (tail (pkg_class e' # name_field e' p # fs) rest) =
    Inr (Go (e\<lparr>ftype := c, pkg_class := pkg_class e', path := Some p,
               ainfo := (ainfo e)\<lparr>local := local (ainfo e')\<rparr>\<rparr>) (tail fs rest))"
proof -
  let ?t = "name_field e' p # fs" and ?l = "local (ainfo e')"
  let ?s = "case ?l of Some l \<Rightarrow> CHR ''='' # l @ tail fs rest | None \<Rightarrow> tail fs rest"
  have p: "word_ok p" "CHR ''='' \<notin> set p" "length p < PATH_MAX"
    and l: "\<And>x. ?l = Some x \<Longrightarrow> word_ok x \<and> length x < PATH_MAX" "c \<in> set ''sl'' \<Longrightarrow> ?l \<noteq> None"
    using assms(1,2,6) by (auto simp: name_ok_def)
  have k: "rd_str rd None CLSSIZ (CLSSIZ + 1) (tail (pkg_class e' # ?t) rest) =
      Inr (0, Some (pkg_class e'), tail ?t rest)"
    using str_field [of "pkg_class e'" CLSSIZ "CLSSIZ + 1" "[SP]" ?t rest] assms(3,4) by simp
  have t: "tail ?t rest = [SP] @ p @ ?s" using name_field_cases [OF assms(1,2)] by simp
  have n: "rd_str rd (Some ''='') PATH_MAX PATH_MAX (tail ?t rest) = Inr (0, Some p, ?s)"
    unfolding t using p by (intro str_sep [where fs = fs and rest = rest and s' = "the ?l @ tail fs rest"]) (auto split: option.split)
  show ?thesis
  proof (cases ?l)
    case None
    obtain x s where x: "tail fs rest = x # s" "x = SP \<or> x = NL" by (rule tail_cases)
    have "e\<lparr>ftype := c, pkg_class := pkg_class e', path := Some p, ainfo := (ainfo e)\<lparr>local := None\<rparr>\<rparr> =
        e\<lparr>ftype := c, pkg_class := pkg_class e', path := Some p\<rparr>"
      using assms(5) by simp
    then show ?thesis unfolding gp_long_def k Let_def rbind_simps prod.case using n None l(2) x
      by (auto simp del: tail_simps)
  next
    case (Some y)
    have "rd_str rd None PATH_MAX PATH_MAX (y @ tail fs rest) = Inr (0, Some y, tail fs rest)"
      using str_field [of y PATH_MAX PATH_MAX "[]" fs rest] l(1) [OF Some] by simp
    then show ?thesis unfolding gp_long_def k Let_def rbind_simps prod.case using n Some
      by (simp add: set_defs del: tail_simps)
  qed
qed

lemma short_read:
  assumes "name_ok e'" "path e' = Some p" "num_ok e'"
    and "local (ainfo e) = None" "ftype e = CHR ''i''" "pre = [] \<or> pre = [SP]"
  shows "gp_short rd e (pre @ name_field e' p @ tail (cont_fields e') rest) =
    Inr (Ret 1 None (e\<lparr>path := Some p, ainfo := (ainfo e)\<lparr>local := local (ainfo e')\<rparr>, cinfo := cinfo e'\<rparr>) rest)"
proof -
  let ?fs = "cont_fields e'" and ?l = "local (ainfo e')"
  let ?s = "case ?l of Some l \<Rightarrow> CHR ''='' # l @ tail ?fs rest | None \<Rightarrow> tail ?fs rest"
  have p: "word_ok p" "CHR ''='' \<notin> set p" "length p < PATH_MAX"
    and l: "\<And>x. ?l = Some x \<Longrightarrow> word_ok x \<and> length x < PATH_MAX"
    using assms(1,2) by (auto simp: name_ok_def)
  have t: "pre @ name_field e' p @ tail ?fs rest = pre @ p @ ?s" using name_field_cases [OF assms(1,2)] by simp
  have n: "rd_str rd (Some ''='') PATH_MAX PATH_MAX (pre @ name_field e' p @ tail ?fs rest) = Inr (0, Some p, ?s)"
    unfolding t using p assms(6)
    by (intro str_sep [where fs = ?fs and rest = rest and s' = "the ?l @ tail ?fs rest"]) (auto split: option.split)
  have c: "gp_content rd x (tail ?fs rest) = Go (x\<lparr>cinfo := cinfo e'\<rparr>) (NL # rest)" for x
    using assms(3) content_read [of "cinfo e'" e' x rest] by (simp add: num_ok_def)
  show ?thesis
  proof (cases ?l)
    case None
    obtain x s where x: "tail ?fs rest = x # s" "x = SP \<or> x = NL" by (rule tail_cases)
    have "e\<lparr>path := Some p, ainfo := (ainfo e)\<lparr>local := None\<rparr>, cinfo := cinfo e'\<rparr> =
        e\<lparr>path := Some p, cinfo := cinfo e'\<rparr>" using assms(4) by simp
    then show ?thesis unfolding gp_short_def Let_def n rbind_simps prod.case using None x c assms(5)
      by (auto simp: fbind_def end_line simp del: tail_simps)
  next
    case (Some y)
    have "rd_str rd None PATH_MAX PATH_MAX (y @ tail ?fs rest) = Inr (0, Some y, tail ?fs rest)"
      using str_field [of y PATH_MAX PATH_MAX "[]" ?fs rest] l [OF Some] by simp
    then show ?thesis unfolding gp_short_def Let_def n rbind_simps prod.case using Some c assms(5)
      by (simp add: set_defs fbind_def end_line del: tail_simps)
  qed
qed

end

section \<open>The round trip of a map line\<close>

definition map_fields :: "cfent \<Rightarrow> string list" where
  "map_fields e =
     (if ftype e = CHR ''i'' then [] else [pkg_class e]) @ [name_field e (the (path e))] @
     dev_fields e @ attr_fields e @ (if ftype e \<in> set ''ifve'' then cont_fields e else [])"

lemma map_line_tail:
  "map_line e @ rest = (if volno e \<noteq> 0 then vol_text (volno e) @ [SP] else []) @ ftype e # tail (map_fields e) rest"
  by (simp add: map_line_def join_sep_def vol_fields_def tail_def map_fields_def)

text \<open>
  What the parser makes of an entry's line, given the cleared entry: the fields the line has are
  those of the entry, the others keep their defaults.
\<close>

definition map_read :: "cfent \<Rightarrow> cfent \<Rightarrow> cfent" where
  "map_read e0 e =
     (let c = ftype e; a0 = ainfo e0; a = ainfo e in
      e0\<lparr>volno := volno e, ftype := c,
        pkg_class := (if c = CHR ''i'' then pkg_class e0 else pkg_class e), path := path e,
        ainfo := \<lparr>local = local a,
          mode = (if c \<in> set ''cbdxpfve'' then mode a else mode a0),
          owner = (if c \<in> set ''cbdxpfve'' then owner a else owner a0),
          group = (if c \<in> set ''cbdxpfve'' then group a else group a0),
          major = (if c \<in> set ''cb'' then major a else major a0),
          minor = (if c \<in> set ''cb'' then minor a else minor a0)\<rparr>,
        cinfo := (if c \<in> set ''ifve'' then cinfo e else cinfo e0)\<rparr>)"

context map_reader
begin

lemma devs_step:
  assumes "num_ok e'" "ftype e' = ftype e"
  shows "gp_devs rd e (tail (dev_fields e' @ fs) rest) =
    Go (if ftype e \<in> set ''cb'' then e\<lparr>ainfo := (ainfo e)\<lparr>major := major (ainfo e'), minor := minor (ainfo e')\<rparr>\<rparr> else e)
      (tail fs rest)"
proof (cases "ftype e \<in> set ''cb''")
  case True
  then show ?thesis using devs_read [OF True refl assms(2)] assms(1) by (simp add: num_ok_def)
next
  case False
  then show ?thesis using assms(2) unfolding gp_devs_def dev_fields_def by simp
qed

lemma attrs_step:
  assumes "ftype e \<in> set ''cbdxpfve'' \<longrightarrow> attr_ok (mapmode g \<noteq> MAPNONE) e'" "ftype e' = ftype e"
  shows "gp_attrs rd env g e (tail (attr_fields e' @ fs) rest) =
    Inr (Go (if ftype e \<in> set ''cbdxpfve'' then
        e\<lparr>ainfo := (ainfo e)\<lparr>mode := mode (ainfo e'), owner := owner (ainfo e'), group := group (ainfo e')\<rparr>\<rparr> else e)
      (tail fs rest))"
proof (cases "ftype e \<in> set ''cbdxpfve''")
  case True
  then show ?thesis using attrs_read [OF True assms(2)] assms(1) by simp
next
  case False
  then show ?thesis using assms(2) unfolding gp_attrs_def attr_fields_def by auto
qed

lemma content_step:
  assumes "num_ok e'" "ftype e' = ftype e"
  shows "(if ftype e \<in> set ''ifve'' then
       Inr (gp_content rd e (tail (if ftype e' \<in> set ''ifve'' then cont_fields e' else []) rest))
     else Inr (Go e (tail (if ftype e' \<in> set ''ifve'' then cont_fields e' else []) rest))) =
    Inr (Go (if ftype e \<in> set ''ifve'' then e\<lparr>cinfo := cinfo e'\<rparr> else e) (NL # rest))"
  using content_read [of "cinfo e'" e' e rest] assms by (simp add: num_ok_def)

text \<open>A line of a type with a class, up to the attributes; the fields behind them are left.\<close>

lemma long_chain:
  assumes "map_ok (mapmode g \<noteq> MAPNONE) e'" "local (ainfo e) = None" "volno e = volno e'"
    and "path e' = Some p" "ftype e' \<noteq> CHR ''i''"
  defines "e3 \<equiv> (map_read e e')\<lparr>cinfo := cinfo e\<rparr>"
  shows "gp_entry rd fr env g (ftype e') e
      (tail (pkg_class e' # name_field e' p # dev_fields e' @ attr_fields e' @ fs) rest) =
    (if ftype e' \<in> set ''ifve'' then Inr (gp_content rd e3 (tail fs rest)) else Inr (Go e3 (tail fs rest)))"
proof -
  note ok = assms(1) [unfolded map_ok_def]
  let ?c = "ftype e'" and ?f1 = "dev_fields e' @ attr_fields e' @ fs"
  have "?c \<in> set ''i?fvelspcbdx''" using ok by blast
  then have c: "?c \<notin> set ''i./''" "?c \<in> set ''?fvelspcbdx''" using assms(5) by auto
  have n: "num_ok e'" "name_ok e'" using ok by auto
  let ?e1 = "e\<lparr>ftype := ?c, pkg_class := pkg_class e', path := Some p, ainfo := (ainfo e)\<lparr>local := local (ainfo e')\<rparr>\<rparr>"
  have lk: "\<not> (ftype ?e1 \<in> set ''sl'' \<and> local (ainfo ?e1) = None)" using n(2) by (auto simp: name_ok_def)
  have l: "gp_long rd ?c e (tail (pkg_class e' # name_field e' p # ?f1) rest) = Inr (Go ?e1 (tail ?f1 rest))"
    using long_read [of e' p e ?c ?f1 rest] ok assms(2,4) by simp
  define e2 where "e2 = (if ?c \<in> set ''cb'' then ?e1\<lparr>ainfo := (ainfo ?e1)\<lparr>major := major (ainfo e'), minor := minor (ainfo e')\<rparr>\<rparr> else ?e1)"
  have d: "gp_devs rd ?e1 (tail ?f1 rest) = Go e2 (tail (attr_fields e' @ fs) rest)"
    using devs_step [OF n(1), of ?e1 "attr_fields e' @ fs" rest] unfolding e2_def by simp
  have f2: "ftype e2 = ?c" by (simp add: e2_def)
  have "ftype e2 \<in> set ''cbdxpfve'' \<longrightarrow> attr_ok (mapmode g \<noteq> MAPNONE) e'" using ok unfolding f2 by blast
  note a = attrs_step [OF this f2 [symmetric], unfolded f2, of env fs rest]
  define b1 b2 b3 where b: "b1 = (?c \<in> set ''cb'')" "b2 = (?c \<in> set ''cbdxpfve'')" "b3 = (?c \<in> set ''ifve'')"
  have e3: "(if ?c \<in> set ''cbdxpfve'' then
      e2\<lparr>ainfo := (ainfo e2)\<lparr>mode := mode (ainfo e'), owner := owner (ainfo e'), group := group (ainfo e')\<rparr>\<rparr> else e2) = e3"
    unfolding e3_def e2_def map_read_def Let_def b [symmetric] if_not_P [OF assms(5)] assms(4)
    using assms(3) by (cases b1; cases b2; cases b3) (auto intro!: cfent.equality ainfo.equality)
  have f3: "ftype e3 = ?c" by (simp add: e3_def map_read_def Let_def)
  show ?thesis
    unfolding gp_entry_def if_not_P [OF c(1)] if_P [OF c(2)] l fbind_def rbind_simps flow.case if_not_P [OF lk]
      d a e3 f3 ..
qed

lemma entry_read_i:
  assumes "map_ok vars e'" "local (ainfo e) = None" "volno e = volno e'" "ftype e' = CHR ''i''"
    and fr: "\<And>t s. word_ok t \<Longrightarrow> fr (CHR ''i'') (SP # t @ s) = t @ s"
  shows "gp_entry rd fr env g (ftype e') e (tail (map_fields e') rest) = Inr (Ret 1 None (map_read e e') rest)"
proof -
  note ok = assms(1) [unfolded map_ok_def]
  have n: "name_ok e'" using ok by blast
  then obtain p where p: "path e' = Some p" "word_ok p" unfolding name_ok_def by blast
  let ?t = "tail (cont_fields e') rest"
  let ?s = "case local (ainfo e') of Some l \<Rightarrow> CHR ''='' # l @ ?t | None \<Rightarrow> ?t"
  have t: "tail (map_fields e') rest = SP # p @ ?s"
    using assms(4) p name_field_cases [OF n p(1), of ?t] by (simp add: map_fields_def dev_fields_def attr_fields_def)
  have f: "fr (CHR ''i'') (tail (map_fields e') rest) = [] @ name_field e' p @ ?t"
    unfolding t using fr [OF p(2)] name_field_cases [OF n p(1), of ?t] by simp
  have "gp_short rd (e\<lparr>ftype := CHR ''i''\<rparr>) ([] @ name_field e' p @ ?t) =
      Inr (Ret 1 None (e\<lparr>ftype := CHR ''i'', path := Some p, ainfo := (ainfo e)\<lparr>local := local (ainfo e')\<rparr>,
        cinfo := cinfo e'\<rparr>) rest)"
    using short_read [of e' p "e\<lparr>ftype := CHR ''i''\<rparr>" "[]" rest] ok p assms(2) by simp
  moreover have "e\<lparr>ftype := CHR ''i'', path := Some p, ainfo := (ainfo e)\<lparr>local := local (ainfo e')\<rparr>,
        cinfo := cinfo e'\<rparr> = map_read e e'"
    using assms(3,4) p by (simp add: map_read_def Let_def)
  moreover have "CHR ''i'' \<in> set ''i./''" by simp
  ultimately show ?thesis unfolding gp_entry_def assms(4) f if_P [OF refl] by simp
qed

lemma entry_read:
  assumes "map_ok (mapmode g \<noteq> MAPNONE) e'" "local (ainfo e) = None" "volno e = volno e'"
    and fr: "\<And>t s. word_ok t \<Longrightarrow> fr (CHR ''i'') (SP # t @ s) = t @ s"
  shows "rbind (gp_entry rd fr env g (ftype e') e (tail (map_fields e') rest)) (\<lambda>x. Inr (gp_finish rd x)) =
    Inr (1, None, map_read e e', rest)"
proof (cases "ftype e' = CHR ''i''")
  case True
  then show ?thesis using entry_read_i [of "mapmode g \<noteq> MAPNONE" e' e fr env g rest] assms by (simp add: gp_finish_def)
next
  case False
  have n: "name_ok e'" "num_ok e'" using assms(1) unfolding map_ok_def by blast+
  then obtain p where p: "path e' = Some p" unfolding name_ok_def by blast
  let ?f = "if ftype e' \<in> set ''ifve'' then cont_fields e' else []" and ?e = "(map_read e e')\<lparr>cinfo := cinfo e\<rparr>"
  have t: "map_fields e' = pkg_class e' # name_field e' p # dev_fields e' @ attr_fields e' @ ?f"
    using False p by (simp add: map_fields_def)
  have ft: "ftype e' = ftype ?e" by (simp add: map_read_def Let_def)
  have "gp_entry rd fr env g (ftype e') e (tail (map_fields e') rest) =
      Inr (Go (if ftype ?e \<in> set ''ifve'' then ?e\<lparr>cinfo := cinfo e'\<rparr> else ?e) (NL # rest))"
    unfolding t using long_chain [OF assms(1-3) p False, of fr env ?f rest] content_step [OF n(2) ft, of rest]
    unfolding ft [symmetric] by metis
  moreover have "(if ftype ?e \<in> set ''ifve'' then ?e\<lparr>cinfo := cinfo e'\<rparr> else ?e) = map_read e e'"
    unfolding ft [symmetric] by (simp add: map_read_def Let_def)
  ultimately show ?thesis by (simp add: gp_finish_def end_line)
qed

end

section \<open>The readers of gpkgmap.c\<close>

lemma not_space_neq: "\<not> isspace c \<Longrightarrow> c \<noteq> SP \<and> c \<noteq> TAB \<and> c \<noteq> NL"
  by (auto simp: isspace_def)

lemma eatwhite_word:
  "word_ok t \<Longrightarrow> pre = [] \<or> pre = [SP] \<Longrightarrow> eatwhite (pre @ t @ s) = (Some (hd t), tl t @ s)"
proof -
  assume t: "word_ok t" and pre: "pre = [] \<or> pre = [SP]"
  then obtain c u where c: "t = c # u" "\<not> isspace c" by (cases t) (auto simp: word_ok_def)
  then show ?thesis using pre not_space_neq [of c] by auto
qed

lemma getstr_loop_word:
  assumes "\<forall>c \<in> set (c # u). \<not> stop_char sep c \<and> c \<noteq> NL" "length (c # u) \<le> n" "x = NL \<or> stop_char sep x"
  shows "getstr_loop sep n str c (u @ x # s) = (0, str @ c # u, x # s)"
  using assms
proof (induction u arbitrary: n str c)
  case Nil
  then have "getstr_loop sep n str c (x # s) =
      (if x = NL then (0, str @ [c], x # s) else getstr_loop sep (n - 1) (str @ [c]) x s)"
    by (subst getstr_loop.simps) auto
  then show ?case using Nil.prems by (auto simp: getstr_loop.simps [of sep "n - Suc 0" "str @ [c]" x s])
next
  case (Cons d u)
  have "getstr_loop sep n str c ((d # u) @ x # s) = getstr_loop sep (n - 1) (str @ [c]) d (u @ x # s)"
    using Cons.prems by (subst getstr_loop.simps) auto
  also have "\<dots> = (0, (str @ [c]) @ d # u, x # s)" using Cons.prems by (intro Cons.IH) auto
  finally show ?case by simp
qed

lemma stop_char_plain: "word_ok t \<Longrightarrow> c \<in> set t \<Longrightarrow> \<not> stop_char None c \<and> c \<noteq> NL"
  using not_space_neq [of c] by (auto simp: word_ok_def stop_char_def in_str_def)

lemma stop_char_eq: "word_ok t \<Longrightarrow> CHR ''='' \<notin> set t \<Longrightarrow> c \<in> set t \<Longrightarrow> \<not> stop_char (Some ''='') c \<and> c \<noteq> NL"
  using not_space_neq [of c] by (auto simp: word_ok_def stop_char_def in_str_def)

lemma getstr_word:
  assumes "word_ok t" "\<forall>c \<in> set t. \<not> stop_char sep c \<and> c \<noteq> NL" "length t \<le> n" "length t < cap"
    and "pre = [] \<or> pre = [SP]" "s = x # s'" "x = NL \<or> stop_char sep x"
  shows "getstr sep n cap (pre @ t @ s) = Inr (0, Some t, s)"
proof -
  obtain c u where t: "t = c # u" using assms(1) by (cases t) (auto simp: word_ok_def)
  then show ?thesis using assms getstr_loop_word [of c u sep n x "[]" s'] eatwhite_word [OF assms(1,5), of s]
    by (simp add: getstr_def)
qed

lemma digit_val_lt: "isdigit c \<Longrightarrow> digit_val c < 10"
  by (auto simp: isdigit_def)

lemma of_nat_read: "of_nat (read_base b (a * b + digit_val c) u) =
    (foldl (\<lambda>d c. d * of_nat b + of_nat (digit_val c)) (of_nat a * of_nat b + of_nat (digit_val c)) u :: u64)"
  by (induction u arbitrary: a c) (simp_all add: read_base_Cons)

lemma getnum_loop_digits:
  assumes "\<forall>c \<in> set (c # u). isdigit c" "\<not> isdigit x"
  shows "getnum_loop 10 (of_nat d) c (u @ x # s) = (0, Some (of_nat (read_base 10 d (c # u))), x # s)"
  using assms
proof (induction u arbitrary: d c)
  case Nil
  then show ?case using digit_val_lt [of c]
    by (subst getnum_loop.simps) (simp add: read_base_Cons Let_def not_le)
next
  case (Cons e u)
  have "getnum_loop 10 (of_nat d) c ((e # u) @ x # s) = getnum_loop 10 (of_nat (d * 10 + digit_val c)) e (u @ x # s)"
    using Cons.prems digit_val_lt [of c] by (subst getnum_loop.simps) (simp add: Let_def not_le)
  also have "\<dots> = (0, Some (of_nat (read_base 10 (d * 10 + digit_val c) (e # u))), x # s)"
    using Cons.prems by (intro Cons.IH) auto
  finally show ?case by (simp add: read_base_Cons)
qed

interpretation fmap: map_reader file_reader
proof
  show "rd_str file_reader None n cap (pre @ t @ tail fs rest) = Inr (0, Some t, tail fs rest)"
    if "word_ok t" "length t < n" "length t < cap" "pre = [] \<or> pre = [SP]" for t n cap pre fs rest
  proof (rule tail_cases [of fs rest])
    fix x s assume "tail fs rest = x # s" "x = SP \<or> x = NL"
    then show ?thesis using that stop_char_plain [OF that(1)]
      by (simp add: file_reader_def) (intro getstr_word [where x = x and s' = s], auto simp: stop_char_def in_str_def)
  qed
  show "rd_str file_reader (Some ''='') n cap (pre @ t @ s) = Inr (0, Some t, s)"
    if "word_ok t" "CHR ''='' \<notin> set t" "length t < n" "length t < cap" "pre = [] \<or> pre = [SP]"
      and s: "s = tail fs rest \<or> s = CHR ''='' # s'" for t n cap pre s fs rest s'
  proof (rule tail_cases [of fs rest])
    fix x r assume "tail fs rest = x # r" "x = SP \<or> x = NL"
    then obtain y r' where "s = y # r'" "y = NL \<or> stop_char (Some ''='') y"
      using s by (auto simp: stop_char_def in_str_def)
    then show ?thesis using that stop_char_eq [OF that(1,2)]
      by (simp add: file_reader_def) (intro getstr_word, auto)
  qed
  show "rd_num file_reader (SP # ds @ tail fs rest) = (0, Some (of_nat (read_nat ds)), tail fs rest)"
    if ds: "ds \<noteq> []" "\<forall>c \<in> set ds. isdigit c" for ds fs rest
  proof (rule tail_cases [of fs rest])
    fix x s assume x: "tail fs rest = x # s" "x = SP \<or> x = NL"
    obtain c u where c: "ds = c # u" using ds(1) by (cases ds) auto
    then have "isdigit c" using ds(2) by simp
    then have "c \<noteq> SP" "c \<noteq> TAB" "c \<noteq> CHR ''?''" "c \<noteq> NL" by (auto simp: isdigit_def)
    then show ?thesis using x c ds(2) getnum_loop_digits [of c u x 0 s]
      by (auto simp: file_reader_def getnum_def)
  qed
  show "rd_num file_reader (SP # CHR ''?'' # s) = (0, Some (- 1), s)" for s
    by (simp add: file_reader_def getnum_def BADCONT_def)
  show "rd_end file_reader (NL # s) = (False, s)" for s by (simp add: file_reader_def)
  show "\<exists>cap. rd_mode file_reader env g bad domap (SP # t @ tail fs rest) =
      rbind (mode_value env g bad domap cap t) (\<lambda>(ret, v, err). Inr (ret, v, err, tail fs rest))"
    if "word_ok t" "length t < 20" for t env g bad domap fs rest
  proof (rule tail_cases [of fs rest])
    fix x s assume "tail fs rest = x # s" "x = SP \<or> x = NL"
    then have "getstr None ATRSIZ 20 ([SP] @ t @ tail fs rest) = Inr (0, Some t, tail fs rest)"
      using that stop_char_plain [OF that(1)]
      by (intro getstr_word [where x = x and s' = s]) (auto simp: stop_char_def in_str_def ATRSIZ_def)
    then show ?thesis by (auto simp: file_reader_def getvalmode_def read_mode_def)
  qed
qed

lemma dropWhile_space_word:
  "word_ok t \<Longrightarrow> pre = [] \<or> pre = [SP] \<Longrightarrow> dropWhile isspace (pre @ t @ s) = t @ s"
proof -
  assume t: "word_ok t" and pre: "pre = [] \<or> pre = [SP]"
  then obtain c u where c: "t = c # u" "\<not> isspace c" by (cases t) (auto simp: word_ok_def)
  then show ?thesis using pre by auto
qed

lemma getstrvfp_word:
  assumes "word_ok t" "length t < n" "length t < cap" "pre = [] \<or> pre = [SP]"
    and "sep = None \<or> sep = Some ''='' \<and> CHR ''='' \<notin> set t"
    and "s = x # s'" "x = SP \<or> x = NL \<or> sep = Some ''='' \<and> x = CHR ''=''"
  shows "getstrvfp sep n cap (pre @ t @ s) = Inr (0, Some t, s)"
proof -
  obtain c u where t: "t = c # u" using assms(1) by (cases t) (auto simp: word_ok_def)
  let ?d = "strlcpy ([SP, TAB, NL] @ (case sep of Some d \<Rightarrow> d | None \<Rightarrow> [])) 256"
  have d: "?d = [SP, TAB, NL] @ (case sep of Some d \<Rightarrow> d | None \<Rightarrow> [])"
    using assms(5) by (auto simp: strlcpy_def)
  have "y \<notin> set ?d" if "y \<in> set t" for y
  proof -
    have "\<not> isspace y" using assms(1) that unfolding word_ok_def by blast
    then have "y \<noteq> SP \<and> y \<noteq> TAB \<and> y \<noteq> NL" by (rule not_space_neq)
    moreover have "sep = Some ''='' \<Longrightarrow> y \<noteq> CHR ''=''" using assms(5) that by auto
    ultimately show ?thesis using assms(5) unfolding d by (elim disjE conjE) simp_all
  qed
  moreover have "x \<in> set ?d" using assms(7) unfolding d by (elim disjE conjE) simp_all
  ultimately have "takeWhile (\<lambda>x. x \<notin> set ?d) (t @ x # s') = t" by (simp add: takeWhile_append2)
  then show ?thesis using dropWhile_space_word [OF assms(1,4), of s] assms(2-4,6) t
    by (simp add: getstrvfp_def Let_def)
qed

lemma of_nat_read_base:
  "of_nat (read_base b a ds) =
     foldl (\<lambda>d c. d * of_nat b + of_nat (digit_val c)) (of_nat a :: 'a::comm_semiring_1) ds"
  by (induction ds arbitrary: a) (simp_all add: read_base_Cons)

interpretation vmap: map_reader vfp_reader
proof
  show "rd_str vfp_reader None n cap (pre @ t @ tail fs rest) = Inr (0, Some t, tail fs rest)"
    if "word_ok t" "length t < n" "length t < cap" "pre = [] \<or> pre = [SP]" for t n cap pre fs rest
  proof (rule tail_cases [of fs rest])
    fix x s assume "tail fs rest = x # s" "x = SP \<or> x = NL"
    then show ?thesis using that by (simp add: vfp_reader_def) (intro getstrvfp_word, auto)
  qed
  show "rd_str vfp_reader (Some ''='') n cap (pre @ t @ s) = Inr (0, Some t, s)"
    if "word_ok t" "CHR ''='' \<notin> set t" "length t < n" "length t < cap" "pre = [] \<or> pre = [SP]"
      and s: "s = tail fs rest \<or> s = CHR ''='' # s'" for t n cap pre s fs rest s'
  proof (rule tail_cases [of fs rest])
    fix x r assume "tail fs rest = x # r" "x = SP \<or> x = NL"
    then obtain y r' where "s = y # r'" "y = SP \<or> y = NL \<or> y = CHR ''=''" using s by auto
    then show ?thesis using that by (simp add: vfp_reader_def) (intro getstrvfp_word, auto)
  qed
  show "rd_num vfp_reader (SP # ds @ tail fs rest) = (0, Some (of_nat (read_nat ds)), tail fs rest)"
    if ds: "ds \<noteq> []" "\<forall>c \<in> set ds. isdigit c" for ds fs rest
  proof (rule tail_cases [of fs rest])
    fix x s assume x: "tail fs rest = x # s" "x = SP \<or> x = NL"
    obtain c u where c: "ds = c # u" using ds(1) by (cases ds) auto
    then have "isdigit c" using ds(2) by simp
    then have "c \<noteq> CHR ''?''" "\<not> isspace c" by (auto simp: isdigit_def isspace_def)
    moreover have "takeWhile isdigit (ds @ x # s) = ds" "dropWhile isdigit (ds @ x # s) = x # s"
      using ds(2) x(2) by (auto simp: takeWhile_append2 dropWhile_append2)
    ultimately show ?thesis using x(1) c \<open>isdigit c\<close>
      by (simp add: vfp_reader_def getnumvfp_def of_nat_read_base)
  qed
  show "rd_num vfp_reader (SP # CHR ''?'' # s) = (0, Some (- 1), s)" for s
    by (simp add: vfp_reader_def getnumvfp_def BADCONT_def isspace_def)
  show "rd_end vfp_reader (NL # s) = (False, s)" for s by (simp add: vfp_reader_def getendvfp_def)
  show "\<exists>cap. rd_mode vfp_reader env g bad domap (SP # t @ tail fs rest) =
      rbind (mode_value env g bad domap cap t) (\<lambda>(ret, v, err). Inr (ret, v, err, tail fs rest))"
    if "word_ok t" "length t < 20" for t env g bad domap fs rest
  proof (rule tail_cases [of fs rest])
    fix x s assume "tail fs rest = x # s" "x = SP \<or> x = NL"
    then have "getstrvfp None (ATRSIZ + 1) (ATRSIZ + 1) ([SP] @ t @ tail fs rest) = Inr (0, Some t, tail fs rest)"
      using that by (intro getstrvfp_word) (auto simp: ATRSIZ_def)
    then show ?thesis by (auto simp: vfp_reader_def getvalmodevfp_def read_mode_def)
  qed
qed

section \<open>The start of a line\<close>

lemma type_char:
  assumes "c \<in> set ''i?fvelspcbdx''"
  shows "\<not> isspace c" "\<not> isdigit c" "c \<noteq> CHR '':''" "c \<noteq> CHR ''#''" "c \<noteq> NL" "c \<noteq> SP" "c \<noteq> TAB"
  using assms by (auto simp: isspace_def isdigit_def)

lemma readline_type: "c \<in> set ''i?fvelspcbdx'' \<Longrightarrow> gp_readline vol (c # s) = AtEntry c vol s"
  using type_char [of c] by (subst gp_readline.simps) simp

lemma readlinevfp_type: "c \<in> set ''i?fvelspcbdx'' \<Longrightarrow> s \<noteq> [] \<Longrightarrow> gp_readlinevfp vol (c # s) = AtEntry c vol s"
  using type_char [of c] by (subst gp_readlinevfp.simps) simp

lemma vol_number_digits: "of_nat (read_nat ds) \<noteq> (0 :: u16) \<Longrightarrow> vol_number 0 ds = of_nat (read_nat ds)"
  using of_nat_read_base [of 10 0 ds, where 'a = u16] by (simp add: vol_number_def)

lemma vol_text_digits:
  assumes "0 \<le> sint v" "v \<noteq> 0"
  shows "\<exists>c u. vol_text v = c # u \<and> isdigit c \<and> (\<forall>c \<in> set u. isdigit c) \<and> vol_number 0 (c # u) = v"
proof -
  have "v = word_of_int (sint v)" by simp
  also have "sint v = int (nat (sint v))" using assms(1) by simp
  finally have v: "of_nat (nat (sint v)) = v" by (metis of_int_of_nat_eq)
  let ?t = "show_nat (nat (sint v))"
  obtain c u where t: "?t = c # u" by (meson neq_Nil_conv show_base_ne)
  have "\<forall>c \<in> set ?t. isdigit c" by (intro show_base_digits) auto
  moreover have "read_nat ?t = nat (sint v)" by (simp add: read_show_base)
  moreover have "vol_text v = ?t" using assms(1) by (simp add: vol_text_def show_int_def)
  ultimately show ?thesis using t v assms(2) vol_number_digits [of ?t] by simp
qed

lemma scan_digits:
  "\<forall>c \<in> set u. isdigit c \<Longrightarrow> takeWhile isdigit (u @ SP # s) = u" 
  "\<forall>c \<in> set u. isdigit c \<Longrightarrow> dropWhile isdigit (u @ SP # s) = SP # s"
  by (auto simp: takeWhile_append2 dropWhile_append2)

lemma readline_line:
  assumes "ftype e \<in> set ''i?fvelspcbdx''" "0 \<le> sint (volno e)"
  shows "gp_readline 0 ((if volno e \<noteq> 0 then vol_text (volno e) @ [SP] else []) @ ftype e # s) =
    AtEntry (ftype e) (volno e) s"
proof (cases "volno e = 0")
  case False
  then obtain c u where v: "vol_text (volno e) = c # u" "isdigit c" "\<forall>c \<in> set u. isdigit c"
    "vol_number 0 (c # u) = volno e" using vol_text_digits [OF assms(2)] by blast
  have "c \<noteq> SP" "c \<noteq> TAB" using v(2) by (auto simp: isdigit_def)
  then show ?thesis using False v readline_type [OF assms(1)] scan_digits [OF v(3)]
    by (subst gp_readline.simps) simp
qed (use readline_type [OF assms(1)] in simp)

lemma readlinevfp_line:
  assumes "ftype e \<in> set ''i?fvelspcbdx''" "0 \<le> sint (volno e)" "s \<noteq> []"
  shows "gp_readlinevfp 0 ((if volno e \<noteq> 0 then vol_text (volno e) @ [SP] else []) @ ftype e # s) =
    AtEntry (ftype e) (volno e) s"
proof (cases "volno e = 0")
  case False
  then obtain c u where v: "vol_text (volno e) = c # u" "isdigit c" "\<forall>c \<in> set u. isdigit c"
    "vol_number 0 (c # u) = volno e" using vol_text_digits [OF assms(2)] by blast
  have "\<not> isspace c" using v(2) by (rule digit_not_space)
  then show ?thesis using False v readlinevfp_type [OF assms(1,3)] scan_digits [OF v(3)]
    by (subst gp_readlinevfp.simps) simp
qed (use readlinevfp_type [OF assms(1,3)] in simp)

lemma tail_ne [simp]: "tail fs rest \<noteq> []"
  by (cases fs) auto

lemma map_ok_facts:
  assumes "map_ok vars e"
  shows "ftype e \<in> set ''i?fvelspcbdx''" "0 \<le> sint (volno e)"
    "\<exists>p. path e = Some p \<and> CHR ''='' \<notin> set p" "ftype e \<noteq> NUL"
proof -
  show *: "ftype e \<in> set ''i?fvelspcbdx''" using assms unfolding map_ok_def by blast
  then show "ftype e \<noteq> NUL" by auto
  show "0 \<le> sint (volno e)" using assms unfolding map_ok_def num_ok_def by blast
  show "\<exists>p. path e = Some p \<and> CHR ''='' \<notin> set p" using assms unfolding map_ok_def name_ok_def by blast
qed

lemma gpkgmap_line:
  assumes "map_ok (mapmode g \<noteq> MAPNONE) e" "length (d_owner g) \<le> ATRSIZ" "length (d_group g) \<le> ATRSIZ"
  shows "gpkgmap env g ept (Some (map_line e @ rest)) =
    Inr (1, None, map_read (gp_clear g (d_owner g) (d_group g) ept) e, rest)"
proof -
  let ?e = "(gp_clear g (d_owner g) (d_group g) ept)\<lparr>volno := volno e\<rparr>"
  have "gp_first (CHR ''i'') (SP # t @ s) = t @ s" if "word_ok t" for t s
    using that not_space_neq by (cases t) (auto simp: gp_first_def word_ok_def)
  then have "rbind (gp_entry file_reader gp_first env g (ftype e) ?e (tail (map_fields e) rest)) (\<lambda>x. Inr (gp_finish file_reader x)) =
      Inr (1, None, map_read ?e e, rest)"
    using assms(1) by (intro fmap.entry_read) (auto simp: gp_clear_def)
  moreover have "map_read ?e e = map_read (gp_clear g (d_owner g) (d_group g) ept) e"
    by (simp add: map_read_def Let_def)
  ultimately show ?thesis using assms readline_line [OF map_ok_facts(1,2) [OF assms(1)]]
    by (simp add: gpkgmap_def gp_run_def map_line_tail)
qed

lemma gpkgmapvfp_line:
  assumes "map_ok (mapmode g \<noteq> MAPNONE) e" "length (d_owner g) \<le> ATRSIZ" "length (d_group g) \<le> ATRSIZ"
  shows "gpkgmapvfp env g ept (Some (map_line e @ rest)) =
    Inr (1, None, map_read (gp_clear g (d_owner g) (d_group g) ept) e, rest)"
proof -
  let ?e = "(gp_clear g (d_owner g) (d_group g) ept)\<lparr>volno := volno e\<rparr>"
  have s: "strlcpy (d_owner g) (ATRSIZ + 1) = d_owner g" "strlcpy (d_group g) (ATRSIZ + 1) = d_group g"
    using assms(2,3) by (simp_all add: strlcpy_def)
  have "gp_firstvfp (CHR ''i'') (SP # t @ s) = t @ s" if "word_ok t" for t s
    using that by (cases t) (auto simp: gp_firstvfp_def word_ok_def)
  then have "rbind (gp_entry vfp_reader gp_firstvfp env g (ftype e) ?e (tail (map_fields e) rest)) (\<lambda>x. Inr (gp_finish vfp_reader x)) =
      Inr (1, None, map_read ?e e, rest)"
    using assms(1) by (intro vmap.entry_read) (auto simp: gp_clear_def)
  moreover have "map_read ?e e = map_read (gp_clear g (d_owner g) (d_group g) ept) e"
    by (simp add: map_read_def Let_def)
  ultimately show ?thesis using readlinevfp_line [OF map_ok_facts(1,2) [OF assms(1)] tail_ne] s
    by (simp add: gpkgmapvfp_def gp_run_def map_line_tail)
qed

lemma ppkgmap_text:
  assumes "map_ok vars e" "ppkgmap False e \<lparr>fo_text = [], fo_room = n, fo_err = False\<rparr> = (0, f)"
  shows "fo_text f = map_line e"
  using map_ok_facts(3,4) [OF assms(1)] assms(2)
  by (auto simp: ppkgmap_def checked_def fold_fo_put concat_ppkgmap_calls Let_def split: if_splits)

section \<open>Properties\<close>

definition map_sample :: cfent where
  "map_sample = \<lparr>volno = 1, ftype = CHR ''f'', pkg_class = ''none'', pkg_class_idx = - 1, path = Some ''/bin/ls'',
     ainfo = \<lparr>local = Some ''ls.sh'', mode = 493, owner = ''root'', group = ''bin'', major = - 1, minor = - 1\<rparr>,
     cinfo = \<lparr>cksum = 812, fsize = 18, modtime = - 1\<rparr>, npkgs = 0, pinfo = []\<rparr>"

lemma map_sample_ok: "map_ok vars map_sample"
  by (simp add: map_ok_def map_sample_def name_ok_def num_ok_def attr_ok_def mode_ok_def word_ok_def isspace_def
      PATH_MAX_def ATRSIZ_def CLSSIZ_def MODE_BITS_def BADMAJOR_def BADCONT_def is_var_def)

lemma map_sample_line: "map_line map_sample = ''1 f none /bin/ls=ls.sh 0755 root bin 18 812 ?'' @ [NL]"
  by (simp add: map_line_def map_sample_def name_field_def vol_fields_def dev_fields_def attr_fields_def
      cont_fields_def join_sep_def mode_text_def cont_text_def vol_text_def BADMODE_def BADCONT_def
      show_int_def show_base.simps digit_char_def pad_left_def)

lemma map_sample_written:
  "ppkgmap False map_sample \<lparr>fo_text = [], fo_room = 46, fo_err = False\<rparr> =
     (0, \<lparr>fo_text = map_line map_sample, fo_room = 0, fo_err = False\<rparr>)"
proof -
  have "concat (ppkgmap_calls False map_sample ''/bin/ls'') = map_line map_sample"
    by (intro concat_ppkgmap_calls) (simp_all add: map_sample_def)
  moreover have "length (map_line map_sample) = 46" by (simp add: map_sample_line)
  moreover have "path map_sample = Some ''/bin/ls''" by (simp add: map_sample_def)
  ultimately show ?thesis by (simp add: ppkgmap_def checked_def fold_fo_put)
qed

text \<open>
  C1. A map line survives writing and reading: what \<open>ppkgmap\<close> has written of a well-formed entry,
  whatever follows in the file, \<open>gpkgmap\<close> reads back as one entry with every field the line carries, the
  others at their defaults, and leaves exactly what follows. With variable resolution on, owner and
  group must not be variables.
\<close>

theorem gpkgmap_ppkgmap:
  assumes "map_ok (mapmode g \<noteq> MAPNONE) e" "length (d_owner g) \<le> ATRSIZ" "length (d_group g) \<le> ATRSIZ"
    and "ppkgmap False e \<lparr>fo_text = [], fo_room = n, fo_err = False\<rparr> = (0, f)"
  shows "gpkgmap env g ept (Some (fo_text f @ rest)) =
    Inr (1, None, map_read (gp_clear g (d_owner g) (d_group g) ept) e, rest)"
  using assms gpkgmap_line ppkgmap_text by metis

theorem gpkgmap_ppkgmap_witness:
  "gpkgmap (\<lambda>_. None) mapset0 map_sample (Some (''1 f none /bin/ls=ls.sh 0755 root bin 18 812 ?'' @ [NL] @ ''1 i'')) =
     Inr (1, None, map_sample, ''1 i'')"
proof -
  have "map_read (gp_clear mapset0 (d_owner mapset0) (d_group mapset0) map_sample) map_sample = map_sample"
    by (simp add: map_read_def Let_def gp_clear_def map_sample_def BADMAJOR_def BADMINOR_def)
  then show ?thesis
    using gpkgmap_ppkgmap [OF map_sample_ok _ _ map_sample_written, of mapset0 "\<lambda>_. None" map_sample "''1 i''"]
    unfolding map_sample_line by (simp add: mapset0_def BADOWNER_def BADGROUP_def ATRSIZ_def)
qed

text \<open>
  C2. The same round trip through \<open>gpkgmapvfp\<close>, the parser of a buffer in memory: on what \<open>ppkgmap\<close> has
  written of a well-formed entry the two parsers agree.
\<close>

theorem gpkgmapvfp_ppkgmap:
  assumes "map_ok (mapmode g \<noteq> MAPNONE) e" "length (d_owner g) \<le> ATRSIZ" "length (d_group g) \<le> ATRSIZ"
    and "ppkgmap False e \<lparr>fo_text = [], fo_room = n, fo_err = False\<rparr> = (0, f)"
  shows "gpkgmapvfp env g ept (Some (fo_text f @ rest)) =
      Inr (1, None, map_read (gp_clear g (d_owner g) (d_group g) ept) e, rest)
    \<and> gpkgmapvfp env g ept (Some (fo_text f @ rest)) = gpkgmap env g ept (Some (fo_text f @ rest))"
  using assms gpkgmapvfp_line gpkgmap_line ppkgmap_text by metis

theorem gpkgmapvfp_ppkgmap_witness:
  "gpkgmapvfp (\<lambda>_. None) mapset0 map_sample (Some (''1 f none /bin/ls=ls.sh 0755 root bin 18 812 ?'' @ [NL] @ ''1 i'')) =
     Inr (1, None, map_sample, ''1 i'')"
proof -
  have "map_read (gp_clear mapset0 (d_owner mapset0) (d_group mapset0) map_sample) map_sample = map_sample"
    by (simp add: map_read_def Let_def gp_clear_def map_sample_def BADMAJOR_def BADMINOR_def)
  then show ?thesis
    using gpkgmapvfp_ppkgmap [OF map_sample_ok _ _ map_sample_written, of mapset0 "\<lambda>_. None" map_sample "''1 i''"]
    unfolding map_sample_line by (simp add: mapset0_def BADOWNER_def BADGROUP_def ATRSIZ_def)
qed

section \<open>Buffers\<close>

definition no_fault :: "'a res \<Rightarrow> bool" where
  "no_fault r \<longleftrightarrow> (case r of Inl _ \<Rightarrow> False | Inr _ \<Rightarrow> True)"

lemma no_fault_simps [simp]: "no_fault (Inr x)" "\<not> no_fault (Inl e)"
  by (simp_all add: no_fault_def)

lemma no_fault_rbind [intro]: "no_fault r \<Longrightarrow> (\<And>x. no_fault (f x)) \<Longrightarrow> no_fault (rbind r f)"
  by (cases r) auto

lemma no_fault_fbind [intro]: "no_fault r \<Longrightarrow> (\<And>e s. no_fault (f e s)) \<Longrightarrow> no_fault (fbind r f)"
  by (auto simp: fbind_def split: flow.split intro!: no_fault_rbind)

lemma no_fault_getstrvfp: "n \<le> cap \<Longrightarrow> no_fault (getstrvfp sep n cap s)"
  by (auto simp: getstrvfp_def Let_def split: list.split)

lemma no_fault_mapvar:
  "(\<And>v x. env v = Some x \<Longrightarrow> length x < n) \<Longrightarrow> no_fault (mapvar env flag n s)"
  by (auto simp: mapvar_def split: option.split)

lemma no_fault_mode:
  assumes "\<And>v x. env v = Some x \<Longrightarrow> length x \<le> ATRSIZ"
  shows "no_fault (getvalmodevfp env g bad domap s)"
proof -
  have "no_fault (mapvar env m (ATRSIZ + 1) t)" for m t
    using assms by (intro no_fault_mapvar) (simp add: le_imp_less_Suc)
  then have "no_fault (mode_value env g bad domap (ATRSIZ + 1) t)" for t
    by (auto simp: mode_value_def Let_def split: option.split)
  then show ?thesis
    by (auto simp: getvalmodevfp_def read_mode_def intro!: no_fault_rbind no_fault_getstrvfp)
qed

lemma no_fault_str: "no_fault (rd_str vfp_reader sep n cap s)" if "n \<le> cap"
  using no_fault_getstrvfp [OF that] by (simp add: vfp_reader_def)

lemma no_fault_short: "no_fault (gp_short vfp_reader e s)"
  unfolding gp_short_def Let_def
  by (intro no_fault_rbind no_fault_str)
    (auto intro!: no_fault_fbind no_fault_rbind no_fault_str split: prod.split)

lemma no_fault_long: "no_fault (gp_long vfp_reader c e s)"
  unfolding gp_long_def Let_def
  by (intro no_fault_rbind no_fault_str) (auto intro!: no_fault_rbind no_fault_str split: prod.split)

lemma no_fault_attrs:
  assumes env: "\<And>v x. env v = Some x \<Longrightarrow> length x \<le> ATRSIZ"
  shows "no_fault (gp_attrs vfp_reader env g e s)"
proof -
  have v: "no_fault (mapvar env m (ATRSIZ + 1) t)" for m t
    using env by (intro no_fault_mapvar) (simp add: le_imp_less_Suc)
  then have mv: "no_fault (gp_mapvars env g e r)" for e r
    unfolding gp_mapvars_def Let_def by (auto intro!: no_fault_rbind)
  have "no_fault (rd_mode vfp_reader env g b d s)" for b d s
    using no_fault_mode [OF env] by (simp add: vfp_reader_def)
  then show ?thesis using mv unfolding gp_attrs_def Let_def
    by (auto intro!: no_fault_rbind no_fault_str split: prod.split)
qed

text \<open>
  C30. No input makes \<open>gpkgmapvfp\<close> write outside a buffer: whatever the map contains, the parser comes
  back with a return value, provided the values of variables it substitutes fit the attribute fields
  (\<open>mapvar\<close> copies them without a bound).
\<close>

theorem gpkgmapvfp_safe:
  assumes "\<And>v x. env v = Some x \<Longrightarrow> length x \<le> ATRSIZ"
  shows "\<exists>r. gpkgmapvfp env g ept inp = Inr r"
proof -
  have "no_fault (gp_entry vfp_reader fr env g c e s)" for fr c e s
    using no_fault_attrs [OF assms] no_fault_long no_fault_short
    unfolding gp_entry_def by (auto intro!: no_fault_fbind)
  then have "no_fault (gpkgmapvfp env g ept inp)"
    by (auto simp: gpkgmapvfp_def gp_run_def Let_def split: option.split start.split)
  then show ?thesis by (auto simp: no_fault_def split: sum.splits)
qed

theorem gpkgmapvfp_safe_witness:
  "\<exists>r. gpkgmapvfp (\<lambda>v. if v = ''OWNER'' then Some ''root'' else None) (setmapmode MAPINSTALL mapset0) map_sample
     (Some (''d none /x '' @ replicate 5000 CHR ''7'')) = Inr r"
  by (rule gpkgmapvfp_safe) (auto simp: ATRSIZ_def split: if_splits)

text \<open>
  \<open>gpkgmap\<close> is not safe in this sense: \<open>getvalmode\<close> reads the mode field of up to \<open>ATRSIZ\<close> characters
  into \<open>tempmode[20]\<close>, so a mode of 20 to 64 characters is written outside the array; \<open>getvalmodevfp\<close>
  has room for the same field.
\<close>

theorem getvalmode_overrun:
  assumes "word_ok t" "20 \<le> length t" "length t \<le> ATRSIZ" "\<not> domap"
  shows "getvalmode env g bad domap (t @ NL # s) = Inl BufOverrun \<and>
    (\<exists>r. getvalmodevfp env g bad domap (t @ NL # s) = Inr r)"
proof -
  obtain c u where t: "t = c # u" using assms(1) by (cases t) (auto simp: word_ok_def)
  have "eatwhite (t @ NL # s) = (Some c, u @ NL # s)"
    using eatwhite_word [OF assms(1), of "[]" "NL # s"] t by simp
  moreover have "getstr_loop None ATRSIZ [] c (u @ NL # s) = (0, t, NL # s)"
    using getstr_loop_word [of c u None ATRSIZ NL "[]" s] stop_char_plain [OF assms(1)] assms(3) t by auto
  moreover have "c \<noteq> NL" using stop_char_plain [OF assms(1)] t by auto
  ultimately have "getstr None ATRSIZ 20 (t @ NL # s) = Inl BufOverrun" using assms(2) by (simp add: getstr_def)
  moreover have "no_fault (getvalmodevfp env g bad domap (t @ NL # s))"
    using assms(4) by (auto simp: getvalmodevfp_def read_mode_def mode_value_def Let_def
        intro!: no_fault_rbind no_fault_getstrvfp split: option.split)
  ultimately show ?thesis by (auto simp: getvalmode_def read_mode_def no_fault_def split: sum.splits)
qed

theorem getvalmode_overrun_witness:
  "getvalmode (\<lambda>_. None) mapset0 CURMODE False (replicate 20 CHR ''0'' @ [NL]) = Inl BufOverrun"
proof -
  have "word_ok (replicate 20 CHR ''0'')" by (auto simp: word_ok_def isspace_def)
  then show ?thesis using getvalmode_overrun [of "replicate 20 CHR ''0''" False "\<lambda>_. None" mapset0 CURMODE "[]"]
    by (simp add: ATRSIZ_def)
qed

section \<open>Lines without contents information\<close>

text \<open>
  \<open>ppkgmap\<close> with \<open>holdcinfo\<close> set writes files without their contents information. The buffer's number
  reader skips newlines, so that it looks for the numbers on the next line.
\<close>

definition hold_line :: "cfent \<Rightarrow> string" where
  "hold_line e =
     join_sep SP (vol_fields e @ [[ftype e]] @ (if ftype e = CHR ''i'' then [] else [pkg_class e]) @
       [name_field e (the (path e))] @ dev_fields e @ attr_fields e) @ [NL]"

lemma concat_hold_calls:
  assumes "path e = Some pth" "CHR ''='' \<notin> set pth" "ftype e \<noteq> NUL"
  shows "concat (ppkgmap_calls True e pth) = hold_line e"
proof -
  have "strchr pth (CHR ''='') = None" using assms(2) by (induction pth) (auto simp: strchr_def)
  then show ?thesis using assms(1,3)
    by (auto simp: ppkgmap_calls_def hold_line_def in_str_def name_field_def vol_fields_def dev_fields_def
        attr_fields_def join_sep_def split: option.split)
qed

lemma hold_line_tail:
  "hold_line e @ rest = (if volno e \<noteq> 0 then vol_text (volno e) @ [SP] else []) @
     ftype e # tail ((if ftype e = CHR ''i'' then [] else [pkg_class e]) @ [name_field e (the (path e))] @
       dev_fields e @ attr_fields e) rest"
  by (simp add: hold_line_def join_sep_def vol_fields_def tail_def)

text \<open>
  \<open>gpkgmapvfp\<close> loses lines: after the line of a file without contents information, as \<open>ppkgmap\<close> writes
  it when \<open>holdcinfo\<close> is set, the whole next line is taken for extra text of this entry and dropped,
  with return value 1. \<open>gpkgmap\<close> reads the same entry and leaves the next line to the next call.
\<close>

theorem gpkgmapvfp_swallows_line:
  assumes "map_ok (mapmode g \<noteq> MAPNONE) e" "ftype e \<in> set ''fve''" "pinfo ept = []"
    and "length (d_owner g) \<le> ATRSIZ" "length (d_group g) \<le> ATRSIZ"
    and "ppkgmap True e \<lparr>fo_text = [], fo_room = n, fo_err = False\<rparr> = (0, f)"
    and "c \<in> set ''i/.fvelspcbdx''" "NL \<notin> set u"
  defines "e' \<equiv> (map_read (gp_clear g (d_owner g) (d_group g) ept) e)\<lparr>cinfo := \<lparr>cksum = - 1, fsize = - 1, modtime = - 1\<rparr>\<rparr>"
  shows "gpkgmapvfp env g ept (Some (fo_text f @ c # u @ NL # rest)) = Inr (1, None, e', rest) \<and>
    gpkgmap env g ept (Some (fo_text f @ c # u @ NL # rest)) = Inr (1, None, e', c # u @ NL # rest)"
proof -
  let ?r = "c # u @ NL # rest"
  let ?c0 = "(gp_clear g (d_owner g) (d_group g) ept)\<lparr>volno := volno e\<rparr>"
  let ?s = "tail (pkg_class e # name_field e (the (path e)) # dev_fields e @ attr_fields e @ []) ?r"
  note ok = map_ok_facts [OF assms(1)]
  obtain p where p: "path e = Some p" "CHR ''='' \<notin> set p" using ok(3) by blast
  have ft: "ftype e \<noteq> CHR ''i''" "ftype e \<in> set ''ifve''" using assms(2) by auto
  have f: "fo_text f = hold_line e" using assms(6) p concat_hold_calls [OF p ok(4)]
    by (auto simp: ppkgmap_def checked_def fold_fo_put Let_def split: if_splits)
  have line: "fo_text f @ ?r = (if volno e \<noteq> 0 then vol_text (volno e) @ [SP] else []) @ ftype e # ?s"
    unfolding f hold_line_tail using ft(1) by simp
  have e': "(map_read ?c0 e)\<lparr>cinfo := cinfo ?c0\<rparr> = e'" by (simp add: e'_def map_read_def Let_def gp_clear_def)
  have c: "\<not> isspace c" "\<not> isdigit c" "c \<noteq> CHR ''?''" "c \<noteq> NL" using assms(7) by (auto simp: isspace_def isdigit_def)
  have pin: "pinfo e' = []" using assms(3) by (simp add: e'_def map_read_def Let_def gp_clear_def)
  have s: "strlcpy (d_owner g) (ATRSIZ + 1) = d_owner g" "strlcpy (d_group g) (ATRSIZ + 1) = d_group g"
    using assms(4,5) by (simp_all add: strlcpy_def)
  have cv: "gp_content vfp_reader e' (tail [] ?r) = Go e' ?r"
    using c by (simp add: gp_content_def vfp_reader_def getnumvfp_def)
  have "dropWhile (\<lambda>c. c \<noteq> NL) (u @ NL # rest) = NL # rest"
    using assms(8) dropWhile_append2 [of u "\<lambda>c. c \<noteq> NL" "NL # rest"] by fastforce
  then have ev: "getendvfp ?r = (1, rest)" using c by (simp add: getendvfp_def Let_def)
  have "gpkgmapvfp env g ept (Some (fo_text f @ ?r)) = Inr (1, None, e', rest)"
    unfolding line gpkgmapvfp_def Let_def option.case s readlinevfp_line [OF ok(1,2) tail_ne] gp_run_def start.case
    using vmap.long_chain [OF assms(1) _ _ p(1) ft(1), of ?c0 gp_firstvfp env "[]" ?r] ft(2) cv ev pin p(1) e'
    by (simp add: gp_clear_def gp_finish_def vfp_reader_def)
  moreover have cf: "gp_content file_reader e' (tail [] ?r) = Go e' (NL # ?r)"
    by (simp add: gp_content_def file_reader_def getnum_def)
  have "gpkgmap env g ept (Some (fo_text f @ ?r)) = Inr (1, None, e', ?r)"
    unfolding line gpkgmap_def Let_def option.case readline_line [OF ok(1,2)] gp_run_def start.case
    using fmap.long_chain [OF assms(1) _ _ p(1) ft(1), of ?c0 gp_first env "[]" ?r] ft(2) cf p(1) e' assms(4,5)
    by (simp add: gp_clear_def gp_finish_def file_reader_def)
  ultimately show ?thesis by blast
qed

theorem gpkgmapvfp_swallows_line_witness:
  "\<exists>e'. gpkgmapvfp (\<lambda>_. None) mapset0 (map_sample\<lparr>pinfo := []\<rparr>)
       (Some (''1 f none /bin/ls=ls.sh 0755 root bin'' @ [NL] @ ''d none /etc'' @ [NL])) = Inr (1, None, e', []) \<and>
     gpkgmap (\<lambda>_. None) mapset0 (map_sample\<lparr>pinfo := []\<rparr>)
       (Some (''1 f none /bin/ls=ls.sh 0755 root bin'' @ [NL] @ ''d none /etc'' @ [NL])) =
       Inr (1, None, e', ''d none /etc'' @ [NL])"
proof -
  have l: "hold_line map_sample = ''1 f none /bin/ls=ls.sh 0755 root bin'' @ [NL]"
    by (simp add: hold_line_def map_sample_def name_field_def vol_fields_def dev_fields_def attr_fields_def
        join_sep_def mode_text_def vol_text_def BADMODE_def show_int_def show_base.simps digit_char_def pad_left_def)
  have p: "path map_sample = Some ''/bin/ls''" "ftype map_sample \<in> set ''fve''" "ftype map_sample \<noteq> NUL"
    by (simp_all add: map_sample_def)
  have k: "concat (ppkgmap_calls True map_sample ''/bin/ls'') = hold_line map_sample"
    by (rule concat_hold_calls [OF p(1) _ p(3)]) simp
  have w: "ppkgmap True map_sample \<lparr>fo_text = [], fo_room = 37, fo_err = False\<rparr> =
      (0, \<lparr>fo_text = hold_line map_sample, fo_room = 0, fo_err = False\<rparr>)"
    by (simp add: ppkgmap_def p(1) checked_def fold_fo_put k) (simp add: l)
  show ?thesis
    using gpkgmapvfp_swallows_line [OF map_sample_ok p(2) _ _ _ w, where g = mapset0 and ept = "map_sample\<lparr>pinfo := []\<rparr>"
        and c = "CHR ''d''" and u = "'' none /etc''" and env = "\<lambda>_. None" and rest = "[]"]
    by (simp add: l mapset0_def BADOWNER_def BADGROUP_def ATRSIZ_def)
qed

end
