(* ===== verification/Srchcfile.thy ===== *)
theory Srchcfile
  imports Putcfile
begin

unbundle bit_operations_syntax

text \<open>
  The search in the contents database, \<open>libpkg/srchcfile.c\<close>: the binary search that narrows the area
  (\<open>narrowSearch\<close>), the search proper (\<open>srchcfile\<close>), which copies what it passes to a new database, and
  the field readers of the file.

  The database is a virtual file (\<^typ>\<open>vfp\<close>); positions are offsets into its buffer. The decision
  tables \<open>ISPKGPATHSEP\<close>, \<open>ISWORDSEP\<close> and \<open>ISPKGNAMESEP\<close> are predicates; they are indexed by a plain
  \<open>char\<close>, which the model covers for characters below 128 (a character above gives a negative index).
  The loop over the entries ends on every well-formed file but not on every object, so it has fuel.
\<close>

section \<open>Characters and fields\<close>

definition ispathsep :: "char \<Rightarrow> bool" where
  "ispathsep c \<longleftrightarrow> c \<in> {CHR ''='', SP, TAB, NL, NUL}"

definition iswordsep :: "char \<Rightarrow> bool" where
  "iswordsep c \<longleftrightarrow> c \<in> {SP, TAB, NL, NUL}"

definition ispkgnamesep :: "char \<Rightarrow> bool" where
  "ispkgnamesep c \<longleftrightarrow> c \<in> {SP, TAB, NL, CHR '':'', CHR 0x5C, NUL}"

text \<open>
  \<open>getstr\<close>: every buffer it is called with has at least \<open>n\<close> bytes. The text at the cursor ends at the
  terminating NUL.
\<close>

definition cf_getstr :: "(char \<Rightarrow> bool) \<Rightarrow> nat \<Rightarrow> string \<Rightarrow> int \<times> string option \<times> string" where
  "cf_getstr separator n p =
     (if p = [] then (1, None, [])
      else
       (case dropWhile isspace p of
          [] \<Rightarrow> (1, None, step_back p)
        | c # r \<Rightarrow>
           (let tok = takeWhile (\<lambda>x. \<not> separator x) (c # r) in
            if length tok < n then (0, Some tok, drop (length tok) (c # r))
            else (- 1, Some (take (n - 1) tok), drop n (c # r)))))"

text \<open>\<open>getnum\<close> is the \<open>getnumvfp\<close> of \<open>gpkgmap.c\<close>, \<open>findend\<close> its \<open>findendvfp\<close>.\<close>

definition cf_getnum :: "nat \<Rightarrow> u64 \<Rightarrow> string \<Rightarrow> int \<times> u64 option \<times> string" where
  "cf_getnum bas bad p = getnumvfp bas bad p"

definition cf_findend :: "string \<Rightarrow> string" where
  "cf_findend p = (if p = [] then p else case strchr p NL of Some p1 \<Rightarrow> drop 1 p1 | None \<Rightarrow> [])"

text \<open>\<open>getend\<close>: whether there was anything but blanks, and the number of characters passed, which counts the terminator.\<close>

definition cf_getend :: "string \<Rightarrow> bool \<times> nat" where
  "cf_getend p =
     (if p = [] then (False, 0)
      else (let line = takeWhile (\<lambda>c. c \<noteq> NL) p in (\<exists>c \<in> set line. \<not> isspace c, length line + 1)))"

section \<open>Positions\<close>

definition vpos :: "vfp \<Rightarrow> nat" where
  "vpos v = nat (vCurr v)"

text \<open>The string at an offset, and at the cursor.\<close>

definition str_at :: "string \<Rightarrow> nat \<Rightarrow> string" where
  "str_at m i = takeWhile (\<lambda>c. c \<noteq> NUL) (drop i m)"

definition vrest :: "vfp \<Rightarrow> string" where
  "vrest v = str_at (vMem v) (vpos v)"

definition vset :: "nat \<Rightarrow> vfp \<Rightarrow> vfp" where
  "vset i v = v\<lparr>vCurr := int i\<rparr>"

text \<open>Move the cursor so that a tail of the text at the cursor is left.\<close>

definition vto :: "string \<Rightarrow> vfp \<Rightarrow> vfp" where
  "vto r v = vset (vpos v + length (vrest v) - length r) v"

text \<open>\<open>strncmp\<close>: the sign of its result.\<close>

fun strncmp :: "string \<Rightarrow> string \<Rightarrow> nat \<Rightarrow> int" where
  "strncmp a b 0 = 0"
| "strncmp a b (Suc n) =
     (let x = (of_char (deref a) :: nat); y = of_char (deref b) in
      if x < y then - 1 else if x > y then 1 else if x = 0 then 0 else strncmp (tl a) (tl b) n)"

definition path_at :: "string \<Rightarrow> nat \<Rightarrow> string" where
  "path_at m i = takeWhile (\<lambda>c. \<not> ispathsep c) (str_at m i)"

section \<open>narrowSearch\<close>

text \<open>
  The comparison of the path searched for with the path at an offset; \<open>None\<close> is an exact match, a
  path that extends the one at the offset is greater.
\<close>

definition ns_cmp :: "string \<Rightarrow> nat \<Rightarrow> string \<Rightarrow> int option" where
  "ns_cmp m i a_path =
     (let plen = length (path_at m i); n = strncmp a_path (str_at m i) plen in
      if n = 0 then (if length a_path = plen then None else Some (int (length a_path))) else Some n)"

text \<open>Back to the start of a line, but not before \<open>plow\<close>.\<close>

fun back_up :: "string \<Rightarrow> nat \<Rightarrow> nat \<Rightarrow> nat" where
  "back_up m plow pmid =
     (if pmid > plow \<and> \<not> (deref_at m pmid = SLASH \<and> deref_at m (pmid - 1) = NL)
      then back_up m plow (pmid - 1) else pmid)"

declare back_up.simps [simp del]

lemma back_up_le: "back_up m plow pmid \<le> pmid"
proof (induction m plow pmid rule: back_up.induct)
  case (1 m plow pmid)
  show ?case
    by (subst back_up.simps) (use 1 in \<open>auto simp: le_diff_conv intro: order_trans\<close>)
qed

lemma back_up_mid:
  assumes "pm = back_up m plow (plow + (phigh - plow) div 2)" "\<not> pm \<le> plow"
  shows "plow < phigh" "plow < pm" "pm < phigh"
proof -
  define k where "k = (phigh - plow) div 2"
  have "pm \<le> plow + k" using back_up_le assms(1) by (simp add: k_def)
  then have "0 < k" "plow < pm" using assms(2) by auto
  then show "plow < phigh" "plow < pm" by (auto simp: k_def)
  then have "k < phigh - plow" by (simp add: k_def)
  then show "pm < phigh" using \<open>pm \<le> plow + k\<close> by simp
qed

function ns_loop :: "string \<Rightarrow> string \<Rightarrow> nat \<Rightarrow> nat \<Rightarrow> nat" where
  "ns_loop m a_path plow phigh =
     (let pm = back_up m plow (plow + (phigh - plow) div 2) in
      if pm \<le> plow then plow
      else
       (case ns_cmp m pm a_path of
          None \<Rightarrow> pm
        | Some n \<Rightarrow> if n > 0 then ns_loop m a_path pm phigh else ns_loop m a_path plow pm))"
  by pat_completeness auto
termination
proof (relation "measure (\<lambda>(_, _, plow, phigh). phigh - plow)", goal_cases)
  case (2 m a plow phigh pm n)
  then have "plow < phigh" "plow < pm" using back_up_mid [OF 2(1,2)] by simp_all
  then show ?case by simp
next
  case (3 m a plow phigh pm n)
  then have "plow < pm" "pm < phigh" using back_up_mid [OF 3(1,2)] by simp_all
  then show ?case by simp
qed simp

declare ns_loop.simps [simp del]

definition narrowSearch :: "vfp \<Rightarrow> string option \<Rightarrow> nat option" where
  "narrowSearch v a_path =
     (case a_path of
        None \<Rightarrow> None
      | Some a \<Rightarrow>
         (let m = vMem v; cur = vpos v; high = nat (vHighWater v) in
          if a = [] \<or> vfpGetBytesRemaining v \<le> 1 \<or> deref_at m cur \<noteq> SLASH then None
          else
           (case ns_cmp m cur a of
              None \<Rightarrow> Some cur
            | Some n \<Rightarrow>
                if n \<le> 0 then Some cur
                else
                 (let pl = back_up m cur high;
                      cont = Some (ns_loop m a cur high) in
                  if pl > cur \<and> deref_at m pl = SLASH then
                    (case ns_cmp m pl a of
                       None \<Rightarrow> Some pl
                     | Some k \<Rightarrow> if k \<ge> 0 then Some pl else cont)
                  else cont))))"

section \<open>srchcfile\<close>

datatype srcherr =
    ERR_ILLEGAL_SEARCH_PATH | ERR_INCOMPLETE_ENTRY | ERR_VOLUMENO_UNEXPECTED | ERR_FTYPE_I_UNEXPECTED
  | ERR_CF_UNKNOWN_FTYPE | ERR_CF_CLASS_TOKEN | ERR_CANNOT_READ_PATHNAME_FLD | ERR_CANNOT_READ_LL_PATH
  | ERR_NO_LINK_SOURCE_SPECIFIED | ERR_CANNOT_READ_MM_NUMS | ERR_CANNOT_READ_MOG | ERR_CF_CONTENT_INFO
  | ERR_PACKAGE_NAME_TOO_LONG | ERR_BAD_ENTRY_END | ERR_EXTRA_TOKENS | ERR_MISSING_NEWLINE

text \<open>The variables of the search: the entry, the database, the new database if there is one, the data skipped.\<close>

record srch =
  s_e :: cfent
  s_v :: vfp
  s_tmp :: "vfp option"
  s_first :: nat
  s_last :: nat
  s_skip :: bool

text \<open>
  One round of the main loop: on to the next entry, an exact match (the path found), or the end of the
  search with its result.
\<close>

datatype srch_step = Again srch | Match string srch | Back int "srcherr option" srch

definition srch_clear :: "cfent \<Rightarrow> cfent" where
  "srch_clear e = e\<lparr>
     ainfo := (ainfo e)\<lparr>group := BADGROUP, owner := BADOWNER, local := None, mode := BADMODE\<rparr>,
     pkg_class := BADCLASS, cinfo := \<lparr>cksum = BADCONT, fsize = BADCONT, modtime = BADCONT\<rparr>,
     ftype := BADFTYPE, npkgs := 0, path := None, pinfo := [], pkg_class_idx := - 1, volno := 0\<rparr>"

text \<open>\<open>COPYPATH(lpath, ...)\<close>: a path of exactly \<open>sizeof (lpath)\<close> bytes passes the test and has no room for its NUL.\<close>

definition copypath :: "string \<Rightarrow> cfent \<Rightarrow> cfent res" where
  "copypath cpath e =
     (if length cpath > PATH_MAX then Inr (e\<lparr>path := Some (take (PATH_MAX - 1) cpath)\<rparr>)
      else if length cpath = PATH_MAX then Inl BufOverrun
      else Inr (e\<lparr>path := Some cpath\<rparr>))"

text \<open>\<open>WRITEDATA\<close> of the skipped data, if there is any and a file to write it to.\<close>

definition write_data :: "srch \<Rightarrow> nat \<Rightarrow> nat \<Rightarrow> srch res" where
  "write_data s first last' =
     (case s_tmp s of
        None \<Rightarrow> Inr s
      | Some t \<Rightarrow>
          rbind (vfpPutBytes t (take (last' - first) (drop first (vMem (s_v s))))) (\<lambda>t'. Inr (s\<lparr>s_tmp := Some t'\<rparr>)))"

definition flush :: "srch \<Rightarrow> srch res" where
  "flush s = (if s_skip s then write_data s (s_first s) (s_last s) else Inr s)"

text \<open>\<open>*vfpGetLastCharPtr(cfTmpVfp) = '\0'\<close>\<close>

definition end_tmp :: "srch \<Rightarrow> srch res" where
  "end_tmp s =
     (case s_tmp s of
        None \<Rightarrow> Inr s
      | Some t \<Rightarrow>
          if 0 \<le> vHighWater t \<and> vHighWater t < int (length (vMem t))
          then Inr (s\<lparr>s_tmp := Some (t\<lparr>vMem := (vMem t)[nat (vHighWater t) := NUL]\<rparr>)\<rparr>)
          else Inl BufOverrun)"

definition s_end_line :: "srch \<Rightarrow> srch" where
  "s_end_line s = s\<lparr>s_v := vto (cf_findend (vrest (s_v s))) (s_v s)\<rparr>"

text \<open>The error exits: with the path found copied, and without.\<close>

definition srch_fail :: "srcherr \<Rightarrow> string \<Rightarrow> srch \<Rightarrow> srch_step res" where
  "srch_fail err cpath s =
     rbind (copypath cpath (s_e s)) (\<lambda>e. Inr (Back (- 1) (Some err) (s_end_line (s\<lparr>s_e := e\<rparr>))))"

definition srch_fail0 :: "srcherr \<Rightarrow> srch \<Rightarrow> srch_step res" where
  "srch_fail0 err s = Inr (Back (- 1) (Some err) (s_end_line s))"

text \<open>
  The type and the class of an entry: blanks, the type character, the class. \<open>fail\<close> is the error exit
  of the caller, \<open>k\<close> what follows.
\<close>

definition srch_type ::
  "(srcherr \<Rightarrow> srch \<Rightarrow> srch_step res) \<Rightarrow> srch \<Rightarrow> (srch \<Rightarrow> srch_step res) \<Rightarrow> srch_step res" where
  "srch_type fail s k =
     (let p = dropWhile isspace (vrest (s_v s)); c = deref p in
      if c \<in> set ''?fvelspcbdx'' then
        (let (ret, str, r) = cf_getstr iswordsep CLSSIZ (tl p);
             s1 = s\<lparr>s_e := set_opt (\<lambda>x e. e\<lparr>pkg_class := x\<rparr>) str ((s_e s)\<lparr>ftype := c\<rparr>), s_v := vto r (s_v s)\<rparr> in
         if ret \<noteq> 0 then fail ERR_CF_CLASS_TOKEN s1 else k s1)
      else if c = NUL then fail ERR_INCOMPLETE_ENTRY (s\<lparr>s_v := vto [] (s_v s)\<rparr>)
      else
        fail (if isdigit c then ERR_VOLUMENO_UNEXPECTED
              else if c = CHR ''i'' then ERR_FTYPE_I_UNEXPECTED else ERR_CF_UNKNOWN_FTYPE)
          (s\<lparr>s_v := vto (tl p) (s_v s)\<rparr>))"

text \<open>An entry that is less than the path searched for, with a new database: old style entries are rewritten.\<close>

definition srch_rewrite :: "string \<Rightarrow> char \<Rightarrow> srch \<Rightarrow> srch res" where
  "srch_rewrite cpath c s0 =
     rbind (flush s0) (\<lambda>s.
       let v = s_v s; rest = vrest v; e = s_e s;
           head = [PutB cpath, PutC c, PutC (ftype e), PutC SP, PutS (pkg_class e)];
           (puts, v') = (case strchr rest NL of
               None \<Rightarrow> ([PutB (take (nat (vfpGetBytesRemaining v)) (drop (vpos v) (vMem v))), PutC NL], vfpSeekToEnd v)
             | Some px \<Rightarrow> (let len = length rest - length px in
                 ([PutB (take len rest)], vfpIncCurrPtrBy v (int len)))) in
       rbind (fold vput_step (head @ puts) (Inr (the (s_tmp s)))) (\<lambda>t.
         let s1 = s\<lparr>s_v := v', s_tmp := Some t\<rparr> in
         Inr (if s_skip s1 then s1\<lparr>s_skip := False, s_last := 0, s_first := vpos v'\<rparr> else s1)))"

text \<open>\<dots> and others are remembered as skipped.\<close>

definition skip_line :: "vfp \<Rightarrow> vfp" where
  "skip_line v =
     (case strchr (vrest v) NL of
        None \<Rightarrow> vfpSeekToEnd v
      | Some px \<Rightarrow> vfpIncCurrPtrBy v (int (length (vrest v) - length px) + 1))"

definition srch_skip :: "srch \<Rightarrow> srch" where
  "srch_skip s = (let v' = skip_line (s_v s) in s\<lparr>s_v := v', s_skip := True, s_last := vpos v'\<rparr>)"

text \<open>The comparison with the path of an entry: negative when the entry is greater.\<close>

definition path_cmp :: "string option \<Rightarrow> bool \<Rightarrow> string \<Rightarrow> int" where
  "path_cmp pth anypath cpath =
     (if anypath then 0
      else
       (case pth of
          None \<Rightarrow> 1
        | Some p \<Rightarrow>
           (let n = strncmp p cpath (length cpath) in
            if n = 0 \<and> length cpath \<noteq> length p then int (length cpath) else n)))"

text \<open>An entry from the end of its path on; \<open>pos\<close> is its start.\<close>

definition srch_entry ::
  "string option \<Rightarrow> bool \<Rightarrow> bool \<Rightarrow> nat \<Rightarrow> string \<Rightarrow> srch \<Rightarrow> srch_step res" where
  "srch_entry pth anypath rdpath pos cpath s0 =
     (let n = path_cmp pth anypath cpath;
          c = deref_at (vMem (s_v s0)) (vpos (s_v s0));
          s = s0\<lparr>s_v := vset (vpos (s_v s0) + 1) (s_v s0)\<rparr> in
      if n = 0 then
        (let go = (\<lambda>s. if rdpath then Inr (Match cpath s)
                       else srch_type (\<lambda>err. srch_fail err cpath) s (\<lambda>s. Inr (Match cpath s))) in
         if c = CHR ''='' then
           (let (ret, str, r) = cf_getstr iswordsep PATH_MAX (vrest (s_v s));
                s1 = s\<lparr>s_v := vto r (s_v s)\<rparr> in
            if ret \<noteq> 0 then srch_fail ERR_CANNOT_READ_LL_PATH cpath s1
            else go (s1\<lparr>s_e := set_local (the str) (s_e s1)\<rparr>))
         else go s)
      else if n < 0 then
        rbind (copypath cpath (s_e s)) (\<lambda>e.
        rbind (flush (s\<lparr>s_e := e, s_v := vfpSetCurrCharPtr (s_v s) (int pos)\<rparr>)) (\<lambda>s1. Inr (Back 2 None s1)))
      else
        (case s_tmp s of
           Some _ \<Rightarrow> if rdpath then rbind (srch_rewrite cpath c s) (\<lambda>s1. Inr (Again s1)) else Inr (Again (srch_skip s))
         | None \<Rightarrow>
             if strchr (vrest (s_v s)) NL = None then srch_fail ERR_MISSING_NEWLINE cpath (s\<lparr>s_v := vfpSeekToEnd (s_v s)\<rparr>)
             else Inr (Again (s\<lparr>s_v := skip_line (s_v s)\<rparr>))))"

definition srch_round :: "string option \<Rightarrow> bool \<Rightarrow> srch \<Rightarrow> srch_step res" where
  "srch_round pth anypath s =
     (let v = s_v s; pos = vpos v;
          c = (if vfpGetBytesRemaining v \<le> 0 then NUL else deref_at (vMem v) pos) in
      if c \<noteq> SLASH then
        if c = NUL then
          rbind (if s_skip s then rbind (flush s) end_tmp else Inr s) (\<lambda>s1. Inr (Back 0 None s1))
        else if isspace c \<or> c = CHR ''#'' \<or> c = CHR '':'' then Inr (Again (s_end_line s))
        else
          srch_type srch_fail0 s (\<lambda>s1.
            let cpath = takeWhile (\<lambda>c. \<not> ispathsep c) (vrest (s_v s1)) in
            if cpath = [] then srch_fail0 ERR_CANNOT_READ_PATHNAME_FLD s1
            else srch_entry pth anypath True pos cpath
              (s1\<lparr>s_v := vfpIncCurrPtrBy (s_v s1) (int (length cpath)), s_e := (s_e s1)\<lparr>path := Some []\<rparr>\<rparr>))
      else
        (let cpath = path_at (vMem v) pos;
             s1 = s\<lparr>s_v := vfpIncCurrPtrBy v (int (length cpath))\<rparr> in
         if deref_at (vMem v) (vpos (s_v s1)) = NUL then srch_fail0 ERR_INCOMPLETE_ENTRY s1
         else srch_entry pth anypath False pos cpath (s1\<lparr>s_e := (s_e s1)\<lparr>path := Some []\<rparr>\<rparr>)))"

text \<open>The main loop; \<open>None\<close> when the fuel does not suffice.\<close>

fun srch_loop :: "nat \<Rightarrow> string option \<Rightarrow> bool \<Rightarrow> srch \<Rightarrow> srch_step res option" where
  "srch_loop 0 pth anypath s = None"
| "srch_loop (Suc n) pth anypath s =
     (case srch_round pth anypath s of
        Inr (Again s') \<Rightarrow> srch_loop n pth anypath s'
      | r \<Rightarrow> Some r)"

section \<open>The entry found\<close>

definition s_num :: "nat \<Rightarrow> u64 \<Rightarrow> (u64 \<Rightarrow> cfent \<Rightarrow> cfent) \<Rightarrow> srch \<Rightarrow> bool \<times> srch" where
  "s_num bas bad f s =
     (let (ret, v, r) = cf_getnum bas bad (vrest (s_v s)) in
      (ret = 0, s\<lparr>s_e := set_opt f v (s_e s), s_v := vto r (s_v s)\<rparr>))"

definition s_str :: "nat \<Rightarrow> (string \<Rightarrow> cfent \<Rightarrow> cfent) \<Rightarrow> srch \<Rightarrow> bool \<times> srch" where
  "s_str n f s =
     (let (ret, str, r) = cf_getstr iswordsep n (vrest (s_v s)) in
      (ret = 0, s\<lparr>s_e := set_opt f str (s_e s), s_v := vto r (s_v s)\<rparr>))"

text \<open>A chain \<open>a || b || c\<close> of readers: it goes on as long as they succeed.\<close>

fun s_chain :: "(srch \<Rightarrow> bool \<times> srch) list \<Rightarrow> srch \<Rightarrow> bool \<times> srch" where
  "s_chain [] s = (True, s)"
| "s_chain (f # fs) s = (let (ok, s') = f s in if ok then s_chain fs s' else (False, s'))"

text \<open>
  The device numbers, the attributes and the contents information. (The store of the mode as a \<open>long\<close>
  also hits the first bytes of the owner, which the next reader overwrites, or else the call fails.)
\<close>

definition srch_fields :: "string \<Rightarrow> srch \<Rightarrow> srch_step res" where
  "srch_fields cpath s =
     (let c = ftype (s_e s) in
      if (c = CHR ''s'' \<or> c = CHR ''l'') \<and> local (ainfo (s_e s)) = None
      then srch_fail ERR_NO_LINK_SOURCE_SPECIFIED cpath s
      else
       (let (ok1, s1) = (if c \<in> set ''cb''
              then s_chain [s_num 10 (- 1) set_major, s_num 10 (- 1) set_minor]
                     (s\<lparr>s_e := set_minor (- 1) (set_major (- 1) (s_e s))\<rparr>)
              else (True, s)) in
        if \<not> ok1 then srch_fail ERR_CANNOT_READ_MM_NUMS cpath s1
        else
         (let (ok2, s2) = (if c \<in> set ''dxcbpfve''
                then s_chain [s_num 8 0xFFFF (\<lambda>v. set_mode (ucast v)), s_str (ATRSIZ + 1) set_owner,
                              s_str (ATRSIZ + 1) set_group] s1
                else (True, s1)) in
          if \<not> ok2 then srch_fail ERR_CANNOT_READ_MOG cpath s2
          else
           (let (ok3, s3) = (if c \<in> set ''ifve''
                  then s_chain [s_num 10 BADCONT set_size, s_num 10 BADCONT set_cksum, s_num 10 BADCONT set_modtime] s2
                  else (True, s2)) in
            if \<not> ok3 then srch_fail ERR_CF_CONTENT_INFO cpath s3 else Inr (Match cpath s3)))))"

text \<open>
  The packages. \<open>cls\<close> is the array \<open>classname\<close>, uninitialised at first. The outcome: the packages, the
  last character read and the text left (\<open>PkNone\<close> when \<open>getstr\<close> found nothing more), or an error.
\<close>

datatype pkgs = PkEnd "pinfo list" char string | PkNone "pinfo list" string | PkErr srcherr "pinfo list" string

definition pkg_status :: "string \<Rightarrow> char \<times> string" where
  "pkg_status pkgname =
     (if deref pkgname \<in> set ''-+*~!%'' then (deref pkgname, tl pkgname) else (NUL, pkgname))"

definition pkg_edit :: "string \<Rightarrow> bool \<times> char \<times> string" where
  "pkg_edit r = (if deref r = CHR 0x5C then (True, deref (tl r), tl (tl r)) else (False, deref r, tl r))"

definition pkg_aclass :: "string \<Rightarrow> char \<Rightarrow> string \<Rightarrow> string \<times> string \<times> char \<times> string" where
  "pkg_aclass cls c r =
     (if c = CHR '':'' then
        (let (ret, str, r') = cf_getstr iswordsep (CLSSIZ + 1) r;
             cls' = (case str of Some x \<Rightarrow> x | None \<Rightarrow> cls) in (cls', cls', deref r', tl r'))
      else (cls, [], c, r))"

lemma cf_getstr_shorter: "cf_getstr sep n p = (ret, str, r) \<Longrightarrow> length r \<le> length p"
proof -
  assume a: "cf_getstr sep n p = (ret, str, r)"
  have d: "length (dropWhile isspace p) \<le> length p" by (rule length_dropWhile_le)
  show ?thesis
  proof (cases "dropWhile isspace p")
    case Nil
    then show ?thesis using a
      by (cases "p = []") (auto simp: cf_getstr_def step_back_def Suc_le_eq simp del: dropWhile_eq_Nil_conv)
  next
    case (Cons c u)
    then have "p \<noteq> []" by auto
    moreover have "length (c # u) \<le> length p" using d Cons by simp
    ultimately show ?thesis using a Cons by (auto simp: cf_getstr_def Let_def length_dropWhile_le split: if_splits)
  qed
qed

lemma pkg_edit_shorter: "pkg_edit r = (ed, c, r') \<Longrightarrow> length r' \<le> length r"
  by (auto simp: pkg_edit_def split: if_splits)

lemma pkg_edit_less: "pkg_edit r = (ed, c, r') \<Longrightarrow> r \<noteq> [] \<Longrightarrow> length r' < length r"
  by (cases r) (auto simp: pkg_edit_def split: if_splits)

lemma pkg_aclass_shorter: "pkg_aclass cls c r = (cls', a, c', r') \<Longrightarrow> length r' \<le> length r"
  by (auto simp: pkg_aclass_def Let_def split: if_splits prod.splits dest: cf_getstr_shorter)

lemma pkg_step_shorter:
  assumes "pkg_edit r = (ed, c, r1)" "pkg_aclass cls c r1 = (cls', a, c', r2)" "isspace c'"
  shows "length r2 < length r"
proof (cases "r = []")
  case True
  then have "c = NUL" "r1 = []" using assms(1) by (auto simp: pkg_edit_def)
  then have "c' = NUL" using assms(2) by (auto simp: pkg_aclass_def)
  then show ?thesis using assms(3) by simp
next
  case False
  then show ?thesis using pkg_edit_less [OF assms(1)] pkg_aclass_shorter [OF assms(2)] by simp
qed

function srch_pkgs :: "string \<Rightarrow> pinfo list \<Rightarrow> string \<Rightarrow> pkgs" where
  "srch_pkgs cls ps p =
     (case cf_getstr ispkgnamesep (PKGSIZ + 1) p of (ret, str, r) \<Rightarrow>
        if ret > 0 then PkNone ps r
        else if ret < 0 then PkErr ERR_PACKAGE_NAME_TOO_LONG ps r
        else
         (case pkg_edit r of (ed, c, r1) \<Rightarrow>
          case pkg_aclass cls c r1 of (cls', acl, c', r2) \<Rightarrow>
           (let ps' = ps @ [\<lparr>status = fst (pkg_status (the str)), pkg = snd (pkg_status (the str)),
                            editflag = ed, aclass = acl\<rparr>] in
            if c' = NL \<or> c' = NUL then PkEnd ps' c' r2
            else if \<not> isspace c' then PkErr ERR_BAD_ENTRY_END ps' r2
            else srch_pkgs cls' ps' r2)))"
  by pat_completeness auto
termination
proof (relation "measure (\<lambda>(_, _, p). length p)", goal_cases)
  case (2 cls ps p x ret str r ed y c r1 cls' z acl w c' r2 ps')
  then have "length r2 < length r" using pkg_step_shorter [of r ed c r1 cls cls' acl c' r2] by simp
  moreover have "length r \<le> length p" using 2(1-3) cf_getstr_shorter by metis
  ultimately show ?case by simp
qed simp

declare srch_pkgs.simps [simp del]

text \<open>After the fields: the packages, the path, the skipped data, the rest of the line.\<close>

definition set_pkgs :: "pinfo list \<Rightarrow> cfent \<Rightarrow> cfent" where
  "set_pkgs ps e = e\<lparr>pinfo := ps, npkgs := of_nat (length ps)\<rparr>"

definition srch_found :: "string \<Rightarrow> string \<Rightarrow> srch \<Rightarrow> srch_step res" where
  "srch_found classname cpath s =
     (if ftype (s_e s) = CHR ''i'' then
        rbind (copypath cpath (s_e s)) (\<lambda>e.
          let (n, k) = cf_getend (vrest (s_v s)); s1 = s\<lparr>s_e := e, s_v := vset (vpos (s_v s) + k) (s_v s)\<rparr> in
          if n then Inr (Back (- 1) (Some ERR_EXTRA_TOKENS) s1)
          else rbind (flush s1) (\<lambda>s2. Inr (Back 1 None s2)))
      else
       (case srch_pkgs classname [] (vrest (s_v s)) of
          PkErr err ps r \<Rightarrow> srch_fail err cpath (s\<lparr>s_e := set_pkgs ps (s_e s), s_v := vto r (s_v s)\<rparr>)
        | PkEnd ps c r \<Rightarrow>
            rbind (copypath cpath (set_pkgs ps (s_e s))) (\<lambda>e.
            rbind (flush (s\<lparr>s_e := e,
                s_v := (let v = vto r (s_v s) in if c = NUL then vset (vpos v + 1) v else v)\<rparr>)) (\<lambda>s1.
              Inr (Back 1 None s1)))
        | PkNone ps r \<Rightarrow>
            rbind (copypath cpath (set_pkgs ps (s_e s))) (\<lambda>e.
            rbind (flush (s\<lparr>s_e := e, s_v := vto r (s_v s)\<rparr>)) (\<lambda>s1.
              let (n, k) = cf_getend (vrest (s_v s1)); s2 = s1\<lparr>s_v := vset (vpos (s_v s1) + k) (s_v s1)\<rparr> in
              Inr (if n \<and> ps \<noteq> [] then Back (- 1) (Some ERR_EXTRA_TOKENS) s2 else Back 1 None s2)))))"

definition srch_match :: "string \<Rightarrow> srch_step res \<Rightarrow> srch_step res" where
  "srch_match classname r =
     rbind r (\<lambda>x. case x of
        Match cpath s \<Rightarrow>
          rbind (srch_fields cpath s) (\<lambda>y. case y of
            Match cpath' s' \<Rightarrow> srch_found classname cpath' s' | _ \<Rightarrow> Inr y)
      | _ \<Rightarrow> Inr x)"

text \<open>
  \<open>srchcfile\<close>. \<open>classname\<close> is what the uninitialised array holds, \<open>fuel\<close> the number of rounds of the main
  loop allowed.
\<close>

definition srchcfile ::
  "nat \<Rightarrow> string \<Rightarrow> cfent \<Rightarrow> string option \<Rightarrow> vfp \<Rightarrow> vfp option \<Rightarrow> srch_step res option" where
  "srchcfile fuel classname ept path0 cfVfp cfTmpVfp =
     (let pth = (if path0 = Some [] then None else path0);
          s = \<lparr>s_e = srch_clear ept, s_v = cfVfp, s_tmp = cfTmpVfp, s_first = vpos cfVfp, s_last = 0, s_skip = False\<rparr> in
      if vfpGetBytesRemaining cfVfp \<le> 1 then Some (Inr (Back 0 None s))
      else if pth \<noteq> None \<and> deref (the pth) \<noteq> SLASH \<and> pth \<noteq> Some ''*''
      then Some (Inr (Back (- 1) (Some ERR_ILLEGAL_SEARCH_PATH) s))
      else
       (let anypath = (pth \<noteq> None \<and> deref (the pth) \<noteq> SLASH);
            s1 = (case (if anypath then None else narrowSearch cfVfp pth) of
                    Some np \<Rightarrow> s\<lparr>s_skip := True, s_last := np, s_v := vfpSetCurrCharPtr cfVfp (int np)\<rparr>
                  | None \<Rightarrow> s) in
        if \<not> anypath \<and> pth = None then
          Some (rbind
            (rbind (if vfpGetBytesRemaining cfVfp > 0
                    then write_data s1 (s_first s1) (nat (vHighWater cfVfp) + 1) else Inr s1) end_tmp)
            (\<lambda>s2. Inr (Back 0 None (s2\<lparr>s_v := vfpSeekToEnd (s_v s2)\<rparr>))))
        else
          map_option (srch_match classname) (srch_loop fuel pth anypath s1)))"

end
