(* ===== verification/Contents.thy ===== *)
theory Contents
  imports Srchcfile Maplines "HOL-Library.Char_ord" "HOL-Library.List_Lexorder"
begin

unbundle bit_operations_syntax

text \<open>
  Correctness of the search in a contents database that is sorted by path: where \<open>narrowSearch\<close> may
  land, what the main loop passes, copies and returns.

  The order is that of \<open>strncmp\<close> on the bytes of the paths, the lexicographic order of strings.
\<close>

section \<open>The comparison of paths\<close>

lemma char_less_of_char: "(c :: char) < d \<longleftrightarrow> (of_char c :: nat) < of_char d"
  by (simp add: less_char_def)

lemma of_char_NUL: "(of_char c :: nat) = 0 \<longleftrightarrow> c = NUL"
proof -
  have "(of_char c :: nat) = of_char NUL \<longleftrightarrow> c = NUL" by (rule of_char_eq_iff)
  then show ?thesis by simp
qed

lemma strncmp_step:
  assumes "y \<noteq> NUL"
  shows "strncmp p (y # q) (length (y # q)) =
    (if deref p < y then - 1 else if y < deref p then 1 else strncmp (tl p) q (length q))"
  using assms by (auto simp: char_less_of_char of_char_NUL Let_def)

lemma strncmp_order:
  assumes "NUL \<notin> set p" "NUL \<notin> set q"
  shows "(strncmp p q (length q) < 0 \<longleftrightarrow> p < q) \<and>
    (strncmp p q (length q) = 0 \<longleftrightarrow> take (length q) p = q) \<and>
    (strncmp p q (length q) > 0 \<longleftrightarrow> q < p \<and> take (length q) p \<noteq> q)"
  using assms
proof (induction q arbitrary: p)
  case (Cons y q)
  then have y: "y \<noteq> NUL" by auto
  have small: "NUL < y"
  proof -
    have "(of_char y :: nat) \<noteq> 0" using y of_char_NUL by blast
    then show ?thesis by (simp add: char_less_of_char)
  qed
  show ?case
  proof (cases p)
    case Nil
    then show ?thesis using strncmp_step [OF y, of p q] small by simp
  next
    case (Cons x u)
    then have ih: "(strncmp u q (length q) < 0 \<longleftrightarrow> u < q) \<and>
        (strncmp u q (length q) = 0 \<longleftrightarrow> take (length q) u = q) \<and>
        (strncmp u q (length q) > 0 \<longleftrightarrow> q < u \<and> take (length q) u \<noteq> q)"
      using Cons.IH [of u] Cons.prems by auto
    show ?thesis using strncmp_step [OF y, of p q] ih Cons by (auto simp del: strncmp.simps)
  qed
qed auto

lemma take_prefix_less: "take (length q) p = q \<Longrightarrow> length q \<noteq> length p \<Longrightarrow> q < (p :: string)"
proof -
  assume t: "take (length q) p = q" and l: "length q \<noteq> length p"
  then have "p = q @ drop (length q) p" by (metis append_take_drop_id)
  moreover have "drop (length q) p \<noteq> []" using t l by auto
  moreover have "q < q @ r" if "r \<noteq> []" for r using that by (induction q) (auto simp: neq_Nil_conv)
  ultimately show ?thesis by metis
qed

text \<open>The comparison of the main loop decides the order.\<close>

lemma path_cmp_order:
  assumes "NUL \<notin> set p" "NUL \<notin> set q" "q \<noteq> []"
  shows "path_cmp (Some p) False q < 0 \<longleftrightarrow> p < q"
    "path_cmp (Some p) False q = 0 \<longleftrightarrow> p = q"
    "path_cmp (Some p) False q > 0 \<longleftrightarrow> q < p"
proof -
  note o = strncmp_order [OF assms(1,2)]
  define n where "n = strncmp p q (length q)"
  have pc: "path_cmp (Some p) False q = (if n = 0 \<and> length q \<noteq> length p then int (length q) else n)"
    by (simp add: path_cmp_def n_def Let_def)
  have all: "(path_cmp (Some p) False q < 0 \<longleftrightarrow> p < q) \<and> (path_cmp (Some p) False q = 0 \<longleftrightarrow> p = q)"
  proof (cases "n = 0")
    case True
    then have t: "take (length q) p = q" "\<not> p < q" using o by (auto simp: n_def)
    have "p = q \<longleftrightarrow> length q = length p" using t(1) by (metis take_all order_refl)
    then show ?thesis using True t(2) assms(3) by (auto simp: pc)
  next
    case False
    then have "p \<noteq> q" using o by (auto simp: n_def)
    then show ?thesis using False o by (simp add: pc n_def)
  qed
  then show "path_cmp (Some p) False q < 0 \<longleftrightarrow> p < q" "path_cmp (Some p) False q = 0 \<longleftrightarrow> p = q"
    by simp_all
  have "path_cmp (Some p) False q > 0 \<longleftrightarrow> \<not> (path_cmp (Some p) False q < 0 \<or> path_cmp (Some p) False q = 0)"
    by linarith
  also have "\<dots> \<longleftrightarrow> q < p" using all by (metis less_asym neqE)
  finally show "path_cmp (Some p) False q > 0 \<longleftrightarrow> q < p" .
qed

section \<open>Lines of a database\<close>

text \<open>A line: an absolute path, a blank or an equals sign, the rest, a newline.\<close>

definition line_ok :: "string \<Rightarrow> bool" where
  "line_ok l \<longleftrightarrow> (\<exists>q x b. l = SLASH # q @ x # b @ [NL] \<and> (\<forall>c \<in> set q. \<not> ispathsep c) \<and>
     (x = SP \<or> x = CHR ''='') \<and> NL \<notin> set b \<and> NUL \<notin> set b)"

definition line_path :: "string \<Rightarrow> string" where
  "line_path l = takeWhile (\<lambda>c. \<not> ispathsep c) l"

text \<open>The comment lines that may follow the entries.\<close>

definition comment_ok :: "string \<Rightarrow> bool" where
  "comment_ok l \<longleftrightarrow> (\<exists>b. l = CHR ''#'' # b @ [NL] \<and> NL \<notin> set b \<and> NUL \<notin> set b)"

text \<open>
  The buffer of a database: the text before the cursor, the entries from the cursor on, comment
  lines, the terminating NUL, the rest of the allocation; \<open>off\<close> is the offset of a line.
\<close>

definition cf_mem :: "string \<Rightarrow> string list \<Rightarrow> string list \<Rightarrow> string \<Rightarrow> string" where
  "cf_mem pre ls cs junk = pre @ concat ls @ concat cs @ NUL # junk"

definition off :: "string \<Rightarrow> string list \<Rightarrow> nat \<Rightarrow> nat" where
  "off pre ls k = length pre + length (concat (take k ls))"

definition lines_ok :: "string list \<Rightarrow> string list \<Rightarrow> bool" where
  "lines_ok ls cs \<longleftrightarrow> (\<forall>l \<in> set ls. line_ok l) \<and> (\<forall>c \<in> set cs. comment_ok c)"

text \<open>End and high water mark are at the last byte, as \<open>vfpOpen\<close> leaves them.\<close>

definition cf_at :: "vfp \<Rightarrow> string \<Rightarrow> string list \<Rightarrow> string list \<Rightarrow> string \<Rightarrow> bool" where
  "cf_at v pre ls cs junk \<longleftrightarrow>
     vMem v = cf_mem pre ls cs junk \<and> vCurr v = int (length pre) \<and>
     vHighWater v = int (length pre + length (concat ls) + length (concat cs)) - 1 \<and> vEnd v = vHighWater v"

lemma line_okE:
  assumes "line_ok l"
  obtains q x b where "l = line_path l @ x # b @ [NL]" "line_path l = SLASH # q" "x = SP \<or> x = CHR ''=''"
    "NL \<notin> set b" "NUL \<notin> set b" "\<forall>c \<in> set (line_path l). \<not> ispathsep c"
proof -
  from assms obtain q x b where l: "l = SLASH # q @ x # b @ [NL]" "\<forall>c \<in> set q. \<not> ispathsep c"
    "x = SP \<or> x = CHR ''=''" "NL \<notin> set b" "NUL \<notin> set b" unfolding line_ok_def by blast
  have "ispathsep x" "\<not> ispathsep SLASH" using l(3) by (auto simp: ispathsep_def)
  then have "line_path l = SLASH # q" unfolding line_path_def l(1) using l(2) by (simp add: takeWhile_append2)
  then show thesis using that [of x b q] l \<open>\<not> ispathsep SLASH\<close> by auto
qed

lemma pathsep_free: "\<forall>c \<in> set p. \<not> ispathsep c \<Longrightarrow> NUL \<notin> set p \<and> NL \<notin> set p"
  by (auto simp: ispathsep_def)

lemma line_free: assumes "line_ok l" shows "NUL \<notin> set l" "NL \<notin> set (butlast l)" "last l = NL" "l \<noteq> []" "hd l = SLASH"
proof -
  obtain q x b where l: "l = line_path l @ x # b @ [NL]" "line_path l = SLASH # q" "x = SP \<or> x = CHR ''=''"
    "NL \<notin> set b" "NUL \<notin> set b" "\<forall>c \<in> set (line_path l). \<not> ispathsep c" by (rule line_okE [OF assms])
  note f = pathsep_free [OF l(6)]
  have s: "set l = set (line_path l) \<union> {x} \<union> set b \<union> {NL}" by (subst l(1)) auto
  show "NUL \<notin> set l" unfolding s using f l(3,5) by auto
  have "butlast l = line_path l @ x # b" by (subst l(1)) (simp add: butlast_append)
  then show "NL \<notin> set (butlast l)" using f l(3,4) by auto
  show "last l = NL" by (subst l(1)) simp
  show "l \<noteq> []" by (subst l(1)) simp
  show "hd l = SLASH" by (subst l(1)) (simp add: l(2))
qed

lemma comment_free:
  assumes "comment_ok l"
  shows "NUL \<notin> set l" "NL \<notin> set (butlast l)" "last l = NL" "l \<noteq> []" "hd l = CHR ''#''"
  using assms by (auto simp: comment_ok_def)

lemma lines_free: "lines_ok ls cs \<Longrightarrow> NUL \<notin> set (concat ls) \<and> NUL \<notin> set (concat cs)"
  using line_free(1) comment_free(1) by (auto simp: lines_ok_def)

lemma takeWhile_all: "NUL \<notin> set t \<Longrightarrow> takeWhile (\<lambda>c. c \<noteq> NUL) (t @ NUL # junk) = t"
  by (induction t) auto

lemma str_at_file:
  "NUL \<notin> set t \<Longrightarrow> str_at (pre @ t @ NUL # junk) (length pre) = t"
  by (simp add: str_at_def takeWhile_all)

lemma takeWhile_line: "line_ok l \<Longrightarrow> takeWhile (\<lambda>c. \<not> ispathsep c) (l @ rst) = line_path l"
  unfolding line_path_def
proof (rule takeWhile_append1)
  assume "line_ok l"
  then show "NL \<in> set l" using line_free(3,4) by (metis last_in_set)
qed (simp add: ispathsep_def)

text \<open>Line \<open>k\<close> in the buffer.\<close>

lemma cf_mem_split:
  assumes "k < length ls"
  shows "cf_mem pre ls cs junk =
    (pre @ concat (take k ls)) @ (ls ! k @ concat (drop (Suc k) ls) @ concat cs) @ NUL # junk"
  using id_take_nth_drop [OF assms] unfolding cf_mem_def
  by (metis append.assoc concat.simps(2) concat_append)

lemma off_length: "length (pre @ concat (take k ls)) = off pre ls k"
  by (simp add: off_def)

lemma off_simps [simp]: "off pre ls 0 = length pre" "off pre (l # ls) (Suc k) = off (pre @ l) ls k"
  by (simp_all add: off_def)

lemma off_Suc: "k < length ls \<Longrightarrow> off pre ls (Suc k) = off pre ls k + length (ls ! k)"
  by (simp add: off_def take_Suc_conv_app_nth)

lemma str_at_line:
  assumes "lines_ok ls cs" "k < length ls"
  shows "str_at (cf_mem pre ls cs junk) (off pre ls k) = ls ! k @ concat (drop (Suc k) ls) @ concat cs"
proof -
  have "NUL \<notin> set (ls ! k @ concat (drop (Suc k) ls) @ concat cs)"
    using lines_free [OF assms(1)] assms(2) by (auto dest: in_set_dropD)
  then show ?thesis unfolding cf_mem_split [OF assms(2)] by (metis str_at_file off_length)
qed

lemma path_at_line:
  assumes "lines_ok ls cs" "k < length ls"
  shows "path_at (cf_mem pre ls cs junk) (off pre ls k) = line_path (ls ! k)"
  using assms takeWhile_line by (simp add: path_at_def str_at_line lines_ok_def)

section \<open>Where the narrowed search starts\<close>

definition textline :: "string \<Rightarrow> bool" where
  "textline l \<longleftrightarrow> l \<noteq> [] \<and> last l = NL \<and> NL \<notin> set (butlast l)"

lemma lines_textline: "lines_ok ls cs \<Longrightarrow> \<forall>l \<in> set (ls @ cs). textline l"
  using line_free comment_free by (fastforce simp: lines_ok_def textline_def)

lemma line_starts:
  assumes "\<forall>l \<in> set xs. textline l" "length pre < i" "i < length pre + length (concat xs)"
    "(pre @ concat xs @ rst) ! (i - 1) = NL"
  shows "\<exists>k. 0 < k \<and> k < length xs \<and> i = off pre xs k"
  using assms
proof (induction xs arbitrary: pre)
  case (Cons x xs)
  consider "i < length pre + length x" | "i = length pre + length x" | "i > length (pre @ x)" by fastforce
  then show ?case
  proof cases
    case 1
    let ?j = "i - 1 - length pre"
    have "?j < length (butlast x)" using 1 Cons.prems(2) by auto
    then have "butlast x ! ?j \<in> set (butlast x)" "butlast x ! ?j = x ! ?j"
      using nth_mem nth_butlast by blast+
    moreover have "(pre @ concat (x # xs) @ rst) ! (i - 1) = x ! ?j"
      using 1 Cons.prems(2) by (auto simp: nth_append)
    ultimately show ?thesis using Cons.prems(1,4) by (auto simp: textline_def)
  next
    case 2
    then have "xs \<noteq> []" using Cons.prems(3) by auto
    then show ?thesis using 2 by (intro exI [of _ 1]) auto
  next
    case 3
    then obtain k where "0 < k" "k < length xs" "i = off (pre @ x) xs k"
      using Cons.IH [of "pre @ x"] Cons.prems by auto
    then show ?thesis by (intro exI [of _ "Suc k"]) auto
  qed
qed simp

lemma nth_line_hd:
  assumes "k < length xs" "xs ! k \<noteq> []"
  shows "(pre @ concat xs @ rst) ! off pre xs k = hd (xs ! k)"
proof -
  have "pre @ concat xs @ rst = (pre @ concat (take k xs)) @ (xs ! k @ concat (drop (Suc k) xs) @ rst)"
    using id_take_nth_drop [OF assms(1)] by (metis append.assoc concat.simps(2) concat_append)
  also have "\<dots> ! off pre xs k = hd (xs ! k)"
    unfolding off_length [symmetric] nth_append_length_plus [of _ _ 0, simplified] using assms(2)
    by (simp add: hd_conv_nth nth_append)
  finally show ?thesis .
qed

lemma deref_at_nth: "i < length m \<Longrightarrow> deref_at m i = m ! i"
  by (simp add: deref_at_def Cons_nth_drop_Suc [symmetric])

text \<open>The starts of entries are the only places after a newline with a slash.\<close>

lemma entry_starts:
  assumes ok: "lines_ok ls cs" and m: "m = cf_mem pre ls cs junk"
    and i: "length pre < i" "i < length pre + length (concat ls) + length (concat cs)"
    and at: "deref_at m i = SLASH" "deref_at m (i - 1) = NL"
  shows "\<exists>k. 0 < k \<and> k < length ls \<and> i = off pre ls k"
proof -
  let ?xs = "ls @ cs"
  have m': "m = pre @ concat ?xs @ NUL # junk" using m by (simp add: cf_mem_def)
  have len: "i < length m" using i m by (simp add: cf_mem_def)
  then have n: "m ! i = SLASH" "m ! (i - 1) = NL" using at by (simp_all add: deref_at_nth)
  obtain k where k: "0 < k" "k < length ?xs" "i = off pre ?xs k"
    using line_starts [OF lines_textline [OF ok], of pre i "NUL # junk"] i n(2) m' by auto
  have ne: "?xs ! k \<noteq> []" using lines_textline [OF ok] k(2) by (metis nth_mem textline_def)
  then have h: "hd (?xs ! k) = SLASH" using nth_line_hd [OF k(2) ne, of pre "NUL # junk"] n(1) m' k(3) by simp
  have "k < length ls"
  proof (rule ccontr)
    assume "\<not> k < length ls"
    then have "?xs ! k \<in> set cs" using k(2) by (simp add: nth_append)
    then show False using ok h comment_free(5) by (fastforce simp: lines_ok_def)
  qed
  then show ?thesis using k by (auto simp: off_def)
qed

lemma back_up_stop:
  assumes "plow \<le> pmid"
  shows "back_up m plow pmid = plow \<or> (plow < back_up m plow pmid \<and>
    deref_at m (back_up m plow pmid) = SLASH \<and> deref_at m (back_up m plow pmid - 1) = NL)"
  using assms
proof (induction m plow pmid rule: back_up.induct)
  case (1 m plow pmid)
  show ?case
  proof (cases "pmid > plow \<and> \<not> (deref_at m pmid = SLASH \<and> deref_at m (pmid - 1) = NL)")
    case True
    then have "back_up m plow pmid = back_up m plow (pmid - 1)" by (subst back_up.simps) simp
    moreover from True have "plow < pmid" by blast
    then have "plow \<le> pmid - 1" by arith
    ultimately show ?thesis using "1.IH" [OF True] by metis
  next
    case False
    then have "back_up m plow pmid = pmid" by (subst back_up.simps) (simp only: if_False)
    then show ?thesis using False 1(2) by force
  qed
qed

lemma strncmp_take: "strncmp a b n = strncmp a (take n b) n"
proof (induction a b n rule: strncmp.induct)
  case (2 a b n)
  then show ?case by (cases b) (auto simp: Let_def)
qed simp

text \<open>The comparison at an entry.\<close>

lemma ns_cmp_line:
  assumes "lines_ok ls cs" "k < length ls" "NUL \<notin> set a"
  shows "ns_cmp (cf_mem pre ls cs junk) (off pre ls k) a = None \<longleftrightarrow> a = line_path (ls ! k)"
    "ns_cmp (cf_mem pre ls cs junk) (off pre ls k) a = Some n \<Longrightarrow> 0 < n \<Longrightarrow> line_path (ls ! k) < a"
    "ns_cmp (cf_mem pre ls cs junk) (off pre ls k) a = Some n \<Longrightarrow> n \<le> 0 \<Longrightarrow> a < line_path (ls ! k) \<or> a = []"
proof -
  let ?q = "line_path (ls ! k)"
  have ok: "line_ok (ls ! k)" using assms by (simp add: lines_ok_def)
  obtain q x b where l: "ls ! k = ?q @ x # b @ [NL]" "?q = SLASH # q" "x = SP \<or> x = CHR ''=''"
    "NL \<notin> set b" "NUL \<notin> set b" "\<forall>c \<in> set ?q. \<not> ispathsep c" by (rule line_okE [OF ok])
  have q: "NUL \<notin> set ?q" using pathsep_free [OF l(6)] by simp
  have t: "take (length ?q) (ls ! k @ r) = ?q" for r by (subst l(1)) simp
  define n0 where "n0 = strncmp a ?q (length ?q)"
  have ns: "ns_cmp (cf_mem pre ls cs junk) (off pre ls k) a =
      (if n0 = 0 then (if length a = length ?q then None else Some (int (length a))) else Some n0)"
    unfolding ns_cmp_def path_at_line [OF assms(1,2)] str_at_line [OF assms(1,2)] Let_def
    by (subst (1 2) strncmp_take) (simp only: t n0_def)
  note o = strncmp_order [OF assms(3) q, folded n0_def]
  have eq: "take (length ?q) a = ?q \<Longrightarrow> length a = length ?q \<Longrightarrow> a = ?q" by simp
  have gt: "take (length ?q) a = ?q \<Longrightarrow> length a \<noteq> length ?q \<Longrightarrow> ?q < a"
    using take_prefix_less by metis
  have self: "a = ?q \<Longrightarrow> n0 = 0" using o by simp
  show "ns_cmp (cf_mem pre ls cs junk) (off pre ls k) a = None \<longleftrightarrow> a = ?q"
    unfolding ns using o eq self by (simp split: if_splits) blast
  show "?q < a" if "ns_cmp (cf_mem pre ls cs junk) (off pre ls k) a = Some n" "0 < n"
    using that o gt unfolding ns by (simp split: if_splits)
  show "a < ?q \<or> a = []" if "ns_cmp (cf_mem pre ls cs junk) (off pre ls k) a = Some n" "n \<le> 0"
    using that o unfolding ns by (auto split: if_splits)
qed

text \<open>A place where the search may start: an entry, the first one or one that is not greater.\<close>

definition lands :: "string \<Rightarrow> string list \<Rightarrow> string \<Rightarrow> nat \<Rightarrow> bool" where
  "lands pre ls a i \<longleftrightarrow> (\<exists>k < length ls. i = off pre ls k \<and> (k = 0 \<or> line_path (ls ! k) \<le> a))"

lemma lands_ge: "lands pre ls a i \<Longrightarrow> length pre \<le> i"
  by (auto simp: lands_def off_def)

lemma lands_cmp:
  assumes ok: "lines_ok ls cs" "NUL \<notin> set a" "m = cf_mem pre ls cs junk"
    and i: "length pre < i" "i < length pre + length (concat ls) + length (concat cs)"
    and at: "deref_at m i = SLASH" "deref_at m (i - 1) = NL"
    and c: "ns_cmp m i a = None \<or> (\<exists>n > 0. ns_cmp m i a = Some n)"
  shows "lands pre ls a i"
proof -
  obtain k where k: "k < length ls" "i = off pre ls k"
    using entry_starts [OF ok(1,3) i at] by blast
  have "line_path (ls ! k) \<le> a"
    using c ns_cmp_line(1,2) [OF ok(1) k(1) ok(2), of pre junk] k(2) ok(3) by auto
  then show ?thesis using k by (auto simp: lands_def)
qed

lemma ns_loop_lands:
  assumes "lines_ok ls cs" "NUL \<notin> set a" "m = cf_mem pre ls cs junk"
    "lands pre ls a plow" "phigh < length pre + length (concat ls) + length (concat cs)"
  shows "lands pre ls a (ns_loop m a plow phigh)"
  using assms
proof (induction m a plow phigh rule: ns_loop.induct)
  case (1 m a plow phigh)
  define pm where "pm = back_up m plow (plow + (phigh - plow) div 2)"
  have step: "ns_loop m a plow phigh = (if pm \<le> plow then plow else case ns_cmp m pm a of None \<Rightarrow> pm
      | Some n \<Rightarrow> if n > 0 then ns_loop m a pm phigh else ns_loop m a plow pm)"
    by (subst ns_loop.simps) (simp only: pm_def Let_def)
  show ?case
  proof (cases "pm \<le> plow")
    case False
    have low: "plow < pm" "pm < phigh" using back_up_mid [OF pm_def False] by simp_all
    have stop: "deref_at m pm = SLASH" "deref_at m (pm - 1) = NL"
      using back_up_stop [of plow "plow + (phigh - plow) div 2" m] False by (auto simp: pm_def)
    have "length pre < pm" using lands_ge [OF "1.prems"(4)] low by simp
    then have land: "lands pre ls a pm" if "ns_cmp m pm a = None \<or> (\<exists>n > 0. ns_cmp m pm a = Some n)"
      using lands_cmp [OF "1.prems"(1-3) _ _ stop that] low "1.prems"(5) by simp
    show ?thesis
    proof (cases "ns_cmp m pm a")
      case (Some n)
      then show ?thesis
        using "1.IH" [OF pm_def False Some] land "1.prems" low step False by (cases "n > 0") auto
    qed (use land step False in simp)
  qed (use "1.prems" step in simp)
qed

lemma narrowSearch_lands:
  assumes at: "cf_at v pre ls cs junk" "lines_ok ls cs" "ls \<noteq> []" "NUL \<notin> set a" "a \<noteq> []"
  shows "\<exists>i. narrowSearch v (Some a) = Some i \<and> lands pre ls a i"
proof -
  let ?m = "cf_mem pre ls cs junk" and ?h = "nat (vHighWater v)" and ?p = "length pre"
  obtain l ls' where ls: "ls = l # ls'" using at(3) by (cases ls) auto
  then have l: "line_ok l" using at(2) by (simp add: lines_ok_def)
  have v: "vMem v = ?m" "vpos v = ?p" using at(1) by (simp_all add: cf_at_def vpos_def)
  obtain q x b where lx: "l = line_path l @ x # b @ [NL]" "line_path l = SLASH # q" by (rule line_okE [OF l])
  have "length l = length (line_path l @ x # b @ [NL])" using lx(1) by (rule arg_cong)
  then have len: "length l \<ge> 3" unfolding lx(2) by simp
  have rem: "\<not> vfpGetBytesRemaining v \<le> 1" "?h < ?p + length (concat ls) + length (concat cs)" "?p \<le> ?h"
    using at(1) len ls by (auto simp: vfpGetBytesRemaining_def cf_at_def)
  have "?m ! ?p = SLASH" using line_free(4,5) [OF l] ls by (simp add: cf_mem_def nth_append hd_conv_nth)
  then have sl: "deref_at ?m ?p = SLASH" by (simp add: deref_at_nth cf_mem_def)
  have first: "lands pre ls a ?p" using at(3) by (auto simp: lands_def)
  have loop: "lands pre ls a (ns_loop ?m a ?p ?h)"
    using ns_loop_lands [OF at(2,4) refl first rem(2)] .
  define pl where "pl = back_up ?m ?p ?h"
  have pl: "lands pre ls a pl" if th1: "pl > ?p" and th2: "ns_cmp ?m pl a = None \<or> (\<exists>n \<ge> 0. ns_cmp ?m pl a = Some n)"
  proof -
    have s: "deref_at ?m pl = SLASH" "deref_at ?m (pl - 1) = NL"
      using back_up_stop [OF rem(3), of ?m] th1 by (auto simp: pl_def)
    have le: "pl < ?p + length (concat ls) + length (concat cs)"
      using back_up_le [of ?m ?p ?h] rem(2) by (simp add: pl_def)
    obtain k where k: "k < length ls" "pl = off pre ls k"
      using entry_starts [OF at(2) refl th1 le s] by blast
    have "ns_cmp ?m pl a \<noteq> Some 0"
      using ns_cmp_line(2,3) [OF at(2) k(1) at(4), of pre junk 0] k(2) at(5) by (auto simp: ns_cmp_def Let_def)
    then have "ns_cmp ?m pl a = None \<or> (\<exists>n > 0. ns_cmp ?m pl a = Some n)" using th2 by force
    then show ?thesis using lands_cmp [OF at(2,4) refl th1 le s] by blast
  qed
  show ?thesis
    using first loop pl sl at(5) rem(1) v
    by (auto simp: narrowSearch_def Let_def pl_def [symmetric] split: option.splits)
qed

section \<open>The main loop\<close>

lemma str_at_add:
  assumes "j \<le> length (str_at m i)" shows "str_at m (i + j) = drop j (str_at m i)"
proof -
  let ?P = "\<lambda>c. c \<noteq> NUL" and ?D = "dropWhile (\<lambda>c. c \<noteq> NUL) (drop i m)"
  have e: "drop i m = str_at m i @ ?D" by (simp add: str_at_def)
  have "drop (i + j) m = drop j (drop i m)" by (simp add: add.commute)
  also have "\<dots> = drop j (str_at m i) @ ?D" by (subst e) (simp add: assms)
  finally have d: "drop (i + j) m = drop j (str_at m i) @ ?D" .
  have "NUL \<notin> set (str_at m i)" by (auto simp: str_at_def dest: set_takeWhileD)
  then have "NUL \<notin> set (drop j (str_at m i))" by (meson in_set_dropD)
  then have "takeWhile ?P (drop j (str_at m i) @ ?D) = drop j (str_at m i) @ takeWhile ?P ?D"
    by (intro takeWhile_append2) auto
  moreover have "takeWhile ?P ?D = []" by (metis hd_dropWhile takeWhile_eq_Nil_iff)
  ultimately show ?thesis using d by (simp add: str_at_def [of m "i + j"])
qed

lemma vInc_within:
  "vCurr v + n \<le> vEnd v \<Longrightarrow> vCurr v + n \<le> vHighWater v \<Longrightarrow> vfpIncCurrPtrBy v n = v\<lparr>vCurr := vCurr v + n\<rparr>"
  by (simp add: vfpIncCurrPtrBy_def)

lemma strchr_line: "c \<notin> set b \<Longrightarrow> strchr (b @ c # r) c = Some (c # r)"
  by (induction b) (auto simp: strchr_def)

lemma off_line_le: "k < length ls \<Longrightarrow> off pre ls k + length (ls ! k) \<le> length pre + length (concat ls)"
proof -
  assume k: "k < length ls"
  have "length (concat ls) = length (concat (take k ls)) + length (ls ! k) + length (concat (drop (Suc k) ls))"
    by (subst id_take_nth_drop [OF k]) simp
  then show ?thesis by (simp add: off_def)
qed

text \<open>The search at entry \<open>k\<close>: everything before is skipped, if there is a file to copy it to.\<close>

definition at_line :: "vfp \<Rightarrow> string \<Rightarrow> string list \<Rightarrow> nat \<Rightarrow> srch \<Rightarrow> bool" where
  "at_line v pre ls k s \<longleftrightarrow>
     s_v s = v\<lparr>vCurr := int (off pre ls k)\<rparr> \<and> s_first s = length pre \<and>
     (s_tmp s \<noteq> None \<longrightarrow> s_skip s \<and> s_last s = off pre ls k)"

definition past_path :: "vfp \<Rightarrow> string \<Rightarrow> string list \<Rightarrow> nat \<Rightarrow> srch \<Rightarrow> srch" where
  "past_path v pre ls k s = s\<lparr>s_v := v\<lparr>vCurr := int (off pre ls k + length (line_path (ls ! k)))\<rparr>,
     s_e := (s_e s)\<lparr>path := Some []\<rparr>\<rparr>"

lemma round_line:
  assumes cf: "cf_at v pre ls cs junk" "lines_ok ls cs" and k: "k < length ls" and at: "at_line v pre ls k s"
  shows "srch_round (Some a) False s =
    srch_entry (Some a) False False (off pre ls k) (line_path (ls ! k)) (past_path v pre ls k s)"
proof -
  let ?m = "cf_mem pre ls cs junk" and ?o = "off pre ls k" and ?q = "line_path (ls ! k)"
  have ok: "line_ok (ls ! k)" using cf(2) k by (simp add: lines_ok_def)
  obtain q x b where l: "ls ! k = ?q @ x # b @ [NL]" "?q = SLASH # q" "x = SP \<or> x = CHR ''=''"
    "NL \<notin> set b" "NUL \<notin> set b" "\<forall>c \<in> set ?q. \<not> ispathsep c" by (rule line_okE [OF ok])
  have len: "length (ls ! k) = length ?q + length b + 2" by (subst l(1)) simp
  have le: "?o + length (ls ! k) \<le> length pre + length (concat ls) + length (concat cs)"
    using off_line_le [OF k, of pre] by simp
  have m: "?m = (pre @ concat (take k ls)) @ ?q @ x # b @ NL # concat (drop (Suc k) ls) @ concat cs @ NUL # junk"
    unfolding cf_mem_split [OF k] by (subst l(1)) simp
  have d: "deref_at ?m ?o = SLASH" "deref_at ?m (?o + length ?q) = x"
    unfolding m by (simp_all add: deref_at_def off_length [symmetric] l(2))
  have inc: "vfpIncCurrPtrBy (v\<lparr>vCurr := int ?o\<rparr>) (int (length ?q)) = v\<lparr>vCurr := int (?o + length ?q)\<rparr>"
    using cf(1) le len by (subst vInc_within) (auto simp: cf_at_def)
  have rem: "\<not> vfpGetBytesRemaining (v\<lparr>vCurr := int ?o\<rparr>) \<le> 0"
    using cf(1) le len by (auto simp: vfpGetBytesRemaining_def cf_at_def)
  have sv: "s_v s = v\<lparr>vCurr := int ?o\<rparr>" "vMem v = ?m" using at cf(1) by (simp_all add: at_line_def cf_at_def)
  show ?thesis using d l(3) rem
    by (auto simp: srch_round_def sv vpos_def path_at_line [OF cf(2) k] inc past_path_def Let_def nat_int_add)
qed

text \<open>The text behind the path of an entry.\<close>

definition line_tail :: "string \<Rightarrow> string" where
  "line_tail l = drop (length (line_path l)) l"

lemma line_tailE:
  assumes "line_ok l"
  obtains x b where "line_tail l = x # b @ [NL]" "x = SP \<or> x = CHR ''=''" "NL \<notin> set b" "NUL \<notin> set b"
    "l = line_path l @ line_tail l" "length l = length (line_path l) + length b + 2"
proof -
  obtain q x b where l: "l = line_path l @ x # b @ [NL]" "x = SP \<or> x = CHR ''=''"
    "NL \<notin> set b" "NUL \<notin> set b" by (rule line_okE [OF assms])
  have "line_tail l = x # b @ [NL]" unfolding line_tail_def by (subst l(1)) (simp add: append_eq_conv_conj)
  then show thesis using that [of x b] l by (metis length_append length_Cons length_append_singleton
    add_Suc_right add_2_eq_Suc')
qed

lemma str_at_in_line:
  assumes "lines_ok ls cs" "k < length ls" "j \<le> length (ls ! k)"
  shows "str_at (cf_mem pre ls cs junk) (off pre ls k + j) =
    drop j (ls ! k) @ concat (drop (Suc k) ls) @ concat cs"
  using assms by (subst str_at_add) (simp_all add: str_at_line)

lemma vrest_tail:
  assumes cf: "cf_at v pre ls cs junk" "lines_ok ls cs" and k: "k < length ls"
  shows "vrest (v\<lparr>vCurr := int (off pre ls k + length (line_path (ls ! k)) + 1)\<rparr>) =
    tl (line_tail (ls ! k)) @ concat (drop (Suc k) ls) @ concat cs"
proof -
  have ok: "line_ok (ls ! k)" using cf(2) k by (simp add: lines_ok_def)
  have l: "length (line_path (ls ! k)) < length (ls ! k)" by (rule line_tailE [OF ok]) simp
  have "str_at (cf_mem pre ls cs junk) (off pre ls k + (length (line_path (ls ! k)) + 1)) =
      drop (length (line_path (ls ! k)) + 1) (ls ! k) @ concat (drop (Suc k) ls) @ concat cs"
    by (rule str_at_in_line [OF cf(2) k]) (use l in simp)
  then show ?thesis using cf(1)
    by (simp add: vrest_def vpos_def cf_at_def line_tail_def nat_add_distrib add.assoc tl_drop drop_Suc)
qed

text \<open>Where the search goes after an entry it passes: the next line, or the last newline of the file.\<close>

definition after_line :: "vfp \<Rightarrow> string \<Rightarrow> string list \<Rightarrow> string list \<Rightarrow> nat \<Rightarrow> vfp" where
  "after_line v pre ls cs k =
     (if Suc k = length ls \<and> cs = [] then v\<lparr>vCurr := vEnd v, vOverflow := True\<rparr>
      else v\<lparr>vCurr := int (off pre ls (Suc k))\<rparr>)"

lemma concat_pos: "lines_ok ls cs \<Longrightarrow> (ls \<noteq> [] \<longrightarrow> 0 < length (concat ls)) \<and> (cs \<noteq> [] \<longrightarrow> 0 < length (concat cs))"
  using line_free(4) comment_free(4) by (cases ls; cases cs) (auto simp: lines_ok_def)

lemma skip_line_after:
  assumes cf: "cf_at v pre ls cs junk" "lines_ok ls cs" and k: "k < length ls"
  shows "skip_line (v\<lparr>vCurr := int (off pre ls k + length (line_path (ls ! k)) + 1)\<rparr>) = after_line v pre ls cs k"
proof -
  let ?i = "off pre ls k + length (line_path (ls ! k)) + 1" and ?R = "concat (drop (Suc k) ls) @ concat cs"
  have ok: "line_ok (ls ! k)" using cf(2) k by (simp add: lines_ok_def)
  obtain x b where l: "line_tail (ls ! k) = x # b @ [NL]" "x = SP \<or> x = CHR ''=''" "NL \<notin> set b" "NUL \<notin> set b"
    "ls ! k = line_path (ls ! k) @ line_tail (ls ! k)" "length (ls ! k) = length (line_path (ls ! k)) + length b + 2"
    by (rule line_tailE [OF ok])
  have r: "vrest (v\<lparr>vCurr := int ?i\<rparr>) = b @ NL # ?R" unfolding vrest_tail [OF cf k] by (simp add: l(1))
  have len: "length pre + length (concat ls) = off pre ls (Suc k) + length (concat (drop (Suc k) ls))"
    unfolding off_def by (metis add.assoc append_take_drop_id concat_append length_append)
  have s: "off pre ls (Suc k) = ?i + length b + 1" using off_Suc [OF k, of pre] l(6) by simp
  have e: "skip_line (v\<lparr>vCurr := int ?i\<rparr>) = vfpIncCurrPtrBy (v\<lparr>vCurr := int ?i\<rparr>) (int (length b) + 1)"
    by (simp only: skip_line_def r strchr_line [OF l(3)]) simp
  show ?thesis
  proof (cases "Suc k = length ls \<and> cs = []")
    case True
    then have "vEnd v = int (off pre ls (Suc k)) - 1" "vHighWater v = vEnd v" using cf(1) len by (simp_all add: cf_at_def)
    then show ?thesis using True s unfolding e by (simp add: vfpIncCurrPtrBy_def after_line_def)
  next
    case False
    then have pos: "0 < length (concat (drop (Suc k) ls)) + length (concat cs)"
    proof (cases "Suc k = length ls")
      case True
      then show ?thesis using False concat_pos [OF cf(2)] by auto
    next
      case False
      then have "drop (Suc k) ls \<noteq> []" using k by simp
      moreover have "lines_ok (drop (Suc k) ls) cs" using cf(2) by (auto simp: lines_ok_def dest: in_set_dropD)
      ultimately show ?thesis using concat_pos by fastforce
    qed
    have "vEnd v = int (length pre + length (concat ls) + length (concat cs)) - 1" "vHighWater v = vEnd v"
      using cf(1) by (simp_all add: cf_at_def)
    then have "int (off pre ls (Suc k)) \<le> vEnd v" "vHighWater v = vEnd v" using pos unfolding len by linarith+
    then show ?thesis using False s unfolding e
      by (subst vInc_within) (auto simp: after_line_def)
  qed
qed

lemma line_path_props:
  assumes "line_ok l" shows "line_path l \<noteq> []" "NUL \<notin> set (line_path l)"
  using line_okE [OF assms] pathsep_free by (metis list.distinct(1))+

lemma vset_inc: "vset (vpos (v\<lparr>vCurr := int i\<rparr>) + 1) (v\<lparr>vCurr := int i\<rparr>) = v\<lparr>vCurr := int (i + 1)\<rparr>"
  by (simp add: vset_def vpos_def)

text \<open>An entry before the path is passed.\<close>

lemma round_less:
  assumes cf: "cf_at v pre ls cs junk" "lines_ok ls cs" and k: "k < length ls" and at: "at_line v pre ls k s"
    and a: "NUL \<notin> set a" "line_path (ls ! k) < a"
  shows "\<exists>s'. srch_round (Some a) False s = Inr (Again s') \<and> s_v s' = after_line v pre ls cs k \<and>
     s_e s' = (s_e s)\<lparr>path := Some []\<rparr> \<and> s_tmp s' = s_tmp s \<and> s_first s' = length pre \<and>
     (s_tmp s \<noteq> None \<longrightarrow> s_skip s' \<and> s_last s' = vpos (after_line v pre ls cs k))"
proof -
  have ok: "line_ok (ls ! k)" using cf(2) k by (simp add: lines_ok_def)
  obtain x b where l: "line_tail (ls ! k) = x # b @ [NL]" "NL \<notin> set b" by (rule line_tailE [OF ok])
  have n: "path_cmp (Some a) False (line_path (ls ! k)) > 0"
    using path_cmp_order(3) [OF a(1) line_path_props(2,1) [OF ok]] a(2) by simp
  have r: "strchr (vrest (v\<lparr>vCurr := int (off pre ls k + length (line_path (ls ! k)) + 1)\<rparr>)) NL \<noteq> None"
    unfolding vrest_tail [OF cf k] using l strchr_line [OF l(2)] by simp
  define i where "i = off pre ls k + length (line_path (ls ! k))"
  note after = skip_line_after [OF cf k, folded i_def]
  show ?thesis
    using at n r unfolding round_line [OF cf k at] srch_entry_def past_path_def i_def [symmetric]
    by (cases "s_tmp s") (auto simp: Let_def vset_inc [simplified] after [simplified] srch_skip_def at_line_def)
qed

text \<open>An entry behind the path ends the search.\<close>

lemma round_greater:
  assumes cf: "cf_at v pre ls cs junk" "lines_ok ls cs" and k: "k < length ls" and at: "at_line v pre ls k s"
    and a: "NUL \<notin> set a" "a < line_path (ls ! k)" "length (line_path (ls ! k)) < PATH_MAX"
  shows "srch_round (Some a) False s =
    rbind (flush (s\<lparr>s_e := (s_e s)\<lparr>path := Some (line_path (ls ! k))\<rparr>, s_v := v\<lparr>vCurr := int (off pre ls k)\<rparr>\<rparr>))
      (\<lambda>s1. Inr (Back 2 None s1))"
proof -
  have ok: "line_ok (ls ! k)" using cf(2) k by (simp add: lines_ok_def)
  have n: "path_cmp (Some a) False (line_path (ls ! k)) < 0"
    using path_cmp_order(1) [OF a(1) line_path_props(2,1) [OF ok]] a(2) by simp
  have len: "length (line_path (ls ! k)) + 1 < length (ls ! k)" by (rule line_tailE [OF ok]) simp
  then have "int (off pre ls k + length (line_path (ls ! k)) + 1) \<le> vHighWater v"
    using cf(1) off_line_le [OF k, of pre] by (simp add: cf_at_def)
  then have c: "vfpSetCurrCharPtr (v\<lparr>vCurr := int (off pre ls k + length (line_path (ls ! k)) + 1)\<rparr>) p = v\<lparr>vCurr := p\<rparr>" for p
    by (simp add: vfpSetCurrCharPtr_def)
  define i where "i = off pre ls k + length (line_path (ls ! k))"
  note c' = c [folded i_def]
  show ?thesis
    using at n a(3) unfolding round_line [OF cf k at] srch_entry_def past_path_def i_def [symmetric]
    by (simp add: Let_def vset_inc [simplified] c' [simplified] copypath_def)
qed

text \<open>What is written then.\<close>

lemma vfpPutBytes_appended: "vfp_ok t \<Longrightarrow> \<exists>t'. vfpPutBytes t w = Inr t' \<and> appended w t t'"
  using vput_appended [of t "PutB w"] by simp

lemma flush_data:
  assumes s: "vMem (s_v s) = pre @ w @ r" "s_first s = length pre"
      "s_skip s \<and> s_last s = length pre + length w"
    and t: "s_tmp s = Some t" "vfp_ok t"
  shows "\<exists>t'. flush s = Inr (s\<lparr>s_tmp := Some t'\<rparr>) \<and> vfpPutBytes t w = Inr t' \<and> appended w t t'"
  using vfpPutBytes_appended [OF t(2), of w] s t(1) by (auto simp: flush_def write_data_def)

lemma cf_mem_take: "cf_mem pre ls cs junk = pre @ concat (take k ls) @ (concat (drop k ls) @ concat cs @ NUL # junk)"
proof -
  have "concat ls = concat (take k ls) @ concat (drop k ls)" by (metis append_take_drop_id concat_append)
  then show ?thesis by (simp add: cf_mem_def)
qed

text \<open>Two states that differ in what the loop overwrites only.\<close>

definition same_job :: "srch \<Rightarrow> srch \<Rightarrow> bool" where
  "same_job s s' \<longleftrightarrow> s_tmp s' = s_tmp s \<and> s_first s' = s_first s \<and> (\<forall>p. (s_e s')\<lparr>path := p\<rparr> = (s_e s)\<lparr>path := p\<rparr>)"

lemma same_job_refl [simp]: "same_job s s"
  by (simp add: same_job_def)

lemma same_job_trans: "same_job s s' \<Longrightarrow> same_job s' s'' \<Longrightarrow> same_job s s''"
  by (simp add: same_job_def)

lemma loop_less:
  assumes cf: "cf_at v pre ls cs junk" "lines_ok ls cs" and a: "NUL \<notin> set a"
    and j: "j \<le> length ls" "j < length ls \<or> cs \<noteq> []"
  shows "k \<le> j \<Longrightarrow> at_line v pre ls k s \<Longrightarrow> \<forall>i. k \<le> i \<and> i < j \<longrightarrow> line_path (ls ! i) < a \<Longrightarrow>
    \<exists>s'. srch_loop (j - k + n) (Some a) False s = srch_loop n (Some a) False s' \<and>
      at_line v pre ls j s' \<and> same_job s s'"
proof (induction "j - k" arbitrary: k s)
  case 0
  then show ?case by (intro exI [of _ s]) auto
next
  case (Suc d)
  then have k: "k < length ls" "k < j" using j(1) by auto
  obtain s1 where s1: "srch_round (Some a) False s = Inr (Again s1)" "s_v s1 = after_line v pre ls cs k"
    "s_e s1 = (s_e s)\<lparr>path := Some []\<rparr>" "s_tmp s1 = s_tmp s" "s_first s1 = length pre"
    "s_tmp s \<noteq> None \<longrightarrow> s_skip s1 \<and> s_last s1 = vpos (after_line v pre ls cs k)"
    using round_less [OF cf k(1) Suc.prems(2) a] Suc.prems(3) k(2) by blast
  have at: "at_line v pre ls (Suc k) s1" using s1 k(2) j by (auto simp: at_line_def after_line_def vpos_def)
  have job: "same_job s s1" using s1 Suc.prems(2) by (simp add: same_job_def at_line_def)
  have d: "d = j - Suc k" "Suc k \<le> j" using Suc.hyps(2) k(2) by arith+
  obtain s' where s': "srch_loop (j - Suc k + n) (Some a) False s1 = srch_loop n (Some a) False s'"
    "at_line v pre ls j s'" "same_job s1 s'"
    using Suc.hyps(1) [OF d at] Suc.prems(3) by auto
  have "j - k + n = Suc (j - Suc k + n)" using k(2) by simp
  then have "srch_loop (j - k + n) (Some a) False s = srch_loop n (Some a) False s'" using s1(1) s'(1) by simp
  then show ?case using s'(2) same_job_trans [OF job s'(3)] by blast
qed

section \<open>The comments and the end\<close>

definition coff :: "string \<Rightarrow> string list \<Rightarrow> string list \<Rightarrow> nat \<Rightarrow> nat" where
  "coff pre ls cs i = length pre + length (concat ls) + length (concat (take i cs))"

lemma comment_at:
  assumes "lines_ok ls cs" "i < length cs"
  shows "str_at (cf_mem pre ls cs junk) (coff pre ls cs i) = cs ! i @ concat (drop (Suc i) cs)"
proof -
  have "NUL \<notin> set (cs ! i @ concat (drop (Suc i) cs))"
    using lines_free [OF assms(1)] assms(2) by (auto dest: in_set_dropD)
  moreover have "concat cs = concat (take i cs) @ cs ! i @ concat (drop (Suc i) cs)"
    using id_take_nth_drop [OF assms(2)] by (metis concat.simps(2) concat_append)
  then have "cf_mem pre ls cs junk =
      (pre @ concat ls @ concat (take i cs)) @ (cs ! i @ concat (drop (Suc i) cs)) @ NUL # junk"
    by (simp add: cf_mem_def)
  moreover have "coff pre ls cs i = length (pre @ concat ls @ concat (take i cs))" by (simp add: coff_def)
  ultimately show ?thesis by (metis str_at_file)
qed

lemma deref_str_at: "deref_at m i = deref (str_at m i)"
  by (cases "drop i m") (auto simp: deref_at_def str_at_def)

lemma coff_Suc: "i < length cs \<Longrightarrow> coff pre ls cs (Suc i) = coff pre ls cs i + length (cs ! i)"
  by (simp add: coff_def take_Suc_conv_app_nth)

lemma round_comment:
  assumes cf: "cf_at v pre ls cs junk" "lines_ok ls cs" and i: "i < length cs"
    and s: "s_v s = v\<lparr>vCurr := int (coff pre ls cs i)\<rparr>"
  shows "srch_round pth anypath s = Inr (Again (s\<lparr>s_v := v\<lparr>vCurr := int (coff pre ls cs (Suc i))\<rparr>\<rparr>))"
proof -
  let ?o = "coff pre ls cs i" and ?w = "v\<lparr>vCurr := int (coff pre ls cs i)\<rparr>"
  obtain b where c: "cs ! i = CHR ''#'' # b @ [NL]" "NL \<notin> set b"
    using cf(2) i by (metis comment_ok_def lines_ok_def nth_mem)
  have r: "vrest ?w = CHR ''#'' # b @ NL # concat (drop (Suc i) cs)"
    using comment_at [OF cf(2) i, of pre junk] cf(1) c by (simp add: vrest_def vpos_def cf_at_def)
  then have d: "deref_at (vMem v) ?o = CHR ''#''"
    by (simp add: deref_str_at vrest_def vpos_def)
  have "concat cs = concat (take i cs) @ cs ! i @ concat (drop (Suc i) cs)"
    using id_take_nth_drop [OF i] by (metis concat.simps(2) concat_append)
  then have "\<not> vfpGetBytesRemaining ?w \<le> 0"
    using cf(1) c by (auto simp: vfpGetBytesRemaining_def cf_at_def coff_def)
  moreover have "vto (cf_findend (vrest ?w)) ?w = v\<lparr>vCurr := int (coff pre ls cs (Suc i))\<rparr>"
    using strchr_line [of NL "CHR ''#'' # b" "concat (drop (Suc i) cs)"] c(2) coff_Suc [OF i, of pre ls]
    by (simp add: vto_def r cf_findend_def vset_def vpos_def c(1))
  ultimately show ?thesis using d by (simp add: srch_round_def s vpos_def s_end_line_def Let_def)
qed

lemma loop_comments:
  assumes cf: "cf_at v pre ls cs junk" "lines_ok ls cs"
  shows "i \<le> length cs \<Longrightarrow> s_v s = v\<lparr>vCurr := int (coff pre ls cs i)\<rparr> \<Longrightarrow>
    srch_loop (length cs - i + n) pth anypath s =
      srch_loop n pth anypath (s\<lparr>s_v := v\<lparr>vCurr := int (coff pre ls cs (length cs))\<rparr>\<rparr>)"
proof (induction "length cs - i" arbitrary: i s)
  case 0
  then show ?case by (simp flip: 0(3))
next
  case (Suc d)
  then have i: "i < length cs" "length cs - i + n = Suc (length cs - Suc i + n)" by auto
  show ?case using Suc.hyps(1) [of "Suc i"] Suc.hyps(2) i round_comment [OF cf i(1) Suc.prems(2)] by simp
qed

text \<open>The end of the database: the skipped data is written and terminated.\<close>

lemma vfpPutBytes_HW:
  assumes "vfpPutBytes t w = Inr t'" "vfp_ok t'" "vHighWater t \<le> vEnd t"
  shows "vCurr t' \<le> vHighWater t'" "vHighWater t' < int (length (vMem t'))"
proof -
  define n where "n = (if vfpGetBytesAvailable t > int (length w) then int (length w) else vfpGetBytesAvailable t)"
  define t0 where "t0 = (if vfpGetBytesAvailable t > int (length w) then t else t\<lparr>vOverflow := True\<rparr>)"
  obtain u where u: "vfpStore t0 (take (nat n) w) = Inr u" "t' = vfpIncCurrPtrBy u n"
    using assms(1) by (auto simp: vfpPutBytes_def rbind_Inr Let_def t0_def n_def)
  have t0: "vHighWater t0 = vHighWater t" "vEnd t0 = vEnd t" by (simp_all add: t0_def)
  have "vHighWater u = vHighWater t0" using u(1) by (auto simp: vfpStore_def split: if_splits)
  then have hw: "vHighWater u = vHighWater t" "vEnd u = vEnd t" using t0 vfpStore_facts(3) [OF u(1)] by simp_all
  have t': "vHighWater t' = max (vHighWater u) (vCurr t')" unfolding u(2) by (simp add: vfpIncCurrPtrBy_def Let_def)
  have "vEnd t' = vEnd t" unfolding u(2) by (simp add: vfpInc_facts hw)
  then show "vCurr t' \<le> vHighWater t'" "vHighWater t' < int (length (vMem t'))"
    using t' hw assms(2,3) by (simp_all add: vfp_ok_def)
qed

lemma end_tmp_text:
  assumes "s_tmp s = Some t" "vfp_ok t" "vCurr t \<le> vHighWater t" "vHighWater t < int (length (vMem t))"
  shows "\<exists>t'. end_tmp s = Inr (s\<lparr>s_tmp := Some t'\<rparr>) \<and> appended [] t t'"
proof -
  define t' where "t' = t\<lparr>vMem := (vMem t)[nat (vHighWater t) := NUL]\<rparr>"
  have hw: "0 \<le> vHighWater t" using assms(2,3) by (simp add: vfp_ok_def)
  then have "end_tmp s = Inr (s\<lparr>s_tmp := Some t'\<rparr>)" using assms(1,4) by (simp add: end_tmp_def t'_def)
  moreover have "vfp_ok t'" "vfp_room t' = vfp_room t" "vHighWater t' = vHighWater t" "vEnd t' = vEnd t"
    using assms(2) by (simp_all add: t'_def vfp_ok_def vfp_room_def vfpGetBytesAvailable_def)
  moreover have "vfp_text t' = vfp_text t" using assms(3,4) hw by (simp add: t'_def vfp_text_def)
  ultimately show ?thesis by (auto simp: appended_def)
qed

lemma write_end:
  assumes "vfpPutBytes t w = Inr t1" "appended w t t1" "vHighWater t \<le> vEnd t"
  shows "\<exists>t'. end_tmp (s\<lparr>s_tmp := Some t1\<rparr>) = Inr (s\<lparr>s_tmp := Some t'\<rparr>) \<and> appended w t t'"
proof -
  have ok: "vfp_ok t1" using assms(2) by (simp add: appended_def)
  obtain t2 where "end_tmp (s\<lparr>s_tmp := Some t1\<rparr>) = Inr (s\<lparr>s_tmp := Some t2\<rparr>)" "appended [] t1 t2"
    using end_tmp_text [OF _ ok vfpPutBytes_HW [OF assms(1) ok assms(3)], of "s\<lparr>s_tmp := Some t1\<rparr>"] by auto
  then show ?thesis using appended_trans [OF assms(2)] by fastforce
qed

lemma round_end:
  assumes s: "vfpGetBytesRemaining (s_v s) \<le> 0" "vMem (s_v s) = pre @ w @ r" "s_first s = length pre"
      "s_skip s \<and> s_last s = length pre + length w"
    and t: "s_tmp s = Some t" "vfp_ok t" "vHighWater t \<le> vEnd t"
  shows "\<exists>t'. srch_round pth anypath s = Inr (Back 0 None (s\<lparr>s_tmp := Some t'\<rparr>)) \<and> appended w t t'"
proof -
  obtain t1 where t1: "flush s = Inr (s\<lparr>s_tmp := Some t1\<rparr>)" "vfpPutBytes t w = Inr t1" "appended w t t1"
    using flush_data [OF s(2-4) t(1,2)] by auto
  obtain t2 where t2: "end_tmp (s\<lparr>s_tmp := Some t1\<rparr>) = Inr (s\<lparr>s_tmp := Some t2\<rparr>)" "appended w t t2"
    using write_end [OF t1(2,3) t(3)] by blast
  have "srch_round pth anypath s = Inr (Back 0 None (s\<lparr>s_tmp := Some t2\<rparr>))"
    using t1(1) t2(1) s(1,4) by (simp add: srch_round_def Let_def)
  then show ?thesis using t2(2) by blast
qed

section \<open>The search as a whole\<close>

text \<open>The place of a path in a sorted database: the number of entries before it.\<close>

definition cf_sorted :: "string list \<Rightarrow> bool" where
  "cf_sorted ls \<longleftrightarrow> sorted_wrt (\<lambda>l l'. line_path l < line_path l') ls"

definition place :: "string list \<Rightarrow> string \<Rightarrow> nat" where
  "place ls a = length (takeWhile (\<lambda>l. line_path l < a) ls)"

lemma place_facts:
  shows "place ls a \<le> length ls" "i < place ls a \<Longrightarrow> line_path (ls ! i) < a"
    "place ls a < length ls \<Longrightarrow> a \<le> line_path (ls ! place ls a)"
proof -
  show "place ls a \<le> length ls" by (simp add: place_def length_takeWhile_le)
  show "line_path (ls ! i) < a" if "i < place ls a"
    using that nth_mem [of i "takeWhile (\<lambda>l. line_path l < a) ls"] takeWhile_nth [of i "\<lambda>l. line_path l < a" ls]
    by (auto simp: place_def dest: set_takeWhileD)
  show "a \<le> line_path (ls ! place ls a)" if "place ls a < length ls"
    using nth_length_takeWhile [of "\<lambda>l. line_path l < a" ls] that by (auto simp: place_def)
qed

text \<open>An object with a sorted database, and a path to search for.\<close>

definition cf_search :: "vfp \<Rightarrow> string \<Rightarrow> string list \<Rightarrow> string list \<Rightarrow> string \<Rightarrow> string \<Rightarrow> bool" where
  "cf_search v pre ls cs junk a \<longleftrightarrow> cf_at v pre ls cs junk \<and> lines_ok ls cs \<and> ls \<noteq> [] \<and> cf_sorted ls \<and>
     deref a = SLASH \<and> NUL \<notin> set a"

lemma search_reaches:
  assumes cf: "cf_search v pre ls cs junk a"
    and j: "j = place ls a \<and> (j < length ls \<or> cs \<noteq> []) \<or> place ls a = length ls \<and> Suc j = length ls"
    and fuel: "fuel = length ls + n"
  shows "\<exists>s m. srchcfile fuel classname ept (Some a) v tmp = map_option (srch_match classname) (srch_loop m (Some a) False s) \<and>
    n \<le> m \<and> at_line v pre ls j s \<and> s_tmp s = tmp \<and> (\<forall>p. (s_e s)\<lparr>path := p\<rparr> = (srch_clear ept)\<lparr>path := p\<rparr>)"
proof -
  have c: "cf_at v pre ls cs junk" "lines_ok ls cs" "ls \<noteq> []" "cf_sorted ls" "deref a = SLASH" "NUL \<notin> set a"
    using cf by (simp_all add: cf_search_def)
  then have a: "a \<noteq> []" by auto
  obtain np where np: "narrowSearch v (Some a) = Some np" "lands pre ls a np"
    using narrowSearch_lands [OF c(1-3,6) a] by blast
  then obtain k where k: "k < length ls" "np = off pre ls k" "k = 0 \<or> line_path (ls ! k) \<le> a"
    by (auto simp: lands_def)
  have rem: "\<not> vfpGetBytesRemaining v \<le> 1" using np(1) a by (auto simp: narrowSearch_def Let_def split: if_splits)
  have "k \<le> place ls a"
  proof (rule ccontr)
    let ?j = "place ls a"
    assume "\<not> k \<le> ?j"
    then have "line_path (ls ! ?j) < line_path (ls ! k)" "?j < length ls" "k \<noteq> 0"
      using c(4) k(1) sorted_wrt_nth_less [of _ ls ?j k] by (auto simp: cf_sorted_def)
    then show False using k(3) place_facts(3) [of ls a] by auto
  qed
  then have kj: "k \<le> j" "j \<le> place ls a" "j < length ls \<or> cs \<noteq> []" using j k(1) by auto
  have jl: "j \<le> length ls" using j place_facts(1) [of ls a] by auto
  define s where "s = \<lparr>s_e = srch_clear ept, s_v = v\<lparr>vCurr := int np\<rparr>, s_tmp = tmp, s_first = length pre,
    s_last = np, s_skip = True\<rparr>"
  have v: "vpos v = length pre" "\<not> vCurr v > vHighWater v" using c(1) rem
    by (auto simp: cf_at_def vpos_def vfpGetBytesRemaining_def split: if_splits)
  have start: "srchcfile fuel classname ept (Some a) v tmp =
      map_option (srch_match classname) (srch_loop fuel (Some a) False s)"
    using a c(5) rem np(1) v by (simp add: srchcfile_def Let_def s_def vfpSetCurrCharPtr_def)
  have at: "at_line v pre ls k s" by (simp add: s_def at_line_def k(2))
  have f: "fuel = j - k + (fuel - (j - k))" "n \<le> fuel - (j - k)" using fuel jl by auto
  obtain s' where s': "srch_loop fuel (Some a) False s = srch_loop (fuel - (j - k)) (Some a) False s'"
    "at_line v pre ls j s'" "same_job s s'"
    using loop_less [OF c(1,2,6) jl kj(3,1) at, of "fuel - (j - k)"] place_facts(2) [of _ ls a] kj(2) f(1) by auto
  have "s_tmp s' = tmp" "\<forall>p. (s_e s')\<lparr>path := p\<rparr> = (srch_clear ept)\<lparr>path := p\<rparr>"
    using s'(3) by (simp_all add: same_job_def s_def)
  then show ?thesis using start s' f(2) by metis
qed

end
