(* ===== verification/Cfread.thy ===== *)
theory Cfread
  imports Contents
begin

unbundle bit_operations_syntax

text \<open>
  The entry a search finds: the field readers of \<open>srchcfile.c\<close> on the lines that \<open>putcfile\<close> and
  \<open>putcvfpfile\<close> write, and the round trip of an entry through the contents database.
\<close>

section \<open>Reading an entry\<close>

lemma cf_getstr_field:
  assumes t: "t \<noteq> []" "\<not> isspace (hd t)" "\<forall>c \<in> set t. \<not> sep c" "length t < n"
    and pre: "pre = [] \<or> pre = [SP]" and x: "sep x"
  shows "cf_getstr sep n (pre @ t @ x # r) = (0, Some t, x # r)"
proof -
  obtain c u where c: "t = c # u" using t(1) by (cases t) auto
  then have "\<not> isspace c" using t(2) by simp
  then have "dropWhile isspace (pre @ t @ x # r) = t @ x # r" using pre c by auto
  moreover have "takeWhile (\<lambda>x. \<not> sep x) (t @ x # r) = t" using t(3) x by (simp add: takeWhile_append2)
  ultimately show ?thesis using c t(4) by (simp add: cf_getstr_def Let_def)
qed

lemma word_not_sep: "word_ok t \<Longrightarrow> \<forall>c \<in> set t. \<not> iswordsep c"
  using not_space_neq by (fastforce simp: word_ok_def iswordsep_def)

lemma word_hd: "word_ok t \<Longrightarrow> t \<noteq> [] \<and> \<not> isspace (hd t)"
  by (auto simp: word_ok_def)

lemma cf_getstr_word:
  assumes "word_ok t" "length t < n" "pre = [] \<or> pre = [SP]"
  shows "cf_getstr iswordsep n (pre @ t @ tail fs rest) = (0, Some t, tail fs rest)"
proof (rule tail_cases [of fs rest])
  fix x s assume x: "tail fs rest = x # s" "x = SP \<or> x = NL"
  then have "iswordsep x" by (auto simp: iswordsep_def)
  then show ?thesis unfolding x(1) using assms word_not_sep word_hd by (intro cf_getstr_field) auto
qed

lemma getnumvfp_digits:
  assumes ds: "ds \<noteq> []" "\<forall>c \<in> set ds. isdigit c"
  shows "getnumvfp b bad (SP # ds @ tail fs rest) = (0, Some (of_nat (read_base b 0 ds)), tail fs rest)"
proof (rule tail_cases [of fs rest])
  fix x s assume x: "tail fs rest = x # s" "x = SP \<or> x = NL"
  obtain c u where c: "ds = c # u" using ds(1) by (cases ds) auto
  then have "isdigit c" using ds(2) by simp
  then have "c \<noteq> CHR ''?''" "\<not> isspace c" by (auto simp: isdigit_def isspace_def)
  moreover have "takeWhile isdigit (ds @ x # s) = ds" "dropWhile isdigit (ds @ x # s) = x # s"
    using ds(2) x(2) by (auto simp: takeWhile_append2 dropWhile_append2)
  ultimately show ?thesis using x(1) c \<open>isdigit c\<close> by (simp add: getnumvfp_def of_nat_read_base)
qed

text \<open>Here every mode is read back.\<close>

lemma mode_read:
  "\<exists>w. cf_getnum 8 0xFFFF (SP # mode_text m @ tail fs rest) = (0, Some w, tail fs rest) \<and> ucast w = m"
proof (cases "m = BADMODE")
  case True
  have "cf_getnum 8 0xFFFF (SP # mode_text m @ tail fs rest) = (0, Some 0xFFFF, tail fs rest)"
    unfolding True by (simp add: mode_text_def cf_getnum_def getnumvfp_def isspace_def)
  moreover have "ucast (0xFFFF :: u64) = m" unfolding True BADMODE_def by code_simp
  ultimately show ?thesis by blast
next
  case False
  let ?t = "pad_left (CHR ''0'') 4 (show_oct (unat m))"
  have "\<forall>c \<in> set ?t. isdigit c" by (intro pad_left_digits show_base_digits) auto
  then have "cf_getnum 8 0xFFFF (SP # ?t @ tail fs rest) = (0, Some (of_nat (unat m)), tail fs rest)"
    unfolding cf_getnum_def by (subst getnumvfp_digits) (auto simp: read_pad_zero read_show_base)
  moreover have "ucast (of_nat (unat m) :: u64) = m" by (simp add: ucast_up_ucast_id is_up)
  ultimately show ?thesis using False by (auto simp: mode_text_def)
qed

section \<open>Cursors\<close>

lemma vrest_upd: "vrest (v\<lparr>vCurr := int i\<rparr>) = str_at (vMem v) i"
  by (simp add: vrest_def vpos_def)

lemma vto_facts:
  assumes "vrest v = w @ r"
  shows "vrest (vto r v) = r" "vto r v = v\<lparr>vCurr := int (vpos v + length w)\<rparr>"
proof -
  show e: "vto r v = v\<lparr>vCurr := int (vpos v + length w)\<rparr>" using assms by (simp add: vto_def vset_def)
  have "str_at (vMem v) (vpos v + length w) = drop (length w) (str_at (vMem v) (vpos v))"
    using assms by (intro str_at_add) (simp add: vrest_def)
  then show "vrest (vto r v) = r" using assms unfolding e vrest_upd by (simp add: vrest_def)
qed

lemma vto_vto:
  assumes "vrest v = w @ u @ r" shows "vto r (vto (u @ r) v) = vto r v"
proof -
  have a: "vrest v = w @ (u @ r)" "vrest v = (w @ u) @ r" using assms by simp_all
  show ?thesis using vto_facts(2) [OF a(2)] vto_facts(2) [OF vto_facts(1) [OF a(1)]] vto_facts(2) [OF a(1)]
    by (simp add: vpos_def nat_int_add add.assoc)
qed

text \<open>A search that goes on from a state: the entry so far and the text left to read.\<close>

definition st :: "srch \<Rightarrow> cfent \<Rightarrow> string \<Rightarrow> srch" where
  "st s e r = s\<lparr>s_e := e, s_v := vto r (s_v s)\<rparr>"

definition left :: "srch \<Rightarrow> string \<Rightarrow> bool" where
  "left s r \<longleftrightarrow> (\<exists>w. vrest (s_v s) = w @ r)"

lemma left_append: "left s (u @ r) \<Longrightarrow> left s r"
  by (metis append.assoc left_def)

lemma left_Cons: "left s (c # r) \<Longrightarrow> left s r"
  using left_append [of s "[c]" r] by simp

lemma st_vrest: "left s r \<Longrightarrow> vrest (s_v (st s e r)) = r"
  by (auto simp: left_def st_def vto_facts(1))

lemma st_step: "left s (u @ r) \<Longrightarrow> (st s e (u @ r))\<lparr>s_e := e', s_v := vto r (s_v (st s e (u @ r)))\<rparr> = st s e' r"
  by (auto simp: left_def st_def vto_vto)

lemma s_str_step:
  assumes l: "left s (SP # t @ tail fs rest)" and t: "word_ok t" "length t < n"
  shows "s_str n f (st s e (SP # t @ tail fs rest)) = (True, st s (f t e) (tail fs rest))"
proof -
  have a: "SP # t @ tail fs rest = (SP # t) @ tail fs rest" by simp
  note r = cf_getstr_word [OF t, of "[SP]" fs rest, simplified]
  show ?thesis using st_step [of s "SP # t" "tail fs rest" e "f t e"] l
    by (simp add: s_str_def st_vrest [OF l] r) (simp add: st_def)
qed

lemma s_num_step:
  assumes l: "left s (SP # t @ tail fs rest)" and r: "cf_getnum b bad (SP # t @ tail fs rest) = (0, Some v, tail fs rest)"
  shows "s_num b bad f (st s e (SP # t @ tail fs rest)) = (True, st s (f v e) (tail fs rest))"
  using st_step [of s "SP # t" "tail fs rest" e "f v e"] l
  by (simp add: s_num_def st_vrest [OF l] r) (simp add: st_def)

section \<open>The fields of an entry\<close>

definition cf_attr_ok :: "cfent \<Rightarrow> bool" where
  "cf_attr_ok e \<longleftrightarrow> word_ok (owner (ainfo e)) \<and> word_ok (group (ainfo e)) \<and>
     length (owner (ainfo e)) \<le> ATRSIZ \<and> length (group (ainfo e)) \<le> ATRSIZ"

lemma st_upd: "(st s e r)\<lparr>s_e := e'\<rparr> = st s e' r"
  by (simp add: st_def)

lemma left_tail: "left s (tail (f # fs) rest) \<Longrightarrow> left s (tail fs rest)"
  using left_append [of s "SP # f" "tail fs rest"] by simp

lemma left_tails: "left s (tail (fs @ gs) rest) \<Longrightarrow> left s (tail gs rest)"
  unfolding tail_append by (rule left_append)

lemma cf_getnum_dev:
  assumes "v = BADMAJOR \<or> 0 \<le> sint v"
  shows "\<exists>w. cf_getnum 10 (- 1) (SP # dev_text v @ tail fs rest) = (0, Some w, tail fs rest) \<and> ucast w = v"
  using vmap.dev_read [OF assms, of fs rest] by (simp add: vfp_reader_def cf_getnum_def BADCONT_def)

lemma cf_getnum_cont:
  assumes "v = BADCONT \<or> 0 \<le> sint v"
  shows "cf_getnum 10 BADCONT (SP # cont_text v @ tail fs rest) = (0, Some v, tail fs rest)"
  using vmap.cont_read [OF assms, of fs rest] by (simp add: vfp_reader_def cf_getnum_def)

lemma devs_chain:
  assumes l: "left s (tail (dev_text j # dev_text n # fs) rest)"
    and ok: "j = BADMAJOR \<or> 0 \<le> sint j" "n = BADMAJOR \<or> 0 \<le> sint n"
  shows "s_chain [s_num 10 (- 1) set_major, s_num 10 (- 1) set_minor] (st s e (tail (dev_text j # dev_text n # fs) rest)) =
    (True, st s (e\<lparr>ainfo := (ainfo e)\<lparr>major := j, minor := n\<rparr>\<rparr>) (tail fs rest))"
proof -
  obtain w w2 where w: "cf_getnum 10 (- 1) (SP # dev_text j @ tail (dev_text n # fs) rest) = (0, Some w, tail (dev_text n # fs) rest)"
    "ucast w = j" "cf_getnum 10 (- 1) (SP # dev_text n @ tail fs rest) = (0, Some w2, tail fs rest)" "ucast w2 = n"
    using cf_getnum_dev [OF ok(1), of "dev_text n # fs" rest] cf_getnum_dev [OF ok(2), of fs rest] by blast
  have l2: "left s (SP # dev_text n @ tail fs rest)" using left_tail [OF l] by simp
  note n1 = s_num_step [OF l [unfolded tail_simps(2) [of "dev_text j"]] w(1), of set_major e]
  note n2 = s_num_step [OF l2 w(3), of set_minor]
  show ?thesis using n1 n2 w(2,4) by (simp add: set_defs)
qed

lemma attr_chain:
  assumes l: "left s (tail (mode_text (mode a) # owner a # group a # fs) rest)"
    and ok: "word_ok (owner a)" "word_ok (group a)" "length (owner a) \<le> ATRSIZ" "length (group a) \<le> ATRSIZ"
  shows "s_chain [s_num 8 0xFFFF (\<lambda>v. set_mode (ucast v)), s_str (ATRSIZ + 1) set_owner, s_str (ATRSIZ + 1) set_group]
      (st s e (tail (mode_text (mode a) # owner a # group a # fs) rest)) =
    (True, st s (e\<lparr>ainfo := (ainfo e)\<lparr>mode := mode a, owner := owner a, group := group a\<rparr>\<rparr>) (tail fs rest))"
proof -
  let ?t2 = "owner a # group a # fs"
  obtain w where w: "cf_getnum 8 0xFFFF (SP # mode_text (mode a) @ tail ?t2 rest) = (0, Some w, tail ?t2 rest)" "ucast w = mode a"
    using mode_read [of "mode a" ?t2 rest] by blast
  have l2: "left s (SP # owner a @ tail (group a # fs) rest)" "left s (SP # group a @ tail fs rest)"
    using left_tail [OF l] left_tail [OF left_tail [OF l]] by simp_all
  note n1 = s_num_step [OF l [unfolded tail_simps(2) [of "mode_text (mode a)"]] w(1), of "\<lambda>v. set_mode (ucast v)" e]
  note n2 = s_str_step [OF l2(1) ok(1), of "ATRSIZ + 1" set_owner]
  note n3 = s_str_step [OF l2(2) ok(2), of "ATRSIZ + 1" set_group]
  show ?thesis using n1 n2 n3 w(2) ok(3,4) by (simp add: set_defs)
qed

lemma cont_chain:
  assumes l: "left s (tail (cont_fields e' @ fs) rest)" and c: "cinfo e' = c"
    and ok: "\<forall>v \<in> {fsize c, cksum c, modtime c}. v = BADCONT \<or> 0 \<le> sint v"
  shows "s_chain [s_num 10 BADCONT set_size, s_num 10 BADCONT set_cksum, s_num 10 BADCONT set_modtime]
      (st s e (tail (cont_fields e' @ fs) rest)) = (True, st s (e\<lparr>cinfo := c\<rparr>) (tail fs rest))"
proof -
  let ?t3 = "cont_text (modtime c) # fs"
  let ?t2 = "cont_text (cksum c) # ?t3"
  have t: "tail (cont_fields e' @ fs) rest = SP # cont_text (fsize c) @ tail ?t2 rest"
    using c by (simp add: cont_fields_def)
  have l1: "left s (SP # cont_text (fsize c) @ tail ?t2 rest)" using l t by simp
  then have l2: "left s (SP # cont_text (cksum c) @ tail ?t3 rest)" "left s (SP # cont_text (modtime c) @ tail fs rest)"
    using left_tail [of s "cont_text (fsize c)" ?t2 rest] left_tail [of s "cont_text (cksum c)" ?t3 rest] by simp_all
  have n: "cf_getnum 10 BADCONT (SP # cont_text (fsize c) @ tail ?t2 rest) = (0, Some (fsize c), tail ?t2 rest)"
    "cf_getnum 10 BADCONT (SP # cont_text (cksum c) @ tail ?t3 rest) = (0, Some (cksum c), tail ?t3 rest)"
    "cf_getnum 10 BADCONT (SP # cont_text (modtime c) @ tail fs rest) = (0, Some (modtime c), tail fs rest)"
    using ok by (intro cf_getnum_cont; simp)+
  have c': "x\<lparr>fsize := fsize c, cksum := cksum c, modtime := modtime c\<rparr> = c" for x by (intro cinfo.equality) simp_all
  show ?thesis unfolding t using s_num_step [OF l1 n(1)] s_num_step [OF l2(1) n(2)] s_num_step [OF l2(2) n(3)]
    by (simp add: set_defs c')
qed

text \<open>What the fields behind the class make of an entry.\<close>

definition cf_fields_read :: "cfent \<Rightarrow> cfent \<Rightarrow> cfent" where
  "cf_fields_read e e' =
     (let c = ftype e';
          e1 = (if c \<in> set ''cb'' then e\<lparr>ainfo := (ainfo e)\<lparr>major := major (ainfo e'), minor := minor (ainfo e')\<rparr>\<rparr> else e);
          e2 = (if c \<in> set ''dxcbpfve''
                then e1\<lparr>ainfo := (ainfo e1)\<lparr>mode := mode (ainfo e'), owner := owner (ainfo e'), group := group (ainfo e')\<rparr>\<rparr> else e1)
      in if c \<in> set ''fve'' then e2\<lparr>cinfo := cinfo e'\<rparr> else e2)"

lemma fields_read:
  assumes l: "left s (tail (dev_fields e' @ attr_fields e' @ (if ftype e' \<in> set ''fve'' then cont_fields e' else []) @ fs) rest)"
    and e: "ftype e = ftype e'" "ftype e' \<noteq> CHR ''i''" "ftype e' \<in> set ''sl'' \<longrightarrow> local (ainfo e) \<noteq> None"
    and ok: "num_ok e'" "ftype e' \<in> set ''dxcbpfve'' \<longrightarrow> cf_attr_ok e'"
  shows "srch_fields cpath (st s e (tail (dev_fields e' @ attr_fields e' @
      (if ftype e' \<in> set ''fve'' then cont_fields e' else []) @ fs) rest)) =
    Inr (Match cpath (st s (cf_fields_read e e') (tail fs rest)))"
proof -
  let ?c = "ftype e'" and ?a = "ainfo e'"
  let ?f3 = "(if ?c \<in> set ''fve'' then cont_fields e' else []) @ fs"
  let ?f2 = "attr_fields e' @ ?f3"
  let ?f1 = "dev_fields e' @ ?f2"
  define e1 where "e1 = (if ?c \<in> set ''cb'' then e\<lparr>ainfo := (ainfo e)\<lparr>major := major ?a, minor := minor ?a\<rparr>\<rparr> else e)"
  define e2 where "e2 = (if ?c \<in> set ''dxcbpfve'' then e1\<lparr>ainfo := (ainfo e1)\<lparr>mode := mode ?a, owner := owner ?a, group := group ?a\<rparr>\<rparr> else e1)"
  define e3 where "e3 = (if ?c \<in> set ''fve'' then e2\<lparr>cinfo := cinfo e'\<rparr> else e2)"
  have l2: "left s (tail ?f2 rest)" by (rule left_tails [OF l])
  have l3: "left s (tail ?f3 rest)" by (rule left_tails [OF l2])
  have d: "(if ?c \<in> set ''cb'' then s_chain [s_num 10 (- 1) set_major, s_num 10 (- 1) set_minor]
         ((st s e (tail ?f1 rest))\<lparr>s_e := set_minor (- 1) (set_major (- 1) e)\<rparr>) else (True, st s e (tail ?f1 rest))) =
      (True, st s e1 (tail ?f2 rest))"
  proof (cases "?c \<in> set ''cb''")
    case True
    then have t: "?f1 = dev_text (major ?a) # dev_text (minor ?a) # ?f2" by (simp add: dev_fields_def)
    have "major ?a = BADMAJOR \<or> 0 \<le> sint (major ?a)" "minor ?a = BADMAJOR \<or> 0 \<le> sint (minor ?a)"
      using ok(1) by (simp_all add: num_ok_def)
    from devs_chain [OF l [unfolded t] this] show ?thesis unfolding if_P [OF True] t st_upd e1_def
      by (simp add: set_defs del: s_chain.simps tail_simps)
  next
    case False
    then have t: "?f1 = ?f2" unfolding dev_fields_def by simp
    show ?thesis unfolding if_not_P [OF False] t e1_def ..
  qed
  have a: "(if ?c \<in> set ''dxcbpfve'' then s_chain [s_num 8 0xFFFF (\<lambda>v. set_mode (ucast v)), s_str (ATRSIZ + 1) set_owner,
         s_str (ATRSIZ + 1) set_group] (st s e1 (tail ?f2 rest)) else (True, st s e1 (tail ?f2 rest))) =
      (True, st s e2 (tail ?f3 rest))"
  proof (cases "?c \<in> set ''dxcbpfve''")
    case True
    then have t: "?f2 = mode_text (mode ?a) # owner ?a # group ?a # ?f3" unfolding attr_fields_def by simp
    have "word_ok (owner ?a)" "word_ok (group ?a)" "length (owner ?a) \<le> ATRSIZ" "length (group ?a) \<le> ATRSIZ"
      using mp [OF ok(2) True] unfolding cf_attr_ok_def by blast+
    from attr_chain [OF l2 [unfolded t] this] show ?thesis unfolding if_P [OF True] t e2_def .
  next
    case False
    then have t: "?f2 = ?f3" unfolding attr_fields_def by simp
    show ?thesis unfolding if_not_P [OF False] t e2_def ..
  qed
  have c: "(if ?c \<in> set ''ifve'' then s_chain [s_num 10 BADCONT set_size, s_num 10 BADCONT set_cksum, s_num 10 BADCONT set_modtime]
         (st s e2 (tail ?f3 rest)) else (True, st s e2 (tail ?f3 rest))) = (True, st s e3 (tail fs rest))"
  proof (cases "?c \<in> set ''fve''")
    case True
    then have t: "?f3 = cont_fields e' @ fs" "?c \<in> set ''ifve''" by auto
    from cont_chain [OF l3 [unfolded t(1)] refl] ok(1) show ?thesis unfolding if_P [OF True] if_P [OF t(2)] t(1) e3_def
      by (simp add: num_ok_def del: s_chain.simps)
  next
    case False
    then have t: "?f3 = fs" "?c \<notin> set ''ifve''" using e(2) by auto
    show ?thesis unfolding if_not_P [OF False] if_not_P [OF t(2)] t(1) e3_def by simp
  qed
  have k: "\<not> ((?c = CHR ''s'' \<or> ?c = CHR ''l'') \<and> local (ainfo e) = None)" using e(3) by auto
  have s: "s_e (st s e x) = e" for x by (simp add: st_def)
  have "cf_fields_read e e' = e3" unfolding cf_fields_read_def Let_def e1_def e2_def e3_def ..
  then show ?thesis unfolding srch_fields_def s Let_def e(1) if_not_P [OF k] d a c prod.case by simp
qed

section \<open>The packages\<close>

definition pkg_ok :: "pinfo \<Rightarrow> bool" where
  "pkg_ok p \<longleftrightarrow> (status p = NUL \<or> status p \<in> set ''-+*~!%'') \<and>
     pkg p \<noteq> [] \<and> (\<forall>c \<in> set (pkg p). \<not> ispkgnamesep c \<and> \<not> isspace c) \<and>
     (status p = NUL \<longrightarrow> hd (pkg p) \<notin> set ''-+*~!%'') \<and> length (pkg p) < PKGSIZ \<and>
     (aclass p = [] \<or> word_ok (aclass p) \<and> length (aclass p) \<le> CLSSIZ)"

definition pkg_name :: "pinfo \<Rightarrow> string" where
  "pkg_name p = (if status p \<noteq> NUL then [status p] else []) @ pkg p"

definition pkg_mark :: "pinfo \<Rightarrow> string" where
  "pkg_mark p = (if editflag p then [CHR 0x5C] else []) @ (if aclass p \<noteq> [] then '':'' @ aclass p else [])"

lemma pkg_field_split: "pkg_field p = pkg_name p @ pkg_mark p"
  by (simp add: pkg_field_def pkg_name_def pkg_mark_def)

lemma status_char: "c \<in> set ''-+*~!%'' \<Longrightarrow> \<not> ispkgnamesep c \<and> \<not> isspace c \<and> c \<noteq> NUL"
  by (auto simp: ispkgnamesep_def isspace_def)

lemma pkg_name_facts:
  assumes "pkg_ok p"
  shows "pkg_name p \<noteq> []" "\<not> isspace (hd (pkg_name p))" "\<forall>c \<in> set (pkg_name p). \<not> ispkgnamesep c"
    "length (pkg_name p) < PKGSIZ + 1" "pkg_status (pkg_name p) = (status p, pkg p)"
proof -
  have p: "status p = NUL \<or> status p \<in> set ''-+*~!%''" "pkg p \<noteq> []"
    "\<forall>c \<in> set (pkg p). \<not> ispkgnamesep c \<and> \<not> isspace c" "status p = NUL \<longrightarrow> hd (pkg p) \<notin> set ''-+*~!%''"
    "length (pkg p) < PKGSIZ"
    using assms unfolding pkg_ok_def by blast+
  obtain c u where c: "pkg p = c # u" using p(2) by (cases "pkg p") auto
  show "pkg_name p \<noteq> []" "length (pkg_name p) < PKGSIZ + 1" using p(2,5) by (simp_all add: pkg_name_def)
  show "\<not> isspace (hd (pkg_name p))" "\<forall>c \<in> set (pkg_name p). \<not> ispkgnamesep c"
    using p(1,3) c status_char [of "status p"] unfolding pkg_name_def by (cases "status p = NUL"; simp)+
  show "pkg_status (pkg_name p) = (status p, pkg p)"
  proof (cases "status p = NUL")
    case True
    then have "c \<notin> set ''-+*~!%''" using p(4) c by simp
    then show ?thesis using True c unfolding pkg_status_def pkg_name_def by simp
  next
    case False
    then have "status p \<in> set ''-+*~!%''" using p(1) by blast
    then show ?thesis using False unfolding pkg_status_def pkg_name_def by simp
  qed
qed

lemma pkg_mark_read:
  assumes "aclass p = [] \<or> word_ok (aclass p) \<and> length (aclass p) \<le> CLSSIZ" "x = SP \<or> x = NL"
  shows "\<exists>ed c r cls'. pkg_edit (pkg_mark p @ x # u) = (ed, c, r) \<and> ed = editflag p \<and>
    pkg_aclass cls c r = (cls', aclass p, x, u)"
proof -
  have w: "word_ok (aclass p) \<Longrightarrow> length (aclass p) \<le> CLSSIZ \<Longrightarrow>
      cf_getstr iswordsep (CLSSIZ + 1) (aclass p @ x # u) = (0, Some (aclass p), x # u)"
    using cf_getstr_field [of "aclass p" iswordsep "CLSSIZ + 1" "[]" x u] word_not_sep word_hd assms(2)
    by (auto simp: iswordsep_def)
  have x: "x \<noteq> CHR 0x5C" "x \<noteq> CHR '':''" using assms(2) by auto
  show ?thesis
  proof (cases "aclass p = []")
    case True
    then show ?thesis using x by (auto simp: pkg_mark_def pkg_edit_def pkg_aclass_def)
  next
    case False
    then show ?thesis using assms(1) w x by (auto simp: pkg_mark_def pkg_edit_def pkg_aclass_def Let_def)
  qed
qed

lemma pkg_mark_sep: "x = SP \<or> x = NL \<Longrightarrow> \<exists>y r. pkg_mark p @ x # u = y # r \<and> ispkgnamesep y"
  by (auto simp: pkg_mark_def ispkgnamesep_def)

lemma pkgs_step:
  assumes p: "pkg_ok p" and x: "x = SP \<or> x = NL" and pre: "pre = [] \<or> pre = [SP]"
  shows "\<exists>cls'. srch_pkgs cls acc (pre @ pkg_field p @ x # u) =
    (if x = NL then PkEnd (acc @ [p]) NL u else srch_pkgs cls' (acc @ [p]) u)"
proof -
  note n = pkg_name_facts [OF p]
  obtain y r where y: "pkg_mark p @ x # u = y # r" "ispkgnamesep y" using pkg_mark_sep [OF x] by blast
  have g: "cf_getstr ispkgnamesep (PKGSIZ + 1) (pre @ pkg_field p @ x # u) = (0, Some (pkg_name p), pkg_mark p @ x # u)"
    using cf_getstr_field [OF n(1-4) pre y(2)] by (simp add: pkg_field_split y(1))
  have "aclass p = [] \<or> word_ok (aclass p) \<and> length (aclass p) \<le> CLSSIZ" using p unfolding pkg_ok_def by blast
  then obtain ed c r' cls' where m: "pkg_edit (pkg_mark p @ x # u) = (ed, c, r')" "ed = editflag p"
    "pkg_aclass cls c r' = (cls', aclass p, x, u)" using pkg_mark_read [OF _ x, of p u cls] by metis
  have e: "\<lparr>status = fst (pkg_status (pkg_name p)), pkg = snd (pkg_status (pkg_name p)), editflag = ed, aclass = aclass p\<rparr> = p"
    using n(5) m(2) by (intro pinfo.equality) simp_all
  have "srch_pkgs cls acc (pre @ pkg_field p @ x # u) =
      (if x = NL \<or> x = NUL then PkEnd (acc @ [p]) x u
       else if \<not> isspace x then PkErr ERR_BAD_ENTRY_END (acc @ [p]) u else srch_pkgs cls' (acc @ [p]) u)"
    by (subst srch_pkgs.simps) (simp only: g m(1,3) prod.case Let_def option.sel e less_irrefl if_False)
  then show ?thesis using x by auto
qed

lemma pkgs_read:
  assumes "\<forall>p \<in> set (p # ps). pkg_ok p" "pre = [] \<or> pre = [SP]"
  shows "srch_pkgs cls acc (pre @ pkg_field p @ tail (map pkg_field ps) rest) = PkEnd (acc @ p # ps) NL rest"
  using assms
proof (induction ps arbitrary: p pre cls acc)
  case Nil
  then show ?case using pkgs_step [of p NL pre cls acc rest] by simp
next
  case (Cons q ps)
  obtain cls' where "srch_pkgs cls acc (pre @ pkg_field p @ SP # (pkg_field q @ tail (map pkg_field ps) rest)) =
      srch_pkgs cls' (acc @ [p]) (pkg_field q @ tail (map pkg_field ps) rest)"
    using pkgs_step [of p SP pre cls acc] Cons.prems by auto
  then show ?case using Cons.IH [of q "[]" cls' "acc @ [p]"] Cons.prems by simp
qed

section \<open>Entries and their lines\<close>

text \<open>Entries of the database: what \<open>putcfile\<close> writes for them can be read again.\<close>

definition cf_ent_ok :: "cfent \<Rightarrow> bool" where
  "cf_ent_ok e \<longleftrightarrow> ftype e \<in> set ''?fvelspcbdx'' \<and> name_ok e \<and> deref (the (path e)) = SLASH \<and> num_ok e \<and>
     volno e = 0 \<and> word_ok (pkg_class e) \<and> length (pkg_class e) < CLSSIZ \<and>
     (ftype e \<in> set ''dxcbpfve'' \<longrightarrow> cf_attr_ok e) \<and> pinfo e \<noteq> [] \<and> (\<forall>p \<in> set (pinfo e). pkg_ok p)"

definition mid_fields :: "cfent \<Rightarrow> string list" where
  "mid_fields e = dev_fields e @ attr_fields e @ (if ftype e \<in> set ''fve'' then cont_fields e else []) @ map pkg_field (pinfo e)"

lemma contents_line_tail:
  assumes "volno e = 0" "path e = Some p"
  shows "contents_line e @ rest = name_field e p @ tail ([ftype e] # pkg_class e # mid_fields e) rest"
  using assms by (simp add: contents_line_def join_sep_def vol_fields_def tail_def mid_fields_def)

lemma word_free: "word_ok t \<Longrightarrow> NL \<notin> set t \<and> NUL \<notin> set t"
  using isspace_SP(2) unfolding word_ok_def by blast

lemma tail_free: "\<forall>f \<in> set fs. word_ok f \<Longrightarrow> \<exists>b. tail fs [] = b @ [NL] \<and> NL \<notin> set b \<and> NUL \<notin> set b"
proof (induction fs)
  case Nil
  then show ?case by (intro exI [of _ "[]"]) simp
next
  case (Cons f fs)
  then obtain b where "tail fs [] = b @ [NL]" "NL \<notin> set b" "NUL \<notin> set b" by auto
  then show ?case using word_free [of f] Cons.prems by (intro exI [of _ "SP # f @ b"]) auto
qed

lemma num_text_word:
  assumes "0 \<le> i" shows "word_ok (show_int i)"
proof -
  have "\<forall>c \<in> set (show_nat (nat i)). isdigit c" by (intro show_base_digits) auto
  then show ?thesis using assms by (simp add: show_int_def digits_word)
qed

lemma wild_word [simp]: "word_ok ''?''"
  by (simp add: word_ok_def isspace_def)

lemma mode_text_any: "word_ok (mode_text m)"
proof -
  have "\<forall>c \<in> set (pad_left (CHR ''0'') 4 (show_oct (unat m))). isdigit c"
    by (intro pad_left_digits show_base_digits) auto
  then have "word_ok (pad_left (CHR ''0'') 4 (show_oct (unat m)))" by (intro digits_word) auto
  then show ?thesis by (simp add: mode_text_def)
qed

lemma pkg_field_word: assumes "pkg_ok p" shows "word_ok (pkg_field p)"
proof -
  have n: "pkg p \<noteq> []" "\<forall>c \<in> set (pkg p). \<not> ispkgnamesep c \<and> \<not> isspace c"
    "status p = NUL \<or> status p \<in> set ''-+*~!%''" "aclass p = [] \<or> word_ok (aclass p)"
    using assms unfolding pkg_ok_def by blast+
  have s: "status p \<noteq> NUL \<longrightarrow> \<not> isspace (status p)" using n(3) status_char by blast
  have k: "\<forall>c \<in> set (pkg p). \<not> isspace c \<and> c \<noteq> NUL" using n(2) by (auto simp: ispkgnamesep_def)
  have a: "\<forall>c \<in> set (aclass p). \<not> isspace c \<and> c \<noteq> NUL" using n(4) by (auto simp: word_ok_def)
  have m: "\<not> isspace (CHR 0x5C)" "\<not> isspace (CHR '':'')" by (simp_all add: isspace_def)
  show ?thesis using n(1) s k a m unfolding word_ok_def pkg_field_def by auto
qed

lemma mid_words: assumes "cf_ent_ok e" shows "\<forall>f \<in> set ([ftype e] # pkg_class e # mid_fields e). word_ok f"
proof -
  have e: "ftype e \<in> set ''?fvelspcbdx''" "num_ok e" "word_ok (pkg_class e)" "ftype e \<in> set ''dxcbpfve'' \<longrightarrow> cf_attr_ok e"
    "\<forall>p \<in> set (pinfo e). pkg_ok p" using assms unfolding cf_ent_ok_def by blast+
  have "ftype e \<in> set ''i?fvelspcbdx''" "ftype e \<noteq> NUL" using e(1) by auto
  then have t: "word_ok [ftype e]" using type_char(1) [of "ftype e"] unfolding word_ok_def by simp
  have d: "\<forall>f \<in> set (dev_fields e). word_ok f" "\<forall>f \<in> set (cont_fields e). word_ok f"
    using e(2) num_text_word unfolding num_ok_def dev_fields_def cont_fields_def
    by (auto simp: dev_text_def cont_text_def)
  have a: "\<forall>f \<in> set (attr_fields e). word_ok f"
    using e(4) mode_text_any unfolding attr_fields_def cf_attr_ok_def by (cases "ftype e \<in> set ''dxcbpfve''") auto
  show ?thesis using t d a e(3,5) pkg_field_word unfolding mid_fields_def by (auto split: if_splits)
qed

lemma contents_line_ok:
  assumes "cf_ent_ok e" "path e = Some p"
  shows "line_ok (contents_line e)" "line_path (contents_line e) = p"
    "line_tail (contents_line e) = (case local (ainfo e) of Some y \<Rightarrow> CHR ''='' # y | None \<Rightarrow> []) @
       tail ([ftype e] # pkg_class e # mid_fields e) []"
proof -
  have e: "name_ok e" "deref p = SLASH" "volno e = 0" using assms by (simp_all add: cf_ent_ok_def)
  have p: "word_ok p" "CHR ''='' \<notin> set p" and loc: "\<And>y. local (ainfo e) = Some y \<Longrightarrow> word_ok y"
    using e(1) assms(2) by (auto simp: name_ok_def)
  have sep: "\<forall>c \<in> set p. \<not> ispathsep c"
  proof
    fix c assume c: "c \<in> set p"
    then have "\<not> isspace c" "c \<noteq> NUL" "c \<noteq> CHR ''=''" using p unfolding word_ok_def by blast+
    then show "\<not> ispathsep c" using not_space_neq [of c] by (simp add: ispathsep_def)
  qed
  obtain b where b: "tail ([ftype e] # pkg_class e # mid_fields e) [] = b @ [NL]" "NL \<notin> set b" "NUL \<notin> set b"
    using tail_free [OF mid_words [OF assms(1)]] by blast
  then obtain b' where b': "b = SP # b'" by (cases b) auto
  define t where "t = (case local (ainfo e) of Some y \<Rightarrow> CHR ''='' # y | None \<Rightarrow> []) @ b"
  obtain x u where x: "t = x # u" "x = SP \<or> x = CHR ''=''" "NL \<notin> set u" "NUL \<notin> set u"
    using b(2,3) b' loc word_free by (fastforce simp: t_def split: option.splits)
  have l: "contents_line e = p @ x # u @ [NL]"
    using contents_line_tail [OF e(3) assms(2), of "[]"] b(1) x(1) name_field_cases [OF e(1) assms(2), of "b @ [NL]"]
    by (simp add: t_def split: option.splits)
  obtain q where q: "p = SLASH # q" using p(1) e(2) by (cases p) (auto simp: word_ok_def)
  show "line_ok (contents_line e)" unfolding line_ok_def l q using x sep q by (intro exI [of _ q] exI [of _ x] exI [of _ u]) auto
  have "ispathsep x" using x(2) by (auto simp: ispathsep_def)
  then show lp: "line_path (contents_line e) = p" unfolding line_path_def l using sep by (simp add: takeWhile_append2)
  show "line_tail (contents_line e) = (case local (ainfo e) of Some y \<Rightarrow> CHR ''='' # y | None \<Rightarrow> []) @
       tail ([ftype e] # pkg_class e # mid_fields e) []"
    unfolding line_tail_def lp b(1) using l x(1) by (simp add: t_def)
qed

section \<open>The entry found\<close>

lemma st_self: "0 \<le> vCurr (s_v s) \<Longrightarrow> st s (s_e s) (vrest (s_v s)) = s"
  using vto_facts(2) [of "s_v s" "[]" "vrest (s_v s)"] by (simp add: st_def vpos_def)

lemma type_read:
  assumes l: "left s (pre @ c # tail (cls # fs) rest)" and pre: "pre = [] \<or> pre = [SP]"
    and ok: "c \<in> set ''?fvelspcbdx''" "word_ok cls" "length cls < CLSSIZ"
  shows "srch_type fail (st s e (pre @ c # tail (cls # fs) rest)) k =
    k (st s (e\<lparr>ftype := c, pkg_class := cls\<rparr>) (tail fs rest))"
proof -
  have "c \<in> set ''i?fvelspcbdx''" using ok(1) by auto
  then have "\<not> isspace c" by (rule type_char(1))
  then have d: "dropWhile isspace (pre @ c # tail (cls # fs) rest) = c # tail (cls # fs) rest" using pre by auto
  have g: "cf_getstr iswordsep CLSSIZ (tail (cls # fs) rest) = (0, Some cls, tail fs rest)"
    using cf_getstr_word [OF ok(2,3), of "[SP]" fs rest] by simp
  have e: "s_e (st s e x) = e" for x by (simp add: st_def)
  have l': "left s ((pre @ c # SP # cls) @ tail fs rest)" using l by simp
  have "(st s e ((pre @ c # SP # cls) @ tail fs rest))\<lparr>s_e := e\<lparr>ftype := c, pkg_class := cls\<rparr>,
      s_v := vto (tail fs rest) (s_v (st s e ((pre @ c # SP # cls) @ tail fs rest)))\<rparr> =
      st s (e\<lparr>ftype := c, pkg_class := cls\<rparr>) (tail fs rest)"
    by (rule st_step [OF l'])
  then show ?thesis
    unfolding srch_type_def Let_def st_vrest [OF l] d deref_simps list.sel g prod.case if_P [OF ok(1)] e
    by simp
qed

lemma found_read:
  assumes l: "left s (tail (map pkg_field ps) rest)" and ps: "ps \<noteq> []" "\<forall>p \<in> set ps. pkg_ok p"
    and e: "ftype e \<noteq> CHR ''i''" "length cpath < PATH_MAX"
  shows "srch_found classname cpath (st s e (tail (map pkg_field ps) rest)) =
    rbind (flush (st s ((set_pkgs ps e)\<lparr>path := Some cpath\<rparr>) rest)) (\<lambda>s1. Inr (Back 1 None s1))"
proof -
  obtain p qs where q: "ps = p # qs" using ps(1) by (cases ps) auto
  have t: "tail (map pkg_field ps) rest = [SP] @ pkg_field p @ tail (map pkg_field qs) rest" by (simp add: q)
  have r: "srch_pkgs classname [] (tail (map pkg_field ps) rest) = PkEnd ps NL rest"
    unfolding t using pkgs_read [of p qs "[SP]" classname "[]" rest] ps(2) q by simp
  obtain w where w: "tail (map pkg_field ps) rest = w @ rest" by (simp add: tail_def)
  have "(st s e (w @ rest))\<lparr>s_e := e', s_v := vto rest (s_v (st s e (w @ rest)))\<rparr> = st s e' rest" for e'
    using st_step [of s w rest] l unfolding w by simp
  moreover have "s_e (st s e x) = e" for x by (simp add: st_def)
  ultimately show ?thesis using e(2) unfolding srch_found_def st_vrest [OF l] r
    by (simp add: copypath_def e(1) w Let_def)
qed

text \<open>The entry the search returns: the fields of the line, and the packages.\<close>

definition cf_read :: "cfent \<Rightarrow> cfent \<Rightarrow> cfent" where
  "cf_read e0 e = (set_pkgs (pinfo e) (map_read e0 e))"

lemma cf_read_fields:
  assumes "ftype e \<noteq> CHR ''i''" "volno e = volno e0" "path e = Some p"
  shows "(set_pkgs (pinfo e) (cf_fields_read (e0\<lparr>path := Some [], ainfo := (ainfo e0)\<lparr>local := local (ainfo e)\<rparr>,
      ftype := ftype e, pkg_class := pkg_class e\<rparr>) e))\<lparr>path := Some p\<rparr> = cf_read e0 e"
proof -
  define b1 b2 b3 where b: "b1 = (ftype e \<in> set ''cb'')" "b2 = (ftype e \<in> set ''cbdxpfve'')" "b3 = (ftype e \<in> set ''ifve'')"
  have m: "(ftype e \<in> set ''dxcbpfve'') = b2" "(ftype e \<in> set ''fve'') = b3" using assms(1) unfolding b by auto
  show ?thesis
    unfolding cf_read_def cf_fields_read_def map_read_def Let_def m b [symmetric] if_not_P [OF assms(1)] set_pkgs_def
    using assms(2,3) by (cases b1; cases b2; cases b3) (auto intro!: cfent.equality ainfo.equality)
qed

text \<open>The round at the entry searched for, and what follows.\<close>

lemma entry_match:
  assumes rest: "vrest (s_v sb) = tl (line_tail (contents_line e)) @ R" and pos: "0 \<le> vCurr (s_v sb)"
    and e: "cf_ent_ok e" "path e = Some a"
    and s0: "s0\<lparr>s_v := vset (vpos (s_v s0) + 1) (s_v s0)\<rparr> = sb"
    and c: "deref_at (vMem (s_v s0)) (vpos (s_v s0)) = hd (line_tail (contents_line e))"
    and eb: "s_e sb = e0\<lparr>path := Some []\<rparr>" "local (ainfo e0) = None"
  defines "e1 \<equiv> e0\<lparr>path := Some [], ainfo := (ainfo e0)\<lparr>local := local (ainfo e)\<rparr>, ftype := ftype e, pkg_class := pkg_class e\<rparr>"
  shows "srch_entry (Some a) False False i a s0 = Inr (Match a (st sb e1 (tail (mid_fields e) R)))"
    "left sb (tail (mid_fields e) R)"
proof -
  have eo: "ftype e \<in> set ''?fvelspcbdx''" "name_ok e" "word_ok (pkg_class e)" "length (pkg_class e) < CLSSIZ"
    using e(1) unfolding cf_ent_ok_def by blast+
  have nm: "word_ok a" "\<And>y. local (ainfo e) = Some y \<Longrightarrow> word_ok y \<and> length y < PATH_MAX"
    using eo(2) e(2) unfolding name_ok_def by auto
  note lt = contents_line_ok(3) [OF e]
  have n: "path_cmp (Some a) False a = 0"
    using path_cmp_order(2) [of a a] word_free [OF nm(1)] nm(1) by (simp add: word_ok_def)
  let ?F = "tail (pkg_class e # mid_fields e) R"
  have T: "tail fs [] @ R = tail fs R" for fs by (simp add: tail_def)
  show "left sb (tail (mid_fields e) R)"
  proof (cases "local (ainfo e)")
    case None
    then show ?thesis using rest lt T [of "mid_fields e"] unfolding left_def
      by (intro exI [of _ "ftype e # SP # pkg_class e"]) simp
  next
    case (Some y)
    then show ?thesis using rest lt T [of "mid_fields e"] unfolding left_def
      by (intro exI [of _ "y @ SP # ftype e # SP # pkg_class e"]) simp
  qed
  show "srch_entry (Some a) False False i a s0 = Inr (Match a (st sb e1 (tail (mid_fields e) R)))"
  proof (cases "local (ainfo e)")
    case None
    have r: "vrest (s_v sb) = [] @ ftype e # ?F" using rest lt None T [of "mid_fields e"] by simp
    have l: "left sb ([] @ ftype e # ?F)" unfolding left_def r [symmetric] by (intro exI [of _ "[]"]) simp
    have t: "srch_type f sb k = k (st sb ((s_e sb)\<lparr>ftype := ftype e, pkg_class := pkg_class e\<rparr>) (tail (mid_fields e) R))" for f k
      using type_read [OF l _ eo(1,3,4), of f "s_e sb" k] st_self [OF pos] unfolding r by simp
    have e1: "(s_e sb)\<lparr>ftype := ftype e, pkg_class := pkg_class e\<rparr> = e1"
      unfolding eb(1) e1_def None using eb(2) by (auto intro!: cfent.equality ainfo.equality)
    have "hd (line_tail (contents_line e)) \<noteq> CHR ''=''" using lt None by simp
    then show ?thesis unfolding srch_entry_def Let_def n c s0 by (simp add: t e1)
  next
    case (Some y)
    let ?G = "tail ([ftype e] # pkg_class e # mid_fields e) R"
    have r: "vrest (s_v sb) = y @ ?G" using rest lt Some T [of "mid_fields e"] by simp
    have l: "left sb ([SP] @ ftype e # ?F)" unfolding left_def r by (intro exI [of _ y]) simp
    have g: "cf_getstr iswordsep PATH_MAX (y @ ?G) = (0, Some y, ?G)"
      using cf_getstr_word [of y PATH_MAX "[]" "[ftype e] # pkg_class e # mid_fields e" R] nm(2) [OF Some]
      by (simp del: tail_simps)
    have st: "st sb x ?G = sb\<lparr>s_v := vto ?G (s_v sb), s_e := x\<rparr>" for x by (simp add: st_def)
    have t: "srch_type f (sb\<lparr>s_v := vto ?G (s_v sb), s_e := set_local y (s_e sb)\<rparr>) k =
        k (st sb ((set_local y (s_e sb))\<lparr>ftype := ftype e, pkg_class := pkg_class e\<rparr>) (tail (mid_fields e) R))" for f k
      using type_read [OF l _ eo(1,3,4), of f "set_local y (s_e sb)" k] unfolding st [symmetric] by simp
    have e1: "(set_local y (s_e sb))\<lparr>ftype := ftype e, pkg_class := pkg_class e\<rparr> = e1"
      unfolding eb(1) e1_def Some set_local_def by (auto intro!: cfent.equality ainfo.equality)
    have "hd (line_tail (contents_line e)) = CHR ''=''" using lt Some by simp
    then show ?thesis unfolding srch_entry_def Let_def n c s0 r g prod.case
      using t e1 by (simp add: r del: tail_simps)
  qed
qed

lemma round_match:
  assumes cf: "cf_at v pre ls cs junk" "lines_ok ls cs" and k: "k < length ls" and at: "at_line v pre ls k s"
    and e: "cf_ent_ok e" "path e = Some a" "ls ! k = contents_line e"
    and e0: "\<forall>p. (s_e s)\<lparr>path := p\<rparr> = e0\<lparr>path := p\<rparr>" "local (ainfo e0) = None" "volno e0 = 0"
  shows "srch_match classname (srch_round (Some a) False s) =
    rbind (flush (s\<lparr>s_e := cf_read e0 e, s_v := v\<lparr>vCurr := int (off pre ls (Suc k))\<rparr>\<rparr>)) (\<lambda>s1. Inr (Back 1 None s1))"
proof -
  define R where "R = concat (drop (Suc k) ls) @ concat cs"
  define i where "i = off pre ls k + length a"
  have eo: "ftype e \<in> set ''?fvelspcbdx''" "name_ok e" "num_ok e" "volno e = 0"
    "ftype e \<in> set ''dxcbpfve'' \<longrightarrow> cf_attr_ok e" "pinfo e \<noteq> []" "\<forall>p \<in> set (pinfo e). pkg_ok p"
    using e(1) unfolding cf_ent_ok_def by blast+
  have ni: "ftype e \<noteq> CHR ''i''" using eo(1) by auto
  have nm: "length a < PATH_MAX" "ftype e \<in> set ''sl'' \<longrightarrow> local (ainfo e) \<noteq> None"
    using eo(2) e(2) unfolding name_ok_def by auto
  note cl = contents_line_ok [OF e(1,2)]
  define s0 where "s0 = past_path v pre ls k s"
  define sb where "sb = s\<lparr>s_e := e0\<lparr>path := Some []\<rparr>, s_v := v\<lparr>vCurr := int (i + 1)\<rparr>\<rparr>"
  have v0: "s_v s0 = v\<lparr>vCurr := int i\<rparr>" by (simp add: s0_def past_path_def i_def e(3) cl(2))
  have s0: "s0\<lparr>s_v := vset (vpos (s_v s0) + 1) (s_v s0)\<rparr> = sb"
    unfolding v0 vset_inc unfolding s0_def past_path_def sb_def using e0(1) by simp
  have rest: "vrest (s_v sb) = tl (line_tail (contents_line e)) @ R"
    using vrest_tail [OF cf k] cl(2) by (simp add: sb_def i_def R_def e(3))
  have len: "length a < length (contents_line e)" by (rule line_tailE [OF cl(1)]) (simp add: cl(2))
  then have "str_at (cf_mem pre ls cs junk) i = line_tail (contents_line e) @ R"
    using str_at_in_line [OF cf(2) k, of "length a" pre junk] cl(2) by (simp add: i_def R_def e(3) line_tail_def)
  moreover obtain x w where "line_tail (contents_line e) = x # w" by (rule line_tailE [OF cl(1)]) simp
  ultimately have c: "deref_at (vMem (s_v s0)) (vpos (s_v s0)) = hd (line_tail (contents_line e))"
    using cf(1) by (simp add: v0 vpos_def deref_str_at cf_at_def)
  define e1 where "e1 = e0\<lparr>path := Some [], ainfo := (ainfo e0)\<lparr>local := local (ainfo e)\<rparr>, ftype := ftype e, pkg_class := pkg_class e\<rparr>"
  note m = entry_match [OF rest _ e(1,2) s0 c _ e0(2), folded e1_def]
  have m1: "srch_round (Some a) False s = Inr (Match a (st sb e1 (tail (mid_fields e) R)))" "left sb (tail (mid_fields e) R)"
    using m round_line [OF cf k at] by (simp_all add: sb_def s0_def e(3) cl(2))
  have f: "srch_fields a (st sb e1 (tail (mid_fields e) R)) =
      Inr (Match a (st sb (cf_fields_read e1 e) (tail (map pkg_field (pinfo e)) R)))"
    using fields_read [of sb e "map pkg_field (pinfo e)" R e1 a] m1(2) nm(2) ni eo(3,5) unfolding mid_fields_def [symmetric]
    by (simp only: mid_fields_def [symmetric]) (simp add: e1_def)
  have l2: "left sb (tail (map pkg_field (pinfo e)) R)"
    using m1(2) left_tails [of sb "dev_fields e @ attr_fields e @ (if ftype e \<in> set ''fve'' then cont_fields e else [])"]
    unfolding mid_fields_def append.assoc by blast
  have ft: "ftype (cf_fields_read e1 e) \<noteq> CHR ''i''" using ni by (simp add: cf_fields_read_def Let_def e1_def)
  note found = found_read [OF l2 eo(6,7) ft nm(1), of classname]
  have cr: "(set_pkgs (pinfo e) (cf_fields_read e1 e))\<lparr>path := Some a\<rparr> = cf_read e0 e"
    unfolding e1_def using ni eo(4) e0(3) e(2) by (intro cf_read_fields) simp_all
  have "length (contents_line e) = length a + length (line_tail (contents_line e))" "line_tail (contents_line e) \<noteq> []"
    using len by (simp_all add: line_tail_def cl(2))
  then have "off pre ls (Suc k) = i + 1 + length (tl (line_tail (contents_line e)))"
    using off_Suc [OF k, of pre] e(3) by (cases "line_tail (contents_line e)") (simp_all add: i_def)
  then have "vto R (s_v sb) = v\<lparr>vCurr := int (off pre ls (Suc k))\<rparr>"
    using vto_facts(2) [OF rest] by (simp add: sb_def vpos_def nat_add_distrib)
  then have "st sb (cf_read e0 e) R = s\<lparr>s_e := cf_read e0 e, s_v := v\<lparr>vCurr := int (off pre ls (Suc k))\<rparr>\<rparr>"
    by (simp add: st_def sb_def)
  then show ?thesis unfolding m1(1) srch_match_def by (simp add: f found cr)
qed

text \<open>A result that is not another round ends the loop.\<close>

lemma loop_last:
  assumes "srch_match classname (srch_round pth anypath s) = Inr (Back r err s')"
  shows "map_option (srch_match classname) (srch_loop (Suc m) pth anypath s) = Some (Inr (Back r err s'))"
  using assms by (cases "srch_round pth anypath s") (auto simp: srch_match_def split: srch_step.splits)

lemma place_member:
  assumes "cf_sorted ls" "l \<in> set ls"
  shows "place ls (line_path l) < length ls" "ls ! place ls (line_path l) = l"
proof -
  let ?j = "place ls (line_path l)"
  obtain i where i: "i < length ls" "ls ! i = l" using assms(2) by (auto simp: in_set_conv_nth)
  have le: "?j \<le> i" using place_facts(2) [of i ls "line_path l"] i(2) by force
  moreover have "\<not> ?j < i"
  proof
    assume lt: "?j < i"
    then have "line_path (ls ! ?j) < line_path l"
      using assms(1) i sorted_wrt_nth_less [of _ ls ?j i] by (auto simp: cf_sorted_def)
    moreover have "line_path l \<le> line_path (ls ! ?j)" using place_facts(3) [of ls "line_path l"] lt i(1) by simp
    ultimately show False by simp
  qed
  ultimately show "?j < length ls" "ls ! ?j = l" using i by auto
qed

text \<open>The state \<open>srchcfile\<close> starts from.\<close>

lemma srch_clear_facts: "local (ainfo (srch_clear ept)) = None" "volno (srch_clear ept) = 0"
  by (simp_all add: srch_clear_def)

section \<open>The results of a search\<close>

lemma search_found:
  assumes cf: "cf_search v pre ls cs junk a" and e: "cf_ent_ok e" "path e = Some a" "contents_line e \<in> set ls"
    and fuel: "length ls < fuel" and t: "vfp_ok t"
  shows "\<exists>s t'. srchcfile fuel classname ept (Some a) v (Some t) = Some (Inr (Back 1 None s)) \<and>
    s_e s = cf_read (srch_clear ept) e \<and> ls ! place ls a = contents_line e \<and>
    s_v s = v\<lparr>vCurr := int (off pre ls (Suc (place ls a)))\<rparr> \<and> s_tmp s = Some t' \<and> appended (concat (take (place ls a) ls)) t t'"
proof -
  let ?j = "place ls a"
  have c: "cf_at v pre ls cs junk" "lines_ok ls cs" "cf_sorted ls" using cf by (simp_all add: cf_search_def)
  have j: "?j < length ls" "ls ! ?j = contents_line e"
    using place_member [OF c(3) e(3)] contents_line_ok(2) [OF e(1,2)] by simp_all
  obtain n where n: "fuel = length ls + Suc n" using fuel by (metis less_imp_Suc_add add_Suc_right)
  obtain s m where s: "srchcfile fuel classname ept (Some a) v (Some t) =
      map_option (srch_match classname) (srch_loop m (Some a) False s)" "Suc n \<le> m" "at_line v pre ls ?j s"
    "s_tmp s = Some t" "\<forall>p. (s_e s)\<lparr>path := p\<rparr> = (srch_clear ept)\<lparr>path := p\<rparr>"
    using search_reaches [OF cf _ n] j(1) by blast
  obtain m' where m': "m = Suc m'" using s(2) by (cases m) auto
  note r = round_match [OF c(1,2) j(1) s(3) e(1,2) j(2) s(5) srch_clear_facts, of classname]
  define s1 where "s1 = s\<lparr>s_e := cf_read (srch_clear ept) e, s_v := v\<lparr>vCurr := int (off pre ls (Suc ?j))\<rparr>\<rparr>"
  have s1: "vMem (s_v s1) = pre @ concat (take ?j ls) @ (concat (drop ?j ls) @ concat cs @ NUL # junk)"
    using c(1) cf_mem_take [of pre ls cs junk ?j] by (simp add: s1_def cf_at_def)
  obtain t' where t': "flush s1 = Inr (s1\<lparr>s_tmp := Some t'\<rparr>)" "appended (concat (take ?j ls)) t t'"
    using flush_data [OF s1, of t] s(3,4) t by (auto simp: s1_def at_line_def off_def)
  have "srch_match classname (srch_round (Some a) False s) = Inr (Back 1 None (s1\<lparr>s_tmp := Some t'\<rparr>))"
    unfolding r s1_def [symmetric] t'(1) by simp
  then have "srchcfile fuel classname ept (Some a) v (Some t) = Some (Inr (Back 1 None (s1\<lparr>s_tmp := Some t'\<rparr>)))"
    unfolding s(1) m' by (intro loop_last)
  then show ?thesis using t' j(2) by (auto simp: s1_def)
qed

lemma search_insert:
  assumes cf: "cf_search v pre ls cs junk a" and j: "place ls a < length ls" "line_path (ls ! place ls a) \<noteq> a"
    and len: "length (line_path (ls ! place ls a)) < PATH_MAX" and fuel: "length ls < fuel" and t: "vfp_ok t"
  shows "\<exists>s t'. srchcfile fuel classname ept (Some a) v (Some t) = Some (Inr (Back 2 None s)) \<and>
    s_v s = v\<lparr>vCurr := int (off pre ls (place ls a))\<rparr> \<and>
    s_e s = (srch_clear ept)\<lparr>path := Some (line_path (ls ! place ls a))\<rparr> \<and> s_tmp s = Some t' \<and> appended (concat (take (place ls a) ls)) t t'"
proof -
  let ?j = "place ls a"
  have c: "cf_at v pre ls cs junk" "lines_ok ls cs" "NUL \<notin> set a" using cf by (simp_all add: cf_search_def)
  obtain n where n: "fuel = length ls + Suc n" using fuel by (metis less_imp_Suc_add add_Suc_right)
  obtain s m where s: "srchcfile fuel classname ept (Some a) v (Some t) =
      map_option (srch_match classname) (srch_loop m (Some a) False s)" "Suc n \<le> m" "at_line v pre ls ?j s"
    "s_tmp s = Some t" "\<forall>p. (s_e s)\<lparr>path := p\<rparr> = (srch_clear ept)\<lparr>path := p\<rparr>"
    using search_reaches [OF cf _ n] j(1) by blast
  obtain m' where m': "m = Suc m'" using s(2) by (cases m) auto
  have "a < line_path (ls ! ?j)" using place_facts(3) [OF j(1)] j(2) by auto
  note r = round_greater [OF c(1,2) j(1) s(3) c(3) this len]
  define s1 where "s1 = s\<lparr>s_e := (s_e s)\<lparr>path := Some (line_path (ls ! ?j))\<rparr>, s_v := v\<lparr>vCurr := int (off pre ls ?j)\<rparr>\<rparr>"
  have s1: "vMem (s_v s1) = pre @ concat (take ?j ls) @ (concat (drop ?j ls) @ concat cs @ NUL # junk)"
    using c(1) cf_mem_take [of pre ls cs junk ?j] by (simp add: s1_def cf_at_def)
  obtain t' where t': "flush s1 = Inr (s1\<lparr>s_tmp := Some t'\<rparr>)" "appended (concat (take ?j ls)) t t'"
    using flush_data [OF s1, of t] s(3,4) t by (auto simp: s1_def at_line_def off_def)
  have "srch_round (Some a) False s = Inr (Back 2 None (s1\<lparr>s_tmp := Some t'\<rparr>))"
    unfolding r s1_def [symmetric] t'(1) by simp
  then have "srchcfile fuel classname ept (Some a) v (Some t) = Some (Inr (Back 2 None (s1\<lparr>s_tmp := Some t'\<rparr>)))"
    unfolding s(1) m' by (simp add: srch_match_def)
  then show ?thesis using t' s(5) by (auto simp: s1_def)
qed

lemma search_end:
  assumes cf: "cf_search v pre ls cs junk a" and j: "place ls a = length ls" "cs \<noteq> []"
    and fuel: "length ls + length cs < fuel" and t: "vfp_ok t" "vHighWater t \<le> vEnd t"
  shows "\<exists>s t'. srchcfile fuel classname ept (Some a) v (Some t) = Some (Inr (Back 0 None s)) \<and>
    s_v s = v\<lparr>vCurr := vHighWater v + 1\<rparr> \<and> s_tmp s = Some t' \<and> appended (concat ls) t t'"
proof -
  have c: "cf_at v pre ls cs junk" "lines_ok ls cs" using cf by (simp_all add: cf_search_def)
  obtain n where n: "fuel = length ls + (length cs + Suc n)" using fuel by (metis less_imp_Suc_add add.assoc add_Suc_right)
  obtain s m where s: "srchcfile fuel classname ept (Some a) v (Some t) =
      map_option (srch_match classname) (srch_loop m (Some a) False s)" "length cs + Suc n \<le> m"
    "at_line v pre ls (length ls) s" "s_tmp s = Some t"
    using search_reaches [OF cf _ n, where j = "length ls" and classname = classname and ept = ept and tmp = "Some t"]
      j(2) j(1) [symmetric] by blast
  obtain m' where m': "m = length cs + Suc m'" using s(2) by (metis add.assoc add_Suc_right le_Suc_ex add_Suc)
  define s1 where "s1 = s\<lparr>s_v := v\<lparr>vCurr := int (coff pre ls cs (length cs))\<rparr>\<rparr>"
  have v: "s_v s = v\<lparr>vCurr := int (coff pre ls cs 0)\<rparr>" using s(3) by (simp add: at_line_def off_def coff_def)
  have loop: "srch_loop m (Some a) False s = srch_loop (Suc m') (Some a) False s1"
    using loop_comments [OF c _ v, of "Suc m'"] by (simp add: m' s1_def)
  have hw: "int (coff pre ls cs (length cs)) = vHighWater v + 1" using c(1) by (simp add: cf_at_def coff_def)
  have s1: "vfpGetBytesRemaining (s_v s1) \<le> 0" "vMem (s_v s1) = pre @ concat ls @ (concat cs @ NUL # junk)"
    "s_first s1 = length pre" "s_skip s1 \<and> s_last s1 = length pre + length (concat ls)" "s_tmp s1 = Some t"
    using s(3,4) c(1) hw by (simp_all add: s1_def vfpGetBytesRemaining_def at_line_def cf_at_def cf_mem_def off_def)
  obtain t' where "srch_round (Some a) False s1 = Inr (Back 0 None (s1\<lparr>s_tmp := Some t'\<rparr>))" "appended (concat ls) t t'"
    using round_end [OF s1 t] by blast
  then show ?thesis using hw unfolding s(1) loop
    by (intro exI [of _ "s1\<lparr>s_tmp := Some t'\<rparr>"]) (simp add: srch_match_def s1_def)
qed

lemma search_end_bare:
  assumes cf: "cf_search v pre ls [] junk a" and j: "place ls a = length ls"
    and fuel: "Suc (length ls) < fuel" and t: "vfp_ok t" "vHighWater t \<le> vEnd t"
  shows "\<exists>s t'. srchcfile fuel classname ept (Some a) v (Some t) = Some (Inr (Back 0 None s)) \<and>
    s_v s = v\<lparr>vCurr := vEnd v, vOverflow := True\<rparr> \<and> s_tmp s = Some t' \<and> appended (butlast (concat ls)) t t'"
proof -
  have c: "cf_at v pre ls [] junk" "lines_ok ls []" "NUL \<notin> set a" "ls \<noteq> []" using cf by (simp_all add: cf_search_def)
  define k where "k = length ls - 1"
  have k: "Suc k = length ls" "k < length ls" using c(4) by (simp_all add: k_def)
  obtain n where n: "fuel = length ls + Suc (Suc n)" using fuel by (metis less_imp_Suc_add add_Suc_right add_Suc)
  obtain s m where s: "srchcfile fuel classname ept (Some a) v (Some t) =
      map_option (srch_match classname) (srch_loop m (Some a) False s)" "Suc (Suc n) \<le> m"
    "at_line v pre ls k s" "s_tmp s = Some t"
    using search_reaches [OF cf _ n, where j = k and classname = classname and ept = ept and tmp = "Some t"] j k by blast
  have lt: "line_path (ls ! k) < a" using place_facts(2) [of k ls a] j k by simp
  obtain s1 where r: "srch_round (Some a) False s = Inr (Again s1)" "s_v s1 = after_line v pre ls [] k"
    "s_tmp s1 = s_tmp s" "s_first s1 = length pre" "s_skip s1 \<and> s_last s1 = vpos (after_line v pre ls [] k)"
    using round_less [OF c(1,2) k(2) s(3) c(3) lt] s(4) by auto
  obtain m' where m': "m = Suc (Suc m')" using s(2) by (metis Suc_le_D Suc_le_mono)
  have ne: "concat ls \<noteq> []" using concat_pos [OF c(2)] c(4) by auto
  have v: "vEnd v = int (length pre + length (butlast (concat ls)))" "vHighWater v = vEnd v"
    using c(1) ne by (cases "concat ls"; simp add: cf_at_def)+
  have "vMem v = pre @ butlast (concat ls) @ ([last (concat ls)] @ NUL # junk)"
    using c(1) append_butlast_last_id [OF ne] by (simp add: cf_at_def cf_mem_def)
  then have s1: "vfpGetBytesRemaining (s_v s1) \<le> 0"
    "vMem (s_v s1) = pre @ butlast (concat ls) @ ([last (concat ls)] @ NUL # junk)"
    "s_first s1 = length pre" "s_skip s1 \<and> s_last s1 = length pre + length (butlast (concat ls))" "s_tmp s1 = Some t"
    using r(2-5) v k s(4) by (simp_all add: after_line_def vfpGetBytesRemaining_def vpos_def nat_int_add)
  obtain t' where "srch_round (Some a) False s1 = Inr (Back 0 None (s1\<lparr>s_tmp := Some t'\<rparr>))" "appended (butlast (concat ls)) t t'"
    using round_end [OF s1 t] by blast
  then show ?thesis using r(1,2) k unfolding s(1) m'
    by (intro exI [of _ "s1\<lparr>s_tmp := Some t'\<rparr>"]) (simp add: srch_match_def after_line_def)
qed

section \<open>A database of two entries\<close>

definition sample_ents :: "cfent list" where
  "sample_ents = [sample_ent, sample_ent\<lparr>path := Some ''/etc/x''\<rparr>]"

definition sample_note :: "string list" where
  "sample_note = [''# end'' @ [NL]]"

definition sample_db :: "string list \<Rightarrow> vfp" where
  "sample_db cs = (let m = cf_mem [] (map contents_line sample_ents) cs [] in
     vfp0\<lparr>vMem := m, vHighWater := int (length m) - 2, vEnd := int (length m) - 2\<rparr>)"

definition sample_tmp :: vfp where
  "sample_tmp = vfp0\<lparr>vMem := replicate 500 NUL, vEnd := 499\<rparr>"

lemma sample_tmp_ok: "vfp_ok sample_tmp" "vHighWater sample_tmp \<le> vEnd sample_tmp"
  by (simp_all add: sample_tmp_def vfp_ok_def vfp0_def)

lemma sample_ents_ok: "\<forall>e \<in> set sample_ents. cf_ent_ok e"
  by (simp add: sample_ents_def sample_ent_def cf_ent_ok_def name_ok_def num_ok_def word_ok_def isspace_def
      CLSSIZ_def PATH_MAX_def cf_attr_ok_def ATRSIZ_def pkg_ok_def ispkgnamesep_def PKGSIZ_def
      BADMAJOR_def)

lemma sample_paths:
  "line_path (contents_line sample_ent) = ''/bin/ls''"
  "line_path (contents_line (sample_ent\<lparr>path := Some ''/etc/x''\<rparr>)) = ''/etc/x''"
  using contents_line_ok(2) [of sample_ent "''/bin/ls''"] contents_line_ok(2) [of "sample_ent\<lparr>path := Some ''/etc/x''\<rparr>" "''/etc/x''"]
    sample_ents_ok by (simp_all add: sample_ents_def sample_ent_def)

lemma sample_search:
  assumes "cs = [] \<or> cs = sample_note" "deref a = SLASH" "NUL \<notin> set a"
  shows "cf_search (sample_db cs) [] (map contents_line sample_ents) cs [] a"
proof -
  have "line_ok (contents_line e)" if "e \<in> set sample_ents" for e
    using contents_line_ok(1) [of e "the (path e)"] sample_ents_ok that by (auto simp: sample_ents_def sample_ent_def)
  moreover have "\<forall>c \<in> set cs. comment_ok c" using assms(1) by (auto simp: sample_note_def comment_ok_def)
  moreover have "cf_sorted (map contents_line sample_ents)"
    using sample_paths by (simp add: cf_sorted_def sample_ents_def less_char_def)
  ultimately show ?thesis using assms(2,3)
    by (auto simp: cf_search_def lines_ok_def cf_at_def sample_db_def sample_ents_def vfp0_def cf_mem_def Let_def)
qed

text \<open>
  C12. Insert and look up: in a sorted database, an entry whose line \<open>putcfile\<close> or \<open>putcvfpfile\<close> wrote is
  found by its path. \<open>srchcfile\<close> answers 1 with every field of the entry as it was written (fields the
  type does not have keep their defaults), the cursor is behind the entry, and exactly the entries before
  it were copied to the new database, as long as they fit.
\<close>

theorem srchcfile_finds:
  assumes cf: "cf_search v pre ls cs junk a" and e: "cf_ent_ok e" "path e = Some a" "contents_line e \<in> set ls"
    and fuel: "length ls < fuel" and t: "vfp_ok t"
  shows "\<exists>s t'. srchcfile fuel classname ept (Some a) v (Some t) = Some (Inr (Back 1 None s)) \<and>
    s_e s = cf_read (srch_clear ept) e \<and> ls ! place ls a = contents_line e \<and>
    s_v s = v\<lparr>vCurr := int (off pre ls (Suc (place ls a)))\<rparr> \<and> s_tmp s = Some t' \<and> vfp_ok t' \<and>
    (vfp_room t' \<longrightarrow> vfp_text t' = vfp_text t @ concat (take (place ls a) ls))"
  using search_found [OF cf e fuel t] unfolding appended_def by blast


theorem srchcfile_finds_witness:
  "\<exists>s t'. srchcfile 3 [] sample_ent (Some ''/etc/x'') (sample_db sample_note) (Some sample_tmp) = Some (Inr (Back 1 None s)) \<and>
    s_e s = cf_read (srch_clear sample_ent) (sample_ent\<lparr>path := Some ''/etc/x''\<rparr>) \<and> s_tmp s = Some t' \<and> vfp_ok t'"
  using srchcfile_finds [OF sample_search [of sample_note "''/etc/x''"], of "sample_ent\<lparr>path := Some ''/etc/x''\<rparr>" 3 sample_tmp "[]" sample_ent]
    sample_ents_ok sample_tmp_ok by (auto simp: sample_ents_def)

text \<open>
  C15. In a sorted database, a path that is not in it and has an entry behind it: \<open>srchcfile\<close> answers 2,
  leaves the cursor at the start of the first entry that is greater, with the path of that entry and
  everything else cleared, and has copied exactly the entries before it to the new database, as long as
  they fit; one round for each entry is enough.
\<close>

theorem srchcfile_insert_point:
  assumes cf: "cf_search v pre ls cs junk a" and j: "place ls a < length ls" "line_path (ls ! place ls a) \<noteq> a"
    and len: "length (line_path (ls ! place ls a)) < PATH_MAX" and fuel: "length ls < fuel" and t: "vfp_ok t"
  shows "\<exists>s t'. srchcfile fuel classname ept (Some a) v (Some t) = Some (Inr (Back 2 None s)) \<and>
    s_v s = v\<lparr>vCurr := int (off pre ls (place ls a))\<rparr> \<and>
    s_e s = (srch_clear ept)\<lparr>path := Some (line_path (ls ! place ls a))\<rparr> \<and> s_tmp s = Some t' \<and> vfp_ok t' \<and>
    (vfp_room t' \<longrightarrow> vfp_text t' = vfp_text t @ concat (take (place ls a) ls))"
  using search_insert [OF cf j len fuel t] unfolding appended_def by blast

theorem srchcfile_insert_point_witness:
  "\<exists>s t'. srchcfile 3 [] sample_ent (Some ''/bin/zsh'') (sample_db sample_note) (Some sample_tmp) = Some (Inr (Back 2 None s)) \<and>
    s_v s = (sample_db sample_note)\<lparr>vCurr := int (off [] (map contents_line sample_ents) 1)\<rparr> \<and>
    path (s_e s) = Some ''/etc/x'' \<and> s_tmp s = Some t' \<and> vfp_ok t'"
proof -
  have p: "place (map contents_line sample_ents) ''/bin/zsh'' = 1"
    using sample_paths by (simp add: place_def sample_ents_def less_char_def)
  have l: "line_path (map contents_line sample_ents ! 1) = ''/etc/x''" using sample_paths(2) by (simp add: sample_ents_def)
  have "length (map contents_line sample_ents) = 2" by (simp add: sample_ents_def)
  then show ?thesis
    using srchcfile_insert_point [OF sample_search [of sample_note "''/bin/zsh''"] _ _ _ _ sample_tmp_ok(1), of 3 "[]" sample_ent] p l
    by (auto simp: PATH_MAX_def)
qed

text \<open>
  C16. In a sorted database whose entries are followed by comment lines, a path behind every entry:
  \<open>srchcfile\<close> answers 0 at the end of the file and has copied all entries, as long as they fit, and not the
  comments. The description of \<open>srchcfile\<close> has all contents of the file copied in this case: the entries are, the
  closing comments are lost.
\<close>

theorem srchcfile_absent:
  assumes cf: "cf_search v pre ls cs junk a" and j: "place ls a = length ls" "cs \<noteq> []"
    and fuel: "length ls + length cs < fuel" and t: "vfp_ok t" "vHighWater t \<le> vEnd t"
  shows "\<exists>s t'. srchcfile fuel classname ept (Some a) v (Some t) = Some (Inr (Back 0 None s)) \<and>
    s_v s = v\<lparr>vCurr := vHighWater v + 1\<rparr> \<and> s_tmp s = Some t' \<and> vfp_ok t' \<and>
    (vfp_room t' \<longrightarrow> vfp_text t' = vfp_text t @ concat ls)"
  using search_end [OF cf j fuel t] unfolding appended_def by blast

theorem srchcfile_absent_witness:
  "\<exists>s t'. srchcfile 4 [] sample_ent (Some ''/usr'') (sample_db sample_note) (Some sample_tmp) = Some (Inr (Back 0 None s)) \<and>
    s_v s = (sample_db sample_note)\<lparr>vCurr := vHighWater (sample_db sample_note) + 1\<rparr> \<and> s_tmp s = Some t' \<and> vfp_ok t'"
proof -
  have p: "place (map contents_line sample_ents) ''/usr'' = length (map contents_line sample_ents)"
    using sample_paths by (simp add: place_def sample_ents_def less_char_def)
  have l: "length (map contents_line sample_ents) = 2" "length sample_note = 1" "sample_note \<noteq> []"
    by (simp_all add: sample_ents_def sample_note_def)
  then show ?thesis
    using srchcfile_absent [OF sample_search [of sample_note "''/usr''"] p _ _ sample_tmp_ok, of 4 "[]" sample_ent] by auto
qed

text \<open>
  Without a comment at the end, a path behind every entry loses the newline of the last entry: the
  increment of the cursor over the last line is capped at the last byte, which stays out of the copy.
\<close>

theorem srchcfile_drops_newline:
  assumes cf: "cf_search v pre ls [] junk a" and j: "place ls a = length ls"
    and fuel: "Suc (length ls) < fuel" and t: "vfp_ok t" "vHighWater t \<le> vEnd t"
  shows "\<exists>s t'. srchcfile fuel classname ept (Some a) v (Some t) = Some (Inr (Back 0 None s)) \<and>
    s_v s = v\<lparr>vCurr := vEnd v, vOverflow := True\<rparr> \<and> s_tmp s = Some t' \<and> vfp_ok t' \<and>
    (vfp_room t' \<longrightarrow> vfp_text t' = vfp_text t @ butlast (concat ls))"
  using search_end_bare [OF cf j fuel t] unfolding appended_def by blast

theorem srchcfile_drops_newline_witness:
  "\<exists>s t'. srchcfile 4 [] sample_ent (Some ''/usr'') (sample_db []) (Some sample_tmp) = Some (Inr (Back 0 None s)) \<and>
    s_v s = (sample_db [])\<lparr>vCurr := vEnd (sample_db []), vOverflow := True\<rparr> \<and> s_tmp s = Some t' \<and> vfp_ok t'"
proof -
  have p: "place (map contents_line sample_ents) ''/usr'' = length (map contents_line sample_ents)"
    using sample_paths by (simp add: place_def sample_ents_def less_char_def)
  have l: "length (map contents_line sample_ents) = 2" by (simp add: sample_ents_def)
  then show ?thesis
    using srchcfile_drops_newline [OF sample_search [of "[]" "''/usr''"] p _ sample_tmp_ok, of 4 "[]" sample_ent] by auto
qed

text \<open>
  \<open>narrowSearch\<close> returns the start of an entry of the database, which is the first one or one that
  is not greater than the path: the search never starts behind the place of the path. (The entries
  need not be sorted for this.)
\<close>

theorem narrowSearch_not_greater:
  assumes "cf_at v pre ls cs junk" "lines_ok ls cs" "ls \<noteq> []" "NUL \<notin> set a" "a \<noteq> []"
  shows "\<exists>k < length ls. narrowSearch v (Some a) = Some (off pre ls k) \<and> (k = 0 \<or> line_path (ls ! k) \<le> a)"
  using narrowSearch_lands [OF assms] unfolding lands_def by blast

theorem narrowSearch_not_greater_witness:
  "\<exists>k < length (map contents_line sample_ents).
    narrowSearch (sample_db sample_note) (Some ''/usr'') = Some (off [] (map contents_line sample_ents) k) \<and>
    (k = 0 \<or> line_path (map contents_line sample_ents ! k) \<le> ''/usr'')"
proof -
  note c = sample_search [of sample_note "''/usr''", unfolded cf_search_def]
  show ?thesis
    by (rule narrowSearch_not_greater [where cs = sample_note and junk = "[]"]) (use c in \<open>auto simp: sample_ents_def\<close>)
qed

text \<open>
  An entry in the old style, type and class before the path, is always answered with an error:
  \<open>getstr\<close> leaves the cursor on the blank behind the class, where the code looks for the path.
\<close>

theorem srch_oldstyle_rejected:
  assumes "0 \<le> vCurr (s_v s)" "vfpGetBytesRemaining (s_v s) > 0"
    and "vrest (s_v s) = c # tail (cls # fs) rest" "c \<in> set ''?fvelspcbdx''" "word_ok cls" "length cls < CLSSIZ"
  shows "\<exists>s'. srch_round pth anypath s = Inr (Back (- 1) (Some ERR_CANNOT_READ_PATHNAME_FLD) s')"
proof -
  have l: "left s ([] @ c # tail (cls # fs) rest)" unfolding left_def by (intro exI [of _ "[]"]) (simp add: assms(3))
  have "c \<in> set ''i?fvelspcbdx''" "c \<noteq> SLASH" "c \<noteq> NUL" using assms(4) by auto
  then have c: "\<not> isspace c" "c \<noteq> CHR ''#''" "c \<noteq> CHR '':''" "c \<noteq> SLASH" "c \<noteq> NUL" using type_char [of c] by simp_all
  have d: "deref_at (vMem (s_v s)) (vpos (s_v s)) = c" using assms(3) by (simp add: deref_str_at vrest_def)
  have t: "srch_type f s k = k (st s ((s_e s)\<lparr>ftype := c, pkg_class := cls\<rparr>) (tail fs rest))" for f k
    using type_read [OF l _ assms(4-6), of f "s_e s" k] st_self [OF assms(1)] unfolding assms(3) by simp
  have "left s (tail fs rest)" using left_append [of s "c # SP # cls" "tail fs rest"] l by simp
  then have r: "vrest (s_v (st s ((s_e s)\<lparr>ftype := c, pkg_class := cls\<rparr>) (tail fs rest))) = tail fs rest" by (rule st_vrest)
  have "takeWhile (\<lambda>c. \<not> ispathsep c) (tail fs rest) = []"
    by (rule tail_cases [of fs rest]) (auto simp: ispathsep_def)
  then show ?thesis using assms(2) c d r by (simp add: srch_round_def t Let_def srch_fail0_def)
qed

definition sample_old :: srch where
  "sample_old = \<lparr>s_e = sample_ent, s_v = vfp0\<lparr>vMem := ''f none /bin/ls 0755'' @ [NL, NUL], vHighWater := 20, vEnd := 20\<rparr>,
     s_tmp = None, s_first = 0, s_last = 0, s_skip = False\<rparr>"

theorem srch_oldstyle_rejected_witness:
  "\<exists>s'. srch_round (Some ''/bin/ls'') False sample_old = Inr (Back (- 1) (Some ERR_CANNOT_READ_PATHNAME_FLD) s')"
  by (rule srch_oldstyle_rejected [of sample_old "CHR ''f''" "''none''" "[''/bin/ls'', ''0755'']" "[]"])
     (simp_all add: sample_old_def vfp0_def vfpGetBytesRemaining_def vrest_def vpos_def str_at_def word_ok_def isspace_def CLSSIZ_def)

end
