(* ===== verification/Lockmatch.thy ===== *)
theory Lockmatch
  imports Pkgstr
begin

text \<open>
  The comparison of lock objects, \<open>_lockMatch\<close> of \<open>pkgcmds/pkgadm/lock.c\<close>. A lock object is a path of
  nodes; two objects match when one lies inside the other, which the administrative locks treat as a
  conflict.

  \<open>fnmatch(3)\<close> with no flags is a parameter (\<open>fnm pattern string\<close>, true for the return value 0). The
  variable \<open>s2Cnt\<close> is read uninitialised when the first object has no node; \<open>junk\<close> is what it holds.
\<close>

section \<open>Nodes\<close>

definition MAXPATHLEN :: int where "MAXPATHLEN = 1024"

definition node :: "string \<Rightarrow> nat \<Rightarrow> string \<Rightarrow> string" where
  "node s i seps =
     (case pkgstrGetToken_r None (Some s) (int i) (Some seps) MAXPATHLEN of Inr (_, t) \<Rightarrow> t | Inl _ \<Rightarrow> [])"

lemma node_token:
  assumes "seps \<noteq> []"
  shows "node s i seps = (if i < length (tokens seps s) then take 1023 (tokens seps s ! i) else [])"
proof -
  have "snd (get_token_loop s seps None (int i) s) = (if i < length (tokens seps s) then Some (tokens seps s ! i) else None)"
    using get_token_loop_snd [of "int i" s seps None s] by simp
  then show ?thesis using assms
    by (cases "get_token_loop s seps None (int i) s") (auto simp: node_def pkgstrGetToken_r_def MAXPATHLEN_def)
qed

lemma node_Nil: "seps \<noteq> [] \<Longrightarrow> node s i seps = [] \<longleftrightarrow> length (tokens seps s) \<le> i"
  using tokens_ne [of "tokens seps s ! i" seps s] by (auto simp: node_token)

section \<open>The common anchor\<close>

text \<open>The node of the second object that matches a node of the first, from index \<open>s2Cnt\<close> on.\<close>

function anchor2 :: "string \<Rightarrow> string \<Rightarrow> string \<Rightarrow> bool \<Rightarrow> nat \<Rightarrow> bool \<Rightarrow> nat \<times> string \<times> bool" where
  "anchor2 s2 s1Buf s1Prefix s1Sfx s2Cnt s2Sfx =
     (let s2Buf = node s2 s2Cnt ''/'' in
      if s2Buf = [] then (s2Cnt, [], s2Sfx)
      else
       (let s2Prefix = node s2Buf 0 ''.''; sfx = (length s2Prefix \<noteq> length s2Buf) in
        if \<not> s1Sfx \<or> \<not> sfx then
          if s1Buf = s2Buf then (s2Cnt, s2Buf, sfx) else anchor2 s2 s1Buf s1Prefix s1Sfx (Suc s2Cnt) sfx
        else if s1Prefix = s2Prefix then (s2Cnt, s2Buf, sfx)
        else anchor2 s2 s1Buf s1Prefix s1Sfx (Suc s2Cnt) sfx))"
  by pat_completeness auto
termination
  by (relation "measure (\<lambda>(s2, _, _, _, s2Cnt, _). length (tokens ''/'' s2) - s2Cnt)")
     (auto simp: node_Nil)

declare anchor2.simps [simp del]

text \<open>The loop over the nodes of the first object: both indices, buffers and suffix flags when it ends.\<close>

record anchor =
  a_cnt1 :: nat
  a_buf1 :: string
  a_sfx1 :: bool
  a_cnt2 :: nat
  a_buf2 :: string
  a_sfx2 :: bool

function anchor1 :: "string \<Rightarrow> string \<Rightarrow> anchor \<Rightarrow> anchor" where
  "anchor1 s1 s2 a =
     (let s1Buf = node s1 (a_cnt1 a) ''/'' in
      if s1Buf = [] then a\<lparr>a_buf1 := []\<rparr>
      else
       (let s1Prefix = node s1Buf 0 ''.'';
            sfx = (length s1Prefix \<noteq> length s1Buf);
            (c2, b2, f2) = anchor2 s2 s1Buf s1Prefix sfx 0 (a_sfx2 a);
            a' = \<lparr>a_cnt1 = a_cnt1 a, a_buf1 = s1Buf, a_sfx1 = sfx, a_cnt2 = c2, a_buf2 = b2, a_sfx2 = f2\<rparr> in
        if b2 \<noteq> [] then a' else anchor1 s1 s2 (a'\<lparr>a_cnt1 := Suc (a_cnt1 a)\<rparr>)))"
  by pat_completeness auto
termination
  by (relation "measure (\<lambda>(s1, _, a). length (tokens ''/'' s1) - a_cnt1 a)") (auto simp: node_Nil)

declare anchor1.simps [simp del]

section \<open>From the anchor on\<close>

text \<open>The cursor moved behind that many slashes.\<close>

fun advance :: "nat \<Rightarrow> string \<Rightarrow> string" where
  "advance 0 p = p"
| "advance (Suc n) [] = []"
| "advance (Suc n) (c # p) = (if c = CHR ''/'' then advance n p else advance (Suc n) p)"

function nodes_match :: "(string \<Rightarrow> string \<Rightarrow> bool) \<Rightarrow> string \<Rightarrow> string \<Rightarrow> nat \<Rightarrow> bool" where
  "nodes_match fnm f1 f2 i =
     (let s1Buf = node f1 i ''/''; s2Buf = node f2 i ''/'' in
      if s1Buf = [] \<or> s2Buf = [] then True
      else if fnm s1Buf s2Buf \<or> fnm s2Buf s1Buf then nodes_match fnm f1 f2 (Suc i)
      else False)"
  by pat_completeness auto
termination
  by (relation "measure (\<lambda>(_, f1, _, i). length (tokens ''/'' f1) - i)") (auto simp: node_Nil)

declare nodes_match.simps [simp del]

definition lockMatch :: "(string \<Rightarrow> string \<Rightarrow> bool) \<Rightarrow> nat \<Rightarrow> string \<Rightarrow> string \<Rightarrow> bool" where
  "lockMatch fnm junk s1 s2 =
     (let a = anchor1 s1 s2 \<lparr>a_cnt1 = 0, a_buf1 = [], a_sfx1 = False, a_cnt2 = junk, a_buf2 = [], a_sfx2 = False\<rparr> in
      if a_buf1 a = [] \<and> a_buf2 a = [] then
        \<not> ((a_cnt1 a = 1 \<or> a_cnt2 a = 1) \<and> (\<not> a_sfx1 a \<or> \<not> a_sfx2 a))
      else if a_buf2 a \<noteq> [] \<and> a_buf1 a \<noteq> [] \<and> a_cnt1 a > 0 \<and> a_cnt2 a > 0 then False
      else
       (let (f1, f2) =
          (if a_cnt1 a = 0 \<and> a_cnt2 a = 0 then (s1, s2)
           else if a_cnt1 a \<noteq> 0 \<and> a_cnt2 a = 0 \<and> a_buf2 a \<noteq> [] then
             (if strchr s1 (CHR ''/'') \<noteq> None then advance (a_cnt1 a) s1 else s1, s2)
           else if a_cnt2 a \<noteq> 0 \<and> a_cnt1 a = 0 \<and> a_buf1 a \<noteq> [] then
             (s1, if strchr s2 (CHR ''/'') \<noteq> None then advance (a_cnt2 a) s2 else s2)
           else (s1, s2)) in
        nodes_match fnm f1 f2 0))"

section \<open>An object matches itself\<close>

text \<open>The documented behaviour of \<open>fnmatch\<close> that this rests on: a node matches itself as a pattern.\<close>

definition self_nodes :: "(string \<Rightarrow> string \<Rightarrow> bool) \<Rightarrow> string \<Rightarrow> bool" where
  "self_nodes fnm s \<longleftrightarrow> tokens ''/'' s \<noteq> [] \<and> (\<forall>t \<in> set (tokens ''/'' s). fnm (take 1023 t) (take 1023 t))"

lemma anchor2_self: "b = node s 0 ''/'' \<Longrightarrow> b \<noteq> [] \<Longrightarrow> p = node b 0 ''.'' \<Longrightarrow>
    anchor2 s b p (length p \<noteq> length b) 0 x = (0, b, length p \<noteq> length b)"
  by (subst anchor2.simps) (auto simp: Let_def)

lemma anchor1_self:
  assumes "node s 0 ''/'' \<noteq> []" "a_cnt1 a = 0"
  shows "a_cnt1 (anchor1 s s a) = 0" "a_cnt2 (anchor1 s s a) = 0" "a_buf1 (anchor1 s s a) \<noteq> []"
  using assms anchor2_self [OF refl assms(1) refl] by (subst anchor1.simps, simp add: Let_def)+

lemma nodes_match_self:
  assumes "\<forall>t \<in> set (tokens ''/'' s). fnm (take 1023 t) (take 1023 t)"
  shows "nodes_match fnm s s i"
proof (induction "length (tokens ''/'' s) - i" arbitrary: i)
  case 0
  then show ?case by (subst nodes_match.simps) (simp add: node_Nil)
next
  case (Suc n)
  then have i: "i < length (tokens ''/'' s)" "n = length (tokens ''/'' s) - Suc i" by auto
  then have "fnm (node s i ''/'') (node s i ''/'')" using assms by (simp add: node_token)
  then show ?case using Suc(1) [OF i(2)] by (subst nodes_match.simps) (simp add: Let_def)
qed

lemma lockMatch_self: "self_nodes fnm s \<Longrightarrow> lockMatch fnm junk s s"
proof -
  assume s: "self_nodes fnm s"
  then have n: "node s 0 ''/'' \<noteq> []" by (cases "tokens ''/'' s") (auto simp: self_nodes_def node_Nil)
  show ?thesis using anchor1_self [OF n] nodes_match_self s
    by (simp add: lockMatch_def self_nodes_def Let_def)
qed

end
