(* ===== verification/Adminlock.thy ===== *)
theory Adminlock
  imports Lockmatch
begin

text \<open>
  Administrative locks, \<open>pkgcmds/pkgadm/lock.c\<close>: the lock file, acquiring and releasing a lock, the
  validation of the holder, waiting, and the subcommand \<open>pkgadm lock\<close>.

  The lock file is a list of whole records. \<open>errs\<close> holds the outcomes of the coming system calls (no entry
  left means success). A call that fails changes nothing. A write can also be cut short: it is reported as
  a failure, but a part of the record is in the file, and when it was to be appended the end of the file is no longer
  at the start of a record. Such a file is no list of records any more; it is marked with \<open>torn\<close>, for good, and its
  records are those it had before. The properties of whole runs (\<open>lock_step\<close>) let the records of a torn file
  be anything from then on. A short read is a failure. The environment of a call is a parameter: \<open>fnmatch\<close>, what the uninitialised counter of
  \<open>_lockMatch\<close> holds, the zone, and whether \<open>/proc/<pid>\<close> exists.
\<close>

section \<open>Records and the lock file\<close>

record adminLock =
  lockRecordNum :: nat
  lockCount :: u64
  lockExclusive :: u64
  lockPid :: int
  lockZoneId :: int
  lockKey :: string
  lockObject :: string

definition LOCK_OBJECT_MAXLEN :: nat where "LOCK_OBJECT_MAXLEN = 511"
definition LOCK_KEY_MAXLEN :: nat where "LOCK_KEY_MAXLEN = 37"

definition zero_lock :: adminLock where
  "zero_lock = \<lparr>lockRecordNum = 0, lockCount = 0, lockExclusive = 0, lockPid = 0, lockZoneId = 0, lockKey = [], lockObject = []\<rparr>"

datatype findlock =
    FINDLOCK_FOUND | FINDLOCK_ERROR | FINDLOCK_NOTFOUND | FINDLOCK_KEYMISMATCH | FINDLOCK_LOCKED
  | FINDLOCK_NOTLOCKED | FINDLOCK_LOCKACQUIRED

datatype sysres = Done | Failed | Short

record lfile =
  recs :: "adminLock list"
  errs :: "sysres list"
  torn :: bool

record lenv =
  e_fnm :: "string \<Rightarrow> string \<Rightarrow> bool"
  e_junk :: nat
  e_zone :: int
  e_alive :: "int \<Rightarrow> bool"

text \<open>The outcome of the next system call: whether it fails.\<close>

definition sys_fails :: "lfile \<Rightarrow> bool" where
  "sys_fails f = (case errs f of [] \<Rightarrow> False | b # _ \<Rightarrow> b \<noteq> Done)"

definition cut_short :: "lfile \<Rightarrow> bool" where
  "cut_short f = (case errs f of [] \<Rightarrow> False | b # _ \<Rightarrow> b = Short)"

definition sys_next :: "lfile \<Rightarrow> lfile" where
  "sys_next f = f\<lparr>errs := tl (errs f)\<rparr>"

definition pread_lock :: "lfile \<Rightarrow> nat \<Rightarrow> adminLock option \<times> lfile" where
  "pread_lock f n = (if \<not> sys_fails f \<and> n < length (recs f) then Some (recs f ! n) else None, sys_next f)"

text \<open>A write behind the end leaves a hole of zeros; one that is cut short leaves a torn file.\<close>

definition pwrite_lock :: "lfile \<Rightarrow> nat \<Rightarrow> adminLock \<Rightarrow> bool \<times> lfile" where
  "pwrite_lock f n r =
     (if sys_fails f then (False, (sys_next f)\<lparr>torn := torn f \<or> cut_short f\<rparr>)
      else (True, (sys_next f)\<lparr>recs :=
        (if n < length (recs f) then (recs f)[n := r]
         else recs f @ replicate (n - length (recs f)) zero_lock @ [r])\<rparr>))"

definition ftruncate_lock :: "lfile \<Rightarrow> nat \<Rightarrow> bool \<times> lfile" where
  "ftruncate_lock f n =
     (if sys_fails f then (False, sys_next f) else (True, (sys_next f)\<lparr>recs := take n (recs f)\<rparr>))"

text \<open>\<open>lseek\<close> to the end, in records, and to the start.\<close>

definition lseek_end :: "lfile \<Rightarrow> nat option \<times> lfile" where
  "lseek_end f = (if sys_fails f then None else Some (length (recs f)), sys_next f)"

definition lseek_set :: "lfile \<Rightarrow> bool \<times> lfile" where
  "lseek_set f = (\<not> sys_fails f, sys_next f)"

section \<open>Finding a lock\<close>

lemma sys_next_recs [simp]: "recs (sys_next f) = recs f" "errs (sys_next f) = tl (errs f)" "torn (sys_next f) = torn f"
  by (simp_all add: sys_next_def)

lemma pread_lock_facts [simp]: "recs (snd (pread_lock f n)) = recs f" "torn (snd (pread_lock f n)) = torn f"
  by (simp_all add: pread_lock_def)

lemma pread_lock_Some: "pread_lock f n = (Some r, f') \<Longrightarrow> n < length (recs f) \<and> r = recs f ! n \<and> f' = sys_next f"
  by (auto simp: pread_lock_def split: if_splits)

definition conflicts :: "lenv \<Rightarrow> string \<Rightarrow> string \<Rightarrow> bool" where
  "conflicts env a b = lockMatch (e_fnm env) (e_junk env) a b"

text \<open>
  The loop of \<open>_findLock\<close>; \<open>lk\<close> is the caller's record, which a short read leaves as it was.
\<close>

function find_loop ::
  "lenv \<Rightarrow> lfile \<Rightarrow> string \<Rightarrow> string \<Rightarrow> nat \<Rightarrow> adminLock \<Rightarrow> findlock \<times> nat option \<times> adminLock \<times> lfile" where
  "find_loop env f object key n lk =
     (case pread_lock f n of
        (None, f') \<Rightarrow> (if key \<noteq> [] then FINDLOCK_NOTLOCKED else FINDLOCK_NOTFOUND, None, lk, f')
      | (Some r, f') \<Rightarrow>
          if \<not> conflicts env object (lockObject r) then find_loop env f' object key (Suc n) r
          else if key = [] then (FINDLOCK_LOCKED, Some n, r, f')
          else if lockKey r \<noteq> key then (FINDLOCK_KEYMISMATCH, Some n, r, f')
          else (FINDLOCK_FOUND, Some n, r, f'))"
  by pat_completeness auto
termination
  by (relation "measure (\<lambda>(_, f, _, _, n, _). length (recs f) - n)") (auto dest!: pread_lock_Some [OF sym])

declare find_loop.simps [simp del]

definition findLock ::
  "lenv \<Rightarrow> lfile \<Rightarrow> string \<Rightarrow> string \<Rightarrow> findlock \<times> nat option \<times> adminLock \<times> lfile" where
  "findLock env f object key =
     (case lseek_set f of
        (False, f') \<Rightarrow> (FINDLOCK_ERROR, None, zero_lock, f')
      | (True, f') \<Rightarrow> find_loop env f' object key 0 zero_lock)"

section \<open>Changing the lock file\<close>

text \<open>
  \<open>_addLock\<close> with the key \<open>_getUniqueId\<close> returned: the status, the key for the caller (\<open>strncpy\<close> of
  \<open>LOCK_KEY_MAXLEN\<close> bytes), the file.
\<close>

definition addLock ::
  "string \<Rightarrow> lfile \<Rightarrow> string \<Rightarrow> u64 \<Rightarrow> int \<Rightarrow> int \<Rightarrow> int \<times> string \<times> lfile" where
  "addLock uid f object excl pid zid =
     (case lseek_end f of
        (None, f') \<Rightarrow> (1, [], f')
      | (Some pos, f') \<Rightarrow>
         (let r = \<lparr>lockRecordNum = pos, lockCount = 1, lockExclusive = excl, lockPid = (if pid > 0 then pid else 0),
                   lockZoneId = (if zid \<ge> 0 then zid else - 1), lockKey = strlcpy uid LOCK_KEY_MAXLEN,
                   lockObject = strlcpy object LOCK_OBJECT_MAXLEN\<rparr> in
          case pwrite_lock f' pos r of
            (False, f2) \<Rightarrow> (1, [], f2)
          | (True, f2) \<Rightarrow> (0, take LOCK_KEY_MAXLEN uid, f2)))"

definition incrementLockCount :: "lfile \<Rightarrow> adminLock \<Rightarrow> int \<times> adminLock \<times> lfile" where
  "incrementLockCount f lk =
     (let lk1 = lk\<lparr>lockCount := lockCount lk + 1\<rparr>; (ok, f1) = pwrite_lock f (lockRecordNum lk) lk1 in
      (if ok then 0 else 1, lk1, f1))"

definition decrementLockCount :: "lfile \<Rightarrow> adminLock \<Rightarrow> int \<times> adminLock \<times> lfile" where
  "decrementLockCount f lk =
     (let lk1 = lk\<lparr>lockCount := lockCount lk - 1\<rparr>; rn = lockRecordNum lk in
      if lockCount lk1 > 0 then
        (let (ok, f1) = pwrite_lock f rn lk1 in (if ok then 0 else 1, lk1, f1))
      else
       (case lseek_end f of
          (None, f1) \<Rightarrow> (1, lk1, f1)
        | (Some cnt, f1) \<Rightarrow>
            if Suc rn = cnt then
              (let (ok, f2) = ftruncate_lock f1 (cnt - 1) in (if ok then 0 else 1, lk1, f2))
            else
             (case pread_lock f1 (cnt - 1) of
                (None, f2) \<Rightarrow> (1, lk1, f2)
              | (Some tmp, f2) \<Rightarrow>
                 (case ftruncate_lock f2 (cnt - 1) of
                    (False, f3) \<Rightarrow> (1, lk1, f3)
                  | (True, f3) \<Rightarrow>
                     (let (ok, f4) = pwrite_lock f3 rn (tmp\<lparr>lockRecordNum := rn\<rparr>) in (if ok then 0 else 1, lk1, f4))))))"

text \<open>Whether the holder of a lock is still there; a lock without process, or of another zone, counts as valid.\<close>

definition holder_valid :: "lenv \<Rightarrow> adminLock \<Rightarrow> bool" where
  "holder_valid env lk \<longleftrightarrow> lockPid lk \<le> 0 \<or> lockZoneId lk \<noteq> e_zone env \<or> e_alive env (lockPid lk)"

definition validateLock :: "lenv \<Rightarrow> lfile \<Rightarrow> adminLock \<Rightarrow> bool \<times> adminLock \<times> lfile" where
  "validateLock env f lk =
     (if holder_valid env lk then (True, lk, f)
      else (let (_, lk1, f1) = decrementLockCount f lk in (False, lk1, f1)))"

section \<open>Acquiring, releasing, status\<close>

text \<open>The loop of \<open>_lock_acquire\<close>, which drops locks of holders that are gone; it has fuel.\<close>

fun acquire_find :: "nat \<Rightarrow> lenv \<Rightarrow> lfile \<Rightarrow> string \<Rightarrow> string \<Rightarrow> (findlock \<times> adminLock \<times> lfile) option" where
  "acquire_find 0 env f object key = None"
| "acquire_find (Suc n) env f object key =
     (case findLock env f object key of
        (res, _, lk, f1) \<Rightarrow>
          if res \<noteq> FINDLOCK_LOCKED then Some (res, lk, f1)
          else
           (case validateLock env f1 lk of
              (True, lk1, f2) \<Rightarrow> Some (res, lk1, f2)
            | (False, lk1, f2) \<Rightarrow> acquire_find n env f2 object key))"

definition acquire_inc :: "lfile \<Rightarrow> adminLock \<Rightarrow> findlock \<times> adminLock \<times> lfile" where
  "acquire_inc f lk =
     (let (st, lk1, f1) = incrementLockCount f lk in
      (if st = 0 then FINDLOCK_LOCKACQUIRED else FINDLOCK_ERROR, lk1, f1))"

definition lock_acquire1 ::
  "nat \<Rightarrow> lenv \<Rightarrow> string \<Rightarrow> lfile \<Rightarrow> string \<Rightarrow> string \<Rightarrow> u64 \<Rightarrow> int \<Rightarrow> int \<Rightarrow> (findlock \<times> adminLock \<times> lfile) option" where
  "lock_acquire1 fuel env uid f key object excl pid zid =
     map_option (\<lambda>(res, lk, f1).
       case res of
         FINDLOCK_LOCKED \<Rightarrow>
           if lockExclusive lk \<noteq> 0 \<or> excl \<noteq> 0 then (FINDLOCK_LOCKED, lk, f1) else acquire_inc f1 lk
       | FINDLOCK_NOTFOUND \<Rightarrow>
          (let (st, k, f2) = addLock uid f1 object excl pid zid in
           if st = 0 then (FINDLOCK_LOCKACQUIRED, lk\<lparr>lockKey := k\<rparr>, f2) else (FINDLOCK_ERROR, lk, f2))
       | FINDLOCK_FOUND \<Rightarrow>
           if excl \<noteq> lockExclusive lk then (FINDLOCK_LOCKED, lk, f1) else acquire_inc f1 lk
       | FINDLOCK_LOCKACQUIRED \<Rightarrow> (FINDLOCK_ERROR, lk, f1)
       | _ \<Rightarrow> (res, lk, f1))
     (acquire_find fuel env f object key)"

definition lock_release :: "lenv \<Rightarrow> lfile \<Rightarrow> string \<Rightarrow> string \<Rightarrow> findlock \<times> lfile" where
  "lock_release env f key object =
     (case findLock env f object key of
        (FINDLOCK_FOUND, _, lk, f1) \<Rightarrow> (let (_, _, f2) = decrementLockCount f1 lk in (FINDLOCK_FOUND, f2))
      | (FINDLOCK_LOCKACQUIRED, _, _, f1) \<Rightarrow> (FINDLOCK_ERROR, f1)
      | (res, _, _, f1) \<Rightarrow> (res, f1))"

definition lock_kind :: "adminLock \<Rightarrow> string" where
  "lock_kind r = (if lockExclusive r \<noteq> 0 then ''exclusive'' else ''shared'')"

definition status_line :: "nat \<Rightarrow> adminLock \<Rightarrow> string" where
  "status_line n r =
     pad_left SP 2 (show_nat n) @ [SP] @ pad_left SP 2 (show_nat (lockRecordNum r)) @ [SP] @
     pad_left SP 3 (show_int (sint (lockCount r))) @ [SP] @ pad_left SP 8 (show_int (lockPid r)) @ [SP] @
     pad_left SP 3 (show_int (lockZoneId r)) @ [SP] @ pad_left SP 9 (lock_kind r) @ [SP] @
     pad_left SP 37 (lockKey r) @ [SP] @ (if lockObject r = [] then ''*'' else lockObject r) @ [NL]"

definition status_header :: string where
  "status_header =
     ''i# l# cnt      pid zid lock-type '' @ pad_left SP 37 ''---------------lock-key-------------'' @
     '' lock-object'' @ [NL]"

text \<open>The loop of \<open>lock_status\<close>: the number of locks found, the output, the file.\<close>

function status_loop :: "lfile \<Rightarrow> string \<Rightarrow> string \<Rightarrow> bool \<Rightarrow> nat \<Rightarrow> nat \<Rightarrow> string \<Rightarrow> nat \<times> string \<times> lfile" where
  "status_loop f key object quiet n found out =
     (case pread_lock f n of
        (None, f') \<Rightarrow> (found, out, f')
      | (Some r, f') \<Rightarrow>
          if key \<noteq> [] \<and> lockKey r \<noteq> key \<or> object \<noteq> [] \<and> lockObject r \<noteq> object
          then status_loop f' key object quiet (Suc n) found out
          else status_loop f' key object quiet (Suc n) (Suc found)
            (if quiet then out else out @ (if found = 0 then status_header else []) @ status_line n r))"
  by pat_completeness auto
termination
  by (relation "measure (\<lambda>(f, _, _, _, n, _, _). length (recs f) - n)") (auto dest!: pread_lock_Some [OF sym])

declare status_loop.simps [simp del]

definition lock_status :: "lfile \<Rightarrow> string \<Rightarrow> string \<Rightarrow> bool \<Rightarrow> int \<times> string \<times> lfile" where
  "lock_status f key object quiet =
     (let (found, out, f') = status_loop f key object quiet 0 0 [] in (if found = 0 then 1 else 0, out, f'))"

section \<open>Waiting\<close>

text \<open>
  Other processes own the lock file while \<open>lock_acquire\<close> sleeps. An attempt carries what the process
  meets: the file as it is when it is opened again (\<open>None\<close> when that fails), a fresh key, whether a
  signal arrived, and the time at the test for the timeout. The outcome is \<open>None\<close> while it waits.
\<close>

record attempt =
  at_file :: "lfile option"
  at_uid :: string
  at_signal :: bool
  at_time :: int

fun lock_wait ::
  "nat \<Rightarrow> lenv \<Rightarrow> string \<Rightarrow> string \<Rightarrow> bool \<Rightarrow> int \<Rightarrow> int \<Rightarrow> u64 \<Rightarrow> int \<Rightarrow> int \<Rightarrow> adminLock \<Rightarrow> attempt list \<Rightarrow>
   (findlock \<times> adminLock \<times> lfile option) option" where
  "lock_wait fuel env key object wait timeout deadline excl pid zid lk [] = None"
| "lock_wait fuel env key object wait timeout deadline excl pid zid lk (a # as) =
     (case at_file a of
        None \<Rightarrow> Some (FINDLOCK_ERROR, lk, None)
      | Some f \<Rightarrow>
         (case lock_acquire1 fuel env (at_uid a) f key object excl pid zid of
            None \<Rightarrow> None
          | Some (res, lk1, f1) \<Rightarrow>
              if res \<noteq> FINDLOCK_LOCKED then Some (res, lk1, Some f1)
              else if \<not> wait \<or> at_signal a then Some (FINDLOCK_LOCKED, lk1, Some f1)
              else if timeout > 0 \<and> at_time a > deadline then Some (FINDLOCK_ERROR, lk1, Some f1)
              else lock_wait fuel env key object wait timeout deadline excl pid zid lk1 as))"

text \<open>The time after which an acquisition times out, a 64-bit \<open>time_t\<close>.\<close>

definition lock_deadline :: "int \<Rightarrow> int \<Rightarrow> int" where
  "lock_deadline now timeout = sint (word_of_int (now + timeout) :: u64)"

definition lock_acquire ::
  "nat \<Rightarrow> lenv \<Rightarrow> int \<Rightarrow> string \<Rightarrow> string \<Rightarrow> bool \<Rightarrow> int \<Rightarrow> u64 \<Rightarrow> int \<Rightarrow> int \<Rightarrow> attempt list \<Rightarrow>
   (findlock \<times> adminLock \<times> lfile option) option" where
  "lock_acquire fuel env now key object wait timeout excl pid zid as =
     lock_wait fuel env key object wait timeout (lock_deadline now timeout) excl pid zid zero_lock as"

text \<open>
  \<open>_openLockFile\<close>: the descriptor or \<open>None\<close>, and the seconds slept. \<open>acc\<close> is the test for the
  directory, \<open>opn k\<close> and \<open>lkf k\<close> the outcomes of the \<open>k\<close>-th \<open>open\<close> (an \<open>errno\<close> or a descriptor) and
  \<open>lockf\<close>. The \<open>k\<close>-th wait takes \<open>2 ^ k\<close> seconds.
\<close>

definition WAITER_MAX :: nat where "WAITER_MAX = 60"
definition EACCES :: int where "EACCES = 13"

lemma waiter_bound: "2 ^ k < WAITER_MAX \<Longrightarrow> k < 6"
proof (rule ccontr)
  assume w: "2 ^ k < WAITER_MAX" and "\<not> k < 6"
  then have "2 ^ 6 \<le> (2 ^ k :: nat)" by (intro power_increasing) auto
  then show False using w by (simp add: WAITER_MAX_def)
qed

function open_wait :: "(nat \<Rightarrow> int + nat) \<Rightarrow> nat \<Rightarrow> nat \<Rightarrow> nat option \<times> nat" where
  "open_wait opn k slept =
     (if 2 ^ k < WAITER_MAX then
        (case opn k of
           Inr fd \<Rightarrow> (Some fd, slept)
         | Inl e \<Rightarrow> if e = EACCES then (None, slept) else open_wait opn (Suc k) (slept + 2 ^ k))
      else (None, slept))"
  by pat_completeness auto
termination
  by (relation "measure (\<lambda>(_, k, _). 6 - k)") (auto dest: waiter_bound)

function lockf_wait :: "(nat \<Rightarrow> bool) \<Rightarrow> nat \<Rightarrow> nat \<Rightarrow> bool \<times> nat" where
  "lockf_wait lkf k slept =
     (if 2 ^ k < WAITER_MAX then (if lkf k then (True, slept) else lockf_wait lkf (Suc k) (slept + 2 ^ k))
      else (False, slept))"
  by pat_completeness auto
termination
  by (relation "measure (\<lambda>(_, k, _). 6 - k)") (auto dest: waiter_bound)

declare open_wait.simps [simp del] lockf_wait.simps [simp del]

definition openLockFile :: "bool \<Rightarrow> (nat \<Rightarrow> int + nat) \<Rightarrow> (nat \<Rightarrow> bool) \<Rightarrow> nat option \<times> nat" where
  "openLockFile acc opn lkf =
     (if \<not> acc then (None, 0)
      else
       (case open_wait opn 0 0 of
          (None, t) \<Rightarrow> (None, t)
        | (Some fd, t) \<Rightarrow> (case lockf_wait lkf 0 t of (ok, t') \<Rightarrow> (if ok then Some fd else None, t'))))"

text \<open>
  \<open>_getUniqueId\<close>: the output of \<open>makeuuid\<close> up to a blank, or a key made of the local time (without a
  high resolution timer on this system).
\<close>

record tm =
  tm_mday :: int
  tm_mon :: int
  tm_year :: int
  tm_yday :: int
  tm_hour :: int
  tm_min :: int
  tm_sec :: int
  tm_wday :: int

definition zpad :: "nat \<Rightarrow> int \<Rightarrow> string" where
  "zpad w n = (if n < 0 then CHR ''-'' # pad_left (CHR ''0'') (w - 1) (show_int (- n)) else pad_left (CHR ''0'') w (show_int n))"

definition getUniqueId :: "string option \<Rightarrow> tm \<Rightarrow> string" where
  "getUniqueId makeuuid t =
     (case makeuuid of
        Some (c # r) \<Rightarrow> takeWhile (\<lambda>x. x \<notin> set [SP, TAB, NL]) (c # r)
      | _ \<Rightarrow> take (LOCK_KEY_MAXLEN - 1)
          (zpad 2 (tm_mday t) @ zpad 2 (tm_mon t) @ zpad 2 (tm_year t) @ zpad 3 (tm_yday t) @ ''-'' @
           zpad 2 (tm_hour t) @ zpad 2 (tm_min t) @ zpad 2 (tm_sec t) @ show_int (tm_wday t) @ ''-'' @
           replicate 16 (CHR ''0'')))"

section \<open>The subcommand\<close>

text \<open>
  \<open>strtol(s, &endptr, 10)\<close>: the value, saturated to 64 bits, the text at \<open>endptr\<close>, and whether \<open>errno\<close>
  was set (overflow, or nothing converted).
\<close>

definition strtol10 :: "string \<Rightarrow> int \<times> string \<times> bool" where
  "strtol10 s =
     (let t = dropWhile isspace s;
          neg = (deref t = CHR ''-'');
          u = (if deref t = CHR ''-'' \<or> deref t = CHR ''+'' then drop 1 t else t);
          ds = takeWhile isdigit u;
          v = (if neg then - int (read_nat ds) else int (read_nat ds)) in
      if ds = [] then (0, s, True)
      else if v > 2 ^ 63 - 1 then (2 ^ 63 - 1, dropWhile isdigit u, True)
      else if v < - (2 ^ 63) then (- (2 ^ 63), dropWhile isdigit u, True)
      else (v, dropWhile isdigit u, False))"

text \<open>Conversion to \<open>int\<close>, the type of \<open>pid_t\<close>, \<open>zoneid_t\<close> and the result of \<open>atoi\<close>.\<close>

definition to_int32 :: "int \<Rightarrow> int" where
  "to_int32 v = sint (word_of_int v :: u32)"

record lflags =
  f_a :: bool
  f_e :: bool
  f_k :: string
  f_o :: string
  f_p :: int
  f_q :: bool
  f_r :: bool
  f_R :: string
  f_s :: bool
  f_t :: bool
  f_w :: bool
  f_W :: int
  f_z :: int

definition lflags0 :: lflags where
  "lflags0 = \<lparr>f_a = False, f_e = False, f_k = [], f_o = [], f_p = 0, f_q = False, f_r = False, f_R = ''/'',
     f_s = False, f_t = False, f_w = False, f_W = 0, f_z = - 1\<rparr>"

definition opt_num :: "(int \<Rightarrow> int) \<Rightarrow> string \<Rightarrow> int option" where
  "opt_num conv arg =
     (let (v, endp, err) = strtol10 arg in
      if endp \<noteq> [] then None else if conv v = 0 \<and> err then None else Some (conv v))"

text \<open>One option; \<open>mkroot\<close> tells whether the root and its \<open>tmp\<close> directory exist or could be made.\<close>

definition lock_opt :: "(string \<Rightarrow> bool) \<Rightarrow> char \<times> string \<Rightarrow> lflags \<Rightarrow> lflags option" where
  "lock_opt mkroot opt fl =
     (let c = fst opt; arg = snd opt in
      if c = CHR ''a'' then Some (fl\<lparr>f_a := True\<rparr>)
      else if c = CHR ''e'' then Some (fl\<lparr>f_e := True\<rparr>)
      else if c = CHR ''k'' then (if length arg > LOCK_KEY_MAXLEN then None else Some (fl\<lparr>f_k := arg\<rparr>))
      else if c = CHR ''o'' then (if length arg > LOCK_OBJECT_MAXLEN then None else Some (fl\<lparr>f_o := arg\<rparr>))
      else if c = CHR ''p'' then map_option (\<lambda>v. fl\<lparr>f_p := v\<rparr>) (opt_num to_int32 arg)
      else if c = CHR ''q'' then Some (fl\<lparr>f_q := True\<rparr>)
      else if c = CHR ''r'' then Some (fl\<lparr>f_r := True\<rparr>)
      else if c = CHR ''R'' then (if deref arg \<noteq> CHR ''/'' \<or> \<not> mkroot arg then None else Some (fl\<lparr>f_R := arg\<rparr>))
      else if c = CHR ''s'' then Some (fl\<lparr>f_s := True\<rparr>)
      else if c = CHR ''t'' then Some (fl\<lparr>f_t := True\<rparr>)
      else if c = CHR ''w'' then Some (fl\<lparr>f_w := True\<rparr>)
      else if c = CHR ''W'' then map_option (\<lambda>v. fl\<lparr>f_W := v, f_w := True\<rparr>) (opt_num id arg)
      else if c = CHR ''z'' then map_option (\<lambda>v. fl\<lparr>f_z := v\<rparr>) (opt_num to_int32 arg)
      else None)"

fun lock_opts :: "(string \<Rightarrow> bool) \<Rightarrow> (char \<times> string) list \<Rightarrow> lflags \<Rightarrow> lflags option" where
  "lock_opts mkroot [] fl = Some fl"
| "lock_opts mkroot (opt # opts) fl =
     (case lock_opt mkroot opt fl of None \<Rightarrow> None | Some fl' \<Rightarrow> lock_opts mkroot opts fl')"

text \<open>The test comparison, \<open>-t\<close>.\<close>

definition lock_test :: "lenv \<Rightarrow> string list \<Rightarrow> int" where
  "lock_test env args =
     (case args of
        [x, y] \<Rightarrow> (if conflicts env x y then 0 else 1)
      | [x, y, n] \<Rightarrow> (if (if conflicts env x y then 0 else 1) = to_int32 (fst (strtol10 n)) then 0 else 1)
      | _ \<Rightarrow> 1)"

definition flags_ok :: "lflags \<Rightarrow> string list \<Rightarrow> bool" where
  "flags_ok fl args \<longleftrightarrow>
     args = [] \<and> \<not> (f_a fl \<and> f_r fl) \<and> \<not> (f_e fl \<and> f_s fl) \<and> \<not> (\<not> f_a fl \<and> f_e fl) \<and> \<not> (\<not> f_a fl \<and> f_s fl)"

definition findlock_code :: "findlock \<Rightarrow> int" where
  "findlock_code r = (case r of FINDLOCK_FOUND \<Rightarrow> 0 | FINDLOCK_ERROR \<Rightarrow> - 1 | FINDLOCK_NOTFOUND \<Rightarrow> - 2
     | FINDLOCK_KEYMISMATCH \<Rightarrow> - 3 | FINDLOCK_LOCKED \<Rightarrow> - 4 | FINDLOCK_NOTLOCKED \<Rightarrow> - 5 | FINDLOCK_LOCKACQUIRED \<Rightarrow> - 6)"

text \<open>
  \<open>admin_lock\<close> with the options and operands \<open>getopt\<close> found: the result, the output, and the file. The
  first attempt is the file as \<open>_openLockFile\<close> opened it; \<open>now\<close> is the time. \<open>None\<close> while it waits.
\<close>

definition admin_lock ::
  "nat \<Rightarrow> lenv \<Rightarrow> (string \<Rightarrow> bool) \<Rightarrow> int \<Rightarrow> attempt list \<Rightarrow> (char \<times> string) list \<Rightarrow> string list \<Rightarrow>
   (int \<times> string \<times> lfile option) option" where
  "admin_lock fuel env mkroot now as opts args =
     (case lock_opts mkroot opts lflags0 of
        None \<Rightarrow> Some (1, [], None)
      | Some fl \<Rightarrow>
          if f_t fl then Some (lock_test env args, [], None)
          else if \<not> flags_ok fl args then Some (1, [], None)
          else
           (case as of
              [] \<Rightarrow> None
            | a # _ \<Rightarrow>
               (case at_file a of
                  None \<Rightarrow> Some (1, [], None)
                | Some f \<Rightarrow>
                    if f_a fl then
                      map_option (\<lambda>(res, lk, f').
                          case res of
                            FINDLOCK_LOCKACQUIRED \<Rightarrow> (0, lockKey lk @ [NL], f')
                          | FINDLOCK_LOCKED \<Rightarrow> (1, lockObject lk @ [NL], f')
                          | _ \<Rightarrow> (1, [], f'))
                        (lock_acquire fuel env now (f_k fl) (f_o fl) (f_w fl) (f_W fl) (if f_s fl then 0 else 1)
                           (f_p fl) (f_z fl) as)
                    else if f_r fl then
                      (case lock_release env f (f_k fl) (f_o fl) of (res, f') \<Rightarrow> Some (findlock_code res, [], Some f'))
                    else
                      (case lock_status f (f_k fl) (f_o fl) (f_q fl) of (st, out, f') \<Rightarrow> Some (st, out, Some f')))))"

end
