(* ===== verification/Lockinv.thy ===== *)
theory Lockinv
  imports Adminlock "HOL-Library.Multiset"
begin

text \<open>
  Correctness of the administrative locks: the invariant of the lock file under every sequence of
  commands and failures, termination of the loop that drops dead holders, mutual exclusion, and what an
  acquired lock and its release do to the file.
\<close>

section \<open>The invariant of the file\<close>

text \<open>Every record knows its position and has a holder.\<close>

definition lock_ok :: "lfile \<Rightarrow> bool" where
  "lock_ok f \<longleftrightarrow> (\<forall>i < length (recs f). lockRecordNum (recs f ! i) = i \<and> lockCount (recs f ! i) \<noteq> 0)"

definition holders :: "lfile \<Rightarrow> nat" where
  "holders f = sum_list (map (\<lambda>r. unat (lockCount r)) (recs f))"

text \<open>No count is at its maximum.\<close>

definition room_ok :: "lfile \<Rightarrow> bool" where
  "room_ok f \<longleftrightarrow> (\<forall>r \<in> set (recs f). lockCount r \<noteq> - 1)"

text \<open>What a decrement does to the records, failures included; \<open>n\<close> is the position of the record.\<close>

definition dec_recs :: "nat \<Rightarrow> adminLock list \<Rightarrow> adminLock list \<Rightarrow> bool" where
  "dec_recs n rs rs' \<longleftrightarrow>
     (if lockCount (rs ! n) = 1
      then rs' = butlast rs \<or> rs' = (butlast rs)[n := (last rs)\<lparr>lockRecordNum := n\<rparr>]
      else rs' = rs[n := (rs ! n)\<lparr>lockCount := lockCount (rs ! n) - 1\<rparr>])"

lemma errs_fails: "sys_fails f \<Longrightarrow> length (tl (errs f)) < length (errs f)"
  by (cases "errs f") (auto simp: sys_fails_def)

lemma errs_tl: "length (tl (errs f)) \<le> length (errs f)"
  by simp

lemma pwrite_in:
  assumes "pwrite_lock f n r = (ok, f')" "n < length (recs f)"
  shows "length (errs f') \<le> length (errs f)"
    "ok \<and> recs f' = (recs f)[n := r] \<or> \<not> ok \<and> recs f' = recs f \<and> length (errs f') < length (errs f)"
  using assms errs_fails [of f] by (auto simp: pwrite_lock_def split: if_splits)

lemma take_last: "take (length xs - Suc 0) xs = butlast xs"
  by (simp add: butlast_conv_take)

lemma sys_upd [simp]:
  "sys_fails (f\<lparr>recs := rs\<rparr>) = sys_fails f" "sys_next (f\<lparr>recs := rs\<rparr>) = (sys_next f)\<lparr>recs := rs\<rparr>"
  "cut_short (f\<lparr>recs := rs\<rparr>) = cut_short f"
  by (simp_all add: sys_fails_def sys_next_def cut_short_def)

text \<open>The removal of a record, call by call.\<close>

lemma dec_one:
  assumes "lockCount lk = 1" "lockRecordNum lk = n" "n < length (recs f)"
  defines "f1 \<equiv> sys_next f" and "f2 \<equiv> sys_next (sys_next f)" and "f3 \<equiv> sys_next (sys_next (sys_next f))"
    and "f4 \<equiv> sys_next (sys_next (sys_next (sys_next f)))"
  shows "decrementLockCount f lk =
    (if sys_fails f then (1, lk\<lparr>lockCount := 0\<rparr>, f1)
     else if Suc n = length (recs f) then
       (if sys_fails f1 then (1, lk\<lparr>lockCount := 0\<rparr>, f2) else (0, lk\<lparr>lockCount := 0\<rparr>, f2\<lparr>recs := butlast (recs f)\<rparr>))
     else if sys_fails f1 then (1, lk\<lparr>lockCount := 0\<rparr>, f2)
     else if sys_fails f2 then (1, lk\<lparr>lockCount := 0\<rparr>, f3)
     else if sys_fails f3 then (1, lk\<lparr>lockCount := 0\<rparr>, f4\<lparr>recs := butlast (recs f), torn := torn f \<or> cut_short f3\<rparr>)
     else (0, lk\<lparr>lockCount := 0\<rparr>, f4\<lparr>recs := (butlast (recs f))[n := (last (recs f))\<lparr>lockRecordNum := n\<rparr>]\<rparr>))"
proof -
  have "recs f \<noteq> []" using assms(3) by auto
  then have ne: "recs f \<noteq> []" "recs f ! (length (recs f) - 1) = last (recs f)" by (simp_all add: last_conv_nth)
  have nb: "Suc n \<noteq> length (recs f) \<Longrightarrow> n < length (recs f) - 1" using assms(3) by simp
  show ?thesis using assms(1,2,3) ne nb unfolding f1_def f2_def f3_def f4_def
    by (simp add: decrementLockCount_def Let_def lseek_end_def pread_lock_def ftruncate_lock_def pwrite_lock_def take_last)
qed

lemma dec_result:
  assumes ok: "lock_ok f" and n: "n < length (recs f)" and lk: "lk = recs f ! n"
    and d: "decrementLockCount f lk = (st, lk1, f')"
  shows "length (errs f') \<le> length (errs f)"
    "recs f' = recs f \<and> length (errs f') < length (errs f) \<or> dec_recs n (recs f) (recs f')"
    "errs f = [] \<Longrightarrow> st = 0 \<and> errs f' = [] \<and> recs f' =
      (if lockCount lk = 1 then (if Suc n = length (recs f) then butlast (recs f)
         else (butlast (recs f))[n := (last (recs f))\<lparr>lockRecordNum := n\<rparr>])
       else (recs f)[n := lk\<lparr>lockCount := lockCount lk - 1\<rparr>])"
proof -
  have rn: "lockRecordNum lk = n" "lockCount lk \<noteq> 0" using ok n lk by (simp_all add: lock_ok_def)
  have "length (errs f') \<le> length (errs f) \<and>
    (recs f' = recs f \<and> length (errs f') < length (errs f) \<or> dec_recs n (recs f) (recs f')) \<and>
    (errs f = [] \<longrightarrow> st = 0 \<and> errs f' = [] \<and> recs f' =
      (if lockCount lk = 1 then (if Suc n = length (recs f) then butlast (recs f)
         else (butlast (recs f))[n := (last (recs f))\<lparr>lockRecordNum := n\<rparr>])
       else (recs f)[n := lk\<lparr>lockCount := lockCount lk - 1\<rparr>]))"
  proof (cases "lockCount lk = 1")
    case False
    then have "lockCount lk - 1 > 0" by (simp add: word_gt_0)
    then have w: "pwrite_lock f n (lk\<lparr>lockCount := lockCount lk - 1\<rparr>) = (st = 0, f')" "st = 0 \<or> st = 1"
      using d rn(1) by (auto simp: decrementLockCount_def Let_def split: prod.splits if_splits)
    then show ?thesis using pwrite_in [OF w(1) n] False lk
      by (auto simp: dec_recs_def pwrite_lock_def sys_fails_def)
  next
    case True
    note d1 = dec_one [OF True rn(1) n, unfolded d]
    have e: "errs f = [] \<Longrightarrow> \<not> sys_fails f \<and> \<not> sys_fails (sys_next f) \<and> \<not> sys_fails (sys_next (sys_next f)) \<and>
        \<not> sys_fails (sys_next (sys_next (sys_next f)))" by (simp add: sys_fails_def)
    have l: "length (errs (sys_next f)) \<le> length (errs f)" for f by simp
    show ?thesis
      using d1 e True lk errs_fails [of f] errs_fails [of "sys_next f"] errs_fails [of "sys_next (sys_next f)"]
      by (auto simp: dec_recs_def split: if_splits)
  qed
  then show "length (errs f') \<le> length (errs f)"
    "recs f' = recs f \<and> length (errs f') < length (errs f) \<or> dec_recs n (recs f) (recs f')"
    "errs f = [] \<Longrightarrow> st = 0 \<and> errs f' = [] \<and> recs f' =
      (if lockCount lk = 1 then (if Suc n = length (recs f) then butlast (recs f)
         else (butlast (recs f))[n := (last (recs f))\<lparr>lockRecordNum := n\<rparr>])
       else (recs f)[n := lk\<lparr>lockCount := lockCount lk - 1\<rparr>])" by simp_all
qed

lemma dec_recs_holders:
  assumes "dec_recs n rs rs'" "n < length rs" "\<forall>r \<in> set rs. lockCount r \<noteq> 0"
  shows "sum_list (map (\<lambda>r. unat (lockCount r)) rs') < sum_list (map (\<lambda>r. unat (lockCount r)) rs)"
proof -
  let ?h = "\<lambda>rs. sum_list (map (\<lambda>r. unat (lockCount r)) rs)" and ?c = "\<lambda>r. unat (lockCount r)"
  have ne: "rs \<noteq> []" using assms(2) by auto
  have c: "lockCount (rs ! n) \<noteq> 0" "lockCount (last rs) \<noteq> 0" using assms(2,3) ne by simp_all
  then have pos: "?c (rs ! n) > 0" "?c (last rs) > 0" using unat_gt_0 by blast+
  have upd: "?h (xs[n := r]) + ?c (xs ! n) = ?h xs + ?c r" if "n < length xs" for xs r
  proof -
    have "?c (xs ! n) \<le> ?h xs" using that by (intro elem_le_sum_list [of n "map ?c xs", simplified]) simp
    then show ?thesis using that sum_list_update [of n "map ?c xs" "?c r"] by (simp add: map_update)
  qed
  have b: "?h rs = ?h (butlast rs) + ?c (last rs)" using assms(2)
    by (subst append_butlast_last_id [of rs, symmetric]) (auto simp del: append_butlast_last_id)
  show ?thesis
  proof (cases "lockCount (rs ! n) = 1")
    case True
    then have "rs' = butlast rs \<or> rs' = (butlast rs)[n := (last rs)\<lparr>lockRecordNum := n\<rparr>]" using assms(1) by (simp add: dec_recs_def)
    moreover have "?h ((butlast rs)[n := (last rs)\<lparr>lockRecordNum := n\<rparr>]) < ?h rs"
    proof (cases "n < length rs - 1")
      case True
      then show ?thesis using upd [of "butlast rs" "(last rs)\<lparr>lockRecordNum := n\<rparr>"] b pos by (simp add: nth_butlast)
    next
      case False
      then have "(butlast rs)[n := (last rs)\<lparr>lockRecordNum := n\<rparr>] = butlast rs" by (intro list_update_beyond) simp
      then show ?thesis using b pos by simp
    qed
    ultimately show ?thesis using b pos by auto
  next
    case False
    then have "rs' = rs[n := (rs ! n)\<lparr>lockCount := lockCount (rs ! n) - 1\<rparr>]" using assms(1) by (simp add: dec_recs_def)
    moreover have "unat (lockCount (rs ! n) - 1) < ?c (rs ! n)" using c(1) pos(1) by (simp add: unat_minus_one)
    ultimately show ?thesis using upd [OF assms(2), of "(rs ! n)\<lparr>lockCount := lockCount (rs ! n) - 1\<rparr>"] by simp
  qed
qed

lemma dec_recs_ok:
  assumes "dec_recs n rs rs'" "n < length rs" "\<forall>i < length rs. lockRecordNum (rs ! i) = i \<and> lockCount (rs ! i) \<noteq> 0"
  shows "\<forall>i < length rs'. lockRecordNum (rs' ! i) = i \<and> lockCount (rs' ! i) \<noteq> 0"
proof (cases "lockCount (rs ! n) = 1")
  case True
  have l: "lockCount (last rs) \<noteq> 0" using assms(2,3) by (cases rs rule: rev_cases) (auto simp: nth_append)
  have u: "(butlast rs)[n := r] ! i = (if i = n then r else rs ! i)" if "i < length rs - 1" for i r
    using that by (simp add: nth_list_update nth_butlast)
  from True assms(1) consider "rs' = butlast rs" | "rs' = (butlast rs)[n := (last rs)\<lparr>lockRecordNum := n\<rparr>]"
    by (auto simp: dec_recs_def)
  then show ?thesis
  proof cases
    case 1
    then show ?thesis using assms(3) by (simp add: nth_butlast)
  next
    case 2
    then show ?thesis using assms(3) l u by simp
  qed
next
  case False
  then show ?thesis using assms unfolding dec_recs_def by (auto simp: nth_list_update)
qed

lemma dec_recs_room:
  assumes "dec_recs n rs rs'" "n < length rs" "\<forall>r \<in> set rs. lockCount r \<noteq> 0 \<and> lockCount r \<noteq> - 1"
  shows "\<forall>r \<in> set rs'. lockCount r \<noteq> - 1"
proof
  fix r assume r: "r \<in> set rs'"
  have ne: "rs \<noteq> []" using assms(2) by auto
  show "lockCount r \<noteq> - 1"
  proof (cases "lockCount (rs ! n) = 1")
    case True
    then have "r \<in> set (butlast rs) \<or> r = (last rs)\<lparr>lockRecordNum := n\<rparr>"
      using r assms(1) set_update_subset_insert [of "butlast rs" n] by (auto simp: dec_recs_def)
    then show ?thesis using assms(3) ne by (auto dest: in_set_butlastD)
  next
    case False
    then have "r \<in> set rs \<or> r = (rs ! n)\<lparr>lockCount := lockCount (rs ! n) - 1\<rparr>"
      using r assms(1) set_update_subset_insert [of rs n] by (auto simp: dec_recs_def)
    then show ?thesis using assms(2,3) nth_mem [OF assms(2)] by auto
  qed
qed

section \<open>Finding a lock\<close>

text \<open>A record that was found lies in the file and matches the request.\<close>

lemma find_loop_facts:
  "find_loop env f object key n lk = (res, m, lk', f') \<Longrightarrow>
     recs f' = recs f \<and> length (errs f') \<le> length (errs f) \<and> res \<noteq> FINDLOCK_LOCKACQUIRED \<and>
     (res = FINDLOCK_LOCKED \<or> res = FINDLOCK_FOUND \<longrightarrow>
       (\<exists>i. m = Some i \<and> i < length (recs f) \<and> lk' = recs f ! i \<and> conflicts env object (lockObject lk')))"
proof (induction env f object key n lk rule: find_loop.induct)
  case (1 env f object key n lk)
  show ?case
  proof (cases "pread_lock f n")
    case (Pair o1 f1)
    have f1: "f1 = sys_next f" using Pair by (simp add: pread_lock_def)
    show ?thesis
    proof (cases o1)
      case None
      then show ?thesis using 1(2) Pair f1 by (subst (asm) find_loop.simps) (auto split: if_splits)
    next
      case (Some r)
      then have r: "n < length (recs f)" "r = recs f ! n" using pread_lock_Some [of f n r f1] Pair by simp_all
      show ?thesis
      proof (cases "conflicts env object (lockObject r)")
        case True
        then show ?thesis using 1(2) Pair Some r f1 by (subst (asm) find_loop.simps) (auto split: if_splits)
      next
        case False
        then have "find_loop env f1 object key (Suc n) r = (res, m, lk', f')"
          using 1(2) Pair Some by (subst (asm) find_loop.simps) simp
        from 1(1) [OF Pair [symmetric] Some False this] show ?thesis using f1 by auto
      qed
    qed
  qed
qed

lemma findLock_facts:
  assumes "findLock env f object key = (res, m, lk, f')"
  shows "recs f' = recs f" "length (errs f') \<le> length (errs f)" "res \<noteq> FINDLOCK_LOCKACQUIRED"
    "res = FINDLOCK_LOCKED \<or> res = FINDLOCK_FOUND \<Longrightarrow>
       \<exists>i. m = Some i \<and> i < length (recs f) \<and> lk = recs f ! i \<and> conflicts env object (lockObject lk)"
  using assms find_loop_facts [of env "sys_next f" object key 0 zero_lock res m lk f']
  by (auto simp: findLock_def lseek_set_def split: if_splits bool.splits)

text \<open>The outcome without failures: the first record that matches, if there is one.\<close>

definition first_match :: "lenv \<Rightarrow> lfile \<Rightarrow> string \<Rightarrow> nat \<Rightarrow> bool" where
  "first_match env f object i \<longleftrightarrow> i < length (recs f) \<and> conflicts env object (lockObject (recs f ! i)) \<and>
     (\<forall>j < i. \<not> conflicts env object (lockObject (recs f ! j)))"

definition no_match :: "lenv \<Rightarrow> lfile \<Rightarrow> string \<Rightarrow> bool" where
  "no_match env f object \<longleftrightarrow> (\<forall>r \<in> set (recs f). \<not> conflicts env object (lockObject r))"

definition find_code :: "string \<Rightarrow> adminLock \<Rightarrow> findlock" where
  "find_code key r = (if key = [] then FINDLOCK_LOCKED else if lockKey r \<noteq> key then FINDLOCK_KEYMISMATCH else FINDLOCK_FOUND)"

lemma sys_clean [simp]: "errs f = [] \<Longrightarrow> sys_next f = f" "errs f = [] \<Longrightarrow> \<not> sys_fails f"
  by (simp_all add: sys_next_def sys_fails_def)

lemma find_loop_clean:
  assumes "errs f = []" "first_match env f object i" "n \<le> i"
  shows "find_loop env f object key n lk = (find_code key (recs f ! i), Some i, recs f ! i, f)"
  using assms(3)
proof (induction "i - n" arbitrary: n lk)
  case 0
  then show ?case using assms(1,2)
    by (subst find_loop.simps) (simp add: pread_lock_def first_match_def find_code_def)
next
  case (Suc d)
  then have "find_loop env f object key (Suc n) lk' = (find_code key (recs f ! i), Some i, recs f ! i, f)" for lk' by simp
  moreover have "n < i" using Suc(2) by linarith
  then have "n < length (recs f)" "\<not> conflicts env object (lockObject (recs f ! n))"
    using assms(2) by (simp_all add: first_match_def)
  ultimately show ?case using assms(1) by (subst find_loop.simps) (simp add: pread_lock_def)
qed

lemma find_loop_none:
  assumes "errs f = []" "no_match env f object"
  shows "\<exists>lk'. find_loop env f object key n lk = (if key = [] then FINDLOCK_NOTFOUND else FINDLOCK_NOTLOCKED, None, lk', f)"
proof (induction "length (recs f) - n" arbitrary: n lk)
  case 0
  then show ?case using assms by (subst find_loop.simps) (simp add: pread_lock_def)
next
  case (Suc d)
  then have n: "n < length (recs f)" "d = length (recs f) - Suc n" by simp_all
  show ?case using assms n(1) Suc(1) [OF n(2), of "recs f ! n"]
    by (subst find_loop.simps) (simp add: pread_lock_def no_match_def)
qed

lemma findLock_clean:
  assumes "errs f = []"
  shows "first_match env f object i \<Longrightarrow> findLock env f object key = (find_code key (recs f ! i), Some i, recs f ! i, f)"
    "no_match env f object \<Longrightarrow>
       \<exists>lk. findLock env f object key = (if key = [] then FINDLOCK_NOTFOUND else FINDLOCK_NOTLOCKED, None, lk, f)"
  using assms find_loop_clean [of f env object i 0 key zero_lock] find_loop_none [of f env object key 0 zero_lock]
  by (simp_all add: findLock_def lseek_set_def)

lemma match_cases:
  obtains (none) "no_match env f object" | (first) i where "first_match env f object i"
proof (cases "no_match env f object")
  case False
  then obtain k where k: "k < length (recs f)" "conflicts env object (lockObject (recs f ! k))"
    by (auto simp: no_match_def in_set_conv_nth)
  from exists_least_iff [THEN iffD1, OF exI, of "\<lambda>k. k < length (recs f) \<and> conflicts env object (lockObject (recs f ! k))" k]
  obtain i where "i < length (recs f)" "conflicts env object (lockObject (recs f ! i))"
      "\<forall>j < i. \<not> (j < length (recs f) \<and> conflicts env object (lockObject (recs f ! j)))" using k by blast
  then have "first_match env f object i" by (simp add: first_match_def)
  then show ?thesis by (rule first)
qed (rule none)

lemma findLock_notfound:
  assumes e: "errs f = []" and fl: "findLock env f object key = (res, m, lk, f')"
  shows "f' = f \<and> (res = FINDLOCK_NOTFOUND \<longrightarrow> no_match env f object)"
proof (cases rule: match_cases [of env f object])
  case none
  then show ?thesis using findLock_clean(2) [OF e none, of key] fl by auto
next
  case (first i)
  then show ?thesis using findLock_clean(1) [OF e first, of key] fl by (auto simp: find_code_def)
qed

section \<open>Torn files stay torn\<close>

lemma pwrite_torn: "torn f \<Longrightarrow> torn (snd (pwrite_lock f n r))"
  by (simp add: pwrite_lock_def)

lemma find_loop_torn: "torn (snd (snd (snd (find_loop env f object key n lk)))) = torn f"
proof (induction env f object key n lk rule: find_loop.induct)
  case (1 env f object key n lk)
  obtain r g where p: "pread_lock f n = (r, g)" by (cases "pread_lock f n")
  then have g: "torn g = torn f" using pread_lock_facts(2) [of f n] by simp
  show ?case
  proof (cases r)
    case None
    then show ?thesis using p g by (subst find_loop.simps) simp
  next
    case (Some r')
    then show ?thesis using p g 1 [OF p [symmetric] Some] by (subst find_loop.simps) simp
  qed
qed

lemma findLock_torn: "findLock env f object key = (res, m, lk, f') \<Longrightarrow> torn f' = torn f"
  using find_loop_torn [of env "sys_next f" object key 0 zero_lock]
  by (auto simp: findLock_def lseek_set_def split: bool.splits)

lemma dec_torn: "decrementLockCount f lk = (st, lk', f') \<Longrightarrow> torn f \<Longrightarrow> torn f'"
  by (auto simp: decrementLockCount_def Let_def lseek_end_def pread_lock_def ftruncate_lock_def pwrite_lock_def split: if_splits)

lemma acquire_find_torn: "acquire_find fuel env f object key = Some (res, lk, f') \<Longrightarrow> torn f \<Longrightarrow> torn f'"
proof (induction fuel arbitrary: f)
  case (Suc fuel)
  obtain r m l g where fl: "findLock env f object key = (r, m, l, g)" by (cases "findLock env f object key") auto
  have g: "torn g" using findLock_torn [OF fl] Suc.prems(2) by simp
  obtain st l' g' where d: "decrementLockCount g l = (st, l', g')" by (cases "decrementLockCount g l") auto
  then show ?case
    using Suc.prems(1) Suc.IH [of g'] dec_torn [OF d g] g fl by (auto simp: validateLock_def split: if_splits)
qed simp

lemma acquire_torn:
  assumes "lock_acquire1 fuel env uid f key object excl pid zid = Some (res, lk, f')" "torn f"
  shows "torn f'"
proof -
  obtain r l g where a: "acquire_find fuel env f object key = Some (r, l, g)" using assms(1) by (auto simp: lock_acquire1_def)
  have g: "torn g" by (rule acquire_find_torn [OF a assms(2)])
  have i: "torn (snd (snd (acquire_inc g l)))" using pwrite_torn [OF g]
    by (auto simp: acquire_inc_def incrementLockCount_def Let_def split: prod.split) (metis snd_conv)
  have "torn (snd (snd (addLock uid g object excl pid zid)))" using g
    by (simp add: addLock_def lseek_end_def pwrite_lock_def Let_def)
  then show ?thesis using assms(1) a g i by (cases r) (auto simp: lock_acquire1_def Let_def split: prod.splits if_splits)
qed

lemma release_torn: "lock_release env f key object = (res, f') \<Longrightarrow> torn f \<Longrightarrow> torn f'"
proof -
  assume r: "lock_release env f key object = (res, f')" "torn f"
  obtain x m l g where fl: "findLock env f object key = (x, m, l, g)" by (cases "findLock env f object key") auto
  have g: "torn g" using findLock_torn [OF fl] r(2) by simp
  obtain st l' g' where d: "decrementLockCount g l = (st, l', g')" by (cases "decrementLockCount g l") auto
  show "torn f'" using r(1) fl d dec_torn [OF d g] g by (cases x) (auto simp: lock_release_def)
qed

section \<open>Invariants of the lock file\<close>

definition well_placed :: "adminLock list \<Rightarrow> bool" where
  "well_placed rs \<longleftrightarrow> (\<forall>i < length rs. lockRecordNum (rs ! i) = i \<and> lockCount (rs ! i) \<noteq> 0)"

lemma lock_ok_placed: "lock_ok f \<longleftrightarrow> well_placed (recs f)"
  by (simp add: lock_ok_def well_placed_def)

text \<open>
  What a request adds to the records: \<open>clean\<close> tells that no call failed, and then no record matched the
  object.
\<close>

definition added :: "lenv \<Rightarrow> bool \<Rightarrow> string \<Rightarrow> adminLock list \<Rightarrow> adminLock \<Rightarrow> bool" where
  "added env clean object rs r \<longleftrightarrow>
     lockRecordNum r = length rs \<and> lockCount r = 1 \<and> length (lockKey r) \<le> 36 \<and> lockObject r = take 510 object \<and>
     (clean \<longrightarrow> (\<forall>q \<in> set rs. \<not> conflicts env object (lockObject q)))"

text \<open>
  A step: a request, a release, a choice of the outcomes to come, or, once a write was cut short, any change of the
  records found in the file.
\<close>

inductive lock_step :: "(lenv \<Rightarrow> bool \<Rightarrow> string \<Rightarrow> bool) \<Rightarrow> lfile \<Rightarrow> lfile \<Rightarrow> bool" for req where
  acquire: "req env (errs f = []) object \<Longrightarrow> room_ok f \<Longrightarrow>
      lock_acquire1 fuel env uid f key object excl pid zid = Some (res, lk, f') \<Longrightarrow> lock_step req f f'"
| release: "lock_release env f key object = (res, f') \<Longrightarrow> lock_step req f f'"
| faults: "lock_step req f (f\<lparr>errs := es\<rparr>)"
| tear: "torn f \<Longrightarrow> lock_step req f (f\<lparr>recs := rs\<rparr>)"

text \<open>
  The interface of an invariant: what an operation does to the records keeps it. \<open>req\<close> restricts the
  requests.
\<close>

locale lock_invariant =
  fixes P :: "adminLock list \<Rightarrow> bool" and req :: "lenv \<Rightarrow> bool \<Rightarrow> string \<Rightarrow> bool"
  assumes P_empty: "P []"
    and P_placed: "P rs \<Longrightarrow> well_placed rs"
    and P_dec: "P rs \<Longrightarrow> n < length rs \<Longrightarrow> dec_recs n rs rs' \<Longrightarrow> P rs'"
    and P_inc: "P rs \<Longrightarrow> n < length rs \<Longrightarrow> lockCount (rs ! n) \<noteq> - 1 \<Longrightarrow>
      P (rs[n := (rs ! n)\<lparr>lockCount := lockCount (rs ! n) + 1\<rparr>])"
    and P_add: "P rs \<Longrightarrow> req env clean object \<Longrightarrow> added env clean object rs r \<Longrightarrow> P (rs @ [r])"
begin

lemma placed_ok: "P (recs f) \<Longrightarrow> lock_ok f"
  using P_placed by (simp add: lock_ok_placed)

lemma dec_keeps:
  assumes "P (recs f)" "n < length (recs f)" "decrementLockCount f (recs f ! n) = (st, lk1, f')"
  shows "P (recs f') \<and> (room_ok f \<longrightarrow> room_ok f') \<and> (errs f = [] \<longrightarrow> errs f' = [])"
proof -
  note d = dec_result [OF placed_ok [OF assms(1)] assms(2) refl assms(3)]
  have c: "\<forall>r \<in> set (recs f). lockCount r \<noteq> 0"
    using placed_ok [OF assms(1)] by (auto simp: lock_ok_def in_set_conv_nth)
  from d(2) have "recs f' = recs f \<or> dec_recs n (recs f) (recs f')" by blast
  then have "P (recs f') \<and> (room_ok f \<longrightarrow> room_ok f')"
    using assms(1,2) P_dec dec_recs_room [of n "recs f" "recs f'"] c by (auto simp: room_ok_def)
  then show ?thesis using d(3) by blast
qed

lemma find_keeps:
  assumes "acquire_find fuel env f object key = Some (res, lk, f')" "P (recs f)"
  shows "P (recs f') \<and> (room_ok f \<longrightarrow> room_ok f') \<and> res \<noteq> FINDLOCK_LOCKACQUIRED \<and> (errs f = [] \<longrightarrow> errs f' = []) \<and>
    (res = FINDLOCK_LOCKED \<or> res = FINDLOCK_FOUND \<longrightarrow>
      (\<exists>i < length (recs f'). lk = recs f' ! i \<and> conflicts env object (lockObject lk))) \<and>
    (errs f = [] \<and> res = FINDLOCK_NOTFOUND \<longrightarrow> no_match env f' object)"
  using assms
proof (induction fuel arbitrary: f)
  case (Suc fuel)
  obtain r1 m lk1 f1 where fl: "findLock env f object key = (r1, m, lk1, f1)" by (cases "findLock env f object key") auto
  note ff = findLock_facts [OF fl]
  have P1: "P (recs f1)" "room_ok f \<Longrightarrow> room_ok f1" using Suc(3) ff(1) by (simp_all add: room_ok_def)
  have cl: "errs f1 = [] \<and> (r1 = FINDLOCK_NOTFOUND \<longrightarrow> no_match env f1 object)" if e: "errs f = []"
    using findLock_notfound [OF e fl] e by auto
  show ?case
  proof (cases "r1 = FINDLOCK_LOCKED \<and> \<not> holder_valid env lk1")
    case False
    then have "(res, lk, f') = (r1, lk1, f1)" using Suc(2) fl by (auto simp: validateLock_def split: if_splits)
    then show ?thesis using P1 ff cl by auto
  next
    case True
    obtain st lk2 f2 where d: "decrementLockCount f1 lk1 = (st, lk2, f2)" by (cases "decrementLockCount f1 lk1") auto
    from True ff(4) obtain i where i: "i < length (recs f1)" "lk1 = recs f1 ! i" using ff(1) by auto
    have "acquire_find fuel env f2 object key = Some (res, lk, f')" using Suc(2) fl True d by (simp add: validateLock_def)
    from Suc(1) [OF this] dec_keeps [OF P1(1) i(1)] d i(2) cl P1(2) show ?thesis by auto
  qed
qed simp

lemma inc_keeps:
  assumes "P (recs f)" "room_ok f" "n < length (recs f)" "acquire_inc f (recs f ! n) = (res, lk, f')"
  shows "P (recs f')"
proof -
  have rn: "lockRecordNum (recs f ! n) = n" "lockCount (recs f ! n) \<noteq> - 1"
    using P_placed [OF assms(1)] assms(2,3) by (simp_all add: well_placed_def room_ok_def)
  obtain ok f1 where w: "pwrite_lock f n ((recs f ! n)\<lparr>lockCount := lockCount (recs f ! n) + 1\<rparr>) = (ok, f1)"
    by (cases "pwrite_lock f n ((recs f ! n)\<lparr>lockCount := lockCount (recs f ! n) + 1\<rparr>)") auto
  then have "f' = f1" using assms(4) rn(1) by (simp add: acquire_inc_def incrementLockCount_def)
  then show ?thesis using pwrite_in(2) [OF w assms(3)] P_inc [OF assms(1,3) rn(2)] assms(1) by auto
qed

lemma add_keeps:
  assumes "P (recs f)" "req env (errs f0 = []) object" "errs f0 = [] \<longrightarrow> no_match env f object"
    "addLock uid f object excl pid zid = (st, k, f')"
  shows "P (recs f')"
proof -
  define r where "r = \<lparr>lockRecordNum = length (recs f), lockCount = 1, lockExclusive = excl, lockPid = (if pid > 0 then pid else 0),
     lockZoneId = (if zid \<ge> 0 then zid else - 1), lockKey = strlcpy uid LOCK_KEY_MAXLEN, lockObject = strlcpy object LOCK_OBJECT_MAXLEN\<rparr>"
  have "added env (errs f0 = []) object (recs f) r"
    using assms(3) by (auto simp: added_def r_def no_match_def strlcpy_def LOCK_KEY_MAXLEN_def LOCK_OBJECT_MAXLEN_def)
  note a = P_add [OF assms(1,2) this]
  from assms(4) have "recs f' = recs f \<or> recs f' = recs f @ [r]"
    by (auto simp: addLock_def lseek_end_def pwrite_lock_def Let_def r_def split: if_splits)
  then show ?thesis using a assms(1) by auto
qed

lemma acquire_keeps:
  assumes "lock_acquire1 fuel env uid f key object excl pid zid = Some (res, lk, f')" "P (recs f)" "room_ok f"
    "req env (errs f = []) object"
  shows "P (recs f')"
proof -
  from assms(1) obtain r1 lk1 f1 where af: "acquire_find fuel env f object key = Some (r1, lk1, f1)"
    by (auto simp: lock_acquire1_def)
  note fk = find_keeps [OF af assms(2)]
  have i: "P (recs f2)" if "acquire_inc f1 lk1 = (x, y, f2)" "r1 = FINDLOCK_LOCKED \<or> r1 = FINDLOCK_FOUND" for x y f2
    using fk that inc_keeps [of f1 _ x y f2] assms(3) by auto
  have a: "P (recs f2)" if "addLock uid f1 object excl pid zid = (x, y, f2)" "r1 = FINDLOCK_NOTFOUND" for x y f2
    using fk that add_keeps [of f1 env f object uid excl pid zid x y f2] assms(4) by auto
  show ?thesis
  proof (cases r1)
    case FINDLOCK_NOTFOUND
    then show ?thesis using assms(1) af a by (auto simp: lock_acquire1_def Let_def split: prod.splits if_splits)
  qed (use assms(1) af fk i in \<open>auto simp: lock_acquire1_def split: if_splits\<close>)
qed

lemma release_keeps:
  assumes "lock_release env f key object = (res, f')" "P (recs f)"
  shows "P (recs f')"
proof -
  obtain r1 m lk1 f1 where fl: "findLock env f object key = (r1, m, lk1, f1)" by (cases "findLock env f object key") auto
  note ff = findLock_facts [OF fl]
  have P1: "P (recs f1)" using assms(2) ff(1) by simp
  show ?thesis
  proof (cases "r1 = FINDLOCK_FOUND")
    case True
    obtain st lk2 f2 where d: "decrementLockCount f1 lk1 = (st, lk2, f2)" by (cases "decrementLockCount f1 lk1") auto
    from ff True obtain i where "i < length (recs f1)" "lk1 = recs f1 ! i" by auto
    then show ?thesis using assms(1) True fl d dec_keeps [OF P1] by (auto simp: lock_release_def)
  next
    case False
    then show ?thesis using assms(1) fl P1 by (cases r1) (simp_all add: lock_release_def)
  qed
qed

lemma step_keeps: "lock_step req f f' \<Longrightarrow> torn f \<or> P (recs f) \<Longrightarrow> torn f' \<or> P (recs f')"
  by (induction rule: lock_step.induct) (auto intro: acquire_keeps release_keeps acquire_torn release_torn)

lemma reachable_keeps: "(lock_step req)\<^sup>*\<^sup>* f f' \<Longrightarrow> P (recs f) \<Longrightarrow> \<not> torn f' \<Longrightarrow> P (recs f')"
proof -
  assume "(lock_step req)\<^sup>*\<^sup>* f f'" "P (recs f)"
  then have "torn f' \<or> P (recs f')" by (induction rule: rtranclp_induct) (auto dest: step_keeps)
  then show "\<not> torn f' \<Longrightarrow> P (recs f')" by blast
qed

end

text \<open>Every record that a decrement leaves comes from a record of its own.\<close>

lemma dec_recs_src:
  assumes "dec_recs n rs rs'" "n < length rs"
  shows "\<exists>p. inj_on p {..<length rs'} \<and> (\<forall>i < length rs'. p i < length rs \<and>
     lockObject (rs' ! i) = lockObject (rs ! p i) \<and> lockKey (rs' ! i) = lockKey (rs ! p i) \<and>
     lockPid (rs' ! i) = lockPid (rs ! p i) \<and> lockZoneId (rs' ! i) = lockZoneId (rs ! p i))"
proof (cases "lockCount (rs ! n) = 1")
  case True
  let ?q = "\<lambda>i. if i = n then length rs - 1 else i"
  have l: "last rs = rs ! (length rs - 1)" using assms(2) by (intro last_conv_nth) auto
  from True assms(1) consider "rs' = butlast rs" | "rs' = (butlast rs)[n := (last rs)\<lparr>lockRecordNum := n\<rparr>]"
    by (auto simp: dec_recs_def)
  then show ?thesis
  proof cases
    case 1
    then show ?thesis by (intro exI [of _ id]) (auto simp: nth_butlast)
  next
    case 2
    have "inj_on ?q {..<length rs'}" using 2 by (auto simp: inj_on_def)
    moreover have "?q i < length rs \<and> lockObject (rs' ! i) = lockObject (rs ! ?q i) \<and> lockKey (rs' ! i) = lockKey (rs ! ?q i) \<and>
        lockPid (rs' ! i) = lockPid (rs ! ?q i) \<and> lockZoneId (rs' ! i) = lockZoneId (rs ! ?q i)"
      if "i < length rs'" for i using that 2 l by (auto simp: nth_list_update nth_butlast)
    ultimately show ?thesis by blast
  qed
next
  case False
  then show ?thesis using assms by (intro exI [of _ id]) (auto simp: dec_recs_def nth_list_update)
qed

definition fields_ok :: "adminLock list \<Rightarrow> bool" where
  "fields_ok rs \<longleftrightarrow> well_placed rs \<and> (\<forall>i < length rs. length (lockKey (rs ! i)) \<le> 36 \<and> length (lockObject (rs ! i)) \<le> 510)"

text \<open>No two records have objects that match each other.\<close>

definition apart :: "(string \<Rightarrow> string \<Rightarrow> bool) \<Rightarrow> nat \<Rightarrow> adminLock list \<Rightarrow> bool" where
  "apart fnm junk rs \<longleftrightarrow> (\<forall>i < length rs. \<forall>j < length rs. i \<noteq> j \<longrightarrow>
     \<not> (lockMatch fnm junk (lockObject (rs ! i)) (lockObject (rs ! j)) \<and>
        lockMatch fnm junk (lockObject (rs ! j)) (lockObject (rs ! i))))"

text \<open>A request while no call fails, for an object that fits its field.\<close>

definition sound_request :: "(string \<Rightarrow> string \<Rightarrow> bool) \<Rightarrow> nat \<Rightarrow> lenv \<Rightarrow> bool \<Rightarrow> string \<Rightarrow> bool" where
  "sound_request fnm junk env clean object \<longleftrightarrow> clean \<and> e_fnm env = fnm \<and> e_junk env = junk \<and> length object \<le> 510"

lemma placed_dec: "well_placed rs \<Longrightarrow> n < length rs \<Longrightarrow> dec_recs n rs rs' \<Longrightarrow> well_placed rs'"
  using dec_recs_ok [of n rs rs'] by (simp add: well_placed_def)

lemma placed_inc:
  "well_placed rs \<Longrightarrow> n < length rs \<Longrightarrow> lockCount (rs ! n) \<noteq> - 1 \<Longrightarrow>
   well_placed (rs[n := (rs ! n)\<lparr>lockCount := lockCount (rs ! n) + 1\<rparr>])"
  by (auto simp: well_placed_def nth_list_update add_eq_0_iff minus_equation_iff)

lemma placed_add: "well_placed rs \<Longrightarrow> added env clean object rs r \<Longrightarrow> well_placed (rs @ [r])"
  by (auto simp: well_placed_def added_def nth_append less_Suc_eq)

lemma fields_dec:
  assumes "fields_ok rs" "n < length rs" "dec_recs n rs rs'"
  shows "fields_ok rs'"
proof -
  obtain p where "\<forall>i < length rs'. p i < length rs \<and>
     lockObject (rs' ! i) = lockObject (rs ! p i) \<and> lockKey (rs' ! i) = lockKey (rs ! p i)"
    using dec_recs_src [OF assms(3,2)] by blast
  then show ?thesis using assms placed_dec by (auto simp: fields_ok_def)
qed

lemma apart_dec:
  assumes "apart fnm junk rs" "n < length rs" "dec_recs n rs rs'"
  shows "apart fnm junk rs'"
proof -
  obtain p where inj: "inj_on p {..<length rs'}" and p: "\<forall>i < length rs'. p i < length rs \<and>
     lockObject (rs' ! i) = lockObject (rs ! p i) \<and> lockKey (rs' ! i) = lockKey (rs ! p i)"
    using dec_recs_src [OF assms(3,2)] by blast
  have "p i \<noteq> p j" if "i < length rs'" "j < length rs'" "i \<noteq> j" for i j
    using inj that by (auto simp: inj_on_def)
  then show ?thesis using assms(1) p unfolding apart_def by metis
qed

lemma apart_inc:
  assumes "apart fnm junk rs" "n < length rs"
  shows "apart fnm junk (rs[n := (rs ! n)\<lparr>lockCount := c\<rparr>])"
proof -
  have "lockObject (rs[n := (rs ! n)\<lparr>lockCount := c\<rparr>] ! i) = lockObject (rs ! i)" for i
    using assms(2) by (auto simp: nth_list_update)
  then show ?thesis using assms(1) by (simp add: apart_def)
qed

lemma apart_add:
  assumes "apart fnm junk rs" "sound_request fnm junk env clean object" "added env clean object rs r"
  shows "apart fnm junk (rs @ [r])"
proof -
  have o: "lockObject r = object" using assms(2,3) by (simp add: sound_request_def added_def)
  have "\<not> lockMatch fnm junk object (lockObject (rs ! i))" if "i < length rs" for i
    using assms(2,3) that by (auto simp: sound_request_def added_def conflicts_def)
  then show ?thesis using assms(1) o unfolding apart_def
    by (auto simp: nth_append less_Suc_eq)
qed

lemma fields_inc:
  assumes "fields_ok rs" "n < length rs" "lockCount (rs ! n) \<noteq> - 1"
  shows "fields_ok (rs[n := (rs ! n)\<lparr>lockCount := lockCount (rs ! n) + 1\<rparr>])"
  using assms placed_inc [of rs n] by (auto simp: fields_ok_def nth_list_update)

lemma fields_add: "fields_ok rs \<Longrightarrow> added env clean object rs r \<Longrightarrow> fields_ok (rs @ [r])"
  using placed_add [of rs env clean object r] by (auto simp: fields_ok_def added_def nth_append less_Suc_eq)

lemma invariants_Nil: "fields_ok []" "well_placed []" "apart fnm junk []"
  by (simp_all add: fields_ok_def well_placed_def apart_def)

lemma fields_placed: "fields_ok rs \<Longrightarrow> well_placed rs"
  by (simp add: fields_ok_def)

interpretation lfields: lock_invariant fields_ok "\<lambda>_ _ _. True"
  by unfold_locales (blast intro: invariants_Nil fields_placed fields_dec fields_inc fields_add)+

interpretation lapart: lock_invariant "\<lambda>rs. well_placed rs \<and> apart fnm junk rs" "sound_request fnm junk" for fnm junk
  by unfold_locales
    (blast intro: invariants_Nil placed_dec placed_inc placed_add apart_dec apart_inc apart_add)+

section \<open>The loop over dead holders\<close>

lemma ok_counts: "lock_ok f \<Longrightarrow> r \<in> set (recs f) \<Longrightarrow> lockCount r \<noteq> 0"
  by (auto simp: lock_ok_def in_set_conv_nth)

text \<open>Each round takes one holder away or uses up a failure.\<close>

lemma dec_smaller:
  assumes "lock_ok f" "n < length (recs f)" "decrementLockCount f (recs f ! n) = (st, lk1, f')"
  shows "lock_ok f' \<and> length (errs f') + holders f' < length (errs f) + holders f"
proof -
  note d = dec_result [OF assms(1,2) refl assms(3)]
  from d(2) show ?thesis
  proof
    assume "recs f' = recs f \<and> length (errs f') < length (errs f)"
    then show ?thesis using assms(1) by (simp add: lock_ok_def holders_def)
  next
    assume r: "dec_recs n (recs f) (recs f')"
    then have "lock_ok f'" using assms(1,2) placed_dec by (auto simp: lock_ok_placed)
    then show ?thesis using d(1) dec_recs_holders [OF r assms(2)] ok_counts [OF assms(1)] by (simp add: holders_def)
  qed
qed

lemma acquire_find_total:
  "lock_ok f \<Longrightarrow> length (errs f) + holders f < fuel \<Longrightarrow> \<exists>r. acquire_find fuel env f object key = Some r"
proof (induction fuel arbitrary: f)
  case (Suc fuel)
  obtain r1 m lk1 f1 where fl: "findLock env f object key = (r1, m, lk1, f1)" by (cases "findLock env f object key") auto
  note ff = findLock_facts [OF fl]
  show ?case
  proof (cases "r1 = FINDLOCK_LOCKED \<and> \<not> holder_valid env lk1")
    case False
    then show ?thesis using fl by (auto simp: validateLock_def)
  next
    case True
    obtain st lk2 f2 where d: "decrementLockCount f1 lk1 = (st, lk2, f2)" by (cases "decrementLockCount f1 lk1") auto
    from True ff(4) obtain i where i: "i < length (recs f1)" "lk1 = recs f1 ! i" using ff(1) by auto
    have "lock_ok f1" "holders f1 = holders f" using Suc(2) ff(1) by (simp_all add: lock_ok_def holders_def)
    with dec_smaller [of f1 i st lk2 f2] i d ff(2) Suc(3)
    have "lock_ok f2" "length (errs f2) + holders f2 < fuel" by auto
    from Suc(1) [OF this] show ?thesis using fl True d by (simp add: validateLock_def)
  qed
qed simp

text \<open>Holders that are gone do not hold up a request.\<close>

definition dead :: "lenv \<Rightarrow> string \<Rightarrow> lfile \<Rightarrow> bool" where
  "dead env object f \<longleftrightarrow> (\<forall>i < length (recs f). conflicts env object (lockObject (recs f ! i)) \<longrightarrow> \<not> holder_valid env (recs f ! i))"

lemma dead_dec:
  assumes "dead env object f" "n < length (recs f)" "dec_recs n (recs f) (recs f')"
  shows "dead env object f'"
proof -
  obtain p where "\<forall>i < length (recs f'). p i < length (recs f) \<and>
     lockObject (recs f' ! i) = lockObject (recs f ! p i) \<and> lockKey (recs f' ! i) = lockKey (recs f ! p i) \<and>
     lockPid (recs f' ! i) = lockPid (recs f ! p i) \<and> lockZoneId (recs f' ! i) = lockZoneId (recs f ! p i)"
    using dec_recs_src [OF assms(3,2)] by blast
  then show ?thesis using assms(1) unfolding dead_def holder_valid_def by metis
qed

lemma acquire_find_dead:
  assumes "acquire_find fuel env f object [] = Some (res, lk, f')" "lock_ok f" "errs f = []" "dead env object f"
  shows "res = FINDLOCK_NOTFOUND \<and> errs f' = []"
  using assms
proof (induction fuel arbitrary: f)
  case (Suc fuel)
  show ?case
  proof (cases rule: match_cases [of env f object])
    case none
    then show ?thesis using Suc(2,4) findLock_clean(2) [OF Suc(4) none, of "[]"] by auto
  next
    case (first i)
    then have i: "i < length (recs f)" "\<not> holder_valid env (recs f ! i)" using Suc(5) by (simp_all add: first_match_def dead_def)
    obtain st lk2 f2 where d: "decrementLockCount f (recs f ! i) = (st, lk2, f2)" by (cases "decrementLockCount f (recs f ! i)") auto
    have "acquire_find fuel env f2 object [] = Some (res, lk, f')"
      using Suc(2) findLock_clean(1) [OF Suc(4) first, of "[]"] d i(2) by (simp add: find_code_def validateLock_def)
    moreover have "lock_ok f2" using dec_smaller [OF Suc(3) i(1) d] by simp
    moreover have "errs f2 = []" "dec_recs i (recs f) (recs f2)"
      using dec_result(2,3) [OF Suc(3) i(1) refl d] Suc(4) by auto
    ultimately show ?thesis using Suc(1) dead_dec [OF Suc(5) i(1)] by blast
  qed
qed simp

end
