(* ===== verification/Locks.thy ===== *)
theory Locks
  imports Lockinv
begin

text \<open>
  The properties of the administrative locks, each with an example: the lock file keeps its form, two
  records never lock the same object, a request ends, a release undoes an acquisition, dead holders
  do not block, waiting ends, and what failing calls and shared requests do.
\<close>

section \<open>An example\<close>

definition env0 :: lenv where
  "env0 = \<lparr>e_fnm = (\<lambda>p s. p = s), e_junk = 0, e_zone = 0, e_alive = (\<lambda>_. False)\<rparr>"

definition no_locks :: lfile where
  "no_locks = \<lparr>recs = [], errs = [], torn = False\<rparr>"

definition lock_a :: adminLock where
  "lock_a = \<lparr>lockRecordNum = 0, lockCount = 1, lockExclusive = 1, lockPid = 7, lockZoneId = 0, lockKey = ''k1'', lockObject = ''a/b''\<rparr>"

definition one_lock :: lfile where
  "one_lock = \<lparr>recs = [lock_a], errs = [], torn = False\<rparr>"

lemma step_a: "lock_acquire1 2 env0 ''k1'' no_locks [] ''a/b'' 1 7 0 = Some (FINDLOCK_LOCKACQUIRED, zero_lock\<lparr>lockKey := ''k1''\<rparr>, one_lock)"
  by code_simp

lemma steps_a: "lock_step (sound_request (\<lambda>p s. p = s) 0) no_locks one_lock"
  by (rule acquire [OF _ _ step_a]) (simp_all add: sound_request_def env0_def no_locks_def room_ok_def)

lemma steps_any: "lock_step (\<lambda>_ _ _. True) no_locks one_lock"
  by (rule acquire [OF _ _ step_a]) (simp_all add: no_locks_def room_ok_def)

definition lock_b :: adminLock where
  "lock_b = lock_a\<lparr>lockRecordNum := 1, lockKey := ''k2'', lockObject := ''a/c''\<rparr>"

definition two_locks :: lfile where
  "two_locks = \<lparr>recs = [lock_a, lock_b], errs = [], torn = False\<rparr>"

lemma step_b: "lock_acquire1 2 env0 ''k2'' one_lock [] ''a/c'' 1 7 0 =
    Some (FINDLOCK_LOCKACQUIRED, lock_a\<lparr>lockKey := ''k2''\<rparr>, two_locks)"
  by code_simp

lemma steps_ab: "(lock_step (sound_request (\<lambda>p s. p = s) 0))\<^sup>*\<^sup>* no_locks two_locks"
proof -
  have "lock_step (sound_request (\<lambda>p s. p = s) 0) one_lock two_locks"
    by (rule acquire [OF _ _ step_b]) (simp_all add: sound_request_def env0_def one_lock_def room_ok_def lock_a_def)
  with steps_a show ?thesis by (simp add: converse_rtranclp_into_rtranclp r_into_rtranclp)
qed

lemma reach_a: "(lock_step (\<lambda>_ _ _. True))\<^sup>*\<^sup>* no_locks one_lock"
  using steps_any by (rule r_into_rtranclp)

lemma self_ab: "self_nodes (\<lambda>p s. p = s) ''a/b''" "self_nodes (\<lambda>p s. p = s) ''a/c''"
  by code_simp+

section \<open>The lock file\<close>

text \<open>
  C14. Starting from an empty lock file, after any sequence of acquisitions and releases by any processes,
  with system calls failing at any point, every record of the lock file holds its own position and a
  count that is not zero, and its key and object fit their fields, as long as no write was cut short. (After
  a short write, which leaves a part of a record behind and is reported like any other failure, nothing of this
  need hold.)
\<close>

theorem lock_file_invariant:
  assumes "(lock_step (\<lambda>_ _ _. True))\<^sup>*\<^sup>* \<lparr>recs = [], errs = es, torn = False\<rparr> f" "\<not> torn f" "i < length (recs f)"
  shows "lockRecordNum (recs f ! i) = i \<and> lockCount (recs f ! i) \<noteq> 0 \<and>
    length (lockKey (recs f ! i)) < LOCK_KEY_MAXLEN \<and> length (lockObject (recs f ! i)) < LOCK_OBJECT_MAXLEN"
  using lfields.reachable_keeps [OF assms(1)] assms(2,3) invariants_Nil
  by (auto simp: fields_ok_def well_placed_def LOCK_KEY_MAXLEN_def LOCK_OBJECT_MAXLEN_def)

theorem lock_file_invariant_witness:
  "lockRecordNum (recs one_lock ! 0) = 0 \<and> lockCount (recs one_lock ! 0) \<noteq> 0"
  using lock_file_invariant [OF reach_a [unfolded no_locks_def], of 0] by (simp add: one_lock_def)

text \<open>
  C13. Mutual exclusion: as long as no system call fails during an acquisition, no write is cut short and the
  objects fit their field, no two records of the lock file have objects that match each other; in particular no object
  whose nodes match themselves has two records, so an exclusive lock is held under one key only.
\<close>

theorem lock_exclusion:
  assumes "(lock_step (sound_request fnm junk))\<^sup>*\<^sup>* \<lparr>recs = [], errs = [], torn = False\<rparr> f" "\<not> torn f"
    "i < length (recs f)" "j < length (recs f)" "i \<noteq> j"
  shows "\<not> (lockMatch fnm junk (lockObject (recs f ! i)) (lockObject (recs f ! j)) \<and>
             lockMatch fnm junk (lockObject (recs f ! j)) (lockObject (recs f ! i))) \<and>
    (self_nodes fnm (lockObject (recs f ! i)) \<longrightarrow> lockObject (recs f ! i) \<noteq> lockObject (recs f ! j))"
proof -
  have a: "apart fnm junk (recs f)" using lapart.reachable_keeps [OF assms(1) _ assms(2)] invariants_Nil by simp
  then have n: "\<not> (lockMatch fnm junk (lockObject (recs f ! i)) (lockObject (recs f ! j)) \<and>
             lockMatch fnm junk (lockObject (recs f ! j)) (lockObject (recs f ! i)))"
    using assms(3-5) by (simp add: apart_def)
  then show ?thesis using lockMatch_self by metis
qed

theorem lock_exclusion_witness: "lockObject (recs two_locks ! 0) \<noteq> lockObject (recs two_locks ! 1)"
proof -
  have "self_nodes (\<lambda>p s. p = s) (lockObject (recs two_locks ! 0))" using self_ab(1) by (simp add: two_locks_def lock_a_def)
  then show ?thesis using lock_exclusion [OF steps_ab [unfolded no_locks_def], of 0 1] by (simp add: two_locks_def)
qed

text \<open>
  C37. The search of an acquisition ends: with a well-formed lock file, each round of the loop that drops
  locks of dead holders takes one holder away or meets a failing call, so it returns within as many
  rounds as there are holders and failures to come.
\<close>

theorem lock_acquire_terminates:
  assumes "lock_ok f" "length (errs f) + holders f < fuel"
  shows "\<exists>res lk f'. lock_acquire1 fuel env uid f key object excl pid zid = Some (res, lk, f')"
proof -
  have "lock_acquire1 fuel env uid f key object excl pid zid \<noteq> None"
    using acquire_find_total [OF assms, of env object key] by (auto simp: lock_acquire1_def)
  then show ?thesis by auto
qed

theorem lock_acquire_terminates_witness:
  "\<exists>res lk f'. lock_acquire1 2 env0 ''k'' one_lock [] ''a'' 1 0 0 = Some (res, lk, f')"
  by (rule lock_acquire_terminates) (simp_all add: one_lock_def lock_a_def lock_ok_def holders_def)

section \<open>Acquiring and releasing\<close>

lemma acquire_find_first:
  assumes "errs f = []" "first_match env f object i" "holder_valid env (recs f ! i)"
  shows "acquire_find (Suc fuel) env f object [] = Some (FINDLOCK_LOCKED, recs f ! i, f)"
  using findLock_clean(1) [OF assms(1,2), of "[]"] assms(3) by (simp add: find_code_def validateLock_def)

lemma acquire_find_none:
  assumes "errs f = []" "no_match env f object"
  shows "\<exists>lk. acquire_find (Suc fuel) env f object [] = Some (FINDLOCK_NOTFOUND, lk, f)"
  using findLock_clean(2) [OF assms, of "[]"] by auto

text \<open>A request without key that is granted while no holder is dead: a new record, or a shared one joined.\<close>

definition new_lock :: "string \<Rightarrow> nat \<Rightarrow> string \<Rightarrow> u64 \<Rightarrow> int \<Rightarrow> int \<Rightarrow> adminLock" where
  "new_lock uid n object excl pid zid =
     \<lparr>lockRecordNum = n, lockCount = 1, lockExclusive = excl, lockPid = (if pid > 0 then pid else 0),
      lockZoneId = (if zid \<ge> 0 then zid else - 1), lockKey = take 36 uid, lockObject = take 510 object\<rparr>"

lemma addLock_clean:
  assumes "errs f = []"
  shows "addLock uid f object excl pid zid =
    (0, take 37 uid, f\<lparr>recs := recs f @ [new_lock uid (length (recs f)) object excl pid zid]\<rparr>)"
  using assms by (simp add: addLock_def lseek_end_def pwrite_lock_def new_lock_def strlcpy_def
      LOCK_KEY_MAXLEN_def LOCK_OBJECT_MAXLEN_def)

lemma acquire_inc_clean:
  assumes "errs f = []" "n < length (recs f)" "lockRecordNum (recs f ! n) = n"
  shows "acquire_inc f (recs f ! n) = (FINDLOCK_LOCKACQUIRED, (recs f ! n)\<lparr>lockCount := lockCount (recs f ! n) + 1\<rparr>,
     f\<lparr>recs := (recs f)[n := (recs f ! n)\<lparr>lockCount := lockCount (recs f ! n) + 1\<rparr>]\<rparr>)"
  using assms by (simp add: acquire_inc_def incrementLockCount_def pwrite_lock_def Let_def)

lemma acquire_granted:
  assumes ok: "lock_ok f" and e: "errs f = []" and v: "\<forall>r \<in> set (recs f). holder_valid env r"
    and a: "lock_acquire1 fuel env uid f [] object excl pid zid = Some (FINDLOCK_LOCKACQUIRED, lk, f')"
  obtains (new) "no_match env f object" "lockKey lk = take 37 uid"
      "f' = f\<lparr>recs := recs f @ [new_lock uid (length (recs f)) object excl pid zid]\<rparr>"
  | (join) i where "first_match env f object i" "lockExclusive (recs f ! i) = 0" "excl = 0" "lockKey lk = lockKey (recs f ! i)"
      "f' = f\<lparr>recs := (recs f)[i := (recs f ! i)\<lparr>lockCount := lockCount (recs f ! i) + 1\<rparr>]\<rparr>"
proof -
  obtain n where n: "fuel = Suc n" using a by (cases fuel) (auto simp: lock_acquire1_def)
  show ?thesis
  proof (cases rule: match_cases [of env f object])
    case none
    then obtain lk1 where "acquire_find fuel env f object [] = Some (FINDLOCK_NOTFOUND, lk1, f)"
      using acquire_find_none [OF e] n by blast
    then show ?thesis using new [OF none] a addLock_clean [OF e] by (auto simp: lock_acquire1_def)
  next
    case (first i)
    then have i: "i < length (recs f)" "lockRecordNum (recs f ! i) = i" using ok by (simp_all add: first_match_def lock_ok_def)
    have "acquire_find fuel env f object [] = Some (FINDLOCK_LOCKED, recs f ! i, f)"
      using acquire_find_first [OF e first] v i(1) n by simp
    then show ?thesis using join [OF first] a acquire_inc_clean [OF e i]
      by (auto simp: lock_acquire1_def split: if_splits)
  qed
qed

text \<open>
  C28. A release undoes an acquisition: when a request without key is granted, no call fails and no holder
  is dead, the release of the object with the key that was returned finds the lock and gives back the
  lock file exactly as it was.
\<close>

theorem acquire_release:
  assumes ok: "lock_ok f" "room_ok f" and e: "errs f = []"
    and v: "\<forall>r \<in> set (recs f). holder_valid env r \<and> lockKey r \<noteq> []"
    and obj: "self_nodes (e_fnm env) object" "length object < LOCK_OBJECT_MAXLEN"
    and uid: "uid \<noteq> []" "length uid < LOCK_KEY_MAXLEN"
    and a: "lock_acquire1 fuel env uid f [] object excl pid zid = Some (FINDLOCK_LOCKACQUIRED, lk, f')"
  shows "lock_release env f' (lockKey lk) object = (FINDLOCK_FOUND, f)"
proof -
  have v': "\<forall>r \<in> set (recs f). holder_valid env r" using v by simp
  from ok(1) e v' a show ?thesis
  proof (cases rule: acquire_granted)
    case new
    let ?r = "new_lock uid (length (recs f)) object excl pid zid"
    have k: "lockKey lk = lockKey ?r" "lockKey ?r \<noteq> []" "lockObject ?r = object"
      using new(2) uid obj(2) by (simp_all add: new_lock_def LOCK_KEY_MAXLEN_def LOCK_OBJECT_MAXLEN_def)
    have e': "errs f' = []" using e new(3) by simp
    have "first_match env f' object (length (recs f))"
      using new(1,3) k(3) lockMatch_self [OF obj(1)]
      by (auto simp: first_match_def no_match_def nth_append conflicts_def)
    note fl = findLock_clean(1) [OF e' this, of "lockKey lk"]
    have "decrementLockCount f' ?r = (0, ?r\<lparr>lockCount := 0\<rparr>, f)"
      using new(3) e by (simp add: dec_one new_lock_def)
    then show ?thesis using fl k new(3) by (simp add: lock_release_def find_code_def)
  next
    case (join i)
    let ?r = "recs f ! i" and ?r' = "(recs f ! i)\<lparr>lockCount := lockCount (recs f ! i) + 1\<rparr>"
    have i: "i < length (recs f)" "lockRecordNum ?r = i" "lockCount ?r \<noteq> 0" "lockCount ?r + 1 \<noteq> 0" "lockKey ?r \<noteq> []"
      using join(1) ok v by (auto simp: first_match_def lock_ok_def room_ok_def add_eq_0_iff2)
    have e': "errs f' = []" using e join(5) by simp
    have "first_match env f' object i"
      using join(1,5) by (auto simp: first_match_def nth_list_update)
    note fl = findLock_clean(1) [OF e' this, of "lockKey lk"]
    have "decrementLockCount f' ?r' = (0, ?r, f)"
      using join(5) e i by (simp add: decrementLockCount_def pwrite_lock_def word_gt_0)
    then show ?thesis using fl join(4,5) i by (simp add: lock_release_def find_code_def)
  qed
qed

theorem acquire_release_witness:
  "lock_release (env0\<lparr>e_zone := 1\<rparr>) two_locks ''k2'' ''a/c'' = (FINDLOCK_FOUND, one_lock)"
proof -
  have s: "lock_acquire1 1 (env0\<lparr>e_zone := 1\<rparr>) ''k2'' one_lock [] ''a/c'' 1 7 0 =
    Some (FINDLOCK_LOCKACQUIRED, lock_a\<lparr>lockKey := ''k2''\<rparr>, two_locks)" by code_simp
  show ?thesis using acquire_release [OF _ _ _ _ _ _ _ _ s] self_ab(2)
    by (simp add: one_lock_def lock_a_def lock_ok_def room_ok_def holder_valid_def env0_def
        LOCK_KEY_MAXLEN_def LOCK_OBJECT_MAXLEN_def)
qed

section \<open>The table of locks\<close>

text \<open>The lock file as a table without order and positions.\<close>

definition unplaced :: "adminLock \<Rightarrow> adminLock" where
  "unplaced r = r\<lparr>lockRecordNum := 0\<rparr>"

definition lock_table :: "lfile \<Rightarrow> adminLock multiset" where
  "lock_table f = image_mset unplaced (mset (recs f))"

text \<open>One holder less.\<close>

definition table_dec :: "adminLock multiset \<Rightarrow> adminLock \<Rightarrow> adminLock multiset" where
  "table_dec t r = (if lockCount r = 1 then t - {#r#} else add_mset (r\<lparr>lockCount := lockCount r - 1\<rparr>) (t - {#r#}))"

lemma unplaced_upd [simp]: "unplaced (r\<lparr>lockRecordNum := n\<rparr>) = unplaced r"
    "unplaced (r\<lparr>lockCount := c\<rparr>) = (unplaced r)\<lparr>lockCount := c\<rparr>" "lockCount (unplaced r) = lockCount r"
    "lockObject (unplaced r) = lockObject r" "lockKey (unplaced r) = lockKey r"
  by (simp_all add: unplaced_def)

lemma mset_moved:
  assumes "n < length xs"
  shows "mset (if Suc n = length xs then butlast xs else (butlast xs)[n := last xs]) = mset xs - {#xs ! n#}"
proof -
  have ne: "xs \<noteq> []" using assms by auto
  have m: "mset xs = add_mset (last xs) (mset (butlast xs))"
    using ne by (metis append_butlast_last_id mset.simps(2) mset_append add_mset_add_single mset_single_iff_right)
  show ?thesis
  proof (cases "Suc n = length xs")
    case True
    then have "xs ! n = last xs" using ne by (metis diff_Suc_1 last_conv_nth)
    then show ?thesis using True m by simp
  next
    case False
    then have n: "n < length (butlast xs)" using assms by simp
    have "butlast xs ! n \<in># mset (butlast xs)" using nth_mem [OF n] by simp
    moreover have "xs ! n = butlast xs ! n" using nth_butlast [OF n] by simp
    ultimately have "butlast xs ! n \<in># mset (butlast xs)" "xs ! n = butlast xs ! n" by simp_all
    then show ?thesis using False m n by (simp add: mset_update)
  qed
qed

lemma dec_table:
  assumes "lock_ok f" "errs f = []" "n < length (recs f)" "decrementLockCount f (recs f ! n) = (st, lk, f')"
  shows "lock_table f' = table_dec (lock_table f) (unplaced (recs f ! n))"
proof -
  note d = dec_result(3) [OF assms(1,3) refl assms(4,2)]
  have in_t: "recs f ! n \<in># mset (recs f)" using assms(3) by simp
  show ?thesis
  proof (cases "lockCount (recs f ! n) = 1")
    case True
    have "recs f \<noteq> []" using assms(3) by auto
    then have "last (map unplaced (recs f)) = unplaced (last (recs f))" by (rule last_map)
    then have "image_mset unplaced (mset (recs f')) = mset (if Suc n = length (map unplaced (recs f)) then butlast (map unplaced (recs f))
        else (butlast (map unplaced (recs f)))[n := last (map unplaced (recs f))])"
      using d True assms(3) by (auto simp: map_update map_butlast simp flip: mset_map)
    then show ?thesis using True mset_moved [of n "map unplaced (recs f)"] assms(3)
      by (simp add: lock_table_def table_dec_def)
  next
    case False
    then show ?thesis using d assms(3) in_t
      by (simp add: lock_table_def table_dec_def mset_update image_mset_Diff)
  qed
qed

text \<open>
  C29. The lock file implements a table of locks: a release that finds its lock takes one holder off a
  lock of the table whose object matches and whose key is the one given, and removes the lock with its
  last holder; moving the last record into the gap does not change the table.
\<close>

theorem lock_release_table:
  assumes "lock_ok f" "errs f = []" "lock_release env f key object = (FINDLOCK_FOUND, f')"
  shows "\<exists>r. r \<in># lock_table f \<and> conflicts env object (lockObject r) \<and> lockKey r = key \<and>
     lock_table f' = table_dec (lock_table f) r"
proof -
  from assms(3) have nn: "\<not> no_match env f object"
    using findLock_clean(2) [OF assms(2), of env object key] by (auto simp: lock_release_def split: if_splits)
  then obtain i where i: "first_match env f object i" by (cases rule: match_cases [of env f object]) auto
  then have l: "i < length (recs f)" "conflicts env object (lockObject (recs f ! i))" by (simp_all add: first_match_def)
  obtain st lk f1 where d: "decrementLockCount f (recs f ! i) = (st, lk, f1)" by (cases "decrementLockCount f (recs f ! i)") auto
  have "lockKey (recs f ! i) = key" "f' = f1" using assms(3) findLock_clean(1) [OF assms(2) i, of key] d
    by (auto simp: lock_release_def find_code_def split: if_splits)
  then show ?thesis using dec_table [OF assms(1,2) l(1) d] l
    by (intro exI [of _ "unplaced (recs f ! i)"]) (simp add: lock_table_def)
qed

theorem lock_release_table_witness:
  "\<exists>r. r \<in># lock_table two_locks \<and> conflicts env0 ''a/b'' (lockObject r) \<and> lockKey r = ''k1'' \<and>
     lock_table \<lparr>recs = [lock_b\<lparr>lockRecordNum := 0\<rparr>], errs = [], torn = False\<rparr> = table_dec (lock_table two_locks) r"
proof (rule lock_release_table)
  show "lock_release env0 two_locks ''k1'' ''a/b'' = (FINDLOCK_FOUND, \<lparr>recs = [lock_b\<lparr>lockRecordNum := 0\<rparr>], errs = [], torn = False\<rparr>)"
    by code_simp
qed (simp_all add: two_locks_def lock_ok_def lock_a_def lock_b_def less_Suc_eq numeral_2_eq_2 nth_Cons')

section \<open>Dead holders, waiting, failures\<close>

text \<open>
  C38. Locks of dead holders do not block: when the holder of every record that matches the object is a
  process of this zone that is gone, and no call fails, a request without key is granted, exclusive or
  shared. On a system without \<open>/proc\<close> every process counts as gone.
\<close>

theorem dead_holders_dropped:
  assumes "lock_ok f" "errs f = []" "holders f < fuel"
    "\<forall>r \<in> set (recs f). conflicts env object (lockObject r) \<longrightarrow>
       lockPid r > 0 \<and> lockZoneId r = e_zone env \<and> \<not> e_alive env (lockPid r)"
  shows "\<exists>lk f'. lock_acquire1 fuel env uid f [] object excl pid zid = Some (FINDLOCK_LOCKACQUIRED, lk, f')"
proof -
  have "length (errs f) + holders f < fuel" using assms(2,3) by simp
  from acquire_find_total [OF assms(1) this]
  obtain res lk f1 where a: "acquire_find fuel env f object [] = Some (res, lk, f1)" by (metis prod_cases3)
  have "dead env object f" using assms(4) by (auto simp: dead_def holder_valid_def)
  from acquire_find_dead [OF a assms(1,2) this] show ?thesis
    using a addLock_clean [of f1] by (simp add: lock_acquire1_def)
qed

theorem dead_holders_dropped_witness:
  "\<exists>lk f'. lock_acquire1 2 env0 ''k3'' one_lock [] ''a'' 1 9 0 = Some (FINDLOCK_LOCKACQUIRED, lk, f')"
  by (rule dead_holders_dropped) (simp_all add: one_lock_def lock_a_def lock_ok_def holders_def env0_def)

lemma lock_wait_ends:
  assumes "\<forall>a \<in> set as. \<forall>f. at_file a = Some f \<longrightarrow> lock_ok f \<and> length (errs f) + holders f < fuel"
    "\<exists>a \<in> set as. \<not> wait \<or> at_file a = None \<or> at_signal a \<or> timeout > 0 \<and> at_time a > deadline"
  shows "\<exists>r. lock_wait fuel env key object wait timeout deadline excl pid zid lk as = Some r"
  using assms
proof (induction as arbitrary: lk)
  case (Cons a as)
  show ?case
  proof (cases "at_file a")
    case (Some f)
    then have "lock_ok f" "length (errs f) + holders f < fuel" using Cons(2) by simp_all
    from acquire_find_total [OF this, of env object key]
    have "lock_acquire1 fuel env (at_uid a) f key object excl pid zid \<noteq> None" by (auto simp: lock_acquire1_def)
    then obtain res lk1 f1 where "lock_acquire1 fuel env (at_uid a) f key object excl pid zid = Some (res, lk1, f1)" by auto
    note r = this
    show ?thesis
    proof (cases "\<not> wait \<or> at_signal a \<or> timeout > 0 \<and> at_time a > deadline")
      case True
      then show ?thesis using r Some by auto
    next
      case False
      then have "\<exists>b \<in> set as. \<not> wait \<or> at_file b = None \<or> at_signal b \<or> timeout > 0 \<and> at_time b > deadline"
        using Cons(3) Some by auto
      from Cons(1) [OF _ this, of lk1] show ?thesis using Cons(2) r Some False by auto
    qed
  qed simp
qed simp

text \<open>
  Waiting for a lock ends: a command that may not wait, is interrupted, finds the time limit passed
  or cannot open the lock file at one of its attempts returns, whatever the other processes do to the
  lock file between the attempts.
\<close>

theorem lock_acquire_ends:
  assumes "\<forall>a \<in> set as. \<forall>f. at_file a = Some f \<longrightarrow> lock_ok f \<and> length (errs f) + holders f < fuel"
    "\<exists>a \<in> set as. \<not> wait \<or> at_file a = None \<or> at_signal a \<or> timeout > 0 \<and> at_time a > lock_deadline now timeout"
  shows "\<exists>res lk f. lock_acquire fuel env now key object wait timeout excl pid zid as = Some (res, lk, f)"
  using lock_wait_ends [OF assms] by (auto simp: lock_acquire_def)

definition attempts0 :: "attempt list" where
  "attempts0 = [\<lparr>at_file = Some one_lock, at_uid = ''u1'', at_signal = False, at_time = 3\<rparr>,
                \<lparr>at_file = Some one_lock, at_uid = ''u2'', at_signal = False, at_time = 6\<rparr>]"

theorem lock_acquire_ends_witness:
  "\<exists>res lk f. lock_acquire 2 (env0\<lparr>e_zone := 1\<rparr>) 0 [] ''a'' True 5 1 0 0 attempts0 = Some (res, lk, f)"
  by (rule lock_acquire_ends) (simp_all add: attempts0_def one_lock_def lock_a_def lock_ok_def holders_def lock_deadline_def)

text \<open>
  A failing read is taken for the end of the lock file: when the first read of the search fails and
  the later calls succeed, a request without key is granted and adds a record, whatever locks the file
  has, exclusive locks on the same object included.
\<close>

theorem failed_read_grants:
  assumes "errs f = [Done, Failed]" "fuel \<noteq> 0"
  shows "\<exists>lk f'. lock_acquire1 fuel env uid f [] object excl pid zid = Some (FINDLOCK_LOCKACQUIRED, lk, f') \<and>
     recs f' = recs f @ [new_lock uid (length (recs f)) object excl pid zid]"
proof -
  obtain n where n: "fuel = Suc n" using assms(2) by (cases fuel) auto
  have "find_loop env (sys_next f) object [] 0 zero_lock = (FINDLOCK_NOTFOUND, None, zero_lock, sys_next (sys_next f))"
    using assms(1) by (subst find_loop.simps) (simp add: pread_lock_def sys_fails_def)
  then have "acquire_find fuel env f object [] = Some (FINDLOCK_NOTFOUND, zero_lock, sys_next (sys_next f))"
    using assms(1) n by (simp add: findLock_def lseek_set_def sys_fails_def)
  then show ?thesis using addLock_clean [of "sys_next (sys_next f)"] assms(1) by (simp add: lock_acquire1_def)
qed

theorem failed_read_grants_witness:
  "\<exists>lk f'. lock_acquire1 1 env0 ''k2'' (one_lock\<lparr>errs := [Done, Failed]\<rparr>) [] ''a/b'' 1 0 0 = Some (FINDLOCK_LOCKACQUIRED, lk, f') \<and>
     recs f' = [lock_a, new_lock ''k2'' 1 ''a/b'' 1 0 0]"
  using failed_read_grants [of "one_lock\<lparr>errs := [Done, Failed]\<rparr>" 1 env0 "''k2''" "''a/b''" 1 0 0] by (simp add: one_lock_def)

text \<open>
  A shared request joins the first record that matches its object: it is granted by adding a holder
  to that record, even if a later record that matches the object too is an exclusive lock of another
  holder, and the key it returns is that of the record it joined.
\<close>

theorem shared_joins_first:
  assumes "errs f = []" "lock_ok f" "fuel \<noteq> 0" "first_match env f object i" "lockExclusive (recs f ! i) = 0"
    "holder_valid env (recs f ! i)" "i < j" "j < length (recs f)" "conflicts env object (lockObject (recs f ! j))"
    "lockExclusive (recs f ! j) = 1"
  shows "\<exists>lk f'. lock_acquire1 fuel env uid f [] object 0 pid zid = Some (FINDLOCK_LOCKACQUIRED, lk, f') \<and>
     lockKey lk = lockKey (recs f ! i) \<and> lockCount (recs f' ! i) = lockCount (recs f ! i) + 1 \<and> recs f' ! j = recs f ! j"
proof -
  obtain n where n: "fuel = Suc n" using assms(3) by (cases fuel) auto
  have i: "i < length (recs f)" "lockRecordNum (recs f ! i) = i" using assms(2,4) by (simp_all add: first_match_def lock_ok_def)
  show ?thesis using acquire_find_first [OF assms(1,4,6), of n] acquire_inc_clean [OF assms(1) i] n assms(5,7) i(1)
    by (simp add: lock_acquire1_def)
qed

definition zone_locks :: lfile where
  "zone_locks = \<lparr>recs = [lock_a\<lparr>lockExclusive := 0, lockPid := 0, lockObject := ''z.1/p.a''\<rparr>,
     lock_b\<lparr>lockPid := 0, lockObject := ''z.1/p.b''\<rparr>], errs = [], torn = False\<rparr>"

theorem shared_joins_first_witness:
  "\<exists>lk f'. lock_acquire1 1 env0 ''k3'' zone_locks [] ''z.1'' 0 0 0 = Some (FINDLOCK_LOCKACQUIRED, lk, f') \<and>
     lockKey lk = lockKey (recs zone_locks ! 0) \<and> lockCount (recs f' ! 0) = lockCount (recs zone_locks ! 0) + 1 \<and>
     recs f' ! 1 = recs zone_locks ! 1"
proof (rule shared_joins_first)
  show "conflicts env0 ''z.1'' (lockObject (recs zone_locks ! 1))" by code_simp
  have "conflicts env0 ''z.1'' (lockObject (recs zone_locks ! 0))" by code_simp
  then show "first_match env0 zone_locks ''z.1'' 0" by (simp add: first_match_def zone_locks_def)
qed (simp_all add: zone_locks_def lock_ok_def lock_a_def lock_b_def less_Suc_eq numeral_2_eq_2 nth_Cons' holder_valid_def)

end
