(* ===== verification/Eptstat.thy ===== *)
theory Eptstat
  imports Cfent
begin

text \<open>
  The packages of an entry: \<open>eptstat\<close> of \<open>libinst/eptstat.c\<close>, which moves the package at hand to the end of
  the list of an entry, adds or removes it, and sets its status. The chain of \<open>struct pinfo\<close> is a list; the
  pointer that is returned is the place of the package in it.
\<close>

definition INST_RDY :: char where "INST_RDY = CHR ''+''"
definition RM_RDY :: char where "RM_RDY = CHR ''-''"
definition SERVED_FILE :: char where "SERVED_FILE = CHR ''%''"
definition STAT_NEXT :: char where "STAT_NEXT = CHR ''@''"
definition DUP_ENTRY :: char where "DUP_ENTRY = CHR 0x23"
definition CONFIRM_CONT :: char where "CONFIRM_CONT = CHR ''*''"
definition CONFIRM_ATTR :: char where "CONFIRM_ATTR = CHR 0x7E"
definition ENTRY_OK :: char where "ENTRY_OK = NUL"

lemmas status_defs = INST_RDY_def RM_RDY_def SERVED_FILE_def STAT_NEXT_def DUP_ENTRY_def CONFIRM_CONT_def
  CONFIRM_ATTR_def ENTRY_OK_def

definition pinfo0 :: pinfo where
  "pinfo0 = \<lparr>status = NUL, pkg = [], editflag = False, aclass = []\<rparr>"

text \<open>The last element for the package, as the loop leaves it in \<open>me\<close>.\<close>

fun last_place :: "string \<Rightarrow> pinfo list \<Rightarrow> nat \<Rightarrow> nat option" where
  "last_place p [] i = None"
| "last_place p (x # xs) i =
     (case last_place p xs (Suc i) of Some j \<Rightarrow> Some j | None \<Rightarrow> if pkg x = p then Some i else None)"

record ept =
  ep_me :: "nat option"        \<comment> \<open>the place of the package in the list\<close>
  ep_others :: nat             \<comment> \<open>\<open>otherstoo\<close>\<close>
  ep_useclass :: string
  ep_ent :: cfent

definition eptstat :: "cfent \<Rightarrow> string \<Rightarrow> char \<Rightarrow> ept" where
  "eptstat e p c =
     (let others = length (filter (\<lambda>x. pkg x \<noteq> p) (pinfo e));
          cls = fold (\<lambda>x u. if pkg x = p \<and> aclass x \<noteq> [] then aclass x else u) (pinfo e) (pkg_class e);
          mi = last_place p (pinfo e) 0 in
      if c = NUL then \<lparr>ep_me = mi, ep_others = others, ep_useclass = cls, ep_ent = e\<rparr>
      else
       (let e1 = (case mi of
                    Some i \<Rightarrow> e\<lparr>pinfo := take i (pinfo e) @ drop (Suc i) (pinfo e), npkgs := npkgs e - 1\<rparr>
                  | None \<Rightarrow> e) in
        if c \<noteq> STAT_NEXT \<and> (mi \<noteq> None \<or> c \<noteq> RM_RDY) then
          (let e2 = e1\<lparr>npkgs := npkgs e1 + 1\<rparr>;
               me = (case mi of Some i \<Rightarrow> pinfo e ! i | None \<Rightarrow> pinfo0);
               e3 = (if mi \<noteq> None \<and> npkgs e2 = 1 \<and> aclass me \<noteq> [] then e2\<lparr>pkg_class := aclass me\<rparr> else e2);
               cls' = (if mi = None then cls else if npkgs e2 = 1 then pkg_class e3 else aclass me);
               me' = me\<lparr>pkg := take PKGSIZ p,
                 status := (if status me \<noteq> SERVED_FILE then (if c = DUP_ENTRY then NUL else c) else status me)\<rparr> in
           \<lparr>ep_me = Some (length (pinfo e3)), ep_others = others, ep_useclass = cls',
            ep_ent = e3\<lparr>pinfo := pinfo e3 @ [me']\<rparr>\<rparr>)
        else \<lparr>ep_me = None, ep_others = others, ep_useclass = cls, ep_ent = e1\<rparr>))"

section \<open>The list afterwards\<close>

lemma last_place_None: "last_place p xs i = None \<longleftrightarrow> p \<notin> pkg ` set xs"
proof (induction xs arbitrary: i)
  case (Cons x xs)
  then show ?case using Cons [of "Suc i"] by (cases "last_place p xs (Suc i)") auto
qed simp

lemma last_place_Some:
  "last_place p xs i = Some j \<Longrightarrow> i \<le> j \<and> j - i < length xs \<and> pkg (xs ! (j - i)) = p \<and>
     (\<forall>k < length xs. j - i < k \<longrightarrow> pkg (xs ! k) \<noteq> p)"
proof (induction xs arbitrary: i)
  case (Cons x xs)
  show ?case
  proof (cases "last_place p xs (Suc i)")
    case None
    then have "j = i" "pkg x = p" using Cons(2) by (auto split: if_splits)
    moreover have "pkg (xs ! k) \<noteq> p" if "k < length xs" for k
      using None last_place_None [of p xs "Suc i"] nth_mem [OF that] by (metis image_eqI)
    ultimately show ?thesis by (auto simp: nth_Cons split: nat.splits)
  next
    case (Some j')
    then have "j' = j" using Cons(2) by simp
    then have ih: "Suc i \<le> j" "j - Suc i < length xs" "pkg (xs ! (j - Suc i)) = p" "\<forall>k < length xs. j - Suc i < k \<longrightarrow> pkg (xs ! k) \<noteq> p"
      using Cons(1) [of "Suc i"] Some by auto
    then have "j - i = Suc (j - Suc i)" by simp
    then show ?thesis using ih by (auto simp: nth_Cons split: nat.splits)
  qed
qed simp

text \<open>The packages other than \<open>p\<close>, in their order.\<close>

definition other_pkgs :: "string \<Rightarrow> pinfo list \<Rightarrow> pinfo list" where
  "other_pkgs p xs = filter (\<lambda>x. pkg x \<noteq> p) xs"

lemma other_pkgs_remove:
  assumes "i < length xs" "pkg (xs ! i) = p"
  shows "other_pkgs p (take i xs @ drop (Suc i) xs) = other_pkgs p xs"
  by (subst (3) id_take_nth_drop [OF assms(1)]) (simp add: other_pkgs_def assms(2))

lemma eptstat_keeps:
  assumes "length p \<le> PKGSIZ"
  shows "other_pkgs p (pinfo (ep_ent (eptstat e p c))) = other_pkgs p (pinfo e)"
    "path (ep_ent (eptstat e p c)) = path e" "ftype (ep_ent (eptstat e p c)) = ftype e"
proof -
  show "other_pkgs p (pinfo (ep_ent (eptstat e p c))) = other_pkgs p (pinfo e)"
  proof (cases "last_place p (pinfo e) 0")
    case (Some i)
    then have "i < length (pinfo e)" "pkg (pinfo e ! i) = p" using last_place_Some by fastforce+
    then show ?thesis using Some assms other_pkgs_remove by (auto simp: eptstat_def Let_def other_pkgs_def)
  qed (use assms in \<open>auto simp: eptstat_def Let_def pinfo0_def other_pkgs_def\<close>)
  show "path (ep_ent (eptstat e p c)) = path e" "ftype (ep_ent (eptstat e p c)) = ftype e"
    by (auto simp: eptstat_def Let_def split: option.split)
qed

lemma eptstat_me:
  assumes "length p \<le> PKGSIZ" "c \<noteq> STAT_NEXT" "p \<in> pkg ` set (pinfo e) \<or> c \<noteq> NUL \<and> c \<noteq> RM_RDY"
  shows "\<exists>k. ep_me (eptstat e p c) = Some k \<and> p \<in> pkg ` set (pinfo (ep_ent (eptstat e p c)))"
proof (cases "last_place p (pinfo e) 0")
  case None
  then show ?thesis using assms by (auto simp: eptstat_def Let_def last_place_None)
next
  case (Some i)
  then have "i < length (pinfo e)" "pkg (pinfo e ! i) = p" using last_place_Some by fastforce+
  then have "p \<in> pkg ` set (pinfo e)" by (metis image_eqI nth_mem)
  then show ?thesis using Some assms by (auto simp: eptstat_def Let_def)
qed

lemma eptstat_count:
  assumes "npkgs e = word_of_nat (length (pinfo e))"
  shows "npkgs (ep_ent (eptstat e p c)) = word_of_nat (length (pinfo (ep_ent (eptstat e p c))))"
proof (cases "last_place p (pinfo e) 0")
  case None
  then show ?thesis using assms by (simp add: eptstat_def Let_def)
next
  case (Some i)
  then have i: "i < length (pinfo e)" using last_place_Some by fastforce
  then have n: "word_of_nat (length (pinfo e)) - 1 = (word_of_nat (length (pinfo e) - 1) :: u16)" "Suc (length (pinfo e) - Suc 0) = length (pinfo e)"
    by (cases "length (pinfo e)"; simp)+
  show ?thesis using Some assms i n by (simp add: eptstat_def Let_def min_def)
qed

lemma eptstat_last:
  assumes "length p \<le> PKGSIZ" "c \<noteq> NUL" "c \<noteq> STAT_NEXT" "c \<noteq> RM_RDY \<or> p \<in> pkg ` set (pinfo e)"
  shows "\<exists>xs me. pinfo (ep_ent (eptstat e p c)) = xs @ [me] \<and> ep_me (eptstat e p c) = Some (length xs) \<and> pkg me = p \<and>
    (status me = SERVED_FILE \<or> status me = (if c = DUP_ENTRY then NUL else c))"
proof -
  have "last_place p (pinfo e) 0 \<noteq> None \<or> c \<noteq> RM_RDY" using assms(4) by (auto simp: last_place_None)
  then show ?thesis using assms(1-3) by (cases "last_place p (pinfo e) 0") (simp_all add: eptstat_def Let_def)
qed

text \<open>
  C33. \<open>eptstat\<close> never touches other packages: whatever the status character, the packages of the entry other
  than the one at hand keep their order and their data. With a status (other than the one that only
  removes, and a removal of a package that is not there) the package at hand is afterwards the last of the
  list, with that status unless it is served from elsewhere, and the number of packages matches the list.
\<close>

theorem eptstat_others:
  assumes "length p \<le> PKGSIZ" "npkgs e = word_of_nat (length (pinfo e))"
  shows "other_pkgs p (pinfo (ep_ent (eptstat e p c))) = other_pkgs p (pinfo e) \<and>
     npkgs (ep_ent (eptstat e p c)) = word_of_nat (length (pinfo (ep_ent (eptstat e p c)))) \<and>
     (c \<noteq> NUL \<and> c \<noteq> STAT_NEXT \<and> (c \<noteq> RM_RDY \<or> p \<in> pkg ` set (pinfo e)) \<longrightarrow>
       (\<exists>xs me. pinfo (ep_ent (eptstat e p c)) = xs @ [me] \<and> ep_me (eptstat e p c) = Some (length xs) \<and> pkg me = p \<and>
          (status me = SERVED_FILE \<or> status me = (if c = DUP_ENTRY then NUL else c))))"
  using eptstat_keeps(1) [OF assms(1)] eptstat_count [OF assms(2)] eptstat_last [OF assms(1), of c e] by blast

definition shared_ent :: cfent where
  "shared_ent = \<lparr>volno = 0, ftype = CHR ''f'', pkg_class = ''none'', pkg_class_idx = 0, path = Some ''/etc/x'',
     ainfo = \<lparr>local = None, mode = 0x1A4, owner = ''root'', group = ''sys'', major = 0, minor = 0\<rparr>,
     cinfo = \<lparr>cksum = 1, fsize = 2, modtime = 3\<rparr>, npkgs = 2, pinfo = [pinfo0\<lparr>pkg := ''SUNWcsu''\<rparr>, pinfo0\<lparr>pkg := ''SUNWzz''\<rparr>]\<rparr>"

theorem eptstat_others_witness:
  "other_pkgs ''SUNWcsu'' (pinfo (ep_ent (eptstat shared_ent ''SUNWcsu'' INST_RDY))) = [pinfo0\<lparr>pkg := ''SUNWzz''\<rparr>]"
  using eptstat_others [of "''SUNWcsu''" shared_ent INST_RDY] by (simp add: PKGSIZ_def other_pkgs_def shared_ent_def pinfo0_def)

end
