(* ===== verification/Setlist.thy ===== *)
theory Setlist
  imports Cfent "HOL-Library.Sublist"
begin

text \<open>
  The list of classes of an installation, \<open>libinst/setlist.c\<close>: its construction from \<open>CLASSES\<close> with the class
  \<open>none\<close> first, the verification levels that environment variables give to classes, and the access
  functions. The array of \<open>listmgr.c\<close> behind it is a list; \<open>None\<close> is a null pointer or the handle \<open>-1\<close>.
\<close>

section \<open>Classes\<close>

record cl_attr =
  cl_name :: string
  inst_script :: "string option"
  rem_script :: "string option"
  src_verify :: nat
  dst_verify :: nat
  relpath_2_CAS :: nat

definition NOVERIFY :: nat where "NOVERIFY = 1"
definition QKVERIFY :: nat where "QKVERIFY = 2"
definition REL_2_CAS :: nat where "REL_2_CAS = 1"

text \<open>The static variables of an environment scanner: \<open>noentry\<close> and the value found.\<close>

record scanner =
  noentry :: bool
  paramvalue :: "string option"

definition scanner0 :: scanner where "scanner0 = \<lparr>noentry = False, paramvalue = None\<rparr>"

record clstate =
  cl_NClasses :: int
  cl_Classes :: "cl_attr list option"
  cl_array :: "cl_attr list option"
  new_order :: bool
  sc_src :: scanner
  sc_dst :: scanner
  sc_path :: scanner

definition clstate0 :: clstate where
  "clstate0 = \<lparr>cl_NClasses = - 1, cl_Classes = None, cl_array = None, new_order = False,
     sc_src = scanner0, sc_dst = scanner0, sc_path = scanner0\<rparr>"

section \<open>Environment scanners\<close>

text \<open>The text from the first occurrence of \<open>w\<close> on, \<open>strstr\<close>.\<close>

fun strstr :: "string \<Rightarrow> string \<Rightarrow> string option" where
  "strstr [] w = (if w = [] then Some [] else None)"
| "strstr (c # s) w = (if take (length w) (c # s) = w then Some (c # s) else strstr s w)"

lemma strstr_length: "strstr s w = Some t \<Longrightarrow> length t \<le> length s"
  by (induction s) (auto split: if_splits)

function env_scan :: "string \<Rightarrow> string \<Rightarrow> bool" where
  "env_scan cls t =
     (case strstr t cls of
        None \<Rightarrow> False
      | Some t' \<Rightarrow>
          if drop (length cls) t' = [] \<or> isspace (hd (drop (length cls) t')) then True
          else if tl t' = [] then False
          else env_scan cls (tl t'))"
  by pat_completeness auto
termination
proof (relation "measure (\<lambda>(_, t). length t)", goal_cases)
  case (2 cls t t')
  then have "length t' \<le> length t" "t' \<noteq> []" using strstr_length by auto
  then show ?case by (cases t') auto
qed simp

declare env_scan.simps [simp del]

definition is_in_env :: "environ \<Rightarrow> string option \<Rightarrow> string \<Rightarrow> scanner \<Rightarrow> bool \<times> scanner" where
  "is_in_env env class_name paramname sc =
     (case class_name of
        None \<Rightarrow> (False, sc)
      | Some cls \<Rightarrow>
          if cls = [] then (False, sc)
          else
           (let sc' = (if \<not> noentry sc \<and> paramvalue sc = None
                       then (case env paramname of None \<Rightarrow> sc\<lparr>noentry := True\<rparr> | Some v \<Rightarrow> sc\<lparr>paramvalue := Some v\<rparr>)
                       else sc) in
            (\<not> noentry sc' \<and> env_scan cls (the (paramvalue sc')), sc')))"

text \<open>\<open>s_verify\<close>, \<open>d_verify\<close> and \<open>s_pathtype\<close>: the level and the scanner; \<open>NULL\<close> starts over.\<close>

definition scan_level :: "string \<Rightarrow> nat \<Rightarrow> environ \<Rightarrow> string option \<Rightarrow> scanner \<Rightarrow> nat \<times> scanner" where
  "scan_level param level env class_name sc =
     (case class_name of
        None \<Rightarrow> (0, scanner0)
      | Some _ \<Rightarrow> (let (b, sc') = is_in_env env class_name param sc in (if b then level else 0, sc')))"

definition s_verify :: "environ \<Rightarrow> string option \<Rightarrow> scanner \<Rightarrow> nat \<times> scanner" where
  "s_verify = scan_level ''PKG_SRC_NOVERIFY'' NOVERIFY"

definition d_verify :: "environ \<Rightarrow> string option \<Rightarrow> scanner \<Rightarrow> nat \<times> scanner" where
  "d_verify = scan_level ''PKG_DST_QKVERIFY'' QKVERIFY"

definition s_pathtype :: "environ \<Rightarrow> string option \<Rightarrow> scanner \<Rightarrow> nat \<times> scanner" where
  "s_pathtype = scan_level ''PKG_CAS_PASSRELATIVE'' REL_2_CAS"

section \<open>Building the list\<close>

text \<open>\<open>strcpy\<close> into \<open>name[CLSSIZ+1]\<close>; the new element stands at the end of the array.\<close>

definition new_cl_attr :: "environ \<Rightarrow> string \<Rightarrow> clstate \<Rightarrow> clstate res" where
  "new_cl_attr env nm st =
     (if length nm > CLSSIZ then Inl BufOverrun
      else
       (let (sv, sc1) = s_verify env (Some nm) (sc_src st);
            (dv, sc2) = d_verify env (Some nm) (sc_dst st);
            (pt, sc3) = s_pathtype env (Some nm) (sc_path st);
            c = \<lparr>cl_name = nm, inst_script = None, rem_script = None, src_verify = sv, dst_verify = dv, relpath_2_CAS = pt\<rparr> in
        Inr (st\<lparr>cl_array := Some ((case cl_array st of None \<Rightarrow> [] | Some a \<Rightarrow> a) @ [c]),
          sc_src := sc1, sc_dst := sc2, sc_path := sc3\<rparr>)))"

definition addlist :: "environ \<Rightarrow> cl_attr list option \<Rightarrow> string \<Rightarrow> clstate \<Rightarrow> (cl_attr list option \<times> clstate) res" where
  "addlist env listp item st =
     (if listp \<noteq> None \<and> item \<in> set (map cl_name (the listp)) then Inr (listp, st)
      else rbind (new_cl_attr env item st) (\<lambda>st'. Inr (cl_array st', st')))"

text \<open>The loop of \<open>setlist\<close> over the tokens: \<open>sn\<close> is the place of the first \<open>none\<close>, \<open>n\<close> the number of classes.\<close>

function set_loop :: "environ \<Rightarrow> string list \<Rightarrow> nat option \<Rightarrow> nat \<Rightarrow> clstate \<Rightarrow> (nat option \<times> nat \<times> clstate) res" where
  "set_loop env [] sn n st = Inr (sn, n, st)"
| "set_loop env (pt # ts) sn n st =
     (let sn' = (if sn = None \<and> pt = ''none'' then Some n else sn) in
      rbind (new_cl_attr env pt st) (\<lambda>st'.
        set_loop env (if sn' \<noteq> None \<and> ts \<noteq> [] \<and> hd ts = ''none'' then tl ts else ts) sn' (Suc n) st'))"
  by pat_completeness auto
termination
  by (relation "measure (\<lambda>(_, ts, _). length ts)") auto

definition to_front :: "nat \<Rightarrow> 'a list \<Rightarrow> 'a list" where
  "to_front i xs = xs ! i # take i xs @ drop (Suc i) xs"

text \<open>\<open>setlist\<close>: the number of classes; the array is the list. \<open>plist\<close> becomes its head.\<close>

definition setlist :: "environ \<Rightarrow> string \<Rightarrow> clstate \<Rightarrow> (nat \<times> cl_attr list option \<times> clstate) res" where
  "setlist env slist st =
     (let st1 = st\<lparr>sc_src := snd (s_verify env None (sc_src st)), sc_dst := snd (d_verify env None (sc_dst st)),
            sc_path := snd (s_pathtype env None (sc_path st)), cl_array := None\<rparr> in
      rbind (set_loop env (tokens [SP, TAB, NL] slist) None 0 st1) (\<lambda>(sn, n, st2).
        let moved = (sn \<noteq> None \<and> the sn > 0);
            st3 = st2\<lparr>new_order := moved, cl_array := (if moved then map_option (to_front (the sn)) (cl_array st2) else cl_array st2)\<rparr> in
        Inr (n, cl_array st3, st3)))"

section \<open>Access\<close>

text \<open>The text that \<open>cl_putl\<close> hands to \<open>putparam\<close>, if any.\<close>

definition cl_putl :: "string option \<Rightarrow> cl_attr list option \<Rightarrow> (string \<times> string) option" where
  "cl_putl parm_name lst =
     (case lst of
        Some (c # cs) \<Rightarrow>
          (case parm_name of
             Some p \<Rightarrow> if p \<noteq> [] then Some (p, join_sep SP (map cl_name (c # cs))) else None
           | None \<Rightarrow> None)
      | _ \<Rightarrow> None)"

definition cl_sets :: "environ \<Rightarrow> string option \<Rightarrow> clstate \<Rightarrow> ((string \<times> string) option \<times> clstate) res" where
  "cl_sets env slist st =
     (case slist of
        Some (c # r) \<Rightarrow>
          rbind (setlist env (c # r) st) (\<lambda>(n, l, st').
            let st2 = st'\<lparr>cl_NClasses := int n, cl_Classes := l\<rparr> in
            Inr (if new_order st2 then cl_putl (Some ''CLASSES'') l else None, st2))
      | _ \<Rightarrow> Inr (None, st))"

definition cl_getn :: "clstate \<Rightarrow> int" where "cl_getn st = cl_NClasses st"

text \<open>\<open>cl_idx\<close> looks at \<open>cl_Classes[n]\<close> for every \<open>n\<close> below \<open>cl_NClasses\<close>.\<close>

fun idx_loop :: "string \<Rightarrow> cl_attr list \<Rightarrow> int \<Rightarrow> int" where
  "idx_loop nm [] i = - 1"
| "idx_loop nm (c # cs) i = (if cl_name c = nm then i else idx_loop nm cs (i + 1))"

definition cl_idx :: "clstate \<Rightarrow> string \<Rightarrow> int" where
  "cl_idx st nm = (case cl_Classes st of None \<Rightarrow> - 1 | Some cs \<Rightarrow> idx_loop nm (take (nat (cl_NClasses st)) cs) 0)"

definition cl_get :: "(cl_attr \<Rightarrow> 'a) \<Rightarrow> 'a \<Rightarrow> clstate \<Rightarrow> int \<Rightarrow> 'a" where
  "cl_get f d st idx =
     (case cl_Classes st of
        Some cs \<Rightarrow> if 0 \<le> idx \<and> idx < cl_NClasses st then f (cs ! nat idx) else d
      | None \<Rightarrow> d)"

definition cl_svfy :: "clstate \<Rightarrow> int \<Rightarrow> nat" where "cl_svfy = cl_get src_verify 0"
definition cl_dvfy :: "clstate \<Rightarrow> int \<Rightarrow> nat" where "cl_dvfy = cl_get dst_verify 0"
definition cl_pthrel :: "clstate \<Rightarrow> int \<Rightarrow> nat" where "cl_pthrel = cl_get relpath_2_CAS 0"
definition cl_nam :: "clstate \<Rightarrow> int \<Rightarrow> string option" where "cl_nam = cl_get (\<lambda>c. Some (cl_name c)) None"

definition cl_def_dverify :: "int \<Rightarrow> clstate \<Rightarrow> clstate" where
  "cl_def_dverify idx st =
     (case cl_Classes st of
        Some cs \<Rightarrow>
          if 0 \<le> idx \<and> idx < cl_NClasses st
          then st\<lparr>cl_Classes := Some (cs[nat idx := (cs ! nat idx)\<lparr>dst_verify := 0\<rparr>])\<rparr> else st
      | None \<Rightarrow> st)"

text \<open>
  \<open>cl_setl\<close> on a null terminated array: the first \<open>none\<close> is moved to the front; every later \<open>none\<close> is
  overwritten by moving what follows it down, the last element staying where it was.
\<close>

definition shift_down :: "nat \<Rightarrow> 'a list \<Rightarrow> 'a list" where
  "shift_down i xs = take i xs @ drop (Suc i) xs @ [last xs]"

function drop_nones :: "nat \<Rightarrow> cl_attr list \<Rightarrow> cl_attr list" where
  "drop_nones i xs =
     (if i < length xs then drop_nones (Suc i) (if cl_name (xs ! i) = ''none'' then shift_down i xs else xs) else xs)"
  by pat_completeness auto
termination
  by (relation "measure (\<lambda>(i, xs). length xs - i)") (auto simp: shift_down_def)

declare drop_nones.simps [simp del]

definition first_none :: "cl_attr list \<Rightarrow> nat option" where
  "first_none cs = (let i = length (takeWhile (\<lambda>c. cl_name c \<noteq> ''none'') cs) in if i < length cs then Some i else None)"

definition cl_setl :: "cl_attr list option \<Rightarrow> clstate \<Rightarrow> clstate" where
  "cl_setl lst st =
     (case lst of
        None \<Rightarrow> st\<lparr>cl_Classes := None, cl_NClasses := - 1\<rparr>
      | Some cs \<Rightarrow>
         (let cs1 = (case first_none cs of Some i \<Rightarrow> if i > 0 then to_front i cs else cs | None \<Rightarrow> cs) in
          st\<lparr>cl_Classes := Some (drop_nones 1 cs1), cl_NClasses := int (length cs)\<rparr>))"

section \<open>What a scanner finds\<close>

lemma strstr_Some: "strstr s w = Some t \<Longrightarrow> \<exists>u r. s = u @ t \<and> t = w @ r"
proof (induction s)
  case (Cons c s)
  show ?case
  proof (cases "take (length w) (c # s) = w")
    case True
    then have "t = c # s" using Cons(2) by simp
    moreover have "c # s = w @ drop (length w) (c # s)" using True by (metis append_take_drop_id)
    ultimately show ?thesis by (metis append_Nil)
  next
    case False
    then show ?thesis using Cons by auto
  qed
qed (auto split: if_splits)

lemma strstr_first:
  assumes "s = u @ w @ r"
  shows "\<exists>t. strstr s w = Some t \<and> length (w @ r) \<le> length t"
  using assms
proof (induction s arbitrary: u)
  case (Cons c s)
  show ?case
  proof (cases "take (length w) (c # s) = w")
    case True
    then have "strstr (c # s) w = Some (c # s)" by simp
    moreover have "length (w @ r) \<le> length (c # s)" unfolding Cons(2) by simp
    ultimately show ?thesis by blast
  next
    case False
    then have "u \<noteq> []" using Cons(2) by auto
    then obtain u' where "u = c # u'" using Cons(2) by (cases u) auto
    then show ?thesis using Cons False by auto
  qed
qed auto

lemma env_scan_finds:
  assumes "cls \<noteq> []"
  shows "env_scan cls t \<longleftrightarrow> (\<exists>u r. t = u @ cls @ r \<and> (r = [] \<or> isspace (hd r)))"
proof (induction "length t" arbitrary: t rule: less_induct)
  case less
  show ?case
  proof (cases "strstr t cls")
    case None
    then have "\<nexists>u r. t = u @ cls @ r" using strstr_first by (metis option.distinct(1))
    then show ?thesis using None by (subst env_scan.simps) auto
  next
    case (Some t')
    then obtain u0 r0 where t': "t = u0 @ t'" "t' = cls @ r0" using strstr_Some by blast
    then have ne: "t' \<noteq> []" using assms by simp
    show ?thesis
    proof (cases "r0 = [] \<or> isspace (hd r0)")
      case True
      then show ?thesis using Some t' by (subst env_scan.simps) auto
    next
      case False
      have iff: "(\<exists>u r. t = u @ cls @ r \<and> (r = [] \<or> isspace (hd r))) \<longleftrightarrow>
          (\<exists>u r. tl t' = u @ cls @ r \<and> (r = [] \<or> isspace (hd r)))"
      proof
        assume "\<exists>u r. t = u @ cls @ r \<and> (r = [] \<or> isspace (hd r))"
        then obtain u r where ur: "t = u @ cls @ r" "r = [] \<or> isspace (hd r)" by blast
        then have "length (cls @ r) \<le> length t'" using strstr_first [OF ur(1)] Some by auto
        moreover have "length (cls @ r) \<noteq> length t'"
        proof
          assume "length (cls @ r) = length t'"
          then have "cls @ r = t'" using ur(1) t'(1) by (metis append_eq_append_conv)
          then show False using t'(2) ur(2) False by simp
        qed
        ultimately have "length u > length u0" using ur(1) t'(1) by (metis add_less_cancel_right antisym_conv2 leD length_append nat_add_left_cancel_less not_less_iff_gr_or_eq)
        then obtain x where x: "u = u0 @ x" "x \<noteq> []" using ur(1) t'(1)
          by (metis append_eq_append_conv_if append_take_drop_id drop_eq_Nil leD less_imp_le)
        then have "t' = x @ cls @ r" using ur(1) t'(1) by simp
        then have "tl t' = tl x @ cls @ r" using x(2) by (cases x) auto
        then show "\<exists>u r. tl t' = u @ cls @ r \<and> (r = [] \<or> isspace (hd r))" using ur(2) by blast
      next
        assume "\<exists>u r. tl t' = u @ cls @ r \<and> (r = [] \<or> isspace (hd r))"
        then obtain u r where "tl t' = u @ cls @ r" "r = [] \<or> isspace (hd r)" by blast
        moreover have "t = (u0 @ [hd t']) @ tl t'" using t'(1) ne by simp
        ultimately show "\<exists>u r. t = u @ cls @ r \<and> (r = [] \<or> isspace (hd r))" by (metis append.assoc)
      qed
      have "length (tl t') < length t" using t'(1) ne by (cases t') auto
      then have "env_scan cls (tl t') \<longleftrightarrow> (\<exists>u r. tl t' = u @ cls @ r \<and> (r = [] \<or> isspace (hd r)))" by (rule less)
      moreover have "env_scan cls t \<longleftrightarrow> tl t' \<noteq> [] \<and> env_scan cls (tl t')"
        using Some False t'(2) by (subst env_scan.simps) auto
      ultimately show ?thesis using iff assms by auto
    qed
  qed
qed

lemma split_on_head: "split_on seps s = q # qs \<Longrightarrow> \<exists>b. s = q @ b \<and> (b = [] \<or> hd b \<in> set seps)"
proof (induction s arbitrary: q qs)
  case (Cons c s)
  obtain q' qs' where q: "split_on seps s = q' # qs'" by (meson neq_Nil_conv split_on_ne)
  show ?case using Cons q by (auto split: if_splits)
qed simp

lemma split_on_parts: "p \<in> set (split_on seps s) \<Longrightarrow> \<exists>a b. s = a @ p @ b \<and> (b = [] \<or> hd b \<in> set seps)"
proof (induction s arbitrary: p)
  case (Cons c s)
  obtain q qs where q: "split_on seps s = q # qs" by (meson neq_Nil_conv split_on_ne)
  show ?case
  proof (cases "p \<in> set (split_on seps s)")
    case True
    then obtain a b where "s = a @ p @ b" "b = [] \<or> hd b \<in> set seps" using Cons(1) by blast
    then show ?thesis by (metis append_Cons)
  next
    case False
    then have "c \<in> set seps \<and> p = [] \<or> c \<notin> set seps \<and> p = c # q" using Cons(2) q by (auto split: if_splits)
    then show ?thesis
    proof
      assume "c \<in> set seps \<and> p = []"
      then show ?thesis by (metis append_Nil list.sel(1))
    next
      assume p: "c \<notin> set seps \<and> p = c # q"
      obtain b where "s = q @ b" "b = [] \<or> hd b \<in> set seps" using split_on_head [OF q] by blast
      then show ?thesis using p by (metis append_Cons append_Nil)
    qed
  qed
qed simp

lemma token_split: "t \<in> set (tokens seps s) \<Longrightarrow> \<exists>a b. s = a @ t @ b \<and> (b = [] \<or> hd b \<in> set seps)"
  using split_on_parts by (auto simp: tokens_def)

text \<open>The characters that end a name in the scan.\<close>

definition spaces :: string where
  "spaces = [SP, TAB, NL, CHR 0x0B, CHR 0x0C, CHR 0x0D]"

lemma isspace_spaces: "isspace c \<longleftrightarrow> c \<in> set spaces"
  by (simp add: isspace_def spaces_def)

lemma token_suffix:
  assumes cls: "cls \<noteq> []" "set cls \<inter> set spaces = {}"
  shows "(\<exists>u r. v = u @ cls @ r \<and> (r = [] \<or> isspace (hd r))) \<longleftrightarrow> (\<exists>t \<in> set (tokens spaces v). suffix cls t)"
proof
  assume "\<exists>u r. v = u @ cls @ r \<and> (r = [] \<or> isspace (hd r))"
  then obtain u r where v: "v = u @ cls @ r" "r = [] \<or> isspace (hd r)" by blast
  define x where "x = rev (takeWhile (\<lambda>c. c \<notin> set spaces) (rev u))"
  define y where "y = dropWhile (\<lambda>c. c \<notin> set spaces) (rev u)"
  have u: "u = rev y @ x" unfolding x_def y_def by (metis rev_append rev_rev_ident takeWhile_dropWhile_id)
  have x: "set x \<inter> set spaces = {}" using takeWhile_disjoint [of "set spaces" "rev u"] by (simp add: x_def)
  have t: "x @ cls \<noteq> []" "set (x @ cls) \<inter> set spaces = {}" "suffix cls (x @ cls)" using x cls by (auto simp: suffix_def)
  have tail: "x @ cls \<in> set (tokens spaces ((x @ cls) @ r))"
  proof (cases r)
    case Nil
    then show ?thesis using tokens_single [OF t(1,2)] by simp
  next
    case (Cons c r')
    then have "c \<in> set spaces" using v(2) by (simp add: isspace_spaces)
    then show ?thesis using tokens_append_sep [OF t(1,2), of c r'] Cons by simp
  qed
  have "x @ cls \<in> set (tokens spaces v)"
  proof (cases y)
    case Nil
    then have "v = (x @ cls) @ r" using v(1) u by simp
    then show ?thesis using tail by simp
  next
    case (Cons c y')
    then have c: "c \<in> set spaces" using hd_dropWhile [of "\<lambda>c. c \<notin> set spaces" "rev u"] by (auto simp: y_def)
    have "v = rev y' @ c # (x @ cls) @ r" using v(1) u Cons by simp
    then show ?thesis using tokens_append [OF c, of "rev y'" "(x @ cls) @ r"] tail by simp
  qed
  then show "\<exists>t \<in> set (tokens spaces v). suffix cls t" using t(3) by blast
next
  assume "\<exists>t \<in> set (tokens spaces v). suffix cls t"
  then obtain t where t: "t \<in> set (tokens spaces v)" "suffix cls t" by blast
  obtain a b where v: "v = a @ t @ b" "b = [] \<or> isspace (hd b)"
    using token_split [OF t(1)] by (auto simp: isspace_spaces)
  obtain x where "t = x @ cls" using t(2) by (auto simp: suffix_def)
  then have "v = (a @ x) @ cls @ b" using v(1) by simp
  then show "\<exists>u r. v = u @ cls @ r \<and> (r = [] \<or> isspace (hd r))" using v(2) by blast
qed

text \<open>
  A class has the verification level of an environment variable exactly when it is the end of a word of
  its value: the scan looks at what follows an occurrence of the name, not at what precedes it.
\<close>

theorem is_in_env_suffix:
  assumes "cls \<noteq> []" "set cls \<inter> set spaces = {}" "env param = Some v"
  shows "fst (is_in_env env (Some cls) param scanner0) \<longleftrightarrow> (\<exists>t \<in> set (tokens spaces v). suffix cls t)"
  using assms token_suffix [OF assms(1,2), of v] env_scan_finds [OF assms(1), of v] by (simp add: is_in_env_def scanner0_def)

theorem is_in_env_suffix_witness:
  "fst (is_in_env (\<lambda>_. Some ''build xnone'') (Some ''none'') ''PKG_DST_QKVERIFY'' scanner0) \<longleftrightarrow>
     (\<exists>t \<in> set (tokens spaces ''build xnone''). suffix ''none'' t)"
  by (rule is_in_env_suffix) (simp_all add: spaces_def)

section \<open>The order of the classes\<close>

definition class_list :: "clstate \<Rightarrow> string list" where
  "class_list st = (case cl_array st of None \<Rightarrow> [] | Some a \<Rightarrow> map cl_name a)"

lemma new_cl_attr_names:
  assumes "length nm \<le> CLSSIZ"
  shows "\<exists>st'. new_cl_attr env nm st = Inr st' \<and> class_list st' = class_list st @ [nm] \<and> cl_array st' \<noteq> None \<and>
    cl_Classes st' = cl_Classes st \<and> cl_NClasses st' = cl_NClasses st"
  using assms by (auto simp: new_cl_attr_def class_list_def Let_def split: prod.splits option.splits)

lemma set_loop_names:
  assumes "\<forall>t \<in> set ts. length t \<le> CLSSIZ" "(if sn = None then 0 else 1) + count_list ts ''none'' \<le> 1"
  shows "\<exists>sn' st'. set_loop env ts sn n st = Inr (sn', n + length ts, st') \<and> class_list st' = class_list st @ ts \<and>
    sn' = (if sn = None \<and> ''none'' \<in> set ts then Some (n + length (takeWhile (\<lambda>t. t \<noteq> ''none'') ts)) else sn) \<and>
    (ts \<noteq> [] \<longrightarrow> cl_array st' \<noteq> None)"
  using assms
proof (induction ts arbitrary: sn n st)
  case (Cons t ts)
  let ?sn = "if sn = None \<and> t = ''none'' then Some n else sn"
  obtain st1 where st1: "new_cl_attr env t st = Inr st1" "class_list st1 = class_list st @ [t]" "cl_array st1 \<noteq> None"
    using new_cl_attr_names [of t env st] Cons(2) by auto
  have no: "?sn \<noteq> None \<Longrightarrow> ''none'' \<notin> set ts" using Cons(3) by (auto split: if_splits simp: count_list_0_iff)
  then have step: "set_loop env (t # ts) sn n st = set_loop env ts ?sn (Suc n) st1"
    using st1(1) by (cases ts) auto
  have "(if ?sn = None then 0 else 1) + count_list ts ''none'' \<le> 1" using Cons(3) by (auto split: if_splits)
  from Cons(1) [OF _ this, of "Suc n" st1] Cons(2)
  obtain sn' st' where r: "set_loop env ts ?sn (Suc n) st1 = Inr (sn', Suc n + length ts, st')"
    "class_list st' = class_list st1 @ ts"
    "sn' = (if ?sn = None \<and> ''none'' \<in> set ts then Some (Suc n + length (takeWhile (\<lambda>t. t \<noteq> ''none'') ts)) else ?sn)"
    "ts \<noteq> [] \<longrightarrow> cl_array st' \<noteq> None" by auto
  have "cl_array st' \<noteq> None" using r st1(3) by (cases ts) auto
  then show ?case using step r st1(2) by auto
qed simp

lemma to_front_none:
  assumes "''none'' \<in> set ts" "count_list ts ''none'' \<le> 1"
  shows "to_front (length (takeWhile (\<lambda>t. t \<noteq> ''none'') ts)) ts = ''none'' # filter (\<lambda>t. t \<noteq> ''none'') ts"
proof -
  obtain us vs where ts: "ts = us @ ''none'' # vs" "''none'' \<notin> set us" using split_list_first [OF assms(1)] by blast
  then have "''none'' \<notin> set vs" using assms(2) by (auto simp: count_list_0_iff)
  moreover have "takeWhile (\<lambda>t. t \<noteq> ''none'') ts = us" using ts by (auto simp: takeWhile_tail)
  moreover have "filter (\<lambda>t. t \<noteq> ''none'') us = us" "filter (\<lambda>t. t \<noteq> ''none'') vs = vs"
    using ts(2) calculation(1) by (auto simp: filter_id_conv)
  ultimately show ?thesis using ts(1) by (simp add: to_front_def)
qed

lemma takeWhile_shorter: "x \<in> set xs \<Longrightarrow> length (takeWhile (\<lambda>t. t \<noteq> x) xs) < length xs"
  by (induction xs) auto

lemma map_to_front: "i < length xs \<Longrightarrow> map f (to_front i xs) = to_front i (map f xs)"
  by (simp add: to_front_def take_map drop_map)

text \<open>
  The classes of an installation are the words of \<open>CLASSES\<close> in their order, with the class \<open>none\<close>, if it is
  among them, moved to the front; their number is returned. (The list names \<open>none\<close> at most once and
  no name is longer than its array.)
\<close>

theorem setlist_none_first:
  assumes "\<forall>t \<in> set (tokens [SP, TAB, NL] slist). length t \<le> CLSSIZ" "count_list (tokens [SP, TAB, NL] slist) ''none'' \<le> 1"
  shows "\<exists>l st'. setlist env slist st = Inr (length (tokens [SP, TAB, NL] slist), l, st') \<and> l = cl_array st' \<and>
    class_list st' = (if ''none'' \<in> set (tokens [SP, TAB, NL] slist)
      then ''none'' # filter (\<lambda>t. t \<noteq> ''none'') (tokens [SP, TAB, NL] slist) else tokens [SP, TAB, NL] slist)"
proof -
  define ts where "ts = tokens [SP, TAB, NL] slist"
  define st1 where "st1 = st\<lparr>sc_src := snd (s_verify env None (sc_src st)), sc_dst := snd (d_verify env None (sc_dst st)),
            sc_path := snd (s_pathtype env None (sc_path st)), cl_array := None\<rparr>"
  let ?i = "length (takeWhile (\<lambda>t. t \<noteq> ''none'') ts)"
  have c1: "class_list st1 = []" by (simp add: class_list_def st1_def)
  obtain sn st2 where l: "set_loop env ts None 0 st1 = Inr (sn, length ts, st2)" "class_list st2 = ts"
    "sn = (if ''none'' \<in> set ts then Some ?i else None)"
    using set_loop_names [of ts None env 0 st1] assms c1 by (auto simp: ts_def)
  show ?thesis
  proof (cases "''none'' \<in> set ts \<and> ?i > 0")
    case False
    then have ord: "ts = (if ''none'' \<in> set ts then ''none'' # filter (\<lambda>t. t \<noteq> ''none'') ts else ts)"
    proof (cases "''none'' \<in> set ts")
      case True
      then have "to_front 0 ts = ''none'' # filter (\<lambda>t. t \<noteq> ''none'') ts"
        using to_front_none [of ts] False assms(2) by (simp add: ts_def)
      moreover have "to_front 0 ts = ts" using True by (cases ts) (auto simp: to_front_def)
      ultimately show ?thesis using True by simp
    qed simp
    have m: "\<not> (sn \<noteq> None \<and> the sn > 0)" using False l(3) by auto
    define st3 where "st3 = st2\<lparr>new_order := False, cl_array := cl_array st2\<rparr>"
    have "setlist env slist st = Inr (length ts, cl_array st3, st3)"
      using l(1) m by (auto simp: setlist_def ts_def [symmetric] st1_def [symmetric] Let_def st3_def)
    moreover have "class_list st3 = ts" using l(2) by (simp add: class_list_def st3_def)
    ultimately show ?thesis using ord unfolding ts_def [symmetric]
      by (intro exI [of _ "cl_array st3"] exI [of _ st3]) (simp only: simp_thms)
  next
    case True
    then have i: "?i < length ts" using takeWhile_shorter [of "''none''" ts] by simp
    have m: "sn = Some ?i" "?i > 0" using True l(3) by auto
    obtain a where a: "cl_array st2 = Some a" "map cl_name a = ts"
      using l(2) i by (cases "cl_array st2") (auto simp: class_list_def)
    then have "length a = length ts" by auto
    then have "map cl_name (to_front ?i a) = ''none'' # filter (\<lambda>t. t \<noteq> ''none'') ts"
      using to_front_none [of ts] True assms(2) i a(2) by (simp add: map_to_front ts_def [symmetric])
    then show ?thesis using l m a True
      by (auto simp: setlist_def ts_def [symmetric] st1_def [symmetric] Let_def class_list_def)
  qed
qed

theorem setlist_none_first_witness:
  "\<exists>l st'. setlist (\<lambda>_. None) ''build none'' clstate0 = Inr (length (tokens [SP, TAB, NL] ''build none''), l, st') \<and> l = cl_array st' \<and>
    class_list st' = (if ''none'' \<in> set (tokens [SP, TAB, NL] ''build none'')
      then ''none'' # filter (\<lambda>t. t \<noteq> ''none'') (tokens [SP, TAB, NL] ''build none'') else tokens [SP, TAB, NL] ''build none'')"
  by (rule setlist_none_first) (code_simp+)

text \<open>
  \<open>cl_setl\<close> does not shorten the list when it removes a second \<open>none\<close>: the classes behind it move down, the
  number of classes stays, and the last class is there twice.
\<close>

theorem cl_setl_repeats_last:
  assumes "cl_name c = ''none''" "cl_name d = ''none''" "\<forall>x \<in> set (ds @ [e]). cl_name x \<noteq> ''none''"
  shows "cl_Classes (cl_setl (Some (c # d # ds @ [e])) st) = Some (c # ds @ [e, e]) \<and>
    cl_NClasses (cl_setl (Some (c # d # ds @ [e])) st) = int (length ds) + 3"
proof -
  have stay: "drop_nones i xs = xs" if "\<forall>x \<in> set (drop i xs). cl_name x \<noteq> ''none''" for i xs
    using that
  proof (induction "length xs - i" arbitrary: i)
    case (Suc k)
    then have "i < length xs" by simp
    then have "xs ! i \<in> set (drop i xs)" "set (drop (Suc i) xs) \<subseteq> set (drop i xs)"
      by (metis list.set_intros(1) Cons_nth_drop_Suc) (metis \<open>i < length xs\<close> Cons_nth_drop_Suc set_subset_Cons)
    moreover have "drop_nones (Suc i) xs = xs" using Suc calculation by (intro Suc(1)) auto
    ultimately show ?case using Suc by (subst drop_nones.simps) auto
  qed (subst drop_nones.simps, simp)
  have "first_none (c # d # ds @ [e]) = Some 0" using assms(1) by (simp add: first_none_def)
  moreover have "drop_nones 1 (c # d # ds @ [e]) = drop_nones 2 (c # ds @ [e, e])"
    using assms(2) by (subst drop_nones.simps) (simp add: shift_down_def numeral_2_eq_2)
  moreover have "\<forall>x \<in> set (drop 2 (c # ds @ [e, e])). cl_name x \<noteq> ''none''"
    using assms(3) by (auto dest: in_set_dropD simp: numeral_2_eq_2)
  ultimately show ?thesis using stay by (simp add: cl_setl_def)
qed

theorem cl_setl_repeats_last_witness:
  "cl_Classes (cl_setl (Some (map (\<lambda>n. \<lparr>cl_name = n, inst_script = None, rem_script = None, src_verify = 0, dst_verify = 0,
      relpath_2_CAS = 0\<rparr>) [''none'', ''none'', ''build''])) clstate0) =
   Some (map (\<lambda>n. \<lparr>cl_name = n, inst_script = None, rem_script = None, src_verify = 0, dst_verify = 0,
      relpath_2_CAS = 0\<rparr>) [''none'', ''build'', ''build''])"
  using cl_setl_repeats_last [of "\<lparr>cl_name = ''none'', inst_script = None, rem_script = None, src_verify = 0, dst_verify = 0, relpath_2_CAS = 0\<rparr>"
      "\<lparr>cl_name = ''none'', inst_script = None, rem_script = None, src_verify = 0, dst_verify = 0, relpath_2_CAS = 0\<rparr>" "[]"
      "\<lparr>cl_name = ''build'', inst_script = None, rem_script = None, src_verify = 0, dst_verify = 0, relpath_2_CAS = 0\<rparr>" clstate0]
  by simp

end
