(* ===== verification/Verify.thy ===== *)
theory Verify
  imports Cfent Vfp
begin

text \<open>
  Verification of installed objects, \<open>libpkg/verify.c\<close>: the checksum of a file, \<open>cverify\<close> for the
  contents, \<open>averify\<close> for type, links and attributes, \<open>fverify\<close> for a quick check of both.

  The file system is a parameter: a record of the system calls over a state of any type, the current
  directory included. User and group lookups are functions. Messages are text that the callers print;
  \<open>reperr\<close> models their buffer, the calls of it are left out of the verifiers.
\<close>

unbundle bit_operations_syntax

section \<open>The operating system\<close>

record fstat =
  fs_mode :: u16
  fs_uid :: int
  fs_gid :: int
  fs_rdev :: u32
  fs_dev :: int
  fs_ino :: int
  fs_nlink :: nat
  fs_size :: u64
  fs_mtime :: u64

text \<open>
  Calls that change the state return whether they succeeded; \<open>sys_remove\<close> also tells a missing file
  (\<open>ENOENT\<close>) apart. \<open>sys_os\<close> is what \<open>vfpOpen\<close> sees of the files.
\<close>

record 'fs sys =
  sys_stat :: "'fs \<Rightarrow> string \<Rightarrow> fstat option"
  sys_lstat :: "'fs \<Rightarrow> string \<Rightarrow> fstat option"
  sys_readlink :: "'fs \<Rightarrow> string \<Rightarrow> string option"
  sys_access :: "'fs \<Rightarrow> string \<Rightarrow> bool"
  sys_statvfs :: "'fs \<Rightarrow> string \<Rightarrow> bool"
  sys_getcwd :: "'fs \<Rightarrow> string option"
  sys_os :: "'fs \<Rightarrow> os"
  sys_chdir :: "string \<Rightarrow> 'fs \<Rightarrow> bool \<times> 'fs"
  sys_utime :: "string \<Rightarrow> u64 \<Rightarrow> 'fs \<Rightarrow> bool \<times> 'fs"
  sys_rmdir :: "string \<Rightarrow> 'fs \<Rightarrow> bool \<times> 'fs"
  sys_remove :: "string \<Rightarrow> 'fs \<Rightarrow> (bool \<times> bool) \<times> 'fs"
  sys_link :: "string \<Rightarrow> string \<Rightarrow> 'fs \<Rightarrow> bool \<times> 'fs"
  sys_symlink :: "string \<Rightarrow> string \<Rightarrow> 'fs \<Rightarrow> bool \<times> 'fs"
  sys_mkdir :: "string \<Rightarrow> u16 \<Rightarrow> 'fs \<Rightarrow> bool \<times> 'fs"
  sys_mknod :: "string \<Rightarrow> u16 \<Rightarrow> u32 \<Rightarrow> 'fs \<Rightarrow> bool \<times> 'fs"
  sys_chmod :: "string \<Rightarrow> u16 \<Rightarrow> 'fs \<Rightarrow> bool \<times> 'fs"
  sys_grgid :: "int \<Rightarrow> string option"
  sys_grnam :: "string \<Rightarrow> int option"
  sys_pwuid :: "int \<Rightarrow> string option"
  sys_pwnam :: "string \<Rightarrow> int option"

text \<open>The macros of Darwin's \<open>sys/stat.h\<close> and \<open>sys/types.h\<close>.\<close>

definition S_IFMT :: u16 where "S_IFMT = 0xF000"
definition S_IFIFO :: u16 where "S_IFIFO = 0x1000"
definition S_IFCHR :: u16 where "S_IFCHR = 0x2000"
definition S_IFDIR :: u16 where "S_IFDIR = 0x4000"
definition S_IFBLK :: u16 where "S_IFBLK = 0x6000"
definition S_IFREG :: u16 where "S_IFREG = 0x8000"
definition S_IFLNK :: u16 where "S_IFLNK = 0xA000"

definition dev_major :: "u32 \<Rightarrow> u32" where "dev_major d = drop_bit 24 d AND 0xFF"
definition dev_minor :: "u32 \<Rightarrow> u32" where "dev_minor d = d AND 0xFFFFFF"
definition makedev :: "u32 \<Rightarrow> u32 \<Rightarrow> u32" where "makedev x y = push_bit 24 x OR y"

definition VE_EXIST :: int where "VE_EXIST = 1"
definition VE_FTYPE :: int where "VE_FTYPE = 2"
definition VE_ATTR :: int where "VE_ATTR = 4"
definition VE_CONT :: int where "VE_CONT = 8"
definition VE_FAIL :: int where "VE_FAIL = 16"

lemmas VE_defs = VE_EXIST_def VE_FTYPE_def VE_ATTR_def VE_CONT_def VE_FAIL_def

section \<open>Settings and messages\<close>

record vset =
  enable_checksum :: bool
  disable_attributes :: bool
  nonabi_symlinks :: bool

definition vset0 :: vset where
  "vset0 = \<lparr>enable_checksum = True, disable_attributes = False, nonabi_symlinks = False\<rparr>"

definition checksum_on :: "vset \<Rightarrow> vset" where "checksum_on s = s\<lparr>enable_checksum := True\<rparr>"
definition checksum_off :: "vset \<Rightarrow> vset" where "checksum_off s = s\<lparr>enable_checksum := False\<rparr>"
definition disable_attribute_check :: "vset \<Rightarrow> vset" where "disable_attribute_check s = s\<lparr>disable_attributes := True\<rparr>"
definition get_disable_attribute_check :: "vset \<Rightarrow> bool" where "get_disable_attribute_check s = disable_attributes s"
definition set_nonABI_symlinks :: "vset \<Rightarrow> vset" where "set_nonABI_symlinks s = s\<lparr>nonabi_symlinks := True\<rparr>"
definition nonABI_symlinks :: "vset \<Rightarrow> bool" where "nonABI_symlinks s = nonabi_symlinks s"

text \<open>
  \<open>theErrBuf\<close> holds \<open>PATH_MAX+512\<close> bytes. \<open>msg\<close> is the formatted message. Behind other text the cursor
  has moved past the newline, but the size given to \<open>vsnprintf\<close> still counts it.
\<close>

definition ERRBUF_SIZE :: nat where "ERRBUF_SIZE = PATH_MAX + 512"

definition reperr :: "string \<Rightarrow> string option \<Rightarrow> string res" where
  "reperr buf fmt =
     (case fmt of
        None \<Rightarrow> Inr []
      | Some msg \<Rightarrow>
          if buf \<noteq> [] then
            (let n = length buf; put = take (ERRBUF_SIZE - n - 1) msg in
             if n + 1 + length put < ERRBUF_SIZE then Inr (buf @ [NL] @ put) else Inl BufOverrun)
          else Inr (take (ERRBUF_SIZE - 1) msg))"

section \<open>The checksum\<close>

definition byte :: "char \<Rightarrow> u64" where "byte c = word_of_nat (of_char c)"

definition byte_sum :: "string \<Rightarrow> u64" where "byte_sum s = sum_list (map byte s)"

text \<open>
  The loop over whole words. \<open>unsigned long\<close> has eight bytes, of which the four low ones are added; on
  a little-endian machine these come first. It goes on while the first byte left lies more than
  eight bytes before the last.
\<close>

function cksum_words :: "string \<Rightarrow> u64" where
  "cksum_words s = (if length s > 9 then byte_sum (take 4 s) + cksum_words (drop 8 s) else byte_sum s)"
  by pat_completeness auto
termination
  by (relation "measure length") auto

declare cksum_words.simps [simp del]

text \<open>\<open>addr\<close> is the address of the buffer: bytes before the first word boundary are added one by one.\<close>

definition cksum_bytes :: "nat \<Rightarrow> string \<Rightarrow> u64" where
  "cksum_bytes addr s = (let k = (8 - addr mod 8) mod 8 in byte_sum (take k s) + cksum_words (drop k s))"

text \<open>\<open>union hilo\<close>: \<open>hi\<close> are the two low bytes, \<open>lo\<close> the two bytes behind them.\<close>

definition hl_hi :: "u64 \<Rightarrow> u64" where "hl_hi l = l AND 0xFFFF"
definition hl_lo :: "u64 \<Rightarrow> u64" where "hl_lo l = drop_bit 16 l AND 0xFFFF"

definition fold_sum :: "u64 \<Rightarrow> u64" where
  "fold_sum lg = (let t = hl_lo lg + hl_hi lg in hl_hi t + hl_lo t)"

text \<open>The error flag and the checksum.\<close>

definition compute_checksum :: "nat \<Rightarrow> os \<Rightarrow> string \<Rightarrow> bool \<times> u64" where
  "compute_checksum addr os a_path =
     (case vfpOpen os (Some a_path) (Some ''r'') 0 of
        Inl _ \<Rightarrow> (True, 0)
      | Inr v \<Rightarrow> (False, fold_sum (cksum_bytes addr (take (nat (vEnd v + 1)) (vMem v)))))"

section \<open>cverify\<close>

definition cverify ::
  "vset \<Rightarrow> nat \<Rightarrow> 'fs sys \<Rightarrow> int \<Rightarrow> char \<Rightarrow> string \<Rightarrow> cinfo \<Rightarrow> bool \<Rightarrow> 'fs \<Rightarrow> int \<times> cinfo \<times> 'fs" where
  "cverify vs addr sys fix ft pth ci allow_checksum fs =
     (let setval = (ft = CHR ''?'') in
      case sys_stat sys fs pth of
        None \<Rightarrow> (VE_EXIST, ci, fs)
      | Some st \<Rightarrow>
         (let (ret1, ci1, fs1) =
            (if setval \<or> modtime ci = BADCONT then (0, ci\<lparr>modtime := fs_mtime st\<rparr>, fs)
             else if fs_mtime st \<noteq> modtime ci then
               (if fix > 0 then (case sys_utime sys pth (modtime ci) fs of (ok, fs') \<Rightarrow> (if ok then 0 else VE_FAIL, ci, fs'))
                else if fix < 0 then (VE_CONT, ci, fs)
                else (0, ci, fs))
             else (0, ci, fs));
          (ret2, ci2) =
            (if setval \<or> fsize ci1 = BADCONT then (ret1, ci1\<lparr>fsize := fs_size st\<rparr>)
             else if fs_size st \<noteq> fsize ci1 then (if ret1 = 0 then VE_CONT else ret1, ci1)
             else (ret1, ci1)) in
          if \<not> allow_checksum \<or> \<not> enable_checksum vs then (ret2, ci2, fs1)
          else
           (let (err, mycksum) = compute_checksum addr (sys_os sys fs1) pth in
            if setval \<or> cksum ci2 = BADCONT then (ret2, ci2\<lparr>cksum := mycksum\<rparr>, fs1)
            else if mycksum \<noteq> cksum ci2 \<or> err then (if ret2 = 0 then VE_CONT else ret2, ci2, fs1)
            else (ret2, ci2, fs1))))"

section \<open>averify\<close>

definition clear_target :: "'fs sys \<Rightarrow> string \<Rightarrow> char \<Rightarrow> bool \<Rightarrow> 'fs \<Rightarrow> bool \<times> 'fs" where
  "clear_target sys pth ft is_a_dir fs =
     (if is_a_dir then
        (if ft \<noteq> CHR ''d'' \<and> ft \<noteq> CHR ''x'' then sys_rmdir sys pth fs else (True, fs))
      else (case sys_remove sys pth fs of ((ok, enoent), fs') \<Rightarrow> (ok \<or> enoent, fs')))"

definition isdir :: "'fs sys \<Rightarrow> string \<Rightarrow> 'fs \<Rightarrow> int" where
  "isdir sys pth fs =
     (case sys_stat sys fs pth of None \<Rightarrow> 1 | Some st \<Rightarrow> if fs_mode st AND S_IFMT \<noteq> S_IFDIR then 1 else 0)"

text \<open>The directory in which a hard link is to be created; \<open>None\<close> when the pth has no slash.\<close>

definition link_dir :: "string \<Rightarrow> string option" where
  "link_dir pth =
     (if CHR ''/'' \<notin> set pth then None
      else (let d = rev (tl (dropWhile (\<lambda>c. c \<noteq> CHR ''/'') (rev pth))) in
            if d = [] then Some ''/'' else Some d))"

text \<open>\<open>stat\<close>, \<open>link\<close> and \<open>symlink\<close> on a pointer that may be \<open>NULL\<close>.\<close>

definition stat_opt :: "'fs sys \<Rightarrow> 'fs \<Rightarrow> string option \<Rightarrow> fstat option" where
  "stat_opt sys fs p = (case p of None \<Rightarrow> None | Some s \<Rightarrow> sys_stat sys fs s)"

definition averify_link :: "'fs sys \<Rightarrow> int \<Rightarrow> char \<Rightarrow> string \<Rightarrow> ainfo \<Rightarrow> 'fs \<Rightarrow> int \<times> 'fs" where
  "averify_link sys fix ft pth ai fs =
     (case sys_getcwd sys fs of
        None \<Rightarrow> (VE_FAIL, fs)
      | Some cwd \<Rightarrow>
         (let st = sys_stat sys fs pth;
              ret = (if st = None then VE_EXIST else 0);
              (moved, fs1) = (case link_dir pth of None \<Rightarrow> (True, fs) | Some d \<Rightarrow> sys_chdir sys d fs) in
          if \<not> moved then (VE_FAIL, fs1)
          else if (case st of
                     None \<Rightarrow> True
                   | Some s \<Rightarrow> fs_nlink s < 2 \<or>
                       (case stat_opt sys fs1 (local ai) of
                          None \<Rightarrow> True
                        | Some t \<Rightarrow> fs_dev s \<noteq> fs_dev t \<or> fs_ino s \<noteq> fs_ino t))
          then
            (if fix \<noteq> 0 then
               (if (case local ai of None \<Rightarrow> False | Some l \<Rightarrow> isdir sys l fs1 = 0)
                then (VE_FAIL, snd (sys_chdir sys cwd fs1))
                else
                 (case clear_target sys pth ft False fs1 of
                    (False, fs2) \<Rightarrow> (VE_FAIL, fs2)
                  | (True, fs2) \<Rightarrow>
                     (case (case local ai of None \<Rightarrow> (False, fs2) | Some l \<Rightarrow> sys_link sys l pth fs2) of
                        (False, fs3) \<Rightarrow> (VE_FAIL, snd (sys_chdir sys cwd fs3))
                      | (True, fs3) \<Rightarrow>
                          (case sys_chdir sys cwd fs3 of (ok, fs4) \<Rightarrow> (if ok then 0 else VE_CONT, fs4)))))
             else (VE_CONT, snd (sys_chdir sys cwd fs1)))
          else (case sys_chdir sys cwd fs1 of (ok, fs2) \<Rightarrow> (if ok then ret else VE_CONT, fs2))))"

text \<open>The type letter of an existing object; \<open>None\<close> for a type that is not known.\<close>

definition type_letter :: "u16 \<Rightarrow> char option" where
  "type_letter m =
     (let t = m AND S_IFMT in
      if t = S_IFLNK then Some (CHR ''s'')
      else if t = S_IFIFO then Some (CHR ''p'')
      else if t = S_IFCHR then Some (CHR ''c'')
      else if t = S_IFDIR then Some (CHR ''d'')
      else if t = S_IFBLK then Some (CHR ''b'')
      else if t = S_IFREG \<or> t = 0 then Some (CHR ''f'')
      else None)"

text \<open>Whether an object of type \<open>my\<close> will do for an entry of type \<open>ft\<close>.\<close>

definition type_fits :: "char \<Rightarrow> char \<Rightarrow> bool" where
  "type_fits ft my \<longleftrightarrow> ft = my \<or> my = CHR ''f'' \<and> in_str ''ilev'' ft \<or> my = CHR ''d'' \<and> ft = CHR ''x''"

text \<open>
  The target of a symbolic link: \<open>readlink\<close> fills up to \<open>PATH_MAX\<close> bytes of \<open>buf[PATH_MAX]\<close> and the code
  then stores a NUL behind them.
\<close>

definition averify_slink :: "'fs sys \<Rightarrow> string \<Rightarrow> ainfo \<Rightarrow> 'fs \<Rightarrow> (int \<times> ainfo) res" where
  "averify_slink sys pth ai fs =
     (case sys_readlink sys fs pth of
        None \<Rightarrow> Inr (VE_CONT, ai)
      | Some t \<Rightarrow>
          if length t \<ge> PATH_MAX then Inl BufOverrun
          else
           (case local ai of
              Some l \<Rightarrow> Inr (if t \<noteq> l then VE_CONT else 0, ai)
            | None \<Rightarrow> Inr (0, ai\<lparr>local := Some t\<rparr>)))"

text \<open>The parent directories of a path in turn, and the path itself.\<close>

function walk_prefixes :: "string \<Rightarrow> string \<Rightarrow> string list" where
  "walk_prefixes pre rest =
     (if CHR ''/'' \<in> set rest then
        (let p = pre @ takeWhile (\<lambda>c. c \<noteq> CHR ''/'') rest in
         p # walk_prefixes (p @ ''/'') (tl (dropWhile (\<lambda>c. c \<noteq> CHR ''/'') rest)))
      else [pre @ rest])"
  by pat_completeness auto
termination
  by (relation "measure (\<lambda>(_, r). length r)")
     (auto simp: dropWhile_eq_Nil_conv intro!: le_less_trans [OF diff_le_mono [OF length_dropWhile_le]] diff_less dest: length_pos_if_in_set)

declare walk_prefixes.simps [simp del]

fun mkdir_walk :: "'fs sys \<Rightarrow> u16 \<Rightarrow> string list \<Rightarrow> 'fs \<Rightarrow> 'fs" where
  "mkdir_walk sys m [] fs = fs"
| "mkdir_walk sys m (p # ps) fs =
     (if sys_access sys fs p then mkdir_walk sys m ps fs
      else (case sys_mkdir sys p m fs of (ok, fs') \<Rightarrow> if ok then mkdir_walk sys m ps fs' else fs'))"

text \<open>
  Making the object that is missing or of the wrong kind: \<open>Inl\<close> with the value that \<open>averify\<close> returns,
  or \<open>Inr\<close> with the status of the new object to go on with.
\<close>

definition wild_devs :: "ainfo \<Rightarrow> ainfo" where
  "wild_devs ai =
     (let a1 = (if major ai = BADMAJOR then ai\<lparr>major := 0\<rparr> else ai) in
      if minor a1 = BADMINOR then a1\<lparr>minor := 0\<rparr> else a1)"

definition made_node ::
  "'fs sys \<Rightarrow> string \<Rightarrow> ainfo \<Rightarrow> u16 \<Rightarrow> u32 \<Rightarrow> 'fs \<Rightarrow> (int + fstat) \<times> ainfo \<times> 'fs" where
  "made_node sys pth ai m dev fs =
     (case sys_mknod sys pth m dev fs of
        (False, fs') \<Rightarrow> (Inl VE_FAIL, ai, fs')
      | (True, fs') \<Rightarrow> (case sys_stat sys fs' pth of None \<Rightarrow> (Inl VE_FAIL, ai, fs') | Some st \<Rightarrow> (Inr st, ai, fs')))"

definition averify_make ::
  "'fs sys \<Rightarrow> int \<Rightarrow> char \<Rightarrow> string \<Rightarrow> ainfo \<Rightarrow> bool \<Rightarrow> fstat \<Rightarrow> 'fs \<Rightarrow> (int + fstat) \<times> ainfo \<times> 'fs" where
  "averify_make sys ret ft pth ai targ_is_dir st fs =
     (case clear_target sys pth ft targ_is_dir fs of
        (False, fs1) \<Rightarrow> (Inl VE_FAIL, ai, fs1)
      | (True, fs1) \<Rightarrow>
          if ft = CHR ''d'' \<or> ft = CHR ''x'' then
            (let fs3 = (case sys_mkdir sys pth (mode ai) fs1 of
                          (True, fs2) \<Rightarrow> fs2
                        | (False, fs2) \<Rightarrow>
                            mkdir_walk sys (mode ai)
                              (if deref pth = CHR ''/'' then walk_prefixes ''/'' (tl pth) else walk_prefixes [] pth) fs2) in
             case sys_stat sys fs3 pth of None \<Rightarrow> (Inl VE_FAIL, ai, fs3) | Some st' \<Rightarrow> (Inr st', ai, fs3))
          else if ft = CHR ''s'' then
            (case (case local ai of None \<Rightarrow> (False, fs1) | Some l \<Rightarrow> sys_symlink sys l pth fs1) of
               (False, fs2) \<Rightarrow> (Inl VE_FAIL, ai, fs2)
             | (True, fs2) \<Rightarrow> (Inr st, ai, fs2))
          else if ft = CHR ''c'' then
            (let a = wild_devs ai in made_node sys pth a (mode a OR S_IFCHR) (makedev (major a) (minor a)) fs1)
          else if ft = CHR ''b'' then
            (let a = wild_devs ai in made_node sys pth a (mode a OR S_IFBLK) (makedev (major a) (minor a)) fs1)
          else if ft = CHR ''p'' then made_node sys pth ai (mode ai OR S_IFIFO) 0 fs1
          else (Inl ret, ai, fs1))"

section \<open>Attributes\<close>

definition ver_devs :: "bool \<Rightarrow> char \<Rightarrow> fstat \<Rightarrow> ainfo \<Rightarrow> int \<times> ainfo" where
  "ver_devs setval my st ai =
     (if my = CHR ''c'' \<or> my = CHR ''b'' then
        (let a1 = (if setval \<or> major ai = BADMAJOR then ai\<lparr>major := dev_major (fs_rdev st)\<rparr> else ai);
             a2 = (if setval \<or> minor a1 = BADMINOR then a1\<lparr>minor := dev_minor (fs_rdev st)\<rparr> else a1) in
         (if fs_rdev st \<noteq> makedev (major a2) (minor a2) then VE_CONT else 0, a2))
      else (0, ai))"

text \<open>The return code once a further difference is found: the first one counts.\<close>

definition or_attr :: "int \<Rightarrow> int" where "or_attr ret = (if ret = 0 then VE_ATTR else ret)"

definition ver_mode ::
  "'fs sys \<Rightarrow> int \<Rightarrow> bool \<Rightarrow> string \<Rightarrow> fstat \<Rightarrow> int \<Rightarrow> ainfo \<Rightarrow> 'fs \<Rightarrow> int \<times> ainfo \<times> 'fs" where
  "ver_mode sys fix setval pth st ret ai fs =
     (if setval \<or> mode ai = BADMODE \<or> mode ai = WILDCARD then (ret, ai\<lparr>mode := fs_mode st AND 0xFFF\<rparr>, fs)
      else if mode ai AND 0xDFF \<noteq> fs_mode st AND 0xDFF then
        (if fix \<noteq> 0 then (case sys_chmod sys pth (mode ai) fs of (ok, fs') \<Rightarrow> (if ok then ret else VE_FAIL, ai, fs'))
         else (or_attr ret, ai, fs))
      else (ret, ai, fs))"

definition name_copy :: "string \<Rightarrow> string res" where
  "name_copy n = (if length n \<le> ATRSIZ then Inr n else Inl BufOverrun)"

definition ver_group :: "'fs sys \<Rightarrow> int \<Rightarrow> bool \<Rightarrow> fstat \<Rightarrow> int \<Rightarrow> ainfo \<Rightarrow> (int \<times> ainfo) res" where
  "ver_group sys fix setval st ret ai =
     (if setval \<or> group ai = BADGROUP then
        (case sys_grgid sys (fs_gid st) of
           Some n \<Rightarrow> rbind (name_copy n) (\<lambda>n'. Inr (ret, ai\<lparr>group := n'\<rparr>))
         | None \<Rightarrow> Inr (or_attr ret, ai))
      else
       (case sys_grnam sys (group ai) of
          None \<Rightarrow> Inr (or_attr ret, ai)
        | Some g \<Rightarrow> Inr (if g \<noteq> fs_gid st \<and> fix = 0 then or_attr ret else ret, ai)))"

definition ver_owner :: "'fs sys \<Rightarrow> int \<Rightarrow> bool \<Rightarrow> fstat \<Rightarrow> int \<Rightarrow> ainfo \<Rightarrow> (int \<times> ainfo) res" where
  "ver_owner sys fix setval st ret ai =
     (if setval \<or> owner ai = BADOWNER then
        (case sys_pwuid sys (fs_uid st) of
           Some n \<Rightarrow> rbind (name_copy n) (\<lambda>n'. Inr (ret, ai\<lparr>owner := n'\<rparr>))
         | None \<Rightarrow> Inr (or_attr ret, ai))
      else
       (case sys_pwnam sys (owner ai) of
          None \<Rightarrow> Inr (or_attr ret, ai)
        | Some u \<Rightarrow> Inr (if u \<noteq> fs_uid st \<and> fix = 0 then or_attr ret else ret, ai)))"

text \<open>From the devices to the end; \<open>chown\<close> is only called on Solaris.\<close>

definition averify_attrs ::
  "'fs sys \<Rightarrow> int \<Rightarrow> bool \<Rightarrow> char \<Rightarrow> string \<Rightarrow> fstat \<Rightarrow> ainfo \<Rightarrow> 'fs \<Rightarrow> (int \<times> ainfo \<times> 'fs) res" where
  "averify_attrs sys fix setval my pth st ai fs =
     (let (ret1, ai1) = ver_devs setval my st ai; (ret2, ai2, fs2) = ver_mode sys fix setval pth st ret1 ai1 fs in
      rbind (ver_group sys fix setval st ret2 ai2) (\<lambda>(ret3, ai3).
      rbind (ver_owner sys fix setval st ret3 ai3) (\<lambda>(ret4, ai4).
        Inr (if sys_statvfs sys fs2 pth then ret4 else VE_FAIL, ai4, fs2))))"

text \<open>
  The whole function: the return value, the type, the attributes, the static \<open>status\<close> (for \<open>fverify\<close>)
  and the file system.
\<close>

definition averify ::
  "vset \<Rightarrow> 'fs sys \<Rightarrow> int \<Rightarrow> char \<Rightarrow> string \<Rightarrow> ainfo \<Rightarrow> fstat \<Rightarrow> 'fs \<Rightarrow> (int \<times> char \<times> ainfo \<times> fstat \<times> 'fs) res" where
  "averify vs sys fix ft pth ai status0 fs =
     (if get_disable_attribute_check vs then Inr (0, ft, ai, status0, fs)
      else if ft = CHR ''l'' then
        (let (ret, fs') = averify_link sys fix ft pth ai fs in Inr (ret, ft, ai, status0, fs'))
      else
       (let setval = (ft = CHR ''?'');
            so = (if nonABI_symlinks vs then (if ft = CHR ''s'' then sys_lstat sys fs pth else sys_stat sys fs pth)
                  else sys_lstat sys fs pth);
            st = (case so of None \<Rightarrow> status0 | Some s \<Rightarrow> s);
            ret0 = (if so = None then VE_EXIST else 0);
            mo = (if so = None then Some (CHR ''?'') else type_letter (fs_mode st)) in
        case mo of
          None \<Rightarrow> Inr (VE_FTYPE, ft, ai, st, fs)
        | Some my \<Rightarrow>
           (let isd = (so \<noteq> None \<and> my = CHR ''d'');
                ft1 = (if setval then my else ft);
                ret1 = (if \<not> setval \<and> ret0 = 0 \<and> \<not> type_fits ft my then VE_FTYPE else ret0) in
            rbind (if ret1 = 0 \<and> ft1 = CHR ''s'' then averify_slink sys pth ai fs else Inr (ret1, ai)) (\<lambda>(ret2, ai2).
              if ret2 \<noteq> 0 \<and> fix = 0 then Inr (ret2, ft1, ai2, st, fs)
              else
               (let (mk, ai3, fs3) = (if ret2 \<noteq> 0 then averify_make sys ret2 ft1 pth ai2 isd st fs else (Inr st, ai2, fs)) in
                case mk of
                  Inl r \<Rightarrow> Inr (r, ft1, ai3, st, fs3)
                | Inr st3 \<Rightarrow>
                    if ft1 = CHR ''s'' \<or> ft1 = CHR ''i'' then Inr (0, ft1, ai3, st3, fs3)
                    else
                      rbind (averify_attrs sys fix setval my pth st3 ai3 fs3) (\<lambda>(ret4, ai4, fs4).
                        Inr (ret4, ft1, ai4, st3, fs4)))))))"

definition fverify ::
  "vset \<Rightarrow> 'fs sys \<Rightarrow> int \<Rightarrow> char \<Rightarrow> string \<Rightarrow> ainfo \<Rightarrow> cinfo \<Rightarrow> fstat \<Rightarrow> 'fs \<Rightarrow> (int \<times> char \<times> ainfo \<times> 'fs) res" where
  "fverify vs sys fix ft pth ai ci status0 fs =
     (if get_disable_attribute_check vs then Inr (0, ft, ai, fs)
      else
        rbind (averify vs sys fix ft pth ai status0 fs) (\<lambda>(ret, ft', ai', st, fs').
          Inr (if ret = 0 \<and> (ft' = CHR ''f'' \<or> ft' = CHR ''i'') \<and> fsize ci \<noteq> fs_size st then VE_CONT else ret, ft', ai', fs')))"

section \<open>What the verifiers accept\<close>

text \<open>The object at a path as an entry with full attributes describes it.\<close>

definition conforms :: "vset \<Rightarrow> 'fs sys \<Rightarrow> char \<Rightarrow> string \<Rightarrow> ainfo \<Rightarrow> 'fs \<Rightarrow> bool" where
  "conforms vs sys ft pth ai fs \<longleftrightarrow>
     (case (if nonABI_symlinks vs then sys_stat sys fs pth else sys_lstat sys fs pth) of
        None \<Rightarrow> False
      | Some st \<Rightarrow>
          (case type_letter (fs_mode st) of
             None \<Rightarrow> False
           | Some my \<Rightarrow> type_fits ft my \<and> (my \<in> set ''cb'' \<longrightarrow> fs_rdev st = makedev (major ai) (minor ai))) \<and>
          mode ai AND 0xDFF = fs_mode st AND 0xDFF \<and>
          sys_grnam sys (group ai) = Some (fs_gid st) \<and> sys_pwnam sys (owner ai) = Some (fs_uid st) \<and>
          sys_statvfs sys fs pth)"

text \<open>An entry that leaves nothing open.\<close>

definition full_attrs :: "ainfo \<Rightarrow> bool" where
  "full_attrs ai \<longleftrightarrow> mode ai \<noteq> BADMODE \<and> mode ai \<noteq> WILDCARD \<and> owner ai \<noteq> BADOWNER \<and> group ai \<noteq> BADGROUP \<and>
     major ai \<noteq> BADMAJOR \<and> minor ai \<noteq> BADMINOR"

lemma or_attr_nz [simp]: "or_attr ret \<noteq> 0"
  by (simp add: or_attr_def VE_defs)

lemma ver_full:
  assumes "full_attrs ai"
  shows "ver_devs False my st ai = (if my \<in> set ''cb'' \<and> fs_rdev st \<noteq> makedev (major ai) (minor ai) then VE_CONT else 0, ai)"
    "ver_mode sys 0 False pth st ret ai fs = (if mode ai AND 0xDFF \<noteq> fs_mode st AND 0xDFF then or_attr ret else ret, ai, fs)"
    "ver_group sys 0 False st ret ai = Inr (if sys_grnam sys (group ai) \<noteq> Some (fs_gid st) then or_attr ret else ret, ai)"
    "ver_owner sys 0 False st ret ai = Inr (if sys_pwnam sys (owner ai) \<noteq> Some (fs_uid st) then or_attr ret else ret, ai)"
  using assms by (auto simp: full_attrs_def ver_devs_def ver_mode_def ver_group_def ver_owner_def split: option.splits)

lemma averify_attrs_full:
  assumes "full_attrs ai"
  shows "\<exists>ret. averify_attrs sys 0 False my pth st ai fs = Inr (ret, ai, fs) \<and>
     (ret = 0 \<longleftrightarrow> (my \<in> set ''cb'' \<longrightarrow> fs_rdev st = makedev (major ai) (minor ai)) \<and>
        mode ai AND 0xDFF = fs_mode st AND 0xDFF \<and> sys_grnam sys (group ai) = Some (fs_gid st) \<and>
        sys_pwnam sys (owner ai) = Some (fs_uid st) \<and> sys_statvfs sys fs pth)"
  unfolding averify_attrs_def by (auto simp: ver_full [OF assms] VE_CONT_def VE_FAIL_def)

lemma averify_plain:
  assumes "ft \<notin> set ''l?si''" "\<not> get_disable_attribute_check vs"
  shows "averify vs sys 0 ft pth ai s0 fs =
    (case (if nonABI_symlinks vs then sys_stat sys fs pth else sys_lstat sys fs pth) of
       None \<Rightarrow> Inr (VE_EXIST, ft, ai, s0, fs)
     | Some st \<Rightarrow>
        (case type_letter (fs_mode st) of
           None \<Rightarrow> Inr (VE_FTYPE, ft, ai, st, fs)
         | Some my \<Rightarrow>
             if type_fits ft my then
               rbind (averify_attrs sys 0 False my pth st ai fs) (\<lambda>(ret, ai', fs'). Inr (ret, ft, ai', st, fs'))
             else Inr (VE_FTYPE, ft, ai, st, fs)))"
proof -
  have ft: "ft \<noteq> CHR ''l''" "ft \<noteq> CHR ''?''" "ft \<noteq> CHR ''s''" "ft \<noteq> CHR ''i''" using assms(1) by auto
  show ?thesis
    using assms(2) ft by (auto simp: averify_def Let_def VE_defs split: option.splits)
qed

text \<open>
  C31. \<open>averify\<close> without fixing, on a file, directory, device or pipe whose entry leaves nothing open, changes
  neither the entry nor the file system, and returns 0 exactly when the object exists, is of a
  type that fits, and has the device numbers, the mode (sticky bit apart), the group and the owner of
  the entry.
\<close>

theorem averify_conforms:
  assumes "full_attrs ai" "ft \<notin> set ''l?si''" "\<not> get_disable_attribute_check vs"
  shows "\<exists>ret st. averify vs sys 0 ft pth ai s0 fs = Inr (ret, ft, ai, st, fs) \<and>
     (ret = 0 \<longleftrightarrow> conforms vs sys ft pth ai fs)"
proof (cases "if nonABI_symlinks vs then sys_stat sys fs pth else sys_lstat sys fs pth")
  case None
  then show ?thesis by (simp add: averify_plain [OF assms(2,3)] conforms_def VE_defs)
next
  case (Some st)
  show ?thesis
  proof (cases "type_letter (fs_mode st)")
    case None
    then show ?thesis using Some by (simp add: averify_plain [OF assms(2,3)] conforms_def VE_defs)
  next
    case my: (Some my)
    then show ?thesis using Some averify_attrs_full [OF assms(1), of sys my pth st fs]
      by (auto simp: averify_plain [OF assms(2,3)] conforms_def VE_defs)
  qed
qed

section \<open>The checksum\<close>

lemma byte_sum_simps [simp]: "byte_sum [] = 0" "byte_sum (c # s) = byte c + byte_sum s" "byte_sum (s @ t) = byte_sum s + byte_sum t"
  by (simp_all add: byte_sum_def)

text \<open>A position whose byte is left out: in the second half of a word that the loop takes as a whole.\<close>

definition blind_at :: "nat \<Rightarrow> nat \<Rightarrow> bool" where
  "blind_at n i \<longleftrightarrow> i mod 8 \<ge> 4 \<and> 8 * (i div 8) + 9 < n"

lemma cksum_words_blind:
  assumes "length s = length t" "\<forall>i < length s. s ! i \<noteq> t ! i \<longrightarrow> blind_at (length s) i"
  shows "cksum_words s = cksum_words t"
  using assms
proof (induction s arbitrary: t rule: cksum_words.induct)
  case (1 s)
  show ?case
  proof (cases "length s > 9")
    case True
    have "take 4 s = take 4 t"
    proof (rule nth_equalityI)
      fix i assume i: "i < length (take 4 s)"
      then have "\<not> blind_at (length s) i" by (auto simp: blind_at_def)
      then show "take 4 s ! i = take 4 t ! i" using 1(3) i by auto
    qed (use 1(2) in simp)
    moreover have "cksum_words (drop 8 s) = cksum_words (drop 8 t)"
    proof (rule 1(1) [OF True])
      show "\<forall>i < length (drop 8 s). drop 8 s ! i \<noteq> drop 8 t ! i \<longrightarrow> blind_at (length (drop 8 s)) i"
      proof (intro allI impI)
        fix i assume "i < length (drop 8 s)" "drop 8 s ! i \<noteq> drop 8 t ! i"
        then have "blind_at (length s) (8 + i)" using 1(2) 1(3) [rule_format, of "8 + i"] by simp
        moreover have "(8 + i) div 8 = Suc (i div 8)" by simp
        ultimately show "blind_at (length (drop 8 s)) i" by (auto simp: blind_at_def)
      qed
    qed (use 1(2) in simp)
    ultimately show ?thesis using True 1(2) by (simp add: cksum_words.simps [of s] cksum_words.simps [of t])
  next
    case False
    then have "s = t" using 1(2,3) by (intro nth_equalityI) (auto simp: blind_at_def)
    then show ?thesis by simp
  qed
qed

lemma compute_checksum_file:
  assumes "os_fopen os p ''r'' = Inr dat" "os_read_err os p = None" "p \<noteq> []" "dat \<noteq> []"
  shows "compute_checksum addr os p = (False, fold_sum (cksum_bytes addr dat))"
  using assms by (simp add: compute_checksum_def vfpOpen_def vfp_load_def Let_def)

text \<open>
  C39. The checksum does not see half of the bytes: \<open>compute_checksum\<close> takes words of eight bytes and adds
  four of them, so a file whose contents were changed in the second half of such words, its size kept,
  passes \<open>cverify\<close> with the size and checksum recorded for the old contents.
\<close>

theorem cverify_blind:
  assumes "length s = length t" "\<forall>i < length s. s ! i \<noteq> t ! i \<longrightarrow> blind_at (length s) i" "t \<noteq> []" "pth \<noteq> []"
    "sys_stat sys fs pth = Some st" "fs_size st = fsize ci" "fsize ci = word_of_nat (length s)" "fsize ci \<noteq> BADCONT"
    "cksum ci = fold_sum (cksum_bytes 0 s)" "cksum ci \<noteq> BADCONT" "modtime ci \<noteq> BADCONT"
    "os_fopen (sys_os sys fs) pth ''r'' = Inr t" "os_read_err (sys_os sys fs) pth = None"
  shows "cverify vs 0 sys 0 (CHR ''f'') pth ci True fs = (0, ci, fs)"
proof -
  have "cksum_bytes 0 s = cksum_bytes 0 t"
    using cksum_words_blind [OF assms(1,2)] by (simp add: cksum_bytes_def)
  then show ?thesis using assms compute_checksum_file [OF assms(12,13,4,3), of 0] by (simp add: cverify_def)
qed

section \<open>An example\<close>

definition demo_os :: "string \<Rightarrow> os" where
  "demo_os dat = \<lparr>os_fopen = (\<lambda>_ _. Inr dat), os_read_err = (\<lambda>_. None), os_stat = (\<lambda>_. Inl 2), os_fclose_err = 0,
     os_creat = (\<lambda>_. Some 13), os_write = [], os_fresh = (\<lambda>n. replicate n NUL), os_pagesize = 4096\<rparr>"

definition demo_stat :: fstat where
  "demo_stat = \<lparr>fs_mode = 0x81A4, fs_uid = 0, fs_gid = 3, fs_rdev = 0, fs_dev = 1, fs_ino = 9, fs_nlink = 1,
     fs_size = 12, fs_mtime = 5\<rparr>"

text \<open>One file, read only: every call that would change something fails.\<close>

definition demo_sys :: "string \<Rightarrow> unit sys" where
  "demo_sys dat = \<lparr>sys_stat = (\<lambda>_ _. Some demo_stat), sys_lstat = (\<lambda>_ _. Some demo_stat), sys_readlink = (\<lambda>_ _. None),
     sys_access = (\<lambda>_ _. True), sys_statvfs = (\<lambda>_ _. True), sys_getcwd = (\<lambda>_. Some ''/''), sys_os = (\<lambda>_. demo_os dat),
     sys_chdir = (\<lambda>_ u. (True, u)), sys_utime = (\<lambda>_ _ u. (False, u)), sys_rmdir = (\<lambda>_ u. (False, u)),
     sys_remove = (\<lambda>_ u. ((False, False), u)), sys_link = (\<lambda>_ _ u. (False, u)), sys_symlink = (\<lambda>_ _ u. (False, u)),
     sys_mkdir = (\<lambda>_ _ u. (False, u)), sys_mknod = (\<lambda>_ _ _ u. (False, u)), sys_chmod = (\<lambda>_ _ u. (False, u)),
     sys_grgid = (\<lambda>_. Some ''sys''), sys_grnam = (\<lambda>g. if g = ''sys'' then Some 3 else None),
     sys_pwuid = (\<lambda>_. Some ''root''), sys_pwnam = (\<lambda>u. if u = ''root'' then Some 0 else if u = ''adm'' then Some 4 else None)\<rparr>"

definition demo_ai :: ainfo where
  "demo_ai = \<lparr>local = None, mode = 0x1A4, owner = ''root'', group = ''sys'', major = 0, minor = 0\<rparr>"

definition demo_ci :: cinfo where
  "demo_ci = \<lparr>cksum = fold_sum (cksum_bytes 0 ''abcdefghijkl''), fsize = 12, modtime = 5\<rparr>"

lemma full_demo: "full_attrs demo_ai" "full_attrs (demo_ai\<lparr>owner := ''adm''\<rparr>)"
  by code_simp+

lemma blind_demo:
  "\<forall>i < length ''abcdefghijkl''. ''abcdefghijkl'' ! i \<noteq> ''abcdXfghijkl'' ! i \<longrightarrow> blind_at (length ''abcdefghijkl'') i"
proof -
  have "list_all (\<lambda>i. ''abcdefghijkl'' ! i \<noteq> ''abcdXfghijkl'' ! i \<longrightarrow> blind_at 12 i) [0..<12]" by code_simp
  moreover have "length ''abcdefghijkl'' = 12" by simp
  ultimately show ?thesis by (simp only: list_all_iff atLeastLessThan_upt [symmetric] Ball_def atLeastLessThan_iff) simp
qed

theorem averify_conforms_witness:
  "\<exists>ret st. averify vset0 (demo_sys []) 0 (CHR ''f'') ''/a'' demo_ai demo_stat () = Inr (ret, CHR ''f'', demo_ai, st, ()) \<and>
     (ret = 0 \<longleftrightarrow> conforms vset0 (demo_sys []) (CHR ''f'') ''/a'' demo_ai ())"
  by (rule averify_conforms [OF full_demo(1)]) (simp_all add: get_disable_attribute_check_def vset0_def)

theorem cverify_blind_witness:
  "cverify vset0 0 (demo_sys ''abcdXfghijkl'') 0 (CHR ''f'') ''/a'' demo_ci True () = (0, demo_ci, ())"
proof (rule cverify_blind [where s = "''abcdefghijkl''" and t = "''abcdXfghijkl''" and st = demo_stat])
  show "fs_size demo_stat = fsize demo_ci" by code_simp
  show "\<forall>i < length ''abcdefghijkl''. ''abcdefghijkl'' ! i \<noteq> ''abcdXfghijkl'' ! i \<longrightarrow> blind_at (length ''abcdefghijkl'') i"
    by (rule blind_demo)
  show "cksum demo_ci \<noteq> BADCONT" "fsize demo_ci \<noteq> BADCONT" "modtime demo_ci \<noteq> BADCONT" by code_simp+
qed (simp_all add: demo_sys_def demo_os_def demo_stat_def demo_ci_def)

text \<open>
  Fixing does not change owners on this system: when only the owner of an object differs from its entry,
  \<open>averify\<close> with fixing returns 0 and leaves the file system as it was, and a check without
  fixing reports the difference.
\<close>

theorem averify_fix_keeps_owner:
  assumes "full_attrs ai" "ft \<notin> set ''l?si''" "\<not> get_disable_attribute_check vs" "\<not> nonABI_symlinks vs" "fix \<noteq> 0"
    "sys_lstat sys fs pth = Some st" "type_letter (fs_mode st) = Some my" "type_fits ft my" "my \<notin> set ''cb''"
    "mode ai AND 0xDFF = fs_mode st AND 0xDFF" "sys_grnam sys (group ai) = Some (fs_gid st)" "sys_statvfs sys fs pth"
    "sys_pwnam sys (owner ai) = Some u" "u \<noteq> fs_uid st"
  shows "averify vs sys fix ft pth ai s0 fs = Inr (0, ft, ai, st, fs) \<and>
     averify vs sys 0 ft pth ai s0 fs = Inr (VE_ATTR, ft, ai, st, fs)"
proof -
  have ft: "ft \<noteq> CHR ''l''" "ft \<noteq> CHR ''?''" "ft \<noteq> CHR ''s''" "ft \<noteq> CHR ''i''" using assms(2) by auto
  have my: "my \<noteq> CHR ''c''" "my \<noteq> CHR ''b''" using assms(9) by auto
  have a: "averify_attrs sys fx False my pth st ai fs = Inr (if fx = 0 then VE_ATTR else 0, ai, fs)" for fx
    using assms my by (simp add: averify_attrs_def ver_devs_def ver_mode_def ver_group_def ver_owner_def full_attrs_def or_attr_def)
  show ?thesis using assms(3-8) ft a by (simp add: averify_def)
qed

theorem averify_fix_keeps_owner_witness:
  "averify vset0 (demo_sys []) 1 (CHR ''f'') ''/a'' (demo_ai\<lparr>owner := ''adm''\<rparr>) demo_stat () =
     Inr (0, CHR ''f'', demo_ai\<lparr>owner := ''adm''\<rparr>, demo_stat, ()) \<and>
   averify vset0 (demo_sys []) 0 (CHR ''f'') ''/a'' (demo_ai\<lparr>owner := ''adm''\<rparr>) demo_stat () =
     Inr (VE_ATTR, CHR ''f'', demo_ai\<lparr>owner := ''adm''\<rparr>, demo_stat, ())"
proof (rule averify_fix_keeps_owner [where u = 4 and my = "CHR ''f''", OF full_demo(2)])
  show "type_letter (fs_mode demo_stat) = Some (CHR ''f'')" by code_simp
  show "mode (demo_ai\<lparr>owner := ''adm''\<rparr>) AND 0xDFF = fs_mode demo_stat AND 0xDFF" by code_simp
qed (simp_all add: demo_ai_def demo_sys_def demo_stat_def type_fits_def get_disable_attribute_check_def nonABI_symlinks_def vset0_def)

end
