(* ===== verification/Pkgdbmerg.thy ===== *)
theory Pkgdbmerg
  imports Eptstat Setlist Verify Srchcfile
begin

text \<open>
  Merging a package map into the contents database, \<open>libinst/pkgdbmerg.c\<close>, with \<open>cp_cfent\<close> of
  \<open>libinst/pkgobjmap.c\<close>. Both are sorted by path; the merge walks through them, merges an entry that is
  already there with the new one, inserts a new entry, and writes the result to a new database.

  What the rest of the program knows is a parameter: the file system, the package, the administrative
  settings, whether a file system is served from elsewhere and whether a path is inherited from the
  global zone. \<open>errflg\<close> is only ever set to 0 and is left out, as are messages and the progress display.
\<close>

unbundle bit_operations_syntax

section \<open>Entries of the map\<close>

record mergstat =
  ms_setuid :: bool
  ms_setgid :: bool
  ms_contchg :: bool
  ms_attrchg :: bool
  ms_shared :: bool
  ms_osetuid :: bool
  ms_osetgid :: bool
  ms_rogue :: bool
  ms_dir2nondir :: bool
  ms_replace :: bool
  ms_denied :: bool
  ms_preloaded :: bool
  ms_processed :: bool
  ms_parentsyml2dir :: bool

definition mergstat0 :: mergstat where
  "mergstat0 = \<lparr>ms_setuid = False, ms_setgid = False, ms_contchg = False, ms_attrchg = False, ms_shared = False,
     ms_osetuid = False, ms_osetgid = False, ms_rogue = False, ms_dir2nondir = False, ms_replace = False,
     ms_denied = False, ms_preloaded = False, ms_processed = False, ms_parentsyml2dir = False\<rparr>"

record cfextra =
  x_ent :: cfent
  x_mstat :: mergstat
  fsys_value :: u16
  fsys_base :: u16
  client_path :: "string option"
  server_path :: string
  map_path :: "string option"
  client_local :: "string option"
  server_local :: "string option"

definition upd_ent :: "(cfent \<Rightarrow> cfent) \<Rightarrow> cfextra \<Rightarrow> cfextra" where
  "upd_ent f x = x\<lparr>x_ent := f (x_ent x)\<rparr>"

definition upd_ms :: "(mergstat \<Rightarrow> mergstat) \<Rightarrow> cfextra \<Rightarrow> cfextra" where
  "upd_ms f x = x\<lparr>x_mstat := f (x_mstat x)\<rparr>"

text \<open>What the merge finds around it.\<close>

record 'fs menv =
  m_sys :: "'fs sys"
  m_vs :: vset
  m_addr :: nat
  m_status :: fstat
  m_pkginst :: string
  m_nosetuid :: bool
  m_nocnflct :: bool
  m_dbst :: char
  m_served :: "string \<Rightarrow> u16 \<Rightarrow> bool \<times> u16"
  m_inherited :: "string option \<Rightarrow> char \<Rightarrow> bool"

definition S_ISUID :: u16 where "S_ISUID = 0x800"
definition S_ISGID :: u16 where "S_ISGID = 0x400"
definition DEFAULT_MODE :: u16 where "DEFAULT_MODE = 0x1ED"
definition DEFAULT_MODE_FILE :: u16 where "DEFAULT_MODE_FILE = 0x1A4"

definition is_setuid :: "cfent \<Rightarrow> bool" where
  "is_setuid e \<longleftrightarrow> ftype e \<in> set ''fve'' \<and> mode (ainfo e) \<noteq> BADMODE \<and> mode (ainfo e) \<noteq> WILDCARD \<and>
     mode (ainfo e) AND S_ISUID \<noteq> 0"

text \<open>\<open>S_IEXEC|S_IXUSR|S_IXOTH\<close> is 0101.\<close>

definition is_setgid :: "cfent \<Rightarrow> bool" where
  "is_setgid e \<longleftrightarrow> ftype e \<in> set ''fve'' \<and> mode (ainfo e) \<noteq> BADMODE \<and> mode (ainfo e) \<noteq> WILDCARD \<and>
     mode (ainfo e) AND S_ISGID \<noteq> 0 \<and> mode (ainfo e) AND 0x41 \<noteq> 0"

section \<open>Comparison with the disk\<close>

definition averify0 :: "'fs menv \<Rightarrow> cfextra \<Rightarrow> 'fs \<Rightarrow> (int \<times> cfextra \<times> 'fs) res" where
  "averify0 env x fs =
     rbind (averify (m_vs env) (m_sys env) 0 (ftype (x_ent x)) (server_path x) (ainfo (x_ent x)) (m_status env) fs)
       (\<lambda>(n, ft, ai, _, fs'). Inr (n, upd_ent (\<lambda>e. e\<lparr>ftype := ft, ainfo := ai\<rparr>) x, fs'))"

definition set_change :: "'fs menv \<Rightarrow> cfextra \<Rightarrow> 'fs \<Rightarrow> (cfextra \<times> 'fs) res" where
  "set_change env x fs =
     (if ftype (x_ent x) \<in> set ''fev'' then
        (let (n, ci, fs1) = cverify (m_vs env) (m_addr env) (m_sys env) 0 (ftype (x_ent x)) (server_path x) (cinfo (x_ent x)) True fs;
             x1 = upd_ent (\<lambda>e. e\<lparr>cinfo := ci\<rparr>) x in
         if n \<noteq> 0 then Inr (upd_ms (\<lambda>m. m\<lparr>ms_contchg := True\<rparr>) x1, fs1)
         else if \<not> ms_contchg (x_mstat x1) \<and> \<not> ms_attrchg (x_mstat x1) then
           rbind (averify0 env x1 fs1) (\<lambda>(n2, x2, fs2).
             Inr (if n2 \<noteq> 0 then upd_ms (\<lambda>m. m\<lparr>ms_attrchg := True\<rparr>) x2 else x2, fs2))
         else Inr (x1, fs1))
      else if \<not> ms_attrchg (x_mstat x) \<and> ftype (x_ent x) \<in> set ''dxcbp'' then
        rbind (averify0 env x fs) (\<lambda>(n, x1, fs1).
          Inr (if n = VE_ATTR then upd_ms (\<lambda>m. m\<lparr>ms_attrchg := True\<rparr>) x1
               else if n \<noteq> 0 \<and> n \<noteq> VE_EXIST then upd_ms (\<lambda>m. m\<lparr>ms_contchg := True\<rparr>) x1
               else x1, fs1))
      else if \<not> ms_attrchg (x_mstat x) \<and> ftype (x_ent x) \<in> set ''sl'' then
        rbind (averify0 env x fs) (\<lambda>(n, x1, fs1).
          Inr (if n = VE_ATTR then upd_ms (\<lambda>m. m\<lparr>ms_attrchg := True\<rparr>) x1
               else if n = VE_EXIST then upd_ms (\<lambda>m. m\<lparr>ms_contchg := True\<rparr>) x1
               else x1, fs1))
      else Inr (x, fs))"

section \<open>Merging two entries\<close>

datatype typechange = TYPE_OK | TYPE_WARNING | TYPE_IGNORED | TYPE_REPLACE

text \<open>The number of the first class of types that has the letter; 0 for none. (\<open>strchr\<close> also finds the closing NUL.)\<close>

definition type_no :: "char \<Rightarrow> nat" where
  "type_no c =
     (if c \<in> set ''fev'' \<or> c = NUL then 1 else if c = CHR ''s'' then 2 else if c = CHR ''l'' then 3
      else if c \<in> set ''dx'' then 4 else if c = CHR ''c'' then 5 else if c = CHR ''b'' then 6
      else if c = CHR ''p'' then 7 else 0)"

definition typechg :: "cfent \<Rightarrow> cfent \<Rightarrow> mergstat \<Rightarrow> typechange \<times> cfent \<times> mergstat" where
  "typechg el cf ms =
     (if ftype cf = ftype el then (TYPE_OK, cf, ms)
      else if ftype cf = BADFTYPE then (TYPE_OK, cf\<lparr>ftype := ftype el\<rparr>, ms)
      else if ftype el = BADFTYPE then (TYPE_OK, cf, ms)
      else if ftype el = CHR ''x'' \<and> ftype cf = CHR ''d'' then (TYPE_IGNORED, cf, ms)
      else if type_no (ftype cf) = type_no (ftype el) then (TYPE_OK, cf, ms)
      else if type_no (ftype el) \<noteq> 4 \<and> type_no (ftype cf) = 4 then (TYPE_REPLACE, cf, ms\<lparr>ms_dir2nondir := True\<rparr>)
      else (TYPE_WARNING, cf, ms))"

definition cp_cfent :: "cfent \<Rightarrow> cfextra \<Rightarrow> cfextra" where
  "cp_cfent cf x =
     \<lparr>x_ent = cf\<lparr>volno := volno (x_ent x), pkg_class := strlcpy (pkg_class (x_ent x)) (CLSSIZ + 1),
        pkg_class_idx := pkg_class_idx (x_ent x), path := client_path x,
        ainfo := (if local (ainfo (x_ent x)) \<noteq> None then (ainfo cf)\<lparr>local := client_local x\<rparr> else ainfo cf)\<rparr>,
      x_mstat = x_mstat x, fsys_value = fsys_value x, fsys_base = 0, client_path = client_path x,
      server_path = server_path x, map_path = map_path x,
      client_local = (if local (ainfo (x_ent x)) \<noteq> None then client_local x else None),
      server_local = (if local (ainfo (x_ent x)) \<noteq> None then server_local x else None)\<rparr>"

text \<open>
  \<open>chgclass\<close> for the package at place \<open>k\<close> of the list, with its new class in \<open>aclass\<close>. When the new class
  is used more often than the old one is named, the two change places.
\<close>

definition chgclass :: "cfent \<Rightarrow> nat \<Rightarrow> cfent" where
  "chgclass e k =
     (let newclass = strlcpy (aclass (pinfo e ! k)) (CLSSIZ + 1);
          oldclass = pkg_class e;
          newcnt = 1 + length (filter (\<lambda>p. aclass p \<noteq> [] \<and> aclass p = newclass) (pinfo e));
          oldcnt = length (filter (\<lambda>p. aclass p \<noteq> [] \<and> aclass p \<noteq> newclass \<and> aclass p = oldclass) (pinfo e)) in
      if newcnt > oldcnt then
        e\<lparr>pinfo := map (\<lambda>p. if aclass p = [] then p\<lparr>aclass := oldclass\<rparr>
                            else if aclass p = newclass then p\<lparr>aclass := []\<rparr> else p) (pinfo e),
          pkg_class := newclass\<rparr>
      else e)"

datatype mergcode = MRG_SAME | MRG_DIFFERENT | MRG_REPLACE

text \<open>The attributes: an open field is inherited, any other difference is a change.\<close>

definition merg_mode :: "cfent \<Rightarrow> cfextra \<times> bool \<Rightarrow> cfextra \<times> bool" where
  "merg_mode cf xc =
     (let x = fst xc; m = mode (ainfo (x_ent x)) in
      if mode (ainfo cf) \<noteq> m then
        ((if m = BADMODE then upd_ent (set_mode (mode (ainfo cf))) x
          else if m = WILDCARD then upd_ms (\<lambda>s. s\<lparr>ms_attrchg := False\<rparr>) (upd_ent (set_mode (mode (ainfo cf))) x)
          else upd_ms (\<lambda>s. s\<lparr>ms_attrchg := True\<rparr>) x), True)
      else xc)"

definition merg_owner :: "cfent \<Rightarrow> cfextra \<times> bool \<Rightarrow> cfextra \<times> bool" where
  "merg_owner cf xc =
     (let x = fst xc in
      if owner (ainfo cf) \<noteq> owner (ainfo (x_ent x)) then
        ((if owner (ainfo (x_ent x)) = BADOWNER then upd_ent (set_owner (owner (ainfo cf))) x
          else upd_ms (\<lambda>s. s\<lparr>ms_attrchg := True\<rparr>) x), True)
      else xc)"

definition merg_group :: "cfent \<Rightarrow> cfextra \<times> bool \<Rightarrow> cfextra \<times> bool" where
  "merg_group cf xc =
     (let x = fst xc in
      if group (ainfo cf) \<noteq> group (ainfo (x_ent x)) then
        ((if group (ainfo (x_ent x)) = BADGROUP then upd_ent (set_group (group (ainfo cf))) x
          else upd_ms (\<lambda>s. s\<lparr>ms_attrchg := True\<rparr>) x), True)
      else xc)"

definition merg_cont :: "'fs menv \<Rightarrow> cfent \<Rightarrow> cfextra \<times> bool \<Rightarrow> cfextra \<times> bool" where
  "merg_cont env cf xc =
     (let x = fst xc in
      if m_inherited env (path (x_ent x)) (ftype (x_ent x)) then xc
      else if cinfo cf \<noteq> cinfo (x_ent x) then (upd_ms (\<lambda>s. s\<lparr>ms_contchg := True\<rparr>) x, True)
      else xc)"

definition set_maj :: "u32 \<Rightarrow> cfent \<Rightarrow> cfent" where "set_maj v e = e\<lparr>ainfo := (ainfo e)\<lparr>major := v\<rparr>\<rparr>"
definition set_min :: "u32 \<Rightarrow> cfent \<Rightarrow> cfent" where "set_min v e = e\<lparr>ainfo := (ainfo e)\<lparr>minor := v\<rparr>\<rparr>"

definition merg_devs :: "cfent \<Rightarrow> cfextra \<times> bool \<Rightarrow> cfextra \<times> bool" where
  "merg_devs cf xc =
     (let x = fst xc;
          xc1 = (if major (ainfo cf) \<noteq> major (ainfo (x_ent x)) then
                   ((if major (ainfo (x_ent x)) = BADMAJOR then upd_ent (set_maj (major (ainfo cf))) x
                     else upd_ms (\<lambda>s. s\<lparr>ms_contchg := True\<rparr>) x), True)
                 else xc);
          x1 = fst xc1 in
      if minor (ainfo cf) \<noteq> minor (ainfo (x_ent x1)) then
        ((if minor (ainfo (x_ent x1)) = BADMINOR then upd_ent (set_min (minor (ainfo cf))) x1
          else upd_ms (\<lambda>s. s\<lparr>ms_contchg := True\<rparr>) x1), True)
      else xc1)"

text \<open>\<open>strlcpy\<close> over the link source \<open>"?"\<close>, whose storage is taken to be large enough.\<close>

definition merg_link :: "cfent \<Rightarrow> cfextra \<times> bool \<Rightarrow> cfextra \<times> bool" where
  "merg_link cf xc =
     (let x = fst xc in
      case (local (ainfo cf), local (ainfo (x_ent x))) of
        (Some l, Some l') \<Rightarrow>
          if l \<noteq> l' then
            ((if l' = ''?'' then upd_ent (set_local (strlcpy l PATH_MAX)) x else upd_ms (\<lambda>s. s\<lparr>ms_contchg := True\<rparr>) x), True)
          else xc
      | _ \<Rightarrow> xc)"

text \<open>
  The class; \<open>k\<close> is the place of the package at hand. The list of packages belongs to both entries, so a
  change of it is a change of both.
\<close>

definition merg_class :: "nat \<Rightarrow> cfent \<Rightarrow> cfextra \<times> bool \<Rightarrow> cfextra \<times> bool" where
  "merg_class k cf xc =
     (let x = fst xc; e = x_ent x in
      if pkg_class cf \<noteq> pkg_class e then
        ((if pkg_class cf \<noteq> ''?'' then
            x\<lparr>x_ent := chgclass (e\<lparr>pinfo := (pinfo e)[k := (pinfo e ! k)\<lparr>aclass := pkg_class e\<rparr>], pkg_class := pkg_class cf\<rparr>) k\<rparr>
          else x), True)
      else xc)"

definition merg_rest :: "'fs menv \<Rightarrow> cfent \<Rightarrow> cfextra \<times> bool \<Rightarrow> mergcode \<times> cfextra" where
  "merg_rest env cf xc =
     (let ft = ftype (x_ent (fst xc)); code = (\<lambda>(x, ch). (if ch then MRG_DIFFERENT else MRG_SAME, x)) in
      if ft \<in> set ''sl'' then code (merg_link cf xc)
      else
        code (merg_group cf (merg_owner cf (merg_mode cf
          (if ft = CHR ''e'' then (upd_ms (\<lambda>s. s\<lparr>ms_contchg := True\<rparr>) (fst xc), True)
           else if ft \<in> set ''fv'' then merg_cont env cf xc
           else if ft \<in> set ''cb'' then merg_devs cf xc
           else xc)))))"

definition merg :: "'fs menv \<Rightarrow> nat \<Rightarrow> cfextra \<Rightarrow> cfent \<Rightarrow> mergcode \<times> cfextra \<times> cfent" where
  "merg env k x cf =
     (let x0 = upd_ent (\<lambda>e. e\<lparr>pinfo := pinfo cf\<rparr>) x;
          x1 = (if m_dbst env = INST_RDY \<and> ftype (x_ent x0) = CHR ''?'' then upd_ent (\<lambda>e. e\<lparr>ftype := ftype cf\<rparr>) x0 else x0);
          go = (\<lambda>x ch cf. let (c, x') = merg_rest env cf (merg_class k cf (x, ch)) in (c, x', cf\<lparr>pinfo := pinfo (x_ent x')\<rparr>)) in
      if ftype cf \<noteq> ftype (x_ent x1) then
        (case typechg (x_ent x1) cf (x_mstat x1) of
           (TYPE_OK, cf', ms) \<Rightarrow> go (x1\<lparr>x_mstat := ms\<rparr>) True cf'
         | (TYPE_WARNING, cf', ms) \<Rightarrow> go (x1\<lparr>x_mstat := ms\<lparr>ms_contchg := True\<rparr>\<rparr>) True cf'
         | (TYPE_IGNORED, cf', ms) \<Rightarrow> (MRG_SAME, cp_cfent cf' (x1\<lparr>x_mstat := ms\<rparr>), cf')
         | (TYPE_REPLACE, cf', ms) \<Rightarrow> (MRG_REPLACE, x1\<lparr>x_mstat := ms\<lparr>ms_replace := True\<rparr>\<rparr>, cf'))
      else go x1 False cf)"

section \<open>Writing an entry\<close>

text \<open>Without volume and, unless it is a link, without the local path; the package at place \<open>k\<close> loses its edit flag.\<close>

definition output_ent :: "vfp \<Rightarrow> cfent \<Rightarrow> nat \<Rightarrow> (cfent \<times> vfp) mrg" where
  "output_ent vfpo e k =
     (let e1 = e\<lparr>pinfo := (pinfo e)[k := (pinfo e ! k)\<lparr>editflag := False\<rparr>]\<rparr>;
          e2 = e1\<lparr>volno := 0\<rparr>;
          e3 = (if ftype e \<in> set ''sl'' then e2 else e2\<lparr>ainfo := (ainfo e2)\<lparr>local := None\<rparr>\<rparr>) in
      mbind (mlift (putcvfpfile e3 vfpo)) (\<lambda>(n, v). if n \<noteq> 0 then MQuit 99 else MOk (e1, v)))"

text \<open>\<open>is_served\<close> on the file system of an entry; it may look the file system up.\<close>

definition served :: "'fs menv \<Rightarrow> cfextra \<Rightarrow> bool \<times> cfextra" where
  "served env x = (let (b, v) = m_served env (server_path x) (fsys_value x) in (b, x\<lparr>fsys_value := v\<rparr>))"

definition set_stat :: "nat \<Rightarrow> char \<Rightarrow> cfent \<Rightarrow> cfent" where
  "set_stat k c e = e\<lparr>pinfo := (pinfo e)[k := (pinfo e ! k)\<lparr>status := c\<rparr>]\<rparr>"

section \<open>An entry that is already there\<close>

text \<open>
  A removal: the entry goes back with its status. The list of a preloaded entry is the one that was just
  reordered; its head may have moved to the end.
\<close>

definition like_remove :: "'fs menv \<Rightarrow> vfp \<Rightarrow> cfextra \<Rightarrow> nat option \<Rightarrow> cfent \<Rightarrow> (bool \<times> cfextra \<times> vfp) mrg" where
  "like_remove env vfpo x moved cf =
     (let r = eptstat cf (m_pkginst env) RM_RDY in
      case ep_me r of
        None \<Rightarrow> MFault NullDeref
      | Some k \<Rightarrow>
         (let stflag = status (pinfo (ep_ent r) ! k);
              cf1 = set_stat k RM_RDY (ep_ent r);
              x1 = (if ms_preloaded (x_mstat x) \<and> pinfo (x_ent x) \<noteq> [] then
                      upd_ent (\<lambda>e. e\<lparr>pinfo := (if moved = Some 0 then [pinfo cf1 ! k] else pinfo cf1)\<rparr>) x
                    else x) in
          mbind (mlift (putcvfpfile cf1 vfpo)) (\<lambda>(n, v).
            if n \<noteq> 0 then MQuit 99
            else MOk (True, if stflag = SERVED_FILE then upd_ent (\<lambda>e. e\<lparr>pinfo := [pinfo0\<lparr>status := SERVED_FILE\<rparr>]\<rparr>) x1 else x1, v))))"

text \<open>The status the package gets: the place in the list, the entry, and whether that is a change.\<close>

definition like_status ::
  "'fs menv \<Rightarrow> bool \<Rightarrow> bool \<Rightarrow> char \<Rightarrow> nat \<Rightarrow> cfextra \<Rightarrow> nat option \<times> cfextra \<times> bool" where
  "like_status env ctrl ignore stflag k x =
     (let go = (\<lambda>c ch. let r = eptstat (x_ent x) (m_pkginst env) c in (ep_me r, x\<lparr>x_ent := ep_ent r\<rparr>, ch));
          dbst = m_dbst env; ms = x_mstat x in
      if ctrl then
        (let (ko, x1, _) = go ENTRY_OK True; (b, x2) = served env x1 in
         (ko, case ko of Some j \<Rightarrow> if b then upd_ent (set_stat j SERVED_FILE) x2 else x2 | None \<Rightarrow> x2, stflag \<noteq> DUP_ENTRY))
      else if \<not> ignore \<and> ms_contchg ms then go (if dbst \<noteq> NUL then dbst else CONFIRM_CONT) False
      else if \<not> ignore \<and> ms_attrchg ms then go (if dbst \<noteq> NUL then dbst else CONFIRM_ATTR) False
      else if \<not> ignore \<and> ms_shared ms then go dbst True
      else if stflag \<noteq> DUP_ENTRY then go NUL (stflag \<noteq> ENTRY_OK)
      else (Some k, x, False))"

text \<open>The result: whether there was a change, the entry of the map, the number of files found installed, the database, the file system.\<close>

type_synonym 'fs entres = "bool \<times> cfextra \<times> nat \<times> vfp \<times> 'fs"

definition like_finish ::
  "'fs menv \<Rightarrow> bool \<Rightarrow> vfp \<Rightarrow> mergcode \<Rightarrow> bool \<Rightarrow> bool \<Rightarrow> char \<Rightarrow> nat \<Rightarrow> cfextra \<Rightarrow> cfent \<Rightarrow> 'fs \<Rightarrow> 'fs entres mrg" where
  "like_finish env ctrl vfpo mrg_result ignore changed0 stflag k x cf fs =
     (case like_status env ctrl ignore stflag k x of
        (None, _, _) \<Rightarrow> MFault NullDeref
      | (Some j, x1, ch) \<Rightarrow>
          mbind
            (if mrg_result = MRG_REPLACE then
               mbind (output_ent vfpo (cf\<lparr>pinfo := pinfo (x_ent x1)\<rparr>) j) (\<lambda>(cf', v).
                 MOk (upd_ent (\<lambda>e. e\<lparr>pinfo := pinfo cf'\<rparr>) x1, v))
             else mbind (output_ent vfpo (x_ent x1) j) (\<lambda>(e', v). MOk (x1\<lparr>x_ent := e'\<rparr>, v)))
            (\<lambda>(x2, v).
              let me = pinfo (x_ent x2) ! j;
                  x3 = (if aclass me \<noteq> [] then upd_ent (\<lambda>e. e\<lparr>pkg_class := aclass me\<rparr>) x2 else x2);
                  ch2 = (ms_contchg (x_mstat x3) \<and> status me = INST_RDY);
                  x4 = (if \<not> ms_preloaded (x_mstat x3) then upd_ent (\<lambda>e. e\<lparr>pinfo := []\<rparr>) x3 else x3);
                  ms = x_mstat x4 in
              MOk (changed0 \<or> ch \<or> ch2, x4,
                if \<not> ms_attrchg ms \<and> \<not> ms_contchg ms \<and> \<not> ms_replace ms then 1 else 0, v, fs)))"

definition do_like_ent :: "'fs menv \<Rightarrow> vfp \<Rightarrow> cfextra \<Rightarrow> cfent \<Rightarrow> bool \<Rightarrow> 'fs \<Rightarrow> 'fs entres mrg" where
  "do_like_ent env vfpo x cf ctrl fs =
     (let cf0 = (if ms_preloaded (x_mstat x) then cf\<lparr>pinfo := pinfo (x_ent x)\<rparr> else cf);
          moved = last_place (m_pkginst env) (pinfo cf0) 0;
          r = eptstat cf0 (m_pkginst env) DUP_ENTRY; cf1 = ep_ent r in
      case ep_me r of
        None \<Rightarrow> MFault NullDeref
      | Some k \<Rightarrow>
         (let stflag = status (pinfo cf1 ! k);
              x1 = (if ep_others r > 0 then upd_ms (\<lambda>m. m\<lparr>ms_shared := True\<rparr>) x else x) in
          if ftype (x_ent x1) = RM_RDY then
            mbind (like_remove env vfpo x1 moved cf1) (\<lambda>(ch, x2, v). MOk (ch, x2, 0, v, fs))
          else
            mbind
              (if m_nocnflct env \<and> ms_shared (x_mstat x1) \<and> ftype (x_ent x1) \<noteq> CHR ''e'' then
                 mbind (mlift (set_change env x1 fs)) (\<lambda>(x2, fs1). MOk (MRG_SAME, True, False, cp_cfent cf1 x2, cf1, fs1))
               else
                (let (code, x2, cf2) = merg env k x1 cf1 in
                 MOk (code, code = MRG_REPLACE, code = MRG_DIFFERENT,
                   if code = MRG_REPLACE then upd_ms (\<lambda>m. m\<lparr>ms_contchg := True\<rparr>) x2 else x2, cf2, fs)))
              (\<lambda>(code, ignore, changed0, x3, cf3, fs3).
                mbind (if \<not> ms_contchg (x_mstat x3) \<and> \<not> ignore then mlift (set_change env x3 fs3) else MOk (x3, fs3))
                  (\<lambda>(x4, fs4). like_finish env ctrl vfpo code ignore changed0 stflag k x4 cf3 fs4))))"

section \<open>A new entry\<close>

text \<open>Open attributes get their defaults.\<close>

definition new_defaults :: "cfent \<Rightarrow> cfent" where
  "new_defaults e =
     (let e1 = (if mode (ainfo e) = WILDCARD then set_mode (if ftype e = CHR ''d'' then DEFAULT_MODE else DEFAULT_MODE_FILE) e else e);
          e2 = (if owner (ainfo e1) = ''?'' then set_owner ''root'' e1 else e1) in
      if group (ainfo e2) = ''?'' then set_group ''other'' e2 else e2)"

definition do_new_ent :: "'fs menv \<Rightarrow> vfp \<Rightarrow> cfextra \<Rightarrow> bool \<Rightarrow> 'fs \<Rightarrow> 'fs entres mrg" where
  "do_new_ent env vfpo x ctrl fs =
     (if ftype (x_ent x) = RM_RDY then MOk (False, x, 0, vfpo, fs)
      else
        mbind
          (if \<not> ms_parentsyml2dir (x_mstat x) \<and> sys_access (m_sys env) fs (server_path x) then
             mlift (set_change env (upd_ms (\<lambda>m. m\<lparr>ms_shared := True, ms_rogue := True\<rparr>) x) fs)
           else MOk (upd_ms (\<lambda>m. m\<lparr>ms_rogue := False, ms_contchg := True, ms_attrchg := True\<rparr>) x, fs))
          (\<lambda>(x1, fs1).
            let x2 = upd_ent new_defaults x1 in
            if m_nocnflct env \<and> ms_shared (x_mstat x2) then MOk (False, x2, 0, vfpo, fs1)
            else
             (let dbst = m_dbst env;
                  r = eptstat (x_ent x2) (m_pkginst env) DUP_ENTRY;
                  (ko, e3) = (if ms_preloaded (x_mstat x2) then (ep_me r, ep_ent r)
                              else (Some 0, (x_ent x2)\<lparr>npkgs := 1, pinfo := [pinfo0\<lparr>pkg := m_pkginst env\<rparr>]\<rparr>)) in
              case ko of
                None \<Rightarrow> MFault NullDeref
              | Some k \<Rightarrow>
                  if \<not> ms_preloaded (x_mstat x2) \<and> length (m_pkginst env) > PKGSIZ then MFault BufOverrun
                  else
                   (let st = (if dbst \<noteq> NUL then dbst else if ctrl then ENTRY_OK else CONFIRM_CONT);
                        x3 = x2\<lparr>x_ent := set_stat k st e3\<rparr>;
                        (b, x4) = (if ctrl then served env x3 else (False, x3));
                        x5 = (if b then upd_ent (set_stat k SERVED_FILE) x4 else x4) in
                    mbind (output_ent vfpo (x_ent x5) k) (\<lambda>(e6, v).
                      let x6 = x5\<lparr>x_ent := e6\<lparr>pinfo := []\<rparr>\<rparr>; ms = x_mstat x6 in
                      MOk (True, x6, if \<not> ms_attrchg ms \<and> \<not> ms_contchg ms then 1 else 0, v, fs1))))))"

section \<open>The merge\<close>

record 'fs mst =
  g_map :: vfp
  g_tmp :: vfp
  g_ext :: "cfextra list"
  g_num :: nat                \<comment> \<open>\<open>eptnum\<close>\<close>
  g_eocont :: bool
  g_eoext :: bool
  g_changed :: int
  g_installed :: int
  g_ok :: bool                \<comment> \<open>\<open>assume_ok\<close>\<close>
  g_cl :: clstate
  g_cf :: cfent               \<comment> \<open>the static scratch area\<close>
  g_fs :: 'fs

text \<open>What is done to an entry of the map before the search; \<open>None\<close> when it is skipped.\<close>

definition merg_prepare :: "'fs menv \<Rightarrow> 'fs mst \<Rightarrow> (cfextra \<times> 'fs mst) option" where
  "merg_prepare env s =
     (let x = g_ext s ! g_num s in
      if ftype (x_ent x) \<in> set ''in'' then None
      else if Suc (g_num s) < length (g_ext s) \<and> path (x_ent x) = path (x_ent (g_ext s ! Suc (g_num s))) then None
      else
       (let qk = (cl_dvfy (g_cl s) (pkg_class_idx (x_ent x)) = QKVERIFY);
            s1 = (if m_dbst env = NUL then (if qk then s\<lparr>g_ok := True\<rparr> else s)
                  else if qk then s\<lparr>g_cl := cl_def_dverify (pkg_class_idx (x_ent x)) (g_cl s)\<rparr> else s);
            x1 = (if is_setuid (x_ent x) then upd_ms (\<lambda>m. m\<lparr>ms_setuid := True\<rparr>) x else x);
            x2 = (if is_setgid (x_ent x1) then upd_ms (\<lambda>m. m\<lparr>ms_setgid := True\<rparr>) x1 else x1);
            x3 = (if m_nosetuid env \<and> (ms_setgid (x_mstat x2) \<or> ms_setuid (x_mstat x2))
                  then upd_ent (\<lambda>e. set_mode (mode (ainfo e) AND NOT (S_ISUID OR S_ISGID)) e) x2 else x2) in
        Some (x3, s1\<lparr>g_ext := (g_ext s)[g_num s := x3]\<rparr>)))"

text \<open>The entries behind one that turns from a symbolic link into a directory, as long as their paths start with its path.\<close>

definition mark_children :: "string option \<Rightarrow> cfextra list \<Rightarrow> cfextra list" where
  "mark_children p xs =
     (let below = (\<lambda>x. case (p, path (x_ent x)) of (Some a, Some b) \<Rightarrow> take (length a) b = a | _ \<Rightarrow> False) in
      map (upd_ms (\<lambda>m. m\<lparr>ms_parentsyml2dir := True\<rparr>)) (takeWhile below xs) @ dropWhile below xs)"

definition merg_like :: "'fs menv \<Rightarrow> cfextra \<Rightarrow> 'fs mst \<Rightarrow> 'fs mst mrg" where
  "merg_like env x s =
     (let cf = g_cf s;
          x1 = (if is_setuid cf then upd_ms (\<lambda>m. m\<lparr>ms_osetuid := True\<rparr>) x else x);
          x2 = (if is_setgid cf then upd_ms (\<lambda>m. m\<lparr>ms_osetgid := True\<rparr>) x1 else x1);
          n = g_num s;
          ext = (if ftype cf = CHR ''s'' \<and> ftype (x_ent x2) = CHR ''d''
                 then take (Suc n) (g_ext s) @ mark_children (path (x_ent x2)) (drop (Suc n) (g_ext s)) else g_ext s) in
      mbind (do_like_ent env (g_tmp s) x2 cf (g_ok s) (g_fs s)) (\<lambda>(ch, x3, inst, v, fs).
        MOk (s\<lparr>g_ext := ext[n := x3], g_tmp := v, g_fs := fs, g_installed := g_installed s + int inst,
          g_changed := (if ch then g_changed s + 1 else g_changed s)\<rparr>)))"

definition merg_new :: "'fs menv \<Rightarrow> cfextra \<Rightarrow> 'fs mst \<Rightarrow> 'fs mst mrg" where
  "merg_new env x s =
     mbind (do_new_ent env (g_tmp s) x (g_ok s) (g_fs s)) (\<lambda>(ch, x3, inst, v, fs).
       MOk (s\<lparr>g_ext := (g_ext s)[g_num s := x3], g_tmp := v, g_fs := fs, g_installed := g_installed s + int inst,
         g_changed := (if ch then g_changed s + 1 else g_changed s)\<rparr>))"

text \<open>
  One round: \<open>Inl\<close> when the merge ends with an error, else the next state, \<open>eptnum\<close> not yet counted up. The
  outer option is the fuel of the search; \<open>junk\<close> is its uninitialised array.
\<close>

definition merg_search ::
  "nat \<Rightarrow> string \<Rightarrow> 'fs menv \<Rightarrow> cfextra option \<Rightarrow> 'fs mst \<Rightarrow> ('fs mst + 'fs mst) mrg option" where
  "merg_search fuel junk env xo s =
     (let pth = (case xo of Some x \<Rightarrow> path (x_ent x) | None \<Rightarrow> None) in
      if g_eocont s then
        Some (case xo of Some x \<Rightarrow> mbind (merg_new env x s) (\<lambda>s'. MOk (Inr s')) | None \<Rightarrow> MOk (Inr s))
      else
        map_option (\<lambda>r. mbind (mlift r) (\<lambda>st.
          case st of
            Back n err q \<Rightarrow>
             (let s1 = s\<lparr>g_map := s_v q, g_tmp := (case s_tmp q of Some t \<Rightarrow> t | None \<Rightarrow> g_tmp s), g_cf := s_e q\<rparr> in
              if n < 0 then MOk (Inl s1)
              else if n = 1 then
                (case xo of Some x \<Rightarrow> mbind (merg_like env x s1) (\<lambda>s'. MOk (Inr s')) | None \<Rightarrow> MFault NullDeref)
              else
               (let s2 = (if n = 0 then s1\<lparr>g_eocont := True\<rparr> else s1) in
                case xo of Some x \<Rightarrow> mbind (merg_new env x s2) (\<lambda>s'. MOk (Inr s')) | None \<Rightarrow> MOk (Inr s2)))
          | _ \<Rightarrow> MFault AssertFail))
        (srchcfile fuel junk (g_cf s) pth (g_map s) (Some (g_tmp s))))"

definition merg_round :: "nat \<Rightarrow> string \<Rightarrow> 'fs menv \<Rightarrow> 'fs mst \<Rightarrow> ('fs mst + 'fs mst) mrg option" where
  "merg_round fuel junk env s =
     (if \<not> g_eoext s \<and> g_num s < length (g_ext s) then
        (case merg_prepare env s of
           None \<Rightarrow> Some (MOk (Inr s))
         | Some (x, s1) \<Rightarrow> merg_search fuel junk env (Some x) s1)
      else merg_search fuel junk env None (s\<lparr>g_eoext := True\<rparr>))"

fun merg_loop :: "nat \<Rightarrow> nat \<Rightarrow> string \<Rightarrow> 'fs menv \<Rightarrow> 'fs mst \<Rightarrow> (int \<times> 'fs mst) mrg option" where
  "merg_loop 0 fuel junk env s = None"
| "merg_loop (Suc n) fuel junk env s =
     (case merg_round fuel junk env s of
        None \<Rightarrow> None
      | Some (MFault e) \<Rightarrow> Some (MFault e)
      | Some (MQuit q) \<Rightarrow> Some (MQuit q)
      | Some (MOk (Inl s')) \<Rightarrow> Some (MOk (- 1, s'))
      | Some (MOk (Inr s')) \<Rightarrow>
         (let s2 = s'\<lparr>g_num := Suc (g_num s')\<rparr> in
          if \<not> g_eocont s2 \<or> \<not> g_eoext s2 then merg_loop n fuel junk env s2
          else Some (MOk (g_changed s2, s2))))"

definition pkgdbmerg ::
  "nat \<Rightarrow> nat \<Rightarrow> string \<Rightarrow> 'fs menv \<Rightarrow> vfp \<Rightarrow> vfp \<Rightarrow> cfextra list \<Rightarrow> clstate \<Rightarrow> cfent \<Rightarrow> 'fs \<Rightarrow> (int \<times> 'fs mst) mrg option" where
  "pkgdbmerg n fuel junk env mapvfp tmpvfp extlist cl cf fs =
     merg_loop n fuel junk env
       \<lparr>g_map = vfpRewind mapvfp, g_tmp = vfpRewind tmpvfp, g_ext = extlist, g_num = 0, g_eocont = False, g_eoext = False,
        g_changed = 0, g_installed = 0, g_ok = False, g_cl = cl, g_cf = cf\<lparr>pinfo := []\<rparr>, g_fs = fs\<rparr>"

definition files_installed :: "'fs mst \<Rightarrow> int" where "files_installed s = g_installed s"

end
