(* ===== verification/Mergent.thy ===== *)
theory Mergent
  imports Pkgdbmerg
begin

text \<open>
  The entries that a merge writes: \<open>do_like_ent\<close> and \<open>do_new_ent\<close> run without a fault on names that fit, and
  what they add to the new database is the line of one entry with the path and the packages it should have.
\<close>

section \<open>Comparison with the disk\<close>

text \<open>Names and link targets that fit the arrays of the program.\<close>

definition sys_fits :: "'fs sys \<Rightarrow> bool" where
  "sys_fits sys \<longleftrightarrow> (\<forall>fs p t. sys_readlink sys fs p = Some t \<longrightarrow> length t < PATH_MAX) \<and>
     (\<forall>g n. sys_grgid sys g = Some n \<longrightarrow> length n \<le> ATRSIZ) \<and> (\<forall>u n. sys_pwuid sys u = Some n \<longrightarrow> length n \<le> ATRSIZ)"

lemma averify_attrs_total: "sys_fits sys \<Longrightarrow> \<exists>r. averify_attrs sys fix setval my pth sb ai fs = Inr r"
  by (auto simp: averify_attrs_def ver_group_def ver_owner_def name_copy_def sys_fits_def rbind_def split: option.splits prod.splits sum.splits)

lemma averify_keeps_type:
  assumes "sys_fits sys" "ft \<noteq> CHR ''?''"
  shows "\<exists>n ai' sb fs'. averify vs sys 0 ft pth ai s0 fs = Inr (n, ft, ai', sb, fs')"
proof -
  have slink: "\<exists>n ai'. averify_slink sys pth ai fs = Inr (n, ai')"
    using assms(1) by (fastforce simp: averify_slink_def sys_fits_def split: option.splits)
  have attrs: "\<exists>n a f. averify_attrs sys 0 False my pth sb ai' fs = Inr (n, a, f)" for my sb ai'
    using averify_attrs_total [OF assms(1)] by (metis prod_cases3)
  have tail: "\<exists>n ai' sc fs'. rbind (averify_attrs sys 0 False my pth sb a fs) (\<lambda>(ret4, ai4, fs4). Inr (ret4, ft, ai4, sb, fs4)) =
      Inr (n, ft, ai', sc, fs')" for my sb a
    using attrs [of my sb a] by auto
  show ?thesis
  proof (cases "get_disable_attribute_check vs \<or> ft = CHR ''l''")
    case True
    then show ?thesis by (auto simp: averify_def split: prod.splits)
  next
    case False
    then have ft: "\<not> get_disable_attribute_check vs" "ft \<noteq> CHR ''l''" by auto
    define so where "so = (if nonABI_symlinks vs then if ft = CHR ''s'' then sys_lstat sys fs pth else sys_stat sys fs pth else sys_lstat sys fs pth)"
    obtain n1 a1 where s1: "averify_slink sys pth ai fs = Inr (n1, a1)" using slink by blast
    show ?thesis
    proof (cases so)
      case None
      then show ?thesis unfolding averify_def so_def [symmetric] using ft assms(2) by (simp add: VE_EXIST_def)
    next
      case (Some sb)
      show ?thesis
      proof (cases "type_letter (fs_mode sb)")
        case None
        then show ?thesis unfolding averify_def so_def [symmetric] using ft assms(2) Some by simp
      next
        case my: (Some my)
        show ?thesis unfolding averify_def so_def [symmetric]
          using ft assms(2) Some my s1 tail by (simp add: VE_FTYPE_def)
      qed
    qed
  qed
qed

text \<open>What the parts of the merge leave alone in an entry of the map.\<close>

definition same_names :: "cfextra \<Rightarrow> cfextra \<Rightarrow> bool" where
  "same_names x y \<longleftrightarrow> path (x_ent y) = path (x_ent x) \<and> map pkg (pinfo (x_ent y)) = map pkg (pinfo (x_ent x)) \<and>
     client_path y = client_path x \<and> ms_preloaded (x_mstat y) = ms_preloaded (x_mstat x)"

lemma same_names_refl [simp]: "same_names x x"
  by (simp add: same_names_def)

lemma same_names_trans: "same_names x y \<Longrightarrow> same_names y z \<Longrightarrow> same_names x z"
  by (simp add: same_names_def)

lemma same_names_upd [simp]:
  "(\<And>m. ms_preloaded (f m) = ms_preloaded m) \<Longrightarrow> same_names x (upd_ms f y) = same_names x y"
  "(\<And>e. path (g e) = path e \<and> map pkg (pinfo (g e)) = map pkg (pinfo e)) \<Longrightarrow> same_names x (upd_ent g y) = same_names x y"
  by (simp_all add: same_names_def upd_ms_def upd_ent_def)

lemma x_ent_upd [simp]: "x_ent (upd_ms f x) = x_ent x" "x_ent (upd_ent g x) = g (x_ent x)"
  "x_mstat (upd_ms f x) = f (x_mstat x)" "x_mstat (upd_ent g x) = x_mstat x"
  "client_path (upd_ms f x) = client_path x" "client_path (upd_ent g x) = client_path x"
  by (simp_all add: upd_ms_def upd_ent_def)

lemma averify0_total:
  assumes "sys_fits (m_sys env)" "ftype (x_ent x) \<noteq> CHR ''?''"
  shows "\<exists>n y fs'. averify0 env x fs = Inr (n, y, fs') \<and> same_names x y \<and> ftype (x_ent y) = ftype (x_ent x)"
  using averify_keeps_type [OF assms, of "m_vs env" "server_path x" "ainfo (x_ent x)" "m_status env" fs]
  by (auto simp: averify0_def)

lemma set_change_total:
  assumes "sys_fits (m_sys env)"
  shows "\<exists>y fs'. set_change env x fs = Inr (y, fs') \<and> same_names x y \<and> ftype (x_ent y) = ftype (x_ent x)"
proof -
  have av: "\<exists>n y fs'. averify0 env x' f = Inr (n, y, fs') \<and> same_names x y \<and> ftype (x_ent y) = ftype (x_ent x)"
    if "same_names x x'" "ftype (x_ent x') = ftype (x_ent x)" "ftype (x_ent x) \<in> set ''fevdxcbpsl''" for x' f
  proof -
    have "ftype (x_ent x') \<noteq> CHR ''?''" using that(2,3) by auto
    then obtain n y fs' where "averify0 env x' f = Inr (n, y, fs')" "same_names x' y" "ftype (x_ent y) = ftype (x_ent x')"
      using averify0_total [OF assms, of x' f] by blast
    then show ?thesis using same_names_trans [OF that(1)] that(2) by auto
  qed
  consider "ftype (x_ent x) \<in> set ''fev''" | "ftype (x_ent x) \<notin> set ''fev''" "ftype (x_ent x) \<in> set ''dxcbpsl''"
    | "ftype (x_ent x) \<notin> set ''fevdxcbpsl''" by auto
  then show ?thesis
  proof cases
    case 1
    obtain n ci f1 where c: "cverify (m_vs env) (m_addr env) (m_sys env) 0 (ftype (x_ent x)) (server_path x) (cinfo (x_ent x)) True fs = (n, ci, f1)"
      using prod_cases3 by blast
    obtain n2 y f2 where a: "averify0 env (upd_ent (\<lambda>e. e\<lparr>cinfo := ci\<rparr>) x) f1 = Inr (n2, y, f2)" "same_names x y" "ftype (x_ent y) = ftype (x_ent x)"
      using av [of "upd_ent (\<lambda>e. e\<lparr>cinfo := ci\<rparr>) x" f1] 1 by auto
    show ?thesis using 1 a unfolding set_change_def c by (auto simp: Let_def)
  next
    case 2
    then obtain n y f2 where a: "averify0 env x fs = Inr (n, y, f2)" "same_names x y" "ftype (x_ent y) = ftype (x_ent x)"
      using av [of x fs] by auto
    show ?thesis using 2 a unfolding set_change_def by (auto simp: Let_def)
  next
    case 3
    then show ?thesis unfolding set_change_def by auto
  qed
qed

section \<open>Merging keeps paths and packages\<close>

lemma names_update: "pkg (g (xs ! k)) = pkg (xs ! k) \<Longrightarrow> map pkg (xs[k := g (xs ! k)]) = map pkg xs"
  by (cases "k < length xs") (simp_all add: map_update list_update_same_conv list_update_beyond)

lemma set_stat_names [simp]: "map pkg (pinfo (set_stat k c e)) = map pkg (pinfo e)" "path (set_stat k c e) = path e"
  "ftype (set_stat k c e) = ftype e"
  using names_update [of "\<lambda>p. p\<lparr>status := c\<rparr>" "pinfo e" k] by (simp_all add: set_stat_def)

lemma chgclass_names [simp]: "map pkg (pinfo (chgclass e k)) = map pkg (pinfo e)" "path (chgclass e k) = path e"
  "ftype (chgclass e k) = ftype e"
  by (auto simp: chgclass_def Let_def)

lemma set_fields_names [simp]:
  "path (set_mode m e) = path e" "pinfo (set_mode m e) = pinfo e" "ftype (set_mode m e) = ftype e"
  "path (set_owner u e) = path e" "pinfo (set_owner u e) = pinfo e" "ftype (set_owner u e) = ftype e"
  "path (set_group u e) = path e" "pinfo (set_group u e) = pinfo e" "ftype (set_group u e) = ftype e"
  "path (set_maj d e) = path e" "pinfo (set_maj d e) = pinfo e" "ftype (set_maj d e) = ftype e"
  "path (set_min d e) = path e" "pinfo (set_min d e) = pinfo e" "ftype (set_min d e) = ftype e"
  "path (set_local l e) = path e" "pinfo (set_local l e) = pinfo e" "ftype (set_local l e) = ftype e"
  by (simp_all add: set_mode_def set_owner_def set_group_def set_maj_def set_min_def set_local_def)

text \<open>The same, with the type.\<close>

definition same_obj :: "cfextra \<Rightarrow> cfextra \<Rightarrow> bool" where
  "same_obj x y \<longleftrightarrow> same_names x y \<and> ftype (x_ent y) = ftype (x_ent x)"

lemma same_obj_refl [simp]: "same_obj x x"
  by (simp add: same_obj_def)

lemma same_obj_trans: "same_obj x y \<Longrightarrow> same_obj y z \<Longrightarrow> same_obj x z"
  by (auto simp: same_obj_def intro: same_names_trans)

lemma merg_parts:
  "same_obj (fst xc) (fst (merg_mode cf xc))" "same_obj (fst xc) (fst (merg_owner cf xc))"
  "same_obj (fst xc) (fst (merg_group cf xc))" "same_obj (fst xc) (fst (merg_cont env cf xc))"
  "same_obj (fst xc) (fst (merg_devs cf xc))" "same_obj (fst xc) (fst (merg_link cf xc))"
  by (auto simp: same_obj_def merg_mode_def merg_owner_def merg_group_def merg_cont_def merg_devs_def merg_link_def Let_def
      split: option.split)

lemma merg_class_obj: "same_obj (fst xc) (fst (merg_class k cf xc))"
  using names_update [of "\<lambda>p. p\<lparr>aclass := pkg_class (x_ent (fst xc))\<rparr>" "pinfo (x_ent (fst xc))" k]
  by (auto simp: same_obj_def same_names_def merg_class_def Let_def)

lemma merg_rest_obj:
  assumes "merg_rest env cf xc = (c, y)"
  shows "same_obj (fst xc) y"
proof -
  have ch: "same_obj (fst xc) (fst (merg_group cf (merg_owner cf (merg_mode cf w))))" if "same_obj (fst xc) (fst w)" for w
    by (rule same_obj_trans [OF same_obj_trans [OF same_obj_trans [OF that merg_parts(1)] merg_parts(2)] merg_parts(3)])
  have e: "same_obj (fst xc) (fst (upd_ms (\<lambda>s. s\<lparr>ms_contchg := True\<rparr>) (fst xc), True))" by (simp add: same_obj_def)
  have y: "y = snd (merg_rest env cf xc)" using assms by simp
  show ?thesis unfolding y
    using ch [OF e] ch [OF merg_parts(4) [where env = env and cf = cf]] ch [OF merg_parts(5)] ch [OF same_obj_refl] merg_parts(6)
    by (simp add: merg_rest_def Let_def case_prod_beta)
qed

lemma merg_names:
  assumes m: "merg env k x cf = (c, y, cf')" and cp: "client_path x = path (x_ent x)"
  shows "path (x_ent y) = path (x_ent x)" "map pkg (pinfo (x_ent y)) = map pkg (pinfo cf)"
    "client_path y = client_path x" "ms_preloaded (x_mstat y) = ms_preloaded (x_mstat x)"
    "path cf' = path cf" "map pkg (pinfo cf') = map pkg (pinfo cf)"
    "ftype (x_ent y) = ftype (x_ent x) \<or> ftype (x_ent y) = ftype cf" "ftype cf' = ftype cf \<or> ftype cf' = ftype (x_ent x)"
proof -
  define x1 where "x1 = (let x0 = upd_ent (\<lambda>e. e\<lparr>pinfo := pinfo cf\<rparr>) x in
    if m_dbst env = INST_RDY \<and> ftype (x_ent x0) = CHR ''?'' then upd_ent (\<lambda>e. e\<lparr>ftype := ftype cf\<rparr>) x0 else x0)"
  have x1: "path (x_ent x1) = path (x_ent x)" "pinfo (x_ent x1) = pinfo cf" "client_path x1 = client_path x"
    "x_mstat x1 = x_mstat x" "ftype (x_ent x1) = ftype (x_ent x) \<or> ftype (x_ent x1) = ftype cf"
    by (auto simp: x1_def Let_def upd_ent_def)
  have go: "same_obj x1' y \<and> cf' = g\<lparr>pinfo := pinfo (x_ent y)\<rparr>"
    if "(let (c, x') = merg_rest env g (merg_class k g (x1', ch)) in (c, x', g\<lparr>pinfo := pinfo (x_ent x')\<rparr>)) = (c, y, cf')" for x1' ch g
  proof -
    obtain c' z where z: "merg_rest env g (merg_class k g (x1', ch)) = (c', z)" by fastforce
    have "same_obj x1' (fst (merg_class k g (x1', ch)))" using merg_class_obj [of "(x1', ch)" k g] by simp
    then have "same_obj x1' z" using merg_rest_obj [OF z] same_obj_trans by blast
    then show ?thesis using that unfolding z by auto
  qed
  have t: "typechg (x_ent x1) cf ms = (tc, g, ms') \<Longrightarrow> path g = path cf \<and> pinfo g = pinfo cf \<and>
      (ftype g = ftype cf \<or> ftype g = ftype (x_ent x1)) \<and> ms_preloaded ms' = ms_preloaded ms" for ms tc g ms'
    by (auto simp: typechg_def split: if_splits)
  have res: "same_obj x1 y \<and> path cf' = path cf \<and> map pkg (pinfo cf') = map pkg (pinfo cf) \<and> (ftype cf' = ftype cf \<or> ftype cf' = ftype (x_ent x1)) \<or>
     (\<exists>ms g. y = cp_cfent g (x1\<lparr>x_mstat := ms\<rparr>) \<and> ms_preloaded ms = ms_preloaded (x_mstat x1) \<and> cf' = g \<and> path g = path cf \<and> pinfo g = pinfo cf \<and>
        (ftype g = ftype cf \<or> ftype g = ftype (x_ent x1)))"
  proof (cases "ftype cf = ftype (x_ent x1)")
    case True
    then show ?thesis using go [of cf x1 False] m x1(2) unfolding merg_def x1_def [symmetric, unfolded Let_def] Let_def
      by (auto simp: same_obj_def same_names_def)
  next
    case False
    obtain tc g ms where tc: "typechg (x_ent x1) cf (x_mstat x1) = (tc, g, ms)" using prod_cases3 by blast
    note tg = t [OF tc]
    show ?thesis
      using False go [of g "x1\<lparr>x_mstat := ms\<rparr>" True] go [of g "x1\<lparr>x_mstat := ms\<lparr>ms_contchg := True\<rparr>\<rparr>" True] m tg x1(2)
      unfolding merg_def x1_def [symmetric, unfolded Let_def] Let_def tc
      by (cases tc) (auto simp: same_obj_def same_names_def)
  qed
  show "path (x_ent y) = path (x_ent x)" "map pkg (pinfo (x_ent y)) = map pkg (pinfo cf)"
    "client_path y = client_path x" "ms_preloaded (x_mstat y) = ms_preloaded (x_mstat x)"
    "path cf' = path cf" "map pkg (pinfo cf') = map pkg (pinfo cf)"
    "ftype (x_ent y) = ftype (x_ent x) \<or> ftype (x_ent y) = ftype cf" "ftype cf' = ftype cf \<or> ftype cf' = ftype (x_ent x)"
    using res x1 cp by (auto simp: same_obj_def same_names_def cp_cfent_def)
qed

section \<open>Packages of an entry\<close>

definition others :: "string \<Rightarrow> cfent \<Rightarrow> string list" where
  "others p e = filter (\<lambda>n. n \<noteq> p) (map pkg (pinfo e))"

lemma others_alt: "others p e = map pkg (other_pkgs p (pinfo e))"
  by (simp add: others_def other_pkgs_def filter_map comp_def)

text \<open>The entry that is written for a path: the package is in its list, the others are those of the old entry.\<close>

definition merged_ent :: "string \<Rightarrow> string list \<Rightarrow> string \<Rightarrow> cfent \<Rightarrow> bool" where
  "merged_ent p os a e \<longleftrightarrow> path e = Some a \<and> others p e = os \<and> p \<in> pkg ` set (pinfo e)"

lemma merged_ent_names:
  "map pkg (pinfo e') = map pkg (pinfo e) \<Longrightarrow> path e' = path e \<Longrightarrow> merged_ent p os a e' = merged_ent p os a e"
  unfolding merged_ent_def others_def by (metis image_set)

lemma eptstat_merged:
  assumes "length p \<le> PKGSIZ" "c \<noteq> STAT_NEXT" "merged_ent p os a e"
  shows "\<exists>k. ep_me (eptstat e p c) = Some k" "merged_ent p os a (ep_ent (eptstat e p c))"
  using eptstat_me [OF assms(1,2), of e] eptstat_keeps [OF assms(1), of e c] assms(3) by (auto simp: merged_ent_def others_alt)

lemma output_ent_appends:
  assumes "merged_ent p os a e" "ftype e \<noteq> CHR ''i''" "vfp_ok t"
  shows "\<exists>e1 e2 t'. output_ent t e k = MOk (e1, t') \<and> appended (contents_line e2) t t' \<and> merged_ent p os a e2 \<and>
    map pkg (pinfo e1) = map pkg (pinfo e) \<and> path e1 = path e \<and> ftype e1 = ftype e"
proof -
  define e1 where "e1 = e\<lparr>pinfo := (pinfo e)[k := (pinfo e ! k)\<lparr>editflag := False\<rparr>]\<rparr>"
  define e2 where "e2 = (if ftype e \<in> set ''sl'' then e1\<lparr>volno := 0\<rparr> else (e1\<lparr>volno := 0\<rparr>)\<lparr>ainfo := (ainfo (e1\<lparr>volno := 0\<rparr>))\<lparr>local := None\<rparr>\<rparr>)"
  have n1: "map pkg (pinfo e1) = map pkg (pinfo e)" "path e1 = path e" "ftype e1 = ftype e"
    using names_update [of "\<lambda>p. p\<lparr>editflag := False\<rparr>" "pinfo e" k] by (simp_all add: e1_def)
  have n2: "map pkg (pinfo e2) = map pkg (pinfo e1)" "path e2 = path e1" "ftype e2 = ftype e1" by (simp_all add: e2_def)
  have a: "path e2 = Some a" "ftype e2 \<noteq> CHR ''i''" using n1 n2 assms(1,2) by (simp_all add: merged_ent_def)
  obtain t' where t': "putcvfpfile e2 t = Inr (0, t')" "appended (contents_line e2) t t'"
    using putcvfpfile_appends [OF a assms(3)] by blast
  have "output_ent t e k = MOk (e1, t')" unfolding output_ent_def Let_def e1_def [symmetric] e2_def [symmetric] t'(1) by simp
  moreover have "merged_ent p os a e2" using assms(1) merged_ent_names [of e2 e p os a] n1 n2 by simp
  ultimately show ?thesis using t'(2) n1 by blast
qed

section \<open>An entry that is already there\<close>

text \<open>The entry of the map and what the merge finds around it.\<close>

definition env_fits :: "'fs menv \<Rightarrow> bool" where
  "env_fits env \<longleftrightarrow> sys_fits (m_sys env) \<and> length (m_pkginst env) \<le> PKGSIZ \<and> m_dbst env \<noteq> STAT_NEXT"

definition ext_ok :: "cfextra \<Rightarrow> bool" where
  "ext_ok x \<longleftrightarrow> client_path x = path (x_ent x) \<and> ftype (x_ent x) \<noteq> CHR ''i'' \<and> \<not> ms_preloaded (x_mstat x)"

lemma like_status_merged:
  assumes env: "env_fits env" and e: "merged_ent (m_pkginst env) os a (x_ent x)"
  shows "\<exists>j y ch. like_status env ctrl ignore stflag k x = (Some j, y, ch) \<and> merged_ent (m_pkginst env) os a (x_ent y) \<and>
    ftype (x_ent y) = ftype (x_ent x) \<and> x_mstat y = x_mstat x"
proof -
  let ?p = "m_pkginst env"
  have p: "length ?p \<le> PKGSIZ" "m_dbst env \<noteq> STAT_NEXT" using env by (simp_all add: env_fits_def)
  have go: "\<exists>j. ep_me (eptstat (x_ent x) ?p c) = Some j \<and> merged_ent ?p os a (ep_ent (eptstat (x_ent x) ?p c)) \<and>
      ftype (ep_ent (eptstat (x_ent x) ?p c)) = ftype (x_ent x)" if "c \<noteq> STAT_NEXT" for c
    using eptstat_merged [OF p(1) that e] eptstat_keeps(3) [OF p(1)] by auto
  have cs: "NUL \<noteq> STAT_NEXT" "ENTRY_OK \<noteq> STAT_NEXT" "CONFIRM_CONT \<noteq> STAT_NEXT" "CONFIRM_ATTR \<noteq> STAT_NEXT" by (simp_all add: status_defs)
  have sv: "x_ent (snd (served env z)) = x_ent z" "x_mstat (snd (served env z)) = x_mstat z" for z
    by (simp_all add: served_def case_prod_beta Let_def)
  show ?thesis
  proof (cases ctrl)
    case True
    obtain j where j: "ep_me (eptstat (x_ent x) ?p ENTRY_OK) = Some j" "merged_ent ?p os a (ep_ent (eptstat (x_ent x) ?p ENTRY_OK))"
      "ftype (ep_ent (eptstat (x_ent x) ?p ENTRY_OK)) = ftype (x_ent x)" using go [OF cs(2)] by blast
    obtain b z where z: "served env (x\<lparr>x_ent := ep_ent (eptstat (x_ent x) ?p ENTRY_OK)\<rparr>) = (b, z)" by fastforce
    have "x_ent z = ep_ent (eptstat (x_ent x) ?p ENTRY_OK)" "x_mstat z = x_mstat x"
      using sv [of "x\<lparr>x_ent := ep_ent (eptstat (x_ent x) ?p ENTRY_OK)\<rparr>"] z by simp_all
    moreover have "merged_ent ?p os a (set_stat j SERVED_FILE (ep_ent (eptstat (x_ent x) ?p ENTRY_OK)))"
      using j(2) merged_ent_names by (metis set_stat_names(1,2))
    ultimately show ?thesis using True j z by (simp add: like_status_def Let_def)
  next
    case False
    then show ?thesis
      using go [OF cs(1)] go [OF cs(3)] go [OF cs(4)] go [OF p(2)] e
      by (auto simp: like_status_def Let_def)
  qed
qed

lemma like_finish_appends:
  assumes env: "env_fits env" and e: "merged_ent (m_pkginst env) os a (x_ent x)" "ftype (x_ent x) \<noteq> CHR ''i''"
    and cf: "path cf = Some a" "ftype cf \<noteq> CHR ''i''" and t: "vfp_ok t"
  shows "\<exists>ch y n t' e'. like_finish env ctrl t code ignore changed0 stflag k x cf fs = MOk (ch, y, n, t', fs) \<and>
    appended (contents_line e') t t' \<and> merged_ent (m_pkginst env) os a e'"
proof -
  obtain j y ch where y: "like_status env ctrl ignore stflag k x = (Some j, y, ch)" "merged_ent (m_pkginst env) os a (x_ent y)"
    "ftype (x_ent y) = ftype (x_ent x)" using like_status_merged [OF env e(1)] by blast
  have cm: "merged_ent (m_pkginst env) os a (cf\<lparr>pinfo := pinfo (x_ent y)\<rparr>)"
    using y(2) cf(1) by (simp add: merged_ent_def others_def)
  show ?thesis
  proof (cases "code = MRG_REPLACE")
    case True
    obtain e1 e2 t' where "output_ent t (cf\<lparr>pinfo := pinfo (x_ent y)\<rparr>) j = MOk (e1, t')" "appended (contents_line e2) t t'"
      "merged_ent (m_pkginst env) os a e2" using output_ent_appends [OF cm _ t] cf(2) by fastforce
    then show ?thesis using True y(1) by (auto simp: like_finish_def Let_def)
  next
    case False
    obtain e1 e2 t' where "output_ent t (x_ent y) j = MOk (e1, t')" "appended (contents_line e2) t t'"
      "merged_ent (m_pkginst env) os a e2" using output_ent_appends [OF y(2) _ t] y(3) e(2) by fastforce
    then show ?thesis using False y(1) by (auto simp: like_finish_def Let_def)
  qed
qed

lemma like_remove_appends:
  assumes env: "env_fits env" and cf: "merged_ent (m_pkginst env) os a cf" "ftype cf \<noteq> CHR ''i''" and t: "vfp_ok t"
  shows "\<exists>ch y t' e'. like_remove env t x moved cf = MOk (ch, y, t') \<and> appended (contents_line e') t t' \<and>
    merged_ent (m_pkginst env) os a e'"
proof -
  let ?p = "m_pkginst env"
  define r where "r = eptstat cf ?p RM_RDY"
  have p: "length ?p \<le> PKGSIZ" "RM_RDY \<noteq> STAT_NEXT" using env by (simp_all add: env_fits_def status_defs)
  obtain k where k: "ep_me r = Some k" "merged_ent ?p os a (ep_ent r)" using eptstat_merged [OF p cf(1)] by (auto simp: r_def)
  define cf1 where "cf1 = set_stat k RM_RDY (ep_ent r)"
  have m: "merged_ent ?p os a cf1" using k(2) merged_ent_names by (metis cf1_def set_stat_names(1,2))
  have "ftype cf1 \<noteq> CHR ''i''" using cf(2) eptstat_keeps(3) [OF p(1), of cf] by (simp add: cf1_def r_def)
  then obtain t' where "putcvfpfile cf1 t = Inr (0, t')" "appended (contents_line cf1) t t'"
    using putcvfpfile_appends [of cf1 a t] m t by (auto simp: merged_ent_def)
  then show ?thesis using k(1) m by (auto simp: like_remove_def Let_def r_def [symmetric] cf1_def [symmetric])
qed

lemma do_like_ent_appends:
  assumes env: "env_fits env" and x: "ext_ok x" "path (x_ent x) = Some a"
    and cf: "path cf = Some a" "ftype cf \<noteq> CHR ''i''" and t: "vfp_ok t"
  shows "\<exists>ch y n t' fs' e'. do_like_ent env t x cf ctrl fs = MOk (ch, y, n, t', fs') \<and>
    appended (contents_line e') t t' \<and> merged_ent (m_pkginst env) (others (m_pkginst env) cf) a e'"
proof -
  let ?p = "m_pkginst env" and ?os = "others (m_pkginst env) cf"
  have p: "length ?p \<le> PKGSIZ" "sys_fits (m_sys env)" using env by (simp_all add: env_fits_def)
  have xx: "client_path x = Some a" "ftype (x_ent x) \<noteq> CHR ''i''" "\<not> ms_preloaded (x_mstat x)" using x by (simp_all add: ext_ok_def)
  define r where "r = eptstat cf ?p DUP_ENTRY"
  define x1 where "x1 = (if ep_others r > 0 then upd_ms (\<lambda>m. m\<lparr>ms_shared := True\<rparr>) x else x)"
  have c: "DUP_ENTRY \<noteq> STAT_NEXT" "DUP_ENTRY \<noteq> NUL \<and> DUP_ENTRY \<noteq> RM_RDY" by (simp_all add: status_defs)
  obtain k where k: "ep_me r = Some k" "?p \<in> pkg ` set (pinfo (ep_ent r))"
    using eptstat_me [OF p(1) c(1), of cf] c(2) by (auto simp: r_def)
  have cm: "merged_ent ?p ?os a (ep_ent r)" "ftype (ep_ent r) \<noteq> CHR ''i''" "path (ep_ent r) = Some a"
    using eptstat_keeps [OF p(1), of cf DUP_ENTRY] cf k(2) by (simp_all add: r_def merged_ent_def others_alt)
  have x1: "path (x_ent x1) = Some a" "client_path x1 = Some a" "ftype (x_ent x1) = ftype (x_ent x)" "\<not> ms_preloaded (x_mstat x1)"
    using x(2) xx by (auto simp: x1_def upd_ms_def)
  have like: "do_like_ent env t x cf ctrl fs =
    (if ftype (x_ent x1) = RM_RDY then
       mbind (like_remove env t x1 (last_place ?p (pinfo cf) 0) (ep_ent r)) (\<lambda>(ch, x2, v). MOk (ch, x2, 0, v, fs))
     else
       mbind
         (if m_nocnflct env \<and> ms_shared (x_mstat x1) \<and> ftype (x_ent x1) \<noteq> CHR ''e'' then
            mbind (mlift (set_change env x1 fs)) (\<lambda>(x2, fs1). MOk (MRG_SAME, True, False, cp_cfent (ep_ent r) x2, ep_ent r, fs1))
          else
           (let (code, x2, cf2) = merg env k x1 (ep_ent r) in
            MOk (code, code = MRG_REPLACE, code = MRG_DIFFERENT,
              if code = MRG_REPLACE then upd_ms (\<lambda>m. m\<lparr>ms_contchg := True\<rparr>) x2 else x2, cf2, fs)))
         (\<lambda>(code, ignore, changed0, x3, cf3, fs3).
           mbind (if \<not> ms_contchg (x_mstat x3) \<and> \<not> ignore then mlift (set_change env x3 fs3) else MOk (x3, fs3))
             (\<lambda>(x4, fs4). like_finish env ctrl t code ignore changed0 (status (pinfo (ep_ent r) ! k)) k x4 cf3 fs4)))"
    using xx(3) k(1) by (simp add: do_like_ent_def Let_def r_def [symmetric] x1_def [symmetric])
  have fin: "\<exists>ch y n t' fs' e'. mbind (if b then mlift (set_change env xz fz) else MOk (xz, fz))
      (\<lambda>(xw, fw). like_finish env ctrl t code ignore chz sf k xw cz fw) = MOk (ch, y, n, t', fs') \<and>
      appended (contents_line e') t t' \<and> merged_ent ?p ?os a e'"
    if "merged_ent ?p ?os a (x_ent xz)" "ftype (x_ent xz) \<noteq> CHR ''i''" "path cz = Some a" "ftype cz \<noteq> CHR ''i''"
    for b xz fz code ignore chz sf cz
  proof -
    obtain xw fw where s: "set_change env xz fz = Inr (xw, fw)" "same_names xz xw" "ftype (x_ent xw) = ftype (x_ent xz)"
      using set_change_total [OF p(2)] by blast
    then have "merged_ent ?p ?os a (x_ent xw)" using that(1) merged_ent_names [of "x_ent xw" "x_ent xz"] by (simp add: same_names_def)
    then have z: "merged_ent ?p ?os a (x_ent (if b then xw else xz))" "ftype (x_ent (if b then xw else xz)) \<noteq> CHR ''i''"
      using that(1,2) s(3) by simp_all
    note f = like_finish_appends [OF env z that(3,4) t, of ctrl code ignore chz sf k "if b then fw else fz"]
    obtain ch y n t' e' where
      "like_finish env ctrl t code ignore chz sf k (if b then xw else xz) cz (if b then fw else fz) = MOk (ch, y, n, t', if b then fw else fz)"
      "appended (contents_line e') t t'" "merged_ent ?p ?os a e'" using f by blast
    then show ?thesis using s(1) by (cases b) auto
  qed
  show ?thesis
  proof (cases "ftype (x_ent x1) = RM_RDY")
    case True
    then show ?thesis using like_remove_appends [OF env cm(1,2) t, of x1 "last_place ?p (pinfo cf) 0"] unfolding like by auto
  next
    case False
    show ?thesis
    proof (cases "m_nocnflct env \<and> ms_shared (x_mstat x1) \<and> ftype (x_ent x1) \<noteq> CHR ''e''")
      case True
      obtain x2 f where s: "set_change env x1 fs = Inr (x2, f)" "same_names x1 x2" using set_change_total [OF p(2)] by blast
      have "path (x_ent (cp_cfent (ep_ent r) x2)) = Some a" "pinfo (x_ent (cp_cfent (ep_ent r) x2)) = pinfo (ep_ent r)"
        "ftype (x_ent (cp_cfent (ep_ent r) x2)) = ftype (ep_ent r)"
        using s(2) x1(2) by (simp_all add: cp_cfent_def same_names_def)
      then have "merged_ent ?p ?os a (x_ent (cp_cfent (ep_ent r) x2))" "ftype (x_ent (cp_cfent (ep_ent r) x2)) \<noteq> CHR ''i''"
        using cm by (simp_all add: merged_ent_def others_def)
      from fin [OF this cm(3,2), where b = False and fz = f and code = MRG_SAME and ignore = True and chz = False and
          sf = "status (pinfo (ep_ent r) ! k)"] show ?thesis unfolding like using False True s(1) by simp
    next
      case noc: False
      obtain code x2 cf2 where m: "merg env k x1 (ep_ent r) = (code, x2, cf2)" using prod_cases3 by blast
      note n = merg_names [OF m x1(2) [folded x1(1)]]
      define x3 where "x3 = (if code = MRG_REPLACE then upd_ms (\<lambda>m. m\<lparr>ms_contchg := True\<rparr>) x2 else x2)"
      have e3: "x_ent x3 = x_ent x2" by (simp add: x3_def)
      have "merged_ent ?p ?os a (x_ent x3)" using merged_ent_names [of "x_ent x2" "ep_ent r"] n(1,2) cm(1,3) x1(1) by (simp add: e3)
      moreover have "ftype (x_ent x3) \<noteq> CHR ''i''" "path cf2 = Some a" "ftype cf2 \<noteq> CHR ''i''"
        using n cm x1(3) xx(2) by (auto simp: e3)
      ultimately show ?thesis unfolding like m if_not_P [OF noc] using False fin [where b = "\<not> ms_contchg (x_mstat x3) \<and> code \<noteq> MRG_REPLACE" and fz = fs and code = code and
          ignore = "code = MRG_REPLACE" and chz = "code = MRG_DIFFERENT" and sf = "status (pinfo (ep_ent r) ! k)" and xz = x3 and cz = cf2] by (simp add: x3_def [symmetric])
    qed
  qed
qed

section \<open>A new entry\<close>

lemma new_defaults_names [simp]: "path (new_defaults e) = path e" "pinfo (new_defaults e) = pinfo e" "ftype (new_defaults e) = ftype e"
  by (simp_all add: new_defaults_def Let_def)

text \<open>
  The entries for which nothing is written when their path is new: those to be removed, and, when conflicting objects are not to be
  installed, those marked as shared or already on the disk.
\<close>

definition may_drop :: "'fs menv \<Rightarrow> cfextra \<Rightarrow> bool" where
  "may_drop env x \<longleftrightarrow> ftype (x_ent x) = RM_RDY \<or>
     m_nocnflct env \<and> (ms_shared (x_mstat x) \<or> (\<exists>fs. sys_access (m_sys env) fs (server_path x)))"

lemma do_new_ent_appends:
  assumes env: "env_fits env" and x: "ext_ok x" "path (x_ent x) = Some a" and t: "vfp_ok t"
  shows "\<exists>ch y n t' fs'. do_new_ent env t x ctrl fs = MOk (ch, y, n, t', fs') \<and>
    (t' = t \<and> may_drop env x \<or> (\<exists>e'. appended (contents_line e') t t' \<and> merged_ent (m_pkginst env) [] a e'))"
proof (cases "ftype (x_ent x) = RM_RDY")
  case True
  then show ?thesis by (auto simp: do_new_ent_def may_drop_def)
next
  case False
  let ?p = "m_pkginst env"
  have p: "length ?p \<le> PKGSIZ" "sys_fits (m_sys env)" using env by (simp_all add: env_fits_def)
  define first where "first = (if \<not> ms_parentsyml2dir (x_mstat x) \<and> sys_access (m_sys env) fs (server_path x) then
             mlift (set_change env (upd_ms (\<lambda>m. m\<lparr>ms_shared := True, ms_rogue := True\<rparr>) x) fs)
           else MOk (upd_ms (\<lambda>m. m\<lparr>ms_rogue := False, ms_contchg := True, ms_attrchg := True\<rparr>) x, fs))"
  obtain x1 fs1 where x1: "first = MOk (x1, fs1)" "same_names x x1" "ftype (x_ent x1) = ftype (x_ent x)"
    "sys_access (m_sys env) fs (server_path x) \<or> ms_shared (x_mstat x1) = ms_shared (x_mstat x)"
  proof (cases "\<not> ms_parentsyml2dir (x_mstat x) \<and> sys_access (m_sys env) fs (server_path x)")
    case True
    obtain y f where "set_change env (upd_ms (\<lambda>m. m\<lparr>ms_shared := True, ms_rogue := True\<rparr>) x) fs = Inr (y, f)"
      "same_names (upd_ms (\<lambda>m. m\<lparr>ms_shared := True, ms_rogue := True\<rparr>) x) y"
      "ftype (x_ent y) = ftype (x_ent (upd_ms (\<lambda>m. m\<lparr>ms_shared := True, ms_rogue := True\<rparr>) x))" using set_change_total [OF p(2)] by blast
    moreover have "same_names x y" using calculation(2) by (simp add: same_names_def)
    ultimately show thesis using that [of y f] True by (simp add: first_def)
  next
    case False
    then show thesis using that [of "upd_ms (\<lambda>m. m\<lparr>ms_rogue := False, ms_contchg := True, ms_attrchg := True\<rparr>) x" fs]
      unfolding first_def if_not_P [OF False] by simp
  qed
  define x2 where "x2 = upd_ent new_defaults x1"
  have x2: "path (x_ent x2) = Some a" "ftype (x_ent x2) \<noteq> CHR ''i''" "\<not> ms_preloaded (x_mstat x2)"
    using x1(2,3) x by (simp_all add: x2_def same_names_def ext_ok_def)
  define e3 where "e3 = (x_ent x2)\<lparr>npkgs := 1, pinfo := [pinfo0\<lparr>pkg := ?p\<rparr>]\<rparr>"
  have m3: "merged_ent ?p [] a e3" using x2(1) by (simp add: e3_def merged_ent_def others_def pinfo0_def)
  define s where "s = (if m_dbst env \<noteq> NUL then m_dbst env else if ctrl then ENTRY_OK else CONFIRM_CONT)"
  define x3 where "x3 = x2\<lparr>x_ent := set_stat 0 s e3\<rparr>"
  obtain b x4 where x4: "(if ctrl then served env x3 else (False, x3)) = (b, x4)" by fastforce
  define x5 where "x5 = (if b then upd_ent (set_stat 0 SERVED_FILE) x4 else x4)"
  have new: "do_new_ent env t x ctrl fs =
    (if m_nocnflct env \<and> ms_shared (x_mstat x2) then MOk (False, x2, 0, t, fs1)
     else mbind (output_ent t (x_ent x5) 0) (\<lambda>(e6, v). let x6 = x5\<lparr>x_ent := e6\<lparr>pinfo := []\<rparr>\<rparr>; ms = x_mstat x6 in
       MOk (True, x6, if \<not> ms_attrchg ms \<and> \<not> ms_contchg ms then 1 else 0, v, fs1)))"
    unfolding do_new_ent_def if_not_P [OF False] first_def [symmetric] x1(1) mbind_simps prod.case Let_def x2_def [symmetric]
      if_not_P [OF x2(3)] option.case e3_def [symmetric] s_def [symmetric] x3_def [symmetric] x4 x5_def [symmetric] using p(1) by simp
  show ?thesis
  proof (cases "m_nocnflct env \<and> ms_shared (x_mstat x2)")
    case True
    then have "may_drop env x" using x1(4) by (auto simp: may_drop_def x2_def)
    then show ?thesis using True by (auto simp: new)
  next
    case nc: False
    have "x_ent x4 = x_ent x3" using x4 by (auto simp: served_def Let_def split: if_splits prod.splits)
    then have "map pkg (pinfo (x_ent x5)) = map pkg (pinfo e3)" "path (x_ent x5) = path e3" "ftype (x_ent x5) = ftype (x_ent x2)"
      by (auto simp: x5_def x3_def e3_def)
    then have m5: "merged_ent ?p [] a (x_ent x5)" "ftype (x_ent x5) \<noteq> CHR ''i''" using m3 merged_ent_names [of "x_ent x5" e3 ?p "[]" a] x2(2) by simp_all
    obtain e6 e7 t' where o: "output_ent t (x_ent x5) 0 = MOk (e6, t')" "appended (contents_line e7) t t'" "merged_ent ?p [] a e7"
      using output_ent_appends [OF m5 t] by blast
    then show ?thesis unfolding new if_not_P [OF nc] o(1) mbind_simps prod.case Let_def by blast
  qed
qed

end
