(* ===== verification/Mergedb.thy ===== *)
theory Mergedb
  imports Mergent Cfread
begin

unbundle bit_operations_syntax

text \<open>
  The loop of the merge against an abstract merge of entries with paths: what the search finds and copies in each
  round, what the handlers of an entry add, and the whole of \<open>pkgdbmerg\<close>.
\<close>

section \<open>The search during a merge\<close>

text \<open>The database behind line \<open>k\<close>.\<close>

lemma cf_at_shift:
  assumes "cf_at v pre ls cs junk"
  shows "cf_at (v\<lparr>vCurr := int (off pre ls k)\<rparr>) (pre @ concat (take k ls)) (drop k ls) cs junk"
proof -
  have c: "concat ls = concat (take k ls) @ concat (drop k ls)" by (metis append_take_drop_id concat_append)
  show ?thesis using assms cf_mem_take [of pre ls cs junk k] c by (simp add: cf_at_def off_def cf_mem_def)
qed

lemma search_comments:
  assumes cf: "cf_at v pre [] cs junk" "lines_ok [] cs" "cs \<noteq> []" "deref a = SLASH" "length cs < fuel"
  shows "\<exists>s. srchcfile fuel classname ept (Some a) v (Some t) = Some (Inr (Back 0 None s)) \<and> s_tmp s = Some t"
proof (cases "vfpGetBytesRemaining v \<le> 1")
  case True
  then show ?thesis by (simp add: srchcfile_def Let_def)
next
  case False
  have a: "a \<noteq> []" using cf(4) by auto
  obtain n where n: "fuel = length cs + Suc n" using cf(5) by (metis less_imp_Suc_add add_Suc_right)
  obtain b where c0: "cs ! 0 = CHR ''#'' # b @ [NL]" using cf(2,3) by (metis comment_ok_def length_greater_0_conv lines_ok_def nth_mem)
  have "str_at (vMem v) (length pre) = cs ! 0 @ concat (drop 1 cs)"
    using comment_at [OF cf(2), of 0 pre junk] cf(1,3) by (simp add: coff_def cf_at_def)
  then have d: "deref_at (vMem v) (vpos v) = CHR ''#''" using cf(1) c0 by (simp add: deref_str_at vpos_def cf_at_def)
  have ns: "narrowSearch v (Some a) = None" using d by (simp add: narrowSearch_def Let_def)
  define s where "s = \<lparr>s_e = srch_clear ept, s_v = v, s_tmp = Some t, s_first = vpos v, s_last = 0, s_skip = False\<rparr>"
  define s1 where "s1 = s\<lparr>s_v := v\<lparr>vCurr := int (coff pre [] cs (length cs))\<rparr>\<rparr>"
  have v: "s_v s = v\<lparr>vCurr := int (coff pre [] cs 0)\<rparr>" using cf(1) by (simp add: s_def coff_def cf_at_def)
  have "vfpGetBytesRemaining (s_v s1) \<le> 0" using cf(1) by (simp add: s1_def vfpGetBytesRemaining_def cf_at_def coff_def)
  then have "srch_round (Some a) False s1 = Inr (Back 0 None s1)" by (simp add: srch_round_def Let_def s1_def s_def)
  then have "srch_loop fuel (Some a) False s = Some (Inr (Back 0 None s1))"
    using loop_comments [OF cf(1,2) _ v, of "Suc n"] n by (simp add: s1_def [symmetric])
  then have "srchcfile fuel classname ept (Some a) v (Some t) = Some (Inr (Back 0 None s1))"
    using a False cf(4) ns by (simp add: srchcfile_def Let_def s_def [symmetric] srch_match_def)
  then show ?thesis by (simp add: s1_def s_def)
qed

text \<open>The search without a path copies what is left, the comments included unless they are shorter than three bytes.\<close>

lemma search_rest:
  assumes cf: "cf_at v pre ls cs junk" "lines_ok ls cs" and t: "vfp_ok t" "vHighWater t \<le> vEnd t"
  shows "\<exists>s t' c. srchcfile fuel classname ept None v (Some t) = Some (Inr (Back 0 None s)) \<and> s_tmp s = Some t' \<and>
    appended (concat ls @ c) t t' \<and> (c = concat cs \<or> c = [])"
proof (cases "vfpGetBytesRemaining v \<le> 1")
  case True
  have "ls = []"
  proof (rule ccontr)
    assume "ls \<noteq> []"
    then obtain l r where ls: "ls = l # r" by (cases ls) auto
    then have "line_ok l" using cf(2) by (simp add: lines_ok_def)
    then have "3 \<le> length l" by (auto simp: line_ok_def)
    then show False using True cf(1) ls by (auto simp: vfpGetBytesRemaining_def cf_at_def split: if_splits)
  qed
  then have "appended (concat ls @ []) t t" using t by simp
  moreover have "srchcfile fuel classname ept None v (Some t) = Some (Inr (Back 0 None
      \<lparr>s_e = srch_clear ept, s_v = v, s_tmp = Some t, s_first = vpos v, s_last = 0, s_skip = False\<rparr>))"
    using True by (simp add: srchcfile_def Let_def)
  ultimately show ?thesis by (metis srch.select_convs(3))
next
  case False
  define s where "s = \<lparr>s_e = srch_clear ept, s_v = v, s_tmp = Some t, s_first = vpos v, s_last = 0, s_skip = False\<rparr>"
  let ?w = "concat ls @ concat cs"
  have v: "vMem v = pre @ ?w @ NUL # junk" "vpos v = length pre" "nat (vHighWater v) + 1 - length pre = length ?w"
    using cf(1) False by (auto simp: cf_at_def cf_mem_def vpos_def vfpGetBytesRemaining_def split: if_splits)
  obtain t1 where t1: "vfpPutBytes t ?w = Inr t1" "appended ?w t t1" using vfpPutBytes_appended [OF t(1)] by blast
  obtain t2 where t2: "end_tmp (s\<lparr>s_tmp := Some t1\<rparr>) = Inr (s\<lparr>s_tmp := Some t2\<rparr>)" "appended ?w t t2"
    using write_end [OF t1 t(2)] by blast
  have "write_data s (s_first s) (nat (vHighWater v) + 1) = Inr (s\<lparr>s_tmp := Some t1\<rparr>)"
    using v t1(1) by (simp add: write_data_def s_def)
  then have "srchcfile fuel classname ept None v (Some t) =
      Some (Inr (Back 0 None (s\<lparr>s_tmp := Some t2, s_v := vfpSeekToEnd (s_v s)\<rparr>)))"
    using False t2(1) by (simp add: srchcfile_def Let_def s_def [symmetric] narrowSearch_def)
  then show ?thesis using t2(2) by (intro exI [of _ "s\<lparr>s_tmp := Some t2, s_v := vfpSeekToEnd (s_v s)\<rparr>"]) auto
qed

section \<open>The abstract merge\<close>

definition pathof :: "cfent \<Rightarrow> string" where "pathof e = the (path e)"

text \<open>The paths of a map that are merged: information files are not, and of entries with the same path the last one is.\<close>

fun todo :: "cfent list \<Rightarrow> string list" where
  "todo [] = []"
| "todo [x] = (if ftype x \<in> set ''in'' then [] else [pathof x])"
| "todo (x # y # r) = (if ftype x \<in> set ''in'' \<or> path x = path y then todo (y # r) else pathof x # todo (y # r))"

text \<open>
  The merge of sorted entries with sorted paths for a package: entries before the next path stay, an entry
  with the path gets the package, a path without an entry gets one for the package alone, or none if it is one of those in \<open>dr\<close>.
\<close>

inductive merges :: "string \<Rightarrow> (string \<Rightarrow> bool) \<Rightarrow> cfent list \<Rightarrow> string list \<Rightarrow> cfent list \<Rightarrow> bool" for p dr where
  rest: "merges p dr es [] es"
| keep: "pathof e < a \<Longrightarrow> merges p dr es (a # as) out \<Longrightarrow> merges p dr (e # es) (a # as) (e # out)"
| like: "pathof e = a \<Longrightarrow> merged_ent p (others p e) a e' \<Longrightarrow> merges p dr es as out \<Longrightarrow> merges p dr (e # es) (a # as) (e' # out)"
| new: "\<forall>e \<in> set es. a < pathof e \<Longrightarrow> merged_ent p [] a e' \<Longrightarrow> merges p dr es as out \<Longrightarrow> merges p dr es (a # as) (e' # out)"
| none: "dr a \<Longrightarrow> \<forall>e \<in> set es. a < pathof e \<Longrightarrow> merges p dr es as out \<Longrightarrow> merges p dr es (a # as) out"

inductive_cases merges_NilE [elim!]: "merges p dr es [] out"

lemma merges_keep:
  "\<forall>e \<in> set us. pathof e < a \<Longrightarrow> merges p dr es (a # as) out \<Longrightarrow> merges p dr (us @ es) (a # as) (us @ out)"
  by (induction us) (auto intro: merges.keep)

section \<open>A round of the merge\<close>

definition alike :: "cfextra \<Rightarrow> cfextra \<Rightarrow> bool" where
  "alike x y \<longleftrightarrow> x_ent y = x_ent x \<and> client_path y = client_path x \<and> server_path y = server_path x \<and>
     ms_preloaded (x_mstat y) = ms_preloaded (x_mstat x) \<and> ms_shared (x_mstat y) = ms_shared (x_mstat x)"

definition alikes :: "cfextra list \<Rightarrow> cfextra list \<Rightarrow> bool" where
  "alikes = list_all2 alike"

lemma alikes_refl [simp]: "alikes xs xs"
  by (simp add: alikes_def list_all2_same alike_def)

lemma alikes_mark: "alikes xs (mark_children p xs)"
proof -
  define below where "below = (\<lambda>x :: cfextra. case (p, path (x_ent x)) of (Some a, Some b) \<Rightarrow> take (length a) b = a | _ \<Rightarrow> False)"
  have "mark_children p xs = map (upd_ms (\<lambda>m. m\<lparr>ms_parentsyml2dir := True\<rparr>)) (takeWhile below xs) @ dropWhile below xs"
    by (simp add: mark_children_def below_def Let_def)
  moreover have "alikes xs (map (upd_ms (\<lambda>m. m\<lparr>ms_parentsyml2dir := True\<rparr>)) (takeWhile below xs) @ dropWhile below xs)"
    by (induction xs) (auto simp: alikes_def alike_def list_all2_same upd_ms_def)
  ultimately show ?thesis by simp
qed

text \<open>The entries of the map behind the one at hand.\<close>

definition later :: "'fs mst \<Rightarrow> cfextra list" where
  "later s = drop (Suc (g_num s)) (g_ext s)"

text \<open>What a step leaves alone, and what a handler of an entry does.\<close>

definition moved :: "string \<Rightarrow> 'fs mst \<Rightarrow> 'fs mst \<Rightarrow> bool" where
  "moved w s s' \<longleftrightarrow> g_num s' = g_num s \<and> g_eoext s' = g_eoext s \<and> g_changed s \<le> g_changed s' \<and>
     length (g_ext s') = length (g_ext s) \<and> alikes (later s) (later s') \<and> appended w (g_tmp s) (g_tmp s')"

definition handled :: "string \<Rightarrow> 'fs mst \<Rightarrow> 'fs mst \<Rightarrow> bool" where
  "handled w s s' \<longleftrightarrow> moved w s s' \<and> g_map s' = g_map s \<and> g_eocont s' = g_eocont s"

lemma alikes_trans: "alikes xs ys \<Longrightarrow> alikes ys zs \<Longrightarrow> alikes xs zs"
  unfolding alikes_def by (rule list_all2_trans [of alike alike alike]) (auto simp: alike_def)

lemma moved_trans: "moved w s s' \<Longrightarrow> moved w' s' s'' \<Longrightarrow> moved (w @ w') s s''"
  by (auto simp: moved_def intro: alikes_trans appended_trans)

lemma merg_like_ok:
  assumes env: "env_fits env" and x: "ext_ok x" "path (x_ent x) = Some a" and n: "g_num s < length (g_ext s)"
    and cf: "path (g_cf s) = Some a" "ftype (g_cf s) \<noteq> CHR ''i''" and t: "vfp_ok (g_tmp s)"
  shows "\<exists>s' e'. merg_like env x s = MOk s' \<and> handled (contents_line e') s s' \<and>
    merged_ent (m_pkginst env) (others (m_pkginst env) (g_cf s)) a e'"
proof -
  define x1 where "x1 = (if is_setuid (g_cf s) then upd_ms (\<lambda>m. m\<lparr>ms_osetuid := True\<rparr>) x else x)"
  define x2 where "x2 = (if is_setgid (g_cf s) then upd_ms (\<lambda>m. m\<lparr>ms_osetgid := True\<rparr>) x1 else x1)"
  define ext where "ext = (if ftype (g_cf s) = CHR ''s'' \<and> ftype (x_ent x2) = CHR ''d''
    then take (Suc (g_num s)) (g_ext s) @ mark_children (path (x_ent x2)) (drop (Suc (g_num s)) (g_ext s)) else g_ext s)"
  have x2: "ext_ok x2" "path (x_ent x2) = Some a" using x by (simp_all add: x2_def x1_def ext_ok_def)
  obtain ch y m t' fs' e' where d: "do_like_ent env (g_tmp s) x2 (g_cf s) (g_ok s) (g_fs s) = MOk (ch, y, m, t', fs')"
    "appended (contents_line e') (g_tmp s) t'" "merged_ent (m_pkginst env) (others (m_pkginst env) (g_cf s)) a e'"
    using do_like_ent_appends [OF env x2 cf t] by blast
  have ml: "alikes (drop (Suc (g_num s)) (g_ext s)) (drop (Suc (g_num s)) ext)" "length ext = length (g_ext s)"
  proof -
    have l: "length (mark_children q zs) = length zs" for q zs
      using alikes_mark [of zs q] by (simp add: alikes_def list_all2_lengthD [symmetric])
    show "alikes (drop (Suc (g_num s)) (g_ext s)) (drop (Suc (g_num s)) ext)" using n alikes_mark by (simp add: ext_def)
    show "length ext = length (g_ext s)" using n by (auto simp: ext_def l)
  qed
  define s' where "s' = s\<lparr>g_ext := ext[g_num s := y], g_tmp := t', g_fs := fs', g_installed := g_installed s + int m,
    g_changed := (if ch then g_changed s + 1 else g_changed s)\<rparr>"
  have "merg_like env x s = MOk s'" unfolding merg_like_def Let_def x1_def [symmetric] x2_def [symmetric] ext_def [symmetric] d(1) by (simp add: s'_def)
  moreover have "handled (contents_line e') s s'" using ml d(2) by (simp add: handled_def moved_def s'_def later_def)
  ultimately show ?thesis using d(3) by blast
qed

lemma merg_new_ok:
  assumes env: "env_fits env" and x: "ext_ok x" "path (x_ent x) = Some a" and t: "vfp_ok (g_tmp s)"
  shows "\<exists>s' zs. merg_new env x s = MOk s' \<and> handled (concat (map contents_line zs)) s s' \<and>
    (zs = [] \<and> may_drop env x \<or> (\<exists>e'. zs = [e'] \<and> merged_ent (m_pkginst env) [] a e'))"
proof -
  obtain ch y m t' fs' where d: "do_new_ent env (g_tmp s) x (g_ok s) (g_fs s) = MOk (ch, y, m, t', fs')"
    "t' = g_tmp s \<and> may_drop env x \<or> (\<exists>e'. appended (contents_line e') (g_tmp s) t' \<and> merged_ent (m_pkginst env) [] a e')"
    using do_new_ent_appends [OF env x t, of "g_ok s" "g_fs s"] by (elim exE conjE)
  define s' where "s' = s\<lparr>g_ext := (g_ext s)[g_num s := y], g_tmp := t', g_fs := fs', g_installed := g_installed s + int m,
    g_changed := (if ch then g_changed s + 1 else g_changed s)\<rparr>"
  have "merg_new env x s = MOk s'" by (simp add: merg_new_def d(1) s'_def)
  moreover obtain zs where "appended (concat (map contents_line zs)) (g_tmp s) t'" "zs = [] \<and> may_drop env x \<or> (\<exists>e'. zs = [e'] \<and> merged_ent (m_pkginst env) [] a e')"
    using d(2)
  proof
    assume "t' = g_tmp s \<and> may_drop env x"
    then show thesis using that [of "[]"] t by simp
  next
    assume "\<exists>e'. appended (contents_line e') (g_tmp s) t' \<and> merged_ent (m_pkginst env) [] a e'"
    then obtain e' where "appended (contents_line e') (g_tmp s) t'" "merged_ent (m_pkginst env) [] a e'" by blast
    then show thesis using that [of "[e']"] by simp
  qed
  ultimately show ?thesis by (intro exI [of _ s'] exI [of _ zs]) (simp add: handled_def moved_def s'_def later_def)
qed

text \<open>The entries of the map that are merged.\<close>

definition map_ok :: "cfextra \<Rightarrow> bool" where
  "map_ok x \<longleftrightarrow> ftype (x_ent x) \<in> set ''in'' \<or>
     ext_ok x \<and> (\<exists>a. path (x_ent x) = Some a \<and> deref a = SLASH \<and> NUL \<notin> set a)"

lemma alikes_map_ok: "alikes xs ys \<Longrightarrow> \<forall>x \<in> set xs. map_ok x \<Longrightarrow> \<forall>y \<in> set ys. map_ok y"
  unfolding alikes_def by (induction rule: list_all2_induct) (auto simp: alike_def map_ok_def ext_ok_def)

lemma alikes_drop: "alikes xs ys \<Longrightarrow> \<forall>x \<in> set xs. may_drop env x \<longrightarrow> dr (pathof (x_ent x)) \<Longrightarrow> \<forall>y \<in> set ys. may_drop env y \<longrightarrow> dr (pathof (x_ent y))"
  unfolding alikes_def by (induction rule: list_all2_induct) (auto simp: alike_def may_drop_def)

lemma alikes_ents: "alikes xs ys \<Longrightarrow> map x_ent ys = map x_ent xs"
  unfolding alikes_def by (induction rule: list_all2_induct) (auto simp: alike_def)

text \<open>An entry is skipped, or prepared.\<close>

lemma drop_ConsD: "drop n xs = y # r \<Longrightarrow> n < length xs \<and> xs ! n = y \<and> drop (Suc n) xs = r"
  by (metis Cons_nth_drop_Suc drop_eq_Nil2 linorder_not_less list.inject list.discI)

lemma prepare_skips:
  assumes d: "drop (g_num s) (g_ext s) = x # r"
    and sk: "ftype (x_ent x) \<in> set ''in'' \<or> (\<exists>y r'. r = y # r' \<and> path (x_ent x) = path (x_ent y))"
  shows "merg_prepare env s = None"
proof -
  have n: "g_num s < length (g_ext s)" "g_ext s ! g_num s = x" "drop (Suc (g_num s)) (g_ext s) = r"
    using drop_ConsD [OF d] by simp_all
  have "Suc (g_num s) < length (g_ext s) \<and> g_ext s ! Suc (g_num s) = y" if "r = y # r'" for y r'
    using drop_ConsD [of "Suc (g_num s)" "g_ext s" y r'] n(3) that by simp
  then show ?thesis using sk n by (auto simp: merg_prepare_def Let_def)
qed

lemma prepare_keeps:
  assumes d: "drop (g_num s) (g_ext s) = x # r" and ok: "ext_ok x"
    and sk: "\<not> (ftype (x_ent x) \<in> set ''in'' \<or> (\<exists>y r'. r = y # r' \<and> path (x_ent x) = path (x_ent y)))" and t: "vfp_ok (g_tmp s)"
  shows "\<exists>x' s'. merg_prepare env s = Some (x', s') \<and> ext_ok x' \<and> path (x_ent x') = path (x_ent x) \<and>
    may_drop env x' = may_drop env x \<and> handled [] s s' \<and> later s' = r"
proof -
  have n: "g_num s < length (g_ext s)" "g_ext s ! g_num s = x" "drop (Suc (g_num s)) (g_ext s) = r"
    using drop_ConsD [OF d] by simp_all
  have "\<not> (Suc (g_num s) < length (g_ext s) \<and> path (x_ent x) = path (x_ent (g_ext s ! Suc (g_num s))))"
    using sk n(3) Cons_nth_drop_Suc [of "Suc (g_num s)" "g_ext s"] by metis
  then have sk': "\<not> (ftype (x_ent x) \<in> set ''in'')" "\<not> (Suc (g_num s) < length (g_ext s) \<and> path (x_ent x) = path (x_ent (g_ext s ! Suc (g_num s))))"
    using sk by blast+
  define qk where "qk = (cl_dvfy (g_cl s) (pkg_class_idx (x_ent x)) = QKVERIFY)"
  define s1 where "s1 = (if m_dbst env = NUL then (if qk then s\<lparr>g_ok := True\<rparr> else s)
                  else if qk then s\<lparr>g_cl := cl_def_dverify (pkg_class_idx (x_ent x)) (g_cl s)\<rparr> else s)"
  define x1 where "x1 = (if is_setuid (x_ent x) then upd_ms (\<lambda>m. m\<lparr>ms_setuid := True\<rparr>) x else x)"
  define x2 where "x2 = (if is_setgid (x_ent x1) then upd_ms (\<lambda>m. m\<lparr>ms_setgid := True\<rparr>) x1 else x1)"
  define x3 where "x3 = (if m_nosetuid env \<and> (ms_setgid (x_mstat x2) \<or> ms_setuid (x_mstat x2))
                  then upd_ent (\<lambda>e. set_mode (mode (ainfo e) AND NOT (S_ISUID OR S_ISGID)) e) x2 else x2)"
  have "merg_prepare env s = Some (x3, s1\<lparr>g_ext := (g_ext s)[g_num s := x3]\<rparr>)"
    unfolding merg_prepare_def Let_def n(2) if_not_P [OF sk'(1)] if_not_P [OF sk'(2)] qk_def [symmetric] s1_def [symmetric]
      x1_def [symmetric] x2_def [symmetric] x3_def [symmetric] ..
  moreover have "ext_ok x3" "path (x_ent x3) = path (x_ent x)"
    using ok by (auto simp: x3_def x2_def x1_def ext_ok_def)
  moreover have "may_drop env x3 = may_drop env x"
    by (simp add: x3_def x2_def x1_def may_drop_def upd_ms_def upd_ent_def)
  moreover have "handled [] s (s1\<lparr>g_ext := (g_ext s)[g_num s := x3]\<rparr>)" "later (s1\<lparr>g_ext := (g_ext s)[g_num s := x3]\<rparr>) = r"
    using n(3) t by (simp_all add: s1_def handled_def moved_def later_def)
  ultimately show ?thesis by blast
qed

section \<open>The search of a round\<close>

text \<open>The state of the merge with the entries \<open>es\<close> of the database still to come.\<close>

definition db_at :: "'fs mst \<Rightarrow> cfent list \<Rightarrow> string list \<Rightarrow> bool" where
  "db_at s es cs \<longleftrightarrow> (if g_eocont s then es = [] else \<exists>pre junk. cf_at (g_map s) pre (map contents_line es) cs junk)"

definition ents_ok :: "cfent list \<Rightarrow> bool" where
  "ents_ok es \<longleftrightarrow> (\<forall>e \<in> set es. cf_ent_ok e) \<and> sorted_wrt (\<lambda>e e'. pathof e < pathof e') es"

lemma ent_path: "cf_ent_ok e \<Longrightarrow> path e = Some (pathof e)"
  unfolding cf_ent_ok_def name_ok_def pathof_def by force

lemma ents_lines:
  assumes "ents_ok es" "\<forall>c \<in> set cs. comment_ok c"
  shows "lines_ok (map contents_line es) cs" "cf_sorted (map contents_line es)"
    "place (map contents_line es) a = length (takeWhile (\<lambda>e. pathof e < a) es)"
    "\<And>e. e \<in> set es \<Longrightarrow> line_path (contents_line e) = pathof e"
proof -
  have p: "line_path (contents_line e) = pathof e" "line_ok (contents_line e)" if "e \<in> set es" for e
    using contents_line_ok(1,2) [of e "pathof e"] ent_path assms(1) that by (simp_all add: ents_ok_def)
  then show "\<And>e. e \<in> set es \<Longrightarrow> line_path (contents_line e) = pathof e" by blast
  show "lines_ok (map contents_line es) cs" using p assms(2) by (auto simp: lines_ok_def)
  have s: "sorted_wrt (\<lambda>e e'. pathof e < pathof e') es" using assms(1) by (simp add: ents_ok_def)
  have "sorted_wrt (\<lambda>e e'. line_path (contents_line e) < line_path (contents_line e')) es"
    by (rule sorted_wrt_mono_rel [OF _ s]) (simp only: p(1))
  then show "cf_sorted (map contents_line es)" by (simp add: cf_sorted_def sorted_wrt_map)
  have "takeWhile (\<lambda>e. line_path (contents_line e) < a) es = takeWhile (\<lambda>e. pathof e < a) es"
    by (rule takeWhile_cong) (simp_all only: p(1))
  then show "place (map contents_line es) a = length (takeWhile (\<lambda>e. pathof e < a) es)"
    by (simp add: place_def takeWhile_map comp_def)
qed

lemma ents_ok_drop: "ents_ok es \<Longrightarrow> ents_ok (drop k es)"
  by (auto simp: ents_ok_def sorted_wrt_drop dest: in_set_dropD)

lemma cf_read_names [simp]: "path (cf_read e0 e) = path e" "ftype (cf_read e0 e) = ftype e" "pinfo (cf_read e0 e) = pinfo e"
  by (simp_all add: cf_read_def set_pkgs_def map_read_def Let_def)

text \<open>What the search for a path finds in a sorted database: the entries before the path, then the entry, a later one, or the end.\<close>

definition before :: "string \<Rightarrow> cfent list \<Rightarrow> cfent list" where
  "before a es = takeWhile (\<lambda>e. pathof e < a) es"

definition from_path :: "string \<Rightarrow> cfent list \<Rightarrow> cfent list" where
  "from_path a es = dropWhile (\<lambda>e. pathof e < a) es"

lemma before_from: "before a es @ from_path a es = es" "\<forall>e \<in> set (before a es). pathof e < a"
  "take (length (before a es)) es = before a es" "drop (length (before a es)) es = from_path a es"
  by (auto simp: before_def from_path_def takeWhile_eq_take [symmetric] dropWhile_eq_drop [symmetric] dest: set_takeWhileD)

lemma from_path_less:
  assumes "ents_ok es" "from_path a es = e # rs" "pathof e \<noteq> a"
  shows "\<forall>e' \<in> set (e # rs). a < pathof e'"
proof -
  have "\<not> pathof e < a" using hd_dropWhile [of "\<lambda>e. pathof e < a" es] assms(2) unfolding from_path_def by (metis list.sel(1) list.discI)
  then have e: "a < pathof e" using assms(3) by simp
  have "ents_ok (e # rs)" using ents_ok_drop [OF assms(1)] before_from(4) assms(2) by metis
  then have "\<forall>e' \<in> set rs. pathof e < pathof e'" by (simp add: ents_ok_def)
  then show ?thesis using e by (auto intro: less_trans)
qed

lemma search_outcome:
  assumes cf: "cf_at v pre (map contents_line es) cs jk" "ents_ok es" "\<forall>c \<in> set cs. comment_ok c" "cs \<noteq> []"
    and a: "deref a = SLASH" "NUL \<notin> set a" and t: "vfp_ok t" "vHighWater t \<le> vEnd t" and fuel: "length es + length cs < fuel"
  obtains n q t' where "srchcfile fuel junk ept (Some a) v (Some t) = Some (Inr (Back n None q))" "s_tmp q = Some t'"
    "appended (concat (map contents_line (before a es))) t t'"
    "n = 1 \<and> (\<exists>e rs pre'. from_path a es = e # rs \<and> pathof e = a \<and> s_e q = cf_read (srch_clear ept) e \<and>
        cf_at (s_v q) pre' (map contents_line rs) cs jk) \<or>
     n = 2 \<and> (\<forall>e \<in> set (from_path a es). a < pathof e) \<and> (\<exists>pre'. cf_at (s_v q) pre' (map contents_line (from_path a es)) cs jk) \<or>
     n = 0 \<and> from_path a es = []"
proof (cases "es = []")
  case True
  then obtain q where "srchcfile fuel junk ept (Some a) v (Some t) = Some (Inr (Back 0 None q))" "s_tmp q = Some t"
    using search_comments [of v pre cs jk a fuel junk ept t] cf a(1) fuel by (auto simp: lines_ok_def)
  then show thesis using that [of 0 q t] True t(1) by (simp add: from_path_def before_def)
next
  case ne: False
  let ?ls = "map contents_line es" and ?j = "length (before a es)"
  note el = ents_lines [OF cf(2,3)]
  have se: "cf_search v pre ?ls cs jk a" using cf(1) el(1,2) ne a by (simp add: cf_search_def)
  have pl: "place ?ls a = ?j" using el(3) by (simp add: before_def)
  have tk: "take ?j ?ls = map contents_line (before a es)" "drop ?j ?ls = map contents_line (from_path a es)"
    by (simp_all add: take_map drop_map before_from(3,4))
  have f: "length ?ls < fuel" "length ?ls + length cs < fuel" using fuel by simp_all
  show thesis
  proof (cases "from_path a es")
    case Nil
    then have "before a es = es" "place ?ls a = length ?ls" using before_from(1) [of a es] pl by simp_all
    then show thesis using search_end [OF se _ cf(4) f(2) t, of junk ept] that [of 0] Nil by auto
  next
    case (Cons e rs)
    have len: "length es = ?j + Suc (length rs)" using before_from(1) [of a es] Cons by (metis length_append length_Cons)
    have e: "es ! ?j = e" "e \<in> set es" "cf_ent_ok e"
      using before_from(1) [of a es] Cons cf(2) by (metis nth_append_length, metis in_set_conv_decomp, metis ents_ok_def in_set_conv_decomp)
    have lp: "line_path (?ls ! place ?ls a) = pathof e" using e(1,2) el(4) len by (simp add: pl)
    show thesis
    proof (cases "pathof e = a")
      case True
      have "path e = Some a" "contents_line e \<in> set ?ls" using ent_path [OF e(3)] True e(2) by simp_all
      then obtain q t' where q: "srchcfile fuel junk ept (Some a) v (Some t) = Some (Inr (Back 1 None q))" "s_e q = cf_read (srch_clear ept) e"
        "s_v q = v\<lparr>vCurr := int (off pre ?ls (Suc ?j))\<rparr>" "s_tmp q = Some t'" "appended (concat (take ?j ?ls)) t t'"
        using search_found [OF se e(3) _ _ f(1) t(1), of junk ept] unfolding pl by blast
      have "drop (Suc ?j) ?ls = map contents_line rs" using tk(2) Cons by (metis drop_Suc list.sel(3) map_tl tl_drop)
      then show thesis using that [of 1 q t'] q cf_at_shift [OF cf(1), of "Suc ?j"] tk(1) Cons True by auto
    next
      case False
      have "length (pathof e) < PATH_MAX" using e(3) unfolding cf_ent_ok_def name_ok_def pathof_def by force
      then obtain q t' where q: "srchcfile fuel junk ept (Some a) v (Some t) = Some (Inr (Back 2 None q))"
        "s_v q = v\<lparr>vCurr := int (off pre ?ls ?j)\<rparr>" "s_tmp q = Some t'" "appended (concat (take ?j ?ls)) t t'"
        using search_insert [OF se _ _ _ f(1) t(1), of junk ept] lp False len unfolding pl by auto
      then show thesis using that [of 2 q t'] cf_at_shift [OF cf(1), of ?j] tk from_path_less [OF cf(2) Cons False] Cons by auto
    qed
  qed
qed

text \<open>The search of a round without an error.\<close>

lemma merg_search_back:
  assumes "srchcfile fuel junk (g_cf s) (path (x_ent x)) (g_map s) (Some (g_tmp s)) = Some (Inr (Back n None q))"
    "\<not> g_eocont s" "0 \<le> n" "s_tmp q = Some t'"
  shows "merg_search fuel junk env (Some x) s =
    (let s1 = s\<lparr>g_map := s_v q, g_tmp := t', g_cf := s_e q\<rparr> in
     Some (mbind (if n = 1 then merg_like env x s1 else merg_new env x (if n = 0 then s1\<lparr>g_eocont := True\<rparr> else s1)) (\<lambda>s'. MOk (Inr s'))))"
  using assms by (simp add: merg_search_def Let_def)

lemma merg_search_step:
  assumes env: "env_fits env" and x: "ext_ok x" "path (x_ent x) = Some a" "deref a = SLASH" "NUL \<notin> set a"
    and db: "db_at s es cs" "ents_ok es" "\<forall>c \<in> set cs. comment_ok c" "cs \<noteq> []"
    and t: "vfp_ok (g_tmp s)" "vHighWater (g_tmp s) \<le> vEnd (g_tmp s)"
    and n: "g_num s < length (g_ext s)" "length es + length cs < fuel" and dr: "may_drop env x \<Longrightarrow> dr a"
  shows "\<exists>s' es' w. merg_search fuel junk env (Some x) s = Some (MOk (Inr s')) \<and> moved (concat (map contents_line w)) s s' \<and>
    db_at s' es' cs \<and> ents_ok es' \<and> length es' \<le> length es \<and>
    (\<forall>as out. merges (m_pkginst env) dr es' as out \<longrightarrow> merges (m_pkginst env) dr es (a # as) (w @ out))"
proof -
  let ?p = "m_pkginst env"
  have new_ok: "\<exists>s' zs. merg_new env x s0 = MOk s' \<and> handled (concat (map contents_line zs)) s0 s' \<and>
      (\<forall>es' as out. (\<forall>e \<in> set es'. a < pathof e) \<longrightarrow> merges ?p dr es' as out \<longrightarrow> merges ?p dr es' (a # as) (zs @ out))"
    if "vfp_ok (g_tmp s0)" for s0
    using merg_new_ok [OF env x(1,2) that] dr by (metis append_Cons append_Nil merges.new merges.none)
  show ?thesis
  proof (cases "g_eocont s")
    case True
    then have es: "es = []" using db(1) by (simp add: db_at_def)
    obtain s' zs where s': "merg_new env x s = MOk s'" "handled (concat (map contents_line zs)) s s'"
      "\<forall>es' as out. (\<forall>e \<in> set es'. a < pathof e) \<longrightarrow> merges ?p dr es' as out \<longrightarrow> merges ?p dr es' (a # as) (zs @ out)"
      using new_ok [OF t(1)] by blast
    have "merg_search fuel junk env (Some x) s = Some (MOk (Inr s'))" using True s'(1) by (simp add: merg_search_def)
    moreover have "db_at s' [] cs" using s'(2) True by (simp add: db_at_def handled_def)
    ultimately show ?thesis using s'(2,3) es db(2) by (intro exI [of _ s'] exI [of _ "[]"] exI [of _ zs]) (simp add: handled_def)
  next
    case False
    let ?ls = "map contents_line es"
    obtain pre jk where cf: "cf_at (g_map s) pre ?ls cs jk" using db(1) False by (auto simp: db_at_def)
    note el = ents_lines [OF db(2,3)]
    have keep: "merges ?p dr (from_path a es) (a # as) out \<Longrightarrow> merges ?p dr es (a # as) (before a es @ out)" for as out
      using merges_keep [OF before_from(2)] before_from(1) by metis
    obtain n q t' where q: "srchcfile fuel junk (g_cf s) (Some a) (g_map s) (Some (g_tmp s)) = Some (Inr (Back n None q))" "s_tmp q = Some t'"
      "appended (concat (map contents_line (before a es))) (g_tmp s) t'"
      "n = 1 \<and> (\<exists>e rs pre'. from_path a es = e # rs \<and> pathof e = a \<and> s_e q = cf_read (srch_clear (g_cf s)) e \<and>
        cf_at (s_v q) pre' (map contents_line rs) cs jk) \<or>
     n = 2 \<and> (\<forall>e \<in> set (from_path a es). a < pathof e) \<and> (\<exists>pre'. cf_at (s_v q) pre' (map contents_line (from_path a es)) cs jk) \<or>
     n = 0 \<and> from_path a es = []"
      by (rule search_outcome [OF cf db(2-4) x(3,4) t n(2), where junk = junk and ept = "g_cf s"])
    define s1 where "s1 = s\<lparr>g_map := s_v q, g_tmp := t', g_cf := s_e q\<rparr>"
    have m1: "moved (concat (map contents_line (before a es))) s s1" "vfp_ok (g_tmp s1)"
      using q(3) by (simp_all add: moved_def s1_def later_def appended_def)
    have sub: "ents_ok (from_path a es)" "length (from_path a es) \<le> length es"
      using ents_ok_drop [OF db(2)] before_from(4) [of a es] by (metis, metis length_drop diff_le_self)
    consider (like) e rs pre' where "n = 1" "from_path a es = e # rs" "pathof e = a" "s_e q = cf_read (srch_clear (g_cf s)) e"
        "cf_at (s_v q) pre' (map contents_line rs) cs jk"
      | (new) pre' where "n \<noteq> 1" "0 \<le> n" "\<forall>e \<in> set (from_path a es). a < pathof e" "n \<noteq> 0 \<Longrightarrow> cf_at (s_v q) pre' (map contents_line (from_path a es)) cs jk"
          "n = 0 \<Longrightarrow> from_path a es = []"
      using q(4) by fastforce
    then show ?thesis
    proof cases
      case like
      then have e: "cf_ent_ok e" "ents_ok rs" using sub(1) by (simp_all add: ents_ok_def)
      have "ftype e \<in> set ''?fvelspcbdx''" using e(1) unfolding cf_ent_ok_def by blast
      then have c: "path (g_cf s1) = Some a" "ftype (g_cf s1) \<noteq> CHR ''i''" "others ?p (g_cf s1) = others ?p e"
        using ent_path [OF e(1)] like(3,4) by (auto simp: s1_def others_def)
      obtain s' e' where s': "merg_like env x s1 = MOk s'" "handled (contents_line e') s1 s'" "merged_ent ?p (others ?p e) a e'"
        using merg_like_ok [OF env x(1,2) _ c(1,2) m1(2)] n(1) c(3) by (auto simp: s1_def)
      have "merg_search fuel junk env (Some x) s = Some (MOk (Inr s'))"
        using merg_search_back [of fuel junk s x n q t' env] q(1,2) x(2) False like(1) s'(1) by (simp add: s1_def Let_def)
      moreover have "moved (concat (map contents_line (before a es @ [e']))) s s'"
        using moved_trans [OF m1(1), of "contents_line e'"] s'(2) by (simp add: handled_def)
      moreover have "db_at s' rs cs" using s'(2) like(5) False by (auto simp: db_at_def handled_def s1_def)
      moreover have "merges ?p dr es (a # as) ((before a es @ [e']) @ out)" if "merges ?p dr rs as out" for as out
        using keep [of as "e' # out"] merges.like [OF like(3) s'(3) that] like(2) by simp
      ultimately show ?thesis using e(2) sub(2) like(2)
        by (intro exI [of _ s'] exI [of _ rs] exI [of _ "before a es @ [e']"]) (simp del: map_append concat_append append_assoc)
    next
      case new
      define s2 where "s2 = (if n = 0 then s1\<lparr>g_eocont := True\<rparr> else s1)"
      have "vfp_ok (g_tmp s2)" using m1(2) by (simp add: s2_def)
      then obtain s' zs where s': "merg_new env x s2 = MOk s'" "handled (concat (map contents_line zs)) s2 s'"
        "\<forall>es' as out. (\<forall>e \<in> set es'. a < pathof e) \<longrightarrow> merges ?p dr es' as out \<longrightarrow> merges ?p dr es' (a # as) (zs @ out)"
        using new_ok by blast
      have "merg_search fuel junk env (Some x) s = Some (MOk (Inr s'))"
        using merg_search_back [of fuel junk s x n q t' env] q(1,2) x(2) False new(1,2) s'(1)
        unfolding s2_def s1_def Let_def by (simp del: if_split)
      moreover have "moved (concat (map contents_line (before a es))) s s2" using m1(1) by (auto simp: moved_def s2_def later_def)
      then have "moved (concat (map contents_line (before a es @ zs))) s s'"
        using moved_trans s'(2) by (fastforce simp: handled_def)
      moreover have "db_at s' (from_path a es) cs" using s'(2) new(4,5) False by (auto simp: db_at_def handled_def s1_def s2_def)
      moreover have "merges ?p dr es (a # as) ((before a es @ zs) @ out)" if "merges ?p dr (from_path a es) as out" for as out
        using keep [of as "zs @ out"] s'(3) new(3) that by simp
      ultimately show ?thesis using sub
        by (intro exI [of _ s'] exI [of _ "from_path a es"] exI [of _ "before a es @ zs"]) (simp del: map_append concat_append append_assoc)
    qed
  qed
qed

section \<open>The whole merge\<close>

lemma merg_last_round:
  assumes db: "db_at s es cs" "ents_ok es" "\<forall>c \<in> set cs. comment_ok c"
    and t: "vfp_ok (g_tmp s)" "vHighWater (g_tmp s) \<le> vEnd (g_tmp s)"
    and n: "g_num s = length (g_ext s)" "\<not> g_eoext s"
  shows "\<exists>m s' c. merg_loop (Suc k) fuel junk env s = Some (MOk (m, s')) \<and> g_changed s \<le> m \<and>
    appended (concat (map contents_line es) @ c) (g_tmp s) (g_tmp s') \<and> (c = [] \<or> c = concat cs)"
proof (cases "g_eocont s")
  case True
  then have "es = []" using db(1) by (simp add: db_at_def)
  then show ?thesis using True n t by (auto simp: merg_round_def merg_search_def Let_def intro: exI [of _ "[]"])
next
  case False
  obtain pre jk where cf: "cf_at (g_map s) pre (map contents_line es) cs jk" using db(1) False by (auto simp: db_at_def)
  obtain q t' c where q: "srchcfile fuel junk (g_cf s) None (g_map s) (Some (g_tmp s)) = Some (Inr (Back 0 None q))" "s_tmp q = Some t'"
    "appended (concat (map contents_line es) @ c) (g_tmp s) t'" "c = concat cs \<or> c = []"
    using search_rest [OF cf ents_lines(1) [OF db(2,3)] t, of fuel junk "g_cf s"] by blast
  have "merg_round fuel junk env s = Some (MOk (Inr ((s\<lparr>g_eoext := True\<rparr>)\<lparr>g_map := s_v q, g_tmp := t', g_cf := s_e q, g_eocont := True\<rparr>)))"
    using False n q(1,2) by (simp add: merg_round_def merg_search_def Let_def)
  then show ?thesis using q(3,4) n by (auto simp: Let_def)
qed

definition skipped :: "cfextra \<Rightarrow> cfextra list \<Rightarrow> bool" where
  "skipped x xs \<longleftrightarrow> ftype (x_ent x) \<in> set ''in'' \<or> (\<exists>y r. xs = y # r \<and> path (x_ent x) = path (x_ent y))"

lemma todo_step:
  "todo (map x_ent (x # xs)) = (if skipped x xs then todo (map x_ent xs) else pathof (x_ent x) # todo (map x_ent xs))"
  by (cases xs) (auto simp: skipped_def)

lemma round_skips:
  assumes "drop (g_num s) (g_ext s) = x # xs" "skipped x xs" "\<not> g_eoext s"
  shows "merg_round fuel junk env s = Some (MOk (Inr s))"
  using prepare_skips [OF assms(1), of env] assms(2,3) drop_ConsD [OF assms(1)] by (simp add: merg_round_def skipped_def)

lemma round_merges:
  assumes env: "env_fits env" and cs: "\<forall>c \<in> set cs. comment_ok c" "cs \<noteq> []"
    and d: "drop (g_num s) (g_ext s) = x # xs" "\<not> skipped x xs" "map_ok x" "\<not> g_eoext s"
    and db: "db_at s es cs" "ents_ok es" and t: "vfp_ok (g_tmp s)" "vHighWater (g_tmp s) \<le> vEnd (g_tmp s)"
    and fuel: "length es + length cs < fuel" and dr: "may_drop env x \<longrightarrow> dr (pathof (x_ent x))"
  shows "\<exists>s' es' w. merg_round fuel junk env s = Some (MOk (Inr s')) \<and> moved (concat (map contents_line w)) s s' \<and>
    alikes xs (later s') \<and> db_at s' es' cs \<and> ents_ok es' \<and> length es' \<le> length es \<and>
    (\<forall>as out. merges (m_pkginst env) dr es' as out \<longrightarrow> merges (m_pkginst env) dr es (pathof (x_ent x) # as) (w @ out))"
proof -
  have num: "g_num s < length (g_ext s)" using drop_ConsD [OF d(1)] by simp
  obtain a where a: "ext_ok x" "path (x_ent x) = Some a" "deref a = SLASH" "NUL \<notin> set a" "pathof (x_ent x) = a"
    using d(2,3) by (auto simp: map_ok_def skipped_def pathof_def)
  obtain x' s1 where p: "merg_prepare env s = Some (x', s1)" "ext_ok x'" "path (x_ent x') = Some a" "handled [] s s1" "later s1 = xs"
    "may_drop env x' = may_drop env x"
    using prepare_keeps [OF d(1) a(1) d(2) [unfolded skipped_def] t(1), of env] a(2) by auto
  have s1: "g_num s1 = g_num s" "length (g_ext s1) = length (g_ext s)" "db_at s1 es cs" "vfp_ok (g_tmp s1)" "vHighWater (g_tmp s1) \<le> vEnd (g_tmp s1)"
    using p(4) db(1) t(2) by (auto simp: handled_def moved_def db_at_def appended_def)
  obtain s2 es' w where s2: "merg_search fuel junk env (Some x') s1 = Some (MOk (Inr s2))" "moved (concat (map contents_line w)) s1 s2"
    "db_at s2 es' cs" "ents_ok es'" "length es' \<le> length es"
    "\<forall>as out. merges (m_pkginst env) dr es' as out \<longrightarrow> merges (m_pkginst env) dr es (a # as) (w @ out)"
    using merg_search_step [OF env p(2,3) a(3,4) s1(3) db(2) cs s1(4,5) _ fuel, of dr junk] s1(1,2) num dr p(6) a(5) by auto
  have "merg_round fuel junk env s = Some (MOk (Inr s2))" using p(1) s2(1) num d(4) by (simp add: merg_round_def)
  moreover have "moved (concat (map contents_line w)) s s2" using moved_trans [of "[]" s s1] p(4) s2(2) by (simp add: handled_def)
  moreover have "alikes xs (later s2)" using s2(2) p(5) by (simp add: moved_def)
  ultimately show ?thesis using s2(3-6) a(5) by blast
qed

lemma merg_loop_merges:
  assumes env: "env_fits env" and cs: "\<forall>c \<in> set cs. comment_ok c" "cs \<noteq> []"
  shows "drop (g_num s) (g_ext s) = xs \<Longrightarrow> length xs = k \<Longrightarrow> g_num s \<le> length (g_ext s) \<Longrightarrow> \<forall>x \<in> set xs. map_ok x \<Longrightarrow> \<not> g_eoext s \<Longrightarrow>
    db_at s es cs \<Longrightarrow> ents_ok es \<Longrightarrow> vfp_ok (g_tmp s) \<Longrightarrow> vHighWater (g_tmp s) \<le> vEnd (g_tmp s) \<Longrightarrow>
    length es + length cs < fuel \<Longrightarrow> \<forall>x \<in> set xs. may_drop env x \<longrightarrow> dr (pathof (x_ent x)) \<Longrightarrow>
    \<exists>m s' out c. merg_loop (Suc (k + n)) fuel junk env s = Some (MOk (m, s')) \<and> g_changed s \<le> m \<and>
      merges (m_pkginst env) dr es (todo (map x_ent xs)) out \<and>
      appended (concat (map contents_line out) @ c) (g_tmp s) (g_tmp s') \<and> (c = [] \<or> c = concat cs)"
proof (induction k arbitrary: xs s es)
  case 0
  have "g_num s = length (g_ext s)" using 0(1-3) by simp
  from merg_last_round [OF 0(6,7) cs(1) 0(8,9) this 0(5), of n fuel junk env]
  obtain m s' c where "merg_loop (Suc n) fuel junk env s = Some (MOk (m, s'))" "g_changed s \<le> m"
    "appended (concat (map contents_line es) @ c) (g_tmp s) (g_tmp s')" "c = [] \<or> c = concat cs" by blast
  then show ?case using 0(2) by (intro exI [of _ m] exI [of _ s'] exI [of _ es] exI [of _ c]) (simp add: merges.rest)
next
  case (Suc k)
  obtain x ys where xs: "xs = x # ys" "length ys = k" using Suc.prems(2) by (cases xs) auto
  note d = Suc.prems(1) [unfolded xs(1)]
  have num: "g_num s < length (g_ext s)" "drop (Suc (g_num s)) (g_ext s) = ys" using drop_ConsD [OF d] by simp_all
  have go: "merg_loop (Suc (Suc k + n)) fuel junk env s = merg_loop (Suc (k + n)) fuel junk env (s1\<lparr>g_num := Suc (g_num s1)\<rparr>)"
    if "merg_round fuel junk env s = Some (MOk (Inr s1))" "\<not> g_eoext s1" for s1
    using that by (simp add: Let_def)
  show ?case
  proof (cases "skipped x ys")
    case True
    have "\<exists>m s' out c. merg_loop (Suc (k + n)) fuel junk env (s\<lparr>g_num := Suc (g_num s)\<rparr>) = Some (MOk (m, s')) \<and>
      g_changed (s\<lparr>g_num := Suc (g_num s)\<rparr>) \<le> m \<and> merges (m_pkginst env) dr es (todo (map x_ent ys)) out \<and>
      appended (concat (map contents_line out) @ c) (g_tmp (s\<lparr>g_num := Suc (g_num s)\<rparr>)) (g_tmp s') \<and> (c = [] \<or> c = concat cs)"
      using Suc.prems num xs by (intro Suc.IH) (simp_all add: db_at_def)
    then show ?thesis using go [OF round_skips [OF d True Suc.prems(5)] Suc.prems(5)] True by (simp add: xs(1) todo_step del: merg_loop.simps list.map)
  next
    case False
    have mx: "map_ok x" "may_drop env x \<longrightarrow> dr (pathof (x_ent x))" using Suc.prems(4,11) xs(1) by simp_all
    obtain s2 es' w where s2: "merg_round fuel junk env s = Some (MOk (Inr s2))" "moved (concat (map contents_line w)) s s2"
      "alikes ys (later s2)" "db_at s2 es' cs" "ents_ok es'" "length es' \<le> length es"
      "\<forall>as out. merges (m_pkginst env) dr es' as out \<longrightarrow> merges (m_pkginst env) dr es (pathof (x_ent x) # as) (w @ out)"
      using round_merges [where dr = dr, OF env cs d False mx(1) Suc.prems(5-10) mx(2), of junk] by blast
    define s3 where "s3 = s2\<lparr>g_num := Suc (g_num s2)\<rparr>"
    have s3: "drop (g_num s3) (g_ext s3) = later s2" "g_num s3 \<le> length (g_ext s3)" "\<not> g_eoext s3" "db_at s3 es' cs"
      "vfp_ok (g_tmp s3)" "vHighWater (g_tmp s3) \<le> vEnd (g_tmp s3)" "g_changed s \<le> g_changed s3" "\<not> g_eoext s2"
      using s2(2,4) num(1) Suc.prems(5,9) by (auto simp: s3_def later_def moved_def db_at_def appended_def)
    have lx: "length (later s2) = k" "\<forall>y \<in> set (later s2). map_ok y" "map x_ent (later s2) = map x_ent ys"
      using s2(3) alikes_map_ok [OF s2(3)] alikes_ents [OF s2(3)] Suc.prems(4) xs by (auto simp: alikes_def list_all2_lengthD)
    have "length es' + length cs < fuel" using s2(6) Suc.prems(10) by simp
    moreover have "\<forall>y \<in> set (later s2). may_drop env y \<longrightarrow> dr (pathof (x_ent y))"
      by (rule alikes_drop [OF s2(3)]) (use Suc.prems(11) xs(1) in simp)
    ultimately obtain m s' out c where r: "merg_loop (Suc (k + n)) fuel junk env s3 = Some (MOk (m, s'))" "g_changed s3 \<le> m"
      "merges (m_pkginst env) dr es' (todo (map x_ent (later s2))) out"
      "appended (concat (map contents_line out) @ c) (g_tmp s3) (g_tmp s')" "c = [] \<or> c = concat cs"
      using Suc.IH [OF s3(1) lx(1) s3(2) lx(2) s3(3,4) s2(5) s3(5,6)] by blast
    have "appended (concat (map contents_line (w @ out)) @ c) (g_tmp s) (g_tmp s')"
      using appended_trans [OF _ r(4), of "concat (map contents_line w)" "g_tmp s"] s2(2) by (simp add: moved_def s3_def)
    moreover have "merges (m_pkginst env) dr es (todo (map x_ent xs)) (w @ out)" using s2(7) r(3) lx(3) False by (simp add: xs(1) todo_step del: list.map)
    moreover have "merg_loop (Suc (Suc k + n)) fuel junk env s = Some (MOk (m, s'))" using go [OF s2(1) s3(8)] r(1) by (simp add: s3_def)
    moreover have "g_changed s \<le> m" using r(2) s3(7) by simp
    ultimately show ?thesis using r(5) by blast
  qed
qed

section \<open>Properties of the merge\<close>

text \<open>
  A database in memory with the entries \<open>es\<close> and the comments \<open>cs\<close> behind them, a new one with its bounds
  in order, and a map of absolute paths.
\<close>

definition merge_input :: "'fs menv \<Rightarrow> vfp \<Rightarrow> vfp \<Rightarrow> cfextra list \<Rightarrow> cfent list \<Rightarrow> string list \<Rightarrow> bool" where
  "merge_input env mapvfp tmpvfp ext es cs \<longleftrightarrow> env_fits env \<and> (\<forall>x \<in> set ext. map_ok x) \<and>
     (\<exists>jk. cf_at (vfpRewind mapvfp) [] (map contents_line es) cs jk) \<and> ents_ok es \<and> (\<forall>c \<in> set cs. comment_ok c) \<and> cs \<noteq> [] \<and>
     vfp_ok (vfpRewind tmpvfp) \<and> vHighWater (vfpRewind tmpvfp) \<le> vEnd (vfpRewind tmpvfp)"

text \<open>A path of the map for which nothing may be written.\<close>

definition may_drop_path :: "'fs menv \<Rightarrow> cfextra list \<Rightarrow> string \<Rightarrow> bool" where
  "may_drop_path env ext a \<longleftrightarrow> (\<exists>x \<in> set ext. pathof (x_ent x) = a \<and> may_drop env x)"

lemma pkgdbmerg_core:
  assumes "merge_input env mapvfp tmpvfp ext es cs" "length ext < n" "length es + length cs < fuel"
  shows "\<exists>m s out c. pkgdbmerg n fuel junk env mapvfp tmpvfp ext cl cf fs = Some (MOk (m, s)) \<and> 0 \<le> m \<and>
     merges (m_pkginst env) (may_drop_path env ext) es (todo (map x_ent ext)) out \<and>
     (vfp_room (g_tmp s) \<longrightarrow> vfp_text (g_tmp s) = concat (map contents_line out) @ c) \<and> (c = [] \<or> c = concat cs)"
proof -
  have a: "env_fits env" "\<forall>x \<in> set ext. map_ok x" "ents_ok es" "\<forall>c \<in> set cs. comment_ok c" "cs \<noteq> []"
    "vfp_ok (vfpRewind tmpvfp)" "vHighWater (vfpRewind tmpvfp) \<le> vEnd (vfpRewind tmpvfp)"
    using assms(1) by (simp_all add: merge_input_def)
  obtain k where k: "n = Suc (length ext + k)" using assms(2) by (metis less_imp_Suc_add)
  define s where "s = \<lparr>g_map = vfpRewind mapvfp, g_tmp = vfpRewind tmpvfp, g_ext = ext, g_num = 0, g_eocont = False, g_eoext = False,
        g_changed = 0, g_installed = 0, g_ok = False, g_cl = cl, g_cf = cf\<lparr>pinfo := []\<rparr>, g_fs = fs\<rparr>"
  have db: "db_at s es cs" using assms(1) by (auto simp: s_def db_at_def merge_input_def)
  have tx: "vfp_text (vfpRewind tmpvfp) = []" by (simp add: vfp_text_def vfpRewind_def Let_def)
  have f: "drop (g_num s) (g_ext s) = ext" "g_num s \<le> length (g_ext s)" "\<not> g_eoext s" "vfp_ok (g_tmp s)" "vHighWater (g_tmp s) \<le> vEnd (g_tmp s)"
    "g_tmp s = vfpRewind tmpvfp" "g_changed s = 0" using a by (simp_all add: s_def)
  have pk: "pkgdbmerg n fuel junk env mapvfp tmpvfp ext cl cf fs = merg_loop n fuel junk env s" by (simp add: pkgdbmerg_def s_def)
  have dp: "\<forall>x \<in> set ext. may_drop env x \<longrightarrow> may_drop_path env ext (pathof (x_ent x))" by (auto simp: may_drop_path_def)
  obtain m s' out c where r: "merg_loop n fuel junk env s = Some (MOk (m, s'))" "g_changed s \<le> m" "merges (m_pkginst env) (may_drop_path env ext) es (todo (map x_ent ext)) out"
    "appended (concat (map contents_line out) @ c) (g_tmp s) (g_tmp s')" "c = [] \<or> c = concat cs"
    using merg_loop_merges [where dr = "may_drop_path env ext", OF a(1,4,5) f(1) refl f(2) a(2) f(3) db a(3) f(4,5) assms(3) dp, of k junk] unfolding k by blast
  have "vfp_room (g_tmp s') \<longrightarrow> vfp_text (g_tmp s') = concat (map contents_line out) @ c" "0 \<le> m"
    using r(2,4) tx f(6,7) by (simp_all add: appended_def)
  then show ?thesis using r(1,3,5) unfolding pk by blast
qed

end
