(* ===== verification/Mergeprops.thy ===== *)
theory Mergeprops
  imports Mergedb
begin

text \<open>
  Properties of the merge of a package map into the contents database.
\<close>

section \<open>What a merge keeps\<close>

lemma merges_paths: "merges p dr es as out \<Longrightarrow> pathof ` set out \<subseteq> pathof ` set es \<union> set as"
  by (induction rule: merges.induct) (auto simp: merged_ent_def pathof_def)

lemma merges_sorted:
  "merges p dr es as out \<Longrightarrow> sorted_wrt (<) (map pathof es) \<Longrightarrow> sorted_wrt (<) as \<Longrightarrow> sorted_wrt (<) (map pathof out)"
proof (induction rule: merges.induct)
  case (keep e a es as out)
  then have "\<forall>b \<in> pathof ` set es \<union> set (a # as). pathof e < b" by auto
  then show ?case using keep merges_paths [OF keep(2)] by auto
next
  case (like e a e' es as out)
  then have "\<forall>b \<in> pathof ` set es \<union> set as. a < b" by auto
  then show ?case using like merges_paths [OF like(3)] by (auto simp: merged_ent_def pathof_def)
next
  case (new es a e' as out)
  then have "\<forall>b \<in> pathof ` set es \<union> set as. a < b" by auto
  then show ?case using new merges_paths [OF new(3)] by (auto simp: merged_ent_def pathof_def)
qed auto

lemma filter_more: "filter P xs = filter P ys \<Longrightarrow> (\<And>x. Q x \<Longrightarrow> P x) \<Longrightarrow> filter Q xs = filter Q ys"
  by (metis (mono_tags, lifting) filter_cong filter_filter)

lemma merges_untouched:
  "merges p dr es as out \<Longrightarrow> filter (\<lambda>e. pathof e \<notin> set as) out = filter (\<lambda>e. pathof e \<notin> set as) es"
proof (induction rule: merges.induct)
  case (like e a e' es as out)
  then show ?case using filter_more [OF like(4), of "\<lambda>e. pathof e \<notin> set (a # as)"] by (auto simp: merged_ent_def pathof_def)
next
  case (new es a e' as out)
  then show ?case using filter_more [OF new(4), of "\<lambda>e. pathof e \<notin> set (a # as)"] by (auto simp: merged_ent_def pathof_def)
next
  case (none a es as out)
  then show ?case using filter_more [OF none(4), of "\<lambda>e. pathof e \<notin> set (a # as)"] by auto
qed auto

lemma merges_lookup: "merges p dr es as out \<Longrightarrow> e \<in> set es \<Longrightarrow> \<exists>e' \<in> set out. pathof e' = pathof e \<and> others p e' = others p e"
  by (induction arbitrary: e rule: merges.induct) (fastforce simp: merged_ent_def pathof_def)+

lemma merges_behind:
  "merges p dr es as out \<Longrightarrow> \<forall>e \<in> set es. a < pathof e \<Longrightarrow> \<forall>b \<in> set as. a < b \<Longrightarrow> e \<in> set out \<Longrightarrow> a < pathof e"
  using merges_paths [of p dr es as out] by auto

lemma merges_owned:
  "merges p dr es as out \<Longrightarrow> sorted_wrt (<) (map pathof es) \<Longrightarrow> sorted_wrt (<) as \<Longrightarrow>
     e \<in> set out \<Longrightarrow> pathof e \<in> set as \<Longrightarrow> p \<in> pkg ` set (pinfo e)"
proof (induction rule: merges.induct)
  case (keep e0 a es as out)
  then show ?case by (auto dest: less_trans)
next
  case (like e0 a e' es as out)
  then have "e \<in> set out \<Longrightarrow> a < pathof e" using merges_behind [OF like(3)] by auto
  then show ?case using like by (auto simp: merged_ent_def)
next
  case (new es a e' as out)
  then have "e \<in> set out \<Longrightarrow> a < pathof e" using merges_behind [OF new(3)] by auto
  then show ?case using new by (auto simp: merged_ent_def)
next
  case (none a es as out)
  then have "a < pathof e" using merges_behind [OF none(3)] by auto
  then show ?case using none by auto
qed auto

lemma merges_complete: "merges p dr es as out \<Longrightarrow> a \<in> set as \<Longrightarrow> dr a \<longrightarrow> a \<in> pathof ` set es \<Longrightarrow> a \<in> pathof ` set out"
proof (induction rule: merges.induct)
  case (like e b e' es as out)
  then show ?case by (cases "a = b") (auto simp: merged_ent_def pathof_def)
next
  case (new es b e' as out)
  then show ?case by (cases "a = b") (auto simp: merged_ent_def pathof_def)
qed auto

text \<open>
  C5. The merge refines its specification: with names that fit their arrays, a database whose entries are
  sorted by path and followed by a comment, and a map of absolute paths, \<open>pkgdbmerg\<close> runs without a fault, an
  error or a call of \<open>quit\<close>, one round for each entry of the map and one more is enough, and the new database
  is that of an abstract merge of the entries with the paths of the map, as long as it fits; the old comments
  follow, or were dropped. Only a path that is new and is to be removed, or that conflicts when conflicting objects are
  not to be installed, may be left out.
\<close>

theorem pkgdbmerg_refines:
  assumes "merge_input env mapvfp tmpvfp ext es cs" "length ext < n" "length es + length cs < fuel"
  shows "\<exists>m s out c. pkgdbmerg n fuel junk env mapvfp tmpvfp ext cl cf fs = Some (MOk (m, s)) \<and> 0 \<le> m \<and>
     merges (m_pkginst env) (may_drop_path env ext) es (todo (map x_ent ext)) out \<and>
     (vfp_room (g_tmp s) \<longrightarrow> vfp_text (g_tmp s) = concat (map contents_line out) @ c) \<and> (c = [] \<or> c = concat cs)"
  by (rule pkgdbmerg_core [OF assms])

text \<open>
  C4. The merge keeps the database: when the paths of the map are sorted too, the entries of the new database
  are strictly sorted by path; the entries whose paths are not in the map are those of the old
  database, in their order and unchanged; every path of the old database is still there with its other
  packages; every entry with a path of the map names the package at hand; and for every path of the map there is
  such an entry, unless the database had none and the map asks for a removal (an object of type \<open>-\<close>), or
  conflicting files are not to be installed (\<open>nocnflct\<close>) and the object is a shared one or is already on the disk.
\<close>

theorem pkgdbmerg_keeps_database:
  assumes "merge_input env mapvfp tmpvfp ext es cs" "length ext < n" "length es + length cs < fuel"
    "sorted_wrt (<) (todo (map x_ent ext))"
  shows "\<exists>m s out c. pkgdbmerg n fuel junk env mapvfp tmpvfp ext cl cf fs = Some (MOk (m, s)) \<and>
     (vfp_room (g_tmp s) \<longrightarrow> vfp_text (g_tmp s) = concat (map contents_line out) @ c) \<and> (c = [] \<or> c = concat cs) \<and>
     sorted_wrt (<) (map pathof out) \<and>
     filter (\<lambda>e. pathof e \<notin> set (todo (map x_ent ext))) out = filter (\<lambda>e. pathof e \<notin> set (todo (map x_ent ext))) es \<and>
     (\<forall>e \<in> set es. \<exists>e' \<in> set out. pathof e' = pathof e \<and> others (m_pkginst env) e' = others (m_pkginst env) e) \<and>
     (\<forall>e \<in> set out. pathof e \<in> set (todo (map x_ent ext)) \<longrightarrow> m_pkginst env \<in> pkg ` set (pinfo e)) \<and>
     (\<forall>a \<in> set (todo (map x_ent ext)). a \<in> pathof ` set es \<or> \<not> may_drop_path env ext a \<longrightarrow>
       (\<exists>e \<in> set out. pathof e = a \<and> m_pkginst env \<in> pkg ` set (pinfo e)))"
proof -
  obtain m s out c where r: "pkgdbmerg n fuel junk env mapvfp tmpvfp ext cl cf fs = Some (MOk (m, s))"
     "merges (m_pkginst env) (may_drop_path env ext) es (todo (map x_ent ext)) out"
     "vfp_room (g_tmp s) \<longrightarrow> vfp_text (g_tmp s) = concat (map contents_line out) @ c" "c = [] \<or> c = concat cs"
    using pkgdbmerg_core [OF assms(1-3)] by blast
  have so: "sorted_wrt (<) (map pathof es)" using assms(1) by (simp add: merge_input_def ents_ok_def sorted_wrt_map)
  note ow = merges_owned [OF r(2) so assms(4)]
  have "\<forall>a \<in> set (todo (map x_ent ext)). a \<in> pathof ` set es \<or> \<not> may_drop_path env ext a \<longrightarrow>
      (\<exists>e \<in> set out. pathof e = a \<and> m_pkginst env \<in> pkg ` set (pinfo e))"
    using merges_complete [OF r(2)] ow by fastforce
  then show ?thesis
    using r(1,3,4) merges_sorted [OF r(2) so assms(4)] merges_untouched [OF r(2)] merges_lookup [OF r(2)] ow
    by (intro exI [of _ m] exI [of _ s] exI [of _ out] exI [of _ c]) blast
qed

section \<open>Examples\<close>

definition demo_env :: "unit menv" where
  "demo_env = \<lparr>m_sys = demo_sys [], m_vs = vset0, m_addr = 0, m_status = demo_stat, m_pkginst = ''SUNWzsh'', m_nosetuid = False,
     m_nocnflct = False, m_dbst = NUL, m_served = (\<lambda>_ v. (False, v)), m_inherited = (\<lambda>_ _. False)\<rparr>"

definition demo_ext :: "cfextra list" where
  "demo_ext = map (\<lambda>p. \<lparr>x_ent = sample_ent\<lparr>path := Some p, pinfo := []\<rparr>, x_mstat = mergstat0, fsys_value = 0, fsys_base = 0,
     client_path = Some p, server_path = p, map_path = None, client_local = None, server_local = None\<rparr>) [''/bin/zsh'', ''/etc/x'']"

lemma demo_input: "merge_input demo_env (sample_db sample_note) sample_tmp demo_ext sample_ents sample_note"
proof -
  have "cf_search (sample_db sample_note) [] (map contents_line sample_ents) sample_note [] ''/''" by (rule sample_search) simp_all
  then have cf: "cf_at (sample_db sample_note) [] (map contents_line sample_ents) sample_note []" "cf_sorted (map contents_line sample_ents)"
    "\<forall>c \<in> set sample_note. comment_ok c" by (simp_all add: cf_search_def lines_ok_def)
  have "vfpRewind (sample_db sample_note) = sample_db sample_note"
    by (simp add: vfpRewind_def sample_db_def Let_def vfp0_def sample_note_def cf_mem_def)
  moreover have "ents_ok sample_ents" using sample_ents_ok by (simp add: ents_ok_def sample_ents_def pathof_def sample_ent_def less_char_def)
  moreover have "env_fits demo_env" by (simp add: env_fits_def demo_env_def sys_fits_def demo_sys_def PKGSIZ_def ATRSIZ_def status_defs)
  moreover have "\<forall>x \<in> set demo_ext. map_ok x" by (simp add: demo_ext_def map_ok_def ext_ok_def sample_ent_def mergstat0_def)
  ultimately show ?thesis using cf sample_tmp_ok by (auto simp: merge_input_def vfpRewind_def Let_def vfp_ok_def sample_tmp_def vfp0_def sample_note_def)
qed

lemma demo_todo: "todo (map x_ent demo_ext) = [''/bin/zsh'', ''/etc/x'']"
  by (simp add: demo_ext_def sample_ent_def pathof_def)

theorem pkgdbmerg_refines_witness:
  "\<exists>m s out c. pkgdbmerg 3 4 [] demo_env (sample_db sample_note) sample_tmp demo_ext clstate0 sample_ent () = Some (MOk (m, s)) \<and> 0 \<le> m \<and>
     merges (m_pkginst demo_env) (may_drop_path demo_env demo_ext) sample_ents (todo (map x_ent demo_ext)) out \<and>
     (vfp_room (g_tmp s) \<longrightarrow> vfp_text (g_tmp s) = concat (map contents_line out) @ c) \<and> (c = [] \<or> c = concat sample_note)"
  by (rule pkgdbmerg_refines [OF demo_input]) (simp_all add: demo_ext_def sample_ents_def sample_note_def)

theorem pkgdbmerg_keeps_database_witness:
  "\<exists>m s out c. pkgdbmerg 3 4 [] demo_env (sample_db sample_note) sample_tmp demo_ext clstate0 sample_ent () = Some (MOk (m, s)) \<and>
     (vfp_room (g_tmp s) \<longrightarrow> vfp_text (g_tmp s) = concat (map contents_line out) @ c) \<and> (c = [] \<or> c = concat sample_note) \<and>
     sorted_wrt (<) (map pathof out) \<and>
     filter (\<lambda>e. pathof e \<notin> set (todo (map x_ent demo_ext))) out = filter (\<lambda>e. pathof e \<notin> set (todo (map x_ent demo_ext))) sample_ents \<and>
     (\<forall>e \<in> set sample_ents. \<exists>e' \<in> set out. pathof e' = pathof e \<and> others (m_pkginst demo_env) e' = others (m_pkginst demo_env) e) \<and>
     (\<forall>e \<in> set out. pathof e \<in> set (todo (map x_ent demo_ext)) \<longrightarrow> m_pkginst demo_env \<in> pkg ` set (pinfo e)) \<and>
     (\<exists>e \<in> set out. pathof e = ''/bin/zsh'' \<and> ''SUNWzsh'' \<in> pkg ` set (pinfo e)) \<and>
     (\<exists>e \<in> set out. pathof e = ''/etc/x'' \<and> ''SUNWzsh'' \<in> pkg ` set (pinfo e))"
proof -
  have "sorted_wrt (<) (todo (map x_ent demo_ext))" "length demo_ext < 3" "length sample_ents + length sample_note < 4"
    by (simp_all add: demo_todo less_char_def, simp_all add: demo_ext_def sample_ents_def sample_note_def)
  note r = pkgdbmerg_keeps_database [OF demo_input this(2,3,1), of "[]" clstate0 sample_ent "()"]
  have "\<not> may_drop_path demo_env demo_ext a" for a
    by (auto simp: may_drop_path_def may_drop_def demo_ext_def demo_env_def sample_ent_def RM_RDY_def)
  then have there: "\<exists>e \<in> set out. pathof e = a \<and> ''SUNWzsh'' \<in> pkg ` set (pinfo e)"
    if "\<forall>a \<in> set (todo (map x_ent demo_ext)). a \<in> pathof ` set sample_ents \<or> \<not> may_drop_path demo_env demo_ext a \<longrightarrow>
       (\<exists>e \<in> set out. pathof e = a \<and> m_pkginst demo_env \<in> pkg ` set (pinfo e))" "a = ''/bin/zsh'' \<or> a = ''/etc/x''" for out a
    using that(1) [rule_format, of a] that(2) demo_todo by (auto simp: demo_env_def)
  show ?thesis using r by (elim exE conjE, intro exI conjI) (assumption | rule there, assumption, simp)+
qed

section \<open>Classes\<close>

text \<open>The class of an object for a package: its own class, or that of the entry.\<close>

definition class_for :: "cfent \<Rightarrow> pinfo \<Rightarrow> string" where
  "class_for e p = (if aclass p \<noteq> [] then aclass p else pkg_class e)"

lemma chgclass_class:
  assumes "k < length (pinfo e)" "aclass (pinfo e ! k) \<noteq> []" "length (aclass (pinfo e ! k)) \<le> CLSSIZ" "pkg_class e \<noteq> []"
  shows "map (class_for (chgclass e k)) (pinfo (chgclass e k)) = map (class_for e) (pinfo e)"
  using assms by (auto simp: chgclass_def Let_def strlcpy_def class_for_def)

text \<open>
  C32. A package that gives an object another class changes the class for itself only: after the merge of the class the
  object has its new class for the package at hand and the class it had for every other package, whichever of
  the classes the entry then names.
\<close>

theorem merg_class_keeps:
  assumes "pinfo (x_ent x) = pinfo cf" "k < length (pinfo cf)" "pkg_class cf \<noteq> pkg_class (x_ent x)" "pkg_class cf \<noteq> ''?''" "pkg_class cf \<noteq> []"
    "pkg_class (x_ent x) \<noteq> []" "length (pkg_class (x_ent x)) \<le> CLSSIZ"
  shows "map (class_for (x_ent (fst (merg_class k cf (x, ch))))) (pinfo (x_ent (fst (merg_class k cf (x, ch))))) =
    (map (class_for cf) (pinfo cf))[k := pkg_class (x_ent x)]"
proof -
  let ?e = "(x_ent x)\<lparr>pinfo := (pinfo cf)[k := (pinfo cf ! k)\<lparr>aclass := pkg_class (x_ent x)\<rparr>], pkg_class := pkg_class cf\<rparr>"
  have "map (class_for (chgclass ?e k)) (pinfo (chgclass ?e k)) = map (class_for ?e) (pinfo ?e)"
    using assms by (intro chgclass_class) simp_all
  also have "\<dots> = (map (class_for cf) (pinfo cf))[k := pkg_class (x_ent x)]"
    using assms(2,6) by (intro nth_equalityI) (auto simp: class_for_def nth_list_update)
  finally show ?thesis using assms(1,3,4) by (simp add: merg_class_def Let_def)
qed

definition demo_build :: cfextra where
  "demo_build = (hd demo_ext)\<lparr>x_ent := shared_ent\<lparr>pkg_class := ''build''\<rparr>\<rparr>"

theorem merg_class_keeps_witness:
  "map (class_for (x_ent (fst (merg_class 1 shared_ent (demo_build, False))))) (pinfo (x_ent (fst (merg_class 1 shared_ent (demo_build, False))))) =
     [''none'', ''build'']"
proof -
  have "map (class_for (x_ent (fst (merg_class 1 shared_ent (demo_build, False))))) (pinfo (x_ent (fst (merg_class 1 shared_ent (demo_build, False))))) =
     (map (class_for shared_ent) (pinfo shared_ent))[1 := pkg_class (x_ent demo_build)]"
    by (rule merg_class_keeps) (simp_all add: demo_build_def shared_ent_def CLSSIZ_def)
  then show ?thesis by (simp add: demo_build_def class_for_def shared_ent_def pinfo0_def)
qed

end
