(* ===== verification/Listmgr.thy ===== *)
theory Listmgr
  imports Prelude
begin

text \<open>
  The list manager \<open>libinst/listmgr.c\<close>: block lists, which hand out records from blocks of memory, and
  growable arrays of pointers to such records.

  A pointer is a block of memory and a byte offset; block 0 is the address 0, and \<open>Wild\<close> is the content
  of memory nobody has written. The heap has the pointer arrays as lists of cells of eight bytes and
  the records as values of any type, of which \<open>z\<close> is the one with all bytes zero. Each allocation takes
  its outcome from a list in the state, so that every failure of \<open>malloc\<close> is a run of the model. An
  array that \<open>free\<close> or \<open>realloc\<close> has released has no cells. Descriptions serve for messages only.

  The counts and sizes are \<open>int\<close> in the code. They are integers here whose every sum, difference and
  product goes through \<open>cint\<close>, so that one outside 32 bits is the fault \<open>IntOverflow\<close>; the distance of two
  pointers is stored in an \<open>int\<close> by \<open>to_int\<close>. Addresses and the indices of cells have 64 bits.
\<close>

section \<open>Memory\<close>

datatype ptr = Ptr nat int | Wild

abbreviation NULLP :: ptr where "NULLP \<equiv> Ptr 0 0"

datatype outcome = Fail | Fresh | InPlace

record alloc_seg =
  seg_ptr :: ptr
  avail_ptr :: ptr
  eoseg_ptr :: ptr
  seg_full :: bool

text \<open>
  The chain of segments is a list; \<open>cur_segment\<close> is its last element, to which both branches of
  \<open>alloc_next_seg\<close> set it.
\<close>

record blk_list_cs =
  struct_size :: int
  count_per_block :: int
  block_size :: int
  data_handle :: int
  alloc_segs :: "alloc_seg list"
  total_elem :: int
  contiguous :: bool

record 'a lm =
  bl_cs_array :: "blk_list_cs option list"
  next_array_elem :: nat
  cells :: "nat \<Rightarrow> ptr list"
  recs :: "ptr \<Rightarrow> 'a"
  next_block :: nat
  outcomes :: "outcome list"

definition MAX_ARRAYS :: nat where "MAX_ARRAYS = 50"
definition PTR_SIZE :: int where "PTR_SIZE = 8"

definition lm0 :: "'a \<Rightarrow> outcome list \<Rightarrow> 'a lm" where
  "lm0 z os = \<lparr>bl_cs_array = replicate MAX_ARRAYS None, next_array_elem = 0, cells = (\<lambda>_. []),
     recs = (\<lambda>_. z), next_block = 1, outcomes = os\<rparr>"

fun padd :: "ptr \<Rightarrow> int \<Rightarrow> ptr" where
  "padd (Ptr b i) n = Ptr b (i + n)"
| "padd Wild n = Wild"

fun ptr_diff :: "ptr \<Rightarrow> ptr \<Rightarrow> int res" where
  "ptr_diff (Ptr b i) (Ptr c j) = (if b = c then Inr (i - j) else Inl WildPtr)"
| "ptr_diff _ _ = Inl WildPtr"

definition next_outcome :: "'a lm \<Rightarrow> outcome \<times> 'a lm" where
  "next_outcome s = (case outcomes s of [] \<Rightarrow> (Fresh, s) | c # cs \<Rightarrow> (c, s\<lparr>outcomes := cs\<rparr>))"

text \<open>\<open>calloc\<close> of a block of records.\<close>

fun in_block :: "nat \<Rightarrow> ptr \<Rightarrow> bool" where
  "in_block b (Ptr c i) = (c = b)"
| "in_block b Wild = False"

definition calloc_recs :: "'a \<Rightarrow> 'a lm \<Rightarrow> ptr \<times> 'a lm" where
  "calloc_recs z s =
     (case next_outcome s of (c, s1) \<Rightarrow>
        if c = Fail then (NULLP, s1)
        else let b = next_block s1 in
          (Ptr b 0, s1\<lparr>next_block := Suc b, recs := (\<lambda>p. if in_block b p then z else recs s1 p)\<rparr>))"

text \<open>\<open>realloc\<close> of an array to \<open>n\<close> cells: in place, or as a new block with the old one released.\<close>

definition realloc_cells :: "ptr \<Rightarrow> nat \<Rightarrow> 'a lm \<Rightarrow> (ptr \<times> 'a lm) res" where
  "realloc_cells p n s =
     (case p of
        Wild \<Rightarrow> Inl WildPtr
      | Ptr b i \<Rightarrow>
          if i \<noteq> 0 then Inl WildPtr
          else (case next_outcome s of (c, s1) \<Rightarrow>
            let old = (if b = 0 then [] else cells s1 b);
                new = take n old @ replicate (n - length old) Wild in
            if c = Fail then Inr (NULLP, s1)
            else if c = InPlace \<and> b \<noteq> 0 then Inr (p, s1\<lparr>cells := (cells s1)(b := new)\<rparr>)
            else let f = next_block s1 in
              Inr (Ptr f 0, s1\<lparr>next_block := Suc f, cells := (cells s1)(b := [], f := new)\<rparr>)))"

definition cell_index :: "'a lm \<Rightarrow> ptr \<Rightarrow> (nat \<times> nat) res" where
  "cell_index s p =
     (case p of
        Wild \<Rightarrow> Inl WildPtr
      | Ptr b i \<Rightarrow>
          if b = 0 then Inl NullDeref
          else if 0 \<le> i \<and> i mod PTR_SIZE = 0 \<and> nat (i div PTR_SIZE) < length (cells s b)
            then Inr (b, nat (i div PTR_SIZE))
          else Inl BufOverrun)"

definition cell_get :: "'a lm \<Rightarrow> ptr \<Rightarrow> ptr res" where
  "cell_get s p = rbind (cell_index s p) (\<lambda>(b, i). Inr (cells s b ! i))"

definition cell_put :: "ptr \<Rightarrow> ptr \<Rightarrow> 'a lm \<Rightarrow> 'a lm res" where
  "cell_put p v s = rbind (cell_index s p) (\<lambda>(b, i). Inr (s\<lparr>cells := (cells s)(b := (cells s b)[i := v])\<rparr>))"

text \<open>\<open>memset\<close> of \<open>n\<close> bytes of an array, a huge number when \<open>n\<close> is negative, and of a record.\<close>

definition clear_cells :: "ptr \<Rightarrow> int \<Rightarrow> 'a lm \<Rightarrow> 'a lm res" where
  "clear_cells p n s =
     (case p of
        Wild \<Rightarrow> Inl WildPtr
      | Ptr b i \<Rightarrow>
          let c = cells s b; k = nat (i div PTR_SIZE); m = nat (n div PTR_SIZE) in
          if b = 0 then Inl NullDeref
          else if 0 \<le> i \<and> 0 \<le> n \<and> k + m \<le> length c
            then Inr (s\<lparr>cells := (cells s)(b := take k c @ replicate m NULLP @ drop (k + m) c)\<rparr>)
          else Inl BufOverrun)"

definition clear_rec :: "'a \<Rightarrow> ptr \<Rightarrow> 'a lm \<Rightarrow> 'a lm res" where
  "clear_rec z p s =
     (case p of
        Wild \<Rightarrow> Inl WildPtr
      | Ptr b i \<Rightarrow> if b = 0 then Inl NullDeref else Inr (s\<lparr>recs := (recs s)(p := z)\<rparr>))"

section \<open>Support functions\<close>

definition invalid_handle :: "'a lm \<Rightarrow> int \<Rightarrow> bool" where
  "invalid_handle s h \<longleftrightarrow> h < 0 \<or> h \<ge> int (next_array_elem s)"

definition list_cs :: "'a lm \<Rightarrow> int \<Rightarrow> blk_list_cs res" where
  "list_cs s h = (case bl_cs_array s ! nat h of None \<Rightarrow> Inl NullDeref | Some cs \<Rightarrow> Inr cs)"

definition put_cs :: "int \<Rightarrow> blk_list_cs \<Rightarrow> 'a lm \<Rightarrow> 'a lm" where
  "put_cs h cs s = s\<lparr>bl_cs_array := (bl_cs_array s)[nat h := Some cs]\<rparr>"

definition invalid_record :: "'a lm \<Rightarrow> int \<Rightarrow> int \<Rightarrow> bool res" where
  "invalid_record s h recno =
     (if invalid_handle s h then Inr True
      else rbind (list_cs s h) (\<lambda>cs. Inr (recno < 0 \<or> recno > total_elem cs)))"

definition seg_block :: "alloc_seg \<Rightarrow> nat" where
  "seg_block sg = (case seg_ptr sg of Ptr b i \<Rightarrow> b | Wild \<Rightarrow> 0)"

definition free_list :: "int \<Rightarrow> 'a lm \<Rightarrow> 'a lm" where
  "free_list h s =
     (case bl_cs_array s ! nat h of
        None \<Rightarrow> s
      | Some cs \<Rightarrow>
          s\<lparr>bl_cs_array := (bl_cs_array s)[nat h := None],
            cells := (\<lambda>b. if b \<in> set (map seg_block (alloc_segs cs)) then [] else cells s b)\<rparr>)"

text \<open>
  Whether memory was found, the control structure and the state. The size for \<open>realloc\<close> is converted
  to \<open>unsigned\<close>.
\<close>

definition alloc_contiguous :: "blk_list_cs \<Rightarrow> 'a lm \<Rightarrow> (bool \<times> blk_list_cs \<times> 'a lm) res" where
  "alloc_contiguous cs s =
     (case (if alloc_segs cs = [] then next_outcome s else (Fresh, s)) of (c, s1) \<Rightarrow>
        if c = Fail then Inr (False, cs, s1)
        else
          let seg = (if alloc_segs cs = []
                     then \<lparr>seg_ptr = NULLP, avail_ptr = NULLP, eoseg_ptr = NULLP, seg_full = False\<rparr>
                     else hd (alloc_segs cs)) in
          rbind (ptr_diff (avail_ptr seg) (seg_ptr seg)) (\<lambda>avail.
          rbind (ptr_diff (eoseg_ptr seg) (seg_ptr seg)) (\<lambda>eoseg.
          let offset_to_avail = to_int avail; seg_size = to_int eoseg in
          rbind (cint (seg_size + block_size cs)) (\<lambda>new_size.
          rbind (realloc_cells (seg_ptr seg) (nat ((new_size mod 4294967296) div PTR_SIZE)) s1) (\<lambda>(p, s2).
          if p = NULLP then Inr (False, cs\<lparr>alloc_segs := [seg\<lparr>seg_ptr := NULLP\<rparr>]\<rparr>, s2)
          else
            let seg1 = \<lparr>seg_ptr = p, avail_ptr = padd p offset_to_avail, eoseg_ptr = padd p new_size,
                        seg_full = False\<rparr> in
            rbind (clear_cells (avail_ptr seg1) (block_size cs) s2) (\<lambda>s3.
            Inr (True, cs\<lparr>alloc_segs := [seg1]\<rparr>, s3)))))))"

definition alloc_block :: "'a \<Rightarrow> blk_list_cs \<Rightarrow> 'a lm \<Rightarrow> bool \<times> blk_list_cs \<times> 'a lm" where
  "alloc_block z cs s =
     (case next_outcome s of (c, s1) \<Rightarrow>
        if c = Fail then (False, cs, s1)
        else (case calloc_recs z s1 of (p, s2) \<Rightarrow>
          if p = NULLP
            then (False, cs\<lparr>alloc_segs := alloc_segs cs @
                    [\<lparr>seg_ptr = NULLP, avail_ptr = Wild, eoseg_ptr = Wild, seg_full = False\<rparr>]\<rparr>, s2)
          else (True, cs\<lparr>alloc_segs := alloc_segs cs @
                  [\<lparr>seg_ptr = p, avail_ptr = p, eoseg_ptr = padd p (block_size cs), seg_full = False\<rparr>]\<rparr>,
                s2)))"

definition alloc_next_seg :: "'a \<Rightarrow> blk_list_cs \<Rightarrow> 'a lm \<Rightarrow> (bool \<times> blk_list_cs \<times> 'a lm) res" where
  "alloc_next_seg z cs s = (if contiguous cs then alloc_contiguous cs s else Inr (alloc_block z cs s))"

section \<open>Block lists\<close>

definition bl_create :: "int \<Rightarrow> int \<Rightarrow> 'a lm \<Rightarrow> (int \<times> 'a lm) res" where
  "bl_create cnt sz s =
     (case next_outcome s of (c, s1) \<Rightarrow>
        let n = next_array_elem s1 in
        if n \<ge> MAX_ARRAYS then Inl BufOverrun
        else if c = Fail then Inr (- 1, s1\<lparr>bl_cs_array := (bl_cs_array s1)[n := None]\<rparr>)
        else rbind (cint (cnt * sz)) (\<lambda>bytes.
          Inr (int n, s1\<lparr>next_array_elem := Suc n,
            bl_cs_array := (bl_cs_array s1)[n := Some \<lparr>struct_size = sz, count_per_block = cnt,
              block_size = bytes, data_handle = - 1, alloc_segs = [], total_elem = 0,
              contiguous = False\<rparr>]\<rparr>)))"

definition bl_next_avail :: "'a \<Rightarrow> int \<Rightarrow> 'a lm \<Rightarrow> (ptr \<times> 'a lm) res" where
  "bl_next_avail z h s =
     (if invalid_handle s h then Inr (NULLP, s)
      else rbind (list_cs s h) (\<lambda>cs.
        rbind (if alloc_segs cs = [] \<or> seg_full (last (alloc_segs cs)) then alloc_next_seg z cs s
               else Inr (True, cs, s)) (\<lambda>(ok, cs1, s1).
        if \<not> ok then Inr (NULLP, put_cs h cs1 s1)
        else
          let sg = last (alloc_segs cs1); av = padd (avail_ptr sg) (struct_size cs1) in
          rbind (cint (total_elem cs1 + 1)) (\<lambda>total.
          rbind (ptr_diff av (eoseg_ptr sg)) (\<lambda>over.
          Inr (avail_ptr sg, put_cs h (cs1\<lparr>total_elem := total,
            alloc_segs := butlast (alloc_segs cs1) @
              [sg\<lparr>avail_ptr := av, seg_full := seg_full sg \<or> over \<ge> 0\<rparr>]\<rparr>) s1))))))"

text \<open>
  The result is \<open>None\<close> for \<open>NULL\<close>, otherwise the number of the segment and the distance from its
  control structure, which the code adds to \<open>cur_as_ptr\<close> rather than to the block.
\<close>

function bl_walk :: "nat \<Rightarrow> int \<Rightarrow> int \<Rightarrow> int \<Rightarrow> nat \<Rightarrow> ((nat \<times> int) option) res" where
  "bl_walk nsegs cnt recno cur_rec k =
     (if \<not> in_int (cur_rec + cnt) then Inl IntOverflow
      else if recno > cur_rec + cnt then
        (if k \<ge> nsegs then Inl NullDeref
         else if Suc k \<ge> nsegs then Inr None
         else bl_walk nsegs cnt recno (cur_rec + cnt) (Suc k))
      else Inr (Some (k, recno - cur_rec)))"
  by pat_completeness auto
termination
  by (relation "measure (\<lambda>(n, _, _, _, k). n - k)") auto

definition bl_get_record :: "int \<Rightarrow> int \<Rightarrow> 'a lm \<Rightarrow> ((nat \<times> int) option) res" where
  "bl_get_record h recno s =
     rbind (invalid_record s h recno) (\<lambda>bad.
     if bad then Inr None
     else rbind (list_cs s h) (\<lambda>cs.
       rbind (bl_walk (length (alloc_segs cs)) (count_per_block cs) recno 0 0) (\<lambda>r.
       case r of
         None \<Rightarrow> Inr None
       | Some (k, n) \<Rightarrow>
           rbind (cint n) (\<lambda>n. rbind (cint (n * struct_size cs)) (\<lambda>bytes. Inr (Some (k, bytes)))))))"

definition bl_free :: "int \<Rightarrow> 'a lm \<Rightarrow> 'a lm" where
  "bl_free h s =
     (if h = - 1 then fold (\<lambda>i. free_list (int i)) [0..<next_array_elem s] s
      else if invalid_handle s h then s
      else free_list h s)"

section \<open>Arrays\<close>

text \<open>\<open>ar_desc\<close> has 60 bytes.\<close>

definition ar_create :: "int \<Rightarrow> int \<Rightarrow> string \<Rightarrow> 'a lm \<Rightarrow> (int \<times> 'a lm) res" where
  "ar_create cnt sz desc s =
     rbind (bl_create cnt sz s) (\<lambda>(d, s1).
     if d = - 1 then Inr (- 1, s1)
     else if length desc + length '' pointer'' \<ge> 60 then Inl BufOverrun
     else rbind (bl_create cnt PTR_SIZE s1) (\<lambda>(h, s2).
       if h = - 1 then Inr (- 1, s2)
       else rbind (list_cs s2 h) (\<lambda>cs.
         Inr (h, put_cs h (cs\<lparr>contiguous := True, data_handle := d\<rparr>) s2))))"

definition ar_get_head :: "int \<Rightarrow> 'a lm \<Rightarrow> ptr res" where
  "ar_get_head h s =
     (if invalid_handle s h then Inr NULLP
      else rbind (list_cs s h) (\<lambda>cs.
        Inr (if alloc_segs cs = [] then NULLP else seg_ptr (hd (alloc_segs cs)))))"

text \<open>Elements from \<open>i\<close> on move up by one until the terminating \<open>NULL\<close> is met.\<close>

function move_up :: "ptr list \<Rightarrow> nat \<Rightarrow> (nat \<times> ptr list) res" where
  "move_up c i =
     (if i \<ge> length c then Inl BufOverrun
      else if c ! i = NULLP then Inr (i, c)
      else if Suc i \<ge> length c then Inl BufOverrun
      else move_up (c[i := c ! Suc i]) (Suc i))"
  by pat_completeness auto
termination
  by (relation "measure (\<lambda>(c, i). length c - i)") auto

declare move_up.simps [simp del] bl_walk.simps [simp del]

definition ar_delete :: "'a \<Rightarrow> int \<Rightarrow> int \<Rightarrow> 'a lm \<Rightarrow> (int \<times> 'a lm) res" where
  "ar_delete z h index s =
     rbind (ar_get_head h s) (\<lambda>array.
     if array = NULLP then Inr (0, s)
     else rbind (invalid_record s h index) (\<lambda>bad.
     if bad then Inr (0, s)
     else rbind (list_cs s h) (\<lambda>cs.
     if \<not> contiguous cs then Inr (0, s)
     else
       rbind (cell_get s (padd array (index * PTR_SIZE))) (\<lambda>deleted_rec.
       rbind (cell_index s (padd array (index * PTR_SIZE))) (\<lambda>(b, k).
       rbind (move_up (cells s b) k) (\<lambda>(i, c).
       rbind (cint (total_elem cs - 1)) (\<lambda>total.
       let s1 = s\<lparr>cells := (cells s)(b := c[i := deleted_rec])\<rparr>;
           sg = hd (alloc_segs cs);
           s2 = put_cs h (cs\<lparr>total_elem := total,
                  alloc_segs := sg\<lparr>avail_ptr := padd (avail_ptr sg) (- struct_size cs), seg_full := False\<rparr>
                    # tl (alloc_segs cs)\<rparr>) s1 in
       rbind (list_cs s (data_handle cs)) (\<lambda>_.
       rbind (clear_rec z deleted_rec s2) (\<lambda>s3. Inr (1, s3))))))))))"

text \<open>Whether a deleted record waits behind the end of the array, and where its cell is.\<close>

definition reclaimable :: "blk_list_cs \<Rightarrow> 'a lm \<Rightarrow> (ptr option) res" where
  "reclaimable cs s =
     (if alloc_segs cs = [] then Inr None
      else
        let sg = last (alloc_segs cs); pointer_area = padd (avail_ptr sg) (struct_size cs) in
        rbind (ptr_diff pointer_area (eoseg_ptr sg)) (\<lambda>d.
        if d \<ge> 0 then Inr None
        else rbind (cell_get s pointer_area) (\<lambda>p. Inr (if p = NULLP then None else Some p))))"

definition ar_reuse :: "int \<Rightarrow> blk_list_cs \<Rightarrow> ptr \<Rightarrow> 'a lm \<Rightarrow> (ptr \<times> 'a lm) res" where
  "ar_reuse h cs data_area s =
     (let sg = last (alloc_segs cs) in
      rbind (cell_put (avail_ptr sg) data_area s) (\<lambda>s1.
      rbind (cell_put (padd (avail_ptr sg) (struct_size cs)) NULLP s1) (\<lambda>s2.
      rbind (cint (total_elem cs + 1)) (\<lambda>total.
      Inr (avail_ptr sg, put_cs h (cs\<lparr>total_elem := total,
        alloc_segs := butlast (alloc_segs cs) @ [sg\<lparr>avail_ptr := padd (avail_ptr sg) (struct_size cs)\<rparr>]\<rparr>) s2)))))"

definition ar_grow :: "'a \<Rightarrow> int \<Rightarrow> ptr \<Rightarrow> 'a lm \<Rightarrow> (ptr \<times> 'a lm) res" where
  "ar_grow z h pointer_area s =
     rbind (ar_get_head h s) (\<lambda>old_list_pointer.
     rbind (list_cs s h) (\<lambda>cs.
     rbind (alloc_next_seg z cs s) (\<lambda>(ok, cs1, s1).
     let s2 = put_cs h cs1 s1 in
     if \<not> ok then Inr (NULLP, s2)
     else rbind (ar_get_head h s2) (\<lambda>new_list_pointer.
       rbind (ptr_diff pointer_area old_list_pointer) (\<lambda>d.
       Inr (padd new_list_pointer d, s2))))))"

definition ar_next_avail :: "'a \<Rightarrow> int \<Rightarrow> 'a lm \<Rightarrow> (ptr \<times> 'a lm) res" where
  "ar_next_avail z h s =
     (if invalid_handle s h then Inr (NULLP, s)
      else rbind (list_cs s h) (\<lambda>cs.
        if \<not> contiguous cs \<or> invalid_handle s (data_handle cs) then Inr (NULLP, s)
        else rbind (reclaimable cs s) (\<lambda>r.
        case r of
          Some data_area \<Rightarrow> ar_reuse h cs data_area s
        | None \<Rightarrow>
            rbind (bl_next_avail z (data_handle cs) s) (\<lambda>(data_area, s1).
            rbind (bl_next_avail z h s1) (\<lambda>(pointer_area, s2).
            rbind (cell_put pointer_area data_area s2) (\<lambda>s3.
            rbind (list_cs s3 h) (\<lambda>cs3.
            if seg_full (hd (alloc_segs cs3)) then ar_grow z h pointer_area s3
            else Inr (pointer_area, s3))))))))"

definition ar_free :: "int \<Rightarrow> 'a lm \<Rightarrow> 'a lm res" where
  "ar_free h s =
     (if invalid_handle s h then Inr s
      else rbind (list_cs s h) (\<lambda>cs. Inr (bl_free h (bl_free (data_handle cs) s))))"

end
