(* ===== verification/Listarr.thy ===== *)
theory Listarr
  imports Listmgr "HOL-Library.Multiset"
begin

text \<open>
  How the list manager keeps an array in memory. \<open>lm_ok\<close> says that each block belongs to one list,
  \<open>data_ok\<close> and \<open>array_ok\<close> give the shape of a block list and of an array, and \<open>ar_rep\<close> that array \<open>h\<close> has
  the elements \<open>L\<close> and the deleted records \<open>A\<close> behind its \<open>NULL\<close>, which together are the records handed
  out so far, each once. Every operation is described on \<open>ar_rep\<close>; \<open>keeps\<close> says what it leaves alone.
\<close>

section \<open>Blocks\<close>

abbreviation slot :: "'a lm \<Rightarrow> nat \<Rightarrow> blk_list_cs option" where
  "slot s i \<equiv> bl_cs_array s ! i"

definition slot_blocks :: "blk_list_cs option \<Rightarrow> nat list" where
  "slot_blocks c = (case c of None \<Rightarrow> [] | Some cs \<Rightarrow> map seg_block (alloc_segs cs))"

lemma slot_blocks_simps [simp]:
  "slot_blocks None = []" "slot_blocks (Some cs) = map seg_block (alloc_segs cs)"
  by (simp_all add: slot_blocks_def)

definition mem_ok :: "'a lm \<Rightarrow> bool" where
  "mem_ok s \<longleftrightarrow> Fail \<notin> set (outcomes s)"

definition lm_ok :: "'a lm \<Rightarrow> bool" where
  "lm_ok s \<longleftrightarrow> length (bl_cs_array s) = MAX_ARRAYS \<and> next_array_elem s \<le> MAX_ARRAYS \<and> 0 < next_block s \<and>
     (\<forall>i<MAX_ARRAYS. next_array_elem s \<le> i \<longrightarrow> slot s i = None) \<and>
     (\<forall>i<MAX_ARRAYS. distinct (slot_blocks (slot s i)) \<and>
        (\<forall>b\<in>set (slot_blocks (slot s i)). 0 < b \<and> b < next_block s)) \<and>
     (\<forall>i<MAX_ARRAYS. \<forall>j<MAX_ARRAYS. i \<noteq> j \<longrightarrow>
        set (slot_blocks (slot s i)) \<inter> set (slot_blocks (slot s j)) = {})"

lemma lm_okD:
  assumes "lm_ok s"
  shows "length (bl_cs_array s) = MAX_ARRAYS" "next_array_elem s \<le> MAX_ARRAYS" "0 < next_block s"
    "\<And>i. i < MAX_ARRAYS \<Longrightarrow> next_array_elem s \<le> i \<Longrightarrow> slot s i = None"
    "\<And>i. i < MAX_ARRAYS \<Longrightarrow> distinct (slot_blocks (slot s i))"
    "\<And>i b. i < MAX_ARRAYS \<Longrightarrow> b \<in> set (slot_blocks (slot s i)) \<Longrightarrow> 0 < b \<and> b < next_block s"
    "\<And>i j b. i < MAX_ARRAYS \<Longrightarrow> j < MAX_ARRAYS \<Longrightarrow> i \<noteq> j \<Longrightarrow> b \<in> set (slot_blocks (slot s i)) \<Longrightarrow>
       b \<notin> set (slot_blocks (slot s j))"
  using assms unfolding lm_ok_def by blast+

text \<open>A step that rewrites one list and gives it only blocks it had or new ones.\<close>

lemma lm_ok_step:
  assumes ok: "lm_ok s" and h: "h < next_array_elem s"
    and arr: "bl_cs_array s' = (bl_cs_array s)[h := Some cs]"
    and nx: "next_array_elem s' = next_array_elem s" and nb: "next_block s \<le> next_block s'"
    and bl: "\<And>b. b \<in> set (slot_blocks (Some cs)) \<Longrightarrow>
      b \<in> set (slot_blocks (slot s h)) \<or> next_block s \<le> b \<and> b < next_block s'"
    and d: "distinct (slot_blocks (Some cs))"
  shows "lm_ok s'"
proof -
  note D = lm_okD[OF ok]
  have hM: "h < MAX_ARRAYS" using h D(2) by simp
  have other: "slot s' i = slot s i" if "i \<noteq> h" for i using that by (simp add: arr)
  have upd: "slot s' h = Some cs" using hM D(1) by (simp add: arr)
  have inb: "0 < b \<and> b < next_block s'" if "b \<in> set (slot_blocks (slot s' i))" "i < MAX_ARRAYS" for i b
  proof (cases "i = h")
    case True
    then show ?thesis using bl[of b] that D(6)[OF hM, of b] nb D(3) upd by auto
  next
    case False
    then show ?thesis using that other D(6)[of i b] nb by auto
  qed
  have dis: "b \<notin> set (slot_blocks (slot s' j))"
    if "b \<in> set (slot_blocks (slot s' i))" "i < MAX_ARRAYS" "j < MAX_ARRAYS" "i \<noteq> j" for i j b
  proof -
    have old: "b \<in> set (slot_blocks (slot s h)) \<Longrightarrow> k \<noteq> h \<Longrightarrow> k < MAX_ARRAYS \<Longrightarrow> b \<notin> set (slot_blocks (slot s k))"
      for k using D(7)[OF hM] by blast
    have new: "next_block s \<le> b \<Longrightarrow> k < MAX_ARRAYS \<Longrightarrow> b \<notin> set (slot_blocks (slot s k))" for k
      using D(6)[of k b] by auto
    consider "i = h" | "j = h" | "i \<noteq> h" "j \<noteq> h" by blast
    then show ?thesis
    proof cases
      case 1
      then show ?thesis using that upd other[of j] bl[of b] old[of j] new[of j] by auto
    next
      case 2
      then show ?thesis using that upd other[of i] bl[of b] old[of i] new[of i] by auto
    next
      case 3
      then show ?thesis using that other[of i] other[of j] D(7)[of i j b] by auto
    qed
  qed
  show ?thesis
    unfolding lm_ok_def
  proof (intro conjI allI impI)
    fix i assume i: "i < MAX_ARRAYS"
    show "slot s' i = None" if "next_array_elem s' \<le> i" using that D(4)[OF i] nx h other[of i] by simp
    show "distinct (slot_blocks (slot s' i))" using D(5)[OF i] d upd other[of i] by (cases "i = h") auto
    show "\<forall>b\<in>set (slot_blocks (slot s' i)). 0 < b \<and> b < next_block s'" using inb i by blast
    show "set (slot_blocks (slot s' i)) \<inter> set (slot_blocks (slot s' j)) = {}"
      if "j < MAX_ARRAYS" "i \<noteq> j" for j using dis i that by blast
  qed (use D nx nb arr in auto)
qed

section \<open>Records of a block list\<close>

definition data_seg :: "blk_list_cs \<Rightarrow> nat \<times> nat \<Rightarrow> alloc_seg" where
  "data_seg cs bn = \<lparr>seg_ptr = Ptr (fst bn) 0, avail_ptr = Ptr (fst bn) (int (snd bn) * struct_size cs),
     eoseg_ptr = Ptr (fst bn) (block_size cs), seg_full = (int (snd bn) \<ge> count_per_block cs)\<rparr>"

definition data_ok :: "blk_list_cs \<Rightarrow> (nat \<times> nat) list \<Rightarrow> bool" where
  "data_ok cs bns \<longleftrightarrow> \<not> contiguous cs \<and> 0 < struct_size cs \<and> 0 < count_per_block cs \<and>
     block_size cs = count_per_block cs * struct_size cs \<and> alloc_segs cs = map (data_seg cs) bns \<and>
     total_elem cs = int (sum_list (map snd bns))"

definition block_recs :: "int \<Rightarrow> nat \<times> nat \<Rightarrow> ptr list" where
  "block_recs sz bn = map (\<lambda>k. Ptr (fst bn) (int k * sz)) [0..<snd bn]"

definition handed :: "int \<Rightarrow> (nat \<times> nat) list \<Rightarrow> ptr list" where
  "handed sz bns = concat (map (block_recs sz) bns)"

lemma handed_simps [simp]:
  "handed sz [] = []" "handed sz (bns @ cs) = handed sz bns @ handed sz cs"
  "handed sz [bn] = block_recs sz bn"
  by (simp_all add: handed_def)

lemma length_handed: "length (handed sz bns) = sum_list (map snd bns)"
  by (simp add: handed_def length_concat block_recs_def comp_def)

lemma block_recs_Suc: "block_recs sz (b, Suc n) = block_recs sz (b, n) @ [Ptr b (int n * sz)]"
  by (simp add: block_recs_def)

lemma in_handed: "p \<in> set (handed sz bns) \<longleftrightarrow> (\<exists>b n k. (b, n) \<in> set bns \<and> k < n \<and> p = Ptr b (int k * sz))"
  unfolding handed_def block_recs_def by (force simp: image_iff)

lemma seg_block_data [simp]: "seg_block (data_seg cs bn) = fst bn"
  by (simp add: data_seg_def seg_block_def)

lemma data_blocks: "data_ok cs bns \<Longrightarrow> map seg_block (alloc_segs cs) = map fst bns"
  by (simp add: data_ok_def o_def)

text \<open>What a step on list \<open>h\<close> may change.\<close>

definition keeps :: "nat set \<Rightarrow> 'a lm \<Rightarrow> 'a lm \<Rightarrow> bool" where
  "keeps H s s' \<longleftrightarrow> next_array_elem s' = next_array_elem s \<and> next_block s \<le> next_block s' \<and>
     (mem_ok s \<longrightarrow> mem_ok s') \<and>
     (\<forall>i<MAX_ARRAYS. i \<notin> H \<longrightarrow> slot s' i = slot s i \<and>
        (\<forall>b\<in>set (slot_blocks (slot s i)). cells s' b = cells s b \<and> (\<forall>k. recs s' (Ptr b k) = recs s (Ptr b k))))"

lemma keepsD:
  assumes "keeps H s s'"
  shows "next_array_elem s' = next_array_elem s" "next_block s \<le> next_block s'" "mem_ok s \<Longrightarrow> mem_ok s'"
    "\<And>i. i < MAX_ARRAYS \<Longrightarrow> i \<notin> H \<Longrightarrow> slot s' i = slot s i"
    "\<And>i b. i < MAX_ARRAYS \<Longrightarrow> i \<notin> H \<Longrightarrow> b \<in> set (slot_blocks (slot s i)) \<Longrightarrow> cells s' b = cells s b"
    "\<And>i b k. i < MAX_ARRAYS \<Longrightarrow> i \<notin> H \<Longrightarrow> b \<in> set (slot_blocks (slot s i)) \<Longrightarrow>
       recs s' (Ptr b k) = recs s (Ptr b k)"
  using assms unfolding keeps_def by blast+

lemma keeps_trans:
  assumes a: "keeps H s t" and b: "keeps K t u"
  shows "keeps (H \<union> K) s u"
  unfolding keeps_def
  using keepsD(1,2)[OF a] keepsD(1,2)[OF b] keepsD(3)[OF a] keepsD(3)[OF b]
    keepsD(4)[OF a] keepsD(4)[OF b] keepsD(5)[OF a] keepsD(5)[OF b] keepsD(6)[OF a] keepsD(6)[OF b]
  by auto

lemma list_step:
  assumes ok: "lm_ok s" and h: "h < next_array_elem s"
    and arr: "bl_cs_array s' = (bl_cs_array s)[h := Some cs]" "next_array_elem s' = next_array_elem s"
      "next_block s \<le> next_block s'" and m: "mem_ok s'"
    and bl: "\<And>b. b \<in> set (slot_blocks (Some cs)) \<Longrightarrow>
      b \<in> set (slot_blocks (slot s h)) \<or> next_block s \<le> b \<and> b < next_block s'"
    and d: "distinct (slot_blocks (Some cs))"
    and mem: "\<And>b k. 0 < b \<Longrightarrow> b < next_block s \<Longrightarrow> b \<notin> set (slot_blocks (slot s h)) \<Longrightarrow>
      cells s' b = cells s b \<and> recs s' (Ptr b k) = recs s (Ptr b k)"
  shows "lm_ok s'" "keeps {h} s s'" "slot s' h = Some cs"
proof -
  have hM: "h < MAX_ARRAYS" using h lm_okD(2)[OF ok] by simp
  show "lm_ok s'" using lm_ok_step[OF ok h arr bl d] .
  have "cells s' b = cells s b \<and> recs s' (Ptr b k) = recs s (Ptr b k)"
    if "i < MAX_ARRAYS" "i \<noteq> h" "b \<in> set (slot_blocks (slot s i))" for i b k
    using mem lm_okD(6)[OF ok that(1,3)] lm_okD(7)[OF ok that(1) hM that(2,3)] by blast
  then show "keeps {h} s s'" unfolding keeps_def using arr m by auto
  show "slot s' h = Some cs" using hM lm_okD(1)[OF ok] by (simp add: arr)
qed

lemma next_outcome_ok:
  assumes "mem_ok s"
  obtains c os where "next_outcome s = (c, s\<lparr>outcomes := os\<rparr>)" "c \<noteq> Fail" "Fail \<notin> set os"
proof (cases "outcomes s")
  case Nil
  then have "next_outcome s = (Fresh, s\<lparr>outcomes := []\<rparr>)" by (simp add: next_outcome_def)
  then show ?thesis using that by force
next
  case (Cons c os)
  then show ?thesis using that[of c os] assms by (auto simp: next_outcome_def mem_ok_def)
qed

section \<open>The next record of a block list\<close>

definition blank :: "'a \<Rightarrow> 'a lm \<Rightarrow> int \<Rightarrow> (nat \<times> nat) list \<Rightarrow> bool" where
  "blank z s sz bns \<longleftrightarrow> (\<forall>(b, n)\<in>set bns. \<forall>k\<ge>n. recs s (Ptr b (int k * sz)) = z)"

lemma list_cs_Some: "slot s h = Some cs \<Longrightarrow> list_cs s (int h) = Inr cs"
  by (simp add: list_cs_def)

text \<open>What an allocation for a list may change: no list yet, only memory nobody has.\<close>

definition grows :: "'a lm \<Rightarrow> 'a lm \<Rightarrow> bool" where
  "grows s s' \<longleftrightarrow> bl_cs_array s' = bl_cs_array s \<and> next_array_elem s' = next_array_elem s \<and>
     next_block s \<le> next_block s' \<and> mem_ok s' \<and> cells s' = cells s \<and>
     (\<forall>b k. b < next_block s \<longrightarrow> recs s' (Ptr b k) = recs s (Ptr b k))"

lemma alloc_block_ok:
  assumes m: "mem_ok s" and d: "data_ok cs bns" and bl: "blank z s (struct_size cs) bns"
    and old: "\<And>b. b \<in> set (map fst bns) \<Longrightarrow> b < next_block s" and pos: "0 < next_block s"
  obtains s1 where "alloc_block z cs s = (True, cs\<lparr>alloc_segs := map (data_seg cs) (bns @ [(next_block s, 0)])\<rparr>, s1)"
    "grows s s1" "next_block s1 = Suc (next_block s)"
    "blank z s1 (struct_size cs) (bns @ [(next_block s, 0)])"
proof -
  obtain c os where a: "next_outcome s = (c, s\<lparr>outcomes := os\<rparr>)" "c \<noteq> Fail" "Fail \<notin> set os"
    using next_outcome_ok[OF m] .
  define t where "t = s\<lparr>outcomes := os\<rparr>"
  have "mem_ok t" using a(3) by (simp add: t_def mem_ok_def)
  then obtain c' os' where e: "next_outcome t = (c', t\<lparr>outcomes := os'\<rparr>)" "c' \<noteq> Fail" "Fail \<notin> set os'"
    by (rule next_outcome_ok)
  define b where "b = next_block s"
  define u where "u = s\<lparr>outcomes := os', next_block := Suc b, recs := (\<lambda>p. if in_block b p then z else recs s p)\<rparr>"
  have cal: "calloc_recs z t = (Ptr b 0, u)"
    unfolding calloc_recs_def e(1) using e(2) by (simp add: t_def u_def b_def Let_def cong: if_cong)
  have "data_seg cs (b, 0) =
      \<lparr>seg_ptr = Ptr b 0, avail_ptr = Ptr b 0, eoseg_ptr = Ptr b (block_size cs), seg_full = False\<rparr>"
    using d by (simp add: data_seg_def data_ok_def)
  then have "alloc_block z cs s = (True, cs\<lparr>alloc_segs := map (data_seg cs) (bns @ [(b, 0)])\<rparr>, u)"
    using a(1,2) cal d pos unfolding alloc_block_def by (simp add: t_def data_ok_def b_def)
  moreover have "grows s u" using e(3) by (simp add: grows_def u_def b_def mem_ok_def)
  moreover have "blank z u (struct_size cs) (bns @ [(b, 0)])"
    using bl old by (force simp: blank_def u_def b_def)
  ultimately show ?thesis using that[of u] by (simp add: b_def u_def)
qed

lemma bl_room:
  assumes m: "mem_ok s" and d: "data_ok cs bns" and bl: "blank z s (struct_size cs) bns"
    and old: "\<And>b. b \<in> set (map fst bns) \<Longrightarrow> b < next_block s" and pos: "0 < next_block s"
    and dist: "distinct (map fst bns)"
  obtains cs1 s1 bs b n where
    "(if alloc_segs cs = [] \<or> seg_full (last (alloc_segs cs)) then alloc_next_seg z cs s
      else Inr (True, cs, s)) = Inr (True, cs1, s1)"
    "grows s s1" "data_ok cs1 (bs @ [(b, n)])" "int n < count_per_block cs1"
    "struct_size cs1 = struct_size cs" "distinct (map fst (bs @ [(b, n)]))"
    "handed (struct_size cs) (bs @ [(b, n)]) = handed (struct_size cs) bns"
    "\<And>c. c \<in> set (map fst (bs @ [(b, n)])) \<Longrightarrow> c \<in> set (map fst bns) \<or> next_block s \<le> c \<and> c < next_block s1"
    "blank z s1 (struct_size cs) (bs @ [(b, n)])"
proof (cases "alloc_segs cs = [] \<or> seg_full (last (alloc_segs cs))")
  case True
  obtain s1 where s1: "alloc_block z cs s = (True, cs\<lparr>alloc_segs := map (data_seg cs) (bns @ [(next_block s, 0)])\<rparr>, s1)"
    "grows s s1" "next_block s1 = Suc (next_block s)" "blank z s1 (struct_size cs) (bns @ [(next_block s, 0)])"
    using alloc_block_ok[OF m d bl old pos] by blast
  have nc: "\<not> contiguous cs" using d by (simp add: data_ok_def)
  have seg: "data_seg (cs\<lparr>alloc_segs := x\<rparr>) = data_seg cs" for x by (rule ext) (simp add: data_seg_def)
  show ?thesis
  proof (rule that[of _ s1 bns "next_block s" 0])
    show "data_ok (cs\<lparr>alloc_segs := map (data_seg cs) (bns @ [(next_block s, 0)])\<rparr>) (bns @ [(next_block s, 0)])"
      using d by (simp add: data_ok_def seg)
    show "distinct (map fst (bns @ [(next_block s, 0)]))" using dist old by fastforce
  qed (use True s1 nc d in \<open>auto simp: alloc_next_seg_def data_ok_def block_recs_def\<close>)
next
  case False
  then have ne: "bns \<noteq> []" using d by (auto simp: data_ok_def)
  obtain bs b n where bns: "bns = bs @ [(b, n)]"
    using ne by (metis append_butlast_last_id surj_pair)
  have "last (alloc_segs cs) = data_seg cs (b, n)" using d by (simp add: data_ok_def bns)
  then have n: "int n < count_per_block cs" using False by (simp add: data_seg_def)
  show ?thesis
    by (rule that[of cs s bs b n]) (use False m d bl dist n in \<open>auto simp: bns grows_def\<close>)
qed

lemma bl_next_avail_data:
  assumes ok: "lm_ok s" and m: "mem_ok s" and h: "h < next_array_elem s" and sl: "slot s h = Some cs"
    and d: "data_ok cs bns" and bl: "blank z s (struct_size cs) bns" and few: "sum_list (map snd bns) < 2 ^ 27"
  obtains p s' cs' bns' where "bl_next_avail z (int h) s = Inr (p, s')" "lm_ok s'" "keeps {h} s s'"
    "slot s' h = Some cs'" "data_ok cs' bns'" "struct_size cs' = struct_size cs"
    "handed (struct_size cs) bns' = handed (struct_size cs) bns @ [p]"
    "blank z s' (struct_size cs) bns'" "cells s' = cells s" "recs s' p = z"
    "\<And>b k. b \<in> set (slot_blocks (Some cs)) \<Longrightarrow> recs s' (Ptr b k) = recs s (Ptr b k)"
proof -
  have hM: "h < MAX_ARRAYS" using lm_okD(2)[OF ok] h by simp
  note blk = data_blocks[OF d]
  have old: "b < next_block s" if "b \<in> set (map fst bns)" for b
    using lm_okD(6)[OF ok hM, of b] that blk by (simp add: sl)
  have dist: "distinct (map fst bns)" using lm_okD(5)[OF ok hM] blk by (simp add: sl)
  obtain cs1 s1 bs b n where r: "(if alloc_segs cs = [] \<or> seg_full (last (alloc_segs cs)) then alloc_next_seg z cs s
      else Inr (True, cs, s)) = Inr (True, cs1, s1)"
    and g: "grows s s1" and d1: "data_ok cs1 (bs @ [(b, n)])" and n: "int n < count_per_block cs1"
    and sz: "struct_size cs1 = struct_size cs" and dist1: "distinct (map fst (bs @ [(b, n)]))"
    and ha: "handed (struct_size cs) (bs @ [(b, n)]) = handed (struct_size cs) bns"
    and fro: "\<And>c. c \<in> set (map fst (bs @ [(b, n)])) \<Longrightarrow> c \<in> set (map fst bns) \<or> next_block s \<le> c \<and> c < next_block s1"
    and bl1: "blank z s1 (struct_size cs) (bs @ [(b, n)])"
    using bl_room[OF m d bl old lm_okD(3)[OF ok] dist] by metis
  define cs' where "cs' = cs1\<lparr>total_elem := total_elem cs1 + 1, alloc_segs := map (data_seg cs1) (bs @ [(b, Suc n)])\<rparr>"
  define s' where "s' = put_cs (int h) cs' s1"
  have seg: "data_seg cs' = data_seg cs1" by (rule ext) (simp add: data_seg_def cs'_def)
  have sz0: "0 < struct_size cs1" "block_size cs1 = count_per_block cs1 * struct_size cs1" "\<not> contiguous cs1"
    and segs1: "alloc_segs cs1 = map (data_seg cs1) (bs @ [(b, n)])" "total_elem cs1 = int (sum_list (map snd bs) + n)"
    using d1 by (auto simp: data_ok_def)
  have "sum_list (map snd bs) + n = sum_list (map snd bns)"
    using arg_cong[OF ha, of length] unfolding length_handed by simp
  then have tot: "cint (1 + total_elem cs1) = Inr (1 + total_elem cs1)"
    using few by (intro cint_ok) (simp add: segs1(2) in_int_def)
  have over: "(int n * struct_size cs1 + struct_size cs1 - block_size cs1 \<ge> 0) = (int (Suc n) \<ge> count_per_block cs1)"
  proof -
    have "int n * struct_size cs1 + struct_size cs1 = int (Suc n) * struct_size cs1" by (simp add: algebra_simps)
    then show ?thesis using sz0(1,2) by (metis diff_ge_0_iff_ge mult_le_cancel_right_pos)
  qed
  have run: "bl_next_avail z (int h) s = Inr (Ptr b (int n * struct_size cs), s')"
    using h over n unfolding bl_next_avail_def list_cs_Some[OF sl] rbind_simps r
    by (simp add: invalid_handle_def tot segs1(1) s'_def cs'_def sz data_seg_def Let_def distrib_right add.commute)
  have arr: "bl_cs_array s' = (bl_cs_array s)[h := Some cs']" "next_array_elem s' = next_array_elem s"
    "next_block s \<le> next_block s'" "cells s' = cells s" "recs s' = recs s1" "mem_ok s'" "next_block s' = next_block s1"
    using g by (auto simp: s'_def put_cs_def grows_def mem_ok_def)
  have blk': "slot_blocks (Some cs') = map fst (bs @ [(b, n)])" by (simp add: cs'_def o_def)
  have recs': "recs s' (Ptr c k) = recs s (Ptr c k)" if "c < next_block s" for c k
    using g that by (simp add: arr grows_def)
  have step: "lm_ok s'" "keeps {h} s s'" "slot s' h = Some cs'"
    using list_step[OF ok h arr(1-3,6)] dist1 fro blk recs' arr unfolding blk' sl by auto
  show ?thesis
  proof (rule that[OF run step])
    show "data_ok cs' (bs @ [(b, Suc n)])" unfolding data_ok_def seg using sz0 n segs1(2) by (simp add: cs'_def)
    show "handed (struct_size cs) (bs @ [(b, Suc n)]) = handed (struct_size cs) bns @ [Ptr b (int n * struct_size cs)]"
      unfolding ha[symmetric] by (simp add: block_recs_Suc)
    show "blank z s' (struct_size cs) (bs @ [(b, Suc n)])" using bl1 by (auto simp: blank_def arr)
    show "recs s' (Ptr b (int n * struct_size cs)) = z" using bl1 by (auto simp: blank_def arr)
    show "recs s' (Ptr c k) = recs s (Ptr c k)" if "c \<in> set (slot_blocks (Some cs))" for c k
      using recs' old that blk by simp
  qed (use sz arr in \<open>simp_all add: cs'_def\<close>)
qed

section \<open>The memory of an array\<close>

abbreviation cell_at :: "nat \<Rightarrow> nat \<Rightarrow> ptr" where
  "cell_at b k \<equiv> Ptr b (int k * PTR_SIZE)"

lemma cell_index_at [simp]: "0 < b \<Longrightarrow> k < length (cells s b) \<Longrightarrow> cell_index s (cell_at b k) = Inr (b, k)"
  by (simp add: cell_index_def PTR_SIZE_def)

lemma cell_get_at [simp]: "0 < b \<Longrightarrow> k < length (cells s b) \<Longrightarrow> cell_get s (cell_at b k) = Inr (cells s b ! k)"
  by (simp add: cell_get_def)

lemma cell_put_at [simp]:
  "0 < b \<Longrightarrow> k < length (cells s b) \<Longrightarrow>
   cell_put (cell_at b k) v s = Inr (s\<lparr>cells := (cells s)(b := (cells s b)[k := v])\<rparr>)"
  by (simp add: cell_put_def)

lemma padd_at:
  "padd (cell_at b k) PTR_SIZE = cell_at b (Suc k)"
  "0 < k \<Longrightarrow> padd (cell_at b k) (- PTR_SIZE) = cell_at b (k - 1)"
  "padd (Ptr b 0) (int k * PTR_SIZE) = cell_at b k"
  by (auto simp: PTR_SIZE_def algebra_simps of_nat_diff)

lemma ptr_diff_at:
  "ptr_diff (cell_at b i) (cell_at b j) = Inr ((int i - int j) * PTR_SIZE)"
  "ptr_diff (cell_at b i) (Ptr b 0) = Inr (int i * PTR_SIZE)"
  by (simp_all add: algebra_simps)

lemma PTR_pos: "0 < PTR_SIZE" "PTR_SIZE \<noteq> 0" by (simp_all add: PTR_SIZE_def)

lemma diff_at_ge: "((int i - int j) * PTR_SIZE \<ge> 0) = (j \<le> i)"
  by (simp add: PTR_SIZE_def)

text \<open>A segment of \<open>n\<close> cells, of which \<open>k\<close> are in use.\<close>

definition arr_seg :: "nat \<Rightarrow> nat \<Rightarrow> nat \<Rightarrow> bool \<Rightarrow> alloc_seg" where
  "arr_seg b k n f = \<lparr>seg_ptr = Ptr b 0, avail_ptr = cell_at b k, eoseg_ptr = cell_at b n, seg_full = f\<rparr>"

lemma arr_seg_simps [simp]:
  "seg_ptr (arr_seg b k n f) = Ptr b 0" "avail_ptr (arr_seg b k n f) = cell_at b k"
  "eoseg_ptr (arr_seg b k n f) = cell_at b n" "seg_full (arr_seg b k n f) = f"
  "seg_block (arr_seg b k n f) = b"
  by (simp_all add: arr_seg_def seg_block_def)

lemma arr_seg_update [simp]:
  "(arr_seg b k n f)\<lparr>avail_ptr := cell_at b k', seg_full := f'\<rparr> = arr_seg b k' n f'"
  "(arr_seg b k n f)\<lparr>avail_ptr := cell_at b k'\<rparr> = arr_seg b k' n f"
  "(arr_seg b k n f)\<lparr>seg_full := f'\<rparr> = arr_seg b k n f'"
  by (simp_all add: arr_seg_def)

definition array_cs :: "blk_list_cs \<Rightarrow> bool" where
  "array_cs cs \<longleftrightarrow> contiguous cs \<and> struct_size cs = PTR_SIZE \<and> 0 < count_per_block cs \<and>
     count_per_block cs < 2 ^ 27 \<and> block_size cs = count_per_block cs * PTR_SIZE"

text \<open>An array filled to its end with the cells \<open>c\<close>.\<close>

definition filled :: "blk_list_cs \<Rightarrow> ptr list \<Rightarrow> 'a lm \<Rightarrow> bool" where
  "filled cs c s \<longleftrightarrow> alloc_segs cs = [] \<and> c = [] \<or>
     (\<exists>b f. 0 < b \<and> b < next_block s \<and> cells s b = c \<and> alloc_segs cs = [arr_seg b (length c) (length c) f])"

lemma realloc_first:
  assumes m: "mem_ok s"
  obtains s1 where "realloc_cells NULLP n s = Inr (Ptr (next_block s) 0, s1)" "mem_ok s1"
    "cells s1 = (cells s)(0 := [], next_block s := replicate n Wild)" "next_block s1 = Suc (next_block s)"
    "bl_cs_array s1 = bl_cs_array s" "next_array_elem s1 = next_array_elem s" "recs s1 = recs s"
proof -
  obtain c os where a: "next_outcome s = (c, s\<lparr>outcomes := os\<rparr>)" "c \<noteq> Fail" "Fail \<notin> set os"
    using next_outcome_ok[OF m] .
  show ?thesis
    by (rule that[of "s\<lparr>outcomes := os, next_block := Suc (next_block s),
          cells := (cells s)(0 := [], next_block s := replicate n Wild)\<rparr>"])
      (use a in \<open>auto simp: realloc_cells_def Let_def mem_ok_def\<close>)
qed

lemma realloc_more:
  assumes m: "mem_ok s" and b: "0 < b" and n: "n = length (cells s b) + k"
  obtains s1 f where "realloc_cells (Ptr b 0) n s = Inr (Ptr f 0, s1)" "mem_ok s1" "f = b \<or> f = next_block s"
    "cells s1 f = cells s b @ replicate k Wild" "\<And>x. x \<noteq> b \<Longrightarrow> x \<noteq> f \<Longrightarrow> cells s1 x = cells s x"
    "next_block s \<le> next_block s1" "f < next_block s1 \<or> f = b"
    "bl_cs_array s1 = bl_cs_array s" "next_array_elem s1 = next_array_elem s" "recs s1 = recs s"
proof -
  obtain c os where a: "next_outcome s = (c, s\<lparr>outcomes := os\<rparr>)" "c \<noteq> Fail" "Fail \<notin> set os"
    using next_outcome_ok[OF m] .
  define new where "new = cells s b @ replicate k Wild"
  have new: "take n (cells s b) @ replicate (n - length (cells s b)) Wild = new" by (simp add: n new_def)
  show ?thesis
  proof (cases "c = InPlace")
    case True
    show ?thesis
      by (rule that[of b "s\<lparr>outcomes := os, cells := (cells s)(b := new)\<rparr>"])
        (use a b True in \<open>auto simp: realloc_cells_def Let_def mem_ok_def new new_def[symmetric]\<close>)
  next
    case False
    show ?thesis
      by (rule that[of "next_block s" "s\<lparr>outcomes := os, next_block := Suc (next_block s),
            cells := (cells s)(b := [], next_block s := new)\<rparr>"])
        (use a b False in \<open>auto simp: realloc_cells_def Let_def mem_ok_def new new_def[symmetric]\<close>)
  qed
qed

text \<open>The cells of a filled array stay, new ones behind them are \<open>NULL\<close>.\<close>

lemma alloc_contiguous_ok:
  assumes m: "mem_ok s" and cs: "array_cs cs" and fi: "filled cs c s" and pos: "0 < next_block s"
    and few: "length c < 2 ^ 27"
  obtains s1 f where
    "alloc_contiguous cs s = Inr (True, cs\<lparr>alloc_segs := [arr_seg f (length c) (length c + nat (count_per_block cs)) False]\<rparr>, s1)"
    "mem_ok s1" "cells s1 f = c @ replicate (nat (count_per_block cs)) NULLP" "0 < f" "f < next_block s1"
    "f \<in> set (map seg_block (alloc_segs cs)) \<or> next_block s \<le> f"
    "\<And>x. 0 < x \<Longrightarrow> x \<notin> set (map seg_block (alloc_segs cs)) \<Longrightarrow> x \<noteq> f \<Longrightarrow> cells s1 x = cells s x"
    "next_block s \<le> next_block s1"
    "bl_cs_array s1 = bl_cs_array s" "next_array_elem s1 = next_array_elem s" "recs s1 = recs s"
proof -
  define n where "n = nat (count_per_block cs)"
  have c: "contiguous cs" "struct_size cs = PTR_SIZE" "block_size cs = int n * PTR_SIZE" "0 < n"
    using cs by (auto simp: array_cs_def n_def)
  have dv: "(int i * PTR_SIZE) div PTR_SIZE = int i" for i by (simp add: PTR_SIZE_def)
  have n27: "n < 2 ^ 27" using cs by (auto simp: array_cs_def n_def)
  have fits: "in_int (int i * PTR_SIZE)" "(int i * PTR_SIZE) mod 4294967296 = int i * PTR_SIZE" if "i < 2 ^ 28" for i
    using that by (auto simp: PTR_SIZE_def in_int_def)
  have nn: "0 \<le> int n * PTR_SIZE" by (simp add: PTR_SIZE_def)
  have z: "to_int 0 = 0" by (simp add: to_int_def)
  note ints = cint_ok[OF fits(1)[of n]] cint_ok[OF fits(1)[of "length c + n"]] to_int_id[OF fits(1)[of "length c"]]
    fits(2)[of n] fits(2)[of "length c + n"] z
  from fi consider "alloc_segs cs = []" "c = []"
    | b fl where "0 < b" "b < next_block s" "cells s b = c" "alloc_segs cs = [arr_seg b (length c) (length c) fl]"
    unfolding filled_def by blast
  then show ?thesis
  proof cases
    case 1
    obtain o' os where a: "next_outcome s = (o', s\<lparr>outcomes := os\<rparr>)" "o' \<noteq> Fail" "Fail \<notin> set os"
      using next_outcome_ok[OF m] .
    define t where "t = s\<lparr>outcomes := os\<rparr>"
    have mt: "mem_ok t" using a(3) by (simp add: t_def mem_ok_def)
    obtain s1 where r: "realloc_cells NULLP n t = Inr (Ptr (next_block t) 0, s1)" "mem_ok s1"
      "cells s1 = (cells t)(0 := [], next_block t := replicate n Wild)" "next_block s1 = Suc (next_block t)"
      "bl_cs_array s1 = bl_cs_array t" "next_array_elem s1 = next_array_elem t" "recs s1 = recs t"
      using realloc_first[OF mt] .
    define f where "f = next_block s"
    have ft: "next_block t = f" by (simp add: t_def f_def)
    define s2 where "s2 = s1\<lparr>cells := (cells s1)(f := replicate n NULLP)\<rparr>"
    have clr: "clear_cells (Ptr f 0) (int n * PTR_SIZE) s1 = Inr s2"
      using pos nn by (simp add: clear_cells_def Let_def r(3) ft f_def[symmetric] s2_def dv)
    have run: "alloc_contiguous cs s = Inr (True, cs\<lparr>alloc_segs := [arr_seg f (length c) (length c + n) False]\<rparr>, s2)"
      using pos clr unfolding alloc_contiguous_def
      using n27 by (simp add: 1 a(1,2) c Let_def dv ints t_def[symmetric] r(1) ft arr_seg_def f_def[symmetric])
    show ?thesis
      by (rule that[OF run[unfolded n_def]])
        (use r pos in \<open>auto simp: s2_def 1 f_def t_def mem_ok_def n_def[symmetric]\<close>)
  next
    case (2 b fl)
    obtain s1 f where r: "realloc_cells (Ptr b 0) (length c + n) s = Inr (Ptr f 0, s1)" "mem_ok s1" "f = b \<or> f = next_block s"
      "cells s1 f = cells s b @ replicate n Wild" "\<And>x. x \<noteq> b \<Longrightarrow> x \<noteq> f \<Longrightarrow> cells s1 x = cells s x"
      "next_block s \<le> next_block s1" "f < next_block s1 \<or> f = b"
      "bl_cs_array s1 = bl_cs_array s" "next_array_elem s1 = next_array_elem s" "recs s1 = recs s"
      using realloc_more[OF m 2(1), of "length c + n" n] 2(3) by metis
    have f: "0 < f" "f < next_block s1" using r(3,6,7) 2(1,2) pos by auto
    define s2 where "s2 = s1\<lparr>cells := (cells s1)(f := c @ replicate n NULLP)\<rparr>"
    have clr: "clear_cells (cell_at f (length c)) (int n * PTR_SIZE) s1 = Inr s2"
      using f PTR_pos nn by (simp add: clear_cells_def Let_def r(4) 2(3) s2_def dv)
    have sz: "int (length c) * PTR_SIZE + int n * PTR_SIZE = int (length c + n) * PTR_SIZE" by (simp add: algebra_simps)
    have run: "alloc_contiguous cs s = Inr (True, cs\<lparr>alloc_segs := [arr_seg f (length c) (length c + n) False]\<rparr>, s2)"
      using f clr r(1) unfolding alloc_contiguous_def
      using n27 few by (simp add: 2(4) c ptr_diff_at Let_def ints sz dv nat_add_distrib[symmetric] arr_seg_def del: of_nat_add)
    show ?thesis
      by (rule that[OF run[unfolded n_def]])
        (use r f 2 in \<open>auto simp: s2_def mem_ok_def n_def[symmetric]\<close>)
  qed
qed

section \<open>Appending to an array\<close>

definition array_mem :: "'a lm \<Rightarrow> blk_list_cs \<Rightarrow> ptr list \<Rightarrow> ptr list \<Rightarrow> bool" where
  "array_mem s cs L A \<longleftrightarrow> alloc_segs cs = [] \<and> L = [] \<and> A = [] \<or>
     (\<exists>b m. 0 < b \<and> b < next_block s \<and> cells s b = L @ NULLP # A @ replicate m NULLP \<and>
        alloc_segs cs = [arr_seg b (length L) (length (cells s b)) False])"

definition array_ok :: "'a lm \<Rightarrow> blk_list_cs \<Rightarrow> ptr list \<Rightarrow> ptr list \<Rightarrow> bool" where
  "array_ok s cs L A \<longleftrightarrow> array_cs cs \<and> total_elem cs = int (length L) \<and> length L < 2 ^ 27 \<and> array_mem s cs L A"

lemma bl_next_avail_array:
  assumes ok: "lm_ok s" and m: "mem_ok s" and h: "h < next_array_elem s" and sl: "slot s h = Some cs"
    and a: "array_ok s cs L []"
  obtains b n s' where "bl_next_avail z (int h) s = Inr (cell_at b (length L), s')" "lm_ok s'" "keeps {h} s s'"
    "mem_ok s'" "cells s' b = L @ NULLP # replicate n NULLP" "0 < b" "b < next_block s'" "recs s' = recs s"
    "slot s' h = Some (cs\<lparr>total_elem := int (length L) + 1,
       alloc_segs := [arr_seg b (Suc (length L)) (length L + Suc n) (n = 0)]\<rparr>)"
proof -
  have hM: "h < MAX_ARRAYS" using lm_okD(2)[OF ok] h by simp
  have cs: "array_cs cs" and tot: "total_elem cs = int (length L)" and mem: "array_mem s cs L []"
    and few: "length L < 2 ^ 27" using a by (simp_all add: array_ok_def)
  have one: "cint (int (length L) + 1) = Inr (int (length L) + 1)" using few by (intro cint_ok) (simp add: in_int_def)
  have room: "\<exists>b n s1. (if alloc_segs cs = [] \<or> seg_full (last (alloc_segs cs)) then alloc_next_seg z cs s
      else Inr (True, cs, s)) = Inr (True, cs\<lparr>alloc_segs := [arr_seg b (length L) (length L + Suc n) False]\<rparr>, s1) \<and>
    mem_ok s1 \<and> cells s1 b = L @ NULLP # replicate n NULLP \<and> 0 < b \<and> b < next_block s1 \<and> recs s1 = recs s \<and>
    (b \<in> set (map seg_block (alloc_segs cs)) \<or> next_block s \<le> b) \<and> next_block s \<le> next_block s1 \<and>
    bl_cs_array s1 = bl_cs_array s \<and> next_array_elem s1 = next_array_elem s \<and>
    (\<forall>x. 0 < x \<and> x \<noteq> b \<longrightarrow> cells s1 x = cells s x)"
  proof (cases "alloc_segs cs = []")
    case True
    then have L: "L = []" using mem by (simp add: array_mem_def)
    have c: "contiguous cs" "0 < count_per_block cs" using cs by (simp_all add: array_cs_def)
    then obtain n where n: "nat (count_per_block cs) = Suc n" by (metis Suc_pred zero_less_nat_eq)
    have fi: "filled cs [] s" using True by (simp add: filled_def)
    obtain s1 f where r:
      "alloc_contiguous cs s = Inr (True, cs\<lparr>alloc_segs := [arr_seg f (length ([] :: ptr list)) (length ([] :: ptr list) + nat (count_per_block cs)) False]\<rparr>, s1)"
      "mem_ok s1" "cells s1 f = [] @ replicate (nat (count_per_block cs)) NULLP" "0 < f" "f < next_block s1"
      "f \<in> set (map seg_block (alloc_segs cs)) \<or> next_block s \<le> f"
      "\<And>x. 0 < x \<Longrightarrow> x \<notin> set (map seg_block (alloc_segs cs)) \<Longrightarrow> x \<noteq> f \<Longrightarrow> cells s1 x = cells s x"
      "next_block s \<le> next_block s1"
      "bl_cs_array s1 = bl_cs_array s" "next_array_elem s1 = next_array_elem s" "recs s1 = recs s"
      by (rule alloc_contiguous_ok[OF m cs fi lm_okD(3)[OF ok]], simp, rule that, assumption+)
    show ?thesis
      by (rule exI[of _ f], rule exI[of _ n], rule exI[of _ s1])
        (use True L c r in \<open>simp add: alloc_next_seg_def n\<close>)
  next
    case False
    then obtain b n where b: "0 < b" "b < next_block s" "cells s b = L @ NULLP # replicate n NULLP"
      "alloc_segs cs = [arr_seg b (length L) (length (cells s b)) False]"
      using mem by (auto simp: array_mem_def)
    then show ?thesis
      by (intro exI[of _ b] exI[of _ n] exI[of _ s]) (use m in simp)
  qed
  then obtain b n s1 where r: "(if alloc_segs cs = [] \<or> seg_full (last (alloc_segs cs)) then alloc_next_seg z cs s
      else Inr (True, cs, s)) = Inr (True, cs\<lparr>alloc_segs := [arr_seg b (length L) (length L + Suc n) False]\<rparr>, s1)"
    and s1: "mem_ok s1" "cells s1 b = L @ NULLP # replicate n NULLP" "0 < b" "b < next_block s1" "recs s1 = recs s"
    "b \<in> set (map seg_block (alloc_segs cs)) \<or> next_block s \<le> b" "next_block s \<le> next_block s1"
    "bl_cs_array s1 = bl_cs_array s" "next_array_elem s1 = next_array_elem s"
    "\<And>x. 0 < x \<Longrightarrow> x \<noteq> b \<Longrightarrow> cells s1 x = cells s x" by blast
  define cs' where "cs' = cs\<lparr>total_elem := int (length L) + 1,
    alloc_segs := [arr_seg b (Suc (length L)) (length L + Suc n) (n = 0)]\<rparr>"
  define s' where "s' = put_cs (int h) cs' s1"
  have sz: "struct_size cs = PTR_SIZE" using cs by (simp add: array_cs_def)
  have "((int (Suc (length L)) - int (length L + Suc n)) * PTR_SIZE \<ge> 0) = (n = 0)" unfolding diff_at_ge by simp
  then have run: "bl_next_avail z (int h) s = Inr (cell_at b (length L), s')"
    using h unfolding bl_next_avail_def list_cs_Some[OF sl] rbind_simps r
    by (simp add: invalid_handle_def sz padd_at ptr_diff_at Let_def s'_def cs'_def tot one del: padd.simps ptr_diff.simps of_nat_Suc of_nat_add)
  have arr: "bl_cs_array s' = (bl_cs_array s)[h := Some cs']" "next_array_elem s' = next_array_elem s"
    "next_block s \<le> next_block s'" "cells s' = cells s1" "recs s' = recs s" "mem_ok s'" "next_block s' = next_block s1"
    using s1 by (auto simp: s'_def put_cs_def mem_ok_def)
  have step: "lm_ok s'" "keeps {h} s s'" "slot s' h = Some cs'"
    using list_step[OF ok h arr(1-3,6)] s1(4,6,10) arr by (auto simp: cs'_def sl)
  show ?thesis
    by (rule that[OF run step(1,2)]) (use s1 arr step in \<open>auto simp: cs'_def\<close>)
qed

text \<open>Storing in a block of list \<open>h\<close>.\<close>

lemma keeps_cells:
  assumes ok: "lm_ok s" and h: "h < MAX_ARRAYS" and b: "b \<in> set (slot_blocks (slot s h))"
  shows "keeps {h} s (s\<lparr>cells := (cells s)(b := c)\<rparr>)" "lm_ok (s\<lparr>cells := (cells s)(b := c)\<rparr>)"
proof -
  have "x \<noteq> b" if "i < MAX_ARRAYS" "i \<noteq> h" "x \<in> set (slot_blocks (slot s i))" for i x
    using lm_okD(7)[OF ok that(1) h that(2,3)] b by blast
  then show "keeps {h} s (s\<lparr>cells := (cells s)(b := c)\<rparr>)" by (auto simp: keeps_def mem_ok_def)
  show "lm_ok (s\<lparr>cells := (cells s)(b := c)\<rparr>)" using ok by (simp add: lm_ok_def)
qed

definition append_ptr :: "'a \<Rightarrow> nat \<Rightarrow> ptr \<Rightarrow> 'a lm \<Rightarrow> (ptr \<times> 'a lm) res" where
  "append_ptr z h p s =
     rbind (bl_next_avail z (int h) s) (\<lambda>(pointer_area, s2).
     rbind (cell_put pointer_area p s2) (\<lambda>s3.
     rbind (list_cs s3 (int h)) (\<lambda>cs3.
     if seg_full (hd (alloc_segs cs3)) then ar_grow z (int h) pointer_area s3
     else Inr (pointer_area, s3))))"

lemma ar_grow_ok:
  assumes ok: "lm_ok s" and m: "mem_ok s" and h: "h < next_array_elem s" and sl: "slot s h = Some cs"
    and cs: "array_cs cs" and few: "length c < 2 ^ 27" and b: "0 < b" "b < next_block s" "cells s b = c"
    and seg: "alloc_segs cs = [arr_seg b (length c) (length c) f]"
  obtains b' n s' where "ar_grow z (int h) (cell_at b k) s = Inr (cell_at b' k, s')" "lm_ok s'" "keeps {h} s s'"
    "mem_ok s'" "cells s' b' = c @ NULLP # replicate n NULLP" "0 < b'" "b' < next_block s'" "recs s' = recs s"
    "slot s' h = Some (cs\<lparr>alloc_segs := [arr_seg b' (length c) (length c + Suc n) False]\<rparr>)"
proof -
  have hM: "h < MAX_ARRAYS" using lm_okD(2)[OF ok] h by simp
  have fi: "filled cs c s" using b seg by (auto simp: filled_def)
  have c: "contiguous cs" "0 < count_per_block cs" using cs by (simp_all add: array_cs_def)
  then obtain n where n: "nat (count_per_block cs) = Suc n" by (metis Suc_pred zero_less_nat_eq)
  obtain s1 b' where r:
    "alloc_contiguous cs s = Inr (True, cs\<lparr>alloc_segs := [arr_seg b' (length c) (length c + nat (count_per_block cs)) False]\<rparr>, s1)"
    "mem_ok s1" "cells s1 b' = c @ replicate (nat (count_per_block cs)) NULLP" "0 < b'" "b' < next_block s1"
    "b' \<in> set (map seg_block (alloc_segs cs)) \<or> next_block s \<le> b'"
    "\<And>x. 0 < x \<Longrightarrow> x \<notin> set (map seg_block (alloc_segs cs)) \<Longrightarrow> x \<noteq> b' \<Longrightarrow> cells s1 x = cells s x"
    "next_block s \<le> next_block s1"
    "bl_cs_array s1 = bl_cs_array s" "next_array_elem s1 = next_array_elem s" "recs s1 = recs s"
    by (rule alloc_contiguous_ok[OF m cs fi lm_okD(3)[OF ok] few], rule that, assumption+)
  define cs' where "cs' = cs\<lparr>alloc_segs := [arr_seg b' (length c) (length c + Suc n) False]\<rparr>"
  define s' where "s' = put_cs (int h) cs' s1"
  have arr: "bl_cs_array s' = (bl_cs_array s)[h := Some cs']" "next_array_elem s' = next_array_elem s"
    "next_block s \<le> next_block s'" "cells s' = cells s1" "recs s' = recs s" "mem_ok s'" "next_block s' = next_block s1"
    using r by (auto simp: s'_def put_cs_def mem_ok_def)
  have sl': "slot s' h = Some cs'" using hM lm_okD(1)[OF ok] by (simp add: arr)
  have hd: "ar_get_head (int h) s = Inr (Ptr b 0)" "ar_get_head (int h) s' = Inr (Ptr b' 0)"
    using h unfolding ar_get_head_def list_cs_Some[OF sl] list_cs_Some[OF sl']
    by (simp_all add: invalid_handle_def arr seg cs'_def)
  have run: "ar_grow z (int h) (cell_at b k) s = Inr (cell_at b' k, s')"
    unfolding ar_grow_def hd(1) rbind_simps list_cs_Some[OF sl] alloc_next_seg_def
    using c r(1) hd(2) by (simp add: n cs'_def[symmetric] s'_def[symmetric] Let_def ptr_diff_at padd_at del: padd.simps ptr_diff.simps add_Suc_right)
  have step: "lm_ok s'" "keeps {h} s s'"
    using list_step[OF ok h arr(1-3,6)] r(5-7) arr by (auto simp: cs'_def sl)
  show ?thesis
    by (rule that[OF run step]) (use r arr sl' in \<open>auto simp: cs'_def n\<close>)
qed

lemma append_ptr_ok:
  assumes ok: "lm_ok s" and m: "mem_ok s" and h: "h < next_array_elem s" and sl: "slot s h = Some cs"
    and a: "array_ok s cs L []" and few: "Suc (length L) < 2 ^ 27"
  obtains q s' cs' where "append_ptr z h p s = Inr (q, s')" "lm_ok s'" "mem_ok s'" "keeps {h} s s'" "recs s' = recs s"
    "slot s' h = Some cs'" "data_handle cs' = data_handle cs" "array_ok s' cs' (L @ [p]) []" "cell_get s' q = Inr p"
proof -
  have hM: "h < MAX_ARRAYS" using lm_okD(2)[OF ok] h by simp
  have cs: "array_cs cs" using a by (simp add: array_ok_def)
  obtain b n s2 where r: "bl_next_avail z (int h) s = Inr (cell_at b (length L), s2)" "lm_ok s2" "keeps {h} s s2"
    "mem_ok s2" "cells s2 b = L @ NULLP # replicate n NULLP" "0 < b" "b < next_block s2" "recs s2 = recs s"
    "slot s2 h = Some (cs\<lparr>total_elem := int (length L) + 1,
       alloc_segs := [arr_seg b (Suc (length L)) (length L + Suc n) (n = 0)]\<rparr>)"
    using bl_next_avail_array[OF ok m h sl a] .
  define c where "c = (cells s2 b)[length L := p]"
  have c: "c = (L @ [p]) @ replicate n NULLP" by (simp add: c_def r(5))
  define s3 where "s3 = s2\<lparr>cells := (cells s2)(b := c)\<rparr>"
  have b2: "b \<in> set (slot_blocks (slot s2 h))" by (simp add: r(9))
  have s3: "lm_ok s3" "mem_ok s3" "keeps {h} s s3" "recs s3 = recs s" "cells s3 b = c" "b < next_block s3"
    using keeps_cells[OF r(2) hM b2, of c] keeps_trans[OF r(3) keeps_cells(1)[OF r(2) hM b2, of c]] r(4,7,8)
    by (auto simp: s3_def mem_ok_def)
  have sl3: "slot s3 h = slot s2 h" by (simp add: s3_def)
  have h3: "h < next_array_elem s3" using keepsD(1)[OF s3(3)] h by simp
  have put: "cell_put (cell_at b (length L)) p s2 = Inr s3" using r(5,6) by (simp add: s3_def c_def)
  have run: "append_ptr z h p s = (if n = 0 then ar_grow z (int h) (cell_at b (length L)) s3
      else Inr (cell_at b (length L), s3))"
    unfolding append_ptr_def r(1) rbind_simps prod.case put list_cs_Some[OF sl3[unfolded r(9)]] by simp
  show ?thesis
  proof (cases "n = 0")
    case False
    then obtain k where k: "n = Suc k" by (cases n) auto
    have "array_ok s3 (cs\<lparr>total_elem := int (length L) + 1,
       alloc_segs := [arr_seg b (Suc (length L)) (length L + Suc n) (n = 0)]\<rparr>) (L @ [p]) []"
      using cs r(6) s3(6) few unfolding array_ok_def array_mem_def
      by (intro conjI disjI2 exI[of _ b] exI[of _ k]) (auto simp: array_cs_def s3(5) c k)
    then show ?thesis
      using that[OF run[unfolded if_not_P[OF False]] s3(1-4) sl3[unfolded r(9)]] r(6) s3(5) c by simp
  next
    case True
    have lc: "length c = Suc (length L)" by (simp add: c True)
    have seg3: "alloc_segs (cs\<lparr>total_elem := int (length L) + 1,
       alloc_segs := [arr_seg b (Suc (length L)) (length L + Suc n) (n = 0)]\<rparr>) = [arr_seg b (length c) (length c) True]"
      by (simp add: True c)
    have cs3: "array_cs (cs\<lparr>total_elem := int (length L) + 1,
       alloc_segs := [arr_seg b (Suc (length L)) (length L + Suc n) (n = 0)]\<rparr>)" using cs by (simp add: array_cs_def)
    obtain b' n' s' where g: "ar_grow z (int h) (cell_at b (length L)) s3 = Inr (cell_at b' (length L), s')" "lm_ok s'"
      "keeps {h} s3 s'" "mem_ok s'" "cells s' b' = c @ NULLP # replicate n' NULLP" "0 < b'" "b' < next_block s'"
      "recs s' = recs s3" "slot s' h = Some (cs\<lparr>total_elem := int (length L) + 1,
       alloc_segs := [arr_seg b (Suc (length L)) (length L + Suc n) (n = 0)],
       alloc_segs := [arr_seg b' (length c) (length c + Suc n') False]\<rparr>)"
      by (rule ar_grow_ok[OF s3(1,2) h3 sl3[unfolded r(9)] cs3 few[folded lc] r(6) s3(6,5) seg3, where k = "length L" and z = z],
          rule that, assumption+)
    have arr: "array_ok s' (cs\<lparr>total_elem := int (length L) + 1,
       alloc_segs := [arr_seg b (Suc (length L)) (length L + Suc n) (n = 0)],
       alloc_segs := [arr_seg b' (length c) (length c + Suc n') False]\<rparr>) (L @ [p]) []"
      using cs g(5-7) few unfolding array_ok_def array_mem_def
      by (intro conjI disjI2 exI[of _ b'] exI[of _ n']) (auto simp: array_cs_def lc c True)
    have "cell_get s' (cell_at b' (length L)) = Inr p" using g(5,6) by (simp add: c True)
    then show ?thesis
      using that[OF run[unfolded if_P[OF True] g(1)] g(2,4) _ _ g(9) _ arr] keeps_trans[OF s3(3) g(3)] g(8) s3(4)
      by simp
  qed
qed

section \<open>The representation of an array\<close>

definition ar_lay :: "'a \<Rightarrow> 'a lm \<Rightarrow> nat \<Rightarrow> ptr list \<Rightarrow> ptr list \<Rightarrow> ptr multiset \<Rightarrow> bool" where
  "ar_lay z s h L A M \<longleftrightarrow> lm_ok s \<and> mem_ok s \<and> 0 < h \<and> h < next_array_elem s \<and>
     (\<exists>cs dcs bns. slot s h = Some cs \<and> slot s (h - 1) = Some dcs \<and> data_handle cs = int (h - 1) \<and>
        array_ok s cs L A \<and> data_ok dcs bns \<and> blank z s (struct_size dcs) bns \<and>
        M = mset (handed (struct_size dcs) bns) \<and> (\<forall>p\<in>set A. recs s p = z) \<and> set L \<union> set A \<subseteq> set_mset M)"

definition ar_rep :: "'a \<Rightarrow> 'a lm \<Rightarrow> nat \<Rightarrow> ptr list \<Rightarrow> ptr list \<Rightarrow> bool" where
  "ar_rep z s h L A \<longleftrightarrow> ar_lay z s h L A (mset (L @ A))"

lemma ar_layE:
  assumes "ar_lay z s h L A M"
  obtains cs dcs bns where "lm_ok s" "mem_ok s" "0 < h" "h < next_array_elem s" "slot s h = Some cs"
    "slot s (h - 1) = Some dcs" "data_handle cs = int (h - 1)" "array_ok s cs L A" "data_ok dcs bns"
    "blank z s (struct_size dcs) bns" "M = mset (handed (struct_size dcs) bns)" "\<forall>p\<in>set A. recs s p = z"
    "set L \<union> set A \<subseteq> set_mset M"
  using assms unfolding ar_lay_def by blast

lemma handed_block:
  assumes ok: "lm_ok s" and h: "h < MAX_ARRAYS" and sl: "slot s h = Some cs" and d: "data_ok cs bns"
    and p: "p \<in> set (handed (struct_size cs) bns)"
  obtains b k where "p = Ptr b k" "b \<in> set (slot_blocks (slot s h))" "0 < b"
proof -
  obtain b n k where b: "(b, n) \<in> set bns" "p = Ptr b (int k * struct_size cs)" using p by (auto simp: in_handed)
  have "b \<in> set (map fst bns)" using b(1) by force
  then have "b \<in> set (slot_blocks (slot s h))" using data_blocks[OF d] by (simp add: sl)
  then show ?thesis using that b(2) lm_okD(6)[OF ok h] by blast
qed

lemma distinct_handed:
  assumes "distinct (map fst bns)" "0 < sz"
  shows "distinct (handed sz bns)"
  using assms(1)
proof (induction bns)
  case (Cons bn bns)
  have "distinct (block_recs sz bn)" using assms(2) by (auto simp: block_recs_def distinct_map inj_on_def)
  moreover have nb: "(fst bn, n) \<notin> set bns" for n
    using Cons.prems by (metis distinct.simps(2) fst_conv image_eqI list.map(2) list.set_map)
  have "set (block_recs sz bn) \<inter> set (handed sz bns) = {}" by (auto simp: block_recs_def in_handed nb)
  ultimately show ?case using Cons handed_simps(2)[of sz "[bn]" bns] by simp
qed simp

lemma ar_rep_distinct:
  assumes "ar_rep z s h L A"
  shows "distinct (L @ A)" "NULLP \<notin> set (L @ A)"
proof -
  obtain cs dcs bns where r: "lm_ok s" "h < next_array_elem s" "slot s (h - 1) = Some dcs" "data_ok dcs bns"
    "mset (L @ A) = mset (handed (struct_size dcs) bns)" "set L \<union> set A \<subseteq> set_mset (mset (L @ A))"
    using ar_layE[OF assms[unfolded ar_rep_def]] by metis
  have hM: "h - 1 < MAX_ARRAYS" using lm_okD(2)[OF r(1)] r(2) by simp
  have "distinct (map fst bns)" using lm_okD(5)[OF r(1) hM] data_blocks[OF r(4)] r(3) by simp
  then have "distinct (handed (struct_size dcs) bns)" using r(4) by (intro distinct_handed) (auto simp: data_ok_def)
  then show "distinct (L @ A)" using r(5) by (metis mset_eq_imp_distinct_iff)
  have "set (L @ A) = set (handed (struct_size dcs) bns)" using r(5) by (metis mset_eq_setD)
  then show "NULLP \<notin> set (L @ A)" using handed_block[OF r(1) hM r(3,4), of NULLP] by force
qed

lemma reclaimable_none:
  assumes "array_ok s cs L []"
  shows "reclaimable cs s = Inr None"
proof (cases "alloc_segs cs = []")
  case False
  then obtain b m where b: "0 < b" "cells s b = L @ NULLP # replicate m NULLP"
    "alloc_segs cs = [arr_seg b (length L) (length (cells s b)) False]"
    using assms by (auto simp: array_ok_def array_mem_def)
  have sz: "struct_size cs = PTR_SIZE" using assms by (simp add: array_ok_def array_cs_def)
  show ?thesis
  proof (cases m)
    case 0
    then show ?thesis
      unfolding reclaimable_def using b(1)
      by (simp add: b(2,3) sz Let_def padd_at ptr_diff_at del: padd.simps ptr_diff.simps of_nat_Suc of_nat_add)
  next
    case (Suc k)
    then have g: "cell_get s (cell_at b (Suc (length L))) = Inr NULLP" using b(1,2) by (simp add: nth_append del: of_nat_Suc)
    have "\<not> (int (Suc (length L)) - int (length (cells s b))) * PTR_SIZE \<ge> 0" unfolding diff_at_ge b(2) by (simp add: Suc)
    then show ?thesis
      unfolding reclaimable_def
      by (simp add: b(3) sz Let_def padd_at ptr_diff_at g del: padd.simps ptr_diff.simps of_nat_Suc of_nat_add)
  qed
qed (simp add: reclaimable_def)

lemma array_some:
  assumes a: "array_ok s cs L A" and ne: "A \<noteq> [] \<or> L \<noteq> []"
  obtains b m where "0 < b" "b < next_block s" "cells s b = L @ NULLP # A @ replicate m NULLP"
    "alloc_segs cs = [arr_seg b (length L) (length (cells s b)) False]" "array_cs cs" "struct_size cs = PTR_SIZE"
    "total_elem cs = int (length L)" "contiguous cs"
  using assms by (auto simp: array_ok_def array_mem_def array_cs_def)

lemma reclaimable_some:
  assumes a: "array_ok s cs L (p # A)" and p: "p \<noteq> NULLP"
  shows "reclaimable cs s = Inr (Some p)"
proof -
  obtain b m where b: "0 < b" "cells s b = L @ NULLP # (p # A) @ replicate m NULLP"
    "alloc_segs cs = [arr_seg b (length L) (length (cells s b)) False]" "struct_size cs = PTR_SIZE"
    using array_some[OF a] by blast
  have g: "cell_get s (cell_at b (Suc (length L))) = Inr p" using b(1,2) by (simp add: nth_append del: of_nat_Suc)
  have "\<not> (int (Suc (length L)) - int (length (cells s b))) * PTR_SIZE \<ge> 0" unfolding diff_at_ge b(2) by simp
  then show ?thesis
    unfolding reclaimable_def using p
    by (simp add: b(3,4) Let_def padd_at ptr_diff_at g del: padd.simps ptr_diff.simps of_nat_Suc of_nat_add)
qed

lemma ar_reuse_ok:
  assumes ok: "lm_ok s" and m: "mem_ok s" and h: "h < next_array_elem s" and sl: "slot s h = Some cs"
    and a: "array_ok s cs L (p # A)" and few: "Suc (length L) < 2 ^ 27"
  obtains q s' cs' where "ar_reuse (int h) cs p s = Inr (q, s')" "lm_ok s'" "mem_ok s'" "keeps {h} s s'" "recs s' = recs s"
    "slot s' h = Some cs'" "data_handle cs' = data_handle cs" "array_ok s' cs' (L @ [p]) A" "cell_get s' q = Inr p"
proof -
  obtain b n where b: "0 < b" "b < next_block s" "cells s b = L @ NULLP # (p # A) @ replicate n NULLP"
    "alloc_segs cs = [arr_seg b (length L) (length (cells s b)) False]" "array_cs cs" "struct_size cs = PTR_SIZE"
    "total_elem cs = int (length L)"
    using array_some[OF a] by blast
  have one: "cint (int (length L) + 1) = Inr (int (length L) + 1)" using few by (intro cint_ok) (simp add: in_int_def)
  define c where "c = L @ p # NULLP # A @ replicate n NULLP"
  define cs' where "cs' = cs\<lparr>total_elem := int (length L) + 1, alloc_segs := [arr_seg b (Suc (length L)) (length c) False]\<rparr>"
  define s' where "s' = put_cs (int h) cs' (s\<lparr>cells := (cells s)(b := c)\<rparr>)"
  have run: "ar_reuse (int h) cs p s = Inr (cell_at b (length L), s')"
    unfolding ar_reuse_def using b(1)
    by (simp add: b(3,4,6,7) one Let_def padd_at list_update_append s'_def cs'_def c_def del: padd.simps of_nat_Suc of_nat_add)
  have arr: "bl_cs_array s' = (bl_cs_array s)[h := Some cs']" "next_array_elem s' = next_array_elem s"
    "next_block s' = next_block s" "cells s' = (cells s)(b := c)" "recs s' = recs s" "mem_ok s'"
    using m by (auto simp: s'_def put_cs_def mem_ok_def)
  have step: "lm_ok s'" "keeps {h} s s'" "slot s' h = Some cs'"
    using list_step[OF ok h arr(1,2) _ arr(6)] arr by (auto simp: cs'_def sl b(4))
  have "array_ok s' cs' (L @ [p]) A"
    using b(1,2,5) few unfolding array_ok_def array_mem_def
    by (intro conjI disjI2 exI[of _ b] exI[of _ n]) (auto simp: cs'_def array_cs_def arr c_def)
  moreover have "cell_get s' (cell_at b (length L)) = Inr p" using b(1) by (simp add: arr c_def)
  ultimately show ?thesis
    by (intro that[OF run step(1) arr(6) step(2) arr(5) step(3)]) (simp_all add: cs'_def)
qed

section \<open>The next element\<close>

lemma array_ok_grows:
  assumes a: "array_ok s cs L A" and c: "\<And>b. b \<in> set (slot_blocks (Some cs)) \<Longrightarrow> cells s' b = cells s b"
    and n: "next_block s \<le> next_block s'"
  shows "array_ok s' cs L A"
  using a c n unfolding array_ok_def array_mem_def by fastforce

lemma ar_next_avail_split:
  assumes "h < next_array_elem s" "0 < h" "slot s h = Some cs" "data_handle cs = int (h - 1)" "contiguous cs"
    "reclaimable cs s = Inr r"
  shows "ar_next_avail z (int h) s = (case r of
      Some p \<Rightarrow> ar_reuse (int h) cs p s
    | None \<Rightarrow> rbind (bl_next_avail z (int (h - 1)) s) (\<lambda>(p, s1). append_ptr z h p s1))"
  using assms unfolding ar_next_avail_def append_ptr_def
  by (simp add: invalid_handle_def list_cs_Some of_nat_diff split: option.split)

lemma ar_layI:
  assumes "lm_ok s" "mem_ok s" "0 < h" "h < next_array_elem s" "slot s h = Some cs"
    "slot s (h - 1) = Some dcs" "data_handle cs = int (h - 1)" "array_ok s cs L A" "data_ok dcs bns"
    "blank z s (struct_size dcs) bns" "M = mset (handed (struct_size dcs) bns)" "\<forall>p\<in>set A. recs s p = z"
    "set L \<union> set A \<subseteq> set_mset M"
  shows "ar_lay z s h L A M"
  using assms unfolding ar_lay_def by blast

lemma ar_repI:
  assumes "lm_ok s" "mem_ok s" "0 < h" "h < next_array_elem s" "slot s h = Some cs"
    "slot s (h - 1) = Some dcs" "data_handle cs = int (h - 1)" "array_ok s cs L A" "data_ok dcs bns"
    "blank z s (struct_size dcs) bns" "mset (L @ A) = mset (handed (struct_size dcs) bns)" "\<forall>p\<in>set A. recs s p = z"
  shows "ar_rep z s h L A"
  unfolding ar_rep_def by (rule ar_layI[OF assms]) simp

theorem ar_next_avail_rep:
  assumes rep: "ar_rep z s h L A" and few: "Suc (length L) < 2 ^ 27"
  obtains p q s' where "ar_next_avail z (int h) s = Inr (q, s')" "ar_rep z s' h (L @ [p]) (tl A)"
    "A \<noteq> [] \<Longrightarrow> p = hd A" "cell_get s' q = Inr p" "recs s' p = z" "p \<notin> set L"
    "\<And>x. x \<in> set L \<union> set A \<Longrightarrow> recs s' x = recs s x" "keeps {h - 1, h} s s'"
proof -
  obtain cs dcs bns where r: "lm_ok s" "mem_ok s" "0 < h" "h < next_array_elem s" "slot s h = Some cs"
    "slot s (h - 1) = Some dcs" "data_handle cs = int (h - 1)" "array_ok s cs L A" "data_ok dcs bns"
    "blank z s (struct_size dcs) bns" "mset (L @ A) = mset (handed (struct_size dcs) bns)" "\<forall>p\<in>set A. recs s p = z"
    "set L \<union> set A \<subseteq> set_mset (mset (L @ A))"
    using ar_layE[OF rep[unfolded ar_rep_def]] .
  note dn = ar_rep_distinct[OF rep]
  have hM: "h < MAX_ARRAYS" "h - 1 < MAX_ARRAYS" using lm_okD(2)[OF r(1)] r(4) by auto
  have ct: "contiguous cs" using r(8) by (simp add: array_ok_def array_cs_def)
  show ?thesis
  proof (cases A)
    case Nil
    have run: "ar_next_avail z (int h) s = rbind (bl_next_avail z (int (h - 1)) s) (\<lambda>(p, s1). append_ptr z h p s1)"
      using ar_next_avail_split[OF r(4,3,5,7) ct reclaimable_none] r(8) Nil by simp
    have h1: "h - 1 < next_array_elem s" using r(4) by simp
    have n27: "sum_list (map snd bns) < 2 ^ 27"
      using few Nil mset_eq_length[OF r(11)] unfolding length_handed by simp
    obtain p s1 dcs1 bns1 where d: "bl_next_avail z (int (h - 1)) s = Inr (p, s1)" "lm_ok s1" "keeps {h - 1} s s1"
      "slot s1 (h - 1) = Some dcs1" "data_ok dcs1 bns1" "struct_size dcs1 = struct_size dcs"
      "handed (struct_size dcs) bns1 = handed (struct_size dcs) bns @ [p]"
      "blank z s1 (struct_size dcs) bns1" "cells s1 = cells s" "recs s1 p = z"
      "\<And>b k. b \<in> set (slot_blocks (Some dcs)) \<Longrightarrow> recs s1 (Ptr b k) = recs s (Ptr b k)"
      using bl_next_avail_data[OF r(1,2) h1 r(6,9,10) n27] by metis
    have sl1: "slot s1 h = Some cs" using keepsD(4)[OF d(3) hM(1)] r(3,5) by simp
    have h1': "h < next_array_elem s1" using keepsD(1)[OF d(3)] r(4) by simp
    have a1: "array_ok s1 cs L []"
      using array_ok_grows[OF r(8), of s1] keepsD(2)[OF d(3)] d(9) Nil by simp
    obtain q s' cs' where e: "append_ptr z h p s1 = Inr (q, s')" "lm_ok s'" "mem_ok s'" "keeps {h} s1 s'" "recs s' = recs s1"
      "slot s' h = Some cs'" "data_handle cs' = data_handle cs" "array_ok s' cs' (L @ [p]) []" "cell_get s' q = Inr p"
      using append_ptr_ok[OF d(2) keepsD(3)[OF d(3) r(2)] h1' sl1 a1 few] by metis
    have k: "keeps {h - 1, h} s s'" using keeps_trans[OF d(3) e(4)] by (simp add: insert_commute)
    have sl': "slot s' (h - 1) = Some dcs1" using keepsD(4)[OF e(4) hM(2)] r(3) d(4) by simp
    have M: "mset ((L @ [p]) @ tl A) = mset (handed (struct_size dcs1) bns1)" using r(11) d(6,7) Nil by simp
    have rep': "ar_rep z s' h (L @ [p]) (tl A)"
      by (rule ar_repI[OF e(2,3) r(3) _ e(6) sl' _ _ d(5) _ M])
        (use e r(7) keepsD(1)[OF k] r(4) Nil d(6,8) in \<open>auto simp: blank_def\<close>)
    have keep: "recs s' x = recs s x" if "x \<in> set L \<union> set A" for x
    proof -
      have "x \<in> set (handed (struct_size dcs) bns)" using that r(11) by (metis mset_eq_setD set_append)
      then show ?thesis using handed_block[OF r(1) hM(2) r(6,9)] d(11) e(5) r(6) by metis
    qed
    show ?thesis
      using that[OF _ rep' _ e(9) _ _ keep k] run d(1,10) e(1,5) Nil ar_rep_distinct(1)[OF rep'] by simp
  next
    case (Cons p A')
    have pn: "p \<noteq> NULLP" using dn(2) Cons by auto
    have run: "ar_next_avail z (int h) s = ar_reuse (int h) cs p s"
      using ar_next_avail_split[OF r(4,3,5,7) ct reclaimable_some] r(8) Cons pn by simp
    obtain q s' cs' where e: "ar_reuse (int h) cs p s = Inr (q, s')" "lm_ok s'" "mem_ok s'" "keeps {h} s s'" "recs s' = recs s"
      "slot s' h = Some cs'" "data_handle cs' = data_handle cs" "array_ok s' cs' (L @ [p]) A'" "cell_get s' q = Inr p"
      using ar_reuse_ok[OF r(1,2,4,5) _ few] r(8)[unfolded Cons] by metis
    have k: "keeps {h - 1, h} s s'" using e(4) by (auto simp: keeps_def)
    have sl': "slot s' (h - 1) = Some dcs" using keepsD(4)[OF e(4) hM(2)] r(3,6) by simp
    have M: "mset ((L @ [p]) @ tl A) = mset (handed (struct_size dcs) bns)" using r(11) Cons by simp
    have rep': "ar_rep z s' h (L @ [p]) (tl A)"
      by (rule ar_repI[OF e(2,3) r(3) _ e(6) sl' _ _ r(9) _ M])
        (use e r(7,10,12) keepsD(1)[OF k] r(4) Cons in \<open>auto simp: blank_def\<close>)
    show ?thesis
      using that[OF run[unfolded e(1)] rep' _ e(9) _ _ _ k] e(5) r(12) Cons dn(1) by auto
  qed
qed

section \<open>Deleting an element\<close>

lemma move_up_ok:
  assumes "NULLP \<notin> set (y # ys)"
  shows "move_up (X @ y # ys @ NULLP # R) (length X) =
    Inr (length X + length (y # ys), X @ ys @ NULLP # NULLP # R)"
  using assms
proof (induction ys arbitrary: X y)
  case Nil
  then show ?case by (simp add: move_up.simps nth_append list_update_append)
next
  case (Cons w ws)
  have "move_up (X @ y # (w # ws) @ NULLP # R) (length X) = move_up ((X @ [w]) @ w # ws @ NULLP # R) (length (X @ [w]))"
    using Cons.prems by (subst move_up.simps) (auto simp: nth_append list_update_append)
  also have "\<dots> = Inr (length (X @ [w]) + length (w # ws), (X @ [w]) @ ws @ NULLP # NULLP # R)"
    by (rule Cons.IH) (use Cons.prems in simp)
  finally show ?case by simp
qed

lemma ar_get_head_ok:
  assumes "h < next_array_elem s" "slot s h = Some cs" "alloc_segs cs = [arr_seg b k n f]"
  shows "ar_get_head (int h) s = Inr (Ptr b 0)"
  using assms by (simp add: ar_get_head_def invalid_handle_def list_cs_Some)

lemma invalid_record_ok:
  assumes "h < next_array_elem s" "slot s h = Some cs"
  shows "invalid_record s (int h) i = Inr (i < 0 \<or> i > total_elem cs)"
  using assms by (simp add: invalid_record_def invalid_handle_def list_cs_Some)

theorem ar_delete_rep:
  assumes rep: "ar_rep z s h L A" and i: "i < length L"
  obtains s' where "ar_delete z (int h) (int i) s = Inr (1, s')"
    "ar_rep z s' h (take i L @ drop (Suc i) L) (L ! i # A)" "recs s' = (recs s)(L ! i := z)" "keeps {h - 1, h} s s'"
proof -
  obtain cs dcs bns where r: "lm_ok s" "mem_ok s" "0 < h" "h < next_array_elem s" "slot s h = Some cs"
    "slot s (h - 1) = Some dcs" "data_handle cs = int (h - 1)" "array_ok s cs L A" "data_ok dcs bns"
    "blank z s (struct_size dcs) bns" "mset (L @ A) = mset (handed (struct_size dcs) bns)" "\<forall>p\<in>set A. recs s p = z"
    "set L \<union> set A \<subseteq> set_mset (mset (L @ A))"
    using ar_layE[OF rep[unfolded ar_rep_def]] .
  have hM: "h < MAX_ARRAYS" "h - 1 < MAX_ARRAYS" using lm_okD(2)[OF r(1)] r(4) by auto
  define X where "X = take i L"
  define y where "y = L ! i"
  define Y where "Y = drop (Suc i) L"
  have L: "L = X @ y # Y" using i id_take_nth_drop[OF i] by (simp add: X_def y_def Y_def)
  have lX: "length X = i" "0 < length L" using i by (auto simp: X_def)
  note lL = lX(2)
  note dn = ar_rep_distinct[OF rep]
  obtain b m where b: "0 < b" "b < next_block s" "cells s b = L @ NULLP # A @ replicate m NULLP"
    "alloc_segs cs = [arr_seg b (length L) (length (cells s b)) False]" "array_cs cs" "struct_size cs = PTR_SIZE"
    "total_elem cs = int (length L)" "contiguous cs"
    using array_some[OF r(8)] L by blast
  have "y \<in> set (handed (struct_size dcs) bns)" using r(11) L by (metis in_set_conv_decomp mset_eq_setD set_append UnI1)
  then obtain yb yk where y: "y = Ptr yb yk" "yb \<in> set (slot_blocks (slot s (h - 1)))" "0 < yb"
    using handed_block[OF r(1) hM(2) r(6,9)] by metis
  define c where "c = (X @ Y) @ NULLP # (y # A) @ replicate m NULLP"
  define cs' where "cs' = cs\<lparr>total_elem := total_elem cs - 1, alloc_segs := [arr_seg b (length L - 1) (length c) False]\<rparr>"
  define s' where "s' = (put_cs (int h) cs' (s\<lparr>cells := (cells s)(b := c)\<rparr>))\<lparr>recs := (recs s)(y := z)\<rparr>"
  have lc: "length (cells s b) = length c" by (simp add: b(3) c_def L)
  have cell: "cell_get s (cell_at b i) = Inr y" "cell_index s (cell_at b i) = Inr (b, i)"
    using b(1,3) L lX(1) by (simp_all add: nth_append)
  have mv: "move_up (cells s b) i = Inr (length X + length (y # Y), X @ Y @ NULLP # NULLP # A @ replicate m NULLP)"
    using move_up_ok[of y Y X "A @ replicate m NULLP"] dn(2) b(3) L lX(1) by simp
  have upd: "(X @ Y @ NULLP # NULLP # A @ replicate m NULLP)[length X + length (y # Y) := y] = c"
    by (simp add: c_def list_update_append)
  have seg: "[arr_seg b (length L - 1) (length c) False] =
    (hd (alloc_segs cs))\<lparr>avail_ptr := padd (avail_ptr (hd (alloc_segs cs))) (- struct_size cs), seg_full := False\<rparr> # tl (alloc_segs cs)"
    by (simp add: b(4,6) lc padd_at(2)[OF lL] del: padd.simps)
  have lh: "list_cs s (data_handle cs) = Inr dcs" using r(6,7) list_cs_Some by metis
  have few: "length L < 2 ^ 27" using r(8) by (simp add: array_ok_def)
  have one: "cint (int (length L) - 1) = Inr (int (length L) - 1)" using few by (intro cint_ok) (simp add: in_int_def)
  have run: "ar_delete z (int h) (int i) s = Inr (1, s')"
    unfolding ar_delete_def ar_get_head_ok[OF r(4,5) b(4)] rbind_simps invalid_record_ok[OF r(4,5)] list_cs_Some[OF r(5)]
    using b(1,7,8) i by (simp add: one padd_at cell mv upd[unfolded y(1), simplified] lh Let_def seg[symmetric] cs'_def clear_rec_def y(1,3)
        s'_def put_cs_def del: padd.simps)
  have arr: "bl_cs_array s' = (bl_cs_array s)[h := Some cs']" "next_array_elem s' = next_array_elem s"
    "next_block s' = next_block s" "cells s' = (cells s)(b := c)" "recs s' = (recs s)(y := z)" "mem_ok s'"
    using r(2) by (auto simp: s'_def put_cs_def mem_ok_def)
  have bh: "b \<in> set (slot_blocks (slot s h))" by (simp add: r(5) b(4))
  have ok': "lm_ok s'"
    by (rule lm_ok_step[OF r(1,4) arr(1,2)]) (auto simp: cs'_def arr r(5) b(4))
  have keep: "keeps {h - 1, h} s s'"
    unfolding keeps_def using arr lm_okD(7)[OF r(1) _ hM(1) _ _] lm_okD(7)[OF r(1) _ hM(2) _ _] bh y by auto
  have a': "array_ok s' cs' (X @ Y) (y # A)"
    using b(1,2,5,7) few unfolding array_ok_def array_mem_def
    by (intro conjI disjI2 exI[of _ b] exI[of _ m]) (auto simp: cs'_def array_cs_def arr c_def L)
  have "ar_rep z s' h (X @ Y) (y # A)"
    by (rule ar_repI[OF ok' arr(6) r(3) _ _ _ _ a' r(9)])
      (use arr r hM lm_okD(1)[OF r(1)] in \<open>auto simp: cs'_def blank_def L\<close>)
  then show ?thesis using that[OF run] arr keep by (simp add: X_def Y_def y_def)
qed

text \<open>The index one past the end passes the check, and the record to clear is \<open>NULL\<close>.\<close>

theorem ar_delete_at_end:
  assumes rep: "ar_rep z s h L A" and ne: "L \<noteq> [] \<or> A \<noteq> []"
  shows "ar_delete z (int h) (int (length L)) s = Inl NullDeref"
proof -
  obtain cs where r: "h < next_array_elem s" "slot s h = Some cs" "array_ok s cs L A"
    using ar_layE[OF rep[unfolded ar_rep_def]] by metis
  obtain b m where b: "0 < b" "b < next_block s" "cells s b = L @ NULLP # A @ replicate m NULLP"
    "alloc_segs cs = [arr_seg b (length L) (length (cells s b)) False]" "array_cs cs" "struct_size cs = PTR_SIZE"
    "total_elem cs = int (length L)" "contiguous cs"
    using array_some[OF r(3)] ne by blast
  have cell: "cell_get s (cell_at b (length L)) = Inr NULLP" "cell_index s (cell_at b (length L)) = Inr (b, length L)"
    using b(1,3) by (simp_all add: nth_append)
  have one: "cint (int (length L) - 1) = Inr (int (length L) - 1)"
    using r(3) by (intro cint_ok) (simp add: in_int_def array_ok_def)
  have mv: "move_up (cells s b) (length L) = Inr (length L, cells s b)"
    using b(3) by (subst move_up.simps) (simp add: nth_append)
  show ?thesis
    unfolding ar_delete_def ar_get_head_ok[OF r(1,2) b(4)] rbind_simps invalid_record_ok[OF r(1,2)] list_cs_Some[OF r(2)]
    using b(1,7,8)
    by (simp add: one padd_at cell mv Let_def clear_rec_def list_cs_def split: option.split del: padd.simps)
qed

theorem ar_delete_outside:
  assumes rep: "ar_rep z s h L A" and i: "i < 0 \<or> i > int (length L)"
  shows "ar_delete z (int h) i s = Inr (0, s)"
proof -
  obtain cs where r: "h < next_array_elem s" "slot s h = Some cs" "array_ok s cs L A"
    using ar_layE[OF rep[unfolded ar_rep_def]] by metis
  have t: "total_elem cs = int (length L)" using r(3) by (simp add: array_ok_def)
  have g: "ar_get_head (int h) s = Inr (if alloc_segs cs = [] then NULLP else seg_ptr (hd (alloc_segs cs)))"
    using r(1,2) by (simp add: ar_get_head_def invalid_handle_def list_cs_Some)
  show ?thesis unfolding ar_delete_def g rbind_simps invalid_record_ok[OF r(1,2)] using i by (simp add: t)
qed

section \<open>Use of an array\<close>

text \<open>
  What the callers do with the elements: \<open>*array[i] = v\<close>, and the loop with which \<open>sortentry\<close> moves
  element \<open>j\<close> down to place \<open>i\<close>.
\<close>

definition ar_store :: "nat \<Rightarrow> nat \<Rightarrow> 'a \<Rightarrow> 'a lm \<Rightarrow> 'a lm res" where
  "ar_store h i v s =
     rbind (ar_get_head (int h) s) (\<lambda>array.
     rbind (cell_get s (padd array (int i * PTR_SIZE))) (\<lambda>p.
     clear_rec v p s))"

fun slide_down :: "ptr \<Rightarrow> nat \<Rightarrow> nat \<Rightarrow> 'a lm \<Rightarrow> 'a lm res" where
  "slide_down array i 0 s = Inr s"
| "slide_down array i (Suc j) s =
     (if Suc j > i then
        rbind (cell_get s (padd array (int j * PTR_SIZE))) (\<lambda>v.
        rbind (cell_put (padd array (int (Suc j) * PTR_SIZE)) v s) (slide_down array i j))
      else Inr s)"

definition ar_move :: "nat \<Rightarrow> nat \<Rightarrow> nat \<Rightarrow> 'a lm \<Rightarrow> 'a lm res" where
  "ar_move h j i s =
     rbind (ar_get_head (int h) s) (\<lambda>array.
     rbind (cell_get s (padd array (int j * PTR_SIZE))) (\<lambda>ext.
     rbind (slide_down array i j s) (\<lambda>s1.
     cell_put (padd array (int i * PTR_SIZE)) ext s1)))"

section \<open>Arrays do not interfere\<close>

lemma ar_rep_kinds:
  assumes "ar_rep z s h L A"
  shows "0 < h" "h < next_array_elem s" "lm_ok s" "mem_ok s"
    "\<exists>cs. slot s h = Some cs \<and> contiguous cs" "\<exists>cs. slot s (h - 1) = Some cs \<and> \<not> contiguous cs"
  using ar_layE[OF assms[unfolded ar_rep_def]] unfolding array_ok_def array_cs_def data_ok_def by metis+

theorem ar_rep_frame:
  assumes rep: "ar_rep z s h L A" and other: "ar_rep z s g X B" and gh: "g \<noteq> h"
    and k: "keeps {h - 1, h} s s'" and ok: "lm_ok s'"
  shows "ar_rep z s' g X B" "\<And>x. x \<in> set X \<Longrightarrow> recs s' x = recs s x"
proof -
  obtain cs dcs bns where r: "lm_ok s" "mem_ok s" "0 < g" "g < next_array_elem s" "slot s g = Some cs"
    "slot s (g - 1) = Some dcs" "data_handle cs = int (g - 1)" "array_ok s cs X B" "data_ok dcs bns"
    "blank z s (struct_size dcs) bns" "mset (X @ B) = mset (handed (struct_size dcs) bns)" "\<forall>p\<in>set B. recs s p = z"
    "set X \<union> set B \<subseteq> set_mset (mset (X @ B))"
    using ar_layE[OF other[unfolded ar_rep_def]] .
  have hM: "g < MAX_ARRAYS" "g - 1 < MAX_ARRAYS" using lm_okD(2)[OF r(1)] r(4) by auto
  have ne: "g \<notin> {h - 1, h}" "g - 1 \<notin> {h - 1, h}"
    using ar_rep_kinds[OF rep] ar_rep_kinds[OF other] gh by force+
  have sl: "slot s' g = Some cs" "slot s' (g - 1) = Some dcs"
    using keepsD(4)[OF k hM(1) ne(1)] keepsD(4)[OF k hM(2) ne(2)] r(5,6) by simp_all
  have rec: "recs s' (Ptr b i) = recs s (Ptr b i)" if "b \<in> set (map fst bns)" for b i
    using keepsD(6)[OF k hM(2) ne(2)] that data_blocks[OF r(9)] r(6) by simp
  have hrec: "recs s' x = recs s x" if "x \<in> set (handed (struct_size dcs) bns)" for x
    using that rec by (auto simp: in_handed) force
  have st: "set (X @ B) = set (handed (struct_size dcs) bns)" using r(11) by (metis mset_eq_setD)
  show "ar_rep z s' g X B"
  proof (rule ar_repI[OF ok _ r(3) _ sl r(7) _ r(9) _ r(11)])
    show "array_ok s' cs X B" by (rule array_ok_grows[OF r(8) _ keepsD(2)[OF k]], rule keepsD(5)[OF k hM(1) ne(1)]) (simp add: r(5))
    show "blank z s' (struct_size dcs) bns" using r(10) rec by (auto simp: blank_def) force
    show "\<forall>p\<in>set B. recs s' p = z" using hrec r(12) st by (metis UnCI set_append)
  qed (use keepsD(1,3)[OF k] r in simp_all)
  show "recs s' x = recs s x" if "x \<in> set X" for x using hrec that st by auto
qed

section \<open>Creation\<close>

lemma bl_create_ok:
  assumes ok: "lm_ok s" and m: "mem_ok s" and n: "next_array_elem s < MAX_ARRAYS" and fit: "in_int (cnt * sz)"
  obtains s' where "bl_create cnt sz s = Inr (int (next_array_elem s), s')" "lm_ok s'" "mem_ok s'"
    "next_array_elem s' = Suc (next_array_elem s)" "cells s' = cells s" "recs s' = recs s" "next_block s' = next_block s"
    "bl_cs_array s' = (bl_cs_array s)[next_array_elem s := Some \<lparr>struct_size = sz, count_per_block = cnt,
            block_size = cnt * sz, data_handle = - 1, alloc_segs = [], total_elem = 0, contiguous = False\<rparr>]"
proof -
  obtain c os where a: "next_outcome s = (c, s\<lparr>outcomes := os\<rparr>)" "c \<noteq> Fail" "Fail \<notin> set os"
    using next_outcome_ok[OF m] .
  define s' where "s' = s\<lparr>outcomes := os, next_array_elem := Suc (next_array_elem s),
    bl_cs_array := (bl_cs_array s)[next_array_elem s := Some \<lparr>struct_size = sz, count_per_block = cnt,
            block_size = cnt * sz, data_handle = - 1, alloc_segs = [], total_elem = 0, contiguous = False\<rparr>]\<rparr>"
  have "bl_create cnt sz s = Inr (int (next_array_elem s), s')"
    using a n by (simp add: bl_create_def s'_def Let_def cint_ok[OF fit])
  moreover have "lm_ok s'" using ok n unfolding lm_ok_def s'_def by (simp add: nth_list_update)
  ultimately show ?thesis using that a(3) by (simp add: s'_def mem_ok_def)
qed

theorem ar_create_rep:
  assumes ok: "lm_ok s" and m: "mem_ok s" and n: "Suc (next_array_elem s) < MAX_ARRAYS"
    and sz: "0 < cnt" "0 < sz" and d: "length desc < 52" and fit: "cnt < 2 ^ 27" "in_int (cnt * sz)"
  obtains s' where "ar_create cnt sz desc s = Inr (int (Suc (next_array_elem s)), s')"
    "ar_rep z s' (Suc (next_array_elem s)) [] []" "recs s' = recs s" "cells s' = cells s" "next_block s' = next_block s"
    "\<And>i. i < next_array_elem s \<Longrightarrow> slot s' i = slot s i" "next_array_elem s' = Suc (Suc (next_array_elem s))"
proof -
  define k where "k = next_array_elem s"
  define dcs where "dcs = \<lparr>struct_size = sz, count_per_block = cnt,
            block_size = cnt * sz, data_handle = - 1, alloc_segs = [], total_elem = 0, contiguous = False\<rparr>"
  define cs where "cs = \<lparr>struct_size = PTR_SIZE, count_per_block = cnt,
            block_size = cnt * PTR_SIZE, data_handle = - 1, alloc_segs = [], total_elem = 0, contiguous = False\<rparr>"
  obtain s1 where a: "bl_create cnt sz s = Inr (int k, s1)" "lm_ok s1" "mem_ok s1"
    "next_array_elem s1 = Suc k" "cells s1 = cells s" "recs s1 = recs s" "next_block s1 = next_block s"
    "bl_cs_array s1 = (bl_cs_array s)[k := Some dcs]"
    using bl_create_ok[OF ok m _ fit(2)] n unfolding k_def dcs_def by (metis Suc_lessD)
  have fit8: "in_int (cnt * PTR_SIZE)" using sz(1) fit(1) by (simp add: in_int_def PTR_SIZE_def)
  obtain s2 where b: "bl_create cnt PTR_SIZE s1 = Inr (int (Suc k), s2)" "lm_ok s2" "mem_ok s2"
    "next_array_elem s2 = Suc (Suc k)" "cells s2 = cells s1" "recs s2 = recs s1" "next_block s2 = next_block s1"
    "bl_cs_array s2 = (bl_cs_array s1)[Suc k := Some cs]"
    using bl_create_ok[OF a(2,3) _ fit8] n unfolding a(4) k_def cs_def by metis
  define cs' where "cs' = cs\<lparr>contiguous := True, data_handle := int k\<rparr>"
  define s' where "s' = put_cs (int (Suc k)) cs' s2"
  have len: "length (bl_cs_array s) = MAX_ARRAYS" "Suc k < MAX_ARRAYS" using lm_okD(1)[OF ok] n by (simp_all add: k_def)
  have sl: "slot s2 (Suc k) = Some cs" "slot s2 k = Some dcs" using len by (simp_all add: a(8) b(8))
  have run: "ar_create cnt sz desc s = Inr (int (Suc k), s')"
    unfolding ar_create_def a(1) rbind_simps prod.case b(1) list_cs_Some[OF sl(1)] using d by (simp add: s'_def cs'_def)
  have arr: "bl_cs_array s' = (bl_cs_array s2)[Suc k := Some cs']" "next_array_elem s' = Suc (Suc k)"
    "cells s' = cells s" "recs s' = recs s" "mem_ok s'" "next_block s' = next_block s2"
    using a b by (auto simp: s'_def put_cs_def mem_ok_def simp del: of_nat_Suc)
  have ok': "lm_ok s'"
    by (rule lm_ok_step[OF b(2) _ arr(1)]) (use arr b(4) in \<open>auto simp: cs'_def cs_def\<close>)
  have "ar_rep z s' (Suc k) [] []"
    by (rule ar_repI[OF ok' arr(5), where cs = cs' and dcs = dcs and bns = "[]"])
      (use arr sl len sz fit(1) in \<open>auto simp: b(8) a(8) cs'_def cs_def dcs_def array_ok_def array_cs_def array_mem_def data_ok_def blank_def\<close>)
  then show ?thesis using that run arr by (simp add: k_def a(7,8) b(7,8))
qed

section \<open>Storing records and moving elements\<close>

lemma ar_cell:
  assumes rep: "ar_lay z s h L A M" and i: "i < length L"
  obtains b cs m where "ar_get_head (int h) s = Inr (Ptr b 0)" "0 < b" "cells s b = L @ NULLP # A @ replicate m NULLP"
    "slot s h = Some cs" "b \<in> set (slot_blocks (slot s h))" "b < next_block s"
    "alloc_segs cs = [arr_seg b (length L) (length (cells s b)) False]"
proof -
  obtain cs where r: "h < next_array_elem s" "slot s h = Some cs" "array_ok s cs L A"
    using ar_layE[OF rep] by metis
  obtain b m where b: "0 < b" "b < next_block s" "cells s b = L @ NULLP # A @ replicate m NULLP"
    "alloc_segs cs = [arr_seg b (length L) (length (cells s b)) False]"
    using array_some[OF r(3)] i by (metis length_0_conv not_less_zero)
  show ?thesis using that[OF ar_get_head_ok[OF r(1,2) b(4)] b(1,3) r(2) _ b(2,4)] by (simp add: r(2) b(4))
qed

theorem ar_store_rep:
  assumes rep: "ar_rep z s h L A" and i: "i < length L"
  obtains s' where "ar_store h i v s = Inr s'" "ar_rep z s' h L A" "recs s' = (recs s)(L ! i := v)"
    "keeps {h - 1, h} s s'"
proof -
  obtain cs dcs bns where r: "lm_ok s" "mem_ok s" "0 < h" "h < next_array_elem s" "slot s h = Some cs"
    "slot s (h - 1) = Some dcs" "data_handle cs = int (h - 1)" "array_ok s cs L A" "data_ok dcs bns"
    "blank z s (struct_size dcs) bns" "mset (L @ A) = mset (handed (struct_size dcs) bns)" "\<forall>p\<in>set A. recs s p = z"
    "set L \<union> set A \<subseteq> set_mset (mset (L @ A))"
    using ar_layE[OF rep[unfolded ar_rep_def]] .
  have hM: "h - 1 < MAX_ARRAYS" using lm_okD(2)[OF r(1)] r(4) by auto
  obtain b m where b: "ar_get_head (int h) s = Inr (Ptr b 0)" "0 < b" "cells s b = L @ NULLP # A @ replicate m NULLP"
    using ar_cell[OF rep[unfolded ar_rep_def] i] by metis
  define p where "p = L ! i"
  have pL: "p \<in> set L" using i by (simp add: p_def)
  have ph: "p \<in> set (handed (struct_size dcs) bns)" using r(11) pL by (metis UnI1 mset_eq_setD set_append)
  obtain pb pk where pp: "p = Ptr pb pk" "pb \<in> set (slot_blocks (slot s (h - 1)))" "0 < pb"
    using handed_block[OF r(1) hM r(6,9) ph] .
  define s' where "s' = s\<lparr>recs := (recs s)(p := v)\<rparr>"
  have "cell_get s (cell_at b i) = Inr p" using b(2,3) i by (simp add: nth_append p_def)
  then have run: "ar_store h i v s = Inr s'"
    unfolding ar_store_def b(1) rbind_simps padd_at using pp by (simp add: clear_rec_def s'_def)
  have keep: "keeps {h - 1, h} s s'"
    unfolding keeps_def s'_def using pp lm_okD(7)[OF r(1) _ hM] by (auto simp: mem_ok_def)
  have dist: "distinct (map fst bns)" using lm_okD(5)[OF r(1) hM] data_blocks[OF r(9)] r(6) by simp
  have bl: "blank z s' (struct_size dcs) bns"
    unfolding blank_def
  proof (intro ballI, clarify)
    fix c n k assume c: "(c, n) \<in> set bns" "n \<le> k"
    obtain n' k' where "(pb, n') \<in> set bns" "k' < n'" "pk = int k' * struct_size dcs"
      using ph pp(1) by (auto simp: in_handed)
    moreover have "n = n'" if "c = pb" using dist c(1) calculation(1) that by (metis eq_key_imp_eq_value)
    ultimately have "Ptr c (int k * struct_size dcs) \<noteq> p" using c(2) r(9) pp(1) by (auto simp: data_ok_def)
    then show "recs s' (Ptr c (int k * struct_size dcs)) = z" using r(10) c by (auto simp: s'_def blank_def)
  qed
  have "ar_rep z s' h L A"
    by (rule ar_repI[OF _ _ r(3) _ _ _ r(7) _ r(9) bl r(11)])
      (use r pL ar_rep_distinct[OF rep] in \<open>auto simp: s'_def lm_ok_def mem_ok_def array_ok_def array_mem_def\<close>)
  then show ?thesis using that run keep by (simp add: s'_def p_def)
qed

lemma slide_down_ok:
  assumes b: "0 < b" and c: "cells s b = X @ Y @ e # R" and x: "length X = i"
  shows "\<exists>c'. slide_down (Ptr b 0) i (i + length Y) s = Inr (s\<lparr>cells := (cells s)(b := c')\<rparr>) \<and>
    length c' = length (cells s b) \<and> c'[i := v] = X @ v # Y @ R"
  using c
proof (induction Y arbitrary: s e R rule: rev_induct)
  case Nil
  have "slide_down (Ptr b 0) i i s = Inr s" by (cases i) auto
  then show ?case using x by (intro exI[of _ "cells s b"] conjI) (simp, simp, simp add: Nil list_update_append)
next
  case (snoc w Y)
  define j where "j = i + length Y"
  define t where "t = s\<lparr>cells := (cells s)(b := X @ Y @ w # w # R)\<rparr>"
  have tb: "cells t b = X @ Y @ w # w # R" by (simp add: t_def)
  have j: "i + length (Y @ [w]) = Suc j" by (simp add: j_def)
  have get: "cell_get s (cell_at b j) = Inr w" using b snoc.prems x by (simp add: nth_append j_def del: of_nat_add)
  have put: "cell_put (cell_at b (Suc j)) w s = Inr t"
    using b snoc.prems x by (simp add: j_def t_def list_update_append del: of_nat_Suc)
  have run: "slide_down (Ptr b 0) i (Suc j) s = slide_down (Ptr b 0) i j t"
    using get put by (simp add: padd_at del: padd.simps of_nat_Suc) (simp add: j_def)
  obtain c' where r: "slide_down (Ptr b 0) i j t = Inr (t\<lparr>cells := (cells t)(b := c')\<rparr>)"
    "length c' = length (cells t b)" "c'[i := v] = X @ v # Y @ w # R"
    using snoc.IH[of t w "w # R"] unfolding j_def by (metis (no_types) tb)
  have eq: "t\<lparr>cells := (cells t)(b := c')\<rparr> = s\<lparr>cells := (cells s)(b := c')\<rparr>" by (simp add: t_def)
  show ?case
    unfolding j run
    by (intro exI[of _ c'] conjI) (rule r(1)[unfolded eq], use r(2,3) snoc.prems tb in simp_all)
qed

theorem ar_move_rep:
  assumes rep: "ar_rep z s h L A" and i: "i \<le> j" "j < length L"
  obtains s' where "ar_move h j i s = Inr s'"
    "ar_rep z s' h (take i L @ L ! j # drop i (take j L) @ drop (Suc j) L) A" "recs s' = recs s" "keeps {h - 1, h} s s'"
proof -
  obtain b cs m where b: "ar_get_head (int h) s = Inr (Ptr b 0)" "0 < b" "cells s b = L @ NULLP # A @ replicate m NULLP"
    "slot s h = Some cs" "b \<in> set (slot_blocks (slot s h))" "b < next_block s"
    "alloc_segs cs = [arr_seg b (length L) (length (cells s b)) False]"
    using ar_cell[OF rep[unfolded ar_rep_def] i(2)] .
  define X where "X = take i L"
  define Y where "Y = drop i (take j L)"
  define e where "e = L ! j"
  define R where "R = drop (Suc j) L"
  have L: "L = X @ Y @ e # R"
    using id_take_nth_drop[OF i(2)] i by (simp add: X_def Y_def e_def R_def) (metis append.assoc append_take_drop_id min.absorb1 take_take)
  have len: "length X = i" "i + length Y = j" using i by (auto simp: X_def Y_def)
  obtain c' where sh: "slide_down (Ptr b 0) i j s = Inr (s\<lparr>cells := (cells s)(b := c')\<rparr>)"
    "length c' = length (cells s b)" "c'[i := e] = X @ e # Y @ R @ NULLP # A @ replicate m NULLP"
    using slide_down_ok[OF b(2), of s X Y e "R @ NULLP # A @ replicate m NULLP" i e] b(3) L len by auto
  define c where "c = X @ e # Y @ R @ NULLP # A @ replicate m NULLP"
  define s' where "s' = s\<lparr>cells := (cells s)(b := c)\<rparr>"
  have "cell_get s (cell_at b j) = Inr e" using b(2,3) i by (simp add: nth_append e_def)
  moreover have "cell_put (cell_at b i) e (s\<lparr>cells := (cells s)(b := c')\<rparr>) = Inr s'"
    using b(2,3) i sh(2,3) by (simp add: s'_def c_def)
  ultimately have run: "ar_move h j i s = Inr s'"
    unfolding ar_move_def b(1) rbind_simps padd_at by (simp add: sh(1))
  obtain dcs bns where r: "lm_ok s" "mem_ok s" "0 < h" "h < next_array_elem s"
    "slot s (h - 1) = Some dcs" "data_handle cs = int (h - 1)" "array_ok s cs L A" "data_ok dcs bns"
    "blank z s (struct_size dcs) bns" "mset (L @ A) = mset (handed (struct_size dcs) bns)" "\<forall>p\<in>set A. recs s p = z"
    using ar_layE[OF rep[unfolded ar_rep_def]] b(4) by (metis option.inject)
  have hM: "h < MAX_ARRAYS" using lm_okD(2)[OF r(1)] r(4) by auto
  have k: "keeps {h} s s'" "lm_ok s'" using keeps_cells[OF r(1) hM b(5)] by (simp_all add: s'_def)
  have lL: "length (cells s b) = length c" by (simp add: b(3) c_def L)
  have a: "array_ok s' cs (X @ e # Y @ R) A"
    using r(7) b(2,6,7) unfolding array_ok_def array_mem_def
    by (intro conjI disjI2 exI[of _ b] exI[of _ m]) (auto simp: s'_def c_def L lL)
  have "ar_rep z s' h (X @ e # Y @ R) A"
    by (rule ar_repI[OF k(2) keepsD(3)[OF k(1) r(2)] r(3) _ _ _ r(6) a r(8)])
      (use r b(4) in \<open>auto simp: s'_def L blank_def\<close>)
  then show ?thesis
    using that[OF run] k(1) by (auto simp: X_def Y_def e_def R_def s'_def keeps_def)
qed

end
