(* ===== verification/Listprops.thy ===== *)
theory Listprops
  imports Listarr
begin

text \<open>
  The list manager against its specification, a set of plain lists: the state relation, one lemma for
  each operation, and the properties of whole runs.
\<close>

section \<open>The list manager as a set of lists\<close>

datatype 'a ar_op = Next | Delete nat | Store nat 'a | Move nat nat

datatype 'a lm_op = Create int int string | Use nat "'a ar_op" | Free nat | Free_all

fun ar_step :: "'a \<Rightarrow> nat \<Rightarrow> 'a ar_op \<Rightarrow> 'a lm \<Rightarrow> 'a lm res" where
  "ar_step z h Next s = rbind (ar_next_avail z (int h) s) (\<lambda>(_, s'). Inr s')"
| "ar_step z h (Delete i) s = rbind (ar_delete z (int h) (int i) s) (\<lambda>(_, s'). Inr s')"
| "ar_step z h (Store i v) s = ar_store h i v s"
| "ar_step z h (Move j i) s = ar_move h j i s"

fun lm_step :: "'a \<Rightarrow> 'a lm_op \<Rightarrow> 'a lm \<Rightarrow> 'a lm res" where
  "lm_step z (Create cnt sz desc) s = rbind (ar_create cnt sz desc s) (\<lambda>(_, s'). Inr s')"
| "lm_step z (Use h c) s = ar_step z h c s"
| "lm_step z (Free h) s = ar_free (int h) s"
| "lm_step z Free_all s = Inr (bl_free (- 1) s)"

text \<open>The specification: each handle has a list of records, zero when they are new.\<close>

fun list_op :: "'a \<Rightarrow> 'a ar_op \<Rightarrow> 'a list \<Rightarrow> 'a list" where
  "list_op z Next xs = xs @ [z]"
| "list_op z (Delete i) xs = take i xs @ drop (Suc i) xs"
| "list_op z (Store i v) xs = xs[i := v]"
| "list_op z (Move j i) xs = take i xs @ xs ! j # drop i (take j xs) @ drop (Suc j) xs"

fun list_op_ok :: "'a ar_op \<Rightarrow> 'a list \<Rightarrow> bool" where
  "list_op_ok Next xs = (int (length xs) + 1 < 2 ^ 27)"
| "list_op_ok (Delete i) xs = (i < length xs)"
| "list_op_ok (Store i v) xs = (i < length xs)"
| "list_op_ok (Move j i) xs = (i \<le> j \<and> j < length xs)"

type_synonym 'a lists = "nat \<times> (nat \<rightharpoonup> 'a list)"

fun lm_spec :: "'a \<Rightarrow> 'a lm_op \<Rightarrow> 'a lists \<Rightarrow> 'a lists" where
  "lm_spec z (Create cnt sz desc) (n, v) = (n + 2, v(Suc n \<mapsto> []))"
| "lm_spec z (Use h c) (n, v) = (n, v(h := map_option (list_op z c) (v h)))"
| "lm_spec z (Free h) (n, v) = (n, v(h := None))"
| "lm_spec z Free_all (n, v) = (n, \<lambda>_. None)"

fun lm_op_ok :: "'a lm_op \<Rightarrow> 'a lists \<Rightarrow> bool" where
  "lm_op_ok (Create cnt sz desc) (n, v) = (Suc n < MAX_ARRAYS \<and>
     0 < cnt \<and> cnt < 2 ^ 27 \<and> 0 < sz \<and> in_int (cnt * sz) \<and> length desc < 52)"
| "lm_op_ok (Use h c) (n, v) = (case v h of None \<Rightarrow> False | Some xs \<Rightarrow> list_op_ok c xs)"
| "lm_op_ok (Free h) (n, v) = (v h \<noteq> None)"
| "lm_op_ok Free_all (n, v) = True"

text \<open>What a caller reads through the head of the array: the records up to the terminating \<open>NULL\<close>.\<close>

definition ar_values :: "nat \<Rightarrow> 'a lm \<Rightarrow> ('a list) res" where
  "ar_values h s =
     rbind (ar_get_head (int h) s) (\<lambda>array.
     case array of
       Wild \<Rightarrow> Inl WildPtr
     | Ptr b i \<Rightarrow>
         if b = 0 then Inr []
         else if NULLP \<in> set (cells s b) then Inr (map (recs s) (takeWhile (\<lambda>p. p \<noteq> NULLP) (cells s b)))
         else Inl BufOverrun)"

definition ar_holds :: "'a \<Rightarrow> 'a lm \<Rightarrow> nat \<Rightarrow> 'a list \<Rightarrow> bool" where
  "ar_holds z s h xs \<longleftrightarrow> (\<exists>L A. ar_rep z s h L A \<and> xs = map (recs s) L)"

definition lm_rel :: "'a \<Rightarrow> 'a lm \<Rightarrow> 'a lists \<Rightarrow> bool" where
  "lm_rel z s v \<longleftrightarrow> lm_ok s \<and> mem_ok s \<and> fst v = next_array_elem s \<and> (\<forall>h xs. snd v h = Some xs \<longrightarrow> ar_holds z s h xs)"

lemma ar_holds_values:
  assumes "ar_holds z s h xs"
  shows "ar_values h s = Inr xs"
proof -
  obtain L A where rep: "ar_rep z s h L A" and xs: "xs = map (recs s) L" using assms by (auto simp: ar_holds_def)
  obtain cs where r: "h < next_array_elem s" "slot s h = Some cs" "array_ok s cs L A"
    using ar_layE[OF rep[unfolded ar_rep_def]] by metis
  show ?thesis
  proof (cases "alloc_segs cs = []")
    case True
    then show ?thesis using r xs
      by (simp add: ar_values_def ar_get_head_def invalid_handle_def list_cs_Some array_ok_def array_mem_def)
  next
    case False
    then obtain b m where b: "0 < b" "cells s b = L @ NULLP # A @ replicate m NULLP"
      "alloc_segs cs = [arr_seg b (length L) (length (cells s b)) False]"
      using r(3) by (auto simp: array_ok_def array_mem_def)
    have "takeWhile (\<lambda>p. p \<noteq> NULLP) (cells s b) = L"
      using ar_rep_distinct(2)[OF rep] by (subst b(2), subst takeWhile_append2) auto
    then show ?thesis using b(1,2) xs by (simp add: ar_values_def ar_get_head_ok[OF r(1,2) b(3)])
  qed
qed

lemma ar_step_holds:
  assumes rep: "ar_rep z s h L A" and c: "list_op_ok c (map (recs s) L)"
  shows "\<exists>s'. ar_step z h c s = Inr s' \<and> ar_holds z s' h (list_op z c (map (recs s) L)) \<and> keeps {h - 1, h} s s'"
proof (cases c)
  case Next
  have few: "Suc (length L) < 2 ^ 27" using c by (simp add: Next)
  obtain p q s' where r: "ar_next_avail z (int h) s = Inr (q, s')" "ar_rep z s' h (L @ [p]) (tl A)"
    "recs s' p = z" "\<And>x. x \<in> set L \<union> set A \<Longrightarrow> recs s' x = recs s x" "keeps {h - 1, h} s s'"
    using ar_next_avail_rep[OF rep few] by metis
  have "list_op z c (map (recs s) L) = map (recs s') (L @ [p])" using r(3,4) by (simp add: Next)
  then show ?thesis using r by (auto simp: Next ar_holds_def)
next
  case (Delete i)
  then have i: "i < length L" using c by simp
  obtain s' where r: "ar_delete z (int h) (int i) s = Inr (1, s')"
    "ar_rep z s' h (take i L @ drop (Suc i) L) (L ! i # A)" "recs s' = (recs s)(L ! i := z)" "keeps {h - 1, h} s s'"
    using ar_delete_rep[OF rep i] .
  have "L ! i \<notin> set (take i L @ drop (Suc i) L)"
    using ar_rep_distinct(1)[OF rep] ar_rep_distinct(1)[OF r(2)] by auto
  then have "list_op z c (map (recs s) L) = map (recs s') (take i L @ drop (Suc i) L)"
    by (auto simp: Delete r(3) take_map drop_map)
  then show ?thesis using r by (auto simp: Delete ar_holds_def)
next
  case (Store i v)
  then have i: "i < length L" using c by simp
  obtain s' where r: "ar_store h i v s = Inr s'" "ar_rep z s' h L A" "recs s' = (recs s)(L ! i := v)" "keeps {h - 1, h} s s'"
    using ar_store_rep[OF rep i] .
  have "list_op z c (map (recs s) L) = map (recs s') L"
    using i ar_rep_distinct(1)[OF rep] by (auto simp: Store r(3) list_eq_iff_nth_eq nth_list_update nth_eq_iff_index_eq)
  then show ?thesis using r by (auto simp: Store ar_holds_def)
next
  case (Move j i)
  then have i: "i \<le> j" "j < length L" using c by simp_all
  obtain s' where r: "ar_move h j i s = Inr s'"
    "ar_rep z s' h (take i L @ L ! j # drop i (take j L) @ drop (Suc j) L) A" "recs s' = recs s" "keeps {h - 1, h} s s'"
    using ar_move_rep[OF rep i] .
  have "list_op z c (map (recs s) L) = map (recs s') (take i L @ L ! j # drop i (take j L) @ drop (Suc j) L)"
    using i by (simp add: Move r(3) take_map drop_map)
  then show ?thesis using r by (auto simp: Move ar_holds_def)
qed

lemma use_rel:
  assumes rel: "lm_rel z s (n, v)" and c: "lm_op_ok (Use h c) (n, v)"
  shows "\<exists>s'. lm_step z (Use h c) s = Inr s' \<and> lm_rel z s' (lm_spec z (Use h c) (n, v))"
proof -
  obtain xs where xs: "v h = Some xs" "list_op_ok c xs" using c by (auto split: option.splits)
  obtain L A where rep: "ar_rep z s h L A" "xs = map (recs s) L"
    using rel xs(1) unfolding lm_rel_def ar_holds_def snd_conv by blast
  obtain s' where s': "ar_step z h c s = Inr s'" "ar_holds z s' h (list_op z c xs)" "keeps {h - 1, h} s s'"
    using ar_step_holds[OF rep(1)] xs(2) rep(2) by metis
  have ok': "lm_ok s'" "mem_ok s'" using s'(2) ar_rep_kinds by (auto simp: ar_holds_def)
  have "ar_holds z s' g ys" if g: "(v(h := map_option (list_op z c) (v h))) g = Some ys" for g ys
  proof (cases "g = h")
    case False
    then obtain X B where X: "ar_rep z s g X B" "ys = map (recs s) X"
      using g rel unfolding lm_rel_def ar_holds_def snd_conv by (metis fun_upd_other)
    then show ?thesis
      using ar_rep_frame[OF rep(1) X(1) False s'(3) ok'(1)] unfolding ar_holds_def by (intro exI[of _ X] exI[of _ B]) simp
  qed (use g xs s'(2) in auto)
  then show ?thesis using s'(1) ok' rel keepsD(1)[OF s'(3)] by (auto simp: lm_rel_def)
qed

lemma ar_rep_create:
  assumes rep: "ar_rep z s g X B" and ok: "lm_ok s'" "mem_ok s'" and same: "recs s' = recs s" "cells s' = cells s"
    "next_block s' = next_block s" and sl: "\<And>i. i < next_array_elem s \<Longrightarrow> slot s' i = slot s i"
    and n: "next_array_elem s \<le> next_array_elem s'"
  shows "ar_rep z s' g X B"
proof -
  obtain cs dcs bns where r: "lm_ok s" "mem_ok s" "0 < g" "g < next_array_elem s" "slot s g = Some cs"
    "slot s (g - 1) = Some dcs" "data_handle cs = int (g - 1)" "array_ok s cs X B" "data_ok dcs bns"
    "blank z s (struct_size dcs) bns" "mset (X @ B) = mset (handed (struct_size dcs) bns)" "\<forall>p\<in>set B. recs s p = z"
    using ar_layE[OF rep[unfolded ar_rep_def]] by metis
  have "array_ok s' cs X B" using array_ok_grows[OF r(8), of s'] same by simp
  then show ?thesis
    by (intro ar_repI[OF ok r(3) _ _ _ r(7) _ r(9) _ r(11)])
      (use r sl[of g] sl[of "g - 1"] n same in \<open>auto simp: blank_def\<close>)
qed

lemma create_rel:
  assumes rel: "lm_rel z s (n, v)" and c: "lm_op_ok (Create cnt sz desc) (n, v)"
  shows "\<exists>s'. lm_step z (Create cnt sz desc) s = Inr s' \<and> lm_rel z s' (lm_spec z (Create cnt sz desc) (n, v))"
proof -
  have s: "lm_ok s" "mem_ok s" "n = next_array_elem s" "\<And>h xs. v h = Some xs \<Longrightarrow> ar_holds z s h xs"
    using rel by (auto simp: lm_rel_def)
  obtain s' where a: "ar_create cnt sz desc s = Inr (int (Suc (next_array_elem s)), s')"
    "ar_rep z s' (Suc (next_array_elem s)) [] []" "recs s' = recs s" "cells s' = cells s" "next_block s' = next_block s"
    "\<And>i. i < next_array_elem s \<Longrightarrow> slot s' i = slot s i" "next_array_elem s' = Suc (Suc (next_array_elem s))"
    by (rule ar_create_rep[OF s(1,2), of cnt sz desc z]) (use c s(3) in auto)
  note ok' = ar_rep_kinds(3,4)[OF a(2)]
  have "ar_holds z s' g ys" if g: "(v(Suc n \<mapsto> [])) g = Some ys" for g ys
  proof (cases "g = Suc n")
    case True
    then show ?thesis using g a(2) unfolding ar_holds_def s(3) by (intro exI[of _ "[]"]) simp
  next
    case False
    then obtain X B where X: "ar_rep z s g X B" "ys = map (recs s) X"
      using g s(4)[of g ys] unfolding ar_holds_def by auto
    then show ?thesis
      using ar_rep_create[OF X(1) ok' a(3-6)] a(3,7) unfolding ar_holds_def by (intro exI[of _ X] exI[of _ B]) simp
  qed
  then show ?thesis using a(1,7) ok' s(3) by (auto simp: lm_rel_def)
qed

lemma free_list_ok:
  assumes ok: "lm_ok s" and i: "i < MAX_ARRAYS"
  shows "lm_ok (free_list (int i) s)" "keeps {i} s (free_list (int i) s)"
proof -
  have "x \<notin> set (slot_blocks (slot s i))" if "j < MAX_ARRAYS" "j \<noteq> i" "x \<in> set (slot_blocks (slot s j))" for j x
    using lm_okD(7)[OF ok that(1) i that(2,3)] .
  then show "keeps {i} s (free_list (int i) s)"
    by (force simp: keeps_def free_list_def mem_ok_def split: option.split)
  show "lm_ok (free_list (int i) s)"
  proof -
    have sl: "slot (free_list (int i) s) j = (if j = i then None else slot s j)" for j
      using i lm_okD(1)[OF ok] by (auto simp: free_list_def nth_list_update split: option.split)
    have "length (bl_cs_array (free_list (int i) s)) = length (bl_cs_array s)"
      "next_array_elem (free_list (int i) s) = next_array_elem s" "next_block (free_list (int i) s) = next_block s"
      by (auto simp: free_list_def split: option.split)
    then show ?thesis using ok unfolding lm_ok_def sl by simp
  qed
qed

lemma free_rel:
  assumes rel: "lm_rel z s (n, v)" and c: "lm_op_ok (Free h) (n, v)"
  shows "\<exists>s'. lm_step z (Free h) s = Inr s' \<and> lm_rel z s' (lm_spec z (Free h) (n, v))"
proof -
  obtain xs where xs: "v h = Some xs" using c by auto
  obtain L A where rep: "ar_rep z s h L A"
    using rel xs unfolding lm_rel_def ar_holds_def snd_conv by blast
  obtain cs where cs: "slot s h = Some cs" "data_handle cs = int (h - 1)"
    using ar_layE[OF rep[unfolded ar_rep_def]] by metis
  note k = ar_rep_kinds[OF rep]
  have hM: "h < MAX_ARRAYS" "h - 1 < MAX_ARRAYS" using lm_okD(2)[OF k(3)] k(2) by auto
  define t where "t = free_list (int (h - 1)) s"
  define s' where "s' = free_list (int h) t"
  note a = free_list_ok[OF k(3) hM(2), folded t_def]
  note b = free_list_ok[OF a(1) hM(1), folded s'_def]
  have keep: "keeps {h - 1, h} s s'" using keeps_trans[OF a(2) b(2)] by (simp add: insert_commute)
  have "lm_step z (Free h) s = Inr s'"
    using k(1,2) keepsD(1)[OF a(2)]
    by (simp add: ar_free_def invalid_handle_def list_cs_Some[OF cs(1)] cs(2) bl_free_def t_def s'_def of_nat_diff)
  moreover have "ar_holds z s' g ys" if g: "(v(h := None)) g = Some ys" for g ys
  proof -
    have gh: "g \<noteq> h" using g by auto
    obtain X B where X: "ar_rep z s g X B" "ys = map (recs s) X"
      using g rel gh unfolding lm_rel_def ar_holds_def snd_conv by (metis fun_upd_other)
    show ?thesis
      using ar_rep_frame[OF rep X(1) gh keep b(1)] X(2) unfolding ar_holds_def by (intro exI[of _ X] exI[of _ B]) simp
  qed
  ultimately show ?thesis using b(1) keepsD(1,3)[OF keep] rel by (auto simp: lm_rel_def)
qed

lemma free_all_rel:
  assumes rel: "lm_rel z s (n, v)"
  shows "lm_rel z (bl_free (- 1) s) (n, \<lambda>_. None)"
proof -
  have "lm_ok (fold (\<lambda>i. free_list (int i)) is s) \<and> mem_ok (fold (\<lambda>i. free_list (int i)) is s) \<and>
      next_array_elem (fold (\<lambda>i. free_list (int i)) is s) = next_array_elem s"
    if "set is \<subseteq> {..<MAX_ARRAYS}" "lm_ok s" "mem_ok s" for "is" and s :: "'a lm"
    using that
  proof (induction "is" arbitrary: s)
    case (Cons i js)
    note f = free_list_ok[OF Cons.prems(2), of i]
    show ?case using Cons.IH[of "free_list (int i) s"] Cons.prems f keepsD(1,3)[OF f(2)] by simp
  qed simp
  moreover have "set [0..<next_array_elem s] \<subseteq> {..<MAX_ARRAYS}" using rel lm_okD(2)[of s] by (auto simp: lm_rel_def)
  ultimately show ?thesis using rel by (simp add: lm_rel_def bl_free_def)
qed

interpretation listmgr: simulation "lm_rel z" "lm_step z" "lm_spec z" lm_op_ok for z
proof
  fix s :: "'a lm" and v c
  assume a: "lm_rel z s v" "lm_op_ok c v"
  obtain n w where v: "v = (n, w)" by (cases v)
  show "\<exists>s'. lm_step z c s = Inr s' \<and> lm_rel z s' (lm_spec z c v)"
    using a create_rel[of z s n w] use_rel[of z s n w] free_rel[of z s n w] free_all_rel[of z s n w] unfolding v
    by (cases c) (metis, metis, metis, simp)
qed

lemma lm0_rel: "Fail \<notin> set os \<Longrightarrow> lm_rel z (lm0 z os) (0, \<lambda>_. None)"
  by (simp add: lm_rel_def lm_ok_def mem_ok_def lm0_def)

text \<open>
  C6. The list manager implements lists of records: from the start of the program, and as long as no
  allocation fails, a sequence of creating and freeing arrays, taking new elements, deleting elements,
  storing records and moving elements that keeps to the limits below runs without a fault, the overflow of
  an \<open>int\<close> included, whether the allocator moves blocks or not. Afterwards the head of each array
  leads to exactly the records of the list that the same operations give on plain lists: new records
  are zero, a deleted record that is used again is zero as well, elements of other arrays are untouched,
  and the array ends in \<open>NULL\<close>.

  The limits, \<open>lm_op_ok\<close>: at most 50 lists are created in all, two for each array, since \<open>bl_create\<close> does not
  test the index of its table and a freed handle is not used again; blocks have a positive number of records,
  below \<open>2 ^ 27\<close>, of a positive size, and together at most \<open>2 ^ 31 - 1\<close> bytes; a description has fewer than 52 bytes;
  an array has fewer than \<open>2 ^ 27\<close> elements; elements are deleted, written and moved inside the array, which
  has not been freed.
\<close>

theorem listmgr_refines:
  assumes "Fail \<notin> set os" and "ops_ok lm_op_ok (lm_spec z) cs (0, \<lambda>_. None)"
  shows "\<exists>s. run_ops (lm_step z) cs (lm0 z os) = Inr s \<and>
    (\<forall>h xs. snd (fold (lm_spec z) cs (0, \<lambda>_. None)) h = Some xs \<longrightarrow> ar_values h s = Inr xs)"
proof -
  obtain s where "run_ops (lm_step z) cs (lm0 z os) = Inr s" "lm_rel z s (fold (lm_spec z) cs (0, \<lambda>_. None))"
    using listmgr.run[OF lm0_rel[OF assms(1)] assms(2)] by blast
  then show ?thesis using ar_holds_values[of z s] unfolding lm_rel_def by blast
qed

theorem listmgr_refines_witness:
  "\<exists>s. run_ops (lm_step 0) [Create 3 16 ''x'', Create 2 8 ''y'', Use 1 Next, Use 3 Next, Use 1 (Store 0 (7 :: nat)),
      Use 1 Next, Use 1 (Store 1 8), Use 1 (Move 1 0), Use 1 (Delete 1), Use 1 Next] (lm0 0 [Fresh, InPlace]) = Inr s \<and>
    ar_values 1 s = Inr [8, 0] \<and> ar_values 3 s = Inr [0]"
proof -
  define cs where "cs = [Create 3 16 ''x'', Create 2 8 ''y'', Use 1 Next, Use 3 Next, Use 1 (Store 0 (7 :: nat)),
      Use 1 Next, Use 1 (Store 1 8), Use 1 (Move 1 0), Use 1 (Delete 1), Use 1 Next]"
  have a: "Fail \<notin> set [Fresh, InPlace]" by simp
  have b: "ops_ok lm_op_ok (lm_spec 0) cs (0, \<lambda>_. None)" unfolding cs_def by code_simp
  have c: "snd (fold (lm_spec 0) cs (0, \<lambda>_. None)) 1 = Some [8, 0]"
    "snd (fold (lm_spec 0) cs (0, \<lambda>_. None)) 3 = Some [0]" unfolding cs_def by code_simp+
  show ?thesis using listmgr_refines[OF a b] c unfolding cs_def[symmetric] by blast
qed

text \<open>The size of a block is computed in an \<open>int\<close>: a larger one is an overflow, as soon as the list is created.\<close>

theorem bl_create_overflow:
  assumes "Fail \<notin> set (outcomes s)" and "next_array_elem s < MAX_ARRAYS" and "\<not> in_int (cnt * sz)"
  shows "bl_create cnt sz s = Inl IntOverflow"
proof -
  obtain c os where "next_outcome s = (c, s\<lparr>outcomes := os\<rparr>)" "c \<noteq> Fail"
    using next_outcome_ok[of s] assms(1) unfolding mem_ok_def by metis
  then show ?thesis using assms(2,3) by (simp add: bl_create_def cint_def)
qed

text \<open>
  An index one past the end passes the check of \<open>ar_delete\<close>: on an array that has elements the call
  does not return 0 but clears a record at the address \<open>NULL\<close>.
\<close>

theorem ar_delete_past_end:
  assumes "Fail \<notin> set os" and "ops_ok lm_op_ok (lm_spec z) cs (0, \<lambda>_. None)"
    and "snd (fold (lm_spec z) cs (0, \<lambda>_. None)) h = Some xs" and "xs \<noteq> []"
  shows "rbind (run_ops (lm_step z) cs (lm0 z os)) (ar_delete z (int h) (int (length xs))) = Inl NullDeref"
proof -
  obtain s where s: "run_ops (lm_step z) cs (lm0 z os) = Inr s" "lm_rel z s (fold (lm_spec z) cs (0, \<lambda>_. None))"
    using listmgr.run[OF lm0_rel[OF assms(1)] assms(2)] by blast
  then obtain L A where rep: "ar_rep z s h L A" "xs = map (recs s) L"
    using assms(3) unfolding lm_rel_def ar_holds_def by blast
  then show ?thesis using ar_delete_at_end[OF rep(1)] assms(4) s(1) by simp
qed

theorem ar_delete_past_end_witness:
  "rbind (run_ops (lm_step (0 :: nat)) [Create 3 16 ''x'', Use 1 Next] (lm0 0 [])) (ar_delete 0 1 1) = Inl NullDeref"
proof -
  have b: "ops_ok lm_op_ok (lm_spec (0 :: nat)) [Create 3 16 ''x'', Use 1 Next] (0, \<lambda>_. None)" by code_simp
  have c: "snd (fold (lm_spec (0 :: nat)) [Create 3 16 ''x'', Use 1 Next] (0, \<lambda>_. None)) 1 = Some [0]" by code_simp
  show ?thesis using ar_delete_past_end[of "[]", OF _ b c] by simp
qed

text \<open>
  When there is no memory for the cells of an array, \<open>ar_next_avail\<close> stores through the \<open>NULL\<close> that
  \<open>bl_next_avail\<close> returned.
\<close>

theorem ar_next_avail_no_memory:
  "rbind (run_ops (lm_step (0 :: nat)) [Create 3 16 ''x'', Use 1 Next] (lm0 0 [Fresh, Fresh, Fresh, Fresh, Fail]))
     (ar_values 1) = Inl NullDeref"
  by code_simp

end
