(* ===== verification/Entsort.thy ===== *)
theory Entsort
  imports Contents
begin

text \<open>
  The sort of \<open>libinst/pkgobjmap.c\<close> and \<open>libinst/procmap.c\<close>: entries are brought into the order of their
  paths by binary insertion, and entries with the same path are merged or reported.

  The array is a list; \<open>list_delete\<close> and \<open>list_move\<close> are what \<open>ar_delete\<close> and the loop of \<open>sortentry\<close> do to
  it. The two files differ in their records and in what they do with two entries of one path: \<open>key\<close>
  gives the path of a record, and \<open>dup new old\<close> the record that stays in the place of the old one, with
  its effect on a state in which errors are counted.
\<close>

definition list_delete :: "nat \<Rightarrow> 'a list \<Rightarrow> 'a list" where
  "list_delete i xs = take i xs @ drop (Suc i) xs"

definition list_move :: "nat \<Rightarrow> nat \<Rightarrow> 'a list \<Rightarrow> 'a list" where
  "list_move j i xs =
     (if i \<le> j then take i xs @ xs ! j # drop i (take j xs) @ drop (Suc j) xs else xs[i := xs ! j])"

text \<open>The loop of \<open>sortentry\<close>: the place of an entry with the same path, or the place for a new one.\<close>

partial_function (option) sort_find ::
  "('a \<Rightarrow> string) \<Rightarrow> string \<Rightarrow> 'a list \<Rightarrow> nat \<Rightarrow> nat \<Rightarrow> nat \<Rightarrow> (nat + nat) option" where
  "sort_find key p xs lower upper i =
     (if p = key (xs ! i) then Some (Inl i)
      else if p < key (xs ! i) then
        (if i = lower then Some (Inr i) else sort_find key p xs lower i (lower + (i - lower) div 2))
      else
        (if upper = Suc i then Some (Inr upper)
         else sort_find key p xs (Suc i) upper (upper - (upper - Suc i) div 2 - 1)))"

declare sort_find.simps [code]

type_synonym ('a, 's) merger = "'a \<Rightarrow> 'a \<Rightarrow> 's \<Rightarrow> 'a \<times> 's"

text \<open>Whether the index is to be used again, \<open>last\<close>, the array and the state.\<close>

definition sortentry :: "('a \<Rightarrow> string) \<Rightarrow> ('a, 's) merger \<Rightarrow> nat \<Rightarrow> nat \<Rightarrow> 'a list \<Rightarrow> 's \<Rightarrow> (bool \<times> nat \<times> 'a list \<times> 's) option" where
  "sortentry key dup index last_i xs s =
     (if index = 0 then Some (False, last_i, xs, s)
      else
        let ext = xs ! index in
        if key ext > key (xs ! (index - 1)) then Some (False, index - 1, xs, s)
        else (case sort_find key (key ext) xs 0 index last_i of
          None \<Rightarrow> None
        | Some (Inl i) \<Rightarrow>
            (case dup ext (xs ! i) s of (e, s') \<Rightarrow> Some (True, last_i, list_delete index (xs[i := e]), s'))
        | Some (Inr i) \<Rightarrow> Some (False, i, list_move index i xs, s)))"

lemma sortentry_length:
  assumes "sortentry key dup index l xs s = Some (again, l', ys, s')" "index < length xs"
  shows "length ys = (if again then length xs - 1 else length xs)"
  using assms
  by (auto simp: sortentry_def Let_def list_delete_def list_move_def split: if_splits option.splits sum.splits prod.splits)

text \<open>The loop over the array.\<close>

function sort_loop :: "('a \<Rightarrow> string) \<Rightarrow> ('a, 's) merger \<Rightarrow> nat \<Rightarrow> nat \<Rightarrow> 'a list \<Rightarrow> 's \<Rightarrow> ('a list \<times> 's) option" where
  "sort_loop key dup i l xs s =
     (if i < length xs then
        (case sortentry key dup i l xs s of
           None \<Rightarrow> None
         | Some (again, l', ys, s') \<Rightarrow>
             if again then sort_loop key dup i l' ys s' else sort_loop key dup (Suc i) l' ys s')
      else Some (xs, s))"
  by pat_completeness auto
termination
proof (relation "measure (\<lambda>(_, _, i, _, xs, _). length xs - i)", goal_cases)
  case 1
  then show ?case by simp
qed (use sortentry_length in fastforce)+

declare sort_loop.simps [simp del]

definition sort_all :: "('a \<Rightarrow> string) \<Rightarrow> ('a, 's) merger \<Rightarrow> 'a list \<Rightarrow> 's \<Rightarrow> ('a list \<times> 's) option" where
  "sort_all key dup xs s = sort_loop key dup 0 0 xs s"

section \<open>The reference: insertion into a sorted list\<close>

fun insert_entry :: "('a \<Rightarrow> string) \<Rightarrow> ('a, 's) merger \<Rightarrow> 'a \<Rightarrow> 'a list \<times> 's \<Rightarrow> 'a list \<times> 's" where
  "insert_entry key dup x ([], s) = ([x], s)"
| "insert_entry key dup x (y # ys, s) =
     (if key x < key y then (x # y # ys, s)
      else if key x = key y then (case dup x y s of (e, s') \<Rightarrow> (e # ys, s'))
      else (case insert_entry key dup x (ys, s) of (zs, s') \<Rightarrow> (y # zs, s')))"

definition sort_ref :: "('a \<Rightarrow> string) \<Rightarrow> ('a, 's) merger \<Rightarrow> 'a list \<Rightarrow> 's \<Rightarrow> 'a list \<times> 's" where
  "sort_ref key dup xs s = foldl (\<lambda>a x. insert_entry key dup x a) ([], s) xs"

locale entry_order =
  fixes key :: "'a \<Rightarrow> string"
    and dup :: "('a, 's) merger"
  assumes key_dup: "key x = key y \<Longrightarrow> key (fst (dup x y s)) = key y"
begin

abbreviation ordered :: "'a list \<Rightarrow> bool" where
  "ordered xs \<equiv> sorted_wrt (<) (map key xs)"

lemma ordered_nth: "ordered xs \<Longrightarrow> i < j \<Longrightarrow> j < length xs \<Longrightarrow> key (xs ! i) < key (xs ! j)"
  using sorted_wrt_nth_less[of "(<)" "map key xs" i j] by simp

lemma insert_new:
  assumes "\<forall>a\<in>set A. key a < key x" "\<forall>b\<in>set B. key x < key b"
  shows "insert_entry key dup x (A @ B, n) = (A @ x # B, n)"
  using assms(1)
proof (induction A)
  case Nil
  then show ?case using assms(2) by (cases B) auto
qed auto

lemma insert_same:
  assumes "\<forall>a\<in>set A. key a < key x" "key y = key x"
  shows "insert_entry key dup x (A @ y # B, s) = (A @ fst (dup x y s) # B, snd (dup x y s))"
  using assms(1) by (induction A) (auto simp: assms(2) split: prod.split)

lemma sort_find_ok:
  assumes "ordered P" "lower \<le> i" "i < upper" "upper \<le> length P"
    "\<And>k. k < lower \<Longrightarrow> key (P ! k) < p" "\<And>k. upper \<le> k \<Longrightarrow> k < length P \<Longrightarrow> p < key (P ! k)"
  shows "(\<exists>k < length P. key (P ! k) = p \<and> sort_find key p (P @ R) lower upper i = Some (Inl k)) \<or>
    (\<exists>k \<le> length P. (\<forall>a\<in>set (take k P). key a < p) \<and> (\<forall>b\<in>set (drop k P). p < key b) \<and>
       sort_find key p (P @ R) lower upper i = Some (Inr k))"
  using assms
proof (induction "upper - lower" arbitrary: lower upper i rule: less_induct)
  case less
  have nth: "(P @ R) ! i = P ! i" using less.prems by (simp add: nth_append)
  have split: "(\<forall>a\<in>set (take k P). key a < p) \<and> (\<forall>b\<in>set (drop k P). p < key b)"
    if "k \<le> length P" "\<And>j. j < k \<Longrightarrow> key (P ! j) < p" "\<And>j. k \<le> j \<Longrightarrow> j < length P \<Longrightarrow> p < key (P ! j)" for k
    using that by (auto simp: in_set_conv_nth)
  consider "key (P ! i) = p" | "p < key (P ! i)" | "key (P ! i) < p" by fastforce
  then show ?case
  proof cases
    case 1
    then show ?thesis using less.prems nth by (subst (1 2) sort_find.simps) auto
  next
    case 2
    have up: "p < key (P ! k)" if "i \<le> k" "k < length P" for k
      using 2 ordered_nth[OF less.prems(1), of i k] that by (cases "k = i") auto
    show ?thesis
    proof (cases "i = lower")
      case True
      have "sort_find key p (P @ R) lower upper i = Some (Inr i)" using 2 nth True by (subst sort_find.simps) auto
      then show ?thesis using split[of i] less.prems up True by auto
    next
      case False
      have "sort_find key p (P @ R) lower upper i = sort_find key p (P @ R) lower i (lower + (i - lower) div 2)"
        using 2 nth False by (subst sort_find.simps) auto
      then show ?thesis
        using less.hyps[of i lower "lower + (i - lower) div 2"] less.prems up False by auto
    qed
  next
    case 3
    have lo: "key (P ! k) < p" if "k < Suc i" for k
      using 3 ordered_nth[OF less.prems(1), of k i] that less.prems by (cases "k = i") auto
    show ?thesis
    proof (cases "upper = Suc i")
      case True
      have "sort_find key p (P @ R) lower upper i = Some (Inr upper)" using 3 nth True by (subst sort_find.simps) auto
      then show ?thesis using split[of upper] less.prems lo True by auto
    next
      case False
      have "sort_find key p (P @ R) lower upper i = sort_find key p (P @ R) (Suc i) upper (upper - (upper - Suc i) div 2 - 1)"
        using 3 nth False by (subst sort_find.simps) auto
      then show ?thesis
        using less.hyps[of upper "Suc i" "upper - (upper - Suc i) div 2 - 1"] less.prems lo False by auto
    qed
  qed
qed

lemma ordered_replace:
  assumes "ordered P" "i < length P" "key e = key (P ! i)"
  shows "ordered (P[i := e])"
proof -
  have "map key (P[i := e]) = map key P" using assms(2,3) by (simp add: map_update list_update_same_conv)
  then show ?thesis using assms(1) by simp
qed

lemma ordered_insert:
  assumes "ordered (A @ B)" "\<forall>a\<in>set A. key a < key x" "\<forall>b\<in>set B. key x < key b"
  shows "ordered (A @ x # B)"
  using assms by (auto simp: sorted_wrt_append)

lemma sortentry_step:
  assumes P: "ordered P" and l: "P = [] \<and> l = 0 \<or> l < length P"
  shows "\<exists>again l' s' Q. sortentry key dup (length P) l (P @ x # R) s = Some (again, l', Q @ R, s') \<and>
    insert_entry key dup x (P, s) = (Q, s') \<and> ordered Q \<and> l' < length Q \<and>
    length Q = (if again then length P else Suc (length P))"
proof (cases "P = []")
  case True
  then show ?thesis using l by (auto simp: sortentry_def)
next
  case False
  then have n: "0 < length P" and ll: "l < length P" using l by auto
  have xs: "(P @ x # R) ! length P = x" "(P @ x # R) ! (length P - 1) = last P"
    using False by (simp_all add: nth_append last_conv_nth)
  show ?thesis
  proof (cases "key (last P) < key x")
    case True
    have A: "\<forall>a\<in>set P. key a < key x"
    proof
      fix a assume "a \<in> set P"
      then obtain k where k: "k < length P" "P ! k = a" by (auto simp: in_set_conv_nth)
      have "key a \<le> key (last P)"
      proof (cases "k = length P - 1")
        case f: False
        then have "k < length P - 1" using k(1) by simp
        then show ?thesis using ordered_nth[OF P, of k "length P - 1"] k False by (simp add: last_conv_nth less_imp_le)
      qed (use k False in \<open>simp add: last_conv_nth\<close>)
      then show "key a < key x" using True by simp
    qed
    have "sortentry key dup (length P) l (P @ x # R) s = Some (False, length P - 1, (P @ [x]) @ R, s)"
      using True n unfolding sortentry_def xs by simp
    moreover have "insert_entry key dup x (P, s) = (P @ [x], s)" using insert_new[OF A, of "[]" s] by simp
    ultimately show ?thesis using ordered_insert[of P "[]" x] P A by fastforce
  next
    case nl: False
    have sf: "sortentry key dup (length P) l (P @ x # R) s =
        (case sort_find key (key x) (P @ x # R) 0 (length P) l of
          None \<Rightarrow> None
        | Some (Inl i) \<Rightarrow> (case dup x ((P @ x # R) ! i) s of (e, s') \<Rightarrow>
              Some (True, l, list_delete (length P) ((P @ x # R)[i := e]), s'))
        | Some (Inr i) \<Rightarrow> Some (False, i, list_move (length P) i (P @ x # R), s))"
      using n nl unfolding sortentry_def Let_def xs by simp
    consider k where "k < length P" "key (P ! k) = key x" "sort_find key (key x) (P @ x # R) 0 (length P) l = Some (Inl k)"
      | k where "k \<le> length P" "\<forall>a\<in>set (take k P). key a < key x" "\<forall>b\<in>set (drop k P). key x < key b"
        "sort_find key (key x) (P @ x # R) 0 (length P) l = Some (Inr k)"
      using sort_find_ok[OF P, of 0 l "length P" "key x" "x # R"] ll by auto
    then show ?thesis
    proof cases
      case (1 k)
      obtain y s' where d: "dup x (P ! k) s = (y, s')" by fastforce
      have "key y = key (P ! k)" using key_dup[of x "P ! k" s] 1(2) d by simp
      then have o: "ordered (P[k := y])" using ordered_replace[OF P 1(1)] by simp
      have A: "\<forall>a\<in>set (take k P). key a < key x"
        using ordered_nth[OF P _ 1(1)] 1(1,2) by (auto simp: in_set_conv_nth)
      have ins: "insert_entry key dup x (P, s) = (P[k := y], s')"
        using insert_same[OF A 1(2), of "drop (Suc k) P" s] id_take_nth_drop[OF 1(1)] upd_conv_take_nth_drop[OF 1(1)] d by simp
      have "sortentry key dup (length P) l (P @ x # R) s = Some (True, l, P[k := y] @ R, s')"
        unfolding sf using 1 d by (simp add: nth_append list_delete_def list_update_append)
      then show ?thesis using ins o ll by auto
    next
      case (2 k)
      have "list_move (length P) k (P @ x # R) = (take k P @ x # drop k P) @ R" using 2(1) by (simp add: list_move_def)
      then have "sortentry key dup (length P) l (P @ x # R) s = Some (False, k, (take k P @ x # drop k P) @ R, s)"
        unfolding sf 2(4) by simp
      moreover have "insert_entry key dup x (P, s) = (take k P @ x # drop k P, s)"
        using insert_new[OF 2(2,3), of s] by simp
      moreover have "ordered (take k P @ x # drop k P)" using ordered_insert[OF _ 2(2,3)] P by simp
      ultimately show ?thesis using 2(1) by fastforce
    qed
  qed
qed

lemma sort_loop_ref:
  assumes "ordered P" "P = [] \<and> l = 0 \<or> l < length P"
  shows "sort_loop key dup (length P) l (P @ R) s = Some (foldl (\<lambda>a x. insert_entry key dup x a) (P, s) R)"
  using assms
proof (induction R arbitrary: P l s)
  case Nil
  then show ?case by (subst sort_loop.simps) simp
next
  case (Cons x R)
  obtain again l' s' Q where s: "sortentry key dup (length P) l (P @ x # R) s = Some (again, l', Q @ R, s')"
    "insert_entry key dup x (P, s) = (Q, s')" "ordered Q" "l' < length Q"
    "length Q = (if again then length P else Suc (length P))"
    using sortentry_step[OF Cons.prems, of x R s] by blast
  have "sort_loop key dup (length P) l (P @ x # R) s = sort_loop key dup (length Q) l' (Q @ R) s'"
    by (subst sort_loop.simps) (simp add: s(1,5))
  also have "\<dots> = Some (foldl (\<lambda>a x. insert_entry key dup x a) (Q, s') R)"
    by (rule Cons.IH) (use s in auto)
  finally show ?case by (simp add: s(2))
qed

lemma sort_all_ref: "sort_all key dup xs s = Some (sort_ref key dup xs s)"
  using sort_loop_ref[of "[]" 0 xs s] by (simp add: sort_all_def sort_ref_def)

lemma insert_entry_keys:
  assumes "ordered P"
  shows "ordered (fst (insert_entry key dup x (P, n))) \<and> key ` set (fst (insert_entry key dup x (P, n))) = insert (key x) (key ` set P)"
  using assms
proof (induction P)
  case (Cons y P)
  obtain Q m where Q: "insert_entry key dup x (P, n) = (Q, m)" by fastforce
  have IH: "ordered Q" "key ` set Q = insert (key x) (key ` set P)" using Cons Q by auto
  obtain e s' where d: "dup x y n = (e, s')" by fastforce
  consider "key x < key y" | "key x = key y" | "key y < key x" by fastforce
  then show ?case
  proof cases
    case 1
    then show ?thesis using Cons.prems by auto
  next
    case 2
    then show ?thesis using Cons.prems key_dup[of x y n] d by auto
  next
    case 3
    then have "\<forall>k\<in>key ` set Q. key y < k" using IH(2) Cons.prems by auto
    then show ?thesis using 3 IH Q by auto
  qed
qed simp

lemma sorted_ref_keys:
  assumes "ordered P"
  shows "ordered (fst (foldl (\<lambda>a x. insert_entry key dup x a) (P, n) xs)) \<and>
    key ` set (fst (foldl (\<lambda>a x. insert_entry key dup x a) (P, n) xs)) = key ` set P \<union> key ` set xs"
  using assms
proof (induction xs arbitrary: P n)
  case (Cons x xs)
  obtain Q m where Q: "insert_entry key dup x (P, n) = (Q, m)" by fastforce
  show ?case using insert_entry_keys[OF Cons.prems, of x n] Cons.IH[of Q m] Q by auto
qed simp

text \<open>The result has the paths of the argument, each once and in order.\<close>

lemma sort_ref_paths:
  "map key (fst (sort_ref key dup xs s)) = sorted_list_of_set (key ` set xs)"
proof -
  obtain ys n where s: "sort_ref key dup xs s = (ys, n)" by fastforce
  have "ordered ys" "key ` set ys = key ` set xs" using sorted_ref_keys[of "[]" s xs] s by (auto simp: sort_ref_def)
  then have "map key ys = sorted_list_of_set (set (map key ys))"
    by (metis sorted_list_of_set.idem_if_sorted_distinct strict_sorted_iff)
  then show ?thesis using s \<open>key ` set ys = key ` set xs\<close> by simp
qed

lemma insert_entry_pred:
  assumes "\<And>y s. Q y \<Longrightarrow> Q (fst (dup x y s))" "Q x"
  shows "\<forall>y\<in>set P. Q y \<Longrightarrow> \<forall>y\<in>set (fst (insert_entry key dup x (P, n))). Q y"
proof (induction P)
  case (Cons y P)
  then show ?case using assms(1)[of y n] assms(2) by (auto split: prod.splits)
qed (simp add: assms(2))

text \<open>What holds of all entries and is kept by merging holds of the result.\<close>

lemma sort_ref_pred:
  assumes "\<And>x y s. Q y \<Longrightarrow> Q (fst (dup x y s))" "\<forall>x\<in>set xs. Q x"
  shows "\<forall>y\<in>set (fst (sort_ref key dup xs s)). Q y"
proof -
  have "\<forall>y\<in>set (fst (foldl (\<lambda>a x. insert_entry key dup x a) (P, n) xs)). Q y" if "\<forall>y\<in>set P. Q y" for P n
    using that assms(2)
  proof (induction xs arbitrary: P n)
    case (Cons x xs)
    obtain R m where R: "insert_entry key dup x (P, n) = (R, m)" by fastforce
    have "\<forall>y\<in>set R. Q y" using insert_entry_pred[of Q x P n] assms(1) Cons.prems R by simp
    then show ?case using Cons.IH[of R m] Cons.prems R by simp
  qed simp
  from this[of "[]" s] show ?thesis by (simp add: sort_ref_def)
qed

lemma insert_entry_new:
  assumes "key x \<notin> key ` set P"
  shows "x \<in> set (fst (insert_entry key dup x (P, n)))"
  using assms by (induction P) (auto split: prod.splits)

lemma insert_entry_others:
  assumes "y \<in> set P" "key y \<noteq> key x"
  shows "y \<in> set (fst (insert_entry key dup x (P, n)))"
  using assms by (induction P) (auto split: prod.splits)

lemma insert_entry_keyset:
  "key ` set (fst (insert_entry key dup x (P, n))) \<subseteq> insert (key x) (key ` set P)"
proof (induction P)
  case (Cons y P)
  obtain R m where R: "insert_entry key dup x (P, n) = (R, m)" by fastforce
  obtain e s' where "dup x y n = (e, s')" by fastforce
  then show ?case using key_dup[of x y n] Cons R by auto
qed simp

text \<open>An entry whose path is its own stays as it is.\<close>

lemma sort_ref_single:
  assumes "filter (\<lambda>y. key y = key x) xs = [x]"
  shows "x \<in> set (fst (sort_ref key dup xs s))"
proof -
  have keep: "x \<in> set (fst (foldl (\<lambda>a x. insert_entry key dup x a) (P, n) ys))"
    if "x \<in> set P" "\<forall>y\<in>set ys. key y \<noteq> key x" for P n ys
    using that
  proof (induction ys arbitrary: P n)
    case (Cons y ys)
    obtain R m where R: "insert_entry key dup y (P, n) = (R, m)" by fastforce
    have "x \<in> set R" using insert_entry_others[of x P y n] Cons.prems R by auto
    then show ?case using Cons.IH[of R m] Cons.prems R by simp
  qed simp
  have "x \<in> set (fst (foldl (\<lambda>a x. insert_entry key dup x a) (P, n) xs))" if "key x \<notin> key ` set P" for P n
    using that assms
  proof (induction xs arbitrary: P n)
    case (Cons y ys)
    obtain R m where R: "insert_entry key dup y (P, n) = (R, m)" by fastforce
    show ?case
    proof (cases "key y = key x")
      case True
      then have "y = x" "\<forall>w\<in>set ys. key w \<noteq> key x" using Cons.prems(2) by (auto simp: filter_empty_conv)
      then show ?thesis using keep[of R ys m] insert_entry_new[of y P n] Cons.prems(1) R by simp
    next
      case False
      then have "key x \<notin> key ` set R" using insert_entry_keyset[of y P n] Cons.prems(1) R by auto
      then show ?thesis using Cons.IH[of R m] Cons.prems(2) False R by simp
    qed
  qed simp
  from this[of "[]" s] show ?thesis by (simp add: sort_ref_def)
qed

end

end
