(* ===== verification/Fixpath.thy ===== *)
theory Fixpath
  imports Paths
begin

text \<open>
  The install root and the base directory of an installation, \<open>libinst/fixpath.c\<close>: where the root and
  the base directory come from, and how the paths of a package map turn into paths on this machine
  and on the client.

  The global variables of the file are the record \<open>fixst\<close>. Strings stand for the memory they are kept
  in. The environment, the parameters of an installed package, the map mode and the answer of the user
  to the question for a base directory are arguments.
\<close>

section \<open>State\<close>

record fixst =
  install_root :: "string option"
  install_root_exists :: bool
  install_root_len :: nat
  basedir :: "string option"
  basedir_exists :: bool
  orig_basedir :: "string option"
  client_basedir :: "string option"
  client_basedir_exists :: bool
  env_cl_bdir :: "string option"
  ir_accessed :: bool
  relocatable :: bool
  base_sepr :: nat
  eval_valid :: bool
  offsets_valid :: bool
  orig_offset_rel :: nat
  client_offset :: nat

definition fixst0 :: fixst where
  "fixst0 = \<lparr>install_root = None, install_root_exists = False, install_root_len = 0, basedir = None,
     basedir_exists = False, orig_basedir = None, client_basedir = None, client_basedir_exists = False,
     env_cl_bdir = None, ir_accessed = False, relocatable = False, base_sepr = 1, eval_valid = False,
     offsets_valid = False, orig_offset_rel = 0, client_offset = 0\<rparr>"

section \<open>The install root\<close>

definition set_inst_root :: "string option \<Rightarrow> fixst \<Rightarrow> (int \<times> fixst) res" where
  "set_inst_root p s =
     (if install_root_exists s \<and> p = None then Inl NullDeref
      else
        let change = install_root_exists s \<and> install_root s \<noteq> p in
        if change \<and> ir_accessed s then Inr (0, s)
        else
          let s1 = (if change then s\<lparr>install_root_exists := False, install_root := None\<rparr> else s) in
          case p of
            None \<Rightarrow> Inr (1, s1\<lparr>install_root_exists := False\<rparr>)
          | Some q \<Rightarrow>
              if q = [] then Inr (1, s1\<lparr>install_root_exists := False\<rparr>)
              else if deref q \<noteq> SLASH then Inr (0, s1)
              else
                let r = canonize (strlcpy q PATH_MAX) in
                Inr (1, s1\<lparr>install_root := Some r, install_root_exists := True,
                  install_root_len := (if length r = 1 then 0 else length r)\<rparr>))"

definition get_inst_root :: "fixst \<Rightarrow> string option \<times> fixst" where
  "get_inst_root s = (install_root s, s\<lparr>ir_accessed := True\<rparr>)"

text \<open>
  The root is copied to the new string and the path behind it, over a slash at the end of the root;
  a path \<open>/\<close> is not copied, so that a root \<open>/\<close> stays. \<open>fixpath_dup\<close> differs in where the memory comes from.
\<close>

definition fixpath :: "string option \<Rightarrow> fixst \<Rightarrow> (string option \<times> fixst) res" where
  "fixpath p s =
     (case p of
        Some q \<Rightarrow>
          if q \<noteq> [] then
            if install_root_exists s then
              (case get_inst_root s of (root, s1) \<Rightarrow>
                case root of
                  None \<Rightarrow> Inl NullDeref
                | Some r \<Rightarrow>
                    if r = [] then Inl BufOverrun
                    else if q = [SLASH] then Inr (Some r, s1)
                    else Inr (Some ((if last r = SLASH then butlast r else r) @ q), s1))
            else Inr (Some q, s)
          else if install_root_exists s then (case get_inst_root s of (root, s1) \<Rightarrow> Inr (root, s1))
          else Inr (None, s)
      | None \<Rightarrow>
          if install_root_exists s then (case get_inst_root s of (root, s1) \<Rightarrow> Inr (root, s1))
          else Inr (None, s))"

definition fixpath_dup :: "string \<Rightarrow> fixst \<Rightarrow> (string option \<times> fixst) res" where
  "fixpath_dup q s = fixpath (Some q) s"

text \<open>
  The part of the path behind the root; a relative one is moved back by one character, which for a
  pointer to the start of the path is a byte in front of it.
\<close>

definition orig_path_ptr :: "string option \<Rightarrow> fixst \<Rightarrow> (string option) mrg" where
  "orig_path_ptr p s =
     (case p of
        None \<Rightarrow> MOk None
      | Some q \<Rightarrow>
          if q = [] then MOk None
          else if \<not> install_root_exists s then MOk (Some (canonize q))
          else (case install_root s of
            None \<Rightarrow> MFault NullDeref
          | Some r \<Rightarrow>
              let n = install_root_len s in
              if take n q = take n r then
                (if drop n q = [] then MOk (Some (canonize [SLASH]))
                 else if deref (drop n q) \<noteq> SLASH then
                   (if n = 0 then MFault BufOverrun
                    else if q ! (n - 1) \<noteq> SLASH then MQuit 99
                    else MOk (Some (canonize (drop (n - 1) q))))
                 else MOk (Some (canonize (drop n q))))
              else MOk (Some (canonize q))))"

definition orig_path :: "string option \<Rightarrow> fixst \<Rightarrow> (string option) mrg" where
  "orig_path p s = orig_path_ptr p s"

section \<open>The base directory\<close>

definition set_env_cbdir :: "environ \<Rightarrow> fixst \<Rightarrow> fixst" where
  "set_env_cbdir env s =
     (case env ''CLIENT_BASEDIR'' of
        Some c \<Rightarrow> if c \<noteq> [] then s\<lparr>env_cl_bdir := Some (canonize c)\<rparr> else s
      | None \<Rightarrow> s)"

definition expand_path :: "environ \<Rightarrow> int \<Rightarrow> string \<Rightarrow> string res" where
  "expand_path env mode q =
     (if q = [] then Inr q
      else rbind (mappath env mode PATH_MAX (strlcpy q PATH_MAX)) (\<lambda>(_, t). Inr (canonize t)))"

text \<open>The answer is the result of \<open>ckpath\<close> and the path it was given.\<close>

definition ask_basedir :: "environ \<Rightarrow> int \<Rightarrow> bool \<Rightarrow> int \<times> string \<Rightarrow> fixst \<Rightarrow> (int \<times> fixst) res" where
  "ask_basedir env mode nointeract answer s =
     (if nointeract then Inr (5, s)
      else if fst answer \<noteq> 0 then Inr (fst answer, s)
      else rbind (expand_path env mode (snd answer)) (\<lambda>t. Inr (0, s\<lparr>orig_basedir := Some t\<rparr>)))"

definition set_client_basedir :: "fixst \<Rightarrow> int \<times> fixst" where
  "set_client_basedir s =
     (let s1 = (if install_root_exists s
                then s\<lparr>client_basedir := (if basedir_exists s then orig_basedir s else Some [SLASH]),
                       client_basedir_exists := True\<rparr>
                else if basedir_exists s then s\<lparr>client_basedir := basedir s, client_basedir_exists := True\<rparr>
                else s) in
      case env_cl_bdir s1 of
        Some e \<Rightarrow>
          if e \<noteq> [] then
            if client_basedir_exists s1 then (if client_basedir s1 \<noteq> Some e then (0, s1) else (1, s1))
            else (1, s1\<lparr>client_basedir := Some e, client_basedir_exists := True\<rparr>)
          else (1, s1)
      | None \<Rightarrow> (1, s1))"

text \<open>From the original base directory to the one on this machine.\<close>

definition finish_basedirs :: "fixst \<Rightarrow> (int \<times> fixst) res" where
  "finish_basedirs s =
     rbind (fixpath (orig_basedir s) (s\<lparr>basedir_exists := True\<rparr>)) (\<lambda>(b, s1).
     let s2 = s1\<lparr>basedir := b\<rparr> in
     case b of
       None \<Rightarrow> Inl NullDeref
     | Some t \<Rightarrow>
         let s3 = (if t = [SLASH] then s2\<lparr>base_sepr := 0\<rparr> else s2) in
         (case set_client_basedir s3 of (n, s4) \<Rightarrow>
            if n = 0 then Inr (1, s4) else Inr (0, s4\<lparr>eval_valid := True\<rparr>)))"

text \<open>\<open>strchr("/$", c)\<close> for a character of a string.\<close>

definition abs_start :: "string \<Rightarrow> bool" where
  "abs_start q \<longleftrightarrow> deref q = SLASH \<or> deref q = CHR ''$''"

definition installed_basedir ::
  "environ \<Rightarrow> int \<Rightarrow> string option \<Rightarrow> bool \<Rightarrow> int \<times> string \<Rightarrow> fixst \<Rightarrow> (int \<times> fixst) res" where
  "installed_basedir env mode inst_basedir nointeract answer s =
     (let s1 = s\<lparr>basedir := inst_basedir\<rparr>; b = (case inst_basedir of None \<Rightarrow> [] | Some b \<Rightarrow> b) in
      if b \<noteq> [] then rbind (expand_path env mode b) (\<lambda>t. Inr (0, s1\<lparr>orig_basedir := Some t\<rparr>))
      else ask_basedir env mode nointeract answer s1)"

definition choose_basedir ::
  "environ \<Rightarrow> int \<Rightarrow> string option \<Rightarrow> string option \<Rightarrow> bool \<Rightarrow> int \<times> string \<Rightarrow> fixst \<Rightarrow> (int \<times> fixst) mrg" where
  "choose_basedir env mode adm_basedir inst_basedir nointeract answer s =
     (let adm = (case adm_basedir of None \<Rightarrow> [] | Some a \<Rightarrow> a) in
      if adm \<noteq> [] \<and> abs_start adm then
        mlift (rbind (expand_path env mode adm) (\<lambda>t. Inr (0, s\<lparr>orig_basedir := Some t\<rparr>)))
      else if adm \<noteq> [] \<and> (adm = ''update'' \<or> adm = ''ask'') then
        mbind (mlift (ask_basedir env mode nointeract answer s)) (\<lambda>(n, s1).
        if n \<noteq> 0 then MOk (n, s1)
        else if adm = ''update'' then
          (case env ''BASEDIR'' of
             None \<Rightarrow> MFault NullDeref
           | Some b \<Rightarrow> if orig_basedir s1 \<noteq> Some b then MQuit 4 else MOk (0, s1\<lparr>basedir := Some b\<rparr>))
        else MOk (0, s1))
      else if adm \<noteq> [] \<and> adm \<noteq> ''default'' then MOk (1, s)
      else (case env ''BASEDIR'' of
        Some b \<Rightarrow>
          if b \<noteq> [] then mlift (rbind (expand_path env mode b) (\<lambda>t. Inr (0, s\<lparr>basedir := Some b, orig_basedir := Some t\<rparr>)))
          else mlift (installed_basedir env mode inst_basedir nointeract answer s)
      | None \<Rightarrow> mlift (installed_basedir env mode inst_basedir nointeract answer s)))"

definition set_basedirs ::
  "environ \<Rightarrow> int \<Rightarrow> string option \<Rightarrow> bool \<Rightarrow> int \<times> string \<Rightarrow> bool \<Rightarrow> string option \<Rightarrow> fixst \<Rightarrow> (int \<times> fixst) mrg" where
  "set_basedirs env mode inst_basedir nointeract answer reloc adm_basedir s0 =
     (let s = s0\<lparr>relocatable := reloc\<rparr> in
      if reloc then
        mbind (choose_basedir env mode adm_basedir inst_basedir nointeract answer s) (\<lambda>(n, s1).
        if n \<noteq> 0 then MOk (n, s1) else mlift (finish_basedirs s1))
      else
        let s1 = s\<lparr>basedir := inst_basedir\<rparr>; b = (case inst_basedir of None \<Rightarrow> [] | Some b \<Rightarrow> b) in
        if b \<noteq> [] then
          mlift (rbind (expand_path env mode b) (\<lambda>t. finish_basedirs (s1\<lparr>orig_basedir := Some t\<rparr>)))
        else if install_root_exists s then mlift (finish_basedirs (s1\<lparr>orig_basedir := Some [SLASH]\<rparr>))
        else MOk (0, s1\<lparr>eval_valid := True\<rparr>))"

definition get_basedir :: "fixst \<Rightarrow> string option" where "get_basedir s = basedir s"
definition get_client_basedir :: "fixst \<Rightarrow> string option" where "get_client_basedir s = client_basedir s"

definition get_info_basedir :: "fixst \<Rightarrow> string option" where
  "get_info_basedir s =
     (if install_root_exists s then client_basedir s else if basedir_exists s then basedir s else None)"

definition is_an_inst_root :: "fixst \<Rightarrow> bool" where "is_an_inst_root s = install_root_exists s"
definition is_a_basedir :: "fixst \<Rightarrow> bool" where "is_a_basedir s = basedir_exists s"
definition is_relocatable :: "fixst \<Rightarrow> bool" where "is_relocatable s = relocatable s"
definition is_a_cl_basedir :: "fixst \<Rightarrow> bool" where "is_a_cl_basedir s = client_basedir_exists s"

text \<open>The parameters that are put, in their order.\<close>

definition put_path_params :: "fixst \<Rightarrow> (string \<times> string option) list \<times> fixst" where
  "put_path_params s =
     ((if install_root_exists s then [(''PKG_INSTALL_ROOT'', install_root s)] else []) @
      (if basedir_exists s then [(''BASEDIR'', basedir s)] else []) @
      (if client_basedir_exists s then [(''CLIENT_BASEDIR'', client_basedir s)] else []),
      if install_root_exists s then s\<lparr>ir_accessed := True\<rparr> else s)"

section \<open>Evaluation of paths\<close>

text \<open>The three pointers the caller passes; \<open>with_map\<close> tells whether the third one is there.\<close>

record path_ptrs =
  server_ptr :: "string option"
  client_ptr :: "string option"
  map_ptr :: "string option"

text \<open>A pointer \<open>n\<close> bytes into a string.\<close>

definition sub_ptr :: "string \<Rightarrow> nat \<Rightarrow> string res" where
  "sub_ptr t n = (if n \<le> length t then Inr (drop n t) else Inl BufOverrun)"

definition set_offsets :: "fixst \<Rightarrow> fixst res" where
  "set_offsets s =
     (if offsets_valid s then Inr s
      else if is_a_basedir s then
        (case basedir s of
           None \<Rightarrow> Inl NullDeref
         | Some b \<Rightarrow> Inr (s\<lparr>orig_offset_rel := length b + base_sepr s,
             client_offset := (if is_an_inst_root s then install_root_len s else 0), offsets_valid := True\<rparr>))
      else Inr (s\<lparr>orig_offset_rel := 0, client_offset := (if is_an_inst_root s then install_root_len s else 0),
             offsets_valid := True\<rparr>))"

definition eval_relative :: "bool \<Rightarrow> string \<Rightarrow> path_ptrs \<Rightarrow> fixst \<Rightarrow> path_ptrs res" where
  "eval_relative with_map p ps s =
     (let path_size = orig_offset_rel s + length p in
      case basedir s of
        None \<Rightarrow> Inl NullDeref
      | Some b \<Rightarrow>
          if path_size = 0 then Inl NullDeref
          else
            let server = take path_size (b @ (if base_sepr s = 0 then [] else [SLASH]) @ p) in
            rbind (sub_ptr server (client_offset s)) (\<lambda>client.
            rbind (if with_map then rbind (sub_ptr server (orig_offset_rel s)) (\<lambda>t. Inr (Some t)) else Inr (map_ptr ps)) (\<lambda>mapped.
            Inr \<lparr>server_ptr = Some server, client_ptr = Some client, map_ptr = mapped\<rparr>)))"

definition eval_absolute :: "bool \<Rightarrow> string \<Rightarrow> path_ptrs \<Rightarrow> fixst \<Rightarrow> (path_ptrs \<times> fixst) res" where
  "eval_absolute with_map p ps s =
     rbind (fixpath_dup p s) (\<lambda>(server, s1).
     case server of
       None \<Rightarrow> Inl NullDeref
     | Some t \<Rightarrow>
         rbind (sub_ptr t (client_offset s1)) (\<lambda>client.
         Inr (\<lparr>server_ptr = server, client_ptr = Some client,
               map_ptr = (if with_map then Some client else map_ptr ps)\<rparr>, s1)))"

definition eval_path :: "bool \<Rightarrow> string \<Rightarrow> path_ptrs \<Rightarrow> fixst \<Rightarrow> (int \<times> path_ptrs \<times> fixst) res" where
  "eval_path with_map p ps s0 =
     rbind (set_offsets s0) (\<lambda>s.
     if eval_valid s then
       (if deref p \<noteq> SLASH then
          (if relocatable s then rbind (eval_relative with_map p ps s) (\<lambda>ps1. Inr (1, ps1, s))
           else Inr (1, ps, s))
        else rbind (eval_absolute with_map p ps s) (\<lambda>(ps1, s1). Inr (1, ps1, s1)))
     else Inr (0, ps, s))"

section \<open>Where paths lead\<close>

text \<open>A path that starts with a slash and has none at its end.\<close>

definition clean_abs :: "string \<Rightarrow> bool" where
  "clean_abs r \<longleftrightarrow> deref r = SLASH \<and> (r = [SLASH] \<or> last r \<noteq> SLASH)"

definition root_text :: "string \<Rightarrow> string" where
  "root_text r = (if r = [SLASH] then [] else r)"

lemma root_text_slash: "root_text r @ [SLASH] @ p = (if r = [SLASH] then SLASH # p else r @ SLASH # p)"
  by (simp add: root_text_def)

lemma clean_absD: "clean_abs r \<Longrightarrow> r \<noteq> []" "clean_abs r \<Longrightarrow> deref r = SLASH"
  by (auto simp: clean_abs_def deref_def)

text \<open>The documented places of a path: on this machine, on the client, in the package map.\<close>

definition place :: "string \<Rightarrow> string \<Rightarrow> string \<Rightarrow> path_ptrs" where
  "place r d p =
     (let q = (if deref p = SLASH then p else root_text d @ [SLASH] @ p) in
      \<lparr>server_ptr = Some (root_text r @ q), client_ptr = Some q, map_ptr = Some p\<rparr>)"

definition no_ptrs :: path_ptrs where
  "no_ptrs = \<lparr>server_ptr = None, client_ptr = None, map_ptr = None\<rparr>"

text \<open>
  What \<open>eval_path\<close> stores: nothing for a relative path in a package that is not relocatable, the empty string
  as the client's path for \<open>/\<close> under another root, the documented places for every other path.
\<close>

definition place_of :: "string \<Rightarrow> string \<Rightarrow> bool \<Rightarrow> string \<Rightarrow> path_ptrs" where
  "place_of r d reloc p =
     (if deref p \<noteq> SLASH \<and> \<not> reloc then no_ptrs
      else if p = [SLASH] \<and> r \<noteq> [SLASH] then \<lparr>server_ptr = Some r, client_ptr = Some [], map_ptr = Some []\<rparr>
      else place r d p)"

fun eval_paths :: "string list \<Rightarrow> fixst \<Rightarrow> (path_ptrs list) res" where
  "eval_paths [] s = Inr []"
| "eval_paths (p # ps) s =
     rbind (eval_path True p no_ptrs s) (\<lambda>(n, x, s1).
     rbind (eval_paths ps s1) (\<lambda>xs. Inr (x # xs)))"

definition root_is :: "string \<Rightarrow> fixst \<Rightarrow> bool" where
  "root_is r s \<longleftrightarrow> clean_abs r \<and>
     (install_root_exists s \<and> install_root s = Some r \<and> install_root_len s = length (root_text r) \<or>
      \<not> install_root_exists s \<and> r = [SLASH])"

lemma fixpath_root:
  assumes "root_is r s" "p \<noteq> []" "deref p = SLASH"
  shows "\<exists>s1. fixpath (Some p) s = Inr (Some (if p = [SLASH] then r else root_text r @ p), s1) \<and>
    (s1 = s \<or> s1 = s\<lparr>ir_accessed := True\<rparr>)"
proof (cases "install_root_exists s")
  case True
  then have r: "install_root s = Some r" "clean_abs r" using assms(1) by (simp_all add: root_is_def)
  have "(if last r = SLASH then butlast r else r) = root_text r"
    using r(2) by (auto simp: clean_abs_def root_text_def)
  then show ?thesis
    using True assms(2) r(1) clean_absD(1)[OF r(2)] by (simp add: fixpath_def get_inst_root_def)
next
  case False
  then have "r = [SLASH]" using assms(1) by (simp add: root_is_def)
  then show ?thesis using False assms(2) by (simp add: fixpath_def root_text_def)
qed

lemma fixpath_base:
  assumes "root_is r s" "clean_abs d"
  shows "\<exists>s1. fixpath (Some d) s = Inr (Some (if root_text r @ root_text d = [] then [SLASH] else root_text r @ root_text d), s1) \<and>
    (s1 = s \<or> s1 = s\<lparr>ir_accessed := True\<rparr>)"
proof -
  have "(if d = [SLASH] then r else root_text r @ d) =
      (if root_text r @ root_text d = [] then [SLASH] else root_text r @ root_text d)"
    using clean_absD(1)[OF assms(2)] clean_absD(1)[of r] assms(1) by (auto simp: root_text_def root_is_def)
  then show ?thesis using fixpath_root[OF assms(1) clean_absD[OF assms(2)]] by simp
qed

lemma set_inst_root_is:
  assumes "set_inst_root (Some q) fixst0 = Inr (1, s)" "q \<noteq> []" "clean_abs (canonize (strlcpy q PATH_MAX))"
  shows "root_is (canonize (strlcpy q PATH_MAX)) s"
proof -
  define r where "r = canonize (strlcpy q PATH_MAX)"
  have "length r = 1 \<longleftrightarrow> r = [SLASH]"
    using assms(3) unfolding r_def[symmetric] clean_abs_def by (cases r) (auto simp: deref_def)
  then show ?thesis
    using assms unfolding r_def[symmetric]
    by (auto simp: set_inst_root_def fixst0_def root_is_def r_def[symmetric] Let_def root_text_def split: if_splits)
qed

text \<open>Everything \<open>eval_path\<close> relies on.\<close>

definition placed :: "string \<Rightarrow> string \<Rightarrow> bool \<Rightarrow> fixst \<Rightarrow> bool" where
  "placed r d reloc s \<longleftrightarrow> root_is r s \<and> clean_abs d \<and> eval_valid s \<and> relocatable s = reloc \<and>
     (reloc \<longrightarrow> basedir_exists s) \<and>
     (basedir_exists s \<longrightarrow> (let b = root_text r @ root_text d in
        basedir s = Some (if b = [] then [SLASH] else b) \<and> base_sepr s = (if b = [] then 0 else 1))) \<and>
     (offsets_valid s \<longrightarrow> client_offset s = length (root_text r) \<and>
        orig_offset_rel s = (if basedir_exists s then length (root_text r @ root_text d) + 1 else 0))"

lemma set_offsets_placed:
  assumes "placed r d reloc s"
  shows "\<exists>s1. set_offsets s = Inr s1 \<and> placed r d reloc s1 \<and> offsets_valid s1"
  using assms by (auto simp: set_offsets_def placed_def is_a_basedir_def is_an_inst_root_def Let_def root_is_def root_text_def)

lemma eval_relative_placed:
  assumes s: "placed r d True s" "offsets_valid s"
  shows "eval_relative with_map p ps s = Inr \<lparr>server_ptr = Some (root_text r @ root_text d @ [SLASH] @ p),
    client_ptr = Some (root_text d @ [SLASH] @ p), map_ptr = (if with_map then Some p else map_ptr ps)\<rparr>"
proof -
  define B where "B = root_text r @ root_text d"
  have off: "client_offset s = length (root_text r)" "orig_offset_rel s = length B + 1"
    and b: "basedir s = Some (if B = [] then [SLASH] else B)" "base_sepr s = (if B = [] then 0 else 1)"
    using s by (auto simp: placed_def Let_def B_def)
  have bt: "(if B = [] then [SLASH] else B) @ (if base_sepr s = 0 then [] else [SLASH]) @ p = B @ [SLASH] @ p"
    by (simp add: b(2))
  have t: "take (length B + 1 + length p) (B @ [SLASH] @ p) = B @ [SLASH] @ p" by simp
  have c: "drop (length (root_text r)) (B @ [SLASH] @ p) = root_text d @ [SLASH] @ p"
    "length (root_text r) \<le> length (B @ [SLASH] @ p)" by (simp_all add: B_def)
  have m: "drop (length B + 1) (B @ [SLASH] @ p) = p" "length B + 1 \<le> length (B @ [SLASH] @ p)" by simp_all
  have "eval_relative with_map p ps s = Inr \<lparr>server_ptr = Some (B @ [SLASH] @ p),
      client_ptr = Some (root_text d @ [SLASH] @ p), map_ptr = (if with_map then Some p else map_ptr ps)\<rparr>"
    unfolding eval_relative_def b(1) option.case off bt Let_def t sub_ptr_def if_P[OF c(2)] if_P[OF m(2)] c(1) m(1)
    by simp
  then show ?thesis by (simp add: B_def)
qed

lemma eval_absolute_placed:
  assumes s: "placed r d reloc s" "offsets_valid s" and p: "deref p = SLASH"
  shows "\<exists>s1 c. eval_absolute with_map p ps s = Inr (\<lparr>server_ptr = Some (root_text r @ c), client_ptr = Some c,
    map_ptr = (if with_map then Some c else map_ptr ps)\<rparr>, s1) \<and> placed r d reloc s1 \<and>
    c = (if p = [SLASH] \<and> r \<noteq> [SLASH] then [] else p)"
proof -
  have off: "client_offset s = length (root_text r)" and root: "root_is r s" using s by (auto simp: placed_def)
  have pn: "p \<noteq> []" using p by auto
  obtain s1 where f: "fixpath (Some p) s = Inr (Some (if p = [SLASH] then r else root_text r @ p), s1)"
    "s1 = s \<or> s1 = s\<lparr>ir_accessed := True\<rparr>"
    using fixpath_root[OF root pn p] by auto
  have s1: "placed r d reloc s1" "client_offset s1 = length (root_text r)"
    using f(2) s(1) off by (elim disjE; simp add: placed_def root_is_def)+
  define c where "c = (if p = [SLASH] \<and> r \<noteq> [SLASH] then [] else p)"
  have "(if p = [SLASH] then r else root_text r @ p) = root_text r @ c" by (simp add: c_def root_text_def)
  then have "eval_absolute with_map p ps s = Inr (\<lparr>server_ptr = Some (root_text r @ c), client_ptr = Some c,
      map_ptr = (if with_map then Some c else map_ptr ps)\<rparr>, s1)"
    unfolding eval_absolute_def fixpath_dup_def f(1) by (simp add: sub_ptr_def s1(2))
  then show ?thesis using s1(1) by (auto simp: c_def)
qed

lemma eval_path_placed:
  assumes pl: "placed r d reloc s0"
  shows "\<exists>s1. eval_path True p no_ptrs s0 = Inr (1, place_of r d reloc p, s1) \<and> placed r d reloc s1"
proof -
  obtain s where s: "set_offsets s0 = Inr s" "placed r d reloc s" "offsets_valid s"
    using set_offsets_placed[OF pl] by blast
  have ev: "eval_valid s" "relocatable s = reloc" using s(2) by (simp_all add: placed_def)
  show ?thesis
  proof (cases "deref p = SLASH")
    case True
    obtain s1 c where e: "eval_absolute True p no_ptrs s = Inr (\<lparr>server_ptr = Some (root_text r @ c), client_ptr = Some c,
      map_ptr = Some c\<rparr>, s1)" "placed r d reloc s1" "c = (if p = [SLASH] \<and> r \<noteq> [SLASH] then [] else p)"
      using eval_absolute_placed[OF s(2,3) True, of True no_ptrs] by auto
    then have "place_of r d reloc p = \<lparr>server_ptr = Some (root_text r @ c), client_ptr = Some c, map_ptr = Some c\<rparr>"
      using True by (simp add: place_of_def place_def Let_def root_text_def)
    then show ?thesis using e(1,2) ev True by (simp add: eval_path_def s(1))
  next
    case False
    then show ?thesis
      using eval_relative_placed[of r d s True p no_ptrs] ev s
      by (cases reloc) (auto simp: eval_path_def place_of_def place_def Let_def deref_def)
  qed
qed

text \<open>In every case the pointers stay, or the path on this machine is that of the client behind the root.\<close>

lemma eval_path_rooted:
  assumes pl: "placed r d reloc s0" and run: "eval_path with_map p ps s0 = Inr (n, ps', s')"
  shows "placed r d reloc s' \<and> (ps' = ps \<or>
    (\<exists>c. server_ptr ps' = Some (root_text r @ c) \<and> client_ptr ps' = Some c \<and> (c = [] \<or> deref c = SLASH)))"
proof -
  obtain s where s: "set_offsets s0 = Inr s" "placed r d reloc s" "offsets_valid s"
    using set_offsets_placed[OF pl] by blast
  have ev: "eval_valid s" "relocatable s = reloc" "clean_abs d" using s(2) by (simp_all add: placed_def)
  have d: "deref (root_text d @ [SLASH] @ p) = SLASH"
    using clean_absD[OF ev(3)] by (cases d) (simp_all add: root_text_def)
  consider "deref p = SLASH" | "deref p \<noteq> SLASH" reloc | "deref p \<noteq> SLASH" "\<not> reloc" by blast
  then show ?thesis
  proof cases
    case 1
    then show ?thesis using eval_absolute_placed[OF s(2,3) 1, of with_map ps] run ev by (auto simp: eval_path_def s(1))
  next
    case 2
    define c where "c = root_text d @ [SLASH] @ p"
    have e: "eval_relative with_map p ps s = Inr \<lparr>server_ptr = Some (root_text r @ c), client_ptr = Some c,
        map_ptr = (if with_map then Some p else map_ptr ps)\<rparr>"
      unfolding c_def using eval_relative_placed[of r d s with_map p ps] s 2 by simp
    have "s' = s" "ps' = \<lparr>server_ptr = Some (root_text r @ c), client_ptr = Some c,
        map_ptr = (if with_map then Some p else map_ptr ps)\<rparr>"
      using run e 2 ev by (simp_all add: eval_path_def s(1))
    then show ?thesis using s(2) d unfolding c_def[symmetric] by simp
  next
    case 3
    then show ?thesis using run ev s by (auto simp: eval_path_def)
  qed
qed

lemma eval_paths_placed:
  "placed r d reloc s \<Longrightarrow> eval_paths ps s = Inr (map (place_of r d reloc) ps)"
proof (induction ps arbitrary: s)
  case (Cons p ps)
  obtain s1 where "eval_path True p no_ptrs s = Inr (1, place_of r d reloc p, s1)" "placed r d reloc s1"
    using eval_path_placed[OF Cons.prems] by blast
  then show ?case using Cons.IH by simp
qed simp

lemma finish_placed:
  assumes fin: "finish_basedirs s = Inr (0, s')" and root: "root_is r s" and d: "orig_basedir s = Some d" "clean_abs d"
    and fresh: "base_sepr s = 1" "\<not> offsets_valid s" and rel: "relocatable s = reloc"
  shows "placed r d reloc s' \<and> orig_basedir s' = Some d"
proof -
  have "root_is r (s\<lparr>basedir_exists := True\<rparr>)" using root by (simp add: root_is_def)
  then obtain s1 where f: "fixpath (Some d) (s\<lparr>basedir_exists := True\<rparr>) =
      Inr (Some (if root_text r @ root_text d = [] then [SLASH] else root_text r @ root_text d), s1)"
    "s1 = s\<lparr>basedir_exists := True\<rparr> \<or> s1 = s\<lparr>basedir_exists := True, ir_accessed := True\<rparr>"
    using fixpath_base[OF _ d(2)] by blast
  have ne: "root_text r @ root_text d \<noteq> [SLASH]"
    using root d(2) by (auto simp: root_text_def root_is_def clean_abs_def append_eq_Cons_conv)
  define b where "b = (if root_text r @ root_text d = [] then [SLASH] else root_text r @ root_text d)"
  define s2 where "s2 = (if b = [SLASH] then s1\<lparr>basedir := Some b, base_sepr := 0\<rparr> else s1\<lparr>basedir := Some b\<rparr>)"
  obtain n s4 where c: "set_client_basedir s2 = (n, s4)" by fastforce
  have s': "s' = s4\<lparr>eval_valid := True\<rparr>"
    using fin c unfolding finish_basedirs_def d(1) f(1) rbind_simps prod.case b_def[symmetric]
    by (simp add: Let_def s2_def split: if_splits)
  have keep: "install_root_exists s4 = install_root_exists s2" "install_root s4 = install_root s2"
    "install_root_len s4 = install_root_len s2" "basedir s4 = basedir s2" "basedir_exists s4 = basedir_exists s2"
    "base_sepr s4 = base_sepr s2" "offsets_valid s4 = offsets_valid s2" "relocatable s4 = relocatable s2"
    "orig_basedir s4 = orig_basedir s2"
    using c by (auto simp: set_client_basedir_def Let_def split: if_splits option.splits)
  have s2: "install_root_exists s2 = install_root_exists s" "install_root s2 = install_root s"
    "install_root_len s2 = install_root_len s" "basedir s2 = Some b" "basedir_exists s2"
    "base_sepr s2 = (if b = [SLASH] then 0 else 1)" "offsets_valid s2 = offsets_valid s" "relocatable s2 = relocatable s"
    "orig_basedir s2 = orig_basedir s"
    using f(2) fresh by (auto simp: s2_def)
  have "b = [SLASH] \<longleftrightarrow> root_text r @ root_text d = []" using ne by (auto simp: b_def)
  then show ?thesis
    using root d fresh(2) rel by (simp add: placed_def root_is_def s' keep s2 b_def Let_def)
qed

text \<open>What \<open>set_basedirs\<close> leaves of the state from which it starts.\<close>

lemma ask_keeps:
  "ask_basedir env mode ni ans s = Inr (n, s') \<Longrightarrow> \<exists>x. s' = s\<lparr>orig_basedir := x\<rparr>"
  by (auto simp: ask_basedir_def rbind_Inr split: if_splits) (metis fixst.surjective fixst.update_convs(6))+

definition same_root :: "fixst \<Rightarrow> fixst \<Rightarrow> bool" where
  "same_root s s' \<longleftrightarrow> install_root_exists s' = install_root_exists s \<and> install_root s' = install_root s \<and>
     install_root_len s' = install_root_len s \<and> base_sepr s' = base_sepr s \<and> offsets_valid s' = offsets_valid s \<and>
     relocatable s' = relocatable s"

lemma choose_keeps:
  assumes "choose_basedir env mode adm inst ni ans s = MOk (n, s')"
  shows "same_root s s'"
proof -
  have ask: "same_root s t \<and> (\<forall>b. same_root s (t\<lparr>basedir := b\<rparr>))" if "ask_basedir env mode ni ans s = Inr (k, t)" for s t k
    using ask_keeps[OF that] by (auto simp: same_root_def)
  have ins: "same_root s t" if "installed_basedir env mode inst ni ans s = Inr (k, t)" for t k
    using that ask[of "s\<lparr>basedir := inst\<rparr>"]
    by (auto simp: installed_basedir_def Let_def rbind_Inr same_root_def split: if_splits)
  define a where "a = (case adm of None \<Rightarrow> [] | Some x \<Rightarrow> x)"
  consider "a \<noteq> []" "abs_start a" | "a \<noteq> []" "\<not> abs_start a" "a = ''update'' \<or> a = ''ask''"
    | "a \<noteq> []" "\<not> abs_start a" "a \<noteq> ''update''" "a \<noteq> ''ask''" "a \<noteq> ''default''"
    | "a = [] \<or> \<not> abs_start a \<and> a = ''default''" by fastforce
  then show ?thesis
  proof cases
    case 1
    then show ?thesis using assms unfolding choose_basedir_def a_def[symmetric] Let_def by (auto simp: mlift_MOk rbind_Inr same_root_def)
  next
    case 2
    then obtain k t where k: "ask_basedir env mode ni ans s = Inr (k, t)"
      and r: "(if k \<noteq> 0 then MOk (k, t) else if a = ''update'' then
          (case env ''BASEDIR'' of None \<Rightarrow> MFault NullDeref
           | Some b \<Rightarrow> if orig_basedir t \<noteq> Some b then MQuit 4 else MOk (0, t\<lparr>basedir := Some b\<rparr>))
        else MOk (0, t)) = MOk (n, s')"
      using assms unfolding choose_basedir_def a_def[symmetric] Let_def by (simp add: mbind_MOk mlift_MOk) blast
    show ?thesis using r ask[OF k] by (simp split: if_splits option.splits) blast+
  next
    case 3
    then show ?thesis using assms unfolding choose_basedir_def a_def[symmetric] Let_def by (simp add: same_root_def)
  next
    case 4
    then have "(case env ''BASEDIR'' of
        Some b \<Rightarrow>
          if b \<noteq> [] then mlift (rbind (expand_path env mode b) (\<lambda>t. Inr (0, s\<lparr>basedir := Some b, orig_basedir := Some t\<rparr>)))
          else mlift (installed_basedir env mode inst ni ans s)
      | None \<Rightarrow> mlift (installed_basedir env mode inst ni ans s)) = MOk (n, s')"
      using assms unfolding choose_basedir_def a_def[symmetric] Let_def by auto
    then show ?thesis using ins by (auto simp: mlift_MOk rbind_Inr same_root_def split: option.splits if_splits)
  qed
qed

lemma set_basedirs_placed:
  assumes root: "root_is r s" and fresh: "base_sepr s = 1" "\<not> offsets_valid s" "\<not> basedir_exists s"
    and run: "set_basedirs env mode inst ni ans reloc adm s = MOk (0, s')"
    and d: "orig_basedir s' = Some d" "clean_abs d"
  shows "placed r d reloc s'"
proof -
  have fin: "placed r d reloc s'" if f: "finish_basedirs t = Inr (0, s')" and t: "same_root (s\<lparr>relocatable := reloc\<rparr>) t" for t
  proof -
    have "orig_basedir t = orig_basedir s'"
    proof -
      obtain b t1 where "fixpath (orig_basedir t) (t\<lparr>basedir_exists := True\<rparr>) = Inr (b, t1)"
        using f by (auto simp: finish_basedirs_def rbind_Inr)
      moreover from this have "orig_basedir t1 = orig_basedir t"
        by (auto simp: fixpath_def get_inst_root_def split: option.splits if_splits)
      ultimately show ?thesis
        using f by (auto simp: finish_basedirs_def Let_def set_client_basedir_def split: option.splits if_splits)
    qed
    then show ?thesis
      using finish_placed[OF f, of r d reloc] root d fresh t by (simp add: root_is_def same_root_def)
  qed
  show ?thesis
  proof (cases reloc)
    case True
    then obtain n t where c: "choose_basedir env mode adm inst ni ans (s\<lparr>relocatable := reloc\<rparr>) = MOk (n, t)"
      and r: "(if n \<noteq> 0 then MOk (n, t) else mlift (finish_basedirs t)) = MOk (0, s')"
      using run unfolding set_basedirs_def Let_def
      by (cases "choose_basedir env mode adm inst ni ans (s\<lparr>relocatable := reloc\<rparr>)") auto
    show ?thesis using fin[of t] choose_keeps[OF c] r by (simp add: mlift_MOk split: if_splits)
  next
    case False
    define s1 where "s1 = s\<lparr>relocatable := False, basedir := inst\<rparr>"
    define b where "b = (case inst of None \<Rightarrow> [] | Some b \<Rightarrow> b)"
    have r: "(if b \<noteq> [] then mlift (rbind (expand_path env mode b) (\<lambda>t. finish_basedirs (s1\<lparr>orig_basedir := Some t\<rparr>)))
      else if install_root_exists s then mlift (finish_basedirs (s1\<lparr>orig_basedir := Some [SLASH]\<rparr>))
      else MOk (0, s1\<lparr>eval_valid := True\<rparr>)) = MOk (0, s')"
      using run False unfolding set_basedirs_def Let_def s1_def b_def by (simp cong: if_cong)
    have keep: "same_root (s\<lparr>relocatable := reloc\<rparr>) (s1\<lparr>orig_basedir := x\<rparr>)" for x
      using False by (simp add: same_root_def s1_def)
    consider x where "finish_basedirs (s1\<lparr>orig_basedir := x\<rparr>) = Inr (0, s')" | "s' = s1\<lparr>eval_valid := True\<rparr>"
      using r by (auto simp: mlift_MOk rbind_Inr split: if_splits)
    then show ?thesis
    proof cases
      case 1
      then show ?thesis using fin keep by blast
    next
      case 2
      then show ?thesis using root fresh d False by (simp add: placed_def s1_def root_is_def)
    qed
  qed
qed

lemma fixst0_root: "root_is [SLASH] fixst0"
  by (simp add: root_is_def fixst0_def clean_abs_def deref_def)

lemma set_inst_root_fresh:
  assumes "set_inst_root (Some q) fixst0 = Inr (1, s)"
  shows "base_sepr s = 1 \<and> \<not> offsets_valid s \<and> \<not> basedir_exists s"
  using assms by (auto simp: set_inst_root_def fixst0_def Let_def split: if_splits)

section \<open>Properties\<close>

text \<open>
  C27. Once the install root is set and \<open>set_basedirs\<close> has returned 0, with a root and a base directory in
  clean form, this is what \<open>eval_path\<close> stores for any paths, one after the other. An absolute path other
  than \<open>/\<close> gets the places its comment describes: it is the client's path and has the root in front of it
  on this machine. So does a relative path, the empty one included, in a relocatable package: it has the base
  directory in front of it for the client and the root before that on this machine. The path in the map
  is the path itself. There are two exceptions, which the comment does not have. For the path \<open>/\<close> under a root other
  than \<open>/\<close> the paths of the client and of the map are the empty string; and for a relative path in a
  package that is not relocatable nothing is stored.
\<close>

theorem eval_path_places:
  assumes "set_inst_root (Some q) fixst0 = Inr (1, s1)" "q \<noteq> []" "clean_abs (canonize (strlcpy q PATH_MAX))"
    "set_basedirs env mode inst ni ans reloc adm s1 = MOk (0, s2)" "orig_basedir s2 = Some d" "clean_abs d"
  shows "eval_paths ps s2 = Inr (map (place_of (canonize (strlcpy q PATH_MAX)) d reloc) ps)"
proof (rule eval_paths_placed)
  show "placed (canonize (strlcpy q PATH_MAX)) d reloc s2"
    using set_basedirs_placed[OF set_inst_root_is[OF assms(1-3)]] set_inst_root_fresh[OF assms(1)] assms(4-6) by blast
qed

theorem eval_path_places_witness:
  "\<exists>s1 s2. set_inst_root (Some ''/export/root'') fixst0 = Inr (1, s1) \<and>
     set_basedirs (\<lambda>_. None) 2 None True (0, []) True (Some ''/opt/SUNWx'') s1 = MOk (0, s2) \<and>
     eval_paths [''bin/x'', ''/etc/y'', ''/''] s2 =
       Inr [\<lparr>server_ptr = Some ''/export/root/opt/SUNWx/bin/x'', client_ptr = Some ''/opt/SUNWx/bin/x'', map_ptr = Some ''bin/x''\<rparr>,
            \<lparr>server_ptr = Some ''/export/root/etc/y'', client_ptr = Some ''/etc/y'', map_ptr = Some ''/etc/y''\<rparr>,
            \<lparr>server_ptr = Some ''/export/root'', client_ptr = Some [], map_ptr = Some []\<rparr>]"
proof -
  have r: "canonize (strlcpy ''/export/root'' PATH_MAX) = ''/export/root''" by code_simp
  define s1 where "s1 = fixst0\<lparr>install_root := Some ''/export/root'', install_root_exists := True, install_root_len := 12\<rparr>"
  have s1: "set_inst_root (Some ''/export/root'') fixst0 = Inr (1, s1)" unfolding s1_def by code_simp
  define s2 where "s2 = s1\<lparr>relocatable := True, orig_basedir := Some ''/opt/SUNWx'', basedir_exists := True, ir_accessed := True,
    basedir := Some ''/export/root/opt/SUNWx'', client_basedir := Some ''/opt/SUNWx'', client_basedir_exists := True, eval_valid := True\<rparr>"
  have s2: "set_basedirs (\<lambda>_. None) 2 None True (0, []) True (Some ''/opt/SUNWx'') s1 = MOk (0, s2)"
    unfolding s2_def s1_def by code_simp
  have "eval_paths [''bin/x'', ''/etc/y'', ''/''] s2 = Inr (map (place_of (canonize (strlcpy ''/export/root'' PATH_MAX)) ''/opt/SUNWx'' True) [''bin/x'', ''/etc/y'', ''/''])"
    by (rule eval_path_places[OF s1 _ _ s2]) (simp_all add: r s2_def clean_abs_def)
  moreover have "map (place_of ''/export/root'' ''/opt/SUNWx'' True) [''bin/x'', ''/etc/y'', ''/''] =
      [\<lparr>server_ptr = Some ''/export/root/opt/SUNWx/bin/x'', client_ptr = Some ''/opt/SUNWx/bin/x'', map_ptr = Some ''bin/x''\<rparr>,
       \<lparr>server_ptr = Some ''/export/root/etc/y'', client_ptr = Some ''/etc/y'', map_ptr = Some ''/etc/y''\<rparr>,
            \<lparr>server_ptr = Some ''/export/root'', client_ptr = Some [], map_ptr = Some []\<rparr>]"
    by (simp add: place_of_def place_def root_text_def Let_def deref_def)
  ultimately show ?thesis using s1 s2 r by auto
qed

text \<open>
  \<open>orig_path\<close> takes back what \<open>fixpath\<close> does: for an absolute path under a root in clean form, the
  original path of the fixed path is the canonical form of the path.
\<close>

theorem orig_path_fixpath:
  assumes "root_is r s" "deref p = SLASH" "fixpath (Some p) s = Inr (t, s1)"
  shows "orig_path t s1 = MOk (Some (canonize p))"
proof -
  have pn: "p \<noteq> []" using assms(2) by (auto simp: deref_def)
  have t: "t = Some (if p = [SLASH] then r else root_text r @ p)" and s1: "s1 = s \<or> s1 = s\<lparr>ir_accessed := True\<rparr>"
    using fixpath_root[OF assms(1) pn assms(2)] assms(3) by auto
  have root: "root_is r s1" using s1 assms(1) by (elim disjE) (simp_all add: root_is_def)
  have rn: "r \<noteq> []" "deref r = SLASH" using root clean_absD by (auto simp: root_is_def)
  show ?thesis
  proof (cases "install_root_exists s1")
    case False
    then have "r = [SLASH]" using root by (simp add: root_is_def)
    then show ?thesis using False pn by (simp add: t orig_path_def orig_path_ptr_def root_text_def)
  next
    case True
    then have i: "install_root s1 = Some r" "install_root_len s1 = length (root_text r)" using root by (simp_all add: root_is_def)
    have tk: "take (length (root_text r)) r = root_text r" by (simp add: root_text_def)
    show ?thesis
    proof (cases "p = [SLASH]")
      case p: True
      show ?thesis
        using True rn i by (cases "r = [SLASH]") (simp_all add: t p orig_path_def orig_path_ptr_def Let_def root_text_def)
    next
      case False
      show ?thesis
        using True i pn tk assms(2) False by (simp add: t orig_path_def orig_path_ptr_def Let_def)
    qed
  qed
qed

theorem orig_path_fixpath_witness:
  "orig_path (Some ''/a/usr/bin/'') (fixst0\<lparr>install_root := Some ''/a'', install_root_exists := True, install_root_len := 2, ir_accessed := True\<rparr>) =
     MOk (Some ''/usr/bin'')"
proof -
  define s where "s = fixst0\<lparr>install_root := Some ''/a'', install_root_exists := True, install_root_len := 2\<rparr>"
  have "root_is ''/a'' s" by (simp add: root_is_def s_def clean_abs_def root_text_def)
  moreover have "fixpath (Some ''/usr/bin/'') s = Inr (Some ''/a/usr/bin/'', s\<lparr>ir_accessed := True\<rparr>)"
    by (simp add: fixpath_def s_def get_inst_root_def)
  ultimately have "orig_path (Some ''/a/usr/bin/'') (s\<lparr>ir_accessed := True\<rparr>) = MOk (Some (canonize ''/usr/bin/''))"
    using orig_path_fixpath[of "''/a''" s "''/usr/bin/''"] by simp
  moreover have "canonize ''/usr/bin/'' = ''/usr/bin''" by code_simp
  ultimately show ?thesis by (simp add: s_def)
qed

text \<open>
  The test for the root compares characters, not components: a path outside the root whose name
  merely begins with the name of the root makes \<open>orig_path\<close> leave the program, where its comment
  promises the path as it is.
\<close>

theorem orig_path_prefix_quits:
  assumes "root_is r s" "install_root_exists s" "r \<noteq> ''/''" "c \<noteq> SLASH" "c \<noteq> NUL"
  shows "orig_path (Some (r @ c # p)) s = MQuit 99"
proof -
  have i: "install_root s = Some r" "install_root_len s = length r" "r \<noteq> []" "last r \<noteq> SLASH"
    using assms(1-3) clean_absD by (auto simp: root_is_def root_text_def clean_abs_def)
  have "(r @ c # p) ! (length r - 1) = last r" using i(3) by (simp add: nth_append last_conv_nth)
  then show ?thesis
    using assms(2,4) i by (simp add: orig_path_def orig_path_ptr_def Let_def)
qed

theorem orig_path_prefix_quits_witness:
  "orig_path (Some ''/export/root2/etc/x'')
     (fixst0\<lparr>install_root := Some ''/export/root'', install_root_exists := True, install_root_len := 12\<rparr>) = MQuit 99"
  using orig_path_prefix_quits[of "''/export/root''"
      "fixst0\<lparr>install_root := Some ''/export/root'', install_root_exists := True, install_root_len := 12\<rparr>" "CHR ''2''" "''/etc/x''"]
  by (simp add: root_is_def clean_abs_def root_text_def)

text \<open>
  Two places where \<open>eval_path\<close> does not do what it means to: a relative path in an absolute package is
  reported, but the return value is set to 1 afterwards and the pointers keep what they had; and for
  the path \<open>/\<close> under a root the client's path is the empty string, since the pointer and not the
  character is tested.
\<close>

theorem eval_path_relative_kept:
  assumes "placed r d False s" "deref p \<noteq> SLASH"
  shows "\<exists>s1. eval_path True p ps s = Inr (1, ps, s1)"
proof -
  obtain s1 where "set_offsets s = Inr s1" "placed r d False s1" using set_offsets_placed[OF assms(1)] by blast
  then show ?thesis using assms(2) by (auto simp: eval_path_def placed_def)
qed

theorem eval_path_root_client:
  assumes "placed r d reloc s" "install_root_exists s" "r \<noteq> ''/''"
  shows "\<exists>s1. eval_path True ''/'' ps s = Inr (1, \<lparr>server_ptr = Some r, client_ptr = Some [], map_ptr = Some []\<rparr>, s1)"
proof -
  obtain s1 where s1: "set_offsets s = Inr s1" "placed r d reloc s1" "offsets_valid s1"
    using set_offsets_placed[OF assms(1)] by blast
  have off: "client_offset s1 = length r" "eval_valid s1" and root: "root_is r s1"
    using s1(2,3) assms(3) by (auto simp: placed_def root_text_def)
  obtain s2 where f: "fixpath (Some ''/'') s1 = Inr (Some r, s2)" "s2 = s1 \<or> s2 = s1\<lparr>ir_accessed := True\<rparr>"
    using fixpath_root[OF root, of "''/''"] by auto
  have "client_offset s2 = length r" using f(2) off by auto
  then show ?thesis
    using f(1) off by (simp add: eval_path_def s1(1) eval_absolute_def fixpath_dup_def sub_ptr_def)
qed

end
