(* ===== verification/Pkgobjmap.thy ===== *)
theory Pkgobjmap
  imports Entsort Fixpath Mergeprops
begin

text \<open>
  The package objects of an installation, \<open>libinst/pkgobjmap.c\<close>: the package map is read into an array,
  each entry gets its paths on this machine and on the client, and the array is sorted by path with
  entries of one path merged. \<open>libinst/procmap.c\<close>, which does the same for the entries alone, and the use of
  both in \<open>sortmap\<close> of \<open>pkginstall/sortmap.c\<close>.

  The array of \<open>listmgr.c\<close> is the list of its records; memory is never exhausted. The table of file
  systems has the block size and the used blocks of each. A \<open>NULL\<close> server path of a record is empty;
  in the entry it is \<open>None\<close>.
\<close>

section \<open>State\<close>

type_synonym fstab = "(u32 \<times> u32) list"

record objst =
  o_ext :: "cfextra list"
  o_eptnum :: nat
  o_errflg :: nat
  o_nparts :: int
  o_preloaded :: bool
  o_fix :: fixst
  o_fs :: fstab

definition cfent0 :: cfent where
  "cfent0 = \<lparr>volno = 0, ftype = NUL, pkg_class = [], pkg_class_idx = 0, path = None,
     ainfo = \<lparr>local = None, mode = 0, owner = [], group = [], major = 0, minor = 0\<rparr>,
     cinfo = \<lparr>cksum = 0, fsize = 0, modtime = 0\<rparr>, npkgs = 0, pinfo = []\<rparr>"

definition cfextra0 :: cfextra where
  "cfextra0 = \<lparr>x_ent = cfent0, x_mstat = mergstat0, fsys_value = 0, fsys_base = 0, client_path = None,
     server_path = [], map_path = None, client_local = None, server_local = None\<rparr>"

definition BADFSYS :: u16 where "BADFSYS = - 1"

section \<open>Blocks\<close>

text \<open>
  The macros of Darwin's \<open>sys/param.h\<close>. \<open>fsblkcnt_t\<close> has 32 bits there; callers pass the \<open>long\<close> of their
  prototype, of which \<open>nblk\<close> takes the low half.
\<close>

definition howmany :: "u32 \<Rightarrow> u32 \<Rightarrow> u32" where
  "howmany x y = (if x mod y = 0 then x div y else x div y + 1)"

definition roundup :: "u32 \<Rightarrow> u32 \<Rightarrow> u32" where
  "roundup x y = (if x mod y = 0 then x else x + (y - x mod y))"

definition DIRECT :: u32 where "DIRECT = 12"
definition DEV_BSIZE :: u32 where "DEV_BSIZE = 512"
definition DADDR_SIZE :: u32 where "DADDR_SIZE = 4"

definition nblk :: "u64 \<Rightarrow> u32 \<Rightarrow> u32 \<Rightarrow> u32" where
  "nblk a_size bsize frsize =
     (let sz = ucast a_size :: u32 in
      if sz = 0 \<or> bsize = 0 then 1
      else
        let ind = howmany bsize DADDR_SIZE;
            d_indirect = ind + DIRECT;
            t_indirect = ind * (ind + 1) + DIRECT;
            tot = howmany sz bsize;
            (cnt, frags) =
              (if tot > t_indirect then
                 (let count1 = (tot - ind * ind - (DIRECT + 1)) div ind in (count1 + count1 div ind + ind + 3, 0))
               else if tot > d_indirect then ((tot - (DIRECT + 1)) div ind + 2, 0)
               else if tot > DIRECT then (1, 0)
               else (0, if frsize > 0 then roundup sz frsize else roundup sz bsize));
            total = tot + cnt in
        if frags = 0 then total * howmany bsize DEV_BSIZE else howmany frags DEV_BSIZE)"

text \<open>\<open>get_blk_size_n\<close> and \<open>get_frag_size_n\<close> both return the block size.\<close>

definition fs_entry :: "fstab \<Rightarrow> u16 \<Rightarrow> (u32 \<times> u32) res" where
  "fs_entry t n = (if 0 \<le> sint n \<and> nat (sint n) < length t then Inr (t ! nat (sint n)) else Inl BufOverrun)"

definition nblks :: "u32 \<Rightarrow> cfextra \<Rightarrow> u32" where
  "nblks bsize x =
     (if in_str ''dxs'' (ftype (x_ent x)) then nblk (ucast bsize) bsize bsize
      else if fsize (cinfo (x_ent x)) \<noteq> BADCONT then nblk (fsize (cinfo (x_ent x))) bsize bsize
      else 0)"

definition size_xchng :: "cfextra \<Rightarrow> cfextra \<Rightarrow> fstab \<Rightarrow> fstab res" where
  "size_xchng x1 x2 t =
     rbind (fs_entry t (fsys_base x1)) (\<lambda>(bsize, bused).
     if nblk (fsize (cinfo (x_ent x1))) bsize bsize \<noteq> nblk (fsize (cinfo (x_ent x2))) bsize bsize
       then Inr (t[nat (sint (fsys_base x1)) := (bsize, bused - nblks bsize x1 + nblks bsize x2)])
     else Inr t)"

section \<open>Entries with one path\<close>

text \<open>What the sort keeps besides the array.\<close>

record sortst =
  q_errs :: nat
  q_fs :: fstab
  q_fault :: "fault option"

definition ckdup :: "cfent \<Rightarrow> cfent \<Rightarrow> bool \<times> cfent" where
  "ckdup e1 e2 =
     (if \<not> in_str ''?dx'' (ftype e1) \<or> \<not> in_str ''?dx'' (ftype e2) then (False, e2)
      else
        let a1 = ainfo e1;
            am = (if mode (ainfo e2) = BADMODE then (ainfo e2)\<lparr>mode := mode a1\<rparr> else ainfo e2) in
        if mode a1 \<noteq> mode am \<and> mode a1 \<noteq> BADMODE then (False, e2\<lparr>ainfo := am\<rparr>)
        else
          let ao = (if owner am = ''?'' then am\<lparr>owner := strlcpy (owner a1) (ATRSIZ + 1)\<rparr> else am) in
          if owner a1 \<noteq> owner ao \<and> owner a1 \<noteq> ''?'' then (False, e2\<lparr>ainfo := ao\<rparr>)
          else
            let ag = (if group ao = ''?'' then ao\<lparr>group := strlcpy (group a1) (ATRSIZ + 1)\<rparr> else ao) in
            if group a1 \<noteq> group ag \<and> group a1 \<noteq> ''?'' then (False, e2\<lparr>ainfo := ag\<rparr>)
            else if pinfo e1 \<noteq> [] then (True, e2\<lparr>ainfo := ag, npkgs := npkgs e1, pinfo := pinfo e1\<rparr>)
            else (True, e2\<lparr>ainfo := ag\<rparr>))"

definition xchng :: "cfextra \<Rightarrow> cfextra \<Rightarrow> sortst \<Rightarrow> sortst" where
  "xchng x1 x2 q =
     (case size_xchng x1 x2 (q_fs q) of Inl e \<Rightarrow> q\<lparr>q_fault := Some e\<rparr> | Inr t \<Rightarrow> q\<lparr>q_fs := t\<rparr>)"

definition dup_merg :: "cfextra \<Rightarrow> cfextra \<Rightarrow> sortst \<Rightarrow> bool \<times> cfextra \<times> sortst" where
  "dup_merg x1 x2 q =
     (let e1 = x_ent x1; e2 = x_ent x2 in
      if in_str ''?dx'' (ftype e1) \<or> in_str ''?dx'' (ftype e2) then (False, x2, q)
      else if ms_preloaded (x_mstat x2) then
        (let x2' = x2\<lparr>x_ent := e1\<lparr>path := path e2, ainfo := (ainfo e1)\<lparr>local := local (ainfo e2)\<rparr>,
               npkgs := npkgs e2, pinfo := pinfo e2\<rparr>\<rparr> in
         (True, x2', xchng x2' x1 q))
      else if ms_preloaded (x_mstat x1) then
        (let x2' = x2\<lparr>x_ent := e2\<lparr>pinfo := pinfo e1\<rparr>\<rparr> in (True, x2', xchng x1 x2' q))
      else (False, x2, q))"

definition obj_dup :: "bool \<Rightarrow> (cfextra, sortst) merger" where
  "obj_dup preloaded x1 x2 q =
     (case ckdup (x_ent x1) (x_ent x2) of (same, e2) \<Rightarrow>
        let x2' = x2\<lparr>x_ent := e2\<rparr> in
        if same then (x2', q)
        else if preloaded then
          (case dup_merg x1 x2' q of (ok, x2'', q') \<Rightarrow>
             (x2'', if ok then q' else q'\<lparr>q_errs := Suc (q_errs q')\<rparr>))
        else (x2', q\<lparr>q_errs := Suc (q_errs q)\<rparr>))"

definition ent_key :: "cfent \<Rightarrow> string" where
  "ent_key e = (case path e of None \<Rightarrow> [] | Some p \<Rightarrow> p)"

definition obj_key :: "cfextra \<Rightarrow> string" where
  "obj_key x = ent_key (x_ent x)"

text \<open>
  From two entries on, each entry is compared with the one before it, so that a path that is \<open>NULL\<close> is
  read.
\<close>

definition null_path :: "cfent list \<Rightarrow> bool" where
  "null_path es \<longleftrightarrow> 2 \<le> length es \<and> (\<exists>e \<in> set es. path e = None)"

section \<open>The paths of an entry\<close>

text \<open>The path pointers of a record.\<close>

definition ptrs_of :: "cfextra \<Rightarrow> path_ptrs" where
  "ptrs_of x = \<lparr>server_ptr = (if server_path x = [] then None else Some (server_path x)), client_ptr = client_path x,
     map_ptr = map_path x\<rparr>"

text \<open>The source of a file in the package, for a file without one.\<close>

definition assign_source :: "int \<Rightarrow> cfextra \<Rightarrow> cfextra res" where
  "assign_source mapflag x =
     (let e = x_ent x in
      if mapflag > 1 \<and> in_str ''fve'' (ftype e) \<and> local (ainfo e) = None then
        (case path e of
           None \<Rightarrow> Inl NullDeref
         | Some p \<Rightarrow>
             let t = Some (CHR ''~'' # strlcpy p PATH_MAX) in
             Inr (x\<lparr>x_ent := e\<lparr>ainfo := (ainfo e)\<lparr>local := t\<rparr>\<rparr>, server_local := t, client_local := t\<rparr>))
      else Inr x)"

text \<open>The entry, and whether its path is already in storage of its own.\<close>

definition assign_path :: "environ \<Rightarrow> int \<Rightarrow> int \<Rightarrow> cfextra \<Rightarrow> fixst \<Rightarrow> (bool \<times> cfextra \<times> fixst) res" where
  "assign_path env mapmd mapflag x s =
     (let e = x_ent x in
      if mapflag \<noteq> 0 \<and> ftype e \<noteq> CHR ''i'' then
        (case path e of
           None \<Rightarrow> Inl NullDeref
         | Some p \<Rightarrow>
             rbind (mappath env mapmd PATH_MAX p) (\<lambda>(_, q).
             rbind (eval_path True (canonize q) (ptrs_of x) s) (\<lambda>(_, ps, s1).
             Inr (True, x\<lparr>x_ent := e\<lparr>path := server_ptr ps\<rparr>,
               server_path := (case server_ptr ps of None \<Rightarrow> [] | Some t \<Rightarrow> t),
               client_path := client_ptr ps, map_path := map_ptr ps\<rparr>, s1))))
      else Inr (False, x, s))"

definition assign_link :: "environ \<Rightarrow> int \<Rightarrow> int \<Rightarrow> cfextra \<Rightarrow> fixst \<Rightarrow> (bool \<times> cfextra \<times> fixst) res" where
  "assign_link env mapmd mapflag x s =
     (let e = x_ent x in
      if in_str ''sl'' (ftype e) \<and> mapflag \<noteq> 0 then
        (case local (ainfo e) of
           None \<Rightarrow> Inl NullDeref
         | Some l \<Rightarrow>
             rbind (mappath env mapmd PATH_MAX l) (\<lambda>(_, q).
             if deref q \<noteq> SLASH then Inr (False, x\<lparr>x_ent := e\<lparr>ainfo := (ainfo e)\<lparr>local := Some q\<rparr>\<rparr>\<rparr>, s)
             else if ftype e = CHR ''l'' then
               rbind (eval_path False (canonize q) \<lparr>server_ptr = server_local x, client_ptr = client_local x, map_ptr = None\<rparr> s)
                 (\<lambda>(_, ps, s1).
               Inr (True, x\<lparr>x_ent := e\<lparr>ainfo := (ainfo e)\<lparr>local := server_ptr ps\<rparr>\<rparr>,
                 server_local := server_ptr ps, client_local := client_ptr ps\<rparr>, s1))
             else Inr (False, x\<lparr>x_ent := e\<lparr>ainfo := (ainfo e)\<lparr>local := Some (canonize q)\<rparr>\<rparr>\<rparr>, s)))
      else Inr (False, x, s))"

text \<open>The source, the paths and the link of an entry; what has no storage of its own is shared.\<close>

definition assign_all :: "environ \<Rightarrow> int \<Rightarrow> int \<Rightarrow> cfextra \<Rightarrow> fixst \<Rightarrow> (cfextra \<times> fixst) res" where
  "assign_all env mapmd mapflag x1 s =
     rbind (assign_source mapflag x1) (\<lambda>x2.
     let local_duped = (local (ainfo (x_ent x1)) = None \<and> local (ainfo (x_ent x2)) \<noteq> None) in
     rbind (assign_path env mapmd mapflag x2 s) (\<lambda>(path_duped, x3, s1).
     rbind (assign_link env mapmd mapflag x3 s1) (\<lambda>(link_duped, x4, s2).
     rbind (if path_duped then Inr x4
            else (case path (x_ent x4) of
               None \<Rightarrow> Inl NullDeref
             | Some p \<Rightarrow> Inr (x4\<lparr>server_path := p, client_path := Some p\<rparr>))) (\<lambda>x5.
     let l = local (ainfo (x_ent x5)) in
     Inr (if l \<noteq> None \<and> \<not> local_duped \<and> \<not> link_duped then x5\<lparr>server_local := l, client_local := l\<rparr> else x5, s2)))))"

text \<open>Whether the entry is refused, the record, the number of parts and the state.\<close>

definition pkgobjassign ::
  "environ \<Rightarrow> mapset \<Rightarrow> clstate \<Rightarrow> int \<Rightarrow> cfextra \<Rightarrow> int \<Rightarrow> fixst \<Rightarrow> (bool \<times> cfextra \<times> int \<times> fixst) res" where
  "pkgobjassign env g cl mapflag x nparts s =
     (let e = x_ent x;
          idx = cl_idx cl (pkg_class e);
          checked = (cl_getn cl \<ge> 0 \<and> ftype e \<noteq> CHR ''i'');
          x1 = (if checked then x\<lparr>x_ent := e\<lparr>pkg_class_idx := idx\<rparr>\<rparr> else x) in
      if checked \<and> idx = - 1 then Inr (True, x1, nparts, s)
      else
        rbind (assign_all env (mapmode g) mapflag x1 s) (\<lambda>(x', s').
        Inr (False, x', if sint (volno e) > nparts then nparts + 1 else nparts, s')))"

section \<open>Reading the map\<close>

definition pkgobjinit :: "objst \<Rightarrow> objst" where
  "pkgobjinit s = (if o_preloaded s then s else s\<lparr>o_errflg := 0, o_nparts := 0, o_eptnum := 0, o_ext := []\<rparr>)"

text \<open>Whether the end of the map was reached, and the state. \<open>fuel\<close> bounds the number of lines.\<close>

fun obj_read :: "nat \<Rightarrow> environ \<Rightarrow> mapset \<Rightarrow> clstate \<Rightarrow> int \<Rightarrow> string \<Rightarrow> objst \<Rightarrow> ((bool \<times> objst) res) option" where
  "obj_read 0 env g cl mapflag inp s = None"
| "obj_read (Suc fuel) env g cl mapflag inp s =
     (case gpkgmapvfp env g cfent0 (Some inp) of
        Inl f \<Rightarrow> Some (Inl f)
      | Inr (n, err, e, rest) \<Rightarrow>
          if n = 0 then Some (Inr (True, s))
          else if n < 0 then Some (Inr (False, s))
          else (case pkgobjassign env g cl mapflag (cfextra0\<lparr>x_ent := e\<rparr>) (o_nparts s) (o_fix s) of
            Inl f \<Rightarrow> Some (Inl f)
          | Inr (refused, x, nparts, fx) \<Rightarrow>
              let s1 = s\<lparr>o_nparts := nparts, o_fix := fx\<rparr> in
              if refused then
                obj_read fuel env g cl mapflag rest (s1\<lparr>o_ext := list_delete (o_eptnum s) (o_ext s @ [x])\<rparr>)
              else
                obj_read fuel env g cl mapflag rest (s1\<lparr>o_eptnum := Suc (o_eptnum s),
                  o_ext := o_ext s @ [x\<lparr>fsys_value := BADFSYS, fsys_base := BADFSYS\<rparr>]\<rparr>)))"

text \<open>The sort and what is returned.\<close>

definition obj_sort :: "objst \<Rightarrow> ((cfextra list option \<times> objst) res) option" where
  "obj_sort s =
     (if null_path (map x_ent (o_ext s)) then Some (Inl NullDeref)
      else (case sort_all obj_key (obj_dup (o_preloaded s)) (o_ext s) \<lparr>q_errs = o_errflg s, q_fs = o_fs s, q_fault = None\<rparr> of
        None \<Rightarrow> None
      | Some (ys, q) \<Rightarrow>
          (case q_fault q of
             Some f \<Rightarrow> Some (Inl f)
           | None \<Rightarrow> Some (Inr (if q_errs q \<noteq> 0 then None else Some ys,
               s\<lparr>o_ext := ys, o_eptnum := length ys, o_errflg := q_errs q, o_fs := q_fs q\<rparr>)))))"

definition pkgobjmap ::
  "nat \<Rightarrow> environ \<Rightarrow> mapset \<Rightarrow> clstate \<Rightarrow> int \<Rightarrow> string \<Rightarrow> objst \<Rightarrow> ((cfextra list option \<times> objst) res) option" where
  "pkgobjmap fuel env g cl mapflag inp s =
     (case obj_read fuel env g cl mapflag inp (pkgobjinit s) of
        None \<Rightarrow> None
      | Some (Inl f) \<Rightarrow> Some (Inl f)
      | Some (Inr (ended, s1)) \<Rightarrow>
          if \<not> ended \<or> o_eptnum s1 = 0 then Some (Inr (None, s1)) else obj_sort s1)"

text \<open>
  The database entry gets the data of a new one; its path and packages stay. \<open>local\<close> is for links only.
\<close>

definition repl_cfent :: "cfent \<Rightarrow> cfent \<Rightarrow> cfent" where
  "repl_cfent new old =
     new\<lparr>ainfo := (if in_str ''sl'' (ftype new) then ainfo new else (ainfo new)\<lparr>local := None\<rparr>),
       path := path old, npkgs := npkgs old, pinfo := pinfo old, volno := 0\<rparr>"

section \<open>The prototype map\<close>

text \<open>
  \<open>procmap\<close> keeps entries only; the pointers that \<open>eval_path\<close> sets are static variables, here the record
  \<open>st\<close>. \<open>source\<close> is written with \<open>strcpy\<close>.
\<close>

record procst =
  c_list :: "cfent list"
  c_alloc :: bool
  c_nparts :: int
  c_ptrs :: cfextra
  c_fix :: fixst

definition procassign ::
  "environ \<Rightarrow> mapset \<Rightarrow> clstate \<Rightarrow> int \<Rightarrow> cfextra \<Rightarrow> int \<Rightarrow> fixst \<Rightarrow> (bool \<times> cfextra \<times> int \<times> fixst) res" where
  "procassign env g cl mapflag x nparts s =
     rbind (pkgobjassign env g cl mapflag x nparts s) (\<lambda>(refused, x', n, s').
     if \<not> refused \<and> mapflag > 1 \<and> in_str ''fve'' (ftype (x_ent x)) \<and> local (ainfo (x_ent x)) = None \<and>
        PATH_MAX \<le> length (ent_key (x_ent x)) then Inl BufOverrun
     else Inr (refused, x', n, s'))"

fun proc_read :: "nat \<Rightarrow> environ \<Rightarrow> mapset \<Rightarrow> clstate \<Rightarrow> int \<Rightarrow> string \<Rightarrow> procst \<Rightarrow> ((bool \<times> procst) res) option" where
  "proc_read 0 env g cl mapflag inp s = None"
| "proc_read (Suc fuel) env g cl mapflag inp s =
     (case gpkgmapvfp env g cfent0 (Some inp) of
        Inl f \<Rightarrow> Some (Inl f)
      | Inr (n, err, e, rest) \<Rightarrow>
          if n = 0 then Some (Inr (True, s))
          else if n < 0 then Some (Inr (False, s))
          else (case procassign env g cl mapflag ((c_ptrs s)\<lparr>x_ent := e\<rparr>) (c_nparts s) (c_fix s) of
            Inl f \<Rightarrow> Some (Inl f)
          | Inr (refused, x, nparts, fx) \<Rightarrow>
              proc_read fuel env g cl mapflag rest
                (s\<lparr>c_alloc := True, c_nparts := nparts, c_ptrs := x, c_fix := fx,
                   c_list := (if refused then list_delete (length (c_list s)) (c_list s @ [x_ent x]) else c_list s @ [x_ent x])\<rparr>)))"

definition proc_dup :: "(cfent, nat) merger" where
  "proc_dup e1 e2 n = (case ckdup e1 e2 of (same, e) \<Rightarrow> (e, if same then n else Suc n))"

definition procmap :: "nat \<Rightarrow> environ \<Rightarrow> mapset \<Rightarrow> clstate \<Rightarrow> int \<Rightarrow> string \<Rightarrow> cfextra \<Rightarrow> fixst \<Rightarrow> ((cfent list option) res) option" where
  "procmap fuel env g cl mapflag inp ptrs fx =
     (case proc_read fuel env g cl mapflag inp \<lparr>c_list = [], c_alloc = False, c_nparts = 0, c_ptrs = ptrs, c_fix = fx\<rparr> of
        None \<Rightarrow> None
      | Some (Inl f) \<Rightarrow> Some (Inl f)
      | Some (Inr (ended, s1)) \<Rightarrow>
          if \<not> ended \<or> \<not> c_alloc s1 then Some (Inr None)
          else if null_path (c_list s1) then Some (Inl NullDeref)
          else (case sort_all ent_key proc_dup (c_list s1) 0 of
            None \<Rightarrow> None
          | Some (ys, n) \<Rightarrow> Some (Inr (if n \<noteq> 0 then None else Some ys))))"

section \<open>The map and the database\<close>

definition client_refer :: "cfextra list \<Rightarrow> cfextra list" where
  "client_refer = map (\<lambda>x. x\<lparr>x_ent := (x_ent x)\<lparr>path := client_path x, ainfo := (ainfo (x_ent x))\<lparr>local := client_local x\<rparr>\<rparr>\<rparr>)"

definition server_refer :: "cfextra list \<Rightarrow> cfextra list" where
  "server_refer = map (\<lambda>x. x\<lparr>x_ent := (x_ent x)\<lparr>path := Some (server_path x), ainfo := (ainfo (x_ent x))\<lparr>local := server_local x\<rparr>\<rparr>\<rparr>)"

definition max_part :: "cfextra list \<Rightarrow> int" where
  "max_part xs = fold (\<lambda>x n. if sint (volno (x_ent x)) > n then sint (volno (x_ent x)) else n) xs 0"

text \<open>\<open>BASEDIR\<close> in the environment is that of the client while the map of a relocatable package is read.\<close>

definition client_env :: "environ \<Rightarrow> fixst \<Rightarrow> environ" where
  "client_env env fx = (if is_relocatable fx \<and> is_an_inst_root fx then env(''BASEDIR'' := get_info_basedir fx) else env)"

text \<open>
  \<open>sortmap\<close>: the number of parts, the number of changes, the objects and the state of the merge. With
  \<open>depend_only\<close> the merge is left out.
\<close>

definition sortmap ::
  "nat \<Rightarrow> nat \<Rightarrow> nat \<Rightarrow> string \<Rightarrow> 'fs menv \<Rightarrow> environ \<Rightarrow> mapset \<Rightarrow> bool \<Rightarrow> vfp \<Rightarrow> vfp \<Rightarrow> string \<Rightarrow> clstate \<Rightarrow> cfent \<Rightarrow> 'fs \<Rightarrow>
    objst \<Rightarrow> (int \<times> cfextra list \<times> (int \<times> 'fs mst) option) mrg option" where
  "sortmap ofuel n fuel junk menv env g depend_only mapvfp tmpvfp inp cl cf fs s =
     (case pkgobjmap ofuel (client_env env (o_fix s)) g cl 2 inp s of
        None \<Rightarrow> None
      | Some (Inl f) \<Rightarrow> Some (MFault f)
      | Some (Inr (None, s1)) \<Rightarrow> Some (MQuit 99)
      | Some (Inr (Some ext, s1)) \<Rightarrow>
          let root = is_an_inst_root (o_fix s1);
              ext1 = (if root then client_refer ext else ext);
              back = (if root then server_refer else id) in
          if depend_only then Some (MOk (0, back ext1, None))
          else (case pkgdbmerg n fuel junk menv mapvfp (vfpTruncate tmpvfp) ext1 cl cf fs of
            None \<Rightarrow> None
          | Some (MFault f) \<Rightarrow> Some (MFault f)
          | Some (MQuit k) \<Rightarrow> Some (MQuit k)
          | Some (MOk (m, gs)) \<Rightarrow>
              if m < 0 then Some (MQuit 99) else Some (MOk (max_part ext1, back (g_ext gs), Some (m, gs)))))"

end
