(* ===== verification/Mapends.thy ===== *)
theory Mapends
  imports Maplines
begin

text \<open>
  Every call of \<open>gpkgmapvfp\<close> that returns an entry moves the cursor: a loop that reads a map ends
  after at most one call for each of its characters.
\<close>

section \<open>Readers do not go back\<close>

lemma step_back_le: "p \<noteq> [] \<Longrightarrow> length (step_back p) \<le> length p"
  by (cases p) (simp_all add: step_back_def)

lemma dropWhile_Cons_le: "dropWhile P p = c # r \<Longrightarrow> Suc (length r) \<le> length p"
  using dropWhile_Cons_shorter [of P p c r] by simp

lemma getnumvfp_le:
  assumes "rd_num vfp_reader p = (n, v, r)"
  shows "length r \<le> length p"
proof -
  have g: "getnumvfp 10 BADCONT p = (n, v, r)" using assms by (simp add: vfp_reader_def)
  show ?thesis
  proof (cases "p = [] \<or> dropWhile isspace p = []")
    case True
    then show ?thesis using g step_back_le [of p] by (auto simp: getnumvfp_def simp del: dropWhile_eq_Nil_conv split: if_splits)
  next
    case False
    then obtain c s where c: "dropWhile isspace p = c # s" "p \<noteq> []" by (cases "dropWhile isspace p") auto
    have "length (dropWhile isdigit (c # s)) \<le> length p"
      using length_dropWhile_le [of isdigit "c # s"] dropWhile_Cons_le [OF c(1)] by simp
    then show ?thesis
      using g c(2) dropWhile_Cons_le [OF c(1)] unfolding getnumvfp_def c(1) list.case by (auto split: if_splits)
  qed
qed

lemma getstrvfp_le:
  assumes "rd_str vfp_reader sep n cap p = Inr (ret, str, r)"
  shows "length r \<le> length p"
proof -
  have g: "getstrvfp sep n cap p = Inr (ret, str, r)" using assms by (simp add: vfp_reader_def)
  show ?thesis
  proof (cases "p = [] \<or> dropWhile isspace p = []")
    case True
    then show ?thesis using g step_back_le [of p] by (auto simp: getstrvfp_def simp del: dropWhile_eq_Nil_conv split: if_splits)
  next
    case False
    then obtain c s where c: "dropWhile isspace p = c # s" "p \<noteq> []" by (cases "dropWhile isspace p") auto
    have "length (drop k (c # s)) \<le> length p" for k using dropWhile_Cons_le [OF c(1)] by simp
    then show ?thesis
      using g c(2) unfolding getstrvfp_def c(1) list.case Let_def by (simp only: if_False) (metis (no_types, lifting) sum.distinct(1) Inr_inject prod.inject)
  qed
qed

lemma getvalmodevfp_le:
  assumes "rd_mode vfp_reader env g bad domap p = Inr (ret, v, err, r)"
  shows "length r \<le> length p"
proof -
  have "getvalmodevfp env g bad domap p = Inr (ret, v, err, r)" using assms by (simp add: vfp_reader_def)
  then obtain n s where "rd_str vfp_reader None (ATRSIZ + 1) (ATRSIZ + 1) p = Inr (n, s, r)"
    by (auto simp: getvalmodevfp_def read_mode_def vfp_reader_def rbind_Inr split: if_splits)
  then show ?thesis by (rule getstrvfp_le)
qed

lemma getendvfp_le:
  assumes "rd_end vfp_reader p = (n, r)"
  shows "length r \<le> length p"
  using assms length_dropWhile_le [of "\<lambda>c. c \<noteq> NL" p]
  by (auto simp: vfp_reader_def getendvfp_def Let_def split: if_splits)

lemma findendvfp_le: "length (rd_skip vfp_reader p) \<le> length p"
  using findend_shorter [of p] by (simp add: vfp_reader_def)

lemmas reader_le = getnumvfp_le getstrvfp_le getvalmodevfp_le getendvfp_le

section \<open>The parser does not go back\<close>

fun flow_rest :: "flow \<Rightarrow> string" where
  "flow_rest (Go e s) = s"
| "flow_rest (ToEnd e s) = s"
| "flow_rest (ToError err e s) = s"
| "flow_rest (Ret n err e s) = s"

definition within :: "nat \<Rightarrow> flow res \<Rightarrow> bool" where
  "within k r \<longleftrightarrow> (\<forall>x. r = Inr x \<longrightarrow> length (flow_rest x) \<le> k)"

lemma within_simps [simp]:
  "within k (Inl f)" "within k (Inr x) = (length (flow_rest x) \<le> k)"
  by (auto simp: within_def)

lemma within_rbind: "(\<And>x. r = Inr x \<Longrightarrow> within k (f x)) \<Longrightarrow> within k (rbind r f)"
  by (cases r) auto

lemma within_fbind:
  assumes "within k r" "\<And>e s. length s \<le> k \<Longrightarrow> within k (f e s)"
  shows "within k (fbind r f)"
proof (cases r)
  case (Inr x)
  then show ?thesis using assms by (cases x) (simp_all add: fbind_def)
qed (simp add: fbind_def)

lemma within_content: "length s \<le> k \<Longrightarrow> length (flow_rest (gp_content vfp_reader e s)) \<le> k"
  by (auto simp: gp_content_def Let_def split: prod.splits dest!: getnumvfp_le)

lemma within_devs: "length s \<le> k \<Longrightarrow> length (flow_rest (gp_devs vfp_reader e s)) \<le> k"
  by (auto simp: gp_devs_def Let_def split: prod.splits dest!: getnumvfp_le)

lemma within_mapvars: "length s \<le> k \<Longrightarrow> within k (gp_mapvars env g e s)"
  by (auto simp: gp_mapvars_def Let_def split: prod.splits intro!: within_rbind)

lemma within_attrs: "length s \<le> k \<Longrightarrow> within k (gp_attrs vfp_reader env g e s)"
  by (auto simp: gp_attrs_def Let_def split: prod.splits intro!: within_rbind within_mapvars dest!: reader_le)

lemma skip_within: "length p \<le> k \<Longrightarrow> length (rd_skip vfp_reader p) \<le> k"
  using findendvfp_le [of p] by simp

lemma within_long: "length s \<le> k \<Longrightarrow> within k (gp_long vfp_reader c e s)"
  by (auto simp: gp_long_def Let_def split: prod.splits intro!: within_rbind skip_within dest!: getstrvfp_le; linarith)

lemma within_short_tail:
  assumes "length r \<le> k"
  shows "within k (fbind
            (if deref r = CHR ''='' then
               rbind (rd_str vfp_reader None PATH_MAX PATH_MAX (tl r)) (\<lambda>(ret2, str2, r2).
                 if ret2 \<noteq> 0 then Inr (ToError ERR_CANT_READ_LCLPATH e1 r2)
                 else Inr (Go (set_local (the str2) e1) r2))
             else Inr (Go e1 r))
            (\<lambda>e2 r2. fbind (if ftype e2 = CHR ''i'' then Inr (gp_content vfp_reader e2 r2) else Inr (Go e2 r2))
              (\<lambda>e3 r3. let (n, r4) = rd_end vfp_reader r3 in
                 Inr (if n then Ret (- 1) (Some ERR_EXTRA_TOKENS_PRESENT) e3 r4 else Ret 1 None e3 r4))))"
  using assms
  by (intro within_fbind; (auto simp: Let_def within_content split: prod.splits intro!: within_rbind dest!: reader_le)?)

lemma within_short:
  assumes "length s \<le> k"
  shows "within k (gp_short vfp_reader e s)"
  unfolding gp_short_def
proof (rule within_rbind, clarify)
  fix ret str r
  assume "rd_str vfp_reader (Some ''='') PATH_MAX PATH_MAX s = Inr (ret, str, r)"
  then have "length r \<le> k" using getstrvfp_le assms by fastforce
  then show "within k (if ret \<noteq> 0 then Inr (ToError ERR_CANNOT_READ_PATHNAME_FIELD e r)
       else
         (let e1 = e\<lparr>path := str\<rparr> in
          fbind
            (if deref r = CHR ''='' then
               rbind (rd_str vfp_reader None PATH_MAX PATH_MAX (tl r)) (\<lambda>(ret2, str2, r2).
                 if ret2 \<noteq> 0 then Inr (ToError ERR_CANT_READ_LCLPATH e1 r2)
                 else Inr (Go (set_local (the str2) e1) r2))
             else Inr (Go e1 r))
            (\<lambda>e2 r2. fbind (if ftype e2 = CHR ''i'' then Inr (gp_content vfp_reader e2 r2) else Inr (Go e2 r2))
              (\<lambda>e3 r3. let (n, r4) = rd_end vfp_reader r3 in
                 Inr (if n then Ret (- 1) (Some ERR_EXTRA_TOKENS_PRESENT) e3 r4 else Ret 1 None e3 r4)))))"
    using within_short_tail [of r k "e\<lparr>path := str\<rparr>"] by (simp add: Let_def)
qed

lemma gp_finish_le:
  assumes "gp_finish vfp_reader x = (n, err, e, r)"
  shows "length r \<le> length (flow_rest x)"
  using assms findendvfp_le
  by (cases x) (auto simp: gp_finish_def Let_def split: prod.splits if_splits dest!: getendvfp_le)

section \<open>An entry is behind the cursor\<close>

lemma readlinevfp_at:
  "gp_readlinevfp vol p = AtEntry c v r \<Longrightarrow> Suc (length r) \<le> length p \<and> r \<noteq> [] \<and> \<not> isspace c"
proof (induction vol p rule: gp_readlinevfp.induct)
  case (1 vol p)
  show ?case
  proof (cases "dropWhile isspace p")
    case Nil
    then show ?thesis using "1.prems" unfolding gp_readlinevfp.simps [of vol p] Nil by simp
  next
    case (Cons d t)
    have len: "Suc (length t) \<le> length p" and ns: "\<not> isspace d"
      using dropWhile_Cons_le [OF Cons] hd_dropWhile [of isspace p] Cons by auto
    have eq: "(if t = [] then AtEof vol t
          else if isdigit d then
            if vol \<noteq> 0 then AtErr ERR_BAD_VOLUME_NUMBER vol t
            else gp_readlinevfp (vol_number vol (d # takeWhile isdigit t)) (drop 1 (dropWhile isdigit t))
          else if d = CHR '':'' \<or> d = CHR ''#'' then gp_readlinevfp vol (findendvfp t)
          else AtEntry d vol t) = AtEntry c v r"
      using "1.prems" unfolding gp_readlinevfp.simps [of vol p] Cons by simp
    show ?thesis
      using eq len ns "1.IH" [OF Cons] after_digits_shorter [of t] findend_shorter [of t]
      by (auto split: if_splits)
  qed
qed

lemma gp_short_strict:
  assumes run: "gp_short vfp_reader e (c # r) = Inr x" and c: "c = CHR ''.'' \<or> c = CHR ''/''"
    and fin: "gp_finish vfp_reader x = (n, err, e', rest)" "0 < n"
  shows "length rest \<le> length r"
proof -
  obtain ret str s where rd: "rd_str vfp_reader (Some ''='') PATH_MAX PATH_MAX (c # r) = Inr (ret, str, s)"
    using run by (auto simp: gp_short_def rbind_Inr)
  have "ret = 0"
  proof (rule ccontr)
    assume "ret \<noteq> 0"
    then have "x = ToError ERR_CANNOT_READ_PATHNAME_FIELD e s" using run rd by (simp add: gp_short_def)
    then show False using fin by (auto simp: gp_finish_def)
  qed
  have "\<not> isspace c" "c \<notin> set (strlcpy ([SP, TAB, NL] @ ''='') 256)"
    using c by (auto simp: isspace_def strlcpy_def)
  then have "length s \<le> length r"
    using rd \<open>ret = 0\<close> by (auto simp: vfp_reader_def getstrvfp_def Let_def split: if_splits)
  then have "within (length r) (gp_short vfp_reader e (c # r))"
    unfolding gp_short_def rd rbind_simps using \<open>ret = 0\<close> within_short_tail [of s "length r"] by (simp add: Let_def)
  then show ?thesis using run gp_finish_le [OF fin(1)] by simp
qed

lemma gpkgmapvfp_moves:
  assumes "gpkgmapvfp env g ept (Some p) = Inr (n, err, e, rest)" "0 < n"
  shows "length rest < length p"
proof -
  obtain e0 where run: "gp_run vfp_reader gp_firstvfp env g e0 (gp_readlinevfp 0 p) = Inr (n, err, e, rest)"
    using assms(1) by (auto simp: gpkgmapvfp_def Let_def)
  obtain c vol r x where st: "gp_readlinevfp 0 p = AtEntry c vol r"
    and x: "gp_entry vfp_reader gp_firstvfp env g c (e0\<lparr>volno := vol\<rparr>) r = Inr x" "gp_finish vfp_reader x = (n, err, e, rest)"
    using run assms(2) by (cases "gp_readlinevfp 0 p") (auto simp: gp_run_def rbind_Inr gp_finish_def)
  have r: "Suc (length r) \<le> length p" "r \<noteq> []" using readlinevfp_at [OF st] by simp_all
  note fin = gp_finish_le [OF x(2)]
  consider "c = CHR ''.'' \<or> c = CHR ''/''" | "c = CHR ''i''" | "c \<notin> set ''i./''" by auto
  then have "length rest \<le> length r"
  proof cases
    case 1
    then have "gp_short vfp_reader (e0\<lparr>volno := vol\<rparr>) (c # r) = Inr x" using x(1) by (auto simp: gp_entry_def gp_firstvfp_def)
    then show ?thesis using gp_short_strict [OF _ 1 x(2) assms(2)] by blast
  next
    case 2
    have "length (gp_firstvfp c r) \<le> length r"
      using 2 r(2) length_dropWhile_le [of isspace r] by (auto simp: gp_firstvfp_def step_back_def Suc_le_eq split: list.split)
    moreover have "gp_short vfp_reader (e0\<lparr>volno := vol, ftype := c\<rparr>) (gp_firstvfp c r) = Inr x"
      using x(1) 2 by (auto simp: gp_entry_def)
    ultimately show ?thesis using within_short [of "gp_firstvfp c r" "length r"] fin by (force simp: within_def)
  next
    case 3
    have "within (length r) (fbind (gp_long vfp_reader c (e0\<lparr>volno := vol\<rparr>) r) (\<lambda>e1 r1.
        fbind (if ftype e1 \<in> set ''sl'' \<and> local (ainfo e1) = None then Inr (ToError ERR_NO_LINKSOURCE e1 r1)
               else Inr (Go e1 r1)) (\<lambda>e2 r2.
        fbind (Inr (gp_devs vfp_reader e2 r2)) (\<lambda>e3 r3.
        fbind (gp_attrs vfp_reader env g e3 r3) (\<lambda>e4 r4.
          if ftype e4 \<in> set ''ifve'' then Inr (gp_content vfp_reader e4 r4) else Inr (Go e4 r4))))))"
      by (intro within_fbind within_long within_attrs) (simp_all add: within_devs within_content)
    then have "within (length r) (gp_entry vfp_reader gp_firstvfp env g c (e0\<lparr>volno := vol\<rparr>) r)"
      unfolding gp_entry_def using 3 by simp
    then show ?thesis using x(1) fin by simp
  qed
  then show ?thesis using r(1) by simp
qed

end
