(* ===== verification/Objprops.thy ===== *)
theory Objprops
  imports Pkgobjmap Mapends Listprops "HOL-Library.Sublist"
begin

text \<open>
  Properties of the package objects: the sort is that of \<open>Entsort\<close> for the records of both files, the
  paths of the objects lie under the install root, and so the list that \<open>pkgobjmap\<close> returns is what the merge
  into the database asks for.
\<close>

text \<open>What the sort does to its list is what the operations of the list manager do to the list of an array.\<close>

lemma sort_uses_list_ops:
  "list_delete i xs = list_op z (Delete i) xs"
  "i \<le> j \<Longrightarrow> list_move j i xs = list_op z (Move j i) xs"
  by (simp_all add: list_delete_def list_move_def)

lemma ckdup_keeps: "path (snd (ckdup e1 e2)) = path e2 \<and> ftype (snd (ckdup e1 e2)) = ftype e2"
  by (simp add: ckdup_def Let_def)

lemma dup_merg_keeps: "path (x_ent (fst (snd (dup_merg x1 x2 q)))) = path (x_ent x2)"
  by (simp add: dup_merg_def Let_def)

interpretation obj: entry_order obj_key "obj_dup pre" for pre
proof
  fix x y :: cfextra and s
  show "obj_key (fst (obj_dup pre x y s)) = obj_key y"
    using ckdup_keeps[of "x_ent x" "x_ent y"] dup_merg_keeps[of x "y\<lparr>x_ent := snd (ckdup (x_ent x) (x_ent y))\<rparr>" s]
    by (auto simp: obj_dup_def obj_key_def ent_key_def Let_def split: prod.split)
qed

interpretation proc: entry_order ent_key proc_dup
proof
  fix x y :: cfent and s
  show "ent_key (fst (proc_dup x y s)) = ent_key y"
    using ckdup_keeps[of x y] by (auto simp: proc_dup_def ent_key_def split: prod.split)
qed

section \<open>Objects under the install root\<close>











text \<open>
  C17. The sort of the package objects ends, and it is insertion into a sorted list: the binary search with
  its remembered place, the moves and the deletions give, for every array, the objects that plain
  insertion in the order of the array gives, with later objects of a path merged into earlier ones and
  the same number of errors. The paths of the result are those of the array, each once, in
  order; an object whose path occurs once is in it unchanged.
\<close>

theorem obj_sort_is_insertion:
  "\<exists>ys q. sort_all obj_key (obj_dup pre) xs q0 = Some (ys, q) \<and> sort_ref obj_key (obj_dup pre) xs q0 = (ys, q) \<and>
     map obj_key ys = sorted_list_of_set (obj_key ` set xs) \<and>
     (\<forall>x. filter (\<lambda>y. obj_key y = obj_key x) xs = [x] \<longrightarrow> x \<in> set ys)"
  using obj.sort_all_ref[of pre xs q0] obj.sort_ref_paths[of pre xs q0] obj.sort_ref_single[of _ xs pre q0]
  by (cases "sort_ref obj_key (obj_dup pre) xs q0") auto

section \<open>The loops over a map end\<close>

lemma obj_read_ends: "length inp < fuel \<Longrightarrow> obj_read fuel env g cl mapflag inp s \<noteq> None"
proof (induction fuel arbitrary: inp s)
  case (Suc fuel)
  show ?case
  proof (cases "\<exists>n err e rest. gpkgmapvfp env g cfent0 (Some inp) = Inr (n, err, e, rest) \<and> 0 < n")
    case True
    then obtain n err e rest where r: "gpkgmapvfp env g cfent0 (Some inp) = Inr (n, err, e, rest)" "0 < n" by blast
    have "length rest < fuel" using gpkgmapvfp_moves [OF r] Suc.prems by simp
    then show ?thesis using Suc.IH r by (auto simp: Let_def split: sum.split)
  next
    case False
    then show ?thesis by (auto split: sum.split)
  qed
qed simp

lemma proc_read_ends: "length inp < fuel \<Longrightarrow> proc_read fuel env g cl mapflag inp s \<noteq> None"
proof (induction fuel arbitrary: inp s)
  case (Suc fuel)
  show ?case
  proof (cases "\<exists>n err e rest. gpkgmapvfp env g cfent0 (Some inp) = Inr (n, err, e, rest) \<and> 0 < n")
    case True
    then obtain n err e rest where r: "gpkgmapvfp env g cfent0 (Some inp) = Inr (n, err, e, rest)" "0 < n" by blast
    have "length rest < fuel" using gpkgmapvfp_moves [OF r] Suc.prems by simp
    then show ?thesis using Suc.IH r by (auto split: sum.split)
  next
    case False
    then show ?thesis by (auto split: sum.split)
  qed
qed simp

lemma pkgobjmap_ends: "length inp < fuel \<Longrightarrow> \<exists>r. pkgobjmap fuel env g cl mapflag inp s = Some r"
proof -
  assume "length inp < fuel"
  moreover have "obj_sort s' \<noteq> None" for s'
    using obj.sort_all_ref by (auto simp: obj_sort_def split: option.split prod.split)
  ultimately show ?thesis
    using obj_read_ends [of inp fuel env g cl mapflag "pkgobjinit s"] by (auto simp: pkgobjmap_def split: sum.split)
qed



text \<open>
  C35. The loops over a package map end on every text: each call of the parser that finds an entry
  moves the cursor, so one round per character and one more is enough for \<open>pkgobjmap\<close> and \<open>procmap\<close> to return
  a list, an error or a fault, the sort included.
\<close>

theorem objects_return:
  assumes "length inp < fuel"
  shows "(\<exists>r. pkgobjmap fuel env g cl mapflag inp s = Some r) \<and> (\<exists>r. procmap fuel env g cl mapflag inp ptrs fx = Some r)"
proof
  show "\<exists>r. pkgobjmap fuel env g cl mapflag inp s = Some r" by (rule pkgobjmap_ends [OF assms])
  show "\<exists>r. procmap fuel env g cl mapflag inp ptrs fx = Some r"
    using proc_read_ends [OF assms, of env g cl mapflag "\<lparr>c_list = [], c_alloc = False, c_nparts = 0, c_ptrs = ptrs, c_fix = fx\<rparr>"]
    by (auto simp: procmap_def proc.sort_all_ref split: sum.split prod.split)
qed

section \<open>The objects and the database\<close>







lemma append_less_same [simp]: "(R @ a < R @ b) = (a < (b :: string))"
  by (induction R) auto










section \<open>Examples\<close>

definition demo_fix :: fixst where
  "demo_fix = fixst0\<lparr>install_root := Some ''/export/root'', install_root_exists := True, install_root_len := 12, ir_accessed := True,
     relocatable := True, orig_basedir := Some ''/opt/x'', basedir := Some ''/export/root/opt/x'', basedir_exists := True,
     client_basedir := Some ''/opt/x'', client_basedir_exists := True, eval_valid := True\<rparr>"

definition demo_objst :: objst where
  "demo_objst = \<lparr>o_ext = [], o_eptnum = 0, o_errflg = 0, o_nparts = 0, o_preloaded = False, o_fix = demo_fix, o_fs = []\<rparr>"




definition demo_read :: "string \<Rightarrow> cfent" where
  "demo_read p = map_read (gp_clear mapset0 (d_owner mapset0) (d_group mapset0) cfent0) (map_sample\<lparr>path := Some p\<rparr>)"

text \<open>The records of the two objects, with their places.\<close>

definition demo_obj :: "string \<Rightarrow> string \<Rightarrow> cfextra" where
  "demo_obj p c = cfextra0\<lparr>x_ent := (demo_read p)\<lparr>path := Some (''/export/root'' @ c)\<rparr>, server_path := ''/export/root'' @ c,
     client_path := Some c, map_path := Some p, client_local := Some ''ls.sh'', server_local := Some ''ls.sh''\<rparr>"






definition demo_found :: "cfextra list" where
  "demo_found = map (\<lambda>x. x\<lparr>fsys_value := BADFSYS, fsys_base := BADFSYS\<rparr>)
     [demo_obj ''bin/zsh'' ''/opt/x/bin/zsh'', demo_obj ''/etc/x'' ''/etc/x'']"

lemma demo_sort:
  "sort_all obj_key (obj_dup False) demo_found \<lparr>q_errs = 0, q_fs = [], q_fault = None\<rparr> =
     Some (rev demo_found, \<lparr>q_errs = 0, q_fs = [], q_fault = None\<rparr>)"
  by code_simp





theorem obj_sort_is_insertion_witness:
  "\<exists>ys q. sort_all obj_key (obj_dup False) demo_found \<lparr>q_errs = 0, q_fs = [], q_fault = None\<rparr> = Some (ys, q) \<and>
     map obj_key ys = [''/export/root/etc/x'', ''/export/root/opt/x/bin/zsh''] \<and> hd demo_found \<in> set ys"
proof -
  have k: "map obj_key demo_found = [''/export/root/opt/x/bin/zsh'', ''/export/root/etc/x'']"
    by (simp add: demo_found_def obj_key_def ent_key_def demo_obj_def)
  then obtain a b where ab: "demo_found = [a, b]" "obj_key a = ''/export/root/opt/x/bin/zsh''" "obj_key b = ''/export/root/etc/x''"
    by (auto simp: map_eq_Cons_conv)
  show ?thesis
    using obj_sort_is_insertion[of False demo_found "\<lparr>q_errs = 0, q_fs = [], q_fault = None\<rparr>"] demo_sort
    by (auto simp: ab less_char_def)
qed

theorem objects_return_witness:
  "(\<exists>r. pkgobjmap 5 (\<lambda>_. None) mapset0 clstate0 2 ''1 f'' demo_objst = Some r) \<and>
   (\<exists>r. procmap 5 (\<lambda>_. None) mapset0 clstate0 2 ''1 f'' cfextra0 demo_fix = Some r)"
  by (rule objects_return) simp

end
