(* ===== verification/Sml.thy ===== *)
theory Sml
  imports Cnum
begin

text \<open>
  The simplified markup language of \<open>libinst/sml.c\<close>: tag objects with parameters and subtags, their text
  form, and the parser of it. The text is what programs hand to each other in the environment.

  An array of parameters or subtags is a list, which is empty where the pointer is \<open>NULL\<close>; memory is
  never exhausted. A pointer to a tag object inside another one is its place there. Messages are left
  out; where a message would read through a \<open>NULL\<close> name, so does the code before it.
\<close>

section \<open>Tag objects\<close>

record sml_param =
  p_name :: string
  p_value :: string

datatype sml_tag = SML_TAG (tag_name: "string option") (tag_params: "sml_param list") (tag_tags: "sml_tag list")

definition set_params :: "sml_param list \<Rightarrow> sml_tag \<Rightarrow> sml_tag" where
  "set_params ps t = SML_TAG (tag_name t) ps (tag_tags t)"

definition set_tags :: "sml_tag list \<Rightarrow> sml_tag \<Rightarrow> sml_tag" where
  "set_tags ts t = SML_TAG (tag_name t) (tag_params t) ts"

text \<open>A pointer that a function returns: to the tag itself or to one of its subtags.\<close>

datatype tagref = Self | Sub nat

fun the_tag :: "sml_tag \<Rightarrow> tagref \<Rightarrow> sml_tag" where
  "the_tag t Self = t"
| "the_tag t (Sub i) = tag_tags t ! i"

fun put_tag :: "sml_tag \<Rightarrow> tagref \<Rightarrow> sml_tag \<Rightarrow> sml_tag" where
  "put_tag t Self u = u"
| "put_tag t (Sub i) u = set_tags ((tag_tags t)[i := u]) t"

text \<open>\<open>strcmp\<close> with a name that may be \<open>NULL\<close>.\<close>

definition streq :: "string option \<Rightarrow> string \<Rightarrow> bool res" where
  "streq a b = (case a of None \<Rightarrow> Inl NullDeref | Some s \<Rightarrow> Inr (s = b))"

definition smlNewTag :: "string option \<Rightarrow> sml_tag res" where
  "smlNewTag nm = (if nm = Some [] then Inl AssertFail else Inr (SML_TAG nm [] []))"

text \<open>The updated tag and the place of the new one. An index below -1 is used as it is.\<close>

definition smlAddTag :: "sml_tag option \<Rightarrow> int \<Rightarrow> sml_tag option \<Rightarrow> (sml_tag option \<times> nat option) res" where
  "smlAddTag r_tag a_index a_subTag =
     (case a_subTag of
        None \<Rightarrow> Inl AssertFail
      | Some sub \<Rightarrow>
          (case r_tag of
             None \<Rightarrow> Inr (None, None)
           | Some t \<Rightarrow>
               let num = int (length (tag_tags t));
                   i = (if a_index > num \<or> a_index = - 1 then num else a_index) in
               if i < 0 then Inl BufOverrun
               else Inr (Some (set_tags (take (nat i) (tag_tags t) @ sub # drop (nat i) (tag_tags t)) t), Some (nat i))))"

definition smlDelTag :: "sml_tag option \<Rightarrow> tagref option \<Rightarrow> (sml_tag option) res" where
  "smlDelTag tag sub_tag =
     (case sub_tag of
        None \<Rightarrow> Inl AssertFail
      | Some r \<Rightarrow>
          (case tag of
             None \<Rightarrow> Inr None
           | Some t \<Rightarrow>
               (case r of
                  Self \<Rightarrow> Inr (Some t)
                | Sub i \<Rightarrow>
                    if i < length (tag_tags t)
                    then Inr (Some (set_tags (take i (tag_tags t) @ drop (Suc i) (tag_tags t)) t))
                    else Inr (Some t))))"

definition smlGetNumParams :: "sml_tag option \<Rightarrow> nat" where
  "smlGetNumParams tag = (case tag of None \<Rightarrow> 0 | Some t \<Rightarrow> length (tag_params t))"

definition find_param :: "string \<Rightarrow> sml_param list \<Rightarrow> sml_param option" where
  "find_param nm ps = find (\<lambda>p. p_name p = nm) ps"

definition smlGetParam :: "sml_tag option \<Rightarrow> string \<Rightarrow> (string option) res" where
  "smlGetParam tag nm =
     (if nm = [] then Inl AssertFail
      else Inr (case tag of None \<Rightarrow> None | Some t \<Rightarrow> map_option p_value (find_param nm (tag_params t))))"

definition smlGetParam_r :: "sml_tag option \<Rightarrow> string \<Rightarrow> int \<Rightarrow> string res" where
  "smlGetParam_r tag nm bufLen =
     (if nm = [] \<or> bufLen \<le> 0 then Inl AssertFail
      else Inr (case tag of
          None \<Rightarrow> []
        | Some t \<Rightarrow>
            (case find_param nm (tag_params t) of
               None \<Rightarrow> []
             | Some p \<Rightarrow> take (nat bufLen - 1) (p_value p))))"

definition smlGetParamName :: "sml_tag option \<Rightarrow> int \<Rightarrow> (string option) res" where
  "smlGetParamName tag index =
     (case tag of
        None \<Rightarrow> Inr None
      | Some t \<Rightarrow>
          if tag_params t = [] \<or> index \<ge> int (length (tag_params t)) then Inr None
          else if index < 0 then Inl BufOverrun
          else Inr (Some (p_name (tag_params t ! nat index))))"

definition smlGetElementName :: "sml_tag option \<Rightarrow> string res" where
  "smlGetElementName tag =
     (case tag of
        None \<Rightarrow> Inl AssertFail
      | Some t \<Rightarrow> (case tag_name t of None \<Rightarrow> Inl AssertFail | Some n \<Rightarrow> if n = [] then Inl AssertFail else Inr n))"

definition smlGetTag :: "sml_tag option \<Rightarrow> int \<Rightarrow> (tagref option) res" where
  "smlGetTag tag index =
     (case tag of
        None \<Rightarrow> Inr None
      | Some t \<Rightarrow>
          if tag_tags t = [] \<or> int (length (tag_tags t)) \<le> index then Inr None
          else if index < 0 then Inl WildPtr
          else Inr (Some (Sub (nat index))))"

primrec tag_search :: "string \<Rightarrow> int \<Rightarrow> nat \<Rightarrow> sml_tag list \<Rightarrow> (tagref option) res" where
  "tag_search nm index k [] = Inr None"
| "tag_search nm index k (t # ts) =
     rbind (streq (tag_name t) nm) (\<lambda>eq.
     if eq then if index = 0 then Inr (Some (Sub k)) else tag_search nm (index - 1) (Suc k) ts
     else tag_search nm index (Suc k) ts)"

definition smlGetTagByName :: "sml_tag option \<Rightarrow> int \<Rightarrow> string \<Rightarrow> (tagref option) res" where
  "smlGetTagByName tag index nm =
     (case tag of
        None \<Rightarrow> Inr None
      | Some t \<Rightarrow>
          rbind (streq (tag_name t) nm) (\<lambda>eq.
          if eq \<and> index = 0 then Inr (Some Self)
          else if tag_tags t = [] \<or> int (length (tag_tags t)) \<le> index then Inr None
          else tag_search nm index 0 (tag_tags t)))"

definition smlGetParamByTag :: "sml_tag option \<Rightarrow> int \<Rightarrow> string \<Rightarrow> string \<Rightarrow> (string option) res" where
  "smlGetParamByTag tag index tagName paramName =
     (case tag of
        None \<Rightarrow> Inl AssertFail
      | Some t \<Rightarrow>
          if tagName = [] \<or> paramName = [] then Inl AssertFail
          else rbind (smlGetTagByName tag index tagName) (\<lambda>r.
            case r of None \<Rightarrow> Inr None | Some ref \<Rightarrow> smlGetParam (Some (the_tag t ref)) paramName))"

text \<open>The loop over the parameters of a subtag stops at the first one with the name.\<close>

definition param_fits :: "string \<Rightarrow> string \<Rightarrow> sml_tag \<Rightarrow> bool" where
  "param_fits paramName paramValue t =
     (case find_param paramName (tag_params t) of None \<Rightarrow> False | Some p \<Rightarrow> p_value p = paramValue)"

primrec tag_param_search :: "string \<Rightarrow> string \<Rightarrow> string \<Rightarrow> int \<Rightarrow> nat \<Rightarrow> sml_tag list \<Rightarrow> (tagref option) res" where
  "tag_param_search tagName paramName paramValue index k [] = Inr None"
| "tag_param_search tagName paramName paramValue index k (t # ts) =
     rbind (streq (tag_name t) tagName) (\<lambda>eq.
     if eq \<and> param_fits paramName paramValue t then
       if index \<noteq> 0 then tag_param_search tagName paramName paramValue (index - 1) (Suc k) ts
       else Inr (Some (Sub k))
     else tag_param_search tagName paramName paramValue index (Suc k) ts)"

definition smlGetTagByTagParam :: "sml_tag option \<Rightarrow> int \<Rightarrow> string \<Rightarrow> string \<Rightarrow> string \<Rightarrow> (tagref option) res" where
  "smlGetTagByTagParam tag index tagName paramName paramValue =
     (case tag of
        None \<Rightarrow> Inl AssertFail
      | Some t \<Rightarrow>
          if tagName = [] \<or> paramName = [] \<or> paramValue = [] then Inl AssertFail
          else tag_param_search tagName paramName paramValue index 0 (tag_tags t))"

definition smlGetParamByTagParam ::
  "sml_tag option \<Rightarrow> int \<Rightarrow> string \<Rightarrow> string \<Rightarrow> string \<Rightarrow> string \<Rightarrow> (string option) res" where
  "smlGetParamByTagParam tag index tagName paramName paramValue paramReturn =
     (if paramReturn = [] then Inl AssertFail
      else rbind (smlGetTagByTagParam tag index tagName paramName paramValue) (\<lambda>r.
        case (tag, r) of
          (Some t, Some ref) \<Rightarrow> smlGetParam (Some (the_tag t ref)) paramReturn
        | _ \<Rightarrow> Inr None))"

section \<open>Changing parameters\<close>

primrec del_param :: "string \<Rightarrow> sml_param list \<Rightarrow> sml_param list" where
  "del_param nm [] = []"
| "del_param nm (p # ps) = (if p_name p = nm then ps else p # del_param nm ps)"

definition smlDelParam :: "sml_tag option \<Rightarrow> string \<Rightarrow> sml_tag res" where
  "smlDelParam tag nm =
     (case tag of
        None \<Rightarrow> Inl AssertFail
      | Some t \<Rightarrow>
          if tag_name t = None \<or> nm = [] then Inl AssertFail
          else Inr (set_params (del_param nm (tag_params t)) t))"

primrec put_param :: "string \<Rightarrow> string \<Rightarrow> sml_param list \<Rightarrow> sml_param list" where
  "put_param nm v [] = [\<lparr>p_name = nm, p_value = v\<rparr>]"
| "put_param nm v (p # ps) =
     (if p_name p = nm then (if p_value p = v then p else p\<lparr>p_value := v\<rparr>) # ps else p # put_param nm v ps)"

definition smlSetParam :: "sml_tag option \<Rightarrow> string \<Rightarrow> string \<Rightarrow> sml_tag res" where
  "smlSetParam tag nm v =
     (case tag of
        None \<Rightarrow> Inl AssertFail
      | Some t \<Rightarrow> if nm = [] then Inl AssertFail else Inr (set_params (put_param nm v (tag_params t)) t))"

text \<open>The functions with a format; the argument is the text that \<open>vsnprintf\<close> makes of it.\<close>

definition smlSetParamF :: "sml_tag option \<Rightarrow> string \<Rightarrow> string \<Rightarrow> sml_tag res" where
  "smlSetParamF tag nm v = (if tag = None \<or> nm = [] \<or> v = [] then Inl AssertFail else smlSetParam tag nm v)"

definition smlGetParamF :: "sml_tag option \<Rightarrow> string \<Rightarrow> (string option) res" where
  "smlGetParamF tag nm = (if tag = None \<or> nm = [] then Inl AssertFail else smlGetParam tag nm)"

definition to_lower :: "char \<Rightarrow> char" where
  "to_lower c = (if isupper c then char_of (of_char c + 32 :: nat) else c)"

definition strcaseeq :: "string \<Rightarrow> string \<Rightarrow> bool" where
  "strcaseeq a b \<longleftrightarrow> map to_lower a = map to_lower b"

definition smlParamEq :: "sml_tag option \<Rightarrow> string \<Rightarrow> string \<Rightarrow> string \<Rightarrow> bool res" where
  "smlParamEq tag findTag findParam str =
     (case tag of
        None \<Rightarrow> Inl AssertFail
      | Some t \<Rightarrow>
          rbind (smlGetTagByName tag 0 findTag) (\<lambda>r.
          case r of
            None \<Rightarrow> Inr False
          | Some ref \<Rightarrow>
              rbind (smlGetParam (Some (the_tag t ref)) findParam) (\<lambda>v.
              Inr (case v of None \<Rightarrow> False | Some w \<Rightarrow> strcaseeq str w))))"

definition smlParamEqF :: "sml_tag option \<Rightarrow> string \<Rightarrow> string \<Rightarrow> string \<Rightarrow> bool res" where
  "smlParamEqF tag findTag findParam str =
     (if tag = None \<or> str = [] then Inl AssertFail else smlParamEq tag findTag findParam str)"

definition smlFindAndDelTag :: "sml_tag option \<Rightarrow> string \<Rightarrow> (bool \<times> sml_tag option) res" where
  "smlFindAndDelTag tag findTag =
     (if tag = None \<or> findTag = [] then Inl AssertFail
      else rbind (smlGetTagByName tag 0 findTag) (\<lambda>r.
        case r of
          None \<Rightarrow> Inr (False, tag)
        | Some _ \<Rightarrow> rbind (smlDelTag tag r) (\<lambda>t. Inr (True, t))))"

primrec smlDup :: "sml_tag \<Rightarrow> sml_tag" where
  "smlDup (SML_TAG n ps ts) = SML_TAG n (map (\<lambda>p. \<lparr>p_name = p_name p, p_value = p_value p\<rparr>) ps) (map smlDup ts)"

section \<open>File status\<close>

text \<open>The fields of \<open>struct stat\<close>, each as the \<open>unsigned long long\<close> it is printed as.\<close>

record file_stat =
  f_ino :: u64
  f_mode :: u64
  f_mtime :: u64
  f_ctime :: u64
  f_size :: u64

definition hex_digit :: "nat \<Rightarrow> char" where
  "hex_digit n = ''0123456789abcdef'' ! n"

fun show_hex :: "nat \<Rightarrow> string" where
  "show_hex n = (if n < 16 then [hex_digit n] else show_hex (n div 16) @ [hex_digit (n mod 16)])"

declare show_hex.simps [simp del]

text \<open>\<open>0x%llx\<close>.\<close>

definition hex_text :: "u64 \<Rightarrow> string" where
  "hex_text w = ''0x'' @ show_hex (unat w)"

definition fileStatInfoTag :: string where
  "fileStatInfoTag = ''File-Stat-Info''"

definition stat_fields :: "(string \<times> (file_stat \<Rightarrow> u64)) list" where
  "stat_fields = [(''st_ino'', f_ino), (''st_mode'', f_mode), (''st_mtime'', f_mtime), (''st_ctime'', f_ctime), (''st_size'', f_size)]"

fun set_stat_fields :: "(string \<times> (file_stat \<Rightarrow> u64)) list \<Rightarrow> file_stat \<Rightarrow> sml_tag \<Rightarrow> sml_tag res" where
  "set_stat_fields [] st t = Inr t"
| "set_stat_fields ((n, f) # fs) st t = rbind (smlSetParamF (Some t) n (hex_text (f st))) (set_stat_fields fs st)"

definition smlSetFileStatInfo :: "sml_tag option \<Rightarrow> file_stat option \<Rightarrow> string option \<Rightarrow> (sml_tag option) res" where
  "smlSetFileStatInfo tag statbuf path =
     (if tag = None then Inl AssertFail
      else (case statbuf of
        None \<Rightarrow> Inl AssertFail
      | Some st \<Rightarrow>
          rbind (smlFindAndDelTag tag fileStatInfoTag) (\<lambda>(_, t1).
          rbind (smlGetTagByName t1 0 fileStatInfoTag) (\<lambda>r.
          if r \<noteq> None then Inl AssertFail
          else
            rbind (smlNewTag (Some fileStatInfoTag)) (\<lambda>n.
            rbind (smlAddTag t1 0 (Some n)) (\<lambda>(t2, _).
            rbind (smlGetTagByName t2 0 fileStatInfoTag) (\<lambda>r2.
            case (t2, r2) of
              (Some t, Some ref) \<Rightarrow>
                rbind (case path of None \<Rightarrow> Inr (the_tag t ref) | Some p \<Rightarrow> smlSetParam (Some (the_tag t ref)) ''st_path'' p) (\<lambda>u.
                rbind (set_stat_fields stat_fields st u) (\<lambda>u'.
                Inr (Some (put_tag t ref u'))))
            | _ \<Rightarrow> Inl AssertFail)))))))"

fun eq_stat_fields :: "(string \<times> (file_stat \<Rightarrow> u64)) list \<Rightarrow> file_stat \<Rightarrow> sml_tag \<Rightarrow> bool res" where
  "eq_stat_fields [] st t = Inr True"
| "eq_stat_fields ((n, f) # fs) st t =
     rbind (smlParamEqF (Some t) fileStatInfoTag n (hex_text (f st))) (\<lambda>eq.
     if eq then eq_stat_fields fs st t else Inr False)"

definition smlFstatCompareEq :: "file_stat option \<Rightarrow> sml_tag option \<Rightarrow> string option \<Rightarrow> bool res" where
  "smlFstatCompareEq statbuf tag path =
     (case (tag, statbuf) of
        (Some t, Some st) \<Rightarrow>
          rbind (case path of None \<Rightarrow> Inr True | Some p \<Rightarrow> smlParamEq tag fileStatInfoTag ''st_path'' p) (\<lambda>eq.
          if eq then eq_stat_fields stat_fields st t else Inr False)
      | _ \<Rightarrow> Inr False)"

end
