(* ===== verification/Smltext.thy ===== *)
theory Smltext
  imports Sml
begin

text \<open>
  The text form of tag objects: the encoding of parameter values, the writer and the parser of
  \<open>libinst/sml.c\<close>. The recursion of \<open>_smlReadTag\<close> has fuel; \<open>Smlread\<close> shows how much is enough.
\<close>

section \<open>Encoded values\<close>

text \<open>The characters that are written as they are.\<close>

definition xml_plain :: string where
  "xml_plain = ''!#%()*+,-./0123456789:;<=>?@ABCDEFGHIJKLMNOPQRSTUVWXYZ[]^_abcdefghijklmnopqrstuvwxyz{|}~ '' @ [CHR 0x27]"

text \<open>\<open>&#%x;\<close> otherwise.\<close>

definition enc_char :: "char \<Rightarrow> string" where
  "enc_char c = (if c \<in> set xml_plain then [c] else ''&#'' @ show_hex (of_char c) @ '';'')"

text \<open>
  The loop: \<open>len\<close> is \<open>stringLength\<close>, of a buffer with two bytes more; \<open>sprintf\<close> also writes a terminator.
\<close>

primrec enc_loop :: "string \<Rightarrow> int \<Rightarrow> string \<Rightarrow> string res" where
  "enc_loop [] len out = (if int (length out) < len + 2 then Inr out else Inl BufOverrun)"
| "enc_loop (c # s) len out =
     (let len' = (if len - int (length out) < 12 then len + (int (length s) + 1) * 2 + 12 else len);
          out' = out @ enc_char c in
      if int (length out') + (if c \<in> set xml_plain then 0 else 1) \<le> len' + 2 then enc_loop s len' out' else Inl BufOverrun)"

definition sml_XmlEncodeString :: "string \<Rightarrow> string res" where
  "sml_XmlEncodeString s = enc_loop s (int (length s) * 2) []"

text \<open>The states of the decoder; \<open>Collect\<close> has the digits collected so far.\<close>

datatype fsms = Fsms_text | Fsms_seenAmp | Fsms_seenPound | Fsms_collect string

definition hex_val :: "char \<Rightarrow> nat" where
  "hex_val c = (if isdigit c then of_char c - 48 else if c \<in> set ''abcdef'' then of_char c - 87 else of_char c - 55)"

definition is_hex :: "char \<Rightarrow> bool" where
  "is_hex c \<longleftrightarrow> c \<in> set ''0123456789abcdefABCDEF''"

definition read_hex :: "string \<Rightarrow> nat" where
  "read_hex s = foldl (\<lambda>a c. a * 16 + hex_val c) 0 s"

text \<open>\<open>sscanf("%lx")\<close> of digits, of which the low byte is taken; \<open>?\<close> when there are none.\<close>

definition ref_char :: "string \<Rightarrow> char" where
  "ref_char rs = (if rs = [] then CHR ''?'' else char_of (min (read_hex rs) (2 ^ 64 - 1)))"

text \<open>Writing at \<open>d\<close>, in a buffer of \<open>cap + 1\<close> bytes.\<close>

definition dput :: "nat \<Rightarrow> string \<Rightarrow> string \<Rightarrow> string res" where
  "dput cap d t = (if length d + length t \<le> cap + 1 then Inr (d @ t) else Inl BufOverrun)"

text \<open>
  A character of a reference. When it is no digit, \<open>strncpy(d, rs, n - 1)\<close> writes behind \<open>d\<close>, for \<open>n\<close> digits; with none
  the length is the greatest number there is.
\<close>

definition collect_char :: "nat \<Rightarrow> char \<Rightarrow> string \<Rightarrow> string \<Rightarrow> (fsms \<times> string) res" where
  "collect_char cap c rs d =
     (if c \<noteq> CHR '';'' then
        if is_hex c then Inr (Fsms_collect (rs @ [c]), d)
        else
          rbind (dput cap d ''&#'') (\<lambda>d1.
          if rs = [] then Inl BufOverrun
          else rbind (dput cap d1 (butlast rs)) (\<lambda>_.
          rbind (dput cap d1 [c]) (\<lambda>d2. Inr (Fsms_text, d2))))
      else rbind (dput cap d [ref_char rs]) (\<lambda>d1. Inr (Fsms_text, d1)))"

fun dec_char :: "nat \<Rightarrow> char \<Rightarrow> string \<Rightarrow> fsms \<Rightarrow> string \<Rightarrow> (fsms \<times> string) res" where
  "dec_char cap c s Fsms_text d =
     (if c = CHR ''&'' then Inr (Fsms_seenAmp, d) else rbind (dput cap d [c]) (\<lambda>d1. Inr (Fsms_text, d1)))"
| "dec_char cap c s Fsms_seenAmp d =
     (if c = CHR ''#'' then Inr (Fsms_seenPound, d)
      else rbind (dput cap d [CHR ''&'', c]) (\<lambda>d1. Inr (Fsms_text, d1)))"
| "dec_char cap c s Fsms_seenPound d =
     (if CHR '';'' \<notin> set (c # s) then rbind (dput cap d [CHR ''&'', CHR ''#'', c]) (\<lambda>d1. Inr (Fsms_text, d1))
      else collect_char cap c [] d)"
| "dec_char cap c s (Fsms_collect rs) d = collect_char cap c rs d"

text \<open>The result ends at the first NUL that a reference has put into it.\<close>

primrec dec_loop :: "nat \<Rightarrow> string \<Rightarrow> fsms \<Rightarrow> string \<Rightarrow> string res" where
  "dec_loop cap [] st d = (if length d \<le> cap then Inr (takeWhile (\<lambda>c. c \<noteq> NUL) d) else Inl BufOverrun)"
| "dec_loop cap (c # s) st d = rbind (dec_char cap c s st d) (\<lambda>(st', d'). dec_loop cap s st' d')"

definition sml_XmlDecodeString :: "string \<Rightarrow> string res" where
  "sml_XmlDecodeString s = dec_loop (length s) s Fsms_text []"

section \<open>Writing\<close>

definition writeParamValue :: "string \<Rightarrow> string res" where
  "writeParamValue v = rbind (sml_XmlEncodeString v) (\<lambda>p. Inr (CHR 0x22 # p @ [CHR 0x22]))"

primrec write_params :: "sml_param list \<Rightarrow> string res" where
  "write_params [] = Inr []"
| "write_params (p # ps) =
     rbind (writeParamValue (p_value p)) (\<lambda>v.
     rbind (write_params ps) (\<lambda>r. Inr (SP # p_name p @ ''='' @ v @ r)))"

text \<open>What \<open>_smlWriteSimpleTag\<close> adds to the string. Printing a \<open>NULL\<close> name is not defined.\<close>

primrec writeSimpleTag :: "sml_tag \<Rightarrow> string res" where
  "writeSimpleTag (SML_TAG nm ps ts) =
     (case nm of
        None \<Rightarrow> Inl NullDeref
      | Some n \<Rightarrow>
          rbind (write_params ps) (\<lambda>p.
          if ts = [] then Inr (''<'' @ n @ p @ ''/>'' @ [NL])
          else
            rbind (foldr (\<lambda>x acc. rbind x (\<lambda>a. rbind acc (\<lambda>b. Inr (a @ b)))) (map writeSimpleTag ts) (Inr [])) (\<lambda>subs.
            Inr (''<'' @ n @ p @ ''>'' @ [NL] @ subs @ ''</'' @ n @ ''>'' @ [NL]))))"

definition smlConvertTagToString :: "sml_tag option \<Rightarrow> string res" where
  "smlConvertTagToString tag = (case tag of None \<Rightarrow> Inl AssertFail | Some t \<Rightarrow> writeSimpleTag t)"

section \<open>Reading\<close>

definition MAX_SML_COMPONENT_LENGTH :: nat where "MAX_SML_COMPONENT_LENGTH = 16384"

definition add_char :: "string \<Rightarrow> char \<Rightarrow> string" where
  "add_char acc c = (if length acc < MAX_SML_COMPONENT_LENGTH - 1 then acc @ [c] else acc)"

text \<open>Success with a tag object or none, or an error; the tag object that is left with an error, and the rest of the text.\<close>

datatype read_res = ROk "sml_tag option" string | RErr "sml_tag option" string

text \<open>The characters before a tag: an end, or the text behind \<open><\<close>.\<close>

primrec skip_before :: "bool \<Rightarrow> string \<Rightarrow> read_res + string" where
  "skip_before outer [] = Inl (if outer then ROk None [] else RErr None [])"
| "skip_before outer (c # p) =
     (if c = CHR ''<'' then Inr p
      else if outer then
        if c = SP \<or> c = TAB then skip_before outer p
        else if c = NL then Inl (ROk None p)
        else Inl (RErr None p)
      else skip_before outer p)"

definition quotes :: string where "quotes = [CHR 0x22, CHR 0x27, CHR 0x5C, CHR 0x60]"

definition close_bad :: string where
  "close_bad = ''/ '' @ [TAB, NL] @ '':<?$!@#%^&*()+=|[]{};,'' @ quotes"

text \<open>The name in a closing tag and the rest; with an error only the rest.\<close>

primrec close_name :: "string \<Rightarrow> string \<Rightarrow> string + (string \<times> string)" where
  "close_name acc [] = Inl []"
| "close_name acc (c # p) =
     (if c = CHR ''>'' then Inr (acc, p)
      else if c \<in> set close_bad then Inl p
      else close_name (add_char acc c) p)"

definition close_tag :: "string option \<Rightarrow> string \<Rightarrow> read_res" where
  "close_tag parent p =
     (case close_name [] p of
        Inl r \<Rightarrow> RErr None r
      | Inr (n, r) \<Rightarrow> if n = [] \<or> parent \<noteq> Some n then RErr None r else ROk None r)"

definition open_bad :: string where
  "open_bad = '':<>?$!@#%^&*()+=|[]{};,'' @ quotes"

datatype opened = Bad_name string | Closed string string | Head char string string

text \<open>\<open>/\<close> must be followed by \<open>>\<close>.\<close>

definition slash_close :: "string \<Rightarrow> bool \<times> string" where
  "slash_close p = (case p of [] \<Rightarrow> (False, []) | c # r \<Rightarrow> (c = CHR ''>'', r))"

primrec open_name :: "string \<Rightarrow> string \<Rightarrow> opened" where
  "open_name acc [] = Bad_name []"
| "open_name acc (c # p) =
     (if c = SP \<or> c = CHR ''>'' \<or> c = TAB \<or> c = NL then Head c acc p
      else if c \<in> set open_bad then Bad_name p
      else if c = CHR ''/'' then
        (case slash_close p of (ok, r) \<Rightarrow> if \<not> ok \<or> acc = [] then Bad_name r else Closed acc r)
      else open_name (add_char acc c) p)"

definition first_bad :: string where
  "first_bad = '':<?$!@#%^&*()+=|[]{};,.'' @ quotes"

datatype pstart = P_bad string | P_end string | P_closed string | P_name char string

primrec param_start :: "string \<Rightarrow> pstart" where
  "param_start [] = P_bad []"
| "param_start (c # p) =
     (if c = SP \<or> c = TAB \<or> c = NL then param_start p
      else if c \<in> set first_bad then P_bad p
      else if c = CHR ''>'' then P_end p
      else if c = CHR ''/'' then (case slash_close p of (ok, r) \<Rightarrow> if ok then P_closed r else P_bad r)
      else P_name c p)"

definition name_bad :: string where
  "name_bad = [TAB, SP, NL] @ '':<>?$!@%^*()+|[]{},./'' @ quotes"

primrec param_name :: "string \<Rightarrow> string \<Rightarrow> string + (string \<times> string)" where
  "param_name acc [] = Inl []"
| "param_name acc (c # p) =
     (if c \<in> set name_bad then Inl p
      else if c = CHR ''='' then Inr (acc, p)
      else param_name (add_char acc c) p)"

primrec param_value :: "string \<Rightarrow> string \<Rightarrow> string + (string \<times> string)" where
  "param_value acc [] = Inl []"
| "param_value acc (c # p) =
     (if c = CHR 0x22 then Inr (acc, p)
      else if c = NL then Inl p
      else param_value (add_char acc c) p)"

text \<open>One parameter behind its first character: its name, its encoded value and the rest.\<close>

definition one_param :: "char \<Rightarrow> string \<Rightarrow> string + (string \<times> string \<times> string)" where
  "one_param c q =
     (case param_name (add_char [] c) q of
        Inl r \<Rightarrow> Inl r
      | Inr (n, r) \<Rightarrow>
          if n = [] then Inl r
          else (case r of
            [] \<Rightarrow> Inl []
          | d # r1 \<Rightarrow>
              if d \<noteq> CHR 0x22 then Inl r1
              else (case param_value [] r1 of Inl r2 \<Rightarrow> Inl r2 | Inr (v, r2) \<Rightarrow> Inr (n, v, r2))))"

lemma slash_close_le: "slash_close p = (ok, r) \<Longrightarrow> length r \<le> length p"
  by (auto simp: slash_close_def split: list.splits)

lemma param_start_shorter: "param_start p = P_name c q \<Longrightarrow> length q < length p"
  by (induction p) (auto split: if_splits prod.splits)

lemma param_name_shorter: "param_name acc p = Inr (n, r) \<Longrightarrow> length r < length p"
  by (induction p arbitrary: acc) (auto split: if_splits, fastforce)

lemma param_value_shorter: "param_value acc p = Inr (n, r) \<Longrightarrow> length r < length p"
  by (induction p arbitrary: acc) (auto split: if_splits, fastforce)

lemma one_param_shorter: "one_param c q = Inr (n, v, r) \<Longrightarrow> length r < length q"
  using param_name_shorter param_value_shorter
  by (fastforce simp: one_param_def split: sum.splits prod.splits if_splits list.splits)

text \<open>The parameters: whether the tag is closed behind them, and the rest of the text.\<close>

function read_params :: "sml_param list \<Rightarrow> string \<Rightarrow> (string + (bool \<times> sml_param list \<times> string)) res" where
  "read_params ps p =
     (case param_start p of
        P_bad r \<Rightarrow> Inr (Inl r)
      | P_end r \<Rightarrow> Inr (Inr (False, ps, r))
      | P_closed r \<Rightarrow> Inr (Inr (True, ps, r))
      | P_name c q \<Rightarrow>
          (case one_param c q of
             Inl r \<Rightarrow> Inr (Inl r)
           | Inr (n, v, r) \<Rightarrow>
               (case sml_XmlDecodeString v of
                  Inl f \<Rightarrow> Inl f
                | Inr w \<Rightarrow> read_params (ps @ [\<lparr>p_name = n, p_value = w\<rparr>]) r)))"
  by pat_completeness auto
termination
  by (relation "measure (\<lambda>(_, p). length p)") (use param_start_shorter one_param_shorter in \<open>fastforce+\<close>)

declare read_params.simps [simp del]

datatype head = H_done read_res | H_open string "sml_param list" string

text \<open>Up to the end of the opening tag.\<close>

definition read_head :: "string option \<Rightarrow> string \<Rightarrow> head res" where
  "read_head parent p =
     (case skip_before (parent = None) p of
        Inl rr \<Rightarrow> Inr (H_done rr)
      | Inr [] \<Rightarrow> Inr (H_done (RErr None []))
      | Inr (c # q) \<Rightarrow>
          if c = CHR ''/'' then Inr (H_done (close_tag parent q))
          else if c = CHR ''<'' then Inl AssertFail
          else (case open_name [] (c # q) of
            Bad_name r \<Rightarrow> Inr (H_done (RErr None r))
          | Closed n r \<Rightarrow> Inr (H_done (ROk (Some (SML_TAG (Some n) [] [])) r))
          | Head sep n r \<Rightarrow>
              if n = [] then Inl AssertFail
              else if sep = CHR ''>'' then Inr (H_open n [] r)
              else (case read_params [] r of
                Inl f \<Rightarrow> Inl f
              | Inr (Inl r1) \<Rightarrow> Inr (H_done (RErr None r1))
              | Inr (Inr (closed, ps, r1)) \<Rightarrow>
                  Inr (if closed then H_done (ROk (Some (SML_TAG (Some n) ps [])) r1) else H_open n ps r1))))"

text \<open>\<open>_smlReadTag\<close> and its loop over the subtags; one more character is skipped behind them.\<close>

fun read_tag :: "nat \<Rightarrow> string option \<Rightarrow> string \<Rightarrow> (read_res res) option"
and read_subs :: "nat \<Rightarrow> string \<Rightarrow> sml_param list \<Rightarrow> sml_tag list \<Rightarrow> string \<Rightarrow> (read_res res) option" where
  "read_tag 0 parent p = None"
| "read_tag (Suc k) parent p =
     (case read_head parent p of
        Inl f \<Rightarrow> Some (Inl f)
      | Inr (H_done rr) \<Rightarrow> Some (Inr rr)
      | Inr (H_open n ps r) \<Rightarrow> read_subs k n ps [] r)"
| "read_subs 0 n ps ts p = None"
| "read_subs (Suc k) n ps ts p =
     (case read_tag k (Some n) p of
        None \<Rightarrow> None
      | Some (Inl f) \<Rightarrow> Some (Inl f)
      | Some (Inr (ROk (Some t) r)) \<Rightarrow> read_subs k n ps (ts @ [t]) r
      | Some (Inr (ROk None r)) \<Rightarrow> Some (Inr (ROk (Some (SML_TAG (Some n) ps ts)) (drop 1 r)))
      | Some (Inr (RErr _ r)) \<Rightarrow> Some (Inr (RErr (Some (SML_TAG (Some n) ps ts)) (drop 1 r))))"

definition smlReadTag :: "string option \<Rightarrow> string \<Rightarrow> (read_res res) option" where
  "smlReadTag parent p = read_tag (2 * length p + 2) parent p"

definition smlReadOneTag :: "string \<Rightarrow> (read_res res) option" where
  "smlReadOneTag s = smlReadTag None s"

end
