(* ===== verification/Smlread.thy ===== *)
theory Smlread
  imports Smltext
begin

text \<open>
  How far the parser of tag objects reads: every step consumes text, so that the fuel of
  \<open>smlReadTag\<close> is enough on every text, and the parser obeys the recursion of the code. The
  loop of \<open>smlConvertStringToTag\<close> is a function for the same reason.
\<close>

section \<open>The parser consumes text\<close>

fun rest_of :: "read_res \<Rightarrow> string" where
  "rest_of (ROk t r) = r"
| "rest_of (RErr t r) = r"

text \<open>The rest is no longer than the text, and shorter after a success on some text.\<close>

definition eats :: "string \<Rightarrow> read_res \<Rightarrow> bool" where
  "eats p rr \<longleftrightarrow> length (rest_of rr) \<le> length p \<and> (\<forall>t r. rr = ROk t r \<longrightarrow> p \<noteq> [] \<longrightarrow> length r < length p) \<and>
     (\<forall>t. rr \<noteq> ROk (Some t) p)"

lemma skip_before_le:
  "skip_before ou p = Inl rr \<Longrightarrow> eats p rr" "skip_before ou p = Inr q \<Longrightarrow> length q < length p"
proof -
  have "case skip_before ou p of Inl rr \<Rightarrow> eats p rr | Inr q \<Rightarrow> length q < length p"
    by (induction p) (auto simp: eats_def split: sum.splits)
  then show "skip_before ou p = Inl rr \<Longrightarrow> eats p rr" "skip_before ou p = Inr q \<Longrightarrow> length q < length p" by auto
qed

lemma close_name_le: "(case close_name acc p of Inl r \<Rightarrow> length r \<le> length p | Inr (n, r) \<Rightarrow> length r < length p)"
proof (induction p arbitrary: acc)
  case (Cons c p)
  show ?case using Cons.IH[of "add_char acc c"] by (cases "close_name (add_char acc c) p") (auto split: sum.splits)
qed simp

lemma close_tag_le: "length (rest_of (close_tag parent p)) \<le> length p"
proof (cases "close_name [] p")
  case (Inl r)
  then show ?thesis using close_name_le[where acc = "[]" and p = p] by (simp add: close_tag_def)
next
  case (Inr a)
  then show ?thesis using close_name_le[where acc = "[]" and p = p] by (cases a) (simp add: close_tag_def)
qed

fun opened_rest :: "opened \<Rightarrow> string" where
  "opened_rest (Bad_name r) = r"
| "opened_rest (Closed n r) = r"
| "opened_rest (Head c n r) = r"

lemma open_name_le: "length (opened_rest (open_name acc p)) \<le> length p"
proof (induction p arbitrary: acc)
  case (Cons c p)
  show ?case using Cons.IH[of "add_char acc c"] by (auto split: prod.splits dest!: slash_close_le)
qed simp

fun pstart_rest :: "pstart \<Rightarrow> string" where
  "pstart_rest (P_bad r) = r"
| "pstart_rest (P_end r) = r"
| "pstart_rest (P_closed r) = r"
| "pstart_rest (P_name c r) = r"

lemma param_start_le: "length (pstart_rest (param_start p)) \<le> length p"
  by (induction p) (auto split: prod.splits dest!: slash_close_le)

lemma param_name_le: "param_name acc p = Inl r \<Longrightarrow> length r \<le> length p"
  by (induction p arbitrary: acc) (auto split: if_splits, fastforce)

lemma param_value_le: "param_value acc p = Inl r \<Longrightarrow> length r \<le> length p"
  by (induction p arbitrary: acc) (auto split: if_splits, fastforce)

lemma one_param_le: "one_param c q = Inl r \<Longrightarrow> length r \<le> length q"
  using param_name_le[of _ q] param_name_shorter[of _ q] param_value_le
  by (fastforce simp: one_param_def split: sum.splits prod.splits if_splits list.splits)

lemma read_params_le:
  "read_params ps p = Inr x \<Longrightarrow> length (case x of Inl r \<Rightarrow> r | Inr (cl, qs, r) \<Rightarrow> r) \<le> length p"
proof (induction ps p rule: read_params.induct)
  case (1 ps p)
  show ?case
  proof (cases "param_start p")
    case (P_name c q)
    have q: "length q < length p" using param_start_shorter[OF P_name] .
    show ?thesis
    proof (cases "one_param c q")
      case (Inl r)
      then show ?thesis using "1.prems" P_name one_param_le[OF Inl] q by (auto simp: read_params.simps[of ps p])
    next
      case (Inr a)
      obtain n v r where a: "a = (n, v, r)" by (cases a)
      then obtain w where w: "sml_XmlDecodeString v = Inr w" "read_params (ps @ [\<lparr>p_name = n, p_value = w\<rparr>]) r = Inr x"
        using "1.prems" P_name Inr by (simp add: read_params.simps[of ps p] split: sum.splits)
      then show ?thesis using "1.IH"[OF P_name Inr a[symmetric] refl w(1) w(2)] one_param_shorter[of c q n v r] Inr a q by simp
    qed
  qed (use "1.prems" param_start_le[of p] in \<open>auto simp: read_params.simps[of ps p]\<close>)
qed

lemma read_head_le:
  assumes "read_head parent p = Inr h"
  shows "case h of H_done rr \<Rightarrow> eats p rr | H_open n ps r \<Rightarrow> length r < length p"
proof (cases "skip_before (parent = None) p")
  case (Inl rr)
  then show ?thesis using assms skip_before_le(1)[OF Inl] by (auto simp: read_head_def)
next
  case (Inr q)
  have q: "length q < length p" using skip_before_le(2)[OF Inr] .
  have ea: "eats p rr" if "length (rest_of rr) \<le> length q" for rr
    using that q by (cases rr) (auto simp: eats_def)
  show ?thesis
  proof (cases q)
    case Nil
    then show ?thesis using assms Inr ea[of "RErr None []"] by (auto simp: read_head_def)
  next
    case (Cons c s)
    have on: "length (opened_rest (open_name [] (c # s))) \<le> length q" using open_name_le[of "[]" q] Cons by simp
    have ct: "length (rest_of (close_tag parent s)) \<le> length q" using close_tag_le[of parent s] Cons by simp
    show ?thesis
    proof (cases "c = CHR ''/''")
      case True
      then show ?thesis using assms Inr Cons ea[OF ct] by (auto simp: read_head_def)
    next
      case False
      show ?thesis
      proof (cases "open_name [] (c # s)")
        case (Head sep n r)
        then have r: "length r \<le> length q" using on by simp
        show ?thesis
        proof (cases "sep = CHR ''>''")
          case True
          then show ?thesis using assms Inr Cons False Head r q by (auto simp: read_head_def split: if_splits)
        next
          case ns: False
          obtain x where x: "read_params [] r = Inr x"
            using assms Inr Cons False Head ns by (auto simp: read_head_def split: if_splits sum.splits)
          then show ?thesis
            using assms Inr Cons False Head ns read_params_le[OF x] r q ea
            by (auto simp: read_head_def split: if_splits sum.splits)
        qed
      qed (use assms Inr Cons False on ea in \<open>auto simp: read_head_def split: if_splits\<close>)
    qed
  qed
qed

lemma read_le:
  "read_tag k parent p = Some (Inr rr) \<Longrightarrow> eats p rr"
  "read_subs k n ps ts p = Some (Inr rr) \<Longrightarrow> length (rest_of rr) \<le> length p"
proof (induction k parent p and k n ps ts p arbitrary: rr and rr rule: read_tag_read_subs.induct)
  case (2 k parent p)
  show ?case
  proof (cases "read_head parent p")
    case (Inr h)
    note h = read_head_le[OF Inr]
    show ?thesis
    proof (cases h)
      case (H_done r)
      then show ?thesis using "2.prems" Inr h by simp
    next
      case (H_open n ps r)
      then have "length (rest_of rr) \<le> length r" "length r < length p" using 2 Inr h by auto
      then show ?thesis by (cases rr) (auto simp: eats_def)
    qed
  qed (use "2.prems" in simp)
next
  case (4 k n ps ts p)
  obtain x where x: "read_tag k (Some n) p = Some (Inr x)"
    using "4.prems" by (auto split: option.splits sum.splits)
  have e: "eats p x" using "4.IH"(1)[OF x] .
  show ?case
  proof (cases x)
    case (ROk t r)
    have lr: "length r \<le> length p" using e ROk by (simp add: eats_def)
    show ?thesis
    proof (cases t)
      case None
      then show ?thesis using "4.prems" x ROk lr by auto
    next
      case (Some u)
      have "read_subs k n ps (ts @ [u]) r = Some (Inr rr)" using "4.prems" x ROk Some by simp
      then have "length (rest_of rr) \<le> length r" using "4.IH"(2)[of "Inr x" x t r u] x ROk Some by simp
      then show ?thesis using lr by simp
    qed
  next
    case (RErr t r)
    then show ?thesis using "4.prems" x e by (auto simp: eats_def)
  qed
qed simp_all

section \<open>Enough fuel\<close>

lemma read_enough:
  "2 * length p + 1 \<le> k \<Longrightarrow> read_tag k parent p \<noteq> None"
  "2 * length p + 2 \<le> k \<Longrightarrow> read_subs k n ps ts p \<noteq> None"
proof (induction k parent p and k n ps ts p rule: read_tag_read_subs.induct)
  case (2 k parent p)
  show ?case
  proof (cases "read_head parent p")
    case (Inr h)
    show ?thesis
    proof (cases h)
      case (H_open n ps r)
      then have "length r < length p" using read_head_le[OF Inr] by simp
      then have "2 * length r + 2 \<le> k" using "2.prems" by simp
      then show ?thesis using "2.IH" Inr H_open by simp
    qed (use Inr in simp)
  qed simp
next
  case (4 k n ps ts p)
  have "read_tag k (Some n) p \<noteq> None" using "4.IH"(1) "4.prems" by simp
  then obtain y where y: "read_tag k (Some n) p = Some y" by blast
  show ?case
  proof (cases y)
    case (Inr x)
    have e: "eats p x" using read_le(1) y Inr by blast
    show ?thesis
    proof (cases x)
      case (ROk t r)
      show ?thesis
      proof (cases t)
        case (Some u)
        have "length r < length p" using e ROk Some by (cases p) (auto simp: eats_def)
        then have "2 * length r + 2 \<le> k" using "4.prems" by simp
        then show ?thesis using "4.IH"(2)[of y x t r u] y Inr ROk Some by simp
      qed (use y Inr ROk in simp)
    qed (use y Inr in simp)
  qed (use y in simp)
qed simp_all

lemma read_more:
  "read_tag k parent p = Some x \<Longrightarrow> read_tag (Suc k) parent p = Some x"
  "read_subs k n ps ts p = Some x \<Longrightarrow> read_subs (Suc k) n ps ts p = Some x"
proof (induction k parent p and k n ps ts p arbitrary: x and x rule: read_tag_read_subs.induct)
  case (2 k parent p)
  then show ?case by (auto simp del: read_subs.simps split: sum.splits head.splits)
next
  case (4 k n ps ts p)
  obtain y where y: "read_tag k (Some n) p = Some y" using "4.prems" by (auto split: option.splits)
  then have y': "read_tag (Suc k) (Some n) p = Some y" using "4.IH"(1) by blast
  show ?case
  proof (cases "\<exists>u r. y = Inr (ROk (Some u) r)")
    case True
    then obtain u r where u: "y = Inr (ROk (Some u) r)" by blast
    then have "read_subs (Suc k) n ps (ts @ [u]) r = Some x" using "4.IH"(2)[of y _ _ r u x] "4.prems" y by simp
    then show ?thesis using y' u by (simp del: read_tag.simps)
  next
    case False
    then show ?thesis
      using "4.prems" y y' by (auto simp del: read_tag.simps split: sum.splits read_res.splits option.splits)
  qed
qed simp_all

lemma read_tag_fuel:
  assumes "2 * length p + 1 \<le> k"
  shows "read_tag k parent p = smlReadTag parent p"
proof -
  obtain x where x: "read_tag (2 * length p + 1) parent p = Some x"
    using read_enough(1)[of p "2 * length p + 1" parent] by (auto simp del: read_tag.simps)
  have more: "read_tag (2 * length p + 1 + j) parent p = Some x" for j
    by (induction j) (use x read_more(1) in \<open>auto simp del: read_tag.simps\<close>)
  obtain j where "k = 2 * length p + 1 + j" using assms le_Suc_ex by blast
  then show ?thesis using more[of j] more[of 1] by (simp add: smlReadTag_def del: read_tag.simps)
qed

definition smlReadSubs :: "string \<Rightarrow> sml_param list \<Rightarrow> sml_tag list \<Rightarrow> string \<Rightarrow> (read_res res) option" where
  "smlReadSubs n ps ts p = read_subs (2 * length p + 2) n ps ts p"

lemma read_subs_fuel:
  assumes "2 * length p + 2 \<le> k"
  shows "read_subs k n ps ts p = smlReadSubs n ps ts p"
proof -
  obtain x where x: "read_subs (2 * length p + 2) n ps ts p = Some x"
    using read_enough(2)[of p "2 * length p + 2" n ps ts] by (auto simp del: read_subs.simps)
  have more: "read_subs (2 * length p + 2 + j) n ps ts p = Some x" for j
    by (induction j) (use x read_more(2) in \<open>auto simp del: read_subs.simps\<close>)
  obtain j where "k = 2 * length p + 2 + j" using assms le_Suc_ex by blast
  then show ?thesis using more[of j] x by (simp add: smlReadSubs_def del: read_subs.simps)
qed

text \<open>The recursion of the code.\<close>

lemma smlReadTag_rec:
  "smlReadTag parent p =
     (case read_head parent p of
        Inl f \<Rightarrow> Some (Inl f)
      | Inr (H_done rr) \<Rightarrow> Some (Inr rr)
      | Inr (H_open n ps r) \<Rightarrow> smlReadSubs n ps [] r)"
proof -
  have "read_subs (2 * length p + 1) n ps [] r = smlReadSubs n ps [] r" if "read_head parent p = Inr (H_open n ps r)" for n ps r
    by (rule read_subs_fuel) (use read_head_le[OF that] in simp)
  then show ?thesis by (auto simp: smlReadTag_def split: sum.split head.split)
qed

lemma smlReadSubs_rec:
  "smlReadSubs n ps ts p =
     (case smlReadTag (Some n) p of
        None \<Rightarrow> None
      | Some (Inl f) \<Rightarrow> Some (Inl f)
      | Some (Inr (ROk (Some t) r)) \<Rightarrow> smlReadSubs n ps (ts @ [t]) r
      | Some (Inr (ROk None r)) \<Rightarrow> Some (Inr (ROk (Some (SML_TAG (Some n) ps ts)) (drop 1 r)))
      | Some (Inr (RErr _ r)) \<Rightarrow> Some (Inr (RErr (Some (SML_TAG (Some n) ps ts)) (drop 1 r))))"
proof -
  have t: "read_tag (2 * length p + 1) (Some n) p = smlReadTag (Some n) p" by (rule read_tag_fuel) simp
  have "read_subs (2 * length p + 1) n ps (ts @ [u]) r = smlReadSubs n ps (ts @ [u]) r"
    if "smlReadTag (Some n) p = Some (Inr (ROk (Some u) r))" for u r
  proof -
    have "eats p (ROk (Some u) r)" using that read_le(1) unfolding smlReadTag_def by blast
    then have "length r < length p" by (cases p) (auto simp: eats_def)
    then show ?thesis by (intro read_subs_fuel) simp
  qed
  moreover have "smlReadSubs n ps ts p = read_subs (Suc (2 * length p + 1)) n ps ts p" by (simp only: smlReadSubs_def) simp
  ultimately show ?thesis
    unfolding read_subs.simps(2) t by (simp del: read_subs.simps split: option.split sum.split read_res.split)
qed

section \<open>The tags of a text\<close>

lemma smlReadTag_shorter:
  assumes "smlReadTag parent p = Some (Inr (ROk t r))" "t \<noteq> None \<or> r \<noteq> []"
  shows "length r < length p"
  using read_le(1)[OF assms(1)[unfolded smlReadTag_def]] assms(2) by (cases p) (auto simp: eats_def)

definition RESULT_OK :: int where "RESULT_OK = 0"
definition RESULT_ERR :: int where "RESULT_ERR = 2"

function conv_loop :: "sml_tag list \<Rightarrow> string \<Rightarrow> ((int \<times> sml_tag option) res) option" where
  "conv_loop ts s =
     (case smlReadTag None s of
        None \<Rightarrow> None
      | Some (Inl f) \<Rightarrow> Some (Inl f)
      | Some (Inr (RErr _ r)) \<Rightarrow> Some (Inr (RESULT_ERR, None))
      | Some (Inr (ROk None r)) \<Rightarrow>
          if r \<noteq> [] then conv_loop ts r else Some (Inr (RESULT_OK, Some (SML_TAG (Some ''tagfile'') [] ts)))
      | Some (Inr (ROk (Some t) r)) \<Rightarrow> conv_loop (ts @ [t]) r)"
  by pat_completeness auto
termination
  by (relation "measure (\<lambda>(_, s). length s)") (use smlReadTag_shorter in fastforce)+

declare conv_loop.simps [simp del]

definition smlConvertStringToTag :: "string \<Rightarrow> ((int \<times> sml_tag option) res) option" where
  "smlConvertStringToTag s = (if s = [] then Some (Inl AssertFail) else conv_loop [] s)"

end
