(* ===== verification/Smlround.thy ===== *)
theory Smlround
  imports Smlread
begin

text \<open>
  Round trips of tag objects: a value survives encoding and decoding, and a tag object with usable
  names survives writing and reading.
\<close>

section \<open>Values\<close>

lemma show_hex_byte:
  assumes "n < 256"
  shows "show_hex n = (if n < 16 then [hex_digit n] else [hex_digit (n div 16), hex_digit (n mod 16)])"
proof -
  have "n div 16 < 16" using assms by simp
  then have "show_hex (n div 16) = [hex_digit (n div 16)]" by (subst show_hex.simps) simp
  then show ?thesis by (subst show_hex.simps) simp
qed

lemma hex_cases:
  assumes "d < 16"
  obtains "d = 0" | "d = 1" | "d = 2" | "d = 3" | "d = 4" | "d = 5" | "d = 6" | "d = 7" | "d = 8" | "d = 9" | "d = 10"
    | "d = 11" | "d = 12" | "d = 13" | "d = 14" | "d = (15 :: nat)"
  using assms by (auto simp: less_Suc_eq numeral_eq_Suc)

lemma hex_digit_props: "d < 16 \<Longrightarrow> is_hex (hex_digit d) \<and> hex_val (hex_digit d) = d \<and> hex_digit d \<noteq> CHR '';''"
  by (erule hex_cases) (simp_all add: hex_digit_def is_hex_def hex_val_def isdigit_def)

lemma enc_char_length: "length (enc_char c) \<le> 5" "enc_char c \<noteq> []"
  using nat_of_char_less_256[of c] by (auto simp: enc_char_def show_hex_byte)

lemma enc_loop_ok:
  "int (length out) \<le> len \<Longrightarrow> enc_loop s len out = Inr (out @ concat (map enc_char s))"
proof (induction s arbitrary: len out)
  case (Cons c s)
  define len' where "len' = (if len - int (length out) < 12 then len + (int (length s) + 1) * 2 + 12 else len)"
  have l: "int (length out) + 12 \<le> len'" using Cons.prems by (simp add: len'_def)
  have e: "length (enc_char c) \<le> 5" by (rule enc_char_length)
  have "enc_loop (c # s) len out = enc_loop s len' (out @ enc_char c)"
    using l e by (simp add: Let_def len'_def[symmetric])
  also have "\<dots> = Inr ((out @ enc_char c) @ concat (map enc_char s))" by (rule Cons.IH) (use l e in simp)
  finally show ?case by simp
qed simp

lemma encode_ok: "sml_XmlEncodeString s = Inr (concat (map enc_char s))"
  unfolding sml_XmlEncodeString_def using enc_loop_ok[of "[]" "int (length s) * 2" s] by simp

lemma collect_hex: "is_hex c \<Longrightarrow> c \<noteq> CHR '';'' \<Longrightarrow> collect_char cap c rs d = Inr (Fsms_collect (rs @ [c]), d)"
  by (simp add: collect_char_def)

lemma dec_reference:
  assumes "n < 256" "length d < cap"
  shows "dec_loop cap (''&#'' @ show_hex n @ '';'' @ r) Fsms_text d = dec_loop cap r Fsms_text (d @ [char_of n])"
proof -
  have m: "min n (2 ^ 64 - 1) = n" using assms(1) by simp
  have e: "collect_char cap (CHR '';'') rs d = Inr (Fsms_text, d @ [ref_char rs])" for rs
    using assms(2) by (simp add: collect_char_def dput_def)
  show ?thesis
  proof (cases "n < 16")
    case True
    have "ref_char [hex_digit n] = char_of n" using hex_digit_props[OF True] m by (simp add: ref_char_def read_hex_def)
    then show ?thesis using hex_digit_props[OF True] True assms by (simp add: show_hex_byte collect_hex e)
  next
    case False
    have d: "n div 16 < 16" "n mod 16 < 16" using assms(1) by simp_all
    have "ref_char [hex_digit (n div 16), hex_digit (n mod 16)] = char_of n"
      using hex_digit_props[OF d(1)] hex_digit_props[OF d(2)] m by (simp add: ref_char_def read_hex_def)
    then show ?thesis
      using hex_digit_props[OF d(1)] hex_digit_props[OF d(2)] False assms by (simp add: show_hex_byte collect_hex e)
  qed
qed

lemma dec_encoded:
  "length d + length (concat (map enc_char s)) \<le> cap \<Longrightarrow>
   dec_loop cap (concat (map enc_char s) @ r) Fsms_text d = dec_loop cap r Fsms_text (d @ s)"
proof (induction s arbitrary: d)
  case (Cons c s)
  have len: "length d < cap" "length (d @ [c]) + length (concat (map enc_char s)) \<le> cap"
    using Cons.prems enc_char_length[of c] by (cases "enc_char c"; simp)+
  have step: "dec_loop cap (enc_char c @ t) Fsms_text d = dec_loop cap t Fsms_text (d @ [c])" for t
  proof (cases "c \<in> set xml_plain")
    case True
    then have "c \<noteq> CHR ''&''" by (auto simp: xml_plain_def)
    then show ?thesis using True len(1) by (simp add: enc_char_def dput_def)
  next
    case False
    then show ?thesis using dec_reference[OF nat_of_char_less_256[of c] len(1), of t] by (simp add: enc_char_def)
  qed
  show ?case using step[of "concat (map enc_char s) @ r"] Cons.IH[OF len(2)] by simp
qed simp

lemma decode_encoded:
  assumes "NUL \<notin> set s"
  shows "sml_XmlDecodeString (concat (map enc_char s)) = Inr s"
proof -
  have "length s \<le> length (concat (map enc_char s))"
  proof (induction s)
    case (Cons c s)
    then show ?case using enc_char_length(2)[of c] by (cases "enc_char c") auto
  qed simp
  moreover have "takeWhile (\<lambda>c. c \<noteq> NUL) s = s" using assms by (simp add: takeWhile_eq_all_conv) metis
  ultimately show ?thesis
    using dec_encoded[of "[]" s "length (concat (map enc_char s))" "[]"] by (simp add: sml_XmlDecodeString_def)
qed

section \<open>Usable names\<close>

text \<open>Names that fit the array of the parser and have none of the characters it refuses.\<close>

definition tag_name_ok :: "string \<Rightarrow> bool" where
  "tag_name_ok n \<longleftrightarrow> n \<noteq> [] \<and> length n < MAX_SML_COMPONENT_LENGTH \<and> (\<forall>c \<in> set n. c \<notin> set close_bad \<and> c \<noteq> CHR ''>'')"

definition param_ok :: "sml_param \<Rightarrow> bool" where
  "param_ok p \<longleftrightarrow>
     (case p_name p of [] \<Rightarrow> False | c # n \<Rightarrow> c \<notin> set first_bad \<union> set '' />'' \<union> {TAB, NL} \<and> (\<forall>d \<in> set n. d \<notin> set name_bad \<and> d \<noteq> CHR ''='')) \<and>
     length (p_name p) < MAX_SML_COMPONENT_LENGTH \<and>
     NUL \<notin> set (p_value p) \<and> length (concat (map enc_char (p_value p))) < MAX_SML_COMPONENT_LENGTH"

primrec tag_ok :: "sml_tag \<Rightarrow> bool" where
  "tag_ok (SML_TAG nm ps ts) \<longleftrightarrow>
     (case nm of None \<Rightarrow> False | Some n \<Rightarrow> tag_name_ok n) \<and> list_all param_ok ps \<and> list_all id (map tag_ok ts)"

section \<open>The text of a tag\<close>

definition param_text :: "sml_param \<Rightarrow> string" where
  "param_text p = SP # p_name p @ ''='' @ CHR 0x22 # concat (map enc_char (p_value p)) @ [CHR 0x22]"

primrec tag_text :: "sml_tag \<Rightarrow> string" where
  "tag_text (SML_TAG nm ps ts) =
     (if ts = [] then ''<'' @ the nm @ concat (map param_text ps) @ ''/>'' @ [NL]
      else ''<'' @ the nm @ concat (map param_text ps) @ ''>'' @ [NL] @ concat (map tag_text ts) @ ''</'' @ the nm @ ''>'' @ [NL])"

lemma write_params_text: "write_params ps = Inr (concat (map param_text ps))"
  by (induction ps) (simp_all add: writeParamValue_def encode_ok param_text_def)

lemma write_tag_text: "tag_ok t \<Longrightarrow> writeSimpleTag t = Inr (tag_text t)"
proof (induction t)
  case (SML_TAG nm ps ts)
  obtain n where n: "nm = Some n" using SML_TAG.prems by (auto split: option.splits)
  have "foldr (\<lambda>x acc. rbind x (\<lambda>a. rbind acc (\<lambda>b. Inr (a @ b)))) (map writeSimpleTag ts) (Inr []) = Inr (concat (map tag_text ts))"
    using SML_TAG.IH SML_TAG.prems by (induction ts) (auto simp: list_all_iff)
  then show ?case by (simp add: n write_params_text)
qed

section \<open>Reading the text\<close>

lemma add_char_ok: "length acc + 1 < MAX_SML_COMPONENT_LENGTH \<Longrightarrow> add_char acc c = acc @ [c]"
  by (simp add: add_char_def)

lemma open_name_text:
  "length acc + length n < MAX_SML_COMPONENT_LENGTH \<Longrightarrow> \<forall>c \<in> set n. c \<notin> set close_bad \<and> c \<noteq> CHR ''>'' \<Longrightarrow>
   open_name acc (n @ q) = open_name (acc @ n) q"
proof (induction n arbitrary: acc)
  case (Cons c n)
  have "c \<notin> set open_bad" "c \<noteq> SP" "c \<noteq> TAB" "c \<noteq> NL" "c \<noteq> CHR ''/''" "c \<noteq> CHR ''>''"
    using Cons.prems(2) by (auto simp: open_bad_def close_bad_def)
  then show ?case using Cons by (simp add: add_char_ok)
qed simp

lemma close_name_text:
  "length acc + length n < MAX_SML_COMPONENT_LENGTH \<Longrightarrow> \<forall>c \<in> set n. c \<notin> set close_bad \<and> c \<noteq> CHR ''>'' \<Longrightarrow>
   close_name acc (n @ CHR ''>'' # q) = Inr (acc @ n, q)"
  by (induction n arbitrary: acc) (auto simp: add_char_ok)

lemma param_name_text:
  "length acc + length n < MAX_SML_COMPONENT_LENGTH \<Longrightarrow> \<forall>d \<in> set n. d \<notin> set name_bad \<and> d \<noteq> CHR ''='' \<Longrightarrow>
   param_name acc (n @ CHR ''='' # q) = Inr (acc @ n, q)"
proof (induction n arbitrary: acc)
  case Nil
  have "CHR ''='' \<notin> set name_bad" by (simp add: name_bad_def quotes_def)
  then show ?case by simp
qed (auto simp: add_char_ok)

lemma param_value_text:
  "length acc + length v < MAX_SML_COMPONENT_LENGTH \<Longrightarrow> CHR 0x22 \<notin> set v \<Longrightarrow> NL \<notin> set v \<Longrightarrow>
   param_value acc (v @ CHR 0x22 # q) = Inr (acc @ v, q)"
  by (induction v arbitrary: acc) (auto simp: add_char_ok)

lemma enc_char_safe: "CHR 0x22 \<notin> set (enc_char c)" "NL \<notin> set (enc_char c)"
proof -
  have "x \<noteq> CHR 0x22 \<and> x \<noteq> NL" if "x \<in> set (enc_char c)" for x
  proof (cases "c \<in> set xml_plain")
    case True
    then show ?thesis using that by (auto simp: enc_char_def xml_plain_def)
  next
    case False
    have h: "hex_digit d \<noteq> CHR 0x22 \<and> hex_digit d \<noteq> NL" if "d < 16" for d
      using hex_digit_props[OF that] by (auto simp: is_hex_def)
    have "(of_char c :: nat) div 16 < 16" using nat_of_char_less_256[of c] by linarith
    then show ?thesis
      using that False h nat_of_char_less_256[of c] by (auto simp: enc_char_def show_hex_byte split: if_splits)
  qed
  then show "CHR 0x22 \<notin> set (enc_char c)" "NL \<notin> set (enc_char c)" by auto
qed

lemma read_params_blank: "read_params ps (SP # x) = read_params ps x"
  by (subst (1 2) read_params.simps) simp

lemma read_params_text:
  assumes "\<forall>p \<in> set qs. param_ok p"
  shows "read_params ps (concat (map param_text qs) @ t) = read_params (ps @ qs) t"
  using assms
proof (induction qs arbitrary: ps)
  case (Cons q qs)
  define v where "v = concat (map enc_char (p_value q))"
  obtain c n where cn: "p_name q = c # n" "c \<notin> set first_bad" "c \<noteq> SP" "c \<noteq> CHR ''/''" "c \<noteq> CHR ''>''" "c \<noteq> TAB" "c \<noteq> NL"
      "\<forall>d \<in> set n. d \<notin> set name_bad \<and> d \<noteq> CHR ''=''" "length (c # n) < MAX_SML_COMPONENT_LENGTH"
      "NUL \<notin> set (p_value q)" "length v < MAX_SML_COMPONENT_LENGTH"
    using Cons.prems by (auto simp: param_ok_def v_def split: list.splits)
  let ?r = "concat (map param_text qs) @ t"
  have name: "param_name (add_char [] c) (n @ CHR ''='' # CHR 0x22 # v @ CHR 0x22 # ?r) = Inr (c # n, CHR 0x22 # v @ CHR 0x22 # ?r)"
    using param_name_text[of "[c]" n "CHR 0x22 # v @ CHR 0x22 # ?r"] cn(8,9) by (simp add: add_char_def)
  have "param_value [] (v @ CHR 0x22 # ?r) = Inr (v, ?r)"
    using param_value_text[of "[]" v ?r] cn(11) enc_char_safe by (auto simp: v_def)
  then have one: "one_param c (n @ CHR ''='' # CHR 0x22 # v @ CHR 0x22 # ?r) = Inr (c # n, v, ?r)"
    unfolding one_param_def name by simp
  have "read_params ps (concat (map param_text (q # qs)) @ t) =
      read_params ps (c # n @ CHR ''='' # CHR 0x22 # v @ CHR 0x22 # ?r)"
    using cn(1) by (simp add: param_text_def v_def read_params_blank)
  also have "\<dots> = read_params (ps @ [\<lparr>p_name = c # n, p_value = p_value q\<rparr>]) ?r"
    using cn one decode_encoded[OF cn(10)] by (subst read_params.simps) (simp add: v_def[symmetric])
  also have "\<dots> = read_params (ps @ q # qs) t"
    using Cons.IH[of "ps @ [q]"] Cons.prems cn(1)[symmetric] by (simp, cases q, simp)
  finally show ?case .
qed simp

lemma skip_text: "CHR ''<'' \<notin> set ws \<Longrightarrow> (ou \<longrightarrow> ws = []) \<Longrightarrow> skip_before ou (ws @ CHR ''<'' # q) = Inr q"
  by (induction ws) auto

lemma tag_name_first:
  assumes "tag_name_ok n"
  obtains c m where "n = c # m" "c \<noteq> CHR ''/''" "c \<noteq> CHR ''<''"
  using assms by (cases n) (auto simp: tag_name_ok_def close_bad_def)

text \<open>The opening tag, with \<open>/>\<close> or \<open>>\<close> at its end.\<close>

lemma read_head_text:
  assumes n: "tag_name_ok n" and ps: "\<forall>p \<in> set ps. param_ok p"
    and ws: "CHR ''<'' \<notin> set ws" "parent = None \<longrightarrow> ws = []"
  shows "read_head parent (ws @ CHR ''<'' # n @ concat (map param_text ps) @ ''/>'' @ r) =
      Inr (H_done (ROk (Some (SML_TAG (Some n) ps [])) r))"
    "read_head parent (ws @ CHR ''<'' # n @ concat (map param_text ps) @ CHR ''>'' # r) = Inr (H_open n ps r)"
proof -
  obtain c m where c: "n = c # m" "c \<noteq> CHR ''/''" "c \<noteq> CHR ''<''" using tag_name_first[OF n] .
  have ne: "n \<noteq> []" using c by simp
  have skip: "skip_before (parent = None) (ws @ CHR ''<'' # q) = Inr q" for q using skip_text ws by simp
  have head: "read_head parent (ws @ CHR ''<'' # n @ q) =
      (case open_name n q of
            Bad_name r \<Rightarrow> Inr (H_done (RErr None r))
          | Closed n r \<Rightarrow> Inr (H_done (ROk (Some (SML_TAG (Some n) [] [])) r))
          | Head sep n r \<Rightarrow>
              if n = [] then Inl AssertFail
              else if sep = CHR ''>'' then Inr (H_open n [] r)
              else (case read_params [] r of
                Inl f \<Rightarrow> Inl f
              | Inr (Inl r1) \<Rightarrow> Inr (H_done (RErr None r1))
              | Inr (Inr (closed, ps, r1)) \<Rightarrow>
                  Inr (if closed then H_done (ROk (Some (SML_TAG (Some n) ps [])) r1) else H_open n ps r1)))" for q
    using open_name_text[of "[]" n q] n c unfolding read_head_def skip by (simp add: tag_name_ok_def del: open_name.simps)
  have bad: "CHR ''/'' \<notin> set first_bad" "CHR ''/'' \<notin> set open_bad" "CHR ''>'' \<notin> set first_bad"
    by (simp_all add: first_bad_def open_bad_def quotes_def)
  show "read_head parent (ws @ CHR ''<'' # n @ concat (map param_text ps) @ ''/>'' @ r) =
      Inr (H_done (ROk (Some (SML_TAG (Some n) ps [])) r))"
  proof (cases ps)
    case Nil
    then show ?thesis unfolding head using ne bad by (simp add: slash_close_def)
  next
    case (Cons p qs)
    obtain x where x: "param_text p = SP # x" by (simp add: param_text_def)
    have "read_params [] (x @ concat (map param_text qs) @ ''/>'' @ r) = read_params ps (''/>'' @ r)"
      using read_params_text[OF ps, of "[]" "''/>'' @ r"] Cons x by (simp add: read_params_blank)
    moreover have "read_params ps (''/>'' @ r) = Inr (Inr (True, ps, r))"
      using bad by (subst read_params.simps) (simp add: slash_close_def)
    ultimately show ?thesis unfolding head using ne Cons x by simp
  qed
  show "read_head parent (ws @ CHR ''<'' # n @ concat (map param_text ps) @ CHR ''>'' # r) = Inr (H_open n ps r)"
  proof (cases ps)
    case Nil
    then show ?thesis unfolding head using ne by simp
  next
    case (Cons p qs)
    obtain x where x: "param_text p = SP # x" by (simp add: param_text_def)
    have "read_params [] (x @ concat (map param_text qs) @ CHR ''>'' # r) = read_params ps (CHR ''>'' # r)"
      using read_params_text[OF ps, of "[]" "CHR ''>'' # r"] Cons x by (simp add: read_params_blank)
    moreover have "read_params ps (CHR ''>'' # r) = Inr (Inr (False, ps, r))"
      using bad by (subst read_params.simps) simp
    ultimately show ?thesis unfolding head using ne Cons x by simp
  qed
qed

lemma read_close_text:
  assumes "tag_name_ok n" "CHR ''<'' \<notin> set ws"
  shows "smlReadTag (Some n) (ws @ ''</'' @ n @ ''>'' @ r) = Some (Inr (ROk None r))"
proof -
  have "read_head (Some n) (ws @ ''</'' @ n @ ''>'' @ r) = Inr (H_done (close_tag (Some n) (n @ CHR ''>'' # r)))"
    using skip_text[of ws False "CHR ''/'' # n @ CHR ''>'' # r"] assms(2) by (simp add: read_head_def)
  moreover have "close_tag (Some n) (n @ CHR ''>'' # r) = ROk None r"
    using close_name_text[of "[]" n r] assms(1) by (auto simp: close_tag_def tag_name_ok_def)
  ultimately show ?thesis by (simp add: smlReadTag_rec)
qed

text \<open>A tag is read from its text, behind other characters inside a tag; its last newline is left when it has no subtags.\<close>

lemma read_tag_text:
  "tag_ok t \<Longrightarrow> CHR ''<'' \<notin> set ws \<Longrightarrow> (parent = None \<longrightarrow> ws = []) \<Longrightarrow>
   smlReadTag parent (ws @ tag_text t @ r) = Some (Inr (ROk (Some t) (if tag_tags t = [] then NL # r else r)))"
proof (induction t arbitrary: parent ws r)
  case (SML_TAG nm ps ts)
  obtain n where n: "nm = Some n" "tag_name_ok n" using SML_TAG.prems(1) by (auto split: option.splits)
  have ps: "\<forall>p \<in> set ps. param_ok p" and ts: "\<forall>t \<in> set ts. tag_ok t" using SML_TAG.prems(1) by (auto simp: list_all_iff)
  show ?case
  proof (cases "ts = []")
    case True
    have "ws @ tag_text (SML_TAG nm ps ts) @ r = ws @ CHR ''<'' # n @ concat (map param_text ps) @ ''/>'' @ (NL # r)"
      by (simp add: True n)
    then show ?thesis
      using read_head_text(1)[OF n(2) ps SML_TAG.prems(2,3), of "NL # r"] True n by (simp add: smlReadTag_rec)
  next
    case False
    have subs: "smlReadSubs n ps acc (vs @ concat (map tag_text us) @ ''</'' @ n @ ''>'' @ NL # r) =
        Some (Inr (ROk (Some (SML_TAG (Some n) ps (acc @ us))) r))"
      if "set us \<subseteq> set ts" "CHR ''<'' \<notin> set vs" for acc us vs
      using that
    proof (induction us arbitrary: acc vs)
      case Nil
      then show ?case using read_close_text[OF n(2), of vs "NL # r"] by (simp add: smlReadSubs_rec)
    next
      case (Cons u us)
      define q where "q = concat (map tag_text us) @ ''</'' @ n @ ''>'' @ NL # r"
      define w where "w = (if tag_tags u = [] then [NL] else [])"
      have "smlReadTag (Some n) (vs @ tag_text u @ q) = Some (Inr (ROk (Some u) (w @ q)))"
        using SML_TAG.IH[of u vs "Some n" q] Cons.prems ts by (auto simp: w_def)
      then have "smlReadSubs n ps acc (vs @ tag_text u @ q) = smlReadSubs n ps (acc @ [u]) (w @ q)"
        by (simp add: smlReadSubs_rec[of n ps acc])
      also have "\<dots> = Some (Inr (ROk (Some (SML_TAG (Some n) ps ((acc @ [u]) @ us))) r))"
        unfolding q_def by (rule Cons.IH) (use Cons.prems in \<open>auto simp: w_def\<close>)
      finally show ?case by (simp add: q_def)
    qed
    define q where "q = [NL] @ concat (map tag_text ts) @ ''</'' @ n @ ''>'' @ NL # r"
    have "ws @ tag_text (SML_TAG nm ps ts) @ r = ws @ CHR ''<'' # n @ concat (map param_text ps) @ CHR ''>'' # q"
      using False by (simp add: n q_def)
    moreover have "smlReadSubs n ps [] q = Some (Inr (ROk (Some (SML_TAG nm ps ts)) r))"
      using subs[of ts "[NL]" "[]"] by (simp add: q_def n)
    ultimately show ?thesis
      using read_head_text(2)[OF n(2) ps SML_TAG.prems(2,3), of q] False by (simp add: smlReadTag_rec)
  qed
qed

lemma conv_text:
  assumes "tag_ok t"
  shows "smlConvertStringToTag (tag_text t) = Some (Inr (RESULT_OK, Some (SML_TAG (Some ''tagfile'') [] [t])))"
proof -
  have ne: "tag_text t \<noteq> []" by (cases t) simp
  have "conv_loop [] (tag_text t) = conv_loop [t] (if tag_tags t = [] then [NL] else [])"
    using read_tag_text[OF assms, of "[]" None "[]"] by (subst conv_loop.simps) simp
  also have "\<dots> = Some (Inr (RESULT_OK, Some (SML_TAG (Some ''tagfile'') [] [t])))"
    by (subst conv_loop.simps) (simp add: smlReadTag_rec read_head_def)
  finally show ?thesis using ne by (simp add: smlConvertStringToTag_def)
qed

end
