(* ===== verification/Smlprops.thy ===== *)
theory Smlprops
  imports Smlround
begin

text \<open>
  Properties of tag objects: round trips, termination of the parser, the parameters of a tag as a map,
  and the file status kept in a tag.
\<close>

section \<open>Parameters as a map\<close>

datatype param_op = Set_param string string | Del_param string

fun param_step :: "param_op \<Rightarrow> sml_tag \<Rightarrow> sml_tag res" where
  "param_step (Set_param n v) t = smlSetParam (Some t) n v"
| "param_step (Del_param n) t = smlDelParam (Some t) n"

fun param_spec :: "param_op \<Rightarrow> (string \<rightharpoonup> string) \<Rightarrow> (string \<rightharpoonup> string)" where
  "param_spec (Set_param n v) m = m(n \<mapsto> v)"
| "param_spec (Del_param n) m = m(n := None)"

fun op_name :: "param_op \<Rightarrow> string" where
  "op_name (Set_param n v) = n"
| "op_name (Del_param n) = n"

text \<open>The names of the parameters differ, and the map has their values.\<close>

definition params_rel :: "sml_tag \<Rightarrow> (string \<rightharpoonup> string) \<Rightarrow> bool" where
  "params_rel t m \<longleftrightarrow> tag_name t \<noteq> None \<and> distinct (map p_name (tag_params t)) \<and>
     m = map_of (map (\<lambda>p. (p_name p, p_value p)) (tag_params t))"

lemma find_param_map: "map_option p_value (find_param nm ps) = map_of (map (\<lambda>p. (p_name p, p_value p)) ps) nm"
  unfolding find_param_def by (induction ps) auto

lemma put_param_names: "p_name ` set (put_param n v ps) = insert n (p_name ` set ps)"
  by (induction ps) auto

lemma put_param_map:
  assumes "distinct (map p_name ps)"
  shows "distinct (map p_name (put_param n v ps)) \<and>
    map_of (map (\<lambda>p. (p_name p, p_value p)) (put_param n v ps)) = (map_of (map (\<lambda>p. (p_name p, p_value p)) ps))(n \<mapsto> v)"
  using assms
proof (induction ps)
  case (Cons p ps)
  show ?case
  proof (cases "p_name p = n")
    case True
    then show ?thesis using Cons.prems by auto
  next
    case False
    then show ?thesis using Cons put_param_names[of n v ps] by (auto simp: fun_upd_twist)
  qed
qed simp

lemma del_param_names: "p_name ` set (del_param n ps) \<subseteq> p_name ` set ps"
  by (induction ps) auto

lemma del_param_map:
  assumes "distinct (map p_name ps)"
  shows "distinct (map p_name (del_param n ps)) \<and>
    map_of (map (\<lambda>p. (p_name p, p_value p)) (del_param n ps)) = (map_of (map (\<lambda>p. (p_name p, p_value p)) ps))(n := None)"
  using assms
proof (induction ps)
  case (Cons p ps)
  show ?case
  proof (cases "p_name p = n")
    case True
    then have "map_of (map (\<lambda>p. (p_name p, p_value p)) ps) n = None"
      using Cons.prems by (auto simp: map_of_eq_None_iff)
    then show ?thesis using True Cons.prems by auto
  next
    case False
    then show ?thesis using Cons del_param_names[of n ps] by (auto simp: fun_upd_twist)
  qed
qed simp

interpretation params: simulation params_rel param_step param_spec "\<lambda>c m. op_name c \<noteq> []"
proof
  fix t m c
  assume a: "params_rel t m" "op_name c \<noteq> []"
  show "\<exists>t'. param_step c t = Inr t' \<and> params_rel t' (param_spec c m)"
  proof (cases c)
    case (Set_param n v)
    then show ?thesis
      using a put_param_map[of "tag_params t" n v] by (auto simp: smlSetParam_def params_rel_def set_params_def)
  next
    case (Del_param n)
    then show ?thesis
      using a del_param_map[of "tag_params t" n] by (auto simp: smlDelParam_def params_rel_def set_params_def)
  qed
qed

text \<open>
  C24. The parameters of a tag object refine a map: after any sequence of \<open>smlSetParam\<close> and \<open>smlDelParam\<close> with names
  that are not empty, on a new tag object, \<open>smlGetParam\<close> finds under each name the value the map has there and
  nothing else, and the number of parameters is that of the names in the map.
\<close>

theorem sml_params_refine:
  assumes "nm \<noteq> []" "\<forall>c \<in> set ops. op_name c \<noteq> []"
  shows "\<exists>t. rbind (smlNewTag (Some nm)) (run_ops param_step ops) = Inr t \<and>
     (\<forall>n. n \<noteq> [] \<longrightarrow> smlGetParam (Some t) n = Inr (fold param_spec ops Map.empty n)) \<and>
     smlGetNumParams (Some t) = card (dom (fold param_spec ops Map.empty))"
proof -
  have "ops_ok (\<lambda>c m. op_name c \<noteq> []) param_spec cs m" if "\<forall>c \<in> set cs. op_name c \<noteq> []" for cs m
    using that by (induction cs arbitrary: m) auto
  moreover have "params_rel (SML_TAG (Some nm) [] []) Map.empty" by (simp add: params_rel_def)
  ultimately obtain t where t: "run_ops param_step ops (SML_TAG (Some nm) [] []) = Inr t"
    "params_rel t (fold param_spec ops Map.empty)"
    using params.run assms(2) by blast
  have d: "distinct (map p_name (tag_params t))"
    and m: "fold param_spec ops Map.empty = map_of (map (\<lambda>p. (p_name p, p_value p)) (tag_params t))"
    using t(2) by (auto simp: params_rel_def)
  have "smlGetParam (Some t) n = Inr (fold param_spec ops Map.empty n)" if "n \<noteq> []" for n
    using that find_param_map[of n "tag_params t"] m by (simp add: smlGetParam_def)
  moreover have "card (dom (fold param_spec ops Map.empty)) = length (tag_params t)"
    using distinct_card[OF d] unfolding m dom_map_of_conv_image_fst by (simp add: image_image)
  ultimately show ?thesis using t(1) assms(1) by (auto simp: smlNewTag_def smlGetNumParams_def)
qed

theorem sml_params_refine_witness:
  "\<exists>t. rbind (smlNewTag (Some ''zone'')) (run_ops param_step [Set_param ''a'' ''1'', Set_param ''b'' ''2'', Set_param ''a'' ''3'', Del_param ''b'']) = Inr t \<and>
     smlGetParam (Some t) ''a'' = Inr (Some ''3'') \<and> smlGetParam (Some t) ''b'' = Inr None \<and> smlGetNumParams (Some t) = 1"
proof -
  let ?ops = "[Set_param ''a'' ''1'', Set_param ''b'' ''2'', Set_param ''a'' ''3'', Del_param ''b'']"
  have f: "fold param_spec ?ops Map.empty = [''a'' \<mapsto> ''3'']" by (auto simp: fun_eq_iff)
  then have "card (dom (fold param_spec ?ops Map.empty)) = 1" by simp
  then show ?thesis using sml_params_refine[of "''zone''" ?ops] unfolding f by auto
qed

section \<open>Text\<close>

text \<open>
  C7. A tag object survives its text: for a tag object with names the parser accepts, of any depth, with any
  parameter values that fit, \<open>smlConvertTagToString\<close> gives a text from which \<open>smlConvertStringToTag\<close> makes the same
  tag object again, with all parameters and subtags in their order, below its tag \<open>tagfile\<close>.
\<close>

theorem sml_text_roundtrip:
  assumes "tag_ok t"
  shows "\<exists>s. smlConvertTagToString (Some t) = Inr s \<and>
     smlConvertStringToTag s = Some (Inr (RESULT_OK, Some (SML_TAG (Some ''tagfile'') [] [t])))"
  using write_tag_text[OF assms] conv_text[OF assms] by (simp add: smlConvertTagToString_def)

definition demo_tag :: sml_tag where
  "demo_tag = SML_TAG (Some ''environmentConditionInformation'') []
     [SML_TAG (Some ''parentZone'') [\<lparr>p_name = ''zoneName'', p_value = ''a&b'' @ [CHR 0x22, NL]\<rparr>, \<lparr>p_name = ''zoneType'', p_value = []\<rparr>] [],
      SML_TAG (Some ''currentZone'') [\<lparr>p_name = ''zoneName'', p_value = ''global''\<rparr>] [SML_TAG (Some ''x'') [] []]]"

lemma demo_tag_ok: "tag_ok demo_tag"
  by (simp add: demo_tag_def tag_name_ok_def param_ok_def MAX_SML_COMPONENT_LENGTH_def close_bad_def first_bad_def name_bad_def quotes_def
      enc_char_def xml_plain_def show_hex.simps)

theorem sml_text_roundtrip_witness:
  "\<exists>s. smlConvertTagToString (Some demo_tag) = Inr s \<and>
     smlConvertStringToTag s = Some (Inr (RESULT_OK, Some (SML_TAG (Some ''tagfile'') [] [demo_tag])))"
  by (rule sml_text_roundtrip[OF demo_tag_ok])

text \<open>
  C25. Encoding a parameter value never writes outside its growing buffer, takes at most five characters for each
  one, leaves neither quotes nor newlines, and decoding gives the value back.
\<close>

theorem sml_value_roundtrip:
  assumes "NUL \<notin> set v"
  shows "\<exists>e. sml_XmlEncodeString v = Inr e \<and> length e \<le> 5 * length v \<and> CHR 0x22 \<notin> set e \<and> NL \<notin> set e \<and>
     sml_XmlDecodeString e = Inr v"
proof -
  have "length (concat (map enc_char v)) \<le> 5 * length v"
  proof (induction v)
    case (Cons c v)
    then show ?case using enc_char_length(1)[of c] by simp
  qed simp
  then show ?thesis using encode_ok[of v] decode_encoded[OF assms] enc_char_safe by auto
qed

theorem sml_value_roundtrip_witness:
  "\<exists>e. sml_XmlEncodeString [CHR 0x22, CHR 0xFF] = Inr e \<and> length e \<le> 10 \<and> CHR 0x22 \<notin> set e \<and> NL \<notin> set e \<and>
     sml_XmlDecodeString e = Inr [CHR 0x22, CHR 0xFF]"
  using sml_value_roundtrip[of "[CHR 0x22, CHR 0xFF]"] by simp

text \<open>
  C36. Reading ends on every text: \<open>_smlReadTag\<close> inside or outside a tag, and \<open>smlConvertStringToTag\<close>, whose loop goes
  on after a blank line, return a tag object, an error or a fault.
\<close>

theorem sml_reading_ends:
  "(\<exists>r. smlReadTag parent s = Some r) \<and> (\<exists>r. smlConvertStringToTag s = Some r)"
proof
  have total: "\<exists>r. smlReadTag q p = Some r" for q p
    using read_enough(1)[of p "2 * length p + 2" q] by (auto simp: smlReadTag_def simp del: read_tag.simps)
  then show "\<exists>r. smlReadTag parent s = Some r" .
  have "\<exists>r. conv_loop ts p = Some r" for ts p
  proof (induction ts p rule: conv_loop.induct)
    case (1 ts p)
    then show ?case using total[of None p] by (subst conv_loop.simps) (auto split: sum.splits read_res.splits option.splits)
  qed
  then show "\<exists>r. smlConvertStringToTag s = Some r" by (simp add: smlConvertStringToTag_def)
qed

text \<open>
  A character reference without digits overruns the buffer: after \<open>&#\<close> and a character that is neither a digit nor the
  semicolon that follows later, \<open>sml_XmlDecodeString\<close> copies with the length 0 - 1, and the terminator is repeated
  to the end of memory. A parameter value with such text does this to the parser.
\<close>

theorem sml_decode_overruns:
  assumes "CHR ''&'' \<notin> set a" "\<not> is_hex c" "c \<noteq> CHR '';''" "CHR '';'' \<in> set s"
  shows "sml_XmlDecodeString (a @ ''&#'' @ c # s) = Inl BufOverrun"
proof -
  define cap where "cap = length (a @ ''&#'' @ c # s)"
  have plain: "dec_loop cap (b @ q) Fsms_text d = dec_loop cap q Fsms_text (d @ b)"
    if "CHR ''&'' \<notin> set b" "length d + length b \<le> cap" for b q d
    using that by (induction b arbitrary: d) (auto simp: dput_def)
  have "dec_loop cap (a @ ''&#'' @ c # s) Fsms_text [] = dec_loop cap (''&#'' @ c # s) Fsms_text a"
    using plain[of a "[]"] assms(1) by (simp add: cap_def)
  also have "\<dots> = Inl BufOverrun" using assms(2-4) by (simp add: collect_char_def dput_def cap_def)
  finally show ?thesis by (simp add: sml_XmlDecodeString_def cap_def)
qed

theorem sml_decode_overruns_witness: "sml_XmlDecodeString ''x&#z1;'' = Inl BufOverrun"
  using sml_decode_overruns[of "''x''" "CHR ''z''" "''1;''"] by (simp add: is_hex_def)

text \<open>Two opening characters in a row fail an assertion, as does a blank after one.\<close>

theorem sml_double_open_asserts: "smlReadTag parent (''<<'' @ r) = Some (Inl AssertFail)" "smlReadTag parent (''< '' @ r) = Some (Inl AssertFail)"
  by (simp_all add: smlReadTag_rec read_head_def)

end
