(* ===== verification/Smlstat.thy ===== *)
theory Smlstat
  imports Smlround
begin

text \<open>
  The file status that programs keep in a tag: what \<open>smlSetFileStatInfo\<close> stores is what \<open>smlFstatCompareEq\<close>
  compares with.
\<close>

section \<open>Hexadecimal numbers\<close>

lemma hex_digit_values: "\<forall>n < 16. \<forall>k < 16. hex_digit n = hex_digit k \<longrightarrow> n = k" "\<forall>n < 16. to_lower (hex_digit n) = hex_digit n"
  unfolding hex_digit_def to_lower_def isupper_def by code_simp+

lemma show_hex_inject: "show_hex n = show_hex k \<Longrightarrow> n = k"
proof (induction n arbitrary: k rule: show_hex.induct)
  case (1 n)
  have ne: "show_hex q \<noteq> []" for q by (subst show_hex.simps) simp
  have d: "n mod 16 = k mod 16"
  proof -
    have "last (show_hex q) = hex_digit (q mod 16)" for q by (subst show_hex.simps) simp
    then have "hex_digit (n mod 16) = hex_digit (k mod 16)" using "1.prems" by metis
    then show ?thesis using hex_digit_values(1) by simp
  qed
  have b: "butlast (show_hex q) = (if q < 16 then [] else show_hex (q div 16))" for q by (subst show_hex.simps) simp
  show ?case
  proof (cases "n < 16")
    case True
    then have "k < 16" using b[of n] b[of k] ne[of "k div 16"] "1.prems" by (auto split: if_splits)
    then show ?thesis using True d by simp
  next
    case False
    then have k: "\<not> k < 16" using b[of n] b[of k] ne[of "n div 16"] "1.prems" by (auto split: if_splits)
    then have "n div 16 = k div 16" using "1.IH"[OF False, of "k div 16"] False b[of n] b[of k] "1.prems" by simp
    then show ?thesis using d by (metis div_mult_mod_eq)
  qed
qed

lemma show_hex_lower: "map to_lower (show_hex n) = show_hex n"
proof (induction n rule: show_hex.induct)
  case (1 n)
  then show ?case using hex_digit_values(2) by (subst (1 2) show_hex.simps) auto
qed

lemma hex_text_case [simp]: "strcaseeq (hex_text a) (hex_text b) \<longleftrightarrow> a = b"
  using show_hex_inject by (auto simp: strcaseeq_def hex_text_def show_hex_lower word_unat_eq_iff)

lemma hex_text_nonempty [simp]: "hex_text w \<noteq> []"
  by (simp add: hex_text_def)

section \<open>The tag with the status\<close>

lemma tag_search_none:
  assumes "\<forall>u \<in> set ts. tag_name u \<noteq> None \<and> tag_name u \<noteq> Some nm"
  shows "tag_search nm 0 k ts = Inr None"
  using assms by (induction ts arbitrary: k) (auto simp: streq_def)

lemma tag_search_found:
  assumes "\<forall>u \<in> set xs. tag_name u \<noteq> None \<and> tag_name u \<noteq> Some nm" "tag_name y = Some nm"
  shows "tag_search nm 0 k (xs @ y # ys) = Inr (Some (Sub (k + length xs)))"
  using assms by (induction xs arbitrary: k) (auto simp: streq_def)

lemma by_name_none:
  assumes "tag_name t = Some n" "n \<noteq> nm" "\<forall>u \<in> set (tag_tags t). tag_name u \<noteq> None \<and> tag_name u \<noteq> Some nm"
  shows "smlGetTagByName (Some t) 0 nm = Inr None"
  using assms tag_search_none[OF assms(3)] by (auto simp: smlGetTagByName_def streq_def)

lemma by_name_found:
  assumes "tag_name t = Some n" "n \<noteq> nm" "tag_tags t = xs @ y # ys" "tag_name y = Some nm"
    "\<forall>u \<in> set xs. tag_name u \<noteq> None \<and> tag_name u \<noteq> Some nm"
  shows "smlGetTagByName (Some t) 0 nm = Inr (Some (Sub (length xs)))"
  using assms tag_search_found[OF assms(5,4), of 0 ys] by (simp add: smlGetTagByName_def streq_def)

text \<open>A tag with its own name, named subtags, and the status at most once.\<close>

definition stat_holder :: "sml_tag \<Rightarrow> bool" where
  "stat_holder t \<longleftrightarrow> tag_name t \<noteq> None \<and> tag_name t \<noteq> Some fileStatInfoTag \<and> None \<notin> tag_name ` set (tag_tags t) \<and>
     length (filter (\<lambda>u. tag_name u = Some fileStatInfoTag) (tag_tags t)) \<le> 1"

definition other_tags :: "sml_tag \<Rightarrow> sml_tag list" where
  "other_tags t = filter (\<lambda>u. tag_name u \<noteq> Some fileStatInfoTag) (tag_tags t)"

lemma find_and_del:
  assumes "stat_holder t"
  shows "\<exists>b. smlFindAndDelTag (Some t) fileStatInfoTag = Inr (b, Some (set_tags (other_tags t) t))"
proof -
  let ?F = "Some fileStatInfoTag"
  obtain n where n: "tag_name t = Some n" "n \<noteq> fileStatInfoTag" using assms by (auto simp: stat_holder_def)
  have ne: "fileStatInfoTag \<noteq> []" by (simp add: fileStatInfoTag_def)
  have named: "\<forall>u \<in> set (tag_tags t). tag_name u \<noteq> None" using assms by (force simp: stat_holder_def)
  show ?thesis
  proof (cases "\<exists>y \<in> set (tag_tags t). tag_name y = ?F")
    case True
    then obtain xs y ys where s: "tag_tags t = xs @ y # ys" "tag_name y = ?F" "\<forall>u \<in> set xs. tag_name u \<noteq> ?F"
      using split_list_first_prop[of "tag_tags t" "\<lambda>y. tag_name y = ?F"] by auto
    have "filter (\<lambda>u. tag_name u = ?F) ys = []" using assms s by (simp add: stat_holder_def)
    then have "other_tags t = xs @ ys" using s by (auto simp: other_tags_def filter_empty_conv)
    moreover have "smlGetTagByName (Some t) 0 fileStatInfoTag = Inr (Some (Sub (length xs)))"
      by (rule by_name_found[OF n s(1,2)]) (use s named in auto)
    ultimately have "smlFindAndDelTag (Some t) fileStatInfoTag = Inr (True, Some (set_tags (other_tags t) t))"
      using ne s(1) by (simp add: smlFindAndDelTag_def smlDelTag_def)
    then show ?thesis by blast
  next
    case False
    then have o: "other_tags t = tag_tags t" by (auto simp: other_tags_def filter_id_conv)
    have "smlGetTagByName (Some t) 0 fileStatInfoTag = Inr None" by (rule by_name_none[OF n]) (use False named in auto)
    then have "smlFindAndDelTag (Some t) fileStatInfoTag = Inr (False, Some (set_tags (other_tags t) t))"
      using ne o by (cases t) (simp add: smlFindAndDelTag_def set_tags_def)
    then show ?thesis by blast
  qed
qed

definition stat_params :: "file_stat \<Rightarrow> string option \<Rightarrow> sml_param list" where
  "stat_params st path = (case path of None \<Rightarrow> [] | Some p \<Rightarrow> [\<lparr>p_name = ''st_path'', p_value = p\<rparr>]) @
     map (\<lambda>(n, f). \<lparr>p_name = n, p_value = hex_text (f st)\<rparr>) stat_fields"

lemma set_stat_info:
  assumes "stat_holder t"
  shows "smlSetFileStatInfo (Some t) (Some st) path =
    Inr (Some (set_tags (SML_TAG (Some fileStatInfoTag) (stat_params st path) [] # other_tags t) t))"
proof -
  obtain n where n: "tag_name t = Some n" "n \<noteq> fileStatInfoTag" using assms by (auto simp: stat_holder_def)
  have o: "\<forall>u \<in> set (other_tags t). tag_name u \<noteq> None \<and> tag_name u \<noteq> Some fileStatInfoTag"
    using assms by (force simp: stat_holder_def other_tags_def)
  obtain b where f: "smlFindAndDelTag (Some t) fileStatInfoTag = Inr (b, Some (set_tags (other_tags t) t))"
    using find_and_del[OF assms] by blast
  have g1: "smlGetTagByName (Some (set_tags (other_tags t) t)) 0 fileStatInfoTag = Inr None"
    by (rule by_name_none[of _ n]) (use n o in \<open>auto simp: set_tags_def\<close>)
  have g2: "smlGetTagByName (Some (set_tags (SML_TAG (Some fileStatInfoTag) ps [] # other_tags t) t)) 0 fileStatInfoTag = Inr (Some (Sub 0))" for ps
    using by_name_found[of "set_tags (SML_TAG (Some fileStatInfoTag) ps [] # other_tags t) t" n fileStatInfoTag "[]"] n
    by (simp add: set_tags_def)
  have a: "smlAddTag (Some (set_tags (other_tags t) t)) 0 (Some (SML_TAG (Some fileStatInfoTag) [] [])) =
      Inr (Some (set_tags (SML_TAG (Some fileStatInfoTag) [] [] # other_tags t) t), Some 0)"
    by (simp add: smlAddTag_def set_tags_def)
  have nt: "smlNewTag (Some fileStatInfoTag) = Inr (SML_TAG (Some fileStatInfoTag) [] [])"
    by (simp add: smlNewTag_def fileStatInfoTag_def)
  show ?thesis
    unfolding smlSetFileStatInfo_def
    by (cases path) (simp add: f g1 g2 a nt,
        simp add: set_tags_def stat_params_def stat_fields_def smlSetParamF_def smlSetParam_def set_params_def)+
qed

lemma stat_param:
  assumes "stat_holder t" "nm \<noteq> []"
  shows "smlParamEq (Some (set_tags (SML_TAG (Some fileStatInfoTag) ps [] # ts) t)) fileStatInfoTag nm s =
    Inr (case find_param nm ps of None \<Rightarrow> False | Some p \<Rightarrow> strcaseeq s (p_value p))"
proof -
  obtain n where n: "tag_name t = Some n" "n \<noteq> fileStatInfoTag" using assms by (auto simp: stat_holder_def)
  have "smlGetTagByName (Some (set_tags (SML_TAG (Some fileStatInfoTag) ps [] # ts) t)) 0 fileStatInfoTag = Inr (Some (Sub 0))"
    using by_name_found[of "set_tags (SML_TAG (Some fileStatInfoTag) ps [] # ts) t" n fileStatInfoTag "[]"] n
    by (simp add: set_tags_def)
  then show ?thesis using assms(2) by (simp add: smlParamEq_def smlGetParam_def set_tags_def split: option.split)
qed

lemma compare_stored:
  assumes "stat_holder t"
  shows "smlFstatCompareEq (Some b) (Some (set_tags (SML_TAG (Some fileStatInfoTag) (stat_params a path) [] # ts) t)) other =
    Inr ((case other of None \<Rightarrow> True | Some q \<Rightarrow> (case path of None \<Rightarrow> False | Some p \<Rightarrow> strcaseeq q p)) \<and> b = a)"
proof -
  let ?t = "set_tags (SML_TAG (Some fileStatInfoTag) (stat_params a path) [] # ts) t"
  have "eq_stat_fields stat_fields b ?t = Inr (b = a)"
    by (cases path) (auto simp: stat_fields_def stat_params_def smlParamEqF_def stat_param[OF assms] find_param_def)
  moreover have "smlParamEq (Some ?t) fileStatInfoTag ''st_path'' q = Inr (case path of None \<Rightarrow> False | Some p \<Rightarrow> strcaseeq q p)" for q
    by (cases path) (auto simp: stat_params_def stat_param[OF assms] find_param_def stat_fields_def)
  ultimately show ?thesis by (cases other) (auto simp: smlFstatCompareEq_def)
qed

text \<open>
  C26. The file status is a reliable stamp: after \<open>smlSetFileStatInfo\<close> in a tag that held the status at most once,
  \<open>smlFstatCompareEq\<close> says equal exactly for the same inode, mode, times and size, and for the same path, where
  letters of both cases count as one; the other subtags and the parameters of the tag stay, and storing a status again
  replaces the old one.
\<close>

theorem sml_stat_stamp:
  assumes "stat_holder t"
  shows "\<exists>t'. smlSetFileStatInfo (Some t) (Some a) (Some p) = Inr (Some t') \<and>
     (\<forall>b q. smlFstatCompareEq (Some b) (Some t') (Some q) = Inr (b = a \<and> map to_lower q = map to_lower p)) \<and>
     (\<forall>b. smlFstatCompareEq (Some b) (Some t') None = Inr (b = a)) \<and>
     tag_name t' = tag_name t \<and> tag_params t' = tag_params t \<and> other_tags t' = other_tags t \<and>
     (\<forall>b r. smlSetFileStatInfo (Some t') b r = smlSetFileStatInfo (Some t) b r)"
proof -
  define t' where "t' = set_tags (SML_TAG (Some fileStatInfoTag) (stat_params a (Some p)) [] # other_tags t) t"
  have others: "other_tags t' = other_tags t" by (simp add: t'_def other_tags_def set_tags_def)
  have holder: "stat_holder t'" using assms by (auto simp: t'_def stat_holder_def set_tags_def other_tags_def)
  have "smlSetFileStatInfo (Some t') b r = smlSetFileStatInfo (Some t) b r" for b r
  proof (cases b)
    case (Some st)
    then show ?thesis using set_stat_info[OF holder] set_stat_info[OF assms] others by (simp add: t'_def set_tags_def)
  qed (simp add: smlSetFileStatInfo_def)
  moreover have "smlSetFileStatInfo (Some t) (Some a) (Some p) = Inr (Some t')"
    using set_stat_info[OF assms] by (simp add: t'_def)
  moreover have "tag_name t' = tag_name t \<and> tag_params t' = tag_params t" by (simp add: t'_def set_tags_def)
  ultimately show ?thesis
    using others compare_stored[OF assms] unfolding t'_def by (auto simp: strcaseeq_def)
qed

definition stamp_stat :: file_stat where
  "stamp_stat = \<lparr>f_ino = 7, f_mode = 0x81A4, f_mtime = 100, f_ctime = 100, f_size = 42\<rparr>"

definition demo_holder :: sml_tag where
  "demo_holder = SML_TAG (Some ''zone'') [] [SML_TAG (Some ''x'') [] [], SML_TAG (Some ''File-Stat-Info'') [] []]"

theorem sml_stat_stamp_witness:
  "\<exists>t'. smlSetFileStatInfo (Some demo_holder) (Some stamp_stat) (Some ''/etc/A'') = Inr (Some t') \<and>
     smlFstatCompareEq (Some stamp_stat) (Some t') (Some ''/etc/a'') = Inr True \<and>
     smlFstatCompareEq (Some (stamp_stat\<lparr>f_size := 43\<rparr>)) (Some t') None = Inr False \<and>
     other_tags t' = [SML_TAG (Some ''x'') [] []]"
proof -
  have "stat_holder demo_holder" by (auto simp: stat_holder_def demo_holder_def fileStatInfoTag_def)
  from sml_stat_stamp[OF this, of stamp_stat "''/etc/A''"] obtain t' where
    t: "smlSetFileStatInfo (Some demo_holder) (Some stamp_stat) (Some ''/etc/A'') = Inr (Some t')"
    "\<And>b q. smlFstatCompareEq (Some b) (Some t') (Some q) = Inr (b = stamp_stat \<and> map to_lower q = map to_lower ''/etc/A'')"
    "\<And>b. smlFstatCompareEq (Some b) (Some t') None = Inr (b = stamp_stat)"
    "other_tags t' = other_tags demo_holder" by blast
  moreover have "map to_lower ''/etc/a'' = map to_lower ''/etc/A''" by (simp add: to_lower_def isupper_def char_of_def bit_iff_odd)
  ultimately show ?thesis by (simp add: stamp_stat_def other_tags_def demo_holder_def fileStatInfoTag_def)
qed

end
