(* ===== verification/Pkgparam.thy ===== *)
theory Pkgparam
  imports Fixpath
begin

text \<open>
  Parameter files (\<open>pkginfo\<close>, administration files) of \<open>libadm/pkgparam.c\<close>: the reader of one parameter, the
  search for the file of a package, and where packages are kept.

  An open file is the text that is still to be read. Counters are natural numbers.
\<close>

section \<open>Reading a parameter\<close>

definition VALSIZ :: nat where "VALSIZ = 128"

definition ESCAPE :: char where "ESCAPE = CHR 0x5C"

definition sepset :: string where "sepset = '':='' @ [NL]"

definition qset :: string where "qset = [CHR 0x27, CHR 0x22]"

text \<open>The token before a separator; of its characters the array takes 127. \<open>None\<close> at the end of the file.\<close>

primrec get_name :: "nat \<Rightarrow> string \<Rightarrow> string \<Rightarrow> (char \<times> string \<times> string) option" where
  "get_name n acc [] = None"
| "get_name n acc (c # s) =
     (if in_str sepset c then Some (c, acc, s)
      else get_name (Suc n) (if Suc n < VALSIZ then acc @ [c] else acc) s)"

text \<open>
  The state while a value is read. \<open>v_copy\<close> has the characters before the pointer \<open>copy\<close>, or is \<open>None\<close> where that is
  \<open>NULL\<close>; their number is \<open>n\<close>. They are in the array \<open>buffer\<close> or in memory of \<open>v_cap\<close> bytes.
\<close>

record pval =
  v_copy :: "string option"
  v_mem :: bool
  v_cap :: nat
  v_escape :: nat
  v_begline :: bool
  v_quoted :: nat

definition pval0 :: "bool \<Rightarrow> pval" where
  "pval0 wanted = \<lparr>v_copy = (if wanted then Some [] else None), v_mem = False, v_cap = VALSIZ, v_escape = 0,
     v_begline = True, v_quoted = 0\<rparr>"

text \<open>\<open>strncpy\<close> from the array to memory stops at a NUL.\<close>

definition to_mem :: "string \<Rightarrow> string" where
  "to_mem b = (let t = takeWhile (\<lambda>c. c \<noteq> NUL) b in t @ replicate (length b - length t) NUL)"

definition grow :: "pval \<Rightarrow> pval" where
  "grow v =
     (case v_copy v of
        None \<Rightarrow> v
      | Some b \<Rightarrow>
          if length b mod VALSIZ = 0 then
            if v_mem v then v\<lparr>v_cap := length b + VALSIZ\<rparr>
            else v\<lparr>v_copy := Some (to_mem b), v_mem := True, v_cap := 2 * VALSIZ\<rparr>
          else v)"

definition put_char :: "char \<Rightarrow> pval \<Rightarrow> pval res" where
  "put_char c v =
     (case v_copy v of
        None \<Rightarrow> Inr v
      | Some b \<Rightarrow> if length b < v_cap v then Inr (v\<lparr>v_copy := Some (b @ [c])\<rparr>) else Inl BufOverrun)"

text \<open>The newline takes the place of the escape character before it.\<close>

definition put_newline :: "pval \<Rightarrow> pval res" where
  "put_newline v =
     (case v_copy v of
        None \<Rightarrow> Inr v
      | Some b \<Rightarrow> if b = [] then Inl BufOverrun else Inr (v\<lparr>v_copy := Some (butlast b @ [NL])\<rparr>))"

text \<open>One character: \<open>None\<close> at the end of the entry.\<close>

definition value_char :: "char \<Rightarrow> pval \<Rightarrow> (pval option) res" where
  "value_char c v =
     (if v_begline v \<and> (c = SP \<or> c = TAB) then Inr (Some v)
      else if c = NL then
        if v_escape v = 0 then Inr None
        else rbind (put_newline v) (\<lambda>w. Inr (Some (grow (w\<lparr>v_escape := 0, v_begline := True\<rparr>))))
      else if v_escape v = 0 \<and> in_str qset c \<and> v_begline v then
        Inr (Some (v\<lparr>v_quoted := Suc (v_quoted v), v_begline := False\<rparr>))
      else if v_escape v = 0 \<and> in_str qset c \<and> v_quoted v \<noteq> 0 then Inr (Some (v\<lparr>v_quoted := 0\<rparr>))
      else rbind (put_char c (v\<lparr>v_escape := (if c = ESCAPE then Suc (v_escape v) else 0)\<rparr>)) (\<lambda>w.
           Inr (Some (grow (w\<lparr>v_begline := False\<rparr>)))))"

text \<open>Whether the file has ended, the state, and the rest.\<close>

primrec value_loop :: "string \<Rightarrow> pval \<Rightarrow> (bool \<times> pval \<times> string) res" where
  "value_loop [] v = Inr (True, v, [])"
| "value_loop (c # s) v =
     rbind (value_char c v) (\<lambda>r. case r of None \<Rightarrow> Inr (False, v, s) | Some w \<Rightarrow> value_loop s w)"

text \<open>Trailing blanks go, and the value ends at a NUL.\<close>

definition the_value :: "string \<Rightarrow> string" where
  "the_value b = takeWhile (\<lambda>c. c \<noteq> NUL) (rev (dropWhile isspace (rev b)))"

datatype perr = P_ENOENT | P_EINVAL | P_EFAULT

type_synonym param_res = "(perr + string) \<times> string \<times> string"

text \<open>Whether the parameter is the one that is wanted, and its name, copied to an array of \<open>pcap\<close> bytes where none is given.\<close>

definition take_param :: "nat \<Rightarrow> string \<Rightarrow> string \<Rightarrow> (bool \<times> string) res" where
  "take_param pcap param nm =
     (if deref nm = CHR ''#'' then Inr (False, param)
      else if param = [] then if length nm < pcap then Inr (True, nm) else Inl BufOverrun
      else Inr (param = nm, param))"

lemma get_name_shorter: "get_name n acc s = Some (c, nm, r) \<Longrightarrow> length r < length s"
  by (induction s arbitrary: n acc) (auto split: if_splits, fastforce+)

lemma value_loop_le: "value_loop s v = Inr (e, w, r) \<Longrightarrow> length r \<le> length s"
  by (induction s arbitrary: v) (auto simp: rbind_Inr split: option.splits, fastforce)

function param_loop :: "nat \<Rightarrow> string \<Rightarrow> string \<Rightarrow> param_res res" where
  "param_loop pcap param s =
     (case get_name 0 [] s of
        None \<Rightarrow> Inr (Inl P_EINVAL, param, [])
      | Some (c, nm, r) \<Rightarrow>
          if c = NL then param_loop pcap param r
          else (case take_param pcap param nm of
            Inl f \<Rightarrow> Inl f
          | Inr (wanted, param') \<Rightarrow>
              (case value_loop r (pval0 wanted) of
                 Inl f \<Rightarrow> Inl f
               | Inr (eof, v, r') \<Rightarrow>
                   if v_quoted v \<noteq> 0 then Inr (Inl P_EFAULT, param', r')
                   else (case v_copy v of
                     Some b \<Rightarrow> Inr (Inr (the_value b), param', r')
                   | None \<Rightarrow> if eof then Inr (Inl P_EINVAL, param', r') else param_loop pcap param' r'))))"
  by pat_completeness auto
termination
  by (relation "measure (\<lambda>(_, _, s). length s)") (use get_name_shorter value_loop_le in \<open>fastforce+\<close>)

declare param_loop.simps [simp del]

definition fpkgparam :: "nat \<Rightarrow> string \<Rightarrow> string option \<Rightarrow> param_res res" where
  "fpkgparam pcap fp param =
     (case param of None \<Rightarrow> Inr (Inl P_ENOENT, [], fp) | Some p \<Rightarrow> param_loop pcap p fp)"

section \<open>Where packages are kept\<close>

text \<open>\<open>canonize_name\<close> is a copy of \<open>canonize\<close>.\<close>

definition canonize_name :: "string \<Rightarrow> string" where
  "canonize_name s = canonize s"

text \<open>The pointer \<open>pkgdir\<close>: \<open>NULL\<close>, to the array \<open>Adm_pkgloc\<close>, or to another string.\<close>

datatype dirptr = D_null | D_loc | D_str string

text \<open>The static data of the file; \<open>VSADMDIR\<close> comes from the configuration.\<close>

record pkgst =
  adm_pkgold :: string
  adm_pkgloc :: string
  adm_pkgadm :: string
  pkg_inst_root :: "string option"
  pkgdir :: dirptr
  pkgfile :: "string option"
  lastfname :: string
  par_fp :: "(string \<times> string) option"

definition pkgst0 :: pkgst where
  "pkgst0 = \<lparr>adm_pkgold = [], adm_pkgloc = [], adm_pkgadm = [], pkg_inst_root = None, pkgdir = D_null, pkgfile = None,
     lastfname = [], par_fp = None\<rparr>"

definition PKGOLD :: string where "PKGOLD = ''/usr/options''"
definition PKGLOC :: "string \<Rightarrow> string" where "PKGLOC vsadmdir = vsadmdir @ ''/pkg''"
definition PKGADM :: "string \<Rightarrow> string" where "PKGADM vsadmdir = vsadmdir @ ''/install''"

definition sprint_path :: "string \<Rightarrow> string res" where
  "sprint_path s = (if length s < PATH_MAX then Inr s else Inl BufOverrun)"

definition set_PKGpaths :: "string \<Rightarrow> string option \<Rightarrow> pkgst \<Rightarrow> pkgst res" where
  "set_PKGpaths vsadmdir path s =
     (let root = (case path of None \<Rightarrow> [] | Some p \<Rightarrow> p) in
      rbind (sprint_path (root @ PKGLOC vsadmdir)) (\<lambda>l.
      rbind (sprint_path (root @ PKGOLD)) (\<lambda>old.
      rbind (sprint_path (root @ PKGADM vsadmdir)) (\<lambda>a.
      Inr (s\<lparr>adm_pkgloc := canonize_name l, adm_pkgold := canonize_name old, adm_pkgadm := canonize_name a,
         pkg_inst_root := (if root = [] then pkg_inst_root s else Some root), pkgdir := D_loc\<rparr>)))))"

definition get_PKGLOC :: "string \<Rightarrow> pkgst \<Rightarrow> string" where
  "get_PKGLOC vsadmdir s = (if adm_pkgloc s = [] then PKGLOC vsadmdir else adm_pkgloc s)"

definition get_PKGOLD :: "pkgst \<Rightarrow> string" where
  "get_PKGOLD s = (if adm_pkgold s = [] then PKGOLD else adm_pkgold s)"

definition get_PKGADM :: "string \<Rightarrow> pkgst \<Rightarrow> string" where
  "get_PKGADM vsadmdir s = (if adm_pkgadm s = [] then PKGADM vsadmdir else adm_pkgadm s)"

definition set_PKGADM :: "string \<Rightarrow> pkgst \<Rightarrow> pkgst res" where
  "set_PKGADM newpath s = rbind (sprint_path newpath) (\<lambda>p. Inr (s\<lparr>adm_pkgadm := p\<rparr>))"

definition set_PKGLOC :: "string \<Rightarrow> pkgst \<Rightarrow> pkgst res" where
  "set_PKGLOC newpath s =
     rbind (sprint_path newpath) (\<lambda>p. Inr (s\<lparr>adm_pkgloc := p\<rparr>))"

section \<open>The file of a package\<close>

text \<open>The saved directory of a package that is being replaced comes first. The files that exist are an argument.\<close>

definition pkginfofind :: "(string \<Rightarrow> bool) \<Rightarrow> string \<Rightarrow> string \<Rightarrow> bool \<times> string" where
  "pkginfofind there pkg_dir pkginst =
     (let save = pkg_dir @ ''/.save.'' @ pkginst @ ''/pkginfo''; plain = pkg_dir @ ''/'' @ pkginst @ ''/pkginfo'';
          path = take (PATH_MAX - 1) save; path2 = take (PATH_MAX - 1) plain in
      if length save > PATH_MAX then (False, path)
      else if there path then (True, path)
      else if length plain > PATH_MAX then (False, path2)
      else (there path2, path2))"

definition pkginfopen :: "(string \<Rightarrow> string option) \<Rightarrow> string \<Rightarrow> string \<Rightarrow> string option" where
  "pkginfopen files pkg_dir pkginst =
     (let (found, path) = pkginfofind (\<lambda>f. files f \<noteq> None) pkg_dir pkginst in if found then files path else None)"

text \<open>\<open>pkgparam\<close>: the file stays open from call to call; \<open>par_fp\<close> has its text and what is still to be read.\<close>

fun the_dir :: "pkgst \<Rightarrow> dirptr \<Rightarrow> string" where
  "the_dir s D_null = []"
| "the_dir s D_loc = adm_pkgloc s"
| "the_dir s (D_str d) = d"

definition use_dir :: "string \<Rightarrow> pkgst \<Rightarrow> pkgst" where
  "use_dir vsadmdir s =
     (if pkgdir s = D_null then s\<lparr>pkgdir := (if adm_pkgloc s = [] then D_str (PKGLOC vsadmdir) else D_loc)\<rparr> else s)"

definition info_name :: "(string \<Rightarrow> string option) \<Rightarrow> string \<Rightarrow> pkgst \<Rightarrow> string res" where
  "info_name files pkg s =
     (case pkgfile s of
        Some f \<Rightarrow> sprint_path f
      | None \<Rightarrow> Inr (snd (pkginfofind (\<lambda>f. files f \<noteq> None) (the_dir s (pkgdir s)) pkg)))"

definition open_info :: "(string \<Rightarrow> string option) \<Rightarrow> string \<Rightarrow> pkgst \<Rightarrow> pkgst" where
  "open_info files line s =
     (if par_fp s \<noteq> None \<and> line = lastfname s then s
      else s\<lparr>lastfname := line, par_fp := map_option (\<lambda>t. (t, t)) (files line)\<rparr>)"

definition squeeze :: "string \<Rightarrow> string \<Rightarrow> string" where
  "squeeze param v = (if param = ''ARCH'' \<or> param = ''CATEGORY'' then filter (\<lambda>c. \<not> isspace c) v else v)"

definition pkgparam ::
  "(string \<Rightarrow> string option) \<Rightarrow> string \<Rightarrow> nat \<Rightarrow> string option \<Rightarrow> string option \<Rightarrow> pkgst \<Rightarrow> ((perr + string) option \<times> string \<times> pkgst) res" where
  "pkgparam files vsadmdir pcap pkg param s0 =
     (let s = use_dir vsadmdir s0 in
      case pkg of
        None \<Rightarrow> Inr (None, [], s\<lparr>par_fp := None\<rparr>)
      | Some k \<Rightarrow>
          (case param of
             None \<Rightarrow> Inr (Some (Inl P_ENOENT), [], s)
           | Some p \<Rightarrow>
               rbind (info_name files k s) (\<lambda>line.
               let s1 = open_info files line s in
               case par_fp s1 of
                 None \<Rightarrow> Inr (None, p, s1)
               | Some (t, r) \<Rightarrow>
                   rbind (fpkgparam pcap (if p = [] then r else t) (Some p)) (\<lambda>(v, p', r').
                   Inr (Some (map_sum id (squeeze p') v), p', s1\<lparr>par_fp := Some (t, r')\<rparr>)))))"

end
