(* ===== verification/Putparam.thy ===== *)
theory Putparam
  imports Pkgparam Srchcfile Setlist "HOL-Library.AList"
begin

text \<open>
  The environment of the package commands (\<open>libinst/putparam.c\<close>): an array of strings that grows.
  Programs start it from \<open>NULL\<close>. Memory is not exhausted.
\<close>

section \<open>The array\<close>

record env_arr =
  env_list :: "string list option"
  env_cap :: nat

definition MALSIZ :: nat where "MALSIZ = 64"

definition no_env :: env_arr where "no_env = \<lparr>env_list = None, env_cap = 0\<rparr>"

definition names_entry :: "string \<Rightarrow> string \<Rightarrow> bool" where
  "names_entry param e \<longleftrightarrow> strncmp e param (length param) = 0 \<and> deref_at e (length param) = CHR ''=''"

text \<open>The entry in place of an old one with the same name; \<open>None\<close> when there is none.\<close>

primrec replace_entry :: "string \<Rightarrow> string \<Rightarrow> string list \<Rightarrow> (string list) option" where
  "replace_entry param value [] = None"
| "replace_entry param value (e # es) =
     (if names_entry param e then
        Some ((if drop (Suc (length param)) e = value then e else param @ ''='' @ value) # es)
      else map_option (Cons e) (replace_entry param value es))"

definition append_entry :: "string \<Rightarrow> string list \<Rightarrow> nat \<Rightarrow> env_arr res" where
  "append_entry pt es cap =
     (let i = Suc (length es); cap' = (if i mod MALSIZ = 0 then i + MALSIZ else cap) in
      if length es < cap \<and> i < cap' then Inr \<lparr>env_list = Some (es @ [pt]), env_cap = cap'\<rparr> else Inl BufOverrun)"

definition putparam :: "string \<Rightarrow> string \<Rightarrow> env_arr \<Rightarrow> env_arr res" where
  "putparam param value a =
     (let (es, cap) = (case env_list a of None \<Rightarrow> ([], MALSIZ) | Some es \<Rightarrow> (es, env_cap a)) in
      case replace_entry param value es of
        Some es' \<Rightarrow> Inr \<lparr>env_list = Some es', env_cap = cap\<rparr>
      | None \<Rightarrow> append_entry (param @ ''='' @ value) es cap)"

text \<open>\<open>getenv\<close> of the C library.\<close>

definition getenv :: "env_arr \<Rightarrow> string \<Rightarrow> string option" where
  "getenv a nm =
     (case env_list a of
        None \<Rightarrow> None
      | Some es \<Rightarrow> map_option (\<lambda>e. drop (Suc (length nm)) e) (find (names_entry nm) es))"

definition localeNames :: "string list" where
  "localeNames = [''LC_CTYPE'', ''LC_NUMERIC'', ''LC_TIME'', ''LC_COLLATE'', ''LC_MESSAGES'', ''LC_MONETARY'', ''LC_ALL'',
     ''LANG'', ''TZ'']"

text \<open>The saved values \<open>envPtr\<close>, by name.\<close>

primrec put_locale :: "(string \<times> string option) list \<Rightarrow> env_arr \<Rightarrow> env_arr res" where
  "put_locale [] a = Inr a"
| "put_locale (p # ps) a =
     (case snd p of None \<Rightarrow> put_locale ps a | Some v \<Rightarrow> rbind (putparam (fst p) v a) (put_locale ps))"

primrec get_locale :: "string list \<Rightarrow> env_arr \<Rightarrow> ((string \<times> string option) list \<times> env_arr) res" where
  "get_locale [] a = Inr ([], a)"
| "get_locale (n # ns) a =
     rbind (case getenv a n of None \<Rightarrow> Inr a | Some v \<Rightarrow> putparam n v a) (\<lambda>a1.
     rbind (get_locale ns a1) (\<lambda>(ps, a2). Inr ((n, getenv a n) # ps, a2)))"

definition getuserlocale :: "env_arr \<Rightarrow> ((string \<times> string option) list \<times> env_arr) res" where
  "getuserlocale a = get_locale localeNames a"

definition putuserlocale :: "(string \<times> string option) list \<Rightarrow> env_arr \<Rightarrow> env_arr res" where
  "putuserlocale ps a = put_locale ps a"

section \<open>The environment as a map\<close>

definition good_name :: "string \<Rightarrow> bool" where
  "good_name n \<longleftrightarrow> n \<noteq> [] \<and> CHR ''='' \<notin> set n \<and> NUL \<notin> set n"

definition entry_of :: "string \<times> string \<Rightarrow> string" where
  "entry_of p = fst p @ ''='' @ snd p"

text \<open>The array holds the parameters \<open>ps\<close> in their order, and there is room for one more and the end.\<close>

definition env_holds :: "env_arr \<Rightarrow> (string \<times> string) list \<Rightarrow> bool" where
  "env_holds a ps \<longleftrightarrow> distinct (map fst ps) \<and> (\<forall>p \<in> set ps. good_name (fst p) \<and> NUL \<notin> set (snd p)) \<and>
     (case env_list a of None \<Rightarrow> ps = [] | Some es \<Rightarrow> es = map entry_of ps \<and> length es + MALSIZ - length es mod MALSIZ \<le> env_cap a)"

lemma strncmp_prefix:
  assumes "NUL \<notin> set b"
  shows "strncmp a b (length b) = 0 \<longleftrightarrow> take (length b) a = b"
  using assms
proof (induction b arbitrary: a)
  case (Cons y b)
  have "(of_char y :: nat) = 0 \<longleftrightarrow> y = NUL" using of_char_eq_iff[of y NUL, where ?'a = nat] by simp
  then have y: "(of_char y :: nat) \<noteq> 0" using Cons.prems by auto
  show ?case
  proof (cases a)
    case Nil
    then show ?thesis using y by simp
  next
    case (Cons x a')
    have "(of_char x :: nat) = of_char y \<longleftrightarrow> x = y" by simp
    then show ?thesis using Cons.IH[of a'] Cons.prems y Cons by (cases "x = y") (auto simp: Let_def)
  qed
qed simp

lemma names_entry_iff:
  assumes "good_name n" "good_name m"
  shows "names_entry n (m @ ''='' @ v) \<longleftrightarrow> n = m"
proof
  assume "names_entry n (m @ ''='' @ v)"
  then have t: "take (length n) (m @ ''='' @ v) = n" and d: "deref_at (m @ ''='' @ v) (length n) = CHR ''=''"
    using assms strncmp_prefix[of n] by (auto simp: names_entry_def good_name_def)
  have "\<not> length m < length n"
  proof
    assume "length m < length n"
    then have "take (length n) (m @ ''='' @ v) ! length m = CHR ''=''" by (subst nth_take) simp_all
    then have "CHR ''='' \<in> set n" unfolding t using \<open>length m < length n\<close> nth_mem by metis
    then show False using assms(1) by (simp add: good_name_def)
  qed
  moreover have "\<not> length n < length m"
  proof
    assume "length n < length m"
    then have "deref_at (m @ ''='' @ v) (length n) \<in> set m" by (simp add: deref_at_def Cons_nth_drop_Suc[symmetric])
    then show False using d assms(2) by (simp add: good_name_def)
  qed
  ultimately show "n = m" using t by simp
qed (use assms strncmp_prefix in \<open>auto simp: names_entry_def good_name_def deref_at_def\<close>)


lemma find_entry:
  assumes "good_name n" "\<forall>p \<in> set ps. good_name (fst p)"
  shows "map_option (\<lambda>e. drop (Suc (length n)) e) (find (names_entry n) (map entry_of ps)) = map_of ps n"
  using assms(2)
proof (induction ps)
  case (Cons p ps)
  then show ?case using names_entry_iff[OF assms(1), of "fst p" "snd p"] by (cases p) (auto simp: entry_of_def)
qed simp

lemma getenv_holds: "env_holds a ps \<Longrightarrow> good_name n \<Longrightarrow> getenv a n = map_of ps n"
  using find_entry[of n ps] by (auto simp: env_holds_def getenv_def split: option.splits)

lemma replace_entry_map:
  assumes "good_name n" "\<forall>p \<in> set ps. good_name (fst p)"
  shows "replace_entry n v (map entry_of ps) =
    (if n \<in> fst ` set ps then Some (map entry_of (AList.update n v ps)) else None)"
  using assms(2)
proof (induction ps)
  case (Cons p ps)
  obtain m w where p: "p = (m, w)" by (cases p)
  show ?case
    using Cons names_entry_iff[OF assms(1), of m w] by (auto simp: entry_of_def p)
qed simp

lemma update_absent: "n \<notin> fst ` set ps \<Longrightarrow> AList.update n v ps = ps @ [(n, v)]"
  by (induction ps) auto

lemma upd_set: "p \<in> set (AList.update n v ps) \<Longrightarrow> p = (n, v) \<or> p \<in> set ps"
  by (induction ps) (auto split: if_splits)

lemma append_fits:
  assumes "length es + MALSIZ - length es mod MALSIZ \<le> cap"
  shows "\<exists>c. append_entry pt es cap = Inr \<lparr>env_list = Some (es @ [pt]), env_cap = c\<rparr> \<and>
    Suc (length es) + MALSIZ - Suc (length es) mod MALSIZ \<le> c"
proof -
  have "length es mod 64 < 64" by simp
  then show ?thesis
    using assms by (cases "Suc (length es) mod 64 = 0") (auto simp: append_entry_def MALSIZ_def mod_Suc)
qed

theorem putparam_holds:
  assumes "env_holds a ps" "good_name n" "NUL \<notin> set v"
  shows "\<exists>a'. putparam n v a = Inr a' \<and> env_holds a' (AList.update n v ps)"
proof -
  define es cap where "es = map entry_of ps" and "cap = (case env_list a of None \<Rightarrow> MALSIZ | Some _ \<Rightarrow> env_cap a)"
  have g: "\<forall>p \<in> set ps. good_name (fst p)" using assms(1) by (simp add: env_holds_def)
  have a: "(case env_list a of None \<Rightarrow> ([], MALSIZ) | Some es \<Rightarrow> (es, env_cap a)) = (es, cap)"
    and room: "length es + MALSIZ - length es mod MALSIZ \<le> cap"
    using assms(1) by (auto simp: env_holds_def es_def cap_def split: option.splits)
  have ok: "distinct (map fst (AList.update n v ps)) \<and> (\<forall>p \<in> set (AList.update n v ps). good_name (fst p) \<and> NUL \<notin> set (snd p))"
    using assms upd_set by (fastforce simp: env_holds_def distinct_update)
  show ?thesis
  proof (cases "n \<in> fst ` set ps")
    case True
    then have "length (AList.update n v ps) = length ps" by (induction ps) auto
    then show ?thesis
      using replace_entry_map[OF assms(2) g, of v] True ok room by (auto simp: putparam_def a es_def env_holds_def)
  next
    case False
    then show ?thesis
      using replace_entry_map[OF assms(2) g, of v] ok append_fits[OF room, of "n @ ''='' @ v"] update_absent[OF False, of v]
      by (auto simp: putparam_def a es_def env_holds_def entry_of_def)
  qed
qed

end
