(* ===== verification/Parmread.thy ===== *)
theory Parmread
  imports Putparam
begin

text \<open>
  Reading of parameter files: the value never leaves its growing buffer, and a line that was written as name, equals sign
  and value is read back.
\<close>

section \<open>The buffer of a value\<close>

definition pv_ok :: "pval \<Rightarrow> bool" where
  "pv_ok v \<longleftrightarrow> (case v_copy v of
      None \<Rightarrow> True
    | Some b \<Rightarrow> length b < v_cap v \<and> v_cap v mod VALSIZ = 0 \<and> (\<not> v_mem v \<longrightarrow> v_cap v = VALSIZ) \<and> (v_escape v \<noteq> 0 \<longrightarrow> b \<noteq> []))"

lemma pv_ok0: "pv_ok (pval0 w)"
  by (simp add: pv_ok_def pval0_def VALSIZ_def)

lemma to_mem_length [simp]: "length (to_mem b) = length b"
  by (simp add: to_mem_def Let_def length_takeWhile_le)

lemma to_mem_id: "NUL \<notin> set b \<Longrightarrow> to_mem b = b"
proof -
  assume "NUL \<notin> set b"
  then have "takeWhile (\<lambda>c. c \<noteq> NUL) b = b" by (subst takeWhile_eq_all_conv) auto
  then show ?thesis unfolding to_mem_def Let_def by (simp only: diff_self_eq_0 replicate_0 append_Nil2)
qed

text \<open>A character more: what \<open>put_char\<close> and \<open>grow\<close> do together.\<close>

lemma grow_ok:
  assumes "v_copy v = Some b" "length b \<le> v_cap v" "v_cap v mod VALSIZ = 0" "\<not> v_mem v \<longrightarrow> v_cap v = VALSIZ" "b \<noteq> []"
  shows "pv_ok (grow v)" "v_copy (grow v) = Some b \<or> v_copy (grow v) = Some (to_mem b)"
    "v_quoted (grow v) = v_quoted v" "v_begline (grow v) = v_begline v" "v_escape (grow v) = v_escape v"
proof -
  show "v_copy (grow v) = Some b \<or> v_copy (grow v) = Some (to_mem b)"
    "v_quoted (grow v) = v_quoted v" "v_begline (grow v) = v_begline v" "v_escape (grow v) = v_escape v"
    using assms(1) by (simp_all add: grow_def)
  have ne: "to_mem b \<noteq> []" using assms(5) by (metis length_0_conv to_mem_length)
  have "length b \<noteq> v_cap v" if "length b mod VALSIZ \<noteq> 0" using that assms(3) by auto
  moreover have "length b = VALSIZ" if "\<not> v_mem v" "length b mod VALSIZ = 0"
  proof -
    have "length b \<le> VALSIZ" using that(1) assms(2,4) by simp
    moreover have "VALSIZ dvd length b" using that(2) by auto
    ultimately show ?thesis using assms(5) by (metis dvd_imp_le le_antisym length_greater_0_conv)
  qed
  ultimately show "pv_ok (grow v)"
    using assms ne by (auto simp: grow_def pv_ok_def VALSIZ_def)
qed

lemma value_char_ok:
  assumes "pv_ok v"
  shows "\<exists>r. value_char c v = Inr r \<and> (\<forall>w. r = Some w \<longrightarrow> pv_ok w)"
proof (cases "v_copy v")
  case None
  then show ?thesis
    by (auto simp: value_char_def pv_ok_def put_newline_def put_char_def grow_def)
next
  case (Some b)
  have nl: "pv_ok (grow (v\<lparr>v_copy := Some (butlast b @ [NL]), v_escape := 0, v_begline := True\<rparr>))" if "b \<noteq> []"
    using grow_ok(1)[of "v\<lparr>v_copy := Some (butlast b @ [NL]), v_escape := 0, v_begline := True\<rparr>"] that assms Some by (auto simp: pv_ok_def)
  have ch: "pv_ok (grow (v\<lparr>v_escape := e, v_copy := Some (b @ [c]), v_begline := False\<rparr>))" for e
    using grow_ok(1)[of "v\<lparr>v_escape := e, v_copy := Some (b @ [c]), v_begline := False\<rparr>"] assms Some by (auto simp: pv_ok_def)
  have "pv_ok (v\<lparr>v_quoted := q, v_begline := g\<rparr>)" for q g using assms Some by (simp add: pv_ok_def)
  moreover have "pv_ok (v\<lparr>v_quoted := q\<rparr>)" for q using assms Some by (simp add: pv_ok_def)
  moreover have "length b < v_cap v" "v_escape v \<noteq> 0 \<longrightarrow> b \<noteq> []" using assms Some by (auto simp: pv_ok_def)
  ultimately show ?thesis
    using assms nl ch Some by (auto simp: value_char_def put_newline_def put_char_def)
qed

lemma value_loop_ok: "pv_ok v \<Longrightarrow> \<exists>e w r. value_loop s v = Inr (e, w, r)"
proof (induction s arbitrary: v)
  case (Cons c s)
  obtain r where r: "value_char c v = Inr r" "\<forall>w. r = Some w \<longrightarrow> pv_ok w" using value_char_ok[OF Cons.prems] by blast
  then show ?case using Cons.IH by (cases r) auto
qed auto

lemma get_name_length: "get_name n acc s = Some (c, nm, r) \<Longrightarrow> length acc = min n (VALSIZ - 1) \<Longrightarrow> length nm < VALSIZ"
  by (induction s arbitrary: n acc) (auto simp: VALSIZ_def split: if_splits)

text \<open>
  C22. Reading a parameter file is safe: for a caller with an array of at least 128 bytes for the name, \<open>fpkgparam\<close> returns on every file, whatever
  names, values, quotes and escapes it holds, and never writes outside its arrays; a value that is returned is followed by less text than before.
\<close>

theorem fpkgparam_safe:
  assumes "128 \<le> pcap"
  shows "\<exists>v p r. fpkgparam pcap fp (Some param) = Inr (v, p, r) \<and> length r \<le> length fp \<and> (\<forall>s. v = Inr s \<longrightarrow> length r < length fp)"
proof -
  have "\<exists>v p r. param_loop pcap param s = Inr (v, p, r) \<and> length r \<le> length s \<and> (\<forall>w. v = Inr w \<longrightarrow> length r < length s)" for s param
  proof (induction s arbitrary: param rule: length_induct)
    case (1 s)
    show ?case
    proof (cases "get_name 0 [] s")
      case None
      then show ?thesis by (subst param_loop.simps) auto
    next
      case (Some x)
      obtain c nm r where x: "x = (c, nm, r)" by (cases x)
      have r: "length r < length s" "length nm < pcap"
        using get_name_shorter get_name_length[of 0 "[]" s c nm r] Some x assms by (auto simp: VALSIZ_def)
      have "\<exists>y. take_param pcap param nm = Inr y" using r(2) unfolding take_param_def by auto
      then obtain w p where t: "take_param pcap param nm = Inr (w, p)" by auto
      obtain e v r' where v: "value_loop r (pval0 w) = Inr (e, v, r')" using value_loop_ok[OF pv_ok0] by blast
      have "length r' \<le> length r" by (rule value_loop_le[OF v])
      then have "length r' < length s" using r(1) by simp
      then have "\<exists>v p q. param_loop pcap p' r' = Inr (v, p, q) \<and> length q \<le> length s \<and> (\<forall>w. v = Inr w \<longrightarrow> length q < length s)"
        "\<exists>v p q. param_loop pcap p' r = Inr (v, p, q) \<and> length q \<le> length s \<and> (\<forall>w. v = Inr w \<longrightarrow> length q < length s)" for p'
        using "1.IH"[rule_format, of r' p'] "1.IH"[rule_format, of r p'] r(1) by fastforce+
      then show ?thesis
        using Some x t v \<open>length r' < length s\<close> by (subst param_loop.simps) (auto split: option.split)
    qed
  qed
  then show ?thesis by (simp add: fpkgparam_def)
qed

theorem fpkgparam_safe_witness:
  "\<exists>v p r. fpkgparam 128 (''NAME='' @ replicate 1000 (CHR 0x5C)) (Some []) = Inr (v, p, r) \<and> length r \<le> 1005"
  using fpkgparam_safe[of 128 "''NAME='' @ replicate 1000 (CHR 0x5C)" "[]"] by auto

lemma get_name_line:
  assumes "set nm \<inter> set sepset = {}" "NUL \<notin> set nm" "in_str sepset c" "n + length nm < VALSIZ"
  shows "get_name n acc (nm @ c # r) = Some (c, acc @ nm, r)"
  using assms by (induction nm arbitrary: n acc) (auto simp: in_str_def)

text \<open>
  A long parameter name overruns the array of the commands: pkgadd, pkgrm and pkgchk pass an array of 65 bytes for the next parameter,
  and \<open>fpkgparam\<close> copies a name of 65 to 127 characters into it.
\<close>

theorem fpkgparam_name_overrun:
  assumes "65 \<le> length nm" "length nm < 128" "set nm \<inter> set '':='' = {}" "NL \<notin> set nm" "NUL \<notin> set nm" "hd nm \<noteq> CHR ''#''"
  shows "fpkgparam 65 (nm @ CHR ''='' # r) (Some []) = Inl BufOverrun"
proof -
  have "get_name 0 [] (nm @ CHR ''='' # r) = Some (CHR ''='', nm, r)"
    using get_name_line[of nm "CHR ''=''" 0 "[]" r] assms by (auto simp: sepset_def in_str_def VALSIZ_def)
  moreover have "deref nm \<noteq> CHR ''#''" using assms(1,6) by (cases nm) auto
  ultimately show ?thesis using assms(1) by (simp add: fpkgparam_def param_loop.simps take_param_def)
qed

theorem fpkgparam_name_overrun_witness:
  "fpkgparam 65 (replicate 70 (CHR ''A'') @ CHR ''='' # ''x'') (Some []) = Inl BufOverrun"
  by (rule fpkgparam_name_overrun) simp_all

section \<open>Lines that were written\<close>

definition key_ok :: "string \<Rightarrow> bool" where
  "key_ok n \<longleftrightarrow> n \<noteq> [] \<and> set n \<inter> set sepset = {} \<and> NUL \<notin> set n \<and> hd n \<noteq> CHR ''#'' \<and> length n < VALSIZ"

text \<open>No newline, no blank at either end, no quote in front, no escape character at the end.\<close>

definition text_ok :: "string \<Rightarrow> bool" where
  "text_ok v \<longleftrightarrow> NL \<notin> set v \<and> NUL \<notin> set v \<and>
     (v \<noteq> [] \<longrightarrow> hd v \<notin> set ([SP, TAB] @ qset) \<and> \<not> isspace (last v) \<and> last v \<noteq> ESCAPE)"

definition param_line :: "string \<times> string \<Rightarrow> string" where
  "param_line p = fst p @ CHR ''='' # snd p @ [NL]"

text \<open>In the middle of a value without opening quote.\<close>

definition inside :: "pval \<Rightarrow> string \<Rightarrow> bool" where
  "inside v b \<longleftrightarrow> pv_ok v \<and> NUL \<notin> set b \<and> v_quoted v = 0 \<and> \<not> v_begline v \<and> (v_copy v = None \<or> v_copy v = Some b)"

lemma inside_char:
  assumes "inside v b" "c \<noteq> NL" "c \<noteq> NUL"
  shows "\<exists>w. value_char c v = Inr (Some w) \<and> inside w (b @ [c]) \<and> (v_escape w = 0 \<longleftrightarrow> c \<noteq> ESCAPE) \<and>
    (v_copy w = None \<longleftrightarrow> v_copy v = None)"
proof (cases "v_copy v")
  case None
  then show ?thesis using assms by (auto simp: value_char_def inside_def put_char_def grow_def pv_ok_def)
next
  case (Some b')
  then have b: "v_copy v = Some b" "length b < v_cap v" using assms by (auto simp: inside_def pv_ok_def)
  let ?v = "v\<lparr>v_escape := (if c = ESCAPE then Suc (v_escape v) else 0), v_copy := Some (b @ [c]), v_begline := False\<rparr>"
  have g: "pv_ok (grow ?v)" "v_copy (grow ?v) = Some (b @ [c])" "v_quoted (grow ?v) = v_quoted v" "v_begline (grow ?v) = False"
    "v_escape (grow ?v) = (if c = ESCAPE then Suc (v_escape v) else 0)"
    using grow_ok[of ?v "b @ [c]"] assms b to_mem_id[of "b @ [c]"] by (auto simp: inside_def pv_ok_def)
  have "value_char c v = Inr (Some (grow ?v))" using assms b by (simp add: value_char_def inside_def put_char_def)
  then show ?thesis using g assms b(1) by (auto simp: inside_def)
qed

lemma value_line:
  assumes "inside v b" "NL \<notin> set s" "NUL \<notin> set s" "s = [] \<longrightarrow> v_escape v = 0" "s \<noteq> [] \<longrightarrow> last s \<noteq> ESCAPE"
  shows "\<exists>w. value_loop (s @ NL # r) v = Inr (False, w, r) \<and> inside w (b @ s) \<and> (v_copy w = None \<longleftrightarrow> v_copy v = None)"
  using assms
proof (induction s arbitrary: v b)
  case Nil
  then show ?case by (auto simp: value_char_def inside_def)
next
  case (Cons c s)
  obtain w where w: "value_char c v = Inr (Some w)" "inside w (b @ [c])" "v_escape w = 0 \<longleftrightarrow> c \<noteq> ESCAPE"
    "v_copy w = None \<longleftrightarrow> v_copy v = None"
    using inside_char[of v b c] Cons.prems by auto
  then show ?case using Cons.IH[of w "b @ [c]"] Cons.prems by (auto split: if_splits)
qed

text \<open>The same from the start of a value.\<close>

lemma value_start:
  assumes "text_ok s"
  shows "\<exists>w. value_loop (s @ NL # r) (pval0 t) = Inr (False, w, r) \<and> v_quoted w = 0 \<and> v_copy w = (if t then Some s else None)"
proof (cases s)
  case Nil
  then show ?thesis by (simp add: value_char_def pval0_def)
next
  case (Cons c u)
  let ?v = "(pval0 t)\<lparr>v_begline := False\<rparr>"
  have c: "c \<noteq> SP" "c \<noteq> TAB" "c \<noteq> NL" "c \<noteq> NUL" "c \<notin> set qset" using assms Cons by (auto simp: text_ok_def)
  have "value_char c (pval0 t) = value_char c ?v"
    using c by (cases t) (simp_all add: value_char_def pval0_def put_char_def in_str_def)
  moreover have "inside ?v []" using pv_ok0[of t] by (auto simp: inside_def pv_ok_def pval0_def)
  moreover obtain w where "value_char c ?v = Inr (Some w)" using inside_char[OF \<open>inside ?v []\<close> c(3,4)] by blast
  ultimately have "value_loop (s @ NL # r) (pval0 t) = value_loop (s @ NL # r) ?v" by (simp add: Cons)
  moreover note \<open>inside ?v []\<close>
  moreover have "v_escape ?v = 0" "v_copy ?v = None \<longleftrightarrow> \<not> t" by (simp_all add: pval0_def)
  ultimately show ?thesis
    using value_line[of ?v "[]" s r] assms Cons by (auto simp: text_ok_def inside_def)
qed

lemma the_value_id: "text_ok s \<Longrightarrow> the_value s = s"
proof -
  assume s: "text_ok s"
  have "dropWhile isspace (rev s) = rev s"
  proof (cases "rev s")
    case (Cons c u)
    then have "last s = c" "s \<noteq> []" using hd_rev[of s] by auto
    then show ?thesis using s Cons by (simp add: text_ok_def)
  qed simp
  then have "the_value s = takeWhile (\<lambda>c. c \<noteq> NUL) s" by (simp add: the_value_def)
  also have "\<dots> = s" using s unfolding text_ok_def by (subst takeWhile_eq_all_conv) auto
  finally show ?thesis .
qed

text \<open>One line: taken when any parameter or this one is wanted, passed over otherwise.\<close>

lemma param_loop_line:
  assumes "key_ok (fst p)" "text_ok (snd p)"
  shows "param_loop pcap param (param_line p @ r) =
    (if param = [] then if length (fst p) < pcap then Inr (Inr (snd p), fst p, r) else Inl BufOverrun
     else if param = fst p then Inr (Inr (snd p), fst p, r)
     else param_loop pcap param r)"
proof -
  have "get_name 0 [] (param_line p @ r) = Some (CHR ''='', fst p, snd p @ NL # r)"
    using get_name_line[of "fst p" "CHR ''=''" 0 "[]" "snd p @ NL # r"] assms(1)
    by (auto simp: key_ok_def param_line_def in_str_def sepset_def)
  moreover have "deref (fst p) \<noteq> CHR ''#''" using assms(1) by (cases "fst p") (auto simp: key_ok_def)
  moreover obtain v where "value_loop (snd p @ NL # r) (pval0 True) = Inr (False, v, r)" "v_quoted v = 0" "v_copy v = Some (snd p)"
    using value_start[OF assms(2), of r True] by auto
  moreover obtain w where "value_loop (snd p @ NL # r) (pval0 False) = Inr (False, w, r)" "v_quoted w = 0" "v_copy w = None"
    using value_start[OF assms(2), of r False] by auto
  ultimately show ?thesis
    using the_value_id[OF assms(2)] by (subst param_loop.simps) (simp add: take_param_def)
qed

text \<open>
  A parameter is found by its name: in a file of lines \<open>NAME=value\<close> with names and values the format can hold, \<open>fpkgparam\<close> gives the value
  of the first line with that name, and says \<open>EINVAL\<close> when there is none.
\<close>

theorem fpkgparam_finds:
  assumes "\<forall>p \<in> set ps. key_ok (fst p) \<and> text_ok (snd p)" "n \<noteq> []"
  shows "\<exists>r. fpkgparam pcap (concat (map param_line ps)) (Some n) =
    Inr (case map_of ps n of None \<Rightarrow> Inl P_EINVAL | Some v \<Rightarrow> Inr v, n, r)"
  using assms(1)
proof (induction ps)
  case Nil
  then show ?case by (simp add: fpkgparam_def param_loop.simps)
next
  case (Cons p ps)
  then show ?case using param_loop_line[of p pcap n "concat (map param_line ps)"] assms(2) by (auto simp: fpkgparam_def)
qed

theorem fpkgparam_finds_witness:
  "(\<exists>r. fpkgparam 65 (''PKG=SUNWa'' @ [NL] @ ''NAME=a b'' @ [NL]) (Some ''NAME'') = Inr (Inr ''a b'', ''NAME'', r)) \<and>
   (\<exists>r. fpkgparam 65 (''PKG=SUNWa'' @ [NL] @ ''NAME=a b'' @ [NL]) (Some ''ARCH'') = Inr (Inl P_EINVAL, ''ARCH'', r))"
  using fpkgparam_finds[of "[(''PKG'', ''SUNWa''), (''NAME'', ''a b'')]" "''NAME''" 65]
    fpkgparam_finds[of "[(''PKG'', ''SUNWa''), (''NAME'', ''a b'')]" "''ARCH''" 65]
  by (simp add: key_ok_def text_ok_def sepset_def qset_def VALSIZ_def ESCAPE_def isspace_def param_line_def)

end
