(* ===== verification/Pkgnm.thy ===== *)
theory Pkgnm
  imports Cnum
begin

text \<open>
  The validation of package names (\<open>libadm/pkgnmchk.c\<close>) and of the parameters that every package has
  (\<open>libpkg/ckparam.c\<close>). Messages are left out.
\<close>

section \<open>Names of packages\<close>

definition rsvrd :: "string list" where "rsvrd = [''all'', ''install'', ''new'']"
definition NMBRK :: string where "NMBRK = ''.*''"
definition WILD1 :: string where "WILD1 = ''.*''"
definition WILD2 :: string where "WILD2 = ''*''"
definition WILD3 :: string where "WILD3 = ''.name''"
definition ABI_NAMELNGTH :: nat where "ABI_NAMELNGTH = 9"
definition NON_ABI_NAMELNGTH :: nat where "NON_ABI_NAMELNGTH = 32"

definition reserved :: "string \<Rightarrow> bool" where
  "reserved pkg \<longleftrightarrow> (\<exists>r \<in> set rsvrd. take (length r) pkg = r \<and> in_str NMBRK (deref_at pkg (length r)))"

text \<open>
  A character is accepted when it is a letter or a digit, or when \<open>strpbrk\<close> finds one of the two signs anywhere
  from it to the end of the name.
\<close>

definition name_char :: "string \<Rightarrow> bool" where
  "name_char p \<longleftrightarrow> isalnum (deref p) \<or> strpbrk p ''-+'' \<noteq> None"

primrec pkg_ext_ok :: "string \<Rightarrow> bool" where
  "pkg_ext_ok [] \<longleftrightarrow> True"
| "pkg_ext_ok (c # s) \<longleftrightarrow> name_char (c # s) \<and> pkg_ext_ok s"

text \<open>The characters up to the extension, and their number.\<close>

primrec stem_ok :: "string \<Rightarrow> nat option" where
  "stem_ok [] = Some 0"
| "stem_ok (c # s) =
     (if in_str NMBRK c then Some 0 else if name_char (c # s) then map_option Suc (stem_ok s) else None)"

definition check_stem :: "bool \<Rightarrow> bool \<Rightarrow> string \<Rightarrow> int" where
  "check_stem abi presvr4flg pkg =
     (if \<not> isalnum (deref pkg) \<or> (\<not> presvr4flg \<and> \<not> isalpha (deref pkg)) then - 1
      else (case stem_ok pkg of
        None \<Rightarrow> - 1
      | Some count \<Rightarrow> if count > (if abi then ABI_NAMELNGTH else NON_ABI_NAMELNGTH) then - 1 else 0))"

definition valname :: "bool \<Rightarrow> string \<Rightarrow> bool \<Rightarrow> bool \<Rightarrow> int" where
  "valname abi pkg wild presvr4flg =
     (if wild \<and> pkg = ''all'' then 0
      else if reserved pkg then 1
      else (case strpbrk pkg NMBRK of
        None \<Rightarrow> check_stem abi presvr4flg pkg
      | Some pt \<Rightarrow>
          if presvr4flg \<and> pt = WILD3 then 0
          else if pt = WILD1 \<or> pt = WILD2 then if \<not> wild then 1 else check_stem abi presvr4flg pkg
          else if \<not> pkg_ext_ok (tl pt) then - 1
          else if tl pt = [] \<or> length (tl pt) > 4 then - 1
          else check_stem abi presvr4flg pkg))"

definition is_wild :: "string \<Rightarrow> bool" where
  "is_wild spec \<longleftrightarrow> spec = WILD1 \<or> spec = WILD2 \<or> spec = WILD3"

text \<open>The comparison with the specification; both ends count as characters.\<close>

fun spec_match :: "string \<Rightarrow> string \<Rightarrow> int" where
  "spec_match pkg spec =
     (if deref pkg = deref spec \<and> \<not> is_wild spec then
        if pkg = [] then 0 else spec_match (tl pkg) (tl spec)
      else if is_wild spec \<and> (deref pkg = NUL \<or> deref pkg = CHR ''.'') then 0
      else if spec = [] \<and> pkg = WILD3 then 0
      else 1)"

declare spec_match.simps [simp del]

definition pkgnmchk :: "bool \<Rightarrow> string \<Rightarrow> string option \<Rightarrow> bool \<Rightarrow> int" where
  "pkgnmchk abi pkg spec presvr4flg =
     (if valname abi pkg (spec = None) presvr4flg \<noteq> 0 then 1
      else (case spec of
        None \<Rightarrow> 0
      | Some s \<Rightarrow> if s = ''all'' then 0 else spec_match pkg s))"

section \<open>Parameters of a package\<close>

definition MAXLEN :: nat where "MAXLEN = 256"
definition TOKLEN :: nat where "TOKLEN = 16"

definition too_long :: "string \<Rightarrow> nat \<Rightarrow> int" where "too_long pt len = (if length pt > len then 1 else 0)"

primrec not_ascii :: "string \<Rightarrow> int" where
  "not_ascii [] = 0"
| "not_ascii (c # s) = (if \<not> isascii c then 1 else not_ascii s)"

primrec not_alnum :: "string \<Rightarrow> int" where
  "not_alnum [] = 0"
| "not_alnum (c # s) = (if \<not> isalnum c then 1 else not_alnum s)"

definition isnull :: "string \<Rightarrow> int" where "isnull pt = (if pt = [] then 1 else 0)"

definition bad_first_char :: "string \<Rightarrow> int" where "bad_first_char v = (if deref v = CHR ''('' then 1 else 0)"

definition proc_name :: "string \<Rightarrow> int" where
  "proc_name v = (if isnull v \<noteq> 0 then isnull v else too_long v MAXLEN + not_ascii v)"

definition proc_version :: "string \<Rightarrow> int" where
  "proc_version v = (if isnull v \<noteq> 0 then isnull v else bad_first_char v + too_long v MAXLEN + not_ascii v)"

text \<open>The loops over the tokens that \<open>strtok\<close> gives.\<close>

function tok_sum :: "(string \<Rightarrow> int) \<Rightarrow> string \<Rightarrow> int" where
  "tok_sum f v = (case strtok_r '', '' v of None \<Rightarrow> 0 | Some (t, r) \<Rightarrow> f t + tok_sum f r)"
  by pat_completeness auto
termination
  by (relation "measure (\<lambda>(_, v). length v)") (auto dest: strtok_r_length)

declare tok_sum.simps [simp del]

definition proc_arch :: "string \<Rightarrow> int" where
  "proc_arch v = (if isnull v \<noteq> 0 then isnull v else tok_sum (\<lambda>t. too_long t TOKLEN + not_ascii t) v)"

definition proc_category :: "string \<Rightarrow> int" where
  "proc_category v = (if isnull v \<noteq> 0 then isnull v else tok_sum (\<lambda>t. too_long t TOKLEN + not_alnum t) v)"

definition ckparam :: "string \<Rightarrow> string \<Rightarrow> int" where
  "ckparam param val =
     (if param = ''NAME'' then proc_name val
      else if param = ''ARCH'' then proc_arch val
      else if param = ''VERSION'' then proc_version val
      else if param = ''CATEGORY'' then proc_category val
      else 0)"

section \<open>What the checks accept\<close>

lemma tok_sum_tokens: "tok_sum f v = sum_list (map f (tokens '', '' v))"
proof (induction f v rule: tok_sum.induct)
  case (1 f v)
  then show ?case
    using strtok_r_tokens[of "'', ''" v] by (subst tok_sum.simps) (auto split: option.splits)
qed

lemma not_ascii_0: "not_ascii s = 0 \<longleftrightarrow> (\<forall>c \<in> set s. isascii c)"
  by (induction s) auto

lemma not_alnum_0: "not_alnum s = 0 \<longleftrightarrow> (\<forall>c \<in> set s. isalnum c)"
  by (induction s) auto

lemma check_nonneg [simp]: "0 \<le> too_long s n" "0 \<le> not_ascii s" "0 \<le> not_alnum s" "0 \<le> bad_first_char s"
  by (simp_all add: too_long_def bad_first_char_def) (induction s; simp)+

lemma checks_0:
  assumes "\<And>t. 0 \<le> (f t :: int)"
  shows "sum_list (map f ts) = 0 \<longleftrightarrow> (\<forall>t \<in> set ts. f t = 0)"
  using assms by (subst sum_list_nonneg_eq_0_iff) auto

lemma too_long_0: "too_long s n = 0 \<longleftrightarrow> length s \<le> n"
  by (simp add: too_long_def)

lemma name_char_plain:
  assumes "set p \<inter> set ''-+'' = {}"
  shows "name_char p \<longleftrightarrow> isalnum (deref p)"
  using assms strpbrk_None[of p "''-+''"] by (auto simp: name_char_def)

lemma ext_plain: "set s \<inter> set ''-+'' = {} \<Longrightarrow> pkg_ext_ok s \<longleftrightarrow> (\<forall>c \<in> set s. isalnum c)"
  by (induction s) (auto simp: name_char_plain)

text \<open>The stem of a name: what precedes the first dot or star.\<close>

definition stem :: "string \<Rightarrow> string" where
  "stem pkg = takeWhile (\<lambda>c. c \<notin> set NMBRK) pkg"

definition extension :: "string \<Rightarrow> string" where
  "extension pkg = dropWhile (\<lambda>c. c \<notin> set NMBRK) pkg"

lemma alnum_not_break: "isalnum c \<Longrightarrow> c \<notin> set NMBRK"
  by (auto simp: NMBRK_def isalnum_def isalpha_def isupper_def islower_def isdigit_def)

lemma stem_ok_plain:
  assumes "set s \<inter> set ''-+'' = {}" "NUL \<notin> set s"
  shows "stem_ok s = (if \<forall>c \<in> set (stem s). isalnum c then Some (length (stem s)) else None)"
  using assms by (induction s) (auto simp: stem_def in_str_def name_char_plain)

lemma strpbrk_ext: "strpbrk pkg NMBRK = (if extension pkg = [] then None else Some (extension pkg))"
  unfolding strpbrk_def extension_def by (cases "dropWhile (\<lambda>c. c \<notin> set NMBRK) pkg") (simp_all del: dropWhile_eq_Nil_conv)

lemma set_mono_tl: "set (tl xs) \<subseteq> set xs"
  by (cases xs) auto

lemma reserved_stem:
  assumes "NUL \<notin> set pkg"
  shows "reserved pkg \<longleftrightarrow> stem pkg \<in> {''all'', ''install'', ''new''}"
proof -
  have one: "take (length r) pkg = r \<and> in_str NMBRK (deref_at pkg (length r)) \<longleftrightarrow> stem pkg = r"
    if "set r \<inter> set NMBRK = {}" for r
    using that assms
  proof (induction pkg arbitrary: r)
    case Nil
    then show ?case by (auto simp: stem_def in_str_def)
  next
    case (Cons c pkg)
    then show ?case by (cases r) (auto simp: stem_def in_str_def)
  qed
  show ?thesis using one[of "''all''"] one[of "''install''"] one[of "''new''"] by (simp add: reserved_def rsvrd_def NMBRK_def)
qed

text \<open>
  C23. Names without signs: \<open>pkgnmchk\<close> accepts a name for a package instance exactly when it begins with a letter, has only
  letters and digits, at most 32 of them (9 when the limit of the ABI is set), then nothing or a dot or star and one to four letters or
  digits, and the part before that is no reserved name.
\<close>

theorem pkgnmchk_plain_names:
  assumes "CHR ''-'' \<notin> set pkg" "CHR ''+'' \<notin> set pkg" "NUL \<notin> set pkg"
  shows "pkgnmchk abi pkg (Some ''all'') False = 0 \<longleftrightarrow>
     isalpha (deref pkg) \<and> (\<forall>c \<in> set (stem pkg). isalnum c) \<and> length (stem pkg) \<le> (if abi then 9 else 32) \<and>
     (extension pkg = [] \<or> (\<exists>e. (extension pkg = CHR ''.'' # e \<or> extension pkg = CHR ''*'' # e) \<and>
        1 \<le> length e \<and> length e \<le> 4 \<and> (\<forall>c \<in> set e. isalnum c))) \<and>
     stem pkg \<notin> {''all'', ''install'', ''new''}"
proof -
  have signs: "set pkg \<inter> set ''-+'' = {}" using assms by auto
  have parts: "pkg = stem pkg @ extension pkg" by (simp add: stem_def extension_def)
  then have e: "set (extension pkg) \<subseteq> set pkg" by (metis Un_upper2 set_append)
  have "set (tl (extension pkg)) \<inter> set ''-+'' = {}"
    using e assms(1,2) set_mono_tl[of "extension pkg"] by auto
  then have x: "pkg_ext_ok (tl (extension pkg)) \<longleftrightarrow> (\<forall>c \<in> set (tl (extension pkg)). isalnum c)" by (rule ext_plain)
  have hd: "extension pkg = [] \<or> (\<exists>t. extension pkg = CHR ''.'' # t \<or> extension pkg = CHR ''*'' # t)"
  proof (cases "extension pkg")
    case (Cons c t)
    then have "c \<in> set NMBRK" using hd_dropWhile[of "\<lambda>c. c \<notin> set NMBRK" pkg] by (metis extension_def list.discI list.sel(1))
    then show ?thesis using Cons by (auto simp: NMBRK_def)
  qed simp
  have st: "check_stem abi False pkg = 0 \<longleftrightarrow> isalpha (deref pkg) \<and> (\<forall>c \<in> set (stem pkg). isalnum c) \<and>
      length (stem pkg) \<le> (if abi then 9 else 32)"
    by (auto simp: check_stem_def stem_ok_plain[OF signs assms(3)] ABI_NAMELNGTH_def NON_ABI_NAMELNGTH_def isalnum_def)
  have "\<not> isalnum (CHR ''*'')" by (simp add: isalnum_def isalpha_def isupper_def islower_def isdigit_def)
  then have ext: "(case extension pkg of [] \<Rightarrow> check_stem abi False pkg | _ # t \<Rightarrow>
        if extension pkg = WILD1 \<or> extension pkg = WILD2 then 1 else if \<not> pkg_ext_ok t then - 1
        else if t = [] \<or> length t > 4 then - 1 else check_stem abi False pkg) = 0 \<longleftrightarrow>
      check_stem abi False pkg = 0 \<and> (extension pkg = [] \<or> (\<exists>e. (extension pkg = CHR ''.'' # e \<or> extension pkg = CHR ''*'' # e) \<and>
        1 \<le> length e \<and> length e \<le> 4 \<and> (\<forall>c \<in> set e. isalnum c)))"
    using hd x by (elim disjE exE) (auto simp: WILD1_def WILD2_def Suc_le_eq)
  have "pkgnmchk abi pkg (Some ''all'') False = 0 \<longleftrightarrow> \<not> reserved pkg \<and> (case extension pkg of [] \<Rightarrow> check_stem abi False pkg | _ # t \<Rightarrow>
        if extension pkg = WILD1 \<or> extension pkg = WILD2 then 1 else if \<not> pkg_ext_ok t then - 1
        else if t = [] \<or> length t > 4 then - 1 else check_stem abi False pkg) = 0"
    by (simp add: pkgnmchk_def valname_def strpbrk_ext split: list.split)
  then show ?thesis unfolding ext st reserved_stem[OF assms(3)] by blast
qed

theorem pkgnmchk_plain_names_witness:
  "pkgnmchk False ''SUNWcsr.2'' (Some ''all'') False = 0 \<and> pkgnmchk True ''SUNWcsrmore'' (Some ''all'') False \<noteq> 0"
proof -
  have "isalpha (CHR ''S'')" "\<forall>c \<in> set ''SUNWcsrmore2''. isalnum c"
    by (simp_all add: isalnum_def isalpha_def isupper_def islower_def isdigit_def)
  then show ?thesis
    using pkgnmchk_plain_names[of "''SUNWcsr.2''" False] pkgnmchk_plain_names[of "''SUNWcsrmore''" True]
    by (simp add: stem_def extension_def NMBRK_def)
qed

text \<open>
  C40. A sign at the end lets everything pass: behind a first letter any characters without dot, star and NUL are accepted,
  slashes too, when a minus sign follows them. The name then leads out of the directory of the packages.
\<close>

theorem pkgnmchk_sign_admits:
  assumes "isalpha c" "set s \<inter> set ''.*'' = {}" "NUL \<notin> set s" "length s \<le> 30"
  shows "pkgnmchk False (c # s @ ''-'') (Some ''all'') False = 0"
proof -
  have c: "isalnum c" "c \<notin> set NMBRK" "c \<noteq> NUL"
    using assms(1) alnum_not_break by (auto simp: isalnum_def isalpha_def isupper_def islower_def)
  have n: "\<forall>x \<in> set (c # s @ ''-''). x \<notin> set NMBRK" using c assms(2) by (auto simp: NMBRK_def)
  have "stem_ok (t @ ''-'') = Some (length t + 1)" if "set t \<inter> set NMBRK = {}" "NUL \<notin> set t" for t
    using that
  proof (induction t)
    case Nil
    then show ?case by (simp add: in_str_def NMBRK_def name_char_def strpbrk_def)
  next
    case (Cons x t)
    then have "name_char (x # t @ ''-'')" using strpbrk_None[of "x # t @ ''-''" "''-+''"] by (auto simp: name_char_def)
    then show ?case using Cons by (auto simp: in_str_def)
  qed
  from this[of "c # s"] have k: "stem_ok (c # s @ ''-'') = Some (length s + 2)" using c assms(2,3) by (auto simp: NMBRK_def simp del: stem_ok.simps)
  have "stem (c # s @ ''-'') = c # s @ ''-''" using n unfolding stem_def by (simp add: takeWhile_eq_all_conv)
  then have "\<not> reserved (c # s @ ''-'')"
    using reserved_stem[of "c # s @ ''-''"] assms(3) c(3) by (auto simp: append_eq_Cons_conv Cons_eq_append_conv)
  moreover have "strpbrk (c # s @ ''-'') NMBRK = None" using n by (subst strpbrk_None) auto
  ultimately show ?thesis
    using k assms(1,4) c by (simp add: pkgnmchk_def valname_def check_stem_def NON_ABI_NAMELNGTH_def)
qed

theorem pkgnmchk_sign_admits_witness: "pkgnmchk False ''a/b/c-'' (Some ''all'') False = 0"
  using pkgnmchk_sign_admits[of "CHR ''a''" "''/b/c''"] by (simp add: isalpha_def islower_def)

lemma spec_match_instance:
  assumes "set x \<inter> set ''.*'' = {}" "NUL \<notin> set x" "NUL \<notin> set pkg"
  shows "spec_match pkg (x @ ''.*'') = 0 \<longleftrightarrow> pkg = x \<or> (\<exists>e. pkg = x @ CHR ''.'' # e)"
  using assms
proof (induction x arbitrary: pkg)
  case Nil
  then show ?case by (subst spec_match.simps) (cases pkg; auto simp: is_wild_def WILD1_def)
next
  case (Cons c x)
  have w: "\<not> is_wild (c # x @ ''.*'')" using Cons.prems by (auto simp: is_wild_def WILD1_def WILD2_def WILD3_def)
  show ?case
  proof (cases pkg)
    case Nil
    then show ?thesis using w Cons.prems by (subst spec_match.simps) auto
  next
    case (Cons d p)
    then show ?thesis using w Cons.prems Cons.IH[of p] by (subst spec_match.simps) auto
  qed
qed

text \<open>
  The specification \<open>x.*\<close> selects the instances of a package: with it \<open>pkgnmchk\<close> accepts, of the names it accepts at all, exactly \<open>x\<close> itself
  and the names that continue \<open>x\<close> with a dot.
\<close>

theorem pkgnmchk_instances:
  assumes "set x \<inter> set ''.*'' = {}" "NUL \<notin> set x" "NUL \<notin> set pkg"
  shows "pkgnmchk abi pkg (Some (x @ ''.*'')) presvr4 = 0 \<longleftrightarrow>
     pkgnmchk abi pkg (Some ''all'') presvr4 = 0 \<and> (pkg = x \<or> (\<exists>e. pkg = x @ CHR ''.'' # e))"
proof -
  have "x @ ''.*'' \<noteq> ''all''" by (auto simp: append_eq_Cons_conv)
  then show ?thesis using spec_match_instance[OF assms] by (simp add: pkgnmchk_def)
qed

theorem pkgnmchk_instances_witness:
  "pkgnmchk False ''SUNWa.2'' (Some ''SUNWa.*'') False = pkgnmchk False ''SUNWa.2'' (Some ''all'') False"
proof -
  have "(pkgnmchk False ''SUNWa.2'' (Some (''SUNWa'' @ ''.*'')) False = 0) = (pkgnmchk False ''SUNWa.2'' (Some ''all'') False = 0)"
    using pkgnmchk_instances[of "''SUNWa''" "''SUNWa.2''" False False] by simp
  moreover have "pkgnmchk abi p q f = 0 \<or> pkgnmchk abi p q f = 1" for abi p q f
  proof -
    have "spec_match p t = 0 \<or> spec_match p t = 1" for p t
      by (induction p t rule: spec_match.induct) (subst (1 2) spec_match.simps, auto)
    then show ?thesis by (auto simp: pkgnmchk_def split: option.split)
  qed
  ultimately show ?thesis by (metis append_Cons append_Nil)
qed

text \<open>
  \<open>ckparam\<close> accepts exactly the documented values: a name and a version of at most 256 ASCII characters, the version without
  a parenthesis in front, architectures of at most 16 ASCII characters and categories of at most 16 letters and digits,
  separated by commas and blanks; none may be empty, and other parameters are free.
\<close>

theorem ckparam_accepts:
  "ckparam p v = 0 \<longleftrightarrow>
     (if p = ''NAME'' then v \<noteq> [] \<and> length v \<le> 256 \<and> (\<forall>c \<in> set v. isascii c)
      else if p = ''VERSION'' then v \<noteq> [] \<and> hd v \<noteq> CHR ''('' \<and> length v \<le> 256 \<and> (\<forall>c \<in> set v. isascii c)
      else if p = ''ARCH'' then v \<noteq> [] \<and> (\<forall>t \<in> set (tokens '', '' v). length t \<le> 16 \<and> (\<forall>c \<in> set t. isascii c))
      else if p = ''CATEGORY'' then v \<noteq> [] \<and> (\<forall>t \<in> set (tokens '', '' v). length t \<le> 16 \<and> (\<forall>c \<in> set t. isalnum c))
      else True)"
proof -
  have z2: "(a :: int) + b = 0 \<longleftrightarrow> a = 0 \<and> b = 0" if "0 \<le> a" "0 \<le> b" for a b using that by linarith
  have "proc_name v = 0 \<longleftrightarrow> v \<noteq> [] \<and> length v \<le> 256 \<and> (\<forall>c \<in> set v. isascii c)"
    by (simp add: proc_name_def isnull_def z2 not_ascii_0 too_long_0 MAXLEN_def)
  moreover have "proc_version v = 0 \<longleftrightarrow> v \<noteq> [] \<and> hd v \<noteq> CHR ''('' \<and> length v \<le> 256 \<and> (\<forall>c \<in> set v. isascii c)"
    by (cases v) (auto simp: proc_version_def isnull_def z2 not_ascii_0 too_long_0 MAXLEN_def bad_first_char_def)
  moreover have "proc_arch v = 0 \<longleftrightarrow> v \<noteq> [] \<and> (\<forall>t \<in> set (tokens '', '' v). length t \<le> 16 \<and> (\<forall>c \<in> set t. isascii c))"
    by (simp add: proc_arch_def isnull_def tok_sum_tokens checks_0 z2 not_ascii_0 too_long_0 TOKLEN_def)
  moreover have "proc_category v = 0 \<longleftrightarrow> v \<noteq> [] \<and> (\<forall>t \<in> set (tokens '', '' v). length t \<le> 16 \<and> (\<forall>c \<in> set t. isalnum c))"
    by (simp add: proc_category_def isnull_def tok_sum_tokens checks_0 z2 not_alnum_0 too_long_0 TOKLEN_def)
  ultimately show ?thesis by (simp add: ckparam_def)
qed

theorem ckparam_accepts_witness:
  "ckparam ''CATEGORY'' ''system, utility'' = 0 \<and> ckparam ''VERSION'' ''(1'' \<noteq> 0 \<and> ckparam ''EMAIL'' [] = 0"
proof -
  have "tokens '', '' ''system, utility'' = [''system'', ''utility'']" by (simp add: tokens_def)
  then show ?thesis
    using ckparam_accepts[of "''CATEGORY''" "''system, utility''"] ckparam_accepts[of "''VERSION''" "''(1''"] ckparam_accepts[of "''EMAIL''" "[]"]
    by (simp add: isalnum_def isalpha_def islower_def)
qed

end
