(* ===== verification/Merginfo.thy ===== *)
theory Merginfo
  imports Parmread Pkgnm Sml
begin

text \<open>
  The parameters of a package between its \<open>pkginfo\<close> file and the environment (\<open>pkgcmds/pkginstall\<close>): \<open>pkgenv\<close> loads the file of the new package,
  \<open>merg_pkginfos\<close> adds what an installed instance has, \<open>merginfo\<close> writes the file of the installed package. Messages are left out, and the copying
  of scripts in \<open>merginfo\<close>.
\<close>

section \<open>The loop over the parameters of a file\<close>

lemma param_loop_shorter: "param_loop pcap p s = Inr (Inr v, p', r) \<Longrightarrow> length r < length s"
proof (induction s arbitrary: p rule: length_induct)
  case (1 s)
  obtain c nm r0 where n: "get_name 0 [] s = Some (c, nm, r0)"
    using "1.prems" by (subst (asm) param_loop.simps) (auto split: option.splits)
  have r0: "length r0 < length s" by (rule get_name_shorter[OF n])
  show ?case
  proof (cases "c = NL")
    case True
    then have "param_loop pcap p r0 = Inr (Inr v, p', r)" using "1.prems" n by (subst (asm) param_loop.simps) simp
    then show ?thesis using "1.IH" r0 by force
  next
    case False
    then obtain w q e u r1 where t: "take_param pcap p nm = Inr (w, q)" "value_loop r0 (pval0 w) = Inr (e, u, r1)"
      using "1.prems" n by (subst (asm) param_loop.simps) (auto split: sum.splits)
    have r1: "length r1 < length s" using value_loop_le[OF t(2)] r0 by simp
    show ?thesis
    proof (cases "v_copy u")
      case None
      then have "param_loop pcap q r1 = Inr (Inr v, p', r)"
        using "1.prems" n False t by (subst (asm) param_loop.simps) (auto split: if_splits)
      then show ?thesis using "1.IH" r1 by force
    next
      case (Some b)
      then have "r = r1" using "1.prems" n False t by (subst (asm) param_loop.simps) (auto split: if_splits)
      then show ?thesis using r1 by simp
    qed
  qed
qed

text \<open>\<open>while (value = fpkgparam(fp, param))\<close> with \<open>param\<close> cleared each time; the body says whether to go on.\<close>

function each_param :: "nat \<Rightarrow> (string \<Rightarrow> string \<Rightarrow> 's \<Rightarrow> (bool \<times> 's) res) \<Rightarrow> string \<Rightarrow> 's \<Rightarrow> 's res" where
  "each_param pcap body fp s =
     (case fpkgparam pcap fp (Some []) of
        Inl f \<Rightarrow> Inl f
      | Inr (Inl _, _, _) \<Rightarrow> Inr s
      | Inr (Inr value, param, r) \<Rightarrow>
          (case body param value s of
             Inl f \<Rightarrow> Inl f
           | Inr (go, s') \<Rightarrow> if go then each_param pcap body r s' else Inr s'))"
  by pat_completeness auto
termination
  by (relation "measure (\<lambda>(_, _, fp, _). length fp)") (auto simp: fpkgparam_def param_loop_shorter)

declare each_param.simps [simp del]

definition MAX_PKG_PARAM_LENGTH :: nat where "MAX_PKG_PARAM_LENGTH = 65"

section \<open>Loading the parameters of a package\<close>

definition load_param :: "string \<Rightarrow> string \<Rightarrow> env_arr \<Rightarrow> (bool \<times> env_arr) res" where
  "load_param param value a = rbind (if param \<noteq> ''PATH'' then putparam param value a else Inr a) (\<lambda>a'. Inr (True, a'))"

text \<open>The number of errors, and the environment. \<open>pkgmap\<close> says whether the map is there, \<open>pkginfo\<close> is the text of the file.\<close>

definition pkgenv :: "bool \<Rightarrow> string \<Rightarrow> bool \<Rightarrow> string option \<Rightarrow> env_arr \<Rightarrow> (int \<times> env_arr) res" where
  "pkgenv abi pkginst p_pkgmap p_pkginfo env =
     (if \<not> p_pkgmap then Inr (1, env)
      else (case p_pkginfo of
        None \<Rightarrow> Inr (1, env)
      | Some fp \<Rightarrow>
          rbind (each_param MAX_PKG_PARAM_LENGTH load_param fp env) (\<lambda>a.
          case getenv a ''PKG'' of
            None \<Rightarrow> Inl NullDeref
          | Some pkgabrv \<Rightarrow>
              let bad = pkgnmchk abi pkgabrv None False \<noteq> 0 \<or> CHR ''.'' \<in> set pkgabrv;
                  missing = length (filter (\<lambda>n. getenv a n = None) [''NAME'', ''ARCH'', ''VERSION'', ''CATEGORY'']);
                  wrong = pkgnmchk abi pkginst (Some (take (MAX_PKG_PARAM_LENGTH - 1) (pkgabrv @ ''.*''))) False \<noteq> 0 in
              Inr ((if bad then 1 else 0) + int missing + (if wrong then 1 else 0), a))))"

section \<open>Keeping the parameters of an installed package\<close>

definition PKG_THISZONE_VARIABLE :: string where "PKG_THISZONE_VARIABLE = ''SUNW_PKG_THISZONE''"
definition PKG_ALLZONES_VARIABLE :: string where "PKG_ALLZONES_VARIABLE = ''SUNW_PKG_ALLZONES''"
definition PKG_HOLLOW_VARIABLE :: string where "PKG_HOLLOW_VARIABLE = ''SUNW_PKG_HOLLOW''"

definition zone_names :: "string list" where
  "zone_names = [PKG_ALLZONES_VARIABLE, PKG_THISZONE_VARIABLE, PKG_HOLLOW_VARIABLE]"

record merg_st =
  m_env :: env_arr
  m_cl :: clstate
  m_pclass :: "cl_attr list option"
  m_mpclass :: "(cl_attr list option) option"
  m_adm_basedir :: "string option"
  m_srcinst :: string
  m_zone :: "string \<Rightarrow> string"
  m_retcode :: int

text \<open>The value of the environment for \<open>BASEDIR\<close>: the installed one wins, unless the administrator asks for another.\<close>

definition merg_basedir :: "string \<Rightarrow> merg_st \<Rightarrow> (bool \<times> merg_st) res" where
  "merg_basedir oldValue s =
     (let adm = m_adm_basedir s;
          keep = (\<lambda>s'. rbind (putparam ''BASEDIR'' oldValue (m_env s')) (\<lambda>e. Inr (True, s'\<lparr>m_env := e\<rparr>))) in
      case adm of
        Some d \<Rightarrow>
          if d \<noteq> [] \<and> hd d \<in> set ''/$'' then
            (let s1 = s\<lparr>m_srcinst := takeWhile (\<lambda>c. c \<noteq> CHR ''.'') (m_srcinst s)\<rparr> in
             if oldValue \<noteq> d then Inr (False, s1\<lparr>m_retcode := 4\<rparr>) else keep s1)
          else if d = ''ask'' then keep (s\<lparr>m_adm_basedir := Some ''update''\<rparr>)
          else keep s
      | None \<Rightarrow> keep s)"

definition is_false :: "string \<Rightarrow> bool" where
  "is_false v \<longleftrightarrow> strcaseeq v ''false''"

definition merg_param :: "string \<Rightarrow> string \<Rightarrow> merg_st \<Rightarrow> (bool \<times> merg_st) res" where
  "merg_param param oldValue s0 =
     (let zone = param \<in> set zone_names;
          s = (if zone then s0\<lparr>m_zone := (m_zone s0)(param := strlcpy oldValue MAX_PKG_PARAM_LENGTH)\<rparr> else s0) in
      if param = ''CLASSES'' then
        rbind (setlist (getenv (m_env s)) oldValue (m_cl s)) (\<lambda>(_, l, c).
        Inr (True, s\<lparr>m_cl := c, m_pclass := l, m_mpclass := Some l\<rparr>))
      else if param = ''BASEDIR'' then merg_basedir oldValue s
      else (case getenv (m_env s) param of
        None \<Rightarrow>
          if zone \<and> \<not> is_false oldValue then Inr (False, s\<lparr>m_retcode := 1\<rparr>)
          else rbind (putparam param oldValue (m_env s)) (\<lambda>e. Inr (True, s\<lparr>m_env := e\<rparr>))
      | Some newValue \<Rightarrow>
          if newValue = oldValue then Inr (True, s)
          else if zone then Inr (False, s\<lparr>m_retcode := 1\<rparr>)
          else Inr (True, s)))"

text \<open>A zone attribute that the installed package has not may only be false.\<close>

definition zone_added :: "merg_st \<Rightarrow> string \<Rightarrow> bool" where
  "zone_added s z \<longleftrightarrow> (case getenv (m_env s) z of None \<Rightarrow> False | Some v \<Rightarrow> m_zone s z = [] \<and> \<not> is_false v)"

definition merg_pkginfos :: "string option \<Rightarrow> merg_st \<Rightarrow> (int \<times> merg_st) res" where
  "merg_pkginfos installed s0 =
     (case installed of
        None \<Rightarrow> Inr (99, s0)
      | Some fp \<Rightarrow>
          rbind (each_param MAX_PKG_PARAM_LENGTH merg_param fp (s0\<lparr>m_zone := (\<lambda>_. []), m_retcode := 0\<rparr>)) (\<lambda>s.
          if m_retcode s \<noteq> 0 then Inr (m_retcode s, s)
          else if \<exists>z \<in> set zone_names. zone_added s z then Inr (1, s)
          else Inr (0, s)))"

section \<open>Writing the parameters of the installed package\<close>

datatype tbl_flag = FLAG_NONE | FLAG_EXCLUDE | FLAG_IDENTICAL

definition attrTbl :: "(string \<times> tbl_flag) list" where
  "attrTbl = [(''BASEDIR='', FLAG_EXCLUDE), (''CLASSES='', FLAG_EXCLUDE), (''CLIENT_BASEDIR='', FLAG_EXCLUDE),
     (''INST_DATADIR='', FLAG_EXCLUDE), (''PKG_CAS_PASSRELATIVE='', FLAG_EXCLUDE), (''PKG_DST_QKVERIFY='', FLAG_EXCLUDE),
     (''PKG_INIT_INSTALL='', FLAG_EXCLUDE), (''PKG_INSTALL_ROOT='', FLAG_EXCLUDE), (''PKG_SRC_NOVERIFY='', FLAG_EXCLUDE),
     (''SUNW_PKGCOND_GLOBAL_DATA='', FLAG_EXCLUDE), (''SUNW_PKG_ALLZONES='', FLAG_IDENTICAL), (''SUNW_PKG_DIR='', FLAG_EXCLUDE),
     (''SUNW_PKG_HOLLOW='', FLAG_IDENTICAL), (''SUNW_PKG_INSTALL_ZONENAME='', FLAG_EXCLUDE), (''SUNW_PKG_THISZONE='', FLAG_IDENTICAL)]"

definition attr_name :: "nat \<Rightarrow> string" where "attr_name i = fst (attrTbl ! i)"

fun attr_loop :: "string \<Rightarrow> nat \<Rightarrow> nat \<Rightarrow> nat option" where
  "attr_loop ep incr pos =
     (if incr = 0 then None
      else
       (let r = strncmp (attr_name pos) ep (length (attr_name pos)); incr' = incr div 2 in
        if r = 0 then Some pos
        else attr_loop ep incr' (if r < 0 then pos + incr' else pos - incr')))"

declare attr_loop.simps [simp del]

definition attr_find :: "string \<Rightarrow> nat option" where
  "attr_find ep =
     (let n = length attrTbl in
      if strncmp ep (attr_name 0) (length (attr_name 0)) < 0 then None
      else if strncmp ep (attr_name (n - 1)) (length (attr_name (n - 1))) > 0 then None
      else attr_loop ep (n div 2 + 1) (n div 2))"

text \<open>
  What the caller of \<open>merginfo\<close> has set: flags of the installation, where \<open>i_update\<close> is \<open>isPatchUpdate() || isUpdate()\<close>, and the data of
  the package.
\<close>

record info_in =
  i_pspool :: bool
  i_update :: bool
  i_infoloc :: "string option"
  i_pkginst :: string

text \<open>An attribute that must not change is looked up in the installed file.\<close>

definition same_attr :: "string option \<Rightarrow> nat \<Rightarrow> string \<Rightarrow> bool mrg" where
  "same_attr installed i ep =
     (case installed of
        None \<Rightarrow> MOk True
      | Some t \<Rightarrow>
          mbind (mlift (fpkgparam (PATH_MAX + 1) t (Some (butlast (attr_name i))))) (\<lambda>(trg, _, _).
          MOk (trg = Inr (drop (length (attr_name i)) ep))))"

definition put_entry :: "info_in \<Rightarrow> string \<Rightarrow> string mrg" where
  "put_entry x ep =
     (if take 7 ep = ''PKGSAV='' then
        (case i_infoloc x of
           None \<Rightarrow> MFault NullDeref
         | Some l \<Rightarrow> MOk (''PKGSAV='' @ l @ ''/'' @ i_pkginst x @ ''/save'' @ [NL]))
      else if take 7 ep = ''UPDATE='' \<and> i_pspool x \<and> \<not> i_update x then MOk []
      else MOk (ep @ [NL]))"

definition info_entry :: "info_in \<Rightarrow> string option \<Rightarrow> string \<Rightarrow> string mrg" where
  "info_entry x installed ep =
     (case attr_find ep of
        None \<Rightarrow> put_entry x ep
      | Some i \<Rightarrow>
          if snd (attrTbl ! i) = FLAG_EXCLUDE then MOk []
          else if snd (attrTbl ! i) = FLAG_IDENTICAL then
            mbind (same_attr installed i ep) (\<lambda>ok. if ok then put_entry x ep else MQuit 1)
          else put_entry x ep)"

primrec info_entries :: "info_in \<Rightarrow> string option \<Rightarrow> string list \<Rightarrow> string mrg" where
  "info_entries x installed [] = MOk []"
| "info_entries x installed (ep # es) =
     mbind (info_entry x installed ep) (\<lambda>a. mbind (info_entries x installed es) (\<lambda>b. MOk (a @ b)))"

text \<open>
  The list of classes. Whether a class of the list manager is written depends on the classes of \<open>pclass\<close> alone: the loop looks
  them up, not the class at hand.
\<close>

definition class_names :: "cl_attr list option \<Rightarrow> clstate \<Rightarrow> (string list) res" where
  "class_names pclass c =
     (let own = (case cl_Classes c of None \<Rightarrow> [] | Some l \<Rightarrow> map cl_name (take (nat (cl_getn c)) l)) in
      case pclass of
        None \<Rightarrow> Inr own
      | Some [] \<Rightarrow> Inl NullDeref
      | Some l \<Rightarrow> Inr (map cl_name l @ (if \<exists>k \<in> set l. cl_idx c (cl_name k) \<noteq> - 1 then [] else own)))"

definition basedir_text :: "fixst \<Rightarrow> string res" where
  "basedir_text s =
     (if is_a_basedir s then (case get_info_basedir s of None \<Rightarrow> Inl NullDeref | Some d \<Rightarrow> Inr d) else Inr ''/'')"

definition info_text ::
  "info_in \<Rightarrow> cl_attr list option \<Rightarrow> clstate \<Rightarrow> fixst \<Rightarrow> string option \<Rightarrow> env_arr \<Rightarrow> string mrg" where
  "info_text x pclass c s installed env =
     mbind (mlift (class_names pclass c)) (\<lambda>cls.
     mbind (mlift (basedir_text s)) (\<lambda>bd.
     case env_list env of
       None \<Rightarrow> MFault NullDeref
     | Some es \<Rightarrow>
         mbind (info_entries x installed es) (\<lambda>t.
         MOk (''CLASSES='' @ join_sep SP cls @ [NL] @ ''BASEDIR='' @ bd @ [NL] @ t))))"

text \<open>Which file is the installed one, and the file that is written. The file system is an argument.\<close>

definition info_path :: "string \<Rightarrow> string option \<Rightarrow> bool \<Rightarrow> string \<Rightarrow> string \<Rightarrow> string" where
  "info_path vsadmdir root spool saveSpool pkginst =
     (if spool then saveSpool @ ''/pkginfo''
      else (case root of Some r \<Rightarrow> if r \<noteq> ''/'' then r else [] | None \<Rightarrow> []) @ vsadmdir @ ''/pkg/'' @ pkginst @ ''/pkginfo'')"

definition merginfo ::
  "string \<Rightarrow> (string \<Rightarrow> string option) \<Rightarrow> (string \<Rightarrow> bool) \<Rightarrow> bool \<Rightarrow> string \<Rightarrow> string \<Rightarrow> info_in \<Rightarrow> cl_attr list option \<Rightarrow> clstate \<Rightarrow> fixst \<Rightarrow> env_arr \<Rightarrow>
    (string \<times> string \<times> fixst) mrg" where
  "merginfo vsadmdir files writable spool saveSpool pkgloc x pclass c s env =
     (let src = info_path vsadmdir (install_root s) spool saveSpool (i_pkginst x); dst = pkgloc @ ''/pkginfo'' in
      if length src > PATH_MAX \<or> length dst > PATH_MAX then MQuit 1
      else
       (let src' = take (PATH_MAX - 1) src; dst' = take (PATH_MAX - 1) dst;
            installed = (if src' = dst' then None else files src') in
        if \<not> writable dst' then MQuit 99
        else mbind (info_text x pclass c s installed env) (\<lambda>t. MOk (dst', t, s\<lparr>ir_accessed := True\<rparr>))))"

text \<open>The place of the saved files as the client sees it.\<close>

definition set_infoloc :: "string option \<Rightarrow> fixst \<Rightarrow> string option \<Rightarrow> (string option) mrg" where
  "set_infoloc pth s infoloc =
     (case pth of
        None \<Rightarrow> MOk infoloc
      | Some p \<Rightarrow>
          if p = [] then MOk infoloc
          else if is_an_inst_root s then orig_path pth s
          else MOk (Some p))"

end
