(* ===== verification/Mergattr.thy ===== *)
theory Mergattr
  imports Merginfo
begin

text \<open>
  The search in the table of attributes equals a look at every row, and what it decides for a parameter.
\<close>

lemma strncmp_sym0: "strncmp a b n = 0 \<longleftrightarrow> strncmp b a n = 0"
  by (induction n arbitrary: a b) (auto simp: Let_def)

lemma strncmp_self: "strncmp (a @ r) a (length a) = 0" "strncmp a (a @ r) (length a) = 0"
proof -
  show *: "strncmp (a @ r) a (length a) = 0" by (induction a) (auto simp: Let_def)
  show "strncmp a (a @ r) (length a) = 0" using * strncmp_sym0 by blast
qed

lemma attr_names:
  "attr_name 0 = ''BASEDIR=''" "attr_name (Suc 0) = ''CLASSES=''" "attr_name 2 = ''CLIENT_BASEDIR=''" "attr_name (Suc (Suc 0)) = ''CLIENT_BASEDIR=''" "attr_name 3 = ''INST_DATADIR=''"
  "attr_name 4 = ''PKG_CAS_PASSRELATIVE=''" "attr_name 5 = ''PKG_DST_QKVERIFY=''" "attr_name 6 = ''PKG_INIT_INSTALL=''"
  "attr_name 7 = ''PKG_INSTALL_ROOT=''" "attr_name 8 = ''PKG_SRC_NOVERIFY=''" "attr_name 9 = ''SUNW_PKGCOND_GLOBAL_DATA=''"
  "attr_name 10 = ''SUNW_PKG_ALLZONES=''" "attr_name 11 = ''SUNW_PKG_DIR=''" "attr_name 12 = ''SUNW_PKG_HOLLOW=''"
  "attr_name 13 = ''SUNW_PKG_INSTALL_ZONENAME=''" "attr_name 14 = ''SUNW_PKG_THISZONE=''"
  by (simp_all add: attr_name_def attrTbl_def)

lemma attr_table_size: "length attrTbl = 15"
  by (simp add: attrTbl_def)

lemma below_15: "i < 15 \<Longrightarrow> (i :: nat) \<in> {0, Suc 0, 2, 3, 4, 5, 6, 7, 8, 9, 10, 11, 12, 13, 14}"
  by (simp, presburger)

text \<open>A row is found behind its name, whatever follows.\<close>

lemma attr_find_row:
  assumes "i < 15"
  shows "attr_find (attr_name i @ r) = Some i"
  using below_15[OF assms]
  by (elim insertE emptyE) (simp_all add: attr_find_def attr_table_size Let_def attr_names attr_loop.simps)

text \<open>The search stays in the table.\<close>

lemma attr_loop_hit:
  assumes "attr_loop ep incr pos = Some i" "incr \<le> pos + 1" "pos + incr \<le> 15"
  shows "i < 15 \<and> strncmp (attr_name i) ep (length (attr_name i)) = 0"
  using assms
proof (induction ep incr pos rule: attr_loop.induct)
  case (1 ep incr pos)
  let ?r = "strncmp (attr_name pos) ep (length (attr_name pos))"
  have k: "incr \<noteq> 0" using "1.prems"(1) by (subst (asm) attr_loop.simps) (auto split: if_splits)
  show ?case
  proof (cases "?r = 0")
    case True
    then show ?thesis using "1.prems" k by (subst (asm) attr_loop.simps) simp
  next
    case False
    have "attr_loop ep (incr div 2) (if ?r < 0 then pos + incr div 2 else pos - incr div 2) = Some i"
      using "1.prems"(1) k False by (subst (asm) attr_loop.simps) (simp add: Let_def)
    then show ?thesis using "1.IH"[OF k refl refl False] "1.prems"(2,3) k by (auto split: if_splits)
  qed
qed

lemma attr_find_linear:
  assumes "NUL \<notin> set ep"
  shows "attr_find ep = find (\<lambda>i. take (length (attr_name i)) ep = attr_name i) [0..<length attrTbl]"
proof -
  have nul: "NUL \<notin> set (attr_name i)" if "i < 15" for i
    using below_15[OF that] by (elim insertE emptyE) (simp_all add: attr_names)
  show ?thesis
  proof (cases "find (\<lambda>i. take (length (attr_name i)) ep = attr_name i) [0..<length attrTbl]")
    case (Some i)
    then have i: "i < 15" "take (length (attr_name i)) ep = attr_name i"
      by (auto simp: find_Some_iff attr_table_size)
    then have "attr_find (attr_name i @ drop (length (attr_name i)) ep) = Some i" using attr_find_row by blast
    then show ?thesis using Some i(2) by (metis append_take_drop_id)
  next
    case None
    then have no: "\<forall>i < 15. take (length (attr_name i)) ep \<noteq> attr_name i" by (auto simp: find_None_iff attr_table_size)
    have "attr_loop ep 8 7 \<noteq> Some i" for i
      using attr_loop_hit[of ep 8 7 i] no nul[of i] strncmp_prefix[of "attr_name i" ep] strncmp_sym0 by auto
    then have "attr_loop ep 8 7 = None" by auto
    then show ?thesis using None by (simp add: attr_find_def attr_table_size)
  qed
qed

text \<open>
  C19. The binary search of \<open>merginfo\<close> equals a look at every row: it gives the row whose name, with its equals sign, begins the
  entry of the environment, and none when there is no such row.
\<close>

theorem attr_find_correct:
  assumes "NUL \<notin> set ep"
  shows "attr_find ep = find (\<lambda>i. take (length (attr_name i)) ep = attr_name i) [0..<length attrTbl]"
  by (rule attr_find_linear[OF assms])

theorem attr_find_correct_witness:
  "attr_find ''SUNW_PKG_HOLLOW=true'' = find (\<lambda>i. take (length (attr_name i)) ''SUNW_PKG_HOLLOW=true'' = attr_name i) [0..<length attrTbl]"
  by (rule attr_find_correct) simp

section \<open>The row of a parameter\<close>

lemma name_prefix:
  assumes "good_name n" "good_name m"
  shows "take (Suc (length m)) (n @ ''='' @ v) = m @ ''='' \<longleftrightarrow> n = m"
proof
  assume t: "take (Suc (length m)) (n @ ''='' @ v) = m @ ''=''"
  define r where "r = drop (Suc (length m)) (n @ ''='' @ v)"
  have "n @ CHR ''='' # v = m @ CHR ''='' # r"
    using append_take_drop_id[of "Suc (length m)" "n @ ''='' @ v"] unfolding t r_def by simp
  then have "takeWhile (\<lambda>c. c \<noteq> CHR ''='') (n @ CHR ''='' # v) = takeWhile (\<lambda>c. c \<noteq> CHR ''='') (m @ CHR ''='' # r)" by simp
  moreover have "takeWhile (\<lambda>c. c \<noteq> CHR ''='') (k @ CHR ''='' # u) = k" if "good_name k" for k u
    using that unfolding good_name_def by (subst takeWhile_append2) auto
  ultimately show "n = m" using assms by simp
qed (use assms in auto)

lemma attr_keys: "distinct (map fst attrTbl)" "\<forall>i < 15. \<exists>m. good_name m \<and> attr_name i = m @ ''=''"
proof -
  show "distinct (map fst attrTbl)" by (simp add: attrTbl_def)
  have "good_name (butlast (attr_name i)) \<and> attr_name i = butlast (attr_name i) @ ''=''" if "i < 15" for i
    using below_15[OF that] by (elim insertE emptyE) (simp_all add: attr_names good_name_def)
  then show "\<forall>i < 15. \<exists>m. good_name m \<and> attr_name i = m @ ''=''" by blast
qed

definition attr_flag :: "string \<Rightarrow> tbl_flag option" where
  "attr_flag n = map_of attrTbl (n @ ''='')"

lemma attr_find_flag:
  assumes "good_name n" "NUL \<notin> set v"
  shows "map_option (\<lambda>i. snd (attrTbl ! i)) (attr_find (n @ ''='' @ v)) = attr_flag n"
proof -
  have nul: "NUL \<notin> set (n @ ''='' @ v)" using assms by (simp add: good_name_def)
  have row: "take (length (attr_name i)) (n @ ''='' @ v) = attr_name i \<longleftrightarrow> attr_name i = n @ ''=''" if i: "i < 15" for i
  proof -
    obtain m where "good_name m" "attr_name i = m @ ''=''" using attr_keys(2) i by blast
    then show ?thesis using name_prefix[OF assms(1), of m v] by auto
  qed
  show ?thesis
  proof (cases "attr_find (n @ ''='' @ v)")
    case None
    then have "find (\<lambda>i. take (length (attr_name i)) (n @ ''='' @ v) = attr_name i) [0..<length attrTbl] = None"
      unfolding attr_find_linear[OF nul] .
    then have "\<forall>i < 15. take (length (attr_name i)) (n @ ''='' @ v) \<noteq> attr_name i"
      unfolding find_None_iff attr_table_size by simp
    then have "\<forall>i < 15. attr_name i \<noteq> n @ ''=''" using row by blast
    then have "n @ ''='' \<notin> fst ` set attrTbl" by (force simp: in_set_conv_nth attr_name_def attr_table_size)
    then have "map_of attrTbl (n @ ''='') = None" by (simp add: map_of_eq_None_iff)
    then show ?thesis using None by (simp add: attr_flag_def)
  next
    case (Some i)
    then have "find (\<lambda>i. take (length (attr_name i)) (n @ ''='' @ v) = attr_name i) [0..<length attrTbl] = Some i"
      unfolding attr_find_linear[OF nul] .
    then have "i < 15 \<and> take (length (attr_name i)) (n @ ''='' @ v) = attr_name i"
      unfolding find_Some_iff attr_table_size by auto
    then have i: "i < 15" "attr_name i = n @ ''=''" using row by blast+
    then have "(n @ ''='', snd (attrTbl ! i)) \<in> set attrTbl" by (metis attr_name_def attr_table_size nth_mem prod.collapse)
    then show ?thesis using Some attr_keys(1) by (simp add: attr_flag_def)
  qed
qed

end
