(* ===== verification/Infoprops.thy ===== *)
theory Infoprops
  imports Mergattr
begin

text \<open>
  Properties of the parameters of a package: what is written is what the next command loads, and what a package update keeps.
\<close>

section \<open>Files of written lines\<close>

primrec over_params :: "(string \<Rightarrow> string \<Rightarrow> 's \<Rightarrow> (bool \<times> 's) res) \<Rightarrow> (string \<times> string) list \<Rightarrow> 's \<Rightarrow> 's res" where
  "over_params body [] s = Inr s"
| "over_params body (p # ps) s =
     (case body (fst p) (snd p) s of
        Inl f \<Rightarrow> Inl f
      | Inr (go, s') \<Rightarrow> if go then over_params body ps s' else Inr s')"

definition plines_ok :: "nat \<Rightarrow> (string \<times> string) list \<Rightarrow> bool" where
  "plines_ok pcap ps \<longleftrightarrow> (\<forall>p \<in> set ps. key_ok (fst p) \<and> length (fst p) < pcap \<and> text_ok (snd p))"

lemma each_param_lines:
  assumes "plines_ok pcap ps"
  shows "each_param pcap body (concat (map param_line ps)) s = over_params body ps s"
  using assms
proof (induction ps arbitrary: s)
  case Nil
  then show ?case by (simp add: each_param.simps fpkgparam_def param_loop.simps)
next
  case (Cons p ps)
  then have "fpkgparam pcap (concat (map param_line (p # ps))) (Some []) = Inr (Inr (snd p), fst p, concat (map param_line ps))"
    using param_loop_line[of p pcap "[]" "concat (map param_line ps)"] by (simp add: fpkgparam_def plines_ok_def)
  then show ?case using Cons by (subst each_param.simps) (auto simp: plines_ok_def split: sum.split)
qed

lemma key_good: "key_ok n \<Longrightarrow> good_name n"
  by (auto simp: key_ok_def good_name_def sepset_def)

lemma text_nul: "text_ok v \<Longrightarrow> NUL \<notin> set v"
  by (simp add: text_ok_def)

section \<open>Loading\<close>

definition loaded :: "(string \<times> string) list \<Rightarrow> (string \<times> string) list \<Rightarrow> (string \<times> string) list" where
  "loaded ps es = fold (\<lambda>p es. if fst p = ''PATH'' then es else AList.update (fst p) (snd p) es) ps es"

lemma load_holds:
  assumes "plines_ok pcap ps" "env_holds a es"
  shows "\<exists>a'. over_params load_param ps a = Inr a' \<and> env_holds a' (loaded ps es)"
  using assms
proof (induction ps arbitrary: a es)
  case (Cons p ps)
  have "\<exists>a'. load_param (fst p) (snd p) a = Inr (True, a') \<and> env_holds a' (if fst p = ''PATH'' then es else AList.update (fst p) (snd p) es)"
    using putparam_holds[OF Cons.prems(2), of "fst p" "snd p"] Cons.prems key_good text_nul by (auto simp: load_param_def plines_ok_def)
  then show ?case using Cons.IH Cons.prems(1) by (fastforce simp: loaded_def plines_ok_def)
qed (simp add: loaded_def)

lemma loaded_map:
  assumes "distinct (map fst ps)"
  shows "map_of (loaded ps es) n = (if n \<noteq> ''PATH'' \<and> n \<in> fst ` set ps then map_of ps n else map_of es n)"
  using assms
proof (induction ps arbitrary: es)
  case (Cons p ps)
  have "map_of ps n = None" if "n = fst p" using Cons.prems that by (simp add: map_of_eq_None_iff)
  then show ?case
    using Cons.IH[of "if fst p = ''PATH'' then es else AList.update (fst p) (snd p) es"] Cons.prems
    by (cases p) (force simp: loaded_def update_conv')
qed (simp add: loaded_def)

section \<open>Written parameters\<close>

text \<open>What becomes of a parameter of the environment in the file.\<close>

definition kept :: "info_in \<Rightarrow> string \<times> string \<Rightarrow> (string \<times> string) option" where
  "kept x p =
     (if attr_flag (fst p) = Some FLAG_EXCLUDE then None
      else if fst p = ''PKGSAV'' then Some (''PKGSAV'', the (i_infoloc x) @ ''/'' @ i_pkginst x @ ''/save'')
      else if fst p = ''UPDATE'' \<and> i_pspool x \<and> \<not> i_update x then None
      else Some p)"

lemma put_entry_kept:
  assumes "good_name (fst p)" "i_infoloc x \<noteq> None"
  shows "put_entry x (entry_of p) = MOk (if fst p = ''PKGSAV'' then ''PKGSAV='' @ the (i_infoloc x) @ ''/'' @ i_pkginst x @ ''/save'' @ [NL]
    else if fst p = ''UPDATE'' \<and> i_pspool x \<and> \<not> i_update x then [] else entry_of p @ [NL])"
proof -
  have "good_name ''PKGSAV''" "good_name ''UPDATE''" by (simp_all add: good_name_def)
  then have "take 7 (entry_of p) = ''PKGSAV='' \<longleftrightarrow> fst p = ''PKGSAV''" "take 7 (entry_of p) = ''UPDATE='' \<longleftrightarrow> fst p = ''UPDATE''"
    using name_prefix[OF assms(1), of "''PKGSAV''" "snd p"] name_prefix[OF assms(1), of "''UPDATE''" "snd p"] by (simp_all add: entry_of_def eval_nat_numeral)
  then show ?thesis using assms(2) by (auto simp: put_entry_def)
qed

lemma info_entry_text:
  assumes "good_name (fst p)" "NUL \<notin> set (snd p)" "i_infoloc x \<noteq> None"
  shows "info_entry x None (entry_of p) = MOk (case kept x p of None \<Rightarrow> [] | Some q \<Rightarrow> param_line q)"
    "info_entry x installed (entry_of p) = MOk t \<Longrightarrow> t = (case kept x p of None \<Rightarrow> [] | Some q \<Rightarrow> param_line q)"
proof -
  have f: "map_option (\<lambda>i. snd (attrTbl ! i)) (attr_find (entry_of p)) = attr_flag (fst p)"
    using attr_find_flag[OF assms(1,2)] by (simp add: entry_of_def)
  show "info_entry x None (entry_of p) = MOk (case kept x p of None \<Rightarrow> [] | Some q \<Rightarrow> param_line q)"
    using f put_entry_kept[OF assms(1,3)]
    by (cases "attr_find (entry_of p)") (auto simp: info_entry_def kept_def param_line_def entry_of_def same_attr_def)
  show "t = (case kept x p of None \<Rightarrow> [] | Some q \<Rightarrow> param_line q)" if "info_entry x installed (entry_of p) = MOk t"
    using that f put_entry_kept[OF assms(1,3)]
    by (cases "attr_find (entry_of p)")
      (auto simp: info_entry_def kept_def param_line_def entry_of_def mbind_MOk split: if_splits)
qed

definition kept_all :: "info_in \<Rightarrow> (string \<times> string) list \<Rightarrow> (string \<times> string) list" where
  "kept_all x es = List.map_filter (kept x) es"

lemma info_entries_text:
  assumes "\<forall>p \<in> set es. good_name (fst p) \<and> NUL \<notin> set (snd p)" "i_infoloc x \<noteq> None"
  shows "info_entries x None (map entry_of es) = MOk (concat (map param_line (kept_all x es)))"
    "info_entries x installed (map entry_of es) = MOk t \<Longrightarrow> t = concat (map param_line (kept_all x es))"
proof -
  show "info_entries x None (map entry_of es) = MOk (concat (map param_line (kept_all x es)))"
    using assms(1)
    by (induction es) (auto simp: kept_all_def map_filter_simps info_entry_text(1)[OF _ _ assms(2)] split: option.split)
  show "info_entries x installed (map entry_of es) = MOk t \<Longrightarrow> t = concat (map param_line (kept_all x es))"
    using assms(1)
  proof (induction es arbitrary: t)
    case (Cons p es)
    then show ?case
      using info_entry_text(2)[of p x installed] assms(2)
      by (auto simp: kept_all_def map_filter_simps mbind_MOk split: option.split)
  qed (simp add: kept_all_def map_filter_simps)
qed

lemma kept_name: "kept x p = Some q \<Longrightarrow> fst q = fst p \<and> attr_flag (fst p) \<noteq> Some FLAG_EXCLUDE"
  by (auto simp: kept_def split: if_splits)

lemma kept_names: "fst ` set (kept_all x es) \<subseteq> {n \<in> fst ` set es. attr_flag n \<noteq> Some FLAG_EXCLUDE}"
  using kept_name by (force simp: kept_all_def List.map_filter_def)

lemma kept_distinct: "distinct (map fst es) \<Longrightarrow> distinct (map fst (kept_all x es))"
proof (induction es)
  case (Cons p es)
  then show ?case
    using kept_name[of x p] kept_names[of x es] by (auto simp: kept_all_def map_filter_simps split: option.split)
qed (simp add: kept_all_def map_filter_simps)

lemma kept_map: "distinct (map fst es) \<Longrightarrow> map_of (kept_all x es) n = (case map_of es n of None \<Rightarrow> None | Some v \<Rightarrow> map_option snd (kept x (n, v)))"
proof (induction es)
  case (Cons p es)
  have no: "map_of (kept_all x es) n = None" if "n = fst p"
    using Cons.prems kept_names[of x es] that by (auto simp: map_of_eq_None_iff)
  have step: "kept_all x (p # es) = (case kept x p of None \<Rightarrow> kept_all x es | Some q \<Rightarrow> q # kept_all x es)"
    unfolding kept_all_def by (simp add: map_filter_simps)
  show ?case
  proof (cases "n = fst p")
    case True
    then show ?thesis
      using no kept_name[of x p] step by (cases p) (cases "kept x p"; auto)
  next
    case False
    then show ?thesis using Cons kept_name[of x p] step by (cases p) (auto split: option.splits)
  qed
qed (simp add: kept_all_def map_filter_simps)

lemma pkgenv_loads:
  assumes "each_param MAX_PKG_PARAM_LENGTH load_param fp env = Inr a" "getenv a ''PKG'' = Some v"
  shows "\<exists>k. pkgenv abi pkginst True (Some fp) env = Inr (k, a)"
  using assms by (simp add: pkgenv_def Let_def)

text \<open>
  C8. The parameters of an installed package survive in its \<open>pkginfo\<close> file as long as each of them fits on a line: when no value has a newline or a NUL, a blank
  at either end, a quote in front or a backslash at its end, and names are shorter than \<open>MAX_PKG_PARAM_LENGTH\<close> and have no separator (\<open>plines_ok\<close>; \<open>text_ok\<close> for the
  class list, the base directory and the place of \<open>PKGSAV\<close>), then whatever \<open>merginfo\<close> writes of the environment, \<open>pkgenv\<close> loads back, in a later
  command, as the classes, the base directory and every other parameter with its value, without those that belong to one installation only;
  \<open>PKGSAV\<close> gets the place the client sees, and \<open>PATH\<close> is not taken from the file. When no older file is there to compare with, the file is always written.
  Other values are written as they are and do not all come back, see \<open>pkginfo_newline_lost\<close>.
\<close>

theorem pkginfo_roundtrip:
  assumes "env_holds env es" "plines_ok MAX_PKG_PARAM_LENGTH es" "map_of es ''PKG'' \<noteq> None"
    "class_names pclass c = Inr cls" "text_ok (join_sep SP cls)" "basedir_text s = Inr bd" "text_ok bd"
    "i_infoloc x = Some l" "text_ok (l @ ''/'' @ i_pkginst x @ ''/save'')" "env_list env \<noteq> None"
  shows "(\<exists>t. info_text x pclass c s None env = MOk t) \<and>
     (\<forall>installed t. info_text x pclass c s installed env = MOk t \<longrightarrow>
       (\<exists>k a. pkgenv abi pkginst True (Some t) no_env = Inr (k, a) \<and>
         getenv a ''CLASSES'' = Some (join_sep SP cls) \<and> getenv a ''BASEDIR'' = Some bd \<and> getenv a ''PATH'' = None \<and>
         (\<forall>n. good_name n \<and> n \<notin> {''CLASSES'', ''BASEDIR'', ''PATH''} \<longrightarrow>
           getenv a n = (case map_of es n of None \<Rightarrow> None | Some v \<Rightarrow> map_option snd (kept x (n, v))))))"
proof -
  let ?ps = "(''CLASSES'', join_sep SP cls) # (''BASEDIR'', bd) # kept_all x es"
  have es: "env_list env = Some (map entry_of es)" "distinct (map fst es)" "\<forall>p \<in> set es. good_name (fst p) \<and> NUL \<notin> set (snd p)"
    using assms(1,10) by (auto simp: env_holds_def split: option.splits)
  have out: "t = concat (map param_line ?ps)" if "info_text x pclass c s installed env = MOk t" for installed t
    using that assms(4,6,8) es info_entries_text(2)[of es x installed]
    by (auto simp: info_text_def mbind_MOk mlift_MOk param_line_def)
  have written: "info_text x pclass c s None env = MOk (concat (map param_line ?ps))"
    using assms(4,6,8) es info_entries_text(1)[of es x]
    by (simp add: info_text_def mlift_def param_line_def)
  have ex: "attr_flag ''CLASSES'' = Some FLAG_EXCLUDE" "attr_flag ''BASEDIR'' = Some FLAG_EXCLUDE" "attr_flag ''PKG'' = None"
    by (simp_all add: attr_flag_def attrTbl_def)
  have d: "distinct (map fst ?ps)" using kept_distinct[OF es(2), of x] kept_names[of x es] ex by auto
  have kk: "key_ok (fst q) \<and> length (fst q) < MAX_PKG_PARAM_LENGTH \<and> text_ok (snd q)" if q: "q \<in> set (kept_all x es)" for q
  proof -
    obtain p where p: "p \<in> set es" "kept x p = Some q" using q by (auto simp: kept_all_def List.map_filter_def)
    have "text_ok (snd q)" using p assms(2,8,9) by (auto simp: kept_def plines_ok_def split: if_splits)
    then show ?thesis using p assms(2) kept_name[OF p(2)] by (auto simp: plines_ok_def)
  qed
  have ok: "plines_ok MAX_PKG_PARAM_LENGTH ?ps"
    using kk assms(5,7) by (auto simp: plines_ok_def key_ok_def sepset_def VALSIZ_def MAX_PKG_PARAM_LENGTH_def)
  have "env_holds no_env []" by (simp add: env_holds_def no_env_def)
  then obtain a where a: "each_param MAX_PKG_PARAM_LENGTH load_param (concat (map param_line ?ps)) no_env = Inr a" "env_holds a (loaded ?ps [])"
    using load_holds[OF ok] each_param_lines[OF ok] by metis
  have g: "getenv a n = (if n \<noteq> ''PATH'' then map_of ?ps n else None)" if "good_name n" for n
    using getenv_holds[OF a(2) that] loaded_map[OF d, of "[]" n] map_of_eq_None_iff[of ?ps n] by auto
  have gn: "good_name ''PKG''" "good_name ''CLASSES''" "good_name ''BASEDIR''" "good_name ''PATH''" by (simp_all add: good_name_def)
  have rest: "getenv a n = (case map_of es n of None \<Rightarrow> None | Some v \<Rightarrow> map_option snd (kept x (n, v)))"
    if "good_name n \<and> n \<notin> {''CLASSES'', ''BASEDIR'', ''PATH''}" for n
    using g[of n] that kept_map[OF es(2), of x n] by simp
  have "kept x (''PKG'', v) = Some (''PKG'', v)" for v using ex(3) by (simp add: kept_def)
  then obtain v where "getenv a ''PKG'' = Some v" using rest[of "''PKG''"] gn assms(3) by auto
  then have load: "\<exists>k. pkgenv abi pkginst True (Some (concat (map param_line ?ps))) no_env = Inr (k, a)"
    by (rule pkgenv_loads[OF a(1)])
  have "getenv a ''CLASSES'' = Some (join_sep SP cls) \<and> getenv a ''BASEDIR'' = Some bd \<and> getenv a ''PATH'' = None"
    using g[OF gn(2)] g[OF gn(3)] g[OF gn(4)] by simp
  then have "\<exists>k b. pkgenv abi pkginst True (Some t) no_env = Inr (k, b) \<and>
         getenv b ''CLASSES'' = Some (join_sep SP cls) \<and> getenv b ''BASEDIR'' = Some bd \<and> getenv b ''PATH'' = None \<and>
         (\<forall>n. good_name n \<and> n \<notin> {''CLASSES'', ''BASEDIR'', ''PATH''} \<longrightarrow>
           getenv b n = (case map_of es n of None \<Rightarrow> None | Some v \<Rightarrow> map_option snd (kept x (n, v))))"
    if "info_text x pclass c s installed env = MOk t" for installed t
    using load rest unfolding out[OF that] by blast
  then show ?thesis using written by blast
qed

definition demo_es :: "(string \<times> string) list" where
  "demo_es = [(''PKG'', ''SUNWa''), (''NAME'', ''a b''), (''INST_DATADIR'', ''/x''), (''PKGSAV'', ''/old'')]"

definition info_env :: env_arr where "info_env = \<lparr>env_list = Some (map entry_of demo_es), env_cap = 64\<rparr>"

definition demo_info :: info_in where
  "demo_info = \<lparr>i_pspool = False, i_update = False, i_infoloc = Some ''/var/sadm/pkg'', i_pkginst = ''SUNWa''\<rparr>"

definition demo_class :: cl_attr where
  "demo_class = \<lparr>cl_name = ''none'', inst_script = None, rem_script = None, src_verify = 0, dst_verify = 0, relpath_2_CAS = 0\<rparr>"

theorem pkginfo_roundtrip_witness:
  "\<exists>t k a. info_text demo_info (Some [demo_class]) clstate0 fixst0 None info_env = MOk t \<and>
     pkgenv False ''SUNWa'' True (Some t) no_env = Inr (k, a) \<and> getenv a ''CLASSES'' = Some ''none'' \<and> getenv a ''NAME'' = Some ''a b'' \<and>
     getenv a ''INST_DATADIR'' = None \<and> getenv a ''PKGSAV'' = Some ''/var/sadm/pkg/SUNWa/save''"
proof -
  have h: "env_holds info_env demo_es" "plines_ok MAX_PKG_PARAM_LENGTH demo_es" "map_of demo_es ''PKG'' \<noteq> None" "env_list info_env \<noteq> None"
    by (simp_all add: env_holds_def info_env_def demo_es_def good_name_def MALSIZ_def plines_ok_def key_ok_def text_ok_def sepset_def qset_def
        VALSIZ_def ESCAPE_def isspace_def MAX_PKG_PARAM_LENGTH_def)
  have c: "class_names (Some [demo_class]) clstate0 = Inr [''none'']"
    by (simp add: class_names_def clstate0_def demo_class_def cl_idx_def cl_getn_def)
  have b: "basedir_text fixst0 = Inr ''/''" by (simp add: basedir_text_def is_a_basedir_def fixst0_def)
  have t: "text_ok (join_sep SP [''none''])" "text_ok ''/''" "i_infoloc demo_info = Some ''/var/sadm/pkg''"
    "text_ok (''/var/sadm/pkg'' @ ''/'' @ i_pkginst demo_info @ ''/save'')"
    by (simp_all add: text_ok_def qset_def isspace_def ESCAPE_def demo_info_def)
  have k: "map_option snd (kept demo_info (''NAME'', v)) = Some v" "kept demo_info (''INST_DATADIR'', v) = None"
    "map_option snd (kept demo_info (''PKGSAV'', v)) = Some ''/var/sadm/pkg/SUNWa/save''" for v
    by (simp_all add: kept_def demo_info_def attr_flag_def attrTbl_def)
  have g: "good_name ''NAME''" "good_name ''INST_DATADIR''" "good_name ''PKGSAV''" by (simp_all add: good_name_def)
  note r = pkginfo_roundtrip[OF h(1-3) c t(1) b t(2-4) h(4), of False "''SUNWa''"]
  then obtain u where u: "info_text demo_info (Some [demo_class]) clstate0 fixst0 None info_env = MOk u" by blast
  then obtain n a where a: "pkgenv False ''SUNWa'' True (Some u) no_env = Inr (n, a)" "getenv a ''CLASSES'' = Some ''none''"
    "\<And>m. good_name m \<Longrightarrow> m \<notin> {''CLASSES'', ''BASEDIR'', ''PATH''} \<Longrightarrow>
       getenv a m = (case map_of demo_es m of None \<Rightarrow> None | Some v \<Rightarrow> map_option snd (kept demo_info (m, v)))"
    using r[THEN conjunct2, THEN spec, THEN spec, THEN mp, OF u] by auto
  have "map_of demo_es ''NAME'' = Some ''a b''" "map_of demo_es ''INST_DATADIR'' = Some ''/x''" "map_of demo_es ''PKGSAV'' = Some ''/old''"
    by (simp_all add: demo_es_def)
  then have "getenv a ''NAME'' = Some ''a b''" "getenv a ''INST_DATADIR'' = None" "getenv a ''PKGSAV'' = Some ''/var/sadm/pkg/SUNWa/save''"
    using a(3)[OF g(1)] a(3)[OF g(2)] a(3)[OF g(3)] k by simp_all
  then show ?thesis using u a(1,2) by blast
qed

text \<open>
  A value with a newline, as \<open>fpkgparam\<close> itself makes one of an escaped newline, is written without the escape: the next command
  reads the first of its lines only.
\<close>

definition newline_es :: "(string \<times> string) list" where
  "newline_es = [(''PKG'', ''SUNWa''), (''DESC'', ''two'' @ NL # ''lines'')]"

theorem pkginfo_newline_lost:
  "fpkgparam MAX_PKG_PARAM_LENGTH (''DESC=two'' @ ESCAPE # NL # ''lines'' @ [NL]) (Some []) =
     Inr (Inr (''two'' @ NL # ''lines''), ''DESC'', []) \<and>
   (\<exists>t k a. info_text demo_info (Some [demo_class]) clstate0 fixst0 None
       \<lparr>env_list = Some (map entry_of newline_es), env_cap = 64\<rparr> = MOk t \<and>
     pkgenv False ''SUNWa'' True (Some t) no_env = Inr (k, a) \<and> getenv a ''DESC'' = Some ''two'')"
proof
  show "fpkgparam MAX_PKG_PARAM_LENGTH (''DESC=two'' @ ESCAPE # NL # ''lines'' @ [NL]) (Some []) =
     Inr (Inr (''two'' @ NL # ''lines''), ''DESC'', [])" by code_simp
  define t where "t = ''CLASSES=none'' @ NL # ''BASEDIR=/'' @ NL # ''PKG=SUNWa'' @ NL # ''DESC=two'' @ NL # ''lines'' @ [NL]"
  have "info_text demo_info (Some [demo_class]) clstate0 fixst0 None
       \<lparr>env_list = Some (map entry_of newline_es), env_cap = 64\<rparr> = MOk t"
    unfolding t_def by code_simp
  moreover have "(case pkgenv False ''SUNWa'' True (Some t) no_env of Inl _ \<Rightarrow> False | Inr (k, a) \<Rightarrow> getenv a ''DESC'' = Some ''two'')"
    unfolding t_def by code_simp
  ultimately show "\<exists>t k a. info_text demo_info (Some [demo_class]) clstate0 fixst0 None
       \<lparr>env_list = Some (map entry_of newline_es), env_cap = 64\<rparr> = MOk t \<and>
     pkgenv False ''SUNWa'' True (Some t) no_env = Inr (k, a) \<and> getenv a ''DESC'' = Some ''two''"
    by (auto split: sum.splits)
qed

section \<open>Updating a package\<close>

text \<open>What the administration file says of the base directory, when it is a path.\<close>

definition adm_path :: "string option \<Rightarrow> string option" where
  "adm_path adm = (case adm of None \<Rightarrow> None | Some d \<Rightarrow> if d \<noteq> [] \<and> hd d \<in> set ''/$'' then Some d else None)"

text \<open>Whether an installed parameter lets the update go on, given the parameters of the new package.\<close>

definition param_allowed :: "string option \<Rightarrow> (string \<times> string) list \<Rightarrow> string \<times> string \<Rightarrow> bool" where
  "param_allowed adm es p \<longleftrightarrow>
     (if fst p = ''BASEDIR'' then (case adm of None \<Rightarrow> True | Some d \<Rightarrow> snd p = d)
      else if fst p \<in> set zone_names then (case map_of es (fst p) of None \<Rightarrow> is_false (snd p) | Some v \<Rightarrow> v = snd p)
      else True)"

definition param_merged :: "string \<times> string \<Rightarrow> (string \<times> string) list \<Rightarrow> (string \<times> string) list" where
  "param_merged p es =
     (if fst p = ''CLASSES'' then es
      else if fst p = ''BASEDIR'' \<or> map_of es (fst p) = None then AList.update (fst p) (snd p) es
      else es)"

lemma merged_other: "n \<noteq> fst p \<Longrightarrow> map_of (param_merged p es) n = map_of es n"
  by (simp add: param_merged_def update_conv')

lemma set_loop_returns: "\<forall>t \<in> set ts. length t \<le> CLSSIZ \<Longrightarrow> \<exists>r. set_loop env ts sn n st = Inr r"
proof (induction env ts sn n st rule: set_loop.induct)
  case (2 env pt ts sn n st)
  obtain st' where st': "new_cl_attr env pt st = Inr st'" using "2.prems" new_cl_attr_names[of pt env st] by auto
  define sn' where "sn' = (if sn = None \<and> pt = ''none'' then Some n else sn)"
  define us where "us = (if sn' \<noteq> None \<and> ts \<noteq> [] \<and> hd ts = ''none'' then tl ts else ts)"
  have "\<forall>t \<in> set us. length t \<le> CLSSIZ" using "2.prems" set_mono_tl[of ts] by (auto simp: us_def)
  then have "\<exists>r. set_loop env us sn' (Suc n) st' = Inr r" using "2.IH"[OF sn'_def, of st'] by (simp add: us_def)
  then show ?case using st' by (simp add: sn'_def us_def Let_def)
qed simp

definition classes_ok :: "string \<times> string \<Rightarrow> bool" where
  "classes_ok p \<longleftrightarrow> (fst p = ''CLASSES'' \<longrightarrow> (\<forall>t \<in> set (tokens [SP, TAB, NL] (snd p)). length t \<le> CLSSIZ))"

lemma setlist_returns:
  assumes "\<forall>t \<in> set (tokens [SP, TAB, NL] v). length t \<le> CLSSIZ"
  shows "\<exists>n l c'. setlist env v c = Inr (n, l, c')"
proof -
  obtain r where "set_loop env (tokens [SP, TAB, NL] v) None 0 (c\<lparr>sc_src := snd (s_verify env None (sc_src c)),
      sc_dst := snd (d_verify env None (sc_dst c)), sc_path := snd (s_pathtype env None (sc_path c)), cl_array := None\<rparr>) = Inr r"
    using set_loop_returns[OF assms] by blast
  then show ?thesis by (cases r) (auto simp: setlist_def Let_def)
qed

lemma merg_param_step:
  assumes "env_holds (m_env s) es" "key_ok (fst p)" "text_ok (snd p)" "classes_ok p"
  shows "\<exists>s'. merg_param (fst p) (snd p) s = Inr (param_allowed (adm_path (m_adm_basedir s)) es p, s') \<and>
    (if param_allowed (adm_path (m_adm_basedir s)) es p
     then env_holds (m_env s') (param_merged p es) \<and> m_retcode s' = m_retcode s \<and>
       adm_path (m_adm_basedir s') = adm_path (m_adm_basedir s) \<and>
       m_zone s' = (if fst p \<in> set zone_names then (m_zone s)(fst p := take 64 (snd p)) else m_zone s)
     else m_retcode s' \<noteq> 0)"
proof -
  obtain n v where p: "p = (n, v)" by (cases p)
  have gn: "good_name n" "NUL \<notin> set v" using assms(2,3) key_good text_nul by (auto simp: p)
  have put: "\<exists>e. putparam n v (m_env s) = Inr e \<and> env_holds e (AList.update n v es)" by (rule putparam_holds[OF assms(1) gn])
  have get: "getenv (m_env s) n = map_of es n" by (rule getenv_holds[OF assms(1) gn(1)])
  have zn: "''CLASSES'' \<notin> set zone_names" "''BASEDIR'' \<notin> set zone_names"
    by (simp_all add: zone_names_def PKG_ALLZONES_VARIABLE_def PKG_THISZONE_VARIABLE_def PKG_HOLLOW_VARIABLE_def)
  consider "n = ''CLASSES''" | "n = ''BASEDIR''" | "n \<noteq> ''CLASSES''" "n \<noteq> ''BASEDIR''" by blast
  then show ?thesis
  proof cases
    case 1
    then obtain k l c where "setlist (getenv (m_env s)) v (m_cl s) = Inr (k, l, c)"
      using setlist_returns[of v "getenv (m_env s)" "m_cl s"] assms(4) by (auto simp: classes_ok_def p)
    then show ?thesis using 1 zn(1) assms(1) by (simp add: merg_param_def param_allowed_def param_merged_def p)
  next
    case 2
    then obtain e where "putparam ''BASEDIR'' v (m_env s) = Inr e" "env_holds e (AList.update ''BASEDIR'' v es)" using put by auto
    then show ?thesis
      using 2 zn(2) by (cases "m_adm_basedir s") (auto simp: merg_param_def merg_basedir_def param_allowed_def param_merged_def adm_path_def p Let_def)
  next
    case 3
    then show ?thesis
      using put get assms(1) by (cases "map_of es n"; cases "is_false v") (auto simp: merg_param_def param_allowed_def param_merged_def p strlcpy_def MAX_PKG_PARAM_LENGTH_def)
  qed
qed

lemma merg_all:
  assumes "env_holds (m_env s) es" "plines_ok MAX_PKG_PARAM_LENGTH ps" "\<forall>p \<in> set ps. classes_ok p" "distinct (map fst ps)"
  shows "\<exists>s'. over_params merg_param ps s = Inr s' \<and>
    (if \<forall>p \<in> set ps. param_allowed (adm_path (m_adm_basedir s)) es p
     then env_holds (m_env s') (fold param_merged ps es) \<and> m_retcode s' = m_retcode s \<and>
       (\<forall>z \<in> set zone_names. m_zone s' z = (case map_of ps z of None \<Rightarrow> m_zone s z | Some v \<Rightarrow> take 64 v))
     else m_retcode s' \<noteq> 0)"
  using assms
proof (induction ps arbitrary: s es)
  case (Cons p ps)
  let ?adm = "adm_path (m_adm_basedir s)"
  have "key_ok (fst p)" "text_ok (snd p)" "classes_ok p" using Cons.prems by (auto simp: plines_ok_def)
  from merg_param_step[OF Cons.prems(1) this] obtain s1 where s1: "merg_param (fst p) (snd p) s = Inr (param_allowed ?adm es p, s1)"
    "if param_allowed ?adm es p
     then env_holds (m_env s1) (param_merged p es) \<and> m_retcode s1 = m_retcode s \<and> adm_path (m_adm_basedir s1) = ?adm \<and>
       m_zone s1 = (if fst p \<in> set zone_names then (m_zone s)(fst p := take 64 (snd p)) else m_zone s)
     else m_retcode s1 \<noteq> 0" by blast
  show ?case
  proof (cases "param_allowed ?adm es p")
    case False
    then show ?thesis using s1 by auto
  next
    case True
    then have e: "env_holds (m_env s1) (param_merged p es)" "m_retcode s1 = m_retcode s" "adm_path (m_adm_basedir s1) = ?adm"
      "m_zone s1 = (if fst p \<in> set zone_names then (m_zone s)(fst p := take 64 (snd p)) else m_zone s)"
      using s1(2) by simp_all
    have same: "param_allowed ?adm (param_merged p es) q \<longleftrightarrow> param_allowed ?adm es q" if "q \<in> set ps" for q
    proof -
      have "fst q \<noteq> fst p" using Cons.prems(4) that by (metis distinct.simps(2) imageI list.simps(9) set_map)
      then show ?thesis using merged_other[of "fst q" p es] by (simp add: param_allowed_def)
    qed
    have "plines_ok MAX_PKG_PARAM_LENGTH ps" "\<forall>p \<in> set ps. classes_ok p" "distinct (map fst ps)"
      using Cons.prems by (auto simp: plines_ok_def)
    from Cons.IH[OF e(1) this] obtain s' where s': "over_params merg_param ps s1 = Inr s'"
      "if \<forall>q \<in> set ps. param_allowed ?adm es q
       then env_holds (m_env s') (fold param_merged ps (param_merged p es)) \<and> m_retcode s' = m_retcode s1 \<and>
         (\<forall>z \<in> set zone_names. m_zone s' z = (case map_of ps z of None \<Rightarrow> m_zone s1 z | Some v \<Rightarrow> take 64 v))
       else m_retcode s' \<noteq> 0" using same by (auto simp: e(3))
    have "map_of ps (fst p) = None" using Cons.prems(4) by (simp add: map_of_eq_None_iff)
    then show ?thesis
      using s1(1) True s' e(2,4) by (cases p) (auto split: if_splits option.splits)
  qed
qed simp

lemma merged_map:
  assumes "distinct (map fst ps)"
  shows "map_of (fold param_merged ps es) n =
    (if n = ''CLASSES'' then map_of es n
     else if n = ''BASEDIR'' \<and> map_of ps n \<noteq> None then map_of ps n
     else (case map_of es n of None \<Rightarrow> map_of ps n | Some v \<Rightarrow> Some v))"
  using assms
proof (induction ps arbitrary: es)
  case Nil
  then show ?case by (simp split: option.split)
next
  case (Cons p ps)
  have "map_of ps (fst p) = None" using Cons.prems by (simp add: map_of_eq_None_iff)
  moreover have "map_of (param_merged p es) n =
      (if n = fst p \<and> n \<noteq> ''CLASSES'' \<and> (n = ''BASEDIR'' \<or> map_of es n = None) then Some (snd p) else map_of es n)"
    by (auto simp: param_merged_def update_conv')
  moreover have "map_of (p # ps) n = (if n = fst p then Some (snd p) else map_of ps n)" by (cases p) auto
  moreover have "map_of (fold param_merged (p # ps) es) n = (if n = ''CLASSES'' then map_of (param_merged p es) n
     else if n = ''BASEDIR'' \<and> map_of ps n \<noteq> None then map_of ps n
     else (case map_of (param_merged p es) n of None \<Rightarrow> map_of ps n | Some v \<Rightarrow> Some v))"
    using Cons.IH[of "param_merged p es"] Cons.prems by simp
  ultimately show ?case by (cases "n = fst p"; cases "map_of es n") (simp_all only: if_True if_False option.case simp_thms, auto)
qed

text \<open>When an update of the zone attribute \<open>z\<close> is allowed.\<close>

definition zone_kept :: "(string \<times> string) list \<Rightarrow> (string \<times> string) list \<Rightarrow> string \<Rightarrow> bool" where
  "zone_kept ps es z \<longleftrightarrow>
     (case (map_of ps z, map_of es z) of
        (Some old, Some new) \<Rightarrow> new = old \<and> old \<noteq> []
      | (Some old, None) \<Rightarrow> is_false old
      | (None, Some new) \<Rightarrow> is_false new
      | (None, None) \<Rightarrow> True)"

text \<open>
  C9. An update follows its rules: over the file of an installed instance \<open>merg_pkginfos\<close> returns 0 exactly when no zone attribute changes (absent counts
  as false) and the base directory agrees with an administrator's path; then every parameter of the new package stays, the installed ones are
  added, the installed base directory wins, and \<open>CLASSES\<close> is left to the class list.
\<close>

theorem merg_pkginfos_rules:
  assumes "env_holds (m_env s) es" "plines_ok MAX_PKG_PARAM_LENGTH ps" "\<forall>p \<in> set ps. classes_ok p" "distinct (map fst ps)"
  shows "\<exists>ret s'. merg_pkginfos (Some (concat (map param_line ps))) s = Inr (ret, s') \<and>
     (ret = 0 \<longleftrightarrow> (\<forall>z \<in> set zone_names. zone_kept ps es z) \<and>
        (case (map_of ps ''BASEDIR'', adm_path (m_adm_basedir s)) of (Some old, Some d) \<Rightarrow> old = d | _ \<Rightarrow> True)) \<and>
     (ret = 0 \<longrightarrow> (\<forall>n. good_name n \<longrightarrow> getenv (m_env s') n =
        (if n = ''CLASSES'' then map_of es n
         else if n = ''BASEDIR'' \<and> map_of ps n \<noteq> None then map_of ps n
         else (case map_of es n of None \<Rightarrow> map_of ps n | Some v \<Rightarrow> Some v))))"
proof -
  let ?s = "s\<lparr>m_zone := (\<lambda>_. []), m_retcode := 0\<rparr>" and ?adm = "adm_path (m_adm_basedir s)"
  let ?bd = "case (map_of ps ''BASEDIR'', ?adm) of (Some old, Some d) \<Rightarrow> old = d | _ \<Rightarrow> True"
  define all where "all = (\<forall>p \<in> set ps. param_allowed ?adm es p)"
  obtain s' where s': "over_params merg_param ps ?s = Inr s'" "if all
     then env_holds (m_env s') (fold param_merged ps es) \<and> m_retcode s' = 0 \<and>
       (\<forall>z \<in> set zone_names. m_zone s' z = (case map_of ps z of None \<Rightarrow> [] | Some v \<Rightarrow> take 64 v))
     else m_retcode s' \<noteq> 0"
    using merg_all[of ?s es ps] assms by (auto simp: all_def cong: if_cong option.case_cong)
  have loop: "merg_pkginfos (Some (concat (map param_line ps))) s =
      Inr (if m_retcode s' \<noteq> 0 then m_retcode s' else if \<exists>z \<in> set zone_names. zone_added s' z then 1 else 0, s')"
    using s'(1) by (simp add: merg_pkginfos_def each_param_lines[OF assms(2)])
  have zn: "''BASEDIR'' \<notin> set zone_names" "''CLASSES'' \<notin> set zone_names" "\<forall>z \<in> set zone_names. good_name z"
    by (auto simp: zone_names_def PKG_ALLZONES_VARIABLE_def PKG_THISZONE_VARIABLE_def PKG_HOLLOW_VARIABLE_def good_name_def)
  have mem: "p \<in> set ps \<longleftrightarrow> map_of ps (fst p) = Some (snd p)" for p using assms(4) by (cases p) simp
  have nf: "\<not> is_false []" by (simp add: is_false_def strcaseeq_def)
  have imp: "all" if z: "\<forall>z \<in> set zone_names. zone_kept ps es z" and b: ?bd
  proof -
    have "param_allowed ?adm es p" if "p \<in> set ps" for p
      using z b that mem[of p] by (auto simp: param_allowed_def zone_kept_def split: option.splits)
    then show ?thesis by (simp add: all_def)
  qed
  show ?thesis
  proof (cases all)
    case False
    then have "m_retcode s' \<noteq> 0" using s'(2) by simp
    then show ?thesis using loop imp False by auto
  next
    case True
    have e: "env_holds (m_env s') (fold param_merged ps es)" "m_retcode s' = 0"
      "\<And>z. z \<in> set zone_names \<Longrightarrow> m_zone s' z = (case map_of ps z of None \<Rightarrow> [] | Some v \<Rightarrow> take 64 v)"
      using s'(2) True by simp_all
    have get: "getenv (m_env s') n = (if n = ''CLASSES'' then map_of es n
         else if n = ''BASEDIR'' \<and> map_of ps n \<noteq> None then map_of ps n
         else (case map_of es n of None \<Rightarrow> map_of ps n | Some v \<Rightarrow> Some v))" if "good_name n" for n
      using getenv_holds[OF e(1) that] merged_map[OF assms(4), of es n] by simp
    have al: "param_allowed ?adm es (n, v)" if "map_of ps n = Some v" for n v
      using True mem[of "(n, v)"] that by (simp add: all_def)
    have bd: ?bd using al[of "''BASEDIR''"] by (auto simp: param_allowed_def split: option.splits)
    have zone: "zone_kept ps es z \<longleftrightarrow> \<not> zone_added s' z" if z: "z \<in> set zone_names" for z
    proof -
      have "z \<noteq> ''CLASSES''" "z \<noteq> ''BASEDIR''" "good_name z" using zn z by auto
      then have g: "getenv (m_env s') z = (case map_of es z of None \<Rightarrow> map_of ps z | Some v \<Rightarrow> Some v)" using get by simp
      have "map_of ps z = Some v \<Longrightarrow> (case map_of es z of None \<Rightarrow> is_false v | Some w \<Rightarrow> w = v)" for v
        using al[of z v] z \<open>z \<noteq> ''BASEDIR''\<close> by (simp add: param_allowed_def split: option.splits)
      then show ?thesis using nf by (auto simp: zone_kept_def zone_added_def g e(3)[OF z] split: option.splits)
    qed
    show ?thesis using loop e(2) get bd zone by auto
  qed
qed

definition demo_merg :: merg_st where
  "demo_merg = \<lparr>m_env = info_env, m_cl = clstate0, m_pclass = None, m_mpclass = None, m_adm_basedir = Some ''ask'', m_srcinst = ''SUNWa'',
     m_zone = (\<lambda>_. []), m_retcode = 0\<rparr>"

theorem merg_pkginfos_rules_witness:
  "\<exists>s'. merg_pkginfos (Some (concat (map param_line [(''NAME'', ''old''), (''VENDOR'', ''x''), (''SUNW_PKG_HOLLOW'', ''FALSE'')]))) demo_merg = Inr (0, s') \<and>
     getenv (m_env s') ''NAME'' = Some ''a b'' \<and> getenv (m_env s') ''VENDOR'' = Some ''x''"
proof -
  let ?ps = "[(''NAME'', ''old''), (''VENDOR'', ''x''), (''SUNW_PKG_HOLLOW'', ''FALSE'')]"
  have h: "env_holds (m_env demo_merg) demo_es"
    by (simp add: demo_merg_def env_holds_def info_env_def demo_es_def good_name_def MALSIZ_def)
  have l: "plines_ok MAX_PKG_PARAM_LENGTH ?ps" "\<forall>p \<in> set ?ps. classes_ok p" "distinct (map fst ?ps)"
    by (simp_all add: plines_ok_def key_ok_def text_ok_def sepset_def qset_def VALSIZ_def ESCAPE_def isspace_def MAX_PKG_PARAM_LENGTH_def classes_ok_def)
  have "is_false ''FALSE''" by (simp add: is_false_def strcaseeq_def to_lower_def isupper_def char_of_def bit_iff_odd)
  then have z: "\<forall>z \<in> set zone_names. zone_kept ?ps demo_es z"
    by (simp add: zone_names_def PKG_ALLZONES_VARIABLE_def PKG_THISZONE_VARIABLE_def PKG_HOLLOW_VARIABLE_def zone_kept_def demo_es_def)
  have b: "map_of ?ps ''BASEDIR'' = None" "map_of demo_es ''NAME'' = Some ''a b''" "map_of demo_es ''VENDOR'' = None"
    by (simp_all add: demo_es_def)
  have g: "good_name ''NAME''" "good_name ''VENDOR''" by (simp_all add: good_name_def)
  from merg_pkginfos_rules[OF h l] obtain ret s' where r: "merg_pkginfos (Some (concat (map param_line ?ps))) demo_merg = Inr (ret, s')" "ret = 0"
    "\<And>n. good_name n \<Longrightarrow> getenv (m_env s') n = (if n = ''CLASSES'' then map_of demo_es n
         else if n = ''BASEDIR'' \<and> map_of ?ps n \<noteq> None then map_of ?ps n
         else (case map_of demo_es n of None \<Rightarrow> map_of ?ps n | Some v \<Rightarrow> Some v))"
    using z b(1) by auto
  then show ?thesis using r(3)[OF g(1)] r(3)[OF g(2)] b by auto
qed

text \<open>A file without \<open>PKG\<close>: the missing parameter is counted, and its name is checked all the same.\<close>

theorem pkgenv_without_PKG:
  assumes "plines_ok MAX_PKG_PARAM_LENGTH ps" "distinct (map fst ps)" "''PKG'' \<notin> fst ` set ps"
  shows "pkgenv abi pkginst True (Some (concat (map param_line ps))) no_env = Inl NullDeref"
proof -
  have "env_holds no_env []" by (simp add: env_holds_def no_env_def)
  then obtain a where a: "over_params load_param ps no_env = Inr a" "env_holds a (loaded ps [])" using load_holds[OF assms(1)] by blast
  have "getenv a ''PKG'' = None"
    using getenv_holds[OF a(2), of "''PKG''"] loaded_map[OF assms(2), of "[]" "''PKG''"] assms(3) by (simp add: good_name_def)
  then show ?thesis using a(1) by (simp add: pkgenv_def each_param_lines[OF assms(1)])
qed

section \<open>The environment refines a map\<close>

definition env_rel :: "env_arr \<Rightarrow> (string \<rightharpoonup> string) \<Rightarrow> bool" where
  "env_rel a m \<longleftrightarrow> (\<exists>ps. env_holds a ps \<and> m = map_of ps)"

interpretation env: simulation env_rel "\<lambda>p. putparam (fst p) (snd p)" "\<lambda>p m. m(fst p \<mapsto> snd p)" "\<lambda>p m. good_name (fst p) \<and> NUL \<notin> set (snd p)"
proof
  fix a m and p :: "string \<times> string"
  assume "env_rel a m" and p: "good_name (fst p) \<and> NUL \<notin> set (snd p)"
  then obtain ps where ps: "env_holds a ps" "m = map_of ps" by (auto simp: env_rel_def)
  have "m(fst p \<mapsto> snd p) = map_of (AList.update (fst p) (snd p) ps)" using ps(2) by (simp add: update_conv')
  then show "\<exists>a'. putparam (fst p) (snd p) a = Inr a' \<and> env_rel a' (m(fst p \<mapsto> snd p))"
    using putparam_holds[OF ps(1), of "fst p" "snd p"] p unfolding env_rel_def by blast
qed

text \<open>
  C18. The environment behaves as a map: started from \<open>NULL\<close>, after any sequence of \<open>putparam\<close> with names that are not empty and hold no equals sign,
  the array never overruns, \<open>getenv\<close> gives the value put last for each name, and nothing for the others.
\<close>

theorem putparam_refines:
  assumes "\<forall>p \<in> set ops. good_name (fst p) \<and> NUL \<notin> set (snd p)"
  shows "\<exists>a. run_ops (\<lambda>p. putparam (fst p) (snd p)) ops no_env = Inr a \<and>
     (\<forall>n. good_name n \<longrightarrow> getenv a n = map_of (rev ops) n)"
proof -
  have "ops_ok (\<lambda>p m. good_name (fst p) \<and> NUL \<notin> set (snd p)) (\<lambda>p m. m(fst p \<mapsto> snd p)) ops m" for m
    using assms by (induction ops arbitrary: m) auto
  moreover have "env_rel no_env Map.empty" by (auto simp: env_rel_def env_holds_def no_env_def)
  ultimately obtain a where a: "run_ops (\<lambda>p. putparam (fst p) (snd p)) ops no_env = Inr a"
    "env_rel a (fold (\<lambda>p m. m(fst p \<mapsto> snd p)) ops Map.empty)" using env.run by blast
  moreover have "fold (\<lambda>p m. m(fst p \<mapsto> snd p)) ops Map.empty = map_of (rev ops)"
    by (induction ops rule: rev_induct) auto
  ultimately show ?thesis using getenv_holds by (auto simp: env_rel_def)
qed

theorem putparam_refines_witness:
  "\<exists>a. run_ops (\<lambda>p. putparam (fst p) (snd p)) [(''A'', ''1''), (''AB'', ''2''), (''A'', ''3'')] no_env = Inr a \<and>
     getenv a ''A'' = Some ''3'' \<and> getenv a ''AB'' = Some ''2'' \<and> getenv a ''B'' = None"
proof -
  have g: "good_name ''A''" "good_name ''AB''" "good_name ''B''" by (simp_all add: good_name_def)
  from putparam_refines[of "[(''A'', ''1''), (''AB'', ''2''), (''A'', ''3'')]"] obtain a where
    "run_ops (\<lambda>p. putparam (fst p) (snd p)) [(''A'', ''1''), (''AB'', ''2''), (''A'', ''3'')] no_env = Inr a"
    "\<forall>n. good_name n \<longrightarrow> getenv a n = map_of (rev [(''A'', ''1''), (''AB'', ''2''), (''A'', ''3'')]) n"
    by (auto simp: good_name_def)
  then show ?thesis using g by auto
qed

end
