(* ===== verification/Pkginst.thy ===== *)
theory Pkginst
  imports Merginfo
begin

text \<open>
  The instances of packages (\<open>libadm/pkginfo.c\<close>): the search for an instance by name, architecture and version, and the data of
  one instance.

  The file system is an argument: the text of each file that can be read, and the names in each directory in the order of \<open>readdir\<close>.
  A file that is not there fails with \<open>ENOENT\<close>; other values of \<open>errno\<close> are left out.
\<close>

record fsys =
  fs_file :: "string \<Rightarrow> string option"
  fs_dir :: "string \<Rightarrow> (string list) option"

definition sprintf_to :: "nat \<Rightarrow> string \<Rightarrow> string res" where
  "sprintf_to cap s = (if length s < cap then Inr s else Inl BufOverrun)"

section \<open>Versions and architectures\<close>

function vers_loop :: "string \<Rightarrow> string \<Rightarrow> int" where
  "vers_loop request actual =
     (if request = [] \<and> actual = [] then 0
      else if deref request \<noteq> deref actual then - 1
      else
       (let r = tl request; a = tl actual in
        if isspace (deref r) then
          if deref a \<noteq> NUL \<and> \<not> isspace (deref a) then - 1
          else vers_loop (dropWhile isspace r) (dropWhile isspace a)
        else vers_loop r a))"
  by pat_completeness auto
termination
proof (relation "measure (\<lambda>(r, a). length r + length a)", goal_cases)
  case (2 request actual r a)
  have "length (dropWhile isspace r) \<le> length r" "length (dropWhile isspace a) \<le> length a" by (rule length_dropWhile_le)+
  then show ?case using 2 by (cases request; cases actual) auto
next
  case (3 request actual r a)
  then show ?case by (cases request; cases actual) auto
qed simp

declare vers_loop.simps [simp del]

definition verscmp :: "string \<Rightarrow> string option \<Rightarrow> int res" where
  "verscmp request actual =
     (case actual of
        None \<Rightarrow> Inl NullDeref
      | Some a \<Rightarrow> Inr (vers_loop (dropWhile isspace request) (dropWhile isspace a)))"

text \<open>What is left of both strings behind their common characters.\<close>

fun common :: "string \<Rightarrow> string \<Rightarrow> string \<times> string" where
  "common (x # pt) (y # l) = (if x = y then common pt l else (x # pt, y # l))"
| "common pt l = (pt, l)"

lemma common_le: "common pt l = (q, r) \<Longrightarrow> length r \<le> length l"
  by (induction pt l rule: common.induct) (auto split: if_splits)

function arch_loop :: "string \<Rightarrow> string \<Rightarrow> int" where
  "arch_loop arch archlist =
     (if archlist = [] then - 1
      else (case common arch archlist of (pt, l) \<Rightarrow>
        if pt = [] \<and> (l = [] \<or> hd l = CHR '','') then 0
        else arch_loop arch (drop 1 (dropWhile (\<lambda>c. c \<noteq> CHR '','') l))))"
  by pat_completeness auto
termination
proof (relation "measure (\<lambda>(_, l). length l)", goal_cases)
  case (2 arch archlist pt l)
  have "length l \<le> length archlist" using common_le 2 by metis
  moreover have "length (dropWhile (\<lambda>c. c \<noteq> CHR '','') l) \<le> length l" by (rule length_dropWhile_le)
  moreover have "0 < length archlist" using 2 by simp
  ultimately show ?case by (cases l) auto
qed simp

declare arch_loop.simps [simp del]

definition archcmp :: "string option \<Rightarrow> string option \<Rightarrow> int res" where
  "archcmp arch archlist =
     (case arch of
        None \<Rightarrow> Inr 0
      | Some a \<Rightarrow> (case archlist of None \<Rightarrow> Inl NullDeref | Some l \<Rightarrow> Inr (arch_loop a l)))"

text \<open>\<open>fgets\<close> into an array of \<open>n\<close> bytes: the line with its newline, and the rest.\<close>

definition fgets :: "nat \<Rightarrow> string \<Rightarrow> (string \<times> string) option" where
  "fgets n s =
     (if s = [] then None
      else
       (let t = takeWhile (\<lambda>c. c \<noteq> NL) s; k = min (n - 1) (length t + 1) in Some (take k s, drop k s)))"

lemma fgets_shorter: "fgets n s = Some (l, r) \<Longrightarrow> 1 < n \<Longrightarrow> length r < length s"
  by (cases s) (auto simp: fgets_def Let_def)

function compver_loop :: "string \<Rightarrow> string \<Rightarrow> int res" where
  "compver_loop version fp =
     (case fgets 256 fp of
        None \<Rightarrow> Inr (- 1)
      | Some (temp, r) \<Rightarrow>
          if deref temp = CHR ''#'' then compver_loop version r
          else (case verscmp temp (Some version) of
            Inl f \<Rightarrow> Inl f
          | Inr k \<Rightarrow> if k = 0 then Inr 0 else compver_loop version r))"
  by pat_completeness auto
termination
  by (relation "measure (\<lambda>(_, s). length s)") (auto dest: fgets_shorter)

declare compver_loop.simps [simp del]

section \<open>State\<close>

text \<open>The places of packages, and the two open directories with the names still to be read.\<close>

record inst_st =
  i_pkg :: pkgst
  i_dir :: "(string list) option"
  i_old :: "(string list) option"

definition compver :: "fsys \<Rightarrow> string \<Rightarrow> inst_st \<Rightarrow> string \<Rightarrow> string \<Rightarrow> int res" where
  "compver fs vsadmdir s pkginst version =
     rbind (sprintf_to 256 (get_PKGLOC vsadmdir (i_pkg s) @ ''/'' @ pkginst @ ''/install/compver'')) (\<lambda>temp.
     case fs_file fs temp of None \<Rightarrow> Inr (- 1) | Some fp \<Rightarrow> compver_loop version fp)"

definition ckinst ::
  "fsys \<Rightarrow> string \<Rightarrow> inst_st \<Rightarrow> string \<Rightarrow> string option \<Rightarrow> string option \<Rightarrow> string option \<Rightarrow> string option \<Rightarrow> int res" where
  "ckinst fs vsadmdir s pkginst pkgarch pkgvers ckarch ckvers =
     rbind (archcmp ckarch pkgarch) (\<lambda>a.
     if a \<noteq> 0 then Inr (- 1)
     else (case ckvers of
       None \<Rightarrow> Inr 0
     | Some v \<Rightarrow>
         rbind (verscmp v pkgvers) (\<lambda>k.
         if k = 0 then Inr 0
         else rbind (compver fs vsadmdir s pkginst v) (\<lambda>c. Inr (if c \<noteq> 0 then - 1 else 0)))))"

text \<open>Architecture and version of an instance; the loop ends when it has both.\<close>

definition arch_vers :: "string \<Rightarrow> string \<Rightarrow> string option \<times> string option \<Rightarrow> (bool \<times> string option \<times> string option) res" where
  "arch_vers param value s =
     (if param = ''ARCH'' then Inr (snd s = None, Some (filter (\<lambda>c. \<not> isspace c) value), snd s)
      else if param = ''VERSION'' then Inr (fst s = None, fst s, Some value)
      else Inr (True, s))"

definition ckinfo :: "fsys \<Rightarrow> string \<Rightarrow> inst_st \<Rightarrow> string \<Rightarrow> string option \<Rightarrow> string option \<Rightarrow> int res" where
  "ckinfo fs vsadmdir s inst arch vers =
     rbind (sprintf_to PATH_MAX (the_dir (i_pkg s) (pkgdir (i_pkg s)) @ ''/'' @ inst @ ''/pkginfo'')) (\<lambda>fil.
     case fs_file fs fil of
       None \<Rightarrow> Inr 1
     | Some fp \<Rightarrow>
         if arch = None \<and> vers = None then Inr 0
         else
           rbind (each_param 128 arch_vers fp (None, None)) (\<lambda>(myarch, myvers).
           rbind (ckinst fs vsadmdir s inst myarch myvers arch vers) (\<lambda>k. Inr (if k \<noteq> 0 then 1 else 0))))"

section \<open>Searching an instance\<close>

text \<open>The packages of older systems: files \<open>*.name\<close>.\<close>

primrec old_search :: "fsys \<Rightarrow> bool \<Rightarrow> string \<Rightarrow> string \<Rightarrow> string list \<Rightarrow> (string option \<times> string list) res" where
  "old_search fs abi pkgold spec [] = Inr (None, [])"
| "old_search fs abi pkgold spec (d # ds) =
     (if deref d = CHR ''.'' \<or> strchr d (CHR ''.'') \<noteq> Some ''.name'' \<or> pkgnmchk abi d (Some spec) True \<noteq> 0
      then old_search fs abi pkgold spec ds
      else
        rbind (sprintf_to PATH_MAX (pkgold @ ''/'' @ d)) (\<lambda>p.
        if fs_file fs p = None then old_search fs abi pkgold spec ds
        else rbind (sprintf_to PKGSIZ (takeWhile (\<lambda>c. c \<noteq> CHR ''.'') d)) (\<lambda>n. Inr (Some n, ds))))"

definition svr4inst :: "fsys \<Rightarrow> bool \<Rightarrow> string \<Rightarrow> inst_st \<Rightarrow> (string option \<times> inst_st) res" where
  "svr4inst fs abi spec s =
     (case (case i_old s of None \<Rightarrow> fs_dir fs (get_PKGOLD (i_pkg s)) | Some ds \<Rightarrow> Some ds) of
        None \<Rightarrow> Inr (None, s)
      | Some ds \<Rightarrow>
          rbind (old_search fs abi (get_PKGOLD (i_pkg s)) spec ds) (\<lambda>(r, ds').
          Inr (r, s\<lparr>i_old := (if r = None then None else Some ds')\<rparr>)))"

primrec dir_search ::
  "fsys \<Rightarrow> string \<Rightarrow> bool \<Rightarrow> inst_st \<Rightarrow> string \<Rightarrow> string option \<Rightarrow> string option \<Rightarrow> string list \<Rightarrow> (string option \<times> string list) res" where
  "dir_search fs vsadmdir abi s spec ckarch ckvers [] = Inr (None, [])"
| "dir_search fs vsadmdir abi s spec ckarch ckvers (d # ds) =
     (if deref d = CHR ''.'' \<or> pkgnmchk abi d (Some spec) False \<noteq> 0 then dir_search fs vsadmdir abi s spec ckarch ckvers ds
      else
        rbind (ckinfo fs vsadmdir s d ckarch ckvers) (\<lambda>k.
        if k \<noteq> 0 then dir_search fs vsadmdir abi s spec ckarch ckvers ds
        else rbind (sprintf_to (PKGSIZ + 1) d) (\<lambda>n. Inr (Some n, ds))))"

definition fpkginst ::
  "fsys \<Rightarrow> string \<Rightarrow> bool \<Rightarrow> string option \<Rightarrow> string option \<Rightarrow> string option \<Rightarrow> inst_st \<Rightarrow> (string option \<times> inst_st) res" where
  "fpkginst fs vsadmdir abi spec ckarch ckvers s0 =
     (case spec of
        None \<Rightarrow> Inr (None, s0\<lparr>i_dir := None, i_old := None\<rparr>)
      | Some p \<Rightarrow>
          let s = s0\<lparr>i_pkg := use_dir vsadmdir (i_pkg s0)\<rparr>; d = the_dir (i_pkg s) (pkgdir (i_pkg s)) in
          (case (case i_dir s of None \<Rightarrow> fs_dir fs d | Some ds \<Rightarrow> Some ds) of
             None \<Rightarrow> Inr (None, s)
           | Some ds \<Rightarrow>
               rbind (dir_search fs vsadmdir abi s p ckarch ckvers ds) (\<lambda>(r, ds').
               case r of
                 Some n \<Rightarrow> Inr (Some n, s\<lparr>i_dir := Some ds'\<rparr>)
               | None \<Rightarrow>
                   if d = get_PKGLOC vsadmdir (i_pkg s) \<and> ckarch = None then
                     rbind (svr4inst fs abi p (s\<lparr>i_dir := Some []\<rparr>)) (\<lambda>(q, s1).
                     Inr (q, if q = None then s1\<lparr>i_dir := None\<rparr> else s1))
                   else Inr (None, s\<lparr>i_dir := None\<rparr>))))"

section \<open>The data of an instance\<close>

datatype pi_status = PI_INSTALLED | PI_PARTIAL | PI_PRESVR4 | PI_UNKNOWN | PI_SPOOLED

record pkg_info =
  pi_pkginst :: "string option"
  pi_name :: "string option"
  pi_arch :: "string option"
  pi_version :: "string option"
  pi_vendor :: "string option"
  pi_basedir :: "string option"
  pi_catg :: "string option"
  pi_status :: pi_status

definition initpkg :: pkg_info where
  "initpkg = \<lparr>pi_pkginst = None, pi_name = None, pi_arch = None, pi_version = None, pi_vendor = None, pi_basedir = None,
     pi_catg = None, pi_status = PI_UNKNOWN\<rparr>"

text \<open>One parameter of the file; the number of parameters is counted.\<close>

definition config_param :: "string \<Rightarrow> string \<Rightarrow> nat \<times> pkg_info \<Rightarrow> (bool \<times> nat \<times> pkg_info) res" where
  "config_param param value0 ci =
     (let value = squeeze param value0; n = Suc (fst ci); i = snd ci in
      Inr (True, n,
        if param = ''NAME'' then i\<lparr>pi_name := Some value\<rparr>
        else if param = ''VERSION'' then i\<lparr>pi_version := Some value\<rparr>
        else if param = ''ARCH'' then i\<lparr>pi_arch := Some value\<rparr>
        else if param = ''VENDOR'' then i\<lparr>pi_vendor := Some value\<rparr>
        else if param = ''BASEDIR'' then i\<lparr>pi_basedir := Some value\<rparr>
        else if param = ''CATEGORY'' then i\<lparr>pi_catg := Some value\<rparr>
        else i))"

text \<open>
  A package of an older system. The array \<open>temp\<close> is set only when the name is not \<open>all\<close>, and terminated only when the name is shorter, and the pointer behind the colon is
  dereferenced without a test.
\<close>

definition old_stem :: "string \<Rightarrow> string" where
  "old_stem p = (let t = take PKGSIZ p in if strchr t (CHR ''.'') = Some ''.*'' then takeWhile (\<lambda>c. c \<noteq> CHR ''.'') t else t)"

definition svr4info :: "fsys \<Rightarrow> inst_st \<Rightarrow> string \<Rightarrow> pkg_info \<Rightarrow> (pkg_info option) res" where
  "svr4info fs s pkginst i =
     (if pkginst = ''all'' \<or> PKGSIZ \<le> length pkginst then Inl WildPtr
      else
        rbind (sprintf_to 128 (get_PKGOLD (i_pkg s) @ ''/'' @ old_stem pkginst @ ''.name'')) (\<lambda>p.
        case fs_file fs p of
          None \<Rightarrow> Inr None
        | Some fp \<Rightarrow>
            (case fgets 128 fp of
               None \<Rightarrow> Inl WildPtr
             | Some (l, _) \<Rightarrow>
                 let line = takeWhile (\<lambda>c. c \<noteq> NL) l; nm = takeWhile (\<lambda>c. c \<noteq> CHR '':'') line in
                 (case strchr line (CHR '':'') of
                    None \<Rightarrow> Inl NullDeref
                  | Some q \<Rightarrow>
                      let v = dropWhile isspace (tl q) in
                      Inr (Some (i\<lparr>pi_name := Some nm, pi_pkginst := Some (old_stem pkginst), pi_status := PI_PRESVR4,
                        pi_version := (if v = [] then None else Some v)\<rparr>))))))"

definition rdconfig :: "fsys \<Rightarrow> string \<Rightarrow> inst_st \<Rightarrow> string \<Rightarrow> pkg_info \<Rightarrow> (pkg_info option) res" where
  "rdconfig fs vsadmdir s pkginst i0 =
     (let d = the_dir (i_pkg s) (pkgdir (i_pkg s)); home = (d = get_PKGLOC vsadmdir (i_pkg s)) in
      case pkginfopen (fs_file fs) d pkginst of
        None \<Rightarrow> if home then svr4info fs s pkginst i0 else Inr None
      | Some fp \<Rightarrow>
          rbind (each_param 256 config_param fp (0, i0)) (\<lambda>(n, i).
          if n = 0 then Inr None
          else if \<not> home then Inr (Some (i\<lparr>pi_status := PI_SPOOLED, pi_pkginst := Some pkginst\<rparr>))
          else
            rbind (sprintf_to 256 (d @ ''/'' @ pkginst @ ''/!I-Lock!'')) (\<lambda>l1.
            if fs_file fs l1 \<noteq> None then Inr (Some (i\<lparr>pi_status := PI_PARTIAL, pi_pkginst := Some pkginst\<rparr>))
            else
              rbind (sprintf_to 256 (d @ ''/'' @ pkginst @ ''/!R-Lock!'')) (\<lambda>l2.
              Inr (Some (i\<lparr>pi_status := (if fs_file fs l2 \<noteq> None then PI_PARTIAL else PI_INSTALLED), pi_pkginst := Some pkginst\<rparr>))))))"

text \<open>The status that is returned, and the structure.\<close>

definition fpkginfo :: "fsys \<Rightarrow> string \<Rightarrow> bool \<Rightarrow> string option \<Rightarrow> inst_st \<Rightarrow> (int \<times> pkg_info \<times> inst_st) res" where
  "fpkginfo fs vsadmdir abi pkginst s0 =
     (case pkginst of
        None \<Rightarrow> Inr (0, initpkg, s0)
      | Some p \<Rightarrow>
          if pkgnmchk abi p (Some ''all'') True \<noteq> 0 then Inr (- 1, initpkg, s0)
          else
           (let s = s0\<lparr>i_pkg := use_dir vsadmdir (i_pkg s0)\<rparr> in
            rbind (rdconfig fs vsadmdir s p initpkg) (\<lambda>r.
            Inr (case r of None \<Rightarrow> (- 1, initpkg, s) | Some i \<Rightarrow> (0, i, s)))))"

definition pkginfo ::
  "fsys \<Rightarrow> string \<Rightarrow> bool \<Rightarrow> string option \<Rightarrow> string option \<Rightarrow> string option \<Rightarrow> pkg_info \<Rightarrow> inst_st \<Rightarrow> (int \<times> pkg_info \<times> inst_st) res" where
  "pkginfo fs vsadmdir abi pkginst ckarch ckvers i0 s =
     (case pkginst of
        None \<Rightarrow> rbind (fpkginst fs vsadmdir abi None None None s) (\<lambda>(_, s'). Inr (0, initpkg, s'))
      | Some p \<Rightarrow>
          let wild = (pkgnmchk abi p (Some ''all'') True \<noteq> 0) in
          rbind (if wild then fpkginst fs vsadmdir abi (Some p) ckarch ckvers s else Inr (Some p, s)) (\<lambda>(q, s1).
          case q of
            None \<Rightarrow> Inr (- 1, i0, s1)
          | Some inst \<Rightarrow>
              rbind (fpkginfo fs vsadmdir abi (Some inst) s1) (\<lambda>(k, i, s2).
              if k \<noteq> 0 then Inr (- 1, i, s2)
              else if \<not> wild \<and> (ckarch \<noteq> None \<or> ckvers \<noteq> None) then
                rbind (ckinst fs vsadmdir s2 inst (pi_arch i) (pi_version i) ckarch ckvers) (\<lambda>c.
                Inr (if c \<noteq> 0 then - 1 else 0, i, s2))
              else Inr (0, i, s2))))"

end
