(* ===== verification/Dockdeps.thy ===== *)
theory Dockdeps
  imports Pkginst
begin

text \<open>
  The dependencies of packages (\<open>libinst/dockdeps.c\<close>): the parser of depend files, and the checks before a package is installed or removed.
  Of the messages only the lines of a preinstallation check are kept.

  Of the arrays \<open>alist\<close> and \<open>vlist\<close> the entries from \<open>nlist\<close> on are always \<open>NULL\<close>, so one list has the pairs below.
\<close>

section \<open>The parser\<close>

definition LSIZE :: nat where "LSIZE = 256"
definition NVERS :: nat where "NVERS = 50"

record depend =
  dep_type :: char
  dep_abbrev :: string
  dep_name :: string
  dep_list :: "(string option \<times> string option) list"

definition depend0 :: depend where
  "depend0 = \<lparr>dep_type = NUL, dep_abbrev = [], dep_name = [], dep_list = []\<rparr>"

text \<open>\<open>sscanf(line, "%c %128s %[^\n]", ...)\<close>: the array \<open>name\<close> has 128 bytes.\<close>

definition scan_def :: "string \<Rightarrow> depend \<Rightarrow> depend res" where
  "scan_def line d =
     (let r = dropWhile isspace (tl line);
          ab = take 128 (takeWhile (\<lambda>c. \<not> isspace c) r);
          nm = takeWhile (\<lambda>c. c \<noteq> NL) (dropWhile isspace (drop (length ab) r)) in
      if length nm < 128
      then Inr (d\<lparr>dep_type := hd line, dep_abbrev := ab, dep_name := (if ab = [] then dep_name d else nm)\<rparr>)
      else Inl BufOverrun)"

text \<open>A line with a version.\<close>

definition add_vers :: "string option \<Rightarrow> string \<Rightarrow> depend \<Rightarrow> depend res" where
  "add_vers arch pt d =
     (let q = dropWhile isspace pt in
      if length (dep_list d) < NVERS
      then Inr (d\<lparr>dep_list := dep_list d @ [(arch, if q = [] then None else Some (takeWhile (\<lambda>c. c \<noteq> NL) q))]\<rparr>)
      else Inl BufOverrun)"

text \<open>
  One line: the value that \<open>getline\<close> returns, or whether a definition has been found so far. A line with blanks in front belongs to the
  definition before it.
\<close>

definition dep_line :: "string \<Rightarrow> bool \<Rightarrow> depend \<Rightarrow> (int option \<times> bool \<times> depend) res" where
  "dep_line l found d =
     (let line = takeWhile (\<lambda>c. c \<noteq> NUL) l; pt = dropWhile isspace line in
      if pt = [] \<or> hd pt = CHR ''#'' then Inr (None, found, d)
      else if pt = line then rbind (scan_def line d) (\<lambda>d'. Inr (None, True, d'))
      else if \<not> found then Inr (Some 0, found, d)
      else if hd pt = CHR ''('' then
        (case strchr pt (CHR '')'') of
           None \<Rightarrow> Inr (Some (- 1), True, d)
         | Some new \<Rightarrow>
             rbind (add_vers (Some (takeWhile (\<lambda>c. c \<noteq> CHR '')'') (tl pt))) (tl new) d) (\<lambda>d'. Inr (None, True, d')))
      else rbind (add_vers None pt d) (\<lambda>d'. Inr (None, True, d')))"

text \<open>\<open>1\<close> for a definition, \<open>0\<close> for the end, \<open>-1\<close> for a bad line, and the rest of the file.\<close>

function get_loop :: "string \<Rightarrow> bool \<Rightarrow> depend \<Rightarrow> (int \<times> depend \<times> string) res" where
  "get_loop fp found d =
     (if found \<and> fp \<noteq> [] \<and> \<not> isspace (hd fp) then Inr (1, d, fp)
      else (case fgets LSIZE fp of
        None \<Rightarrow> Inr (if found then 1 else 0, d, fp)
      | Some (l, r) \<Rightarrow>
          (case dep_line l found d of
             Inl f \<Rightarrow> Inl f
           | Inr (Some k, _, d') \<Rightarrow> Inr (k, d', r)
           | Inr (None, found', d') \<Rightarrow> get_loop r found' d')))"
  by pat_completeness auto
termination
  by (relation "measure (\<lambda>(s, _). length s)") (auto simp: LSIZE_def dest: fgets_shorter)

declare get_loop.simps [simp del]

definition xxgetline :: "string \<Rightarrow> (int \<times> depend \<times> string) res" where
  "xxgetline fp = get_loop fp False depend0"

section \<open>The checks\<close>

text \<open>
  The static data: the count of errors, the structure \<open>info\<close>, the open directories, the package to be removed, and the lines of a
  preinstallation check.
\<close>

record dep_st =
  ds_errflg :: int
  ds_info :: pkg_info
  ds_inst :: inst_st
  ds_rmpkginst :: string
  ds_rmpkg :: string
  ds_out :: "string list"

definition report :: "bool \<Rightarrow> string \<Rightarrow> dep_st \<Rightarrow> dep_st" where
  "report pre line s = s\<lparr>ds_errflg := ds_errflg s + 1, ds_out := ds_out s @ (if pre then [line] else [])\<rparr>"

definition incompat :: "bool \<Rightarrow> nat \<Rightarrow> string \<Rightarrow> dep_st \<Rightarrow> dep_st" where
  "incompat pre pkgexist pkginst s = (if pkgexist = 0 then s else report pre (''incompat='' @ pkginst) s)"

definition prereq :: "bool \<Rightarrow> nat \<Rightarrow> nat \<Rightarrow> string \<Rightarrow> dep_st \<Rightarrow> dep_st" where
  "prereq pre pkgexist pkgokay pkginst s =
     (if pkgokay \<noteq> 0 then s
      else report pre ((if pkgexist \<noteq> 0 then ''prerequisite-incomplete='' else ''prerequisite-installed='') @ pkginst) s)"

definition deponme :: "bool \<Rightarrow> nat \<Rightarrow> string \<Rightarrow> string \<Rightarrow> dep_st \<Rightarrow> dep_st" where
  "deponme pre pkgexist pkginst pkgname s =
     (if pkgexist = 0 then s
      else report pre (take 511 (if pkgname = [] then ''dependonme='' @ pkginst else ''dependsonme='' @ pkginst @ '':'' @ pkgname)) s)"

text \<open>The loop over the versions of a definition, which runs once when there are none: packages that exist, and those that are in order.\<close>

definition specs :: "depend \<Rightarrow> (string option \<times> string option) list" where
  "specs d = (if dep_list d = [] then [(None, None)] else dep_list d)"

primrec count_insts ::
  "fsys \<Rightarrow> string \<Rightarrow> bool \<Rightarrow> string \<Rightarrow> (string option \<times> string option) list \<Rightarrow> nat \<times> nat \<times> dep_st \<Rightarrow> (nat \<times> nat \<times> dep_st) res" where
  "count_insts fs vsadmdir abi w [] x = Inr x"
| "count_insts fs vsadmdir abi w (av # avs) x =
     (case x of (ex, ok, s) \<Rightarrow>
        rbind (fpkginst fs vsadmdir abi (Some w) (fst av) (snd av) (ds_inst s)) (\<lambda>(inst, i1).
        case inst of
          None \<Rightarrow> count_insts fs vsadmdir abi w avs (ex, ok, s\<lparr>ds_inst := i1\<rparr>)
        | Some n \<Rightarrow>
            rbind (pkginfo fs vsadmdir abi (Some n) None None (ds_info s) i1) (\<lambda>(k, info, i2).
            let s' = s\<lparr>ds_info := info, ds_inst := i2\<rparr> in
            if k = 0 then
              count_insts fs vsadmdir abi w avs
                (Suc ex, if pi_status info = PI_INSTALLED \<or> pi_status info = PI_PRESVR4 then Suc ok else ok, s')
            else count_insts fs vsadmdir abi w avs (ex, ok, s'))))"

text \<open>
  One definition. An unknown type is counted as an error, and its packages are looked up all the same. A missing name in \<open>info\<close> becomes a pointer
  to the array \<open>name\<close> of the definition at hand, also in later rounds, so it stays \<open>None\<close> here.
\<close>

definition check_def :: "fsys \<Rightarrow> string \<Rightarrow> bool \<Rightarrow> bool \<Rightarrow> bool \<Rightarrow> depend \<Rightarrow> dep_st \<Rightarrow> dep_st res" where
  "check_def fs vsadmdir abi remove pre d s0 =
     (if (dep_type d \<in> set ''IP'' \<and> remove) \<or> (dep_type d = CHR ''R'' \<and> \<not> remove) then Inr s0
      else
       (let s = (if dep_type d \<in> set ''IPR'' then s0 else s0\<lparr>ds_errflg := ds_errflg s0 + 1\<rparr>) in
        rbind (count_insts fs vsadmdir abi (take 127 (dep_abbrev d @ ''.*'')) (specs d) (0, 0, s)) (\<lambda>(ex, ok, s1).
        let s2 = s1\<lparr>ds_inst := (ds_inst s1)\<lparr>i_dir := None, i_old := None\<rparr>\<rparr>;
            nm = (case pi_name (ds_info s1) of None \<Rightarrow> dep_name d | Some n \<Rightarrow> n) in
        Inr (if dep_type d = CHR ''I'' then incompat pre ex (dep_abbrev d) s2
             else if dep_type d = CHR ''P'' then prereq pre ex ok (dep_abbrev d) s2
             else if dep_type d = CHR ''R'' then deponme pre ex (dep_abbrev d) nm s2
             else s2))))"

lemma dep_line_end: "dep_line l found d = Inr (Some k, f, d') \<Longrightarrow> k = 0 \<or> k = - 1"
  by (auto simp: dep_line_def rbind_Inr Let_def split: if_splits option.splits)

lemma get_loop_shorter:
  "get_loop fp found d = Inr (k, d', r) \<Longrightarrow> length r \<le> length fp \<and> (k \<noteq> 0 \<longrightarrow> \<not> found \<longrightarrow> length r < length fp)"
proof (induction fp arbitrary: found d rule: length_induct)
  case (1 fp)
  show ?case
  proof (cases "found \<and> fp \<noteq> [] \<and> \<not> isspace (hd fp)")
    case True
    then show ?thesis using "1.prems" by (subst (asm) get_loop.simps) auto
  next
    case False
    note p = "1.prems"[unfolded get_loop.simps[of fp found d] if_not_P[OF False]]
    show ?thesis
    proof (cases "fgets LSIZE fp")
      case None
      then show ?thesis using p by (auto split: if_splits)
    next
      case (Some x)
      obtain l r0 where x: "x = (l, r0)" by (cases x)
      have r0: "length r0 < length fp" using fgets_shorter Some x by (simp add: LSIZE_def)
      obtain q f d1 where q: "dep_line l found d = Inr (q, f, d1)"
        using Some x p by (auto split: sum.splits)
      show ?thesis
      proof (cases q)
        case None
        then have "get_loop r0 f d1 = Inr (k, d', r)" using Some x q p by simp
        then show ?thesis using "1.IH" r0 by fastforce
      next
        case (Some k')
        then have "r = r0" using \<open>fgets LSIZE fp = Some x\<close> x q p by simp
        then show ?thesis using r0 by simp
      qed
    qed
  qed
qed

text \<open>The loop over a depend file.\<close>

function dep_loop :: "fsys \<Rightarrow> string \<Rightarrow> bool \<Rightarrow> bool \<Rightarrow> bool \<Rightarrow> string \<Rightarrow> dep_st \<Rightarrow> dep_st res" where
  "dep_loop fs vsadmdir abi remove pre fp s =
     (case xxgetline fp of
        Inl f \<Rightarrow> Inl f
      | Inr (k, d, r) \<Rightarrow>
          if k = 0 then Inr s
          else (case check_def fs vsadmdir abi remove pre d s of
            Inl f \<Rightarrow> Inl f
          | Inr s' \<Rightarrow> dep_loop fs vsadmdir abi remove pre r s'))"
  by pat_completeness auto
termination
  by (relation "measure (\<lambda>(_, _, _, _, _, fp, _). length fp)") (auto simp: xxgetline_def dest: get_loop_shorter)

declare dep_loop.simps [simp del]

section \<open>Who depends on the package\<close>

text \<open>Whether one of the versions leads to the package that is removed.\<close>

primrec names_me ::
  "fsys \<Rightarrow> string \<Rightarrow> bool \<Rightarrow> string \<Rightarrow> string \<Rightarrow> (string option \<times> string option) list \<Rightarrow> inst_st \<Rightarrow> (bool \<times> inst_st) res" where
  "names_me fs vsadmdir abi me w [] i = Inr (False, i)"
| "names_me fs vsadmdir abi me w (av # avs) i =
     rbind (fpkginst fs vsadmdir abi (Some w) (fst av) (snd av) i) (\<lambda>(inst, i1).
     if inst = Some me then Inr (True, i1) else names_me fs vsadmdir abi me w avs i1)"

function ckpreq :: "fsys \<Rightarrow> string \<Rightarrow> bool \<Rightarrow> bool \<Rightarrow> string \<Rightarrow> string \<Rightarrow> dep_st \<Rightarrow> dep_st res" where
  "ckpreq fs vsadmdir abi pre dname fp s =
     (case xxgetline fp of
        Inl f \<Rightarrow> Inl f
      | Inr (k, d, r) \<Rightarrow>
          if k = 0 then Inr s
          else if dep_type d \<noteq> CHR ''P'' \<or> dep_abbrev d \<noteq> ds_rmpkg s then ckpreq fs vsadmdir abi pre dname r s
          else
           (let w = (if CHR ''.'' \<in> set (dep_abbrev d) then dep_abbrev d else dep_abbrev d @ ''.*'') in
            case names_me fs vsadmdir abi (ds_rmpkginst s) w (specs d) (ds_inst s) of
              Inl f \<Rightarrow> Inl f
            | Inr (hit, i) \<Rightarrow>
                let s' = s\<lparr>ds_inst := i\<lparr>i_dir := None, i_old := None\<rparr>\<rparr> in
                if hit then Inr (deponme pre 1 dname [] s') else ckpreq fs vsadmdir abi pre dname r s'))"
  by pat_completeness auto
termination
  by (relation "measure (\<lambda>(_, _, _, _, _, fp, _). length fp)") (auto simp: xxgetline_def dest: get_loop_shorter)

declare ckpreq.simps [simp del]

definition DEPEND_FILE :: string where "DEPEND_FILE = ''install/depend''"

primrec ckrdeps_loop :: "fsys \<Rightarrow> string \<Rightarrow> bool \<Rightarrow> bool \<Rightarrow> string \<Rightarrow> string list \<Rightarrow> dep_st \<Rightarrow> dep_st res" where
  "ckrdeps_loop fs vsadmdir abi pre dir [] s = Inr s"
| "ckrdeps_loop fs vsadmdir abi pre dir (n # ns) s =
     (if deref n = CHR ''.'' \<or> n = ds_rmpkginst s then ckrdeps_loop fs vsadmdir abi pre dir ns s
      else (case fs_file fs (take PATH_MAX (dir @ ''/'' @ n @ ''/'' @ DEPEND_FILE)) of
        None \<Rightarrow> ckrdeps_loop fs vsadmdir abi pre dir ns s
      | Some fp \<Rightarrow> rbind (ckpreq fs vsadmdir abi pre n fp s) (ckrdeps_loop fs vsadmdir abi pre dir ns)))"

definition ckrdeps :: "fsys \<Rightarrow> string \<Rightarrow> bool \<Rightarrow> bool \<Rightarrow> string \<Rightarrow> dep_st \<Rightarrow> dep_st res" where
  "ckrdeps fs vsadmdir abi pre dir s =
     (case fs_dir fs dir of None \<Rightarrow> Inr s | Some ns \<Rightarrow> ckrdeps_loop fs vsadmdir abi pre dir ns s)"

text \<open>\<open>strncpy\<close> of the name and \<open>strtok\<close> at the dots.\<close>

definition rm_abbrev :: "string \<Rightarrow> string" where
  "rm_abbrev inst =
     (let t = take PKGSIZ inst in takeWhile (\<lambda>c. c = CHR ''.'') t @ takeWhile (\<lambda>c. c \<noteq> CHR ''.'') (dropWhile (\<lambda>c. c = CHR ''.'') t))"

text \<open>
  The number of errors. The removal of a package reads its own depend file, whose name is cut to 127 characters, and then
  those of all others. Without the file an installation quits.
\<close>

definition dockdeps :: "fsys \<Rightarrow> string \<Rightarrow> bool \<Rightarrow> string \<Rightarrow> bool \<Rightarrow> bool \<Rightarrow> dep_st \<Rightarrow> (int \<times> dep_st) mrg" where
  "dockdeps fs vsadmdir abi depfile remove pre s0 =
     (if remove then
        (let dir = the_dir (i_pkg (ds_inst s0)) (pkgdir (i_pkg (ds_inst s0)));
             s = s0\<lparr>ds_rmpkginst := depfile, ds_rmpkg := rm_abbrev depfile\<rparr> in
         if pkgdir (i_pkg (ds_inst s0)) = D_null then MFault NullDeref
         else
           mbind (mlift (case fs_file fs (take 127 (dir @ ''/'' @ depfile @ ''/'' @ DEPEND_FILE)) of
               None \<Rightarrow> Inr s
             | Some fp \<Rightarrow> dep_loop fs vsadmdir abi remove pre fp s)) (\<lambda>s1.
           mbind (mlift (ckrdeps fs vsadmdir abi pre dir s1)) (\<lambda>s2. MOk (ds_errflg s2, s2))))
      else (case fs_file fs depfile of
        None \<Rightarrow> MQuit 99
      | Some fp \<Rightarrow> mbind (mlift (dep_loop fs vsadmdir abi remove pre fp s0)) (\<lambda>s1. MOk (ds_errflg s1, s1))))"

end
