(* ===== verification/Instprops.thy ===== *)
theory Instprops
  imports Dockdeps
begin

text \<open>
  Properties of package instances: versions are compared by their words, architectures by membership, and the search gives
  every instance that fits, in the order of the directory.
\<close>

section \<open>Versions\<close>

function words :: "string \<Rightarrow> string list" where
  "words s =
     (let t = dropWhile isspace s in
      if t = [] then [] else takeWhile (\<lambda>c. \<not> isspace c) t # words (dropWhile (\<lambda>c. \<not> isspace c) t))"
  by pat_completeness auto
termination
proof (relation "measure length", goal_cases)
  case (2 s t)
  have "length t \<le> length s" using 2(1) by (simp add: length_dropWhile_le)
  moreover obtain c u where t: "t = c # u" using 2(2) by (cases t) auto
  have "\<not> isspace c" using 2(1) t hd_dropWhile[of isspace s] by (metis list.distinct(1) list.sel(1))
  then have "length (dropWhile (\<lambda>c. \<not> isspace c) t) \<le> length u" using t by (simp add: length_dropWhile_le)
  ultimately show ?case using t by simp
qed simp

declare words.simps [simp del]

text \<open>The word at the front, and the words behind it.\<close>

definition front :: "string \<Rightarrow> string \<times> string list" where
  "front s = (takeWhile (\<lambda>c. \<not> isspace c) s, words (dropWhile (\<lambda>c. \<not> isspace c) s))"

lemma words_front: "words s = (let t = dropWhile isspace s in if t = [] then [] else fst (front t) # snd (front t))"
  by (subst words.simps) (simp add: front_def Let_def)

lemma words_Nil [simp]: "words [] = []"
  by (subst words.simps) simp

lemma front_Cons: "\<not> isspace c \<Longrightarrow> front (c # s) = (c # fst (front s), snd (front s))"
  by (simp add: front_def)

lemma front_space: "s = [] \<or> isspace (hd s) \<Longrightarrow> front s = ([], words s)"
  by (cases s) (auto simp: front_def)

lemma words_skip: "words (dropWhile isspace s) = words s"
  by (subst (1 2) words.simps) simp

lemma skip_hd: "dropWhile isspace s \<noteq> [] \<Longrightarrow> \<not> isspace (hd (dropWhile isspace s))"
  using hd_dropWhile by blast

definition no_trail :: "string \<Rightarrow> bool" where
  "no_trail s \<longleftrightarrow> s = [] \<or> \<not> isspace (last s)"

lemma no_trail_tl: "no_trail (c # s) \<Longrightarrow> no_trail s"
  by (auto simp: no_trail_def split: if_splits)

lemma no_trail_skip: "no_trail s \<Longrightarrow> no_trail (dropWhile isspace s)"
  by (induction s) (auto simp: no_trail_def split: if_splits)

lemma words_ne: "no_trail s \<Longrightarrow> s \<noteq> [] \<Longrightarrow> words s \<noteq> []"
proof -
  assume "no_trail s" "s \<noteq> []"
  then have "\<not> isspace (last s)" "last s \<in> set s" by (auto simp: no_trail_def)
  then have "dropWhile isspace s \<noteq> []" by auto
  then show ?thesis by (subst words.simps) (simp add: Let_def)
qed

lemma front_inject:
  assumes "no_trail a" "r = [] \<or> \<not> isspace (hd r)" "a = [] \<or> \<not> isspace (hd a)"
  shows "words r = words a \<longleftrightarrow> front r = front a"
proof -
  have w: "words s = (if s = [] then [] else fst (front s) # snd (front s))" if "s = [] \<or> \<not> isspace (hd s)" for s
  proof -
    have "dropWhile isspace s = s" using that by (cases s) auto
    then show ?thesis using words_front[of s] by (simp add: Let_def)
  qed
  have f: "front s \<noteq> front []" if "s \<noteq> []" "s = [] \<or> \<not> isspace (hd s)" for s
    using that by (cases s) (auto simp: front_def)
  show ?thesis
    using w[OF assms(2)] w[OF assms(3)] f[OF _ assms(2)] f[OF _ assms(3)]
    by (cases "r = []"; cases "a = []") (auto simp: prod_eq_iff)
qed

lemma vers_loop_front:
  assumes "NUL \<notin> set r" "NUL \<notin> set a" "no_trail a" "r = [] \<or> \<not> isspace (hd r)"
  shows "vers_loop r a = (if front r = front a then 0 else - 1)"
  using assms
proof (induction r a rule: vers_loop.induct)
  case (1 r a)
  show ?case
  proof (cases "r = [] \<or> a = [] \<or> hd r \<noteq> hd a")
    case True
    have "front r = front a \<longleftrightarrow> r = [] \<and> a = []"
    proof (cases r)
      case Nil
      then show ?thesis using words_ne[OF "1.prems"(3)] by (cases a) (auto simp: front_def)
    next
      case (Cons c r')
      then have "\<not> isspace c" using "1.prems"(4) by simp
      then show ?thesis using True Cons by (cases a) (auto simp: front_def)
    qed
    moreover have "deref r \<noteq> deref a" if "\<not> (r = [] \<and> a = [])"
      using that True "1.prems"(1,2) by (cases r; cases a) auto
    ultimately show ?thesis by (subst vers_loop.simps) auto
  next
    case False
    then obtain c r' a' where c: "r = c # r'" "a = c # a'" by (cases r; cases a) auto
    have nc: "\<not> isspace c" using "1.prems"(4) c by simp
    have nt: "no_trail a'" using "1.prems"(3) c no_trail_tl by blast
    show ?thesis
    proof (cases "isspace (deref r')")
      case True
      then have r': "r' = [] \<or> isspace (hd r')" by (cases r') auto
      show ?thesis
      proof (cases "deref a' \<noteq> NUL \<and> \<not> isspace (deref a')")
        case True
        then obtain d b where "a' = d # b" "\<not> isspace d" by (cases a') auto
        then have "front r \<noteq> front a" using r' nc by (auto simp: c front_Cons front_space)
        then show ?thesis using True \<open>isspace (deref r')\<close> by (subst vers_loop.simps) (simp add: c)
      next
        case False
        then have a': "a' = [] \<or> isspace (hd a')" using "1.prems"(2) by (cases a') (auto simp: c)
        have sr: "dropWhile isspace r' = [] \<or> \<not> isspace (hd (dropWhile isspace r'))" using skip_hd by blast
        have sa: "dropWhile isspace a' = [] \<or> \<not> isspace (hd (dropWhile isspace a'))" using skip_hd by blast
        have "vers_loop r a = vers_loop (dropWhile isspace r') (dropWhile isspace a')"
          using \<open>isspace (deref r')\<close> False by (subst vers_loop.simps) (auto simp: c)
        also have "\<dots> = (if front (dropWhile isspace r') = front (dropWhile isspace a') then 0 else - 1)"
        proof (rule "1.IH"(1))
          show "\<not> (r = [] \<and> a = [])" "\<not> deref r \<noteq> deref a" "r' = tl r" "a' = tl a" "isspace (deref r')" by (simp_all add: c \<open>isspace (deref r')\<close>)
          show "\<not> (deref a' \<noteq> NUL \<and> \<not> isspace (deref a'))" by (rule False)
          show "NUL \<notin> set (dropWhile isspace r')" "NUL \<notin> set (dropWhile isspace a')"
            using "1.prems"(1,2) by (auto simp: c dest: set_dropWhileD)
        qed (rule no_trail_skip[OF nt], rule sr)
        also have "front (dropWhile isspace r') = front (dropWhile isspace a') \<longleftrightarrow> words r' = words a'"
          using front_inject[OF no_trail_skip[OF nt] sr sa] unfolding words_skip by blast
        also have "words r' = words a' \<longleftrightarrow> front r = front a"
          unfolding c front_Cons[OF nc] front_space[OF r'] front_space[OF a'] by simp
        finally show ?thesis .
      qed
    next
      case False
      have "vers_loop r a = vers_loop r' a'" using False by (subst vers_loop.simps) (simp add: c)
      also have "\<dots> = (if front r' = front a' then 0 else - 1)"
      proof (rule "1.IH"(2))
        show "\<not> (r = [] \<and> a = [])" "\<not> deref r \<noteq> deref a" "r' = tl r" "a' = tl a" by (simp_all add: c)
        show "NUL \<notin> set r'" "NUL \<notin> set a'" using "1.prems"(1,2) by (auto simp: c)
        show "r' = [] \<or> \<not> isspace (hd r')" using False by (cases r') auto
      qed (rule False, rule nt)
      finally show ?thesis using nc by (auto simp: c front_Cons prod_eq_iff)
    qed
  qed
qed

text \<open>
  C21. Versions are compared by their words: \<open>verscmp\<close> finds a requested version equal to that of an instance exactly when both have the same words,
  whatever blanks separate them, for a version without blanks at its end, as \<open>fpkgparam\<close> returns it.
\<close>

theorem verscmp_words:
  assumes "NUL \<notin> set request" "NUL \<notin> set actual" "actual = [] \<or> \<not> isspace (last actual)"
  shows "verscmp request (Some actual) = Inr (if words request = words actual then 0 else - 1)"
proof -
  have nt: "no_trail (dropWhile isspace actual)" using assms(3) no_trail_skip by (auto simp: no_trail_def)
  have r: "dropWhile isspace s = [] \<or> \<not> isspace (hd (dropWhile isspace s))" for s using skip_hd by blast
  have "vers_loop (dropWhile isspace request) (dropWhile isspace actual) =
      (if front (dropWhile isspace request) = front (dropWhile isspace actual) then 0 else - 1)"
    by (rule vers_loop_front) (use assms nt r in \<open>auto dest: set_dropWhileD\<close>)
  also have "front (dropWhile isspace request) = front (dropWhile isspace actual) \<longleftrightarrow> words request = words actual"
    using front_inject[OF nt r r] by (simp add: words_skip)
  finally show ?thesis by (simp add: verscmp_def)
qed

theorem verscmp_words_witness: "verscmp '' 1.0  beta'' (Some ''1.0 beta'') = Inr 0 \<and> verscmp ''1.0'' (Some ''1.0 beta'') = Inr (- 1)"
proof -
  have w: "words '' 1.0  beta'' = [''1.0'', ''beta'']" "words ''1.0 beta'' = [''1.0'', ''beta'']" "words ''1.0'' = [''1.0'']"
    by (simp_all add: words.simps isspace_def)
  show ?thesis
    using verscmp_words[of "'' 1.0  beta''" "''1.0 beta''"] verscmp_words[of "''1.0''" "''1.0 beta''"] by (simp add: w isspace_def)
qed

section \<open>Architectures\<close>

lemma common_split:
  assumes "common arch l = (pt, r)"
  shows "\<exists>k. arch = k @ pt \<and> l = k @ r \<and> (pt = [] \<or> r = [] \<or> hd pt \<noteq> hd r)"
  using assms
proof (induction arch l rule: common.induct)
  case (1 x pt' y l')
  then show ?case by (auto split: if_splits intro: exI[of _ "x # _"])
qed auto

lemma split_comma:
  "split_on '','' l = takeWhile (\<lambda>c. c \<noteq> CHR '','') l #
     (case dropWhile (\<lambda>c. c \<noteq> CHR '','') l of [] \<Rightarrow> [] | _ # r \<Rightarrow> split_on '','' r)"
proof (cases "CHR '','' \<in> set l")
  case True
  then obtain a b where l: "l = a @ CHR '','' # b" "CHR '','' \<notin> set a" using split_list_first by metis
  have "takeWhile (\<lambda>c. c \<noteq> CHR '','') l = a" "dropWhile (\<lambda>c. c \<noteq> CHR '','') l = CHR '','' # b"
    using l by (auto simp: takeWhile_tail dropWhile_append)
  then show ?thesis using l split_on_append[of "CHR '',''" "'',''" a b] split_on_no_sep[of a "'',''"] by simp
next
  case False
  then have "takeWhile (\<lambda>c. c \<noteq> CHR '','') l = l" "dropWhile (\<lambda>c. c \<noteq> CHR '','') l = []"
    by (auto simp: takeWhile_eq_all_conv)
  moreover have "split_on '','' l = [l]" using False split_on_no_sep[of l "'',''"] by simp
  ultimately show ?thesis by (simp only: list.case)
qed

text \<open>
  An architecture fits a list when it is one of its elements: \<open>archcmp\<close>, which compares character by character and skips to the next comma, finds
  exactly the elements of the list between its commas.
\<close>

theorem archcmp_member:
  assumes "arch \<noteq> []" "CHR '','' \<notin> set arch"
  shows "archcmp (Some arch) (Some archlist) = Inr (if arch \<in> set (split_on '','' archlist) then 0 else - 1)"
proof -
  have "arch_loop arch l = (if arch \<in> set (split_on '','' l) then 0 else - 1)" for l
  proof (induction l rule: length_induct)
    case (1 l)
    show ?case
    proof (cases "l = []")
      case True
      then show ?thesis using assms(1) by (subst arch_loop.simps) simp
    next
      case False
      obtain pt r where c: "common arch l = (pt, r)" by (cases "common arch l")
      obtain k where k: "arch = k @ pt" "l = k @ r" "pt = [] \<or> r = [] \<or> hd pt \<noteq> hd r" using common_split[OF c] by blast
      have nk: "CHR '','' \<notin> set k" using assms(2) k(1) by simp
      let ?e = "takeWhile (\<lambda>c. c \<noteq> CHR '','') l"
      have e: "?e = k @ takeWhile (\<lambda>c. c \<noteq> CHR '','') r" "dropWhile (\<lambda>c. c \<noteq> CHR '','') l = dropWhile (\<lambda>c. c \<noteq> CHR '','') r"
        using nk k(2) by (auto simp: takeWhile_append dropWhile_append)
      have hit: "arch = ?e \<longleftrightarrow> pt = [] \<and> (r = [] \<or> hd r = CHR '','')"
      proof -
        have "pt = takeWhile (\<lambda>c. c \<noteq> CHR '','') r \<longleftrightarrow> pt = [] \<and> (r = [] \<or> hd r = CHR '','')"
          using k(3) assms(2) k(1) by (cases r; cases pt) auto
        then show ?thesis using e(1) k(1) by simp
      qed
      define q where "q = drop 1 (dropWhile (\<lambda>c. c \<noteq> CHR '','') r)"
      define E where "E = (dropWhile (\<lambda>c. c \<noteq> CHR '','') r = [])"
      have "set (split_on '','' l) = insert ?e (if E then {} else set (split_on '','' q))"
        unfolding E_def split_comma[of l] e(2) q_def
        by (cases "dropWhile (\<lambda>c. c \<noteq> CHR '','') r") (simp_all del: dropWhile_eq_Nil_conv)
      moreover have "arch \<notin> set (split_on '','' q)" if E
        unfolding q_def that[unfolded E_def] using assms(1) by simp
      ultimately have mem: "arch \<in> set (split_on '','' l) \<longleftrightarrow> arch = ?e \<or> arch \<in> set (split_on '','' q)" by (cases E) auto
      have "length q < length l"
      proof -
        have "length q \<le> length r - 1" using length_dropWhile_le[of "\<lambda>c. c \<noteq> CHR '',''" r] by (simp add: q_def)
        moreover have "0 < length l" "length r \<le> length l" using False k(2) by simp_all
        ultimately show ?thesis by linarith
      qed
      then have ih: "arch_loop arch q = (if arch \<in> set (split_on '','' q) then 0 else - 1)" using "1.IH" by blast
      have "arch_loop arch l = (if pt = [] \<and> (r = [] \<or> hd r = CHR '','') then 0 else arch_loop arch q)"
        using False c by (subst arch_loop.simps) (auto simp: q_def)
      then show ?thesis unfolding mem ih hit[symmetric] by metis
    qed
  qed
  then show ?thesis by (simp add: archcmp_def)
qed

theorem archcmp_member_witness: "archcmp (Some ''i386'') (Some ''i38,i386,sparc'') = Inr 0 \<and> archcmp (Some ''i3'') (Some ''i38,i386'') = Inr (- 1)"
  using archcmp_member[of "''i386''" "''i38,i386,sparc''"] archcmp_member[of "''i3''" "''i38,i386''"] by simp

section \<open>Searching\<close>

text \<open>A valid name fits into the static array of the search: 32 characters and an extension of five.\<close>

lemma stem_ok_length: "stem_ok d = Some n \<Longrightarrow> NUL \<notin> set d \<Longrightarrow> n = length (stem d)"
  by (induction d arbitrary: n) (auto simp: stem_def in_str_def split: if_splits)

lemma pkgnmchk_length:
  assumes "pkgnmchk abi d (Some spec) False = 0" "NUL \<notin> set d"
  shows "length d \<le> PKGSIZ"
proof -
  have v: "valname abi d False False = 0" using assms(1) by (auto simp: pkgnmchk_def split: if_splits)
  then have "check_stem abi False d = 0" "length (extension d) \<le> 5"
    by (auto simp: valname_def strpbrk_ext split: if_splits)
  moreover obtain n where "stem_ok d = Some n" "n \<le> 32"
    using calculation(1) by (auto simp: check_stem_def ABI_NAMELNGTH_def NON_ABI_NAMELNGTH_def split: if_splits option.splits)
  moreover have "d = stem d @ extension d" by (simp add: stem_def extension_def)
  then have "length d = length (stem d) + length (extension d)" by (metis length_append)
  ultimately show ?thesis using stem_ok_length[of d n] assms(2) by (simp add: PKGSIZ_def)
qed

definition selects :: "fsys \<Rightarrow> string \<Rightarrow> bool \<Rightarrow> inst_st \<Rightarrow> string \<Rightarrow> string option \<Rightarrow> string option \<Rightarrow> string \<Rightarrow> bool" where
  "selects fs vs abi s spec a v d \<longleftrightarrow> deref d \<noteq> CHR ''.'' \<and> pkgnmchk abi d (Some spec) False = 0 \<and> ckinfo fs vs s d a v = Inr 0"

text \<open>The candidates can be checked.\<close>

definition dir_ok :: "fsys \<Rightarrow> string \<Rightarrow> bool \<Rightarrow> inst_st \<Rightarrow> string \<Rightarrow> string option \<Rightarrow> string option \<Rightarrow> string list \<Rightarrow> bool" where
  "dir_ok fs vs abi s spec a v ds \<longleftrightarrow>
     (\<forall>d \<in> set ds. deref d \<noteq> CHR ''.'' \<and> pkgnmchk abi d (Some spec) False = 0 \<longrightarrow> NUL \<notin> set d \<and> (\<exists>k. ckinfo fs vs s d a v = Inr k))"

lemma dir_search_first:
  assumes "dir_ok fs vs abi s spec a v ds"
  shows "dir_search fs vs abi s spec a v ds =
    Inr (case dropWhile (\<lambda>d. \<not> selects fs vs abi s spec a v d) ds of [] \<Rightarrow> (None, []) | d # r \<Rightarrow> (Some d, r))"
  using assms
proof (induction ds)
  case (Cons d ds)
  then have ih: "dir_search fs vs abi s spec a v ds =
      Inr (case dropWhile (\<lambda>d. \<not> selects fs vs abi s spec a v d) ds of [] \<Rightarrow> (None, []) | d # r \<Rightarrow> (Some d, r))" by (simp add: dir_ok_def)
  show ?case
  proof (cases "deref d = CHR ''.'' \<or> pkgnmchk abi d (Some spec) False \<noteq> 0")
    case True
    then show ?thesis using ih by (auto simp: selects_def)
  next
    case False
    then obtain k where "ckinfo fs vs s d a v = Inr k" "length d \<le> PKGSIZ"
      using Cons.prems pkgnmchk_length[of abi d spec] by (auto simp: dir_ok_def)
    then show ?thesis using False ih by (auto simp: selects_def sprintf_to_def)
  qed
qed simp

lemma ckinst_dir: "ckinst fs vs (s\<lparr>i_dir := x\<rparr>) = ckinst fs vs s"
  by (intro ext) (simp add: ckinst_def compver_def cong: option.case_cong if_cong)

lemma ckinfo_dir: "ckinfo fs vs (s\<lparr>i_dir := x\<rparr>) d a v = ckinfo fs vs s d a v"
  unfolding ckinfo_def ckinst_dir by simp

primrec collect :: "fsys \<Rightarrow> string \<Rightarrow> bool \<Rightarrow> string \<Rightarrow> string option \<Rightarrow> string option \<Rightarrow> nat \<Rightarrow> inst_st \<Rightarrow> (string list \<times> inst_st) res" where
  "collect fs vs abi spec a v 0 s = Inr ([], s)"
| "collect fs vs abi spec a v (Suc n) s =
     rbind (fpkginst fs vs abi (Some spec) a v s) (\<lambda>(r, s1).
     case r of
       None \<Rightarrow> Inr ([], s1)
     | Some d \<Rightarrow> rbind (collect fs vs abi spec a v n s1) (\<lambda>(ds, s2). Inr (d # ds, s2)))"

lemma use_dir_idem: "pkgdir p \<noteq> D_null \<Longrightarrow> use_dir vs p = p"
  by (simp add: use_dir_def)

lemma fpkginst_open:
  assumes "pkgdir (i_pkg s) \<noteq> D_null" "fs_dir fs (get_PKGOLD (i_pkg s)) = None" "i_old s = None"
    "(case i_dir s of None \<Rightarrow> fs_dir fs (the_dir (i_pkg s) (pkgdir (i_pkg s))) | Some ds \<Rightarrow> Some ds) = Some ds"
    "dir_ok fs vs abi s spec a v ds"
  shows "fpkginst fs vs abi (Some spec) a v s =
    Inr (case dropWhile (\<lambda>d. \<not> selects fs vs abi s spec a v d) ds of
        [] \<Rightarrow> (None, s\<lparr>i_dir := None\<rparr>) | d # r \<Rightarrow> (Some d, s\<lparr>i_dir := Some r\<rparr>))"
proof -
  define D where "D = dropWhile (\<lambda>d. \<not> selects fs vs abi s spec a v d) ds"
  have "dir_search fs vs abi s spec a v ds = Inr (case D of [] \<Rightarrow> (None, []) | d # r \<Rightarrow> (Some d, r))"
    unfolding D_def by (rule dir_search_first[OF assms(5)])
  moreover have "s\<lparr>i_pkg := use_dir vs (i_pkg s)\<rparr> = s" using use_dir_idem[OF assms(1)] by simp
  ultimately show ?thesis
    unfolding D_def[symmetric] using assms(2-4) by (cases D) (simp_all add: fpkginst_def Let_def svr4inst_def)
qed

lemma collect_open:
  assumes "pkgdir (i_pkg s) \<noteq> D_null" "fs_dir fs (get_PKGOLD (i_pkg s)) = None" "i_old s = None"
    "(case i_dir s of None \<Rightarrow> fs_dir fs (the_dir (i_pkg s) (pkgdir (i_pkg s))) | Some ds \<Rightarrow> Some ds) = Some ds"
    "dir_ok fs vs abi s spec a v ds" "length ds < n"
  shows "collect fs vs abi spec a v n s = Inr (filter (selects fs vs abi s spec a v) ds, s\<lparr>i_dir := None\<rparr>)"
  using assms
proof (induction n arbitrary: s ds)
  case (Suc n)
  let ?sel = "selects fs vs abi s spec a v"
  note f = fpkginst_open[OF Suc.prems(1-5)]
  show ?case
  proof (cases "dropWhile (\<lambda>d. \<not> ?sel d) ds")
    case Nil
    then have "filter ?sel ds = []" by (simp add: filter_empty_conv)
    then show ?thesis using f Nil by simp
  next
    case (Cons d r)
    then have ds: "ds = takeWhile (\<lambda>d. \<not> ?sel d) ds @ d # r" by (metis takeWhile_dropWhile_id)
    have "?sel d" using Cons hd_dropWhile[of "\<lambda>d. \<not> ?sel d" ds] by simp
    moreover have "filter ?sel (takeWhile (\<lambda>d. \<not> ?sel d) ds) = []" by (auto simp: filter_empty_conv dest: set_takeWhileD)
    ultimately have fl: "filter ?sel ds = d # filter ?sel r" by (subst ds) simp
    have same: "selects fs vs abi (s\<lparr>i_dir := Some r\<rparr>) spec a v = ?sel" by (auto simp: selects_def ckinfo_dir)
    have "set r \<subseteq> set ds" "length r < length ds" by (subst ds, force)+
    then have "collect fs vs abi spec a v n (s\<lparr>i_dir := Some r\<rparr>) =
        Inr (filter (selects fs vs abi (s\<lparr>i_dir := Some r\<rparr>) spec a v) r, (s\<lparr>i_dir := Some r\<rparr>)\<lparr>i_dir := None\<rparr>)"
      using Suc.prems by (intro Suc.IH) (auto simp: dir_ok_def ckinfo_dir)
    then show ?thesis using f Cons fl by (simp add: same)
  qed
qed simp

text \<open>
  C20. The search gives every instance: called again and again with the same specification, \<open>fpkginst\<close> returns exactly the names in the directory that are
  valid, match the specification and have the architecture and version asked for, each once and in the order of the directory, then \<open>NULL\<close>,
  and closes the directory. (There are no packages of older systems, and the candidates can be checked.)
\<close>

theorem fpkginst_enumerates:
  assumes "pkgdir (i_pkg s) \<noteq> D_null" "fs_dir fs (get_PKGOLD (i_pkg s)) = None" "i_old s = None" "i_dir s = None"
    "fs_dir fs (the_dir (i_pkg s) (pkgdir (i_pkg s))) = Some ds" "dir_ok fs vs abi s spec a v ds"
  shows "collect fs vs abi spec a v (Suc (length ds)) s = Inr (filter (selects fs vs abi s spec a v) ds, s)"
proof -
  have "s\<lparr>i_dir := None\<rparr> = s" using assms(4) by simp
  then show ?thesis using collect_open[OF assms(1-3) _ assms(6), of "Suc (length ds)"] assms(4,5) by simp
qed

definition demo_fs :: fsys where
  "demo_fs = \<lparr>fs_file = (\<lambda>f. if f \<in> {''/p/SUNWa/pkginfo'', ''/p/SUNWb/pkginfo'', ''/p/SUNWa.2/pkginfo''} then Some (''ARCH=i386'' @ [NL]) else None),
     fs_dir = (\<lambda>d. if d = ''/p'' then Some [''.'', ''SUNWb'', ''SUNWa.2'', ''SUNWa'', ''SUNWa.3''] else None)\<rparr>"

definition demo_inst :: inst_st where
  "demo_inst = \<lparr>i_pkg = pkgst0\<lparr>pkgdir := D_str ''/p''\<rparr>, i_dir = None, i_old = None\<rparr>"

lemma demo_names:
  "pkgnmchk False ''SUNWb'' (Some ''SUNWa.*'') False = 1" "pkgnmchk False ''SUNWa'' (Some ''SUNWa.*'') False = 0"
  "pkgnmchk False ''SUNWa.2'' (Some ''SUNWa.*'') False = 0" "pkgnmchk False ''SUNWa.3'' (Some ''SUNWa.*'') False = 0"
  by code_simp+

lemma demo_ckinfo:
  "ckinfo demo_fs ''/var/sadm'' demo_inst ''SUNWa'' None None = Inr 0" "ckinfo demo_fs ''/var/sadm'' demo_inst ''SUNWa.2'' None None = Inr 0"
  "ckinfo demo_fs ''/var/sadm'' demo_inst ''SUNWa.3'' None None = Inr 1"
  by (simp_all add: ckinfo_def sprintf_to_def demo_inst_def demo_fs_def PATH_MAX_def)

theorem fpkginst_enumerates_witness:
  "collect demo_fs ''/var/sadm'' False ''SUNWa.*'' None None 6 demo_inst = Inr ([''SUNWa.2'', ''SUNWa''], demo_inst)"
proof -
  let ?ds = "[''.'', ''SUNWb'', ''SUNWa.2'', ''SUNWa'', ''SUNWa.3'']"
  have d: "dir_ok demo_fs ''/var/sadm'' False demo_inst ''SUNWa.*'' None None ?ds"
    by (simp add: dir_ok_def demo_names demo_ckinfo PKGSIZ_def)
  have p: "pkgdir (i_pkg demo_inst) \<noteq> D_null" "fs_dir demo_fs (get_PKGOLD (i_pkg demo_inst)) = None" "i_old demo_inst = None" "i_dir demo_inst = None"
    "fs_dir demo_fs (the_dir (i_pkg demo_inst) (pkgdir (i_pkg demo_inst))) = Some ?ds"
    by (simp_all add: demo_inst_def demo_fs_def get_PKGOLD_def pkgst0_def PKGOLD_def)
  have "filter (selects demo_fs ''/var/sadm'' False demo_inst ''SUNWa.*'' None None) ?ds = [''SUNWa.2'', ''SUNWa'']"
    by (simp add: selects_def demo_names demo_ckinfo)
  moreover have "Suc (length ?ds) = 6" by simp
  ultimately show ?thesis using fpkginst_enumerates[OF p d] by metis
qed

end
