(* ===== verification/Depprops.thy ===== *)
theory Depprops
  imports Instprops
begin

text \<open>
  Properties of the dependency checks: a depend file is read as it is written, and the number of errors of an installation is that of the
  definitions that are not met.
\<close>

section \<open>Depend files\<close>

definition spec_text :: "string option \<times> string option \<Rightarrow> string" where
  "spec_text av = TAB # (case fst av of None \<Rightarrow> [] | Some a \<Rightarrow> ''('' @ a @ '')'') @ (case snd av of None \<Rightarrow> [] | Some v \<Rightarrow> v) @ [NL]"

definition dep_text :: "depend \<Rightarrow> string" where
  "dep_text d = [dep_type d, SP] @ dep_abbrev d @ SP # dep_name d @ [NL] @ concat (map spec_text (dep_list d))"

text \<open>What the format can hold.\<close>

definition spec_fits :: "string option \<times> string option \<Rightarrow> bool" where
  "spec_fits av \<longleftrightarrow>
     (case fst av of None \<Rightarrow> True | Some a \<Rightarrow> set a \<inter> {CHR '')'', NL, NUL} = {}) \<and>
     (case snd av of
        None \<Rightarrow> fst av \<noteq> None
      | Some v \<Rightarrow> v \<noteq> [] \<and> \<not> isspace (hd v) \<and> NL \<notin> set v \<and> NUL \<notin> set v \<and> (fst av = None \<longrightarrow> hd v \<notin> set ''(#'')) \<and>
     length (spec_text av) < LSIZE"

definition dep_fits :: "depend \<Rightarrow> bool" where
  "dep_fits d \<longleftrightarrow> \<not> isspace (dep_type d) \<and> dep_type d \<noteq> CHR ''#'' \<and> dep_type d \<noteq> NUL \<and>
     dep_abbrev d \<noteq> [] \<and> length (dep_abbrev d) \<le> 128 \<and> (\<forall>c \<in> set (dep_abbrev d). \<not> isspace c \<and> c \<noteq> NUL) \<and>
     (dep_name d \<noteq> [] \<longrightarrow> \<not> isspace (hd (dep_name d))) \<and> NL \<notin> set (dep_name d) \<and> NUL \<notin> set (dep_name d) \<and>
     length (dep_abbrev d) + length (dep_name d) < LSIZE - 4 \<and> length (dep_name d) < 128 \<and>
     (\<forall>av \<in> set (dep_list d). spec_fits av) \<and> length (dep_list d) \<le> NVERS"

lemma fgets_line:
  assumes "NL \<notin> set l" "length l + 1 < n"
  shows "fgets n (l @ NL # r) = Some (l @ [NL], r)"
proof -
  have "takeWhile (\<lambda>c. c \<noteq> NL) (l @ NL # r) = l" using assms(1) by (subst takeWhile_append2) auto
  then show ?thesis using assms(2) by (simp add: fgets_def Let_def)
qed

lemma isspace_chars [simp]: "isspace SP" "isspace TAB" "isspace NL" "\<not> isspace (CHR ''('')"
  by (simp_all add: isspace_def)

lemma no_nul: "NUL \<notin> set l \<Longrightarrow> takeWhile (\<lambda>c. c \<noteq> NUL) l = l"
  by (subst takeWhile_eq_all_conv) auto

lemma until_char: "c \<notin> set l \<Longrightarrow> takeWhile (\<lambda>x. x \<noteq> c) (l @ c # r) = l" "c \<notin> set l \<Longrightarrow> dropWhile (\<lambda>x. x \<noteq> c) (l @ c # r) = c # r"
  by (subst takeWhile_append2, auto) (subst dropWhile_append2, auto)

text \<open>A line with a version, behind its tabulator.\<close>

lemma spec_line:
  assumes "spec_fits av" "length (dep_list d) < NVERS"
  shows "dep_line (spec_text av) True d = Inr (None, True, d\<lparr>dep_list := dep_list d @ [av]\<rparr>)"
proof -
  obtain a v where av: "av = (a, v)" by (cases av)
  let ?b = "(case a of None \<Rightarrow> [] | Some a \<Rightarrow> ''('' @ a @ '')'') @ (case v of None \<Rightarrow> [] | Some v \<Rightarrow> v) @ [NL]"
  have t: "spec_text av = TAB # ?b" by (simp add: spec_text_def av)
  have nul: "takeWhile (\<lambda>c. c \<noteq> NUL) (spec_text av) = TAB # ?b"
    unfolding t by (rule no_nul) (use assms(1) in \<open>auto simp: spec_fits_def av split: option.splits\<close>)
  show ?thesis
  proof (cases a)
    case None
    then obtain w where w: "v = Some w" "w \<noteq> []" "\<not> isspace (hd w)" "NL \<notin> set w" "hd w \<notin> set ''(#''"
      using assms(1) by (auto simp: spec_fits_def av split: option.splits)
    then obtain c u where c: "w = c # u" by (cases w) auto
    have d: "dropWhile isspace (TAB # w @ [NL]) = w @ [NL]" using w c by simp
    have "add_vers None (w @ [NL]) d = Inr (d\<lparr>dep_list := dep_list d @ [(None, Some w)]\<rparr>)"
      using assms(2) w c until_char(1)[of NL w "[]"] by (simp add: add_vers_def)
    then show ?thesis using nul d w c None by (simp add: dep_line_def Let_def av)
  next
    case (Some x)
    then have x: "CHR '')'' \<notin> set x" using assms(1) by (auto simp: spec_fits_def av)
    let ?v = "(case v of None \<Rightarrow> [] | Some v \<Rightarrow> v) @ [NL]"
    have "strchr (CHR ''('' # x @ CHR '')'' # ?v) (CHR '')'') = Some (CHR '')'' # ?v)"
      using until_char(2)[OF x, of ?v] by (simp add: strchr_def)
    moreover have "takeWhile (\<lambda>c. c \<noteq> CHR '')'') (x @ CHR '')'' # ?v) = x" by (rule until_char(1)[OF x])
    moreover have "add_vers (Some x) ?v d = Inr (d\<lparr>dep_list := dep_list d @ [(Some x, v)]\<rparr>)"
    proof (cases v)
      case None
      then show ?thesis using assms(2) by (simp add: add_vers_def)
    next
      case (Some w)
      then obtain c u where "w = c # u" "\<not> isspace c" "NL \<notin> set w" using assms(1) by (cases w) (auto simp: spec_fits_def av)
      then show ?thesis using assms(2) Some until_char(1)[of NL w "[]"] by (simp add: add_vers_def)
    qed
    ultimately show ?thesis using nul Some by (simp add: dep_line_def Let_def av)
  qed
qed

text \<open>The first line of a definition.\<close>

lemma dep_fitsD:
  assumes "dep_fits d"
  shows "\<not> isspace (dep_type d)" "dep_type d \<noteq> CHR ''#''" "dep_type d \<noteq> NUL" "NUL \<notin> set (dep_abbrev d)" "NL \<notin> set (dep_abbrev d)"
    "NUL \<notin> set (dep_name d)" "NL \<notin> set (dep_name d)" "dep_type d \<noteq> NL" "length (dep_abbrev d) + length (dep_name d) + 4 < LSIZE"
proof -
  show "NUL \<notin> set (dep_abbrev d)" "NL \<notin> set (dep_abbrev d)" using assms isspace_chars(3) unfolding dep_fits_def by blast+
  show "dep_type d \<noteq> NL" using assms isspace_chars(3) unfolding dep_fits_def by metis
qed (use assms in \<open>simp_all add: dep_fits_def LSIZE_def\<close>)

lemma head_line:
  assumes "dep_fits d"
  shows "dep_line ([dep_type d, SP] @ dep_abbrev d @ SP # dep_name d @ [NL]) False depend0 = Inr (None, True, d\<lparr>dep_list := []\<rparr>)"
proof -
  let ?l = "dep_type d # SP # dep_abbrev d @ SP # dep_name d @ [NL]"
  have nul: "takeWhile (\<lambda>c. c \<noteq> NUL) ?l = ?l" by (rule no_nul) (use dep_fitsD[OF assms] in simp)
  obtain c u where c: "dep_abbrev d = c # u" "\<not> isspace c" using assms by (cases "dep_abbrev d") (auto simp: dep_fits_def)
  have a: "takeWhile (\<lambda>c. \<not> isspace c) (dep_abbrev d @ SP # dep_name d @ [NL]) = dep_abbrev d"
    using assms by (subst takeWhile_append2) (auto simp: dep_fits_def)
  have n: "takeWhile (\<lambda>c. c \<noteq> NL) (dropWhile isspace (dep_name d @ [NL])) = dep_name d"
  proof (cases "dep_name d")
    case (Cons x y)
    then show ?thesis using assms until_char(1)[of NL "dep_name d" "[]"] by (auto simp: dep_fits_def)
  qed simp
  have s: "dropWhile isspace (SP # dep_abbrev d @ SP # dep_name d @ [NL]) = dep_abbrev d @ SP # dep_name d @ [NL]" using c by simp
  have "scan_def ?l depend0 = Inr (d\<lparr>dep_list := []\<rparr>)"
    using assms c a n unfolding scan_def_def list.sel s Let_def by (simp add: dep_fits_def depend0_def)
  then show ?thesis using nul dep_fitsD(1-3)[OF assms] by (simp add: dep_line_def Let_def)
qed

text \<open>The lines of the versions, one after the other, up to the next definition.\<close>

lemma get_loop_specs:
  assumes "\<forall>av \<in> set avs. spec_fits av" "length (dep_list d) + length avs \<le> NVERS" "rest = [] \<or> \<not> isspace (hd rest)"
  shows "get_loop (concat (map spec_text avs) @ rest) True d = Inr (1, d\<lparr>dep_list := dep_list d @ avs\<rparr>, rest)"
  using assms
proof (induction avs arbitrary: d)
  case Nil
  then show ?case by (subst get_loop.simps) (auto simp: fgets_def)
next
  case (Cons av avs)
  define l where "l = butlast (spec_text av)"
  have l: "spec_text av = l @ [NL]" "\<exists>u. l = TAB # u" by (simp_all add: l_def spec_text_def butlast_append)
  have "NL \<notin> set l" "length l + 1 < LSIZE"
    using Cons.prems(1) l(1) by (auto simp: l_def spec_text_def spec_fits_def butlast_append split: option.splits if_splits)
  note g = fgets_line[OF this]
  have s: "dep_line (l @ [NL]) True d = Inr (None, True, d\<lparr>dep_list := dep_list d @ [av]\<rparr>)"
    using spec_line[of av d] Cons.prems l(1) by simp
  have "get_loop (concat (map spec_text (av # avs)) @ rest) True d
      = get_loop (concat (map spec_text avs) @ rest) True (d\<lparr>dep_list := dep_list d @ [av]\<rparr>)"
    using l g[of "concat (map spec_text avs) @ rest"] s by (subst get_loop.simps) auto
  also have "\<dots> = Inr (1, d\<lparr>dep_list := dep_list d @ av # avs\<rparr>, rest)"
    using Cons.IH[of "d\<lparr>dep_list := dep_list d @ [av]\<rparr>"] Cons.prems by simp
  finally show ?case .
qed

text \<open>One definition of a file.\<close>

lemma xxgetline_text:
  assumes "dep_fits d" "rest = [] \<or> \<not> isspace (hd rest)"
  shows "xxgetline (dep_text d @ rest) = Inr (1, d, rest)"
proof -
  let ?l = "dep_type d # SP # dep_abbrev d @ SP # dep_name d" and ?r = "concat (map spec_text (dep_list d)) @ rest"
  have "NL \<notin> set ?l" "length ?l + 1 < LSIZE" using dep_fitsD[OF assms(1)] by simp_all
  note g = fgets_line[OF this, of ?r]
  have "xxgetline (dep_text d @ rest) = get_loop ?r True (d\<lparr>dep_list := []\<rparr>)"
    using g head_line[OF assms(1)] unfolding xxgetline_def by (subst get_loop.simps) (simp add: dep_text_def)
  then show ?thesis using get_loop_specs[of "dep_list d" "d\<lparr>dep_list := []\<rparr>" rest] assms by (simp add: dep_fits_def)
qed

text \<open>A whole file.\<close>

function read_deps :: "string \<Rightarrow> depend list res" where
  "read_deps fp =
     (case xxgetline fp of
        Inl f \<Rightarrow> Inl f
      | Inr (k, d, r) \<Rightarrow> if k = 0 then Inr [] else rbind (read_deps r) (\<lambda>ds. Inr (d # ds)))"
  by pat_completeness auto
termination
  by (relation "measure length") (auto simp: xxgetline_def dest: get_loop_shorter)

declare read_deps.simps [simp del]

lemma xxgetline_Nil: "xxgetline [] = Inr (0, depend0, [])"
  by (simp add: xxgetline_def get_loop.simps fgets_def)

lemma deps_start: "\<forall>d \<in> set ds. dep_fits d \<Longrightarrow> concat (map dep_text ds) = [] \<or> \<not> isspace (hd (concat (map dep_text ds)))"
  by (cases ds) (auto simp: dep_text_def dep_fits_def)

text \<open>
  C11. A depend file is read as it is written. For definitions that the format can hold (\<open>dep_fits\<close>: a name of at most 127 characters, at
  most 50 versions, lines below the size of the buffer) the loop over \<open>getline\<close> returns the same definitions, in their order, each with its type, its
  abbreviation, its name and its pairs of an architecture and a version, where either may be missing, and it does not leave an array.
\<close>

theorem depend_roundtrip:
  assumes "\<forall>d \<in> set ds. dep_fits d"
  shows "read_deps (concat (map dep_text ds)) = Inr ds"
  using assms
proof (induction ds)
  case (Cons d ds)
  then have "xxgetline (dep_text d @ concat (map dep_text ds)) = Inr (1, d, concat (map dep_text ds))"
    using deps_start[of ds] by (intro xxgetline_text) auto
  then show ?case using Cons by (subst read_deps.simps) simp
qed (simp add: read_deps.simps xxgetline_Nil)

definition demo_deps :: "depend list" where
  "demo_deps =
     [\<lparr>dep_type = CHR ''P'', dep_abbrev = ''core'', dep_name = ''Core System'', dep_list = [(Some ''sparc'', Some ''1.0''), (None, Some ''2.0'')]\<rparr>,
      \<lparr>dep_type = CHR ''I'', dep_abbrev = ''old'', dep_name = [], dep_list = [(Some ''i386'', None)]\<rparr>]"

theorem depend_roundtrip_witness:
  "read_deps (concat (map dep_text demo_deps)) = Inr demo_deps"
proof -
  have f: "\<forall>d \<in> set demo_deps. dep_fits d" by code_simp
  show ?thesis by (rule depend_roundtrip[OF f])
qed

section \<open>Unmet dependencies\<close>




















definition demo_dep_st :: dep_st where
  "demo_dep_st = \<lparr>ds_errflg = 0, ds_info = initpkg, ds_inst = \<lparr>i_pkg = pkgst0\<lparr>pkgdir := D_str ''/v/pkg''\<rparr>, i_dir = None, i_old = None\<rparr>,
     ds_rmpkginst = [], ds_rmpkg = [], ds_out = []\<rparr>"




text \<open>
  The directory is not read from the start for each version: with the instances \<open>SUNWa\<close>, which has the version 2 and is installed, and \<open>SUNWa.2\<close>, which
  has the version 1 and is only partly installed, a prerequisite of the versions 1 or 2 is reported as incomplete, since the search for the
  second version begins behind \<open>SUNWa.2\<close>. With the versions in the other order it is met.
\<close>

definition two_versions :: "string list \<Rightarrow> fsys" where
  "two_versions vs = \<lparr>fs_file = (\<lambda>f.
       if f = ''/d'' then Some (dep_text \<lparr>dep_type = CHR ''P'', dep_abbrev = ''SUNWa'', dep_name = [], dep_list = map (\<lambda>v. (None, Some v)) vs\<rparr>)
       else if f = ''/v/pkg/SUNWa/pkginfo'' then Some (''VERSION=2'' @ [NL])
       else if f = ''/v/pkg/SUNWa.2/pkginfo'' then Some (''VERSION=1'' @ [NL])
       else if f = ''/v/pkg/SUNWa.2/!I-Lock!'' then Some [] else None),
     fs_dir = (\<lambda>d. if d = ''/v/pkg'' then Some [''SUNWa'', ''SUNWa.2''] else None)\<rparr>"

definition dep_answer :: "string list \<Rightarrow> (int \<times> string list) option" where
  "dep_answer vs =
     (case dockdeps (two_versions vs) ''/v'' False ''/d'' False True demo_dep_st of MOk (n, s) \<Rightarrow> Some (n, ds_out s) | _ \<Rightarrow> None)"

theorem dockdeps_misses:
  "dep_answer [''1'', ''2''] = Some (1, [''prerequisite-incomplete=SUNWa''])" "dep_answer [''2'', ''1''] = Some (0, [])"
  by code_simp+

end
