(* ===== verification/Spec2Isabelle.thy ===== *)
theory Spec2Isabelle
  imports Pkgstr Vfp Paths Maplines Cfread Locks Mergeprops Listprops Objprops Smlprops Smlstat Infoprops Depprops
begin

text \<open>
  Verification of the Heirloom packaging tools (the SVR4 package commands, Darwin port).

  \<^bold>\<open>The program.\<close> A package describes its objects in a package map (\<open>pkgmap\<close>), one line per object. The
  commands read map lines into entries (\<open>struct cfent\<close>), resolve variables in their paths, and keep the
  objects of all installed packages in the contents database, a file sorted by path with the packages
  that own each object at the end of its line. Installing and removing merge map lines into that file:
  \<open>pkgdbmerg\<close> holds the old file and the new one in memory as virtual files, \<open>srchcfile\<close> finds an entry and
  copies what lies before it, \<open>eptstat\<close> and \<open>merg\<close> change it, \<open>putcvfpfile\<close> writes it; \<open>averify\<close> and \<open>cverify\<close>
  compare the objects on disk with their entries. Commands that run at the same time are kept
  apart by administrative locks, which \<open>pkgadm lock\<close> keeps in a file of their own. The parameters of a package
  come from its \<open>pkginfo\<close> file, live in the environment while the commands and scripts run, and are written to the
  file of the installed package; other data goes through the environment as marked-up text.

  \<^bold>\<open>The model.\<close> Machine integers are words of their width where the code relies on it. In \<open>Listmgr\<close> the fields of type
  \<open>int\<close> are integers and each sum and product of the code is checked against the range of an \<open>int\<close>, a result outside
  being the fault \<open>IntOverflow\<close>. Strings are character lists without the closing NUL, a pointer into a string is the rest of the string it points to. A C function that can
  write outside an array, fail an assertion or dereference \<open>NULL\<close> returns a sum (\<open>res\<close>) whose left side
  says so; other failures are the return values of the code. What the sources only call (the file
  system, \<open>fnmatch\<close>, the environment, the clock, other processes) is an argument.

  \<^item> \<open>Prelude\<close>, \<open>Cnum\<close>: C results, the parts of the C library that the sources use, number formats, and
    the lemmas on lists, tokens and digits that the components share.
  \<^item> \<open>Pkgstr\<close> (\<open>src/libpkg/pkgstr.c\<close>): tokens, path splitting, scaled numbers, time stamps. The lemmas relate
    the token functions to the list of tokens of a string (count, removal, union) and give round trips.
  \<^item> \<open>Vfp\<close> (\<open>src/libpkg/vfpops.c\<close>, the macros of \<open>pkglib.h\<close>): a file held in memory, with its cursor, end,
    high water mark and overflow flag; writing it out against interrupted and short writes; checkpoints.
    The locale \<open>text_output\<close> states what a sequence of output calls promises; the virtual file and the
    checked \<open>FILE\<close> of \<open>Putcfile\<close> are its instances.
  \<^item> \<open>Paths\<close> (\<open>canonize.c\<close>, \<open>mappath.c\<close>): canonical paths against a resolution of components, variables.
  \<^item> \<open>Cfent\<close>, \<open>Gpkgmap\<close> (\<open>src/hdrs/pkgstrct.h\<close>, \<open>src/libpkg/gpkgmap.c\<close>): entries, and both parsers of map
    lines, over the field readers on a \<open>FILE\<close> and on memory.
  \<^item> \<open>Putcfile\<close> (\<open>ppkgmap.c\<close>, \<open>putcfile.c\<close>, \<open>tputcfent.c\<close>): the writers of map lines, of lines of the contents
    database and of the listing.
  \<^item> \<open>Maplines\<close>: the locales \<open>field_reader\<close> and \<open>map_reader\<close> (what a reader returns on a written field)
    with both readers as instances; a written map line is read back as the entry, by both parsers.
  \<^item> \<open>Srchcfile\<close> (\<open>srchcfile.c\<close>): the binary search, the loop over the lines of the database with its
    error paths, the fields and the packages of the entry found. \<open>Contents\<close> proves where the search
    stops in a sorted database and what it has copied by then, \<open>Cfread\<close> that the entry it returns is the
    one that was written.
  \<^item> \<open>Lockmatch\<close>, \<open>Adminlock\<close> (\<open>src/pkgcmds/pkgadm/lock.c\<close>): matching of lock objects, the lock file whose
    system calls may fail or write a part of a record only (the file is then \<open>torn\<close>: its records may become anything, and the
    invariants are claimed for files that are not torn), acquiring, releasing, waiting, the subcommand. \<open>Lockinv\<close> states the interface
    of an invariant of the lock file as the locale \<open>lock_invariant\<close>, with two instances: the form of the
    records, and mutual exclusion. \<open>Locks\<close> holds the properties.
  \<^item> \<open>Verify\<close> (\<open>src/libpkg/verify.c\<close>): checksum, contents, type and attributes of installed objects against
    their entries, over a record of system calls. \<open>Setlist\<close> (\<open>src/libinst/setlist.c\<close>): the classes of an
    installation and their verification levels. \<open>Eptstat\<close> (\<open>src/libinst/eptstat.c\<close>): the packages of an entry.
  \<^item> \<open>Pkgdbmerg\<close> (\<open>src/libinst/pkgdbmerg.c\<close>): the merge of a package map into the contents database. \<open>Mergent\<close>
    shows what is written for an entry, \<open>Mergedb\<close> relates the loop over map and database to an abstract
    merge of entries with paths (\<open>merges\<close>, with the paths for which nothing may be written), \<open>Mergeprops\<close> derives what
    the merge keeps of the database and which entries it adds.
  \<^item> \<open>Listmgr\<close> (\<open>src/libinst/listmgr.c\<close>): growing arrays of records over memory whose allocation may fail or move.
    \<open>Listarr\<close> relates memory and control structures to lists, \<open>Listprops\<close> shows that all arrays together refine
    independent lists, through the locale \<open>simulation\<close> of \<open>Prelude\<close>, within the limits it states (no failed allocation, fifty arrays,
    sizes in the range of an \<open>int\<close>), and what overflows beyond them.
  \<^item> \<open>Fixpath\<close> (\<open>src/libinst/fixpath.c\<close>): install root and base directory, and the places of a path on this
    machine, on the client and in the map.
  \<^item> \<open>Entsort\<close>, \<open>Pkgobjmap\<close> (\<open>src/libinst/pkgobjmap.c\<close>, \<open>procmap.c\<close>, \<open>nblk.c\<close>, \<open>src/pkgcmds/pkginstall/sortmap.c\<close>): the
    objects of a package. The locale \<open>entry_order\<close> has the sort and its equality with insertion for any
    records and any merging of equal paths; the two arrays of the sources are its instances. \<open>Objprops\<close> composes
    reading, placing, sorting and merging, for every text of a map: \<open>sortmap\<close> ends, and when the map is accepted it keeps the
    contents database and enters the objects of the package.
  \<^item> \<open>Sml\<close>, \<open>Smltext\<close> (\<open>src/libinst/sml.c\<close>): tag objects with parameters and subtags, in which programs hand data to each
    other, the encoding of values, the writer and the parser. \<open>Smlread\<close> shows how the parser moves on, \<open>Smlround\<close>
    that it reads what was written, \<open>Smlprops\<close> has the round trips and the parameters as a map, \<open>Smlstat\<close> the file
    status kept in a tag.
  \<^item> \<open>Pkgnm\<close> (\<open>src/libadm/pkgnmchk.c\<close>, \<open>src/libpkg/ckparam.c\<close>): valid package names and parameters. \<open>Pkgparam\<close>
    (\<open>src/libadm/pkgparam.c\<close>): the reader of parameter files, \<open>Putparam\<close> (\<open>src/libinst/putparam.c\<close>): the environment array.
    \<open>Parmread\<close> shows that the reader stays in its buffers and reads written lines back.
  \<^item> \<open>Merginfo\<close> (\<open>src/pkgcmds/pkginstall\<close>: \<open>pkgenv.c\<close>, \<open>merginfo.c\<close> and \<open>merg_pkginfos\<close> of \<open>main.c\<close>): the parameters of a package
    between its \<open>pkginfo\<close> file and the environment. \<open>Mergattr\<close> has the table of attributes and its binary search, \<open>Infoprops\<close>
    the round trip through the file, the rules of an update, and the environment as an instance of \<open>simulation\<close>.
  \<^item> \<open>Pkginst\<close> (\<open>src/libadm/pkginfo.c\<close>): the instances of packages, their search by name, architecture and version, and their data.
    \<open>Dockdeps\<close> (\<open>src/libinst/dockdeps.c\<close>): depend files and the checks before an installation or a removal. \<open>Instprops\<close>
    has the comparisons and the search, \<open>Depprops\<close> the round trip of depend files and what the check counts for a file: the
    versions that no installed instance meets, with the cases in which the code misses one.

  \<^bold>\<open>Bounds and fuel.\<close> Loops are functions with termination proofs. Five have fuel: the loop of
  \<open>srchcfile\<close> over the lines, where the theorems ask for one round per line and one more, the loop of
  \<open>pkgdbmerg\<close>, for which \<open>Mergeprops.pkgdbmerg_refines\<close> needs one round per entry of the map and one more, the loops
  of \<open>pkgobjmap\<close> and \<open>procmap\<close>, for which one round per character of the map and one more suffices
  (\<open>Objprops.objects_return\<close>; \<open>Mapends\<close> shows that the parser moves on), the recursion of \<open>_smlReadTag\<close>, for which twice the
  length of the text and two suffices (\<open>Smlread.read_enough\<close>, \<open>Smlprops.sml_reading_ends\<close>), and the loop of \<open>_lock_acquire\<close>
  that drops locks of dead holders, for which \<open>Locks.lock_acquire_terminates\<close> proves that the number of
  holders plus the number of failing calls suffices.

  \<^bold>\<open>Not modelled.\<close> The vendored SQL engine and the database over it, certificates and downloads (the work
  is done by OpenSSL), the transfer of package archives (input and output around external programs),
  prompts, messages, and the main programs of the commands.

  \<^bold>\<open>Plan.\<close> Left for later are the caches of user and group names and the prompts of \<open>libadm\<close>.
\<close>

end
